(* ===== verification/Prelude.thy ===== *)
theory Prelude
  imports Main "HOL-Library.AList" "HOL-Library.Word" "HOL-Library.Char_ord"
    "HOL-Library.List_Lexorder" "HOL-Library.Product_Lexorder" "HOL-Library.Multiset"
begin

text \<open>
  What every component of the development shares.

  \<^item> Go's fixed-width integers.  An \<open>int64\<close> (and \<open>int\<close>, which is 64 bits wide on the
    supported targets) is an \<open>int\<close> whose arithmetic is wrapped by \<open>i64\<close>; a \<open>uint64\<close>
    counter is a \<open>64 word\<close>.
  \<^item> Go's instants and durations, in nanoseconds: the zero \<open>time.Time\<close> is \<open>0\<close>, and
    \<open>Time.Sub\<close> saturates at the ends of \<open>int64\<close>.
  \<^item> Go's maps, as association lists with distinct keys.  The list order stands for the
    (unspecified) iteration order of \<open>range\<close>.
  \<^item> \<open>sort.Slice\<close>, as an insertion sort over the comparator the code passes, with the locale
    \<open>slice_less\<close> that relates a comparator to the key it orders by.
\<close>

named_theorems gomap \<open>lookups, keys and sizes of Go maps\<close>
named_theorems inv_intro \<open>how the components establish their invariants\<close>

section \<open>Integers and times\<close>

type_synonym u64 = "64 word"
type_synonym gtime = int
type_synonym duration = int

definition int64_max :: int where
  "int64_max = 9223372036854775807"

definition int64_min :: int where
  "int64_min = -9223372036854775808"

definition i64 :: "int \<Rightarrow> int" where
  "i64 x = (x + 9223372036854775808) mod 18446744073709551616 - 9223372036854775808"

abbreviation is_i64 :: "int \<Rightarrow> bool" where
  "is_i64 x \<equiv> int64_min \<le> x \<and> x \<le> int64_max"

lemma i64_id: "int64_min \<le> x \<Longrightarrow> x \<le> int64_max \<Longrightarrow> i64 x = x"
  by (simp add: i64_def int64_min_def int64_max_def mod_pos_pos_trivial)

lemma i64_range: "int64_min \<le> i64 x" "i64 x \<le> int64_max"
proof -
  have "0 \<le> (x + 9223372036854775808) mod 18446744073709551616"
    by simp
  moreover have "(x + 9223372036854775808) mod 18446744073709551616 < 18446744073709551616"
    by simp
  ultimately show "int64_min \<le> i64 x" "i64 x \<le> int64_max"
    unfolding i64_def int64_min_def int64_max_def by linarith+
qed

lemma i64_idem [simp]: "i64 (i64 x) = i64 x"
  by (rule i64_id) (rule i64_range)+

lemma i64_add_left: "i64 (i64 x + y) = i64 (x + y)"
proof -
  let ?m = "18446744073709551616 :: int" and ?h = "9223372036854775808 :: int"
  have "(((x + ?h) mod ?m - ?h) + y + ?h) mod ?m = ((x + ?h) mod ?m + y) mod ?m"
    by (simp add: algebra_simps)
  also have "\<dots> = (x + ?h + y) mod ?m"
    by (rule mod_add_left_eq)
  finally show ?thesis
    by (simp add: i64_def algebra_simps)
qed

text \<open>Go's integer division truncates toward zero.\<close>

definition go_div :: "int \<Rightarrow> int \<Rightarrow> int" where
  "go_div a b = sgn a * sgn b * (\<bar>a\<bar> div \<bar>b\<bar>)"

text \<open>\<open>Time.Sub\<close>: the difference, saturated.\<close>

definition time_sub :: "gtime \<Rightarrow> gtime \<Rightarrow> duration" where
  "time_sub a b = max int64_min (min int64_max (a - b))"

lemma time_sub_gt: "d < int64_max \<Longrightarrow> int64_min \<le> d \<Longrightarrow> time_sub a b > d \<longleftrightarrow> a - b > d"
  by (auto simp: time_sub_def)

lemma time_sub_le: "d < int64_max \<Longrightarrow> int64_min \<le> d \<Longrightarrow> time_sub a b \<le> d \<longleftrightarrow> a - b \<le> d"
  by (auto simp: time_sub_def)

definition second :: duration where
  "second = 1000000000"

definition millisecond :: duration where
  "millisecond = 1000000"

section \<open>Go maps\<close>

type_synonym ('k, 'v) gomap = "('k \<times> 'v) list"

abbreviation gput :: "'k \<Rightarrow> 'v \<Rightarrow> ('k, 'v) gomap \<Rightarrow> ('k, 'v) gomap" where
  "gput \<equiv> AList.update"

abbreviation gdel :: "'k \<Rightarrow> ('k, 'v) gomap \<Rightarrow> ('k, 'v) gomap" where
  "gdel \<equiv> AList.delete"

abbreviation gkeys :: "('k, 'v) gomap \<Rightarrow> 'k list" where
  "gkeys m \<equiv> map fst m"

abbreviation gmap_ok :: "('k, 'v) gomap \<Rightarrow> bool" where
  "gmap_ok m \<equiv> distinct (map fst m)"

text \<open>\<open>range\<close> loops that rewrite every value, or delete the keys that fail a test.\<close>

definition gmap_vals :: "('k \<Rightarrow> 'v \<Rightarrow> 'w) \<Rightarrow> ('k, 'v) gomap \<Rightarrow> ('k, 'w) gomap" where
  "gmap_vals f m = map (\<lambda>(k, v). (k, f k v)) m"

definition gfilter :: "('k \<Rightarrow> bool) \<Rightarrow> ('k, 'v) gomap \<Rightarrow> ('k, 'v) gomap" where
  "gfilter p m = filter (\<lambda>(k, v). p k) m"

lemma map_of_gput [gomap]: "map_of (gput k v m) = (map_of m)(k \<mapsto> v)"
  by (rule update_conv')

lemma map_of_gdel [gomap]: "map_of (gdel k m) = (map_of m)(k := None)"
  by (rule delete_conv')

lemma gkeys_gmap_vals [gomap, simp]: "gkeys (gmap_vals f m) = gkeys m"
  by (induction m) (auto simp: gmap_vals_def)

lemma map_of_gmap_vals [gomap]: "map_of (gmap_vals f m) k = map_option (f k) (map_of m k)"
  by (induction m) (auto simp: gmap_vals_def)

lemma length_gmap_vals [simp]: "length (gmap_vals f m) = length m"
  by (simp add: gmap_vals_def)

lemma gmap_ok_gput [inv_intro, simp]: "gmap_ok m \<Longrightarrow> gmap_ok (gput k v m)"
  by (rule distinct_update)

lemma gmap_ok_gdel [inv_intro, simp]: "gmap_ok m \<Longrightarrow> gmap_ok (gdel k m)"
  by (rule distinct_delete)

lemma gmap_ok_gfilter [inv_intro, simp]: "gmap_ok m \<Longrightarrow> gmap_ok (gfilter p m)"
  by (induction m) (auto simp: gfilter_def image_iff)

lemma map_of_gfilter [gomap]:
  "gmap_ok m \<Longrightarrow> map_of (gfilter p m) k = (if p k then map_of m k else None)"
  by (induction m) (auto simp: gfilter_def map_of_eq_None_iff image_iff split: if_splits)

lemma gkeys_dom: "fst ` set m = dom (map_of m)"
  by (rule dom_map_of_conv_image_fst [symmetric])

lemma gkeys_gput [gomap]: "fst ` set (gput k v m) = insert k (fst ` set m)"
  by (simp add: gkeys_dom map_of_gput)

lemma gkeys_gdel [gomap]: "fst ` set (gdel k m) = fst ` set m - {k}"
  by (simp add: gkeys_dom map_of_gdel)

lemma gkeys_gfilter [gomap]: "fst ` set (gfilter p m) = {k \<in> fst ` set m. p k}"
  by (force simp: gfilter_def)

lemma gkeys_set_gmap_vals [gomap]: "fst ` set (gmap_vals f m) = fst ` set m"
  by (metis gkeys_gmap_vals list.set_map)

lemma length_gput: "length (gput k v m) = (if k \<in> fst ` set m then length m else Suc (length m))"
  by (induction m) auto

lemma length_gdel_le: "length (gdel k m) \<le> length m"
  by (rule length_delete_le)

lemma gmap_ok_card: "gmap_ok m \<Longrightarrow> card (fst ` set m) = length m"
  using distinct_card [of "gkeys m"] by simp

lemma length_gdel:
  assumes "gmap_ok m"
  shows "length (gdel k m) = (if k \<in> fst ` set m then length m - 1 else length m)"
  using gmap_ok_card [OF gmap_ok_gdel [OF assms], of k] gmap_ok_card [OF assms]
  by (auto simp: gkeys_gdel card_Diff_singleton_if split: if_splits)

lemma gmap_ok_in_iff: "gmap_ok m \<Longrightarrow> (k, v) \<in> set m \<longleftrightarrow> map_of m k = Some v"
  by auto

text \<open>A property of every entry of a map.\<close>

definition gmap_all :: "('k \<Rightarrow> 'v \<Rightarrow> bool) \<Rightarrow> ('k, 'v) gomap \<Rightarrow> bool" where
  "gmap_all P m = list_all (\<lambda>(k, v). P k v) m"

lemma gmap_all_Nil [inv_intro, simp]: "gmap_all P []"
  by (simp add: gmap_all_def)

lemma gmap_all_lookup: "gmap_all P m \<Longrightarrow> map_of m k = Some v \<Longrightarrow> P k v"
  by (auto simp: gmap_all_def list_all_iff dest: map_of_SomeD)

lemma gmap_all_iff: "gmap_ok m \<Longrightarrow> gmap_all P m \<longleftrightarrow> (\<forall>k v. map_of m k = Some v \<longrightarrow> P k v)"
  by (auto simp: gmap_all_def list_all_iff dest: map_of_SomeD)

lemma gmap_all_gput [inv_intro]: "P k v \<Longrightarrow> gmap_all P m \<Longrightarrow> gmap_all P (gput k v m)"
  by (induction m) (auto simp: gmap_all_def)

lemma gmap_all_gdel [inv_intro]: "gmap_all P m \<Longrightarrow> gmap_all P (gdel k m)"
  by (induction m) (auto simp: gmap_all_def)

lemma gmap_all_gfilter [inv_intro]: "gmap_all P m \<Longrightarrow> gmap_all P (gfilter p m)"
  by (induction m) (auto simp: gmap_all_def gfilter_def)

lemma gmap_all_gfilter_test: "gmap_all (\<lambda>k v. p k) (gfilter p m)"
  by (induction m) (auto simp: gmap_all_def gfilter_def)

lemma gmap_all_conj: "gmap_all (\<lambda>k v. P k v \<and> Q k v) m \<longleftrightarrow> gmap_all P m \<and> gmap_all Q m"
  by (induction m) (auto simp: gmap_all_def)

lemma gmap_all_gmap_vals: "gmap_all P (gmap_vals f m) \<longleftrightarrow> gmap_all (\<lambda>k v. P k (f k v)) m"
  by (induction m) (auto simp: gmap_all_def gmap_vals_def)

lemma gmap_all_mono: "gmap_all P m \<Longrightarrow> (\<And>k v. P k v \<Longrightarrow> Q k v) \<Longrightarrow> gmap_all Q m"
  by (induction m) (auto simp: gmap_all_def)

lemma gput_present: "gmap_ok m \<Longrightarrow> map_of m k = Some v \<Longrightarrow> gput k v m = m"
  by (induction m) (auto split: if_splits)

text \<open>
  The loops \<open>for h := range m { if h < oldest { oldest = h } }\<close> that find the smallest key,
  starting from a key known to be present.
\<close>

definition oldest_key :: "int \<Rightarrow> int list \<Rightarrow> int" where
  "oldest_key start ks = fold (\<lambda>h oldest. if h < oldest then h else oldest) ks start"

lemma oldest_key_Min: "oldest_key start ks = Min (insert start (set ks))"
proof (induction ks arbitrary: start)
  case Nil
  then show ?case by (simp add: oldest_key_def)
next
  case (Cons k ks)
  have "oldest_key start (k # ks) = oldest_key (min k start) ks"
    by (auto simp: oldest_key_def min_def)
  also have "\<dots> = Min (insert (min k start) (set ks))"
    by (rule Cons.IH)
  also have "\<dots> = Min (insert start (set (k # ks)))"
    by (cases "ks = []") (simp_all add: min.assoc min.left_commute min.commute)
  finally show ?case .
qed

lemma oldest_key_le: "k \<in> set ks \<Longrightarrow> oldest_key start ks \<le> k"
  by (simp add: oldest_key_Min)

lemma oldest_key_le_start: "oldest_key start ks \<le> start"
  by (simp add: oldest_key_Min)

lemma oldest_key_mem: "oldest_key start ks \<in> insert start (set ks)"
  unfolding oldest_key_Min by (rule Min_in) auto

section \<open>\<open>sort.Slice\<close>\<close>

fun slice_insert :: "('a \<Rightarrow> 'a \<Rightarrow> bool) \<Rightarrow> 'a \<Rightarrow> 'a list \<Rightarrow> 'a list" where
  "slice_insert lt x [] = [x]"
| "slice_insert lt x (y # ys) = (if lt y x then y # slice_insert lt x ys else x # y # ys)"

definition sort_slice :: "('a \<Rightarrow> 'a \<Rightarrow> bool) \<Rightarrow> 'a list \<Rightarrow> 'a list" where
  "sort_slice lt xs = foldr (slice_insert lt) xs []"

lemma mset_slice_insert: "mset (slice_insert lt x ys) = add_mset x (mset ys)"
  by (induction ys) auto

lemma mset_sort_slice [simp]: "mset (sort_slice lt xs) = mset xs"
  by (induction xs) (simp_all add: sort_slice_def mset_slice_insert)

lemma set_sort_slice [simp]: "set (sort_slice lt xs) = set xs"
  by (metis mset_sort_slice set_mset_mset)

lemma length_sort_slice [simp]: "length (sort_slice lt xs) = length xs"
  by (metis mset_sort_slice size_mset)

lemma distinct_map_sort_slice: "distinct (map f (sort_slice lt xs)) \<longleftrightarrow> distinct (map f xs)"
  by (rule mset_eq_imp_distinct_iff) simp

text \<open>
  The contract between a comparator and the components that sort with it: the comparator is the
  strict order of some key.  Inside, the sort is \<open>sort_key\<close>, its result is sorted, and it does
  not depend on the order of the input (the iteration order of a map) once keys are distinct.
\<close>

locale slice_less =
  fixes lt :: "'a \<Rightarrow> 'a \<Rightarrow> bool"
    and key :: "'a \<Rightarrow> 'b :: linorder"
  assumes lt_iff: "lt x y \<longleftrightarrow> key x < key y"
begin

lemma insert_insort: "slice_insert lt x ys = insort_key key x ys"
  by (induction ys) (auto simp: lt_iff)

lemma sort_is_sort_key: "sort_slice lt xs = sort_key key xs"
  by (induction xs) (simp_all add: sort_slice_def insert_insort)

lemma sorted_result: "sorted (map key (sort_slice lt xs))"
  by (simp add: sort_is_sort_key)

lemma sort_order_irrelevant:
  assumes "mset xs = mset ys" and "inj_on key (set xs)"
  shows "sort_slice lt xs = sort_slice lt ys"
proof -
  have "sort_key key xs = sort_key key ys"
    by (rule sort_key_inj_key_eq) (use assms in auto)
  then show ?thesis
    by (simp add: sort_is_sort_key)
qed

end

end
