(* ===== verification/Decimal.thy ===== *)
theory Decimal
  imports Prelude
begin

text \<open>
  Base-ten text as Go writes and reads it: \<open>strconv.FormatInt\<close> and \<open>big.Int.String\<close>,
  \<open>big.Int.SetString\<close> with base ten, and \<open>strconv.ParseInt\<close> for 64-bit results.  Powers and
  selectors travel through the program in this form.
\<close>

section \<open>Digits\<close>

definition digit :: "nat \<Rightarrow> char" where
  "digit d = char_of (48 + d)"

definition is_digit :: "char \<Rightarrow> bool" where
  "is_digit c \<longleftrightarrow> CHR ''0'' \<le> c \<and> c \<le> CHR ''9''"

definition digit_val :: "char \<Rightarrow> nat" where
  "digit_val c = of_char c - 48"

fun dec_nat :: "nat \<Rightarrow> string" where
  "dec_nat n = (if n < 10 then [digit n] else dec_nat (n div 10) @ [digit (n mod 10)])"

declare dec_nat.simps [simp del]

definition format_int :: "int \<Rightarrow> string" where
  "format_int i = (if i < 0 then CHR ''-'' # dec_nat (nat (- i)) else dec_nat (nat i))"

definition digits_val :: "string \<Rightarrow> nat" where
  "digits_val s = fold (\<lambda>c n. n * 10 + digit_val c) s 0"

definition parse_nat :: "string \<Rightarrow> nat option" where
  "parse_nat s = (if s \<noteq> '''' \<and> list_all is_digit s then Some (digits_val s) else None)"

text \<open>\<open>SetString(s, 10)\<close>: an optional sign and at least one digit, nothing else.\<close>

fun big_set_string :: "string \<Rightarrow> int option" where
  "big_set_string [] = None"
| "big_set_string (c # s) =
     (if c = CHR ''-'' then map_option (\<lambda>n. - int n) (parse_nat s)
      else if c = CHR ''+'' then map_option int (parse_nat s)
      else map_option int (parse_nat (c # s)))"

text \<open>\<open>ParseInt(s, 10, 64)\<close>: the same text, an error when the value does not fit.\<close>

definition parse_int64 :: "string \<Rightarrow> int option" where
  "parse_int64 s = Option.bind (big_set_string s) (\<lambda>i. if is_i64 i then Some i else None)"

section \<open>Round trips\<close>

lemma digit_cases: "d < 10 \<Longrightarrow> d = 0 \<or> d = 1 \<or> d = 2 \<or> d = 3 \<or> d = 4 \<or> d = 5 \<or> d = 6 \<or> d = 7 \<or> d = 8 \<or> d = (9::nat)"
  by arith

lemma digit_props [simp]:
  assumes "d < 10"
  shows "is_digit (digit d)" "digit_val (digit d) = d" "digit d \<noteq> CHR ''-''" "digit d \<noteq> CHR ''+''"
proof -
  have v: "of_char (digit d) = 48 + d"
    using assms by (simp add: digit_def)
  then show "digit_val (digit d) = d" by (simp add: digit_val_def)
  have "of_char (CHR ''0'') = (48 :: nat)" "of_char (CHR ''9'') = (57 :: nat)"
    "of_char (CHR ''-'') = (45 :: nat)" "of_char (CHR ''+'') = (43 :: nat)"
    by (simp_all add: of_char_def)
  with v assms show "is_digit (digit d)" "digit d \<noteq> CHR ''-''" "digit d \<noteq> CHR ''+''"
    by (auto simp: is_digit_def less_eq_char_def)
qed

lemma digits_val_append: "digits_val (s @ [c]) = digits_val s * 10 + digit_val c"
  by (simp add: digits_val_def)

lemma dec_nat_digits: "list_all is_digit (dec_nat n) \<and> dec_nat n \<noteq> '''' \<and> digits_val (dec_nat n) = n"
proof (induction n rule: dec_nat.induct)
  case (1 n)
  show ?case
  proof (cases "n < 10")
    case True
    then show ?thesis by (simp add: dec_nat.simps [of n] digits_val_def)
  next
    case False
    with 1 show ?thesis by (simp add: dec_nat.simps [of n] digits_val_append)
  qed
qed

lemma dec_nat_head: "\<exists>c s. dec_nat n = c # s \<and> c \<noteq> CHR ''-'' \<and> c \<noteq> CHR ''+''"
proof -
  obtain c s where cs: "dec_nat n = c # s" using dec_nat_digits [of n] by (cases "dec_nat n") auto
  then have "is_digit c" using dec_nat_digits [of n] by simp
  moreover have "\<not> is_digit (CHR ''-'')" "\<not> is_digit (CHR ''+'')"
    by (simp_all add: is_digit_def less_eq_char_def of_char_def)
  ultimately show ?thesis using cs by metis
qed

lemma parse_dec_nat [simp]: "parse_nat (dec_nat n) = Some n"
  using dec_nat_digits by (simp add: parse_nat_def)

lemma big_set_format [simp]: "big_set_string (format_int i) = Some i"
proof (cases "i < 0")
  case True
  then show ?thesis by (simp add: format_int_def)
next
  case False
  obtain c s where cs: "dec_nat (nat i) = c # s" "c \<noteq> CHR ''-''" "c \<noteq> CHR ''+''"
    using dec_nat_head by blast
  with False have "big_set_string (format_int i) = map_option int (parse_nat (dec_nat (nat i)))"
    by (simp add: format_int_def)
  with False show ?thesis by simp
qed

lemma parse_int64_format: "is_i64 i \<Longrightarrow> parse_int64 (format_int i) = Some i"
  by (simp add: parse_int64_def)

lemma format_int_inject [simp]: "format_int i = format_int j \<longleftrightarrow> i = j"
  by (metis big_set_format option.inject)

lemma dec_nat_inject: "dec_nat m = dec_nat n \<longleftrightarrow> m = n"
  by (metis parse_dec_nat option.inject)

lemma dec_nat_free: "\<not> is_digit c \<Longrightarrow> c \<notin> set (dec_nat n)"
  using dec_nat_digits [of n] by (auto simp: list_all_iff)

end
