(* ===== verification/Float64.thy ===== *)
theory Float64
  imports Prelude Complex_Main "HOL-Library.Log_Nat"
begin

text \<open>
  The floating-point arithmetic the program uses.  A finite \<open>float64\<close> is the rational it
  denotes, and an operation is the exact rational operation followed by \<open>fl 53\<close>, rounding to
  nearest with ties to even at 53 bits of precision.  Every intermediate value of the modelled
  code lies between \<open>2 ^ -70\<close> and \<open>2 ^ 71\<close> in absolute value or is zero, so the exponent
  range of the format (and with it overflow, subnormals, infinities and NaN) plays no part.
  \<open>fl 64\<close> is the rounding of a \<open>big.Float\<close> of the precision \<open>SetInt\<close> chooses for a
  value of at most 64 bits.
\<close>

section \<open>Rounding\<close>

text \<open>Round to the nearest integer, ties to even.\<close>

definition rne :: "rat \<Rightarrow> int" where
  "rne x =
     (let f = \<lfloor>x\<rfloor>; d = x - of_int f
      in if d < 1 / 2 then f else if 1 / 2 < d then f + 1 else if even f then f else f + 1)"

text \<open>The exponent of the leading bit of a positive rational.\<close>

definition lead_exp :: "rat \<Rightarrow> int" where
  "lead_exp x =
     (let (p, q) = quotient_of x; e = bitlen p - bitlen q
      in if 2 powi e \<le> x then e else e - 1)"

definition fl :: "nat \<Rightarrow> rat \<Rightarrow> rat" where
  "fl prec x =
     (if x = 0 then 0
      else let e = lead_exp \<bar>x\<bar> - (int prec - 1)
           in of_int (rne (x / 2 powi e)) * 2 powi e)"

abbreviation fl64 :: "rat \<Rightarrow> rat" where
  "fl64 \<equiv> fl 53"

lemma rne_lower: "of_int \<lfloor>x\<rfloor> \<le> (of_int (rne x) :: rat)"
  by (simp add: rne_def Let_def)

lemma rne_of_int [simp]: "rne (of_int k) = k"
  by (simp add: rne_def Let_def)

lemma rne_mono: "x \<le> y \<Longrightarrow> rne x \<le> rne y"
proof -
  assume le: "x \<le> y"
  have fle: "\<lfloor>x\<rfloor> \<le> \<lfloor>y\<rfloor>" using le by (rule floor_mono)
  show ?thesis
  proof (cases "\<lfloor>x\<rfloor> = \<lfloor>y\<rfloor>")
    case True
    with le show ?thesis by (auto simp: rne_def Let_def)
  next
    case False
    with fle have "\<lfloor>x\<rfloor> + 1 \<le> \<lfloor>y\<rfloor>" by linarith
    moreover have "rne x \<le> \<lfloor>x\<rfloor> + 1" by (simp add: rne_def Let_def)
    moreover have "\<lfloor>y\<rfloor> \<le> rne y" by (simp add: rne_def Let_def)
    ultimately show ?thesis by linarith
  qed
qed

lemma rne_ge_int: "of_int k \<le> x \<Longrightarrow> k \<le> rne x"
  using rne_mono [of "of_int k" x] by simp

lemma rne_le_int: "x \<le> of_int k \<Longrightarrow> rne x \<le> k"
  using rne_mono [of x "of_int k"] by simp

text \<open>\<open>lead_exp\<close> brackets its argument between consecutive powers of two.\<close>

lemma bitlen_bracket: "0 < n \<Longrightarrow> 2 powi (bitlen n - 1) \<le> (of_int n :: rat) \<and> (of_int n :: rat) < 2 powi (bitlen n)"
proof -
  assume n: "0 < n"
  then have b: "1 \<le> bitlen n" using compute_bitlen [of n] bitlen_nonneg [of "n div 2"] by simp
  from bitlen_bounds [OF n]
  have "2 ^ nat (bitlen n - 1) \<le> n" "n < 2 ^ nat (bitlen n)" by auto
  then have "(2::rat) ^ nat (bitlen n - 1) \<le> of_int n" "of_int n < (2::rat) ^ nat (bitlen n)"
    by (metis of_int_le_iff of_int_numeral of_int_power, metis of_int_less_iff of_int_numeral of_int_power)
  with b show ?thesis by (simp add: power_int_def)
qed

lemma lead_exp_bracket:
  assumes "0 < x"
  shows "2 powi (lead_exp x) \<le> x \<and> x < 2 powi (lead_exp x + 1)"
proof -
  obtain p q where pq: "quotient_of x = (p, q)" by fastforce
  have q: "0 < q" using pq by (rule quotient_of_denom_pos)
  have x: "x = of_int p / of_int q" using pq by (rule quotient_of_div)
  with assms q have p: "0 < p" by (simp add: zero_less_divide_iff)
  let ?P = "of_int p :: rat" and ?Q = "of_int q :: rat"
  note bp = bitlen_bracket [OF p] and bq = bitlen_bracket [OF q]
  have lo: "2 powi (bitlen p - bitlen q - 1) \<le> x"
  proof -
    have "2 powi (bitlen p - 1) / 2 powi (bitlen q) \<le> ?P / ?Q"
      using bp bq p q by (intro frac_le) auto
    then show ?thesis by (simp add: x power_int_diff power_int_add mult.commute)
  qed
  have hi: "x < 2 powi (bitlen p - bitlen q + 1)"
  proof -
    have "?P / ?Q < 2 powi (bitlen p) / 2 powi (bitlen q - 1)"
      using bp bq p by (intro frac_less) auto
    then show ?thesis by (simp add: x power_int_diff power_int_add algebra_simps)
  qed
  show ?thesis
    using lo hi by (auto simp: lead_exp_def pq Let_def not_le)
qed

lemma powi_mono: "a \<le> b \<Longrightarrow> (2::rat) powi a \<le> 2 powi b"
  by (rule power_int_increasing) auto

lemma lead_exp_mono: "0 < x \<Longrightarrow> x \<le> y \<Longrightarrow> lead_exp x \<le> lead_exp y"
proof (rule ccontr)
  assume x: "0 < x" and xy: "x \<le> y" and "\<not> lead_exp x \<le> lead_exp y"
  then have "lead_exp y + 1 \<le> lead_exp x" by simp
  then have "(2::rat) powi (lead_exp y + 1) \<le> 2 powi (lead_exp x)" by (rule powi_mono)
  with lead_exp_bracket [OF x] lead_exp_bracket [of y] x xy show False by linarith
qed

lemma fl_0 [simp]: "fl prec 0 = 0"
  by (simp add: fl_def)

lemma fl_pos_bounds:
  assumes "0 < x" and "0 < prec"
  shows "2 powi (lead_exp x) \<le> fl prec x \<and> fl prec x \<le> 2 powi (lead_exp x + 1)"
proof -
  let ?e = "lead_exp x - (int prec - 1)"
  have e0: "0 < (2::rat) powi ?e" by simp
  note br = lead_exp_bracket [OF assms(1)]
  have split_lo: "(2::rat) powi (lead_exp x) = 2 ^ (prec - 1) * 2 powi ?e"
    using assms(2) by (simp add: power_int_diff of_nat_diff flip: power_int_of_nat)
  have split_hi: "(2::rat) powi (lead_exp x + 1) = 2 ^ prec * 2 powi ?e"
    by (simp add: power_int_diff power_int_add flip: power_int_of_nat)
  have "2 ^ (prec - 1) * 2 powi ?e \<le> x"
    using br split_lo by linarith
  then have "of_int (2 ^ (prec - 1)) \<le> x / 2 powi ?e"
    using e0 by (simp add: pos_le_divide_eq)
  then have lo: "2 ^ (prec - 1) \<le> rne (x / 2 powi ?e)" by (rule rne_ge_int)
  have "x \<le> 2 ^ prec * 2 powi ?e"
    using br split_hi by linarith
  then have "x / 2 powi ?e \<le> of_int (2 ^ prec)"
    using e0 by (simp add: pos_divide_le_eq)
  then have hi: "rne (x / 2 powi ?e) \<le> 2 ^ prec" by (rule rne_le_int)
  have "(2::rat) ^ (prec - 1) \<le> of_int (rne (x / 2 powi ?e))"
    using lo by (metis of_int_le_iff of_int_numeral of_int_power)
  moreover have "of_int (rne (x / 2 powi ?e)) \<le> (2::rat) ^ prec"
    using hi by (metis of_int_le_iff of_int_numeral of_int_power)
  moreover have "fl prec x = of_int (rne (x / 2 powi ?e)) * 2 powi ?e"
    using assms(1) by (simp add: fl_def Let_def)
  ultimately show ?thesis
    using e0 by (simp add: split_lo split_hi)
qed

lemma fl_nonneg: "0 \<le> x \<Longrightarrow> 0 < prec \<Longrightarrow> 0 \<le> fl prec x"
proof (cases "x = 0")
  case False
  assume "0 \<le> x" and prec: "0 < prec"
  with False have "0 < x" by simp
  from fl_pos_bounds [OF this prec] have "2 powi (lead_exp x) \<le> fl prec x" ..
  moreover have "0 < (2::rat) powi (lead_exp x)" by simp
  ultimately show ?thesis by linarith
qed simp

text \<open>Rounding is monotone.\<close>

lemma fl_mono:
  assumes "0 \<le> x" and "x \<le> y" and "0 < prec"
  shows "fl prec x \<le> fl prec y"
proof (cases "x = 0")
  case True
  with assms fl_nonneg show ?thesis by simp
next
  case False
  with assms have x: "0 < x" and y: "0 < y" by auto
  consider "lead_exp x = lead_exp y" | "lead_exp x + 1 \<le> lead_exp y"
    using lead_exp_mono [OF x assms(2)] by linarith
  then show ?thesis
  proof cases
    case 1
    have "rne (x / 2 powi e) \<le> rne (y / 2 powi e)" for e :: int
      using assms(2) by (intro rne_mono divide_right_mono) auto
    with 1 x y show ?thesis
      by (simp add: fl_def Let_def mult_right_mono)
  next
    case 2
    then have "(2::rat) powi (lead_exp x + 1) \<le> 2 powi (lead_exp y)" by (rule powi_mono)
    with fl_pos_bounds [OF x assms(3)] fl_pos_bounds [OF y assms(3)] show ?thesis by linarith
  qed
qed

section \<open>The operations the code uses\<close>

text \<open>The conversion \<open>float64(n)\<close> of an integer, and the division and product of two floats.\<close>

definition f64_of_int :: "int \<Rightarrow> rat" where
  "f64_of_int n = fl64 (of_int n)"

definition f64_mul :: "rat \<Rightarrow> rat \<Rightarrow> rat" where
  "f64_mul a b = fl64 (a * b)"

definition f64_div :: "rat \<Rightarrow> rat \<Rightarrow> rat" where
  "f64_div a b = fl64 (a / b)"

definition f64_add :: "rat \<Rightarrow> rat \<Rightarrow> rat" where
  "f64_add a b = fl64 (a + b)"

lemma f64_of_int_mono: "0 \<le> a \<Longrightarrow> a \<le> b \<Longrightarrow> f64_of_int a \<le> f64_of_int b"
  by (simp add: f64_of_int_def fl_mono)

lemma f64_of_int_nonneg: "0 \<le> a \<Longrightarrow> 0 \<le> f64_of_int a"
  by (simp add: f64_of_int_def fl_nonneg)

lemma f64_of_int_0 [simp]: "f64_of_int 0 = 0"
  by (simp add: f64_of_int_def)

lemma f64_mul_mono: "0 \<le> c \<Longrightarrow> 0 \<le> a \<Longrightarrow> a \<le> b \<Longrightarrow> f64_mul c a \<le> f64_mul c b"
  by (simp add: f64_mul_def fl_mono mult_left_mono)

lemma f64_mul_nonneg: "0 \<le> c \<Longrightarrow> 0 \<le> a \<Longrightarrow> 0 \<le> f64_mul c a"
  by (simp add: f64_mul_def fl_nonneg)

lemma f64_div_mono: "0 \<le> c \<Longrightarrow> 0 \<le> a \<Longrightarrow> a \<le> b \<Longrightarrow> f64_div a c \<le> f64_div b c"
  by (simp add: f64_div_def fl_mono divide_right_mono)

lemma f64_div_nonneg: "0 \<le> c \<Longrightarrow> 0 \<le> a \<Longrightarrow> 0 \<le> f64_div a c"
  by (simp add: f64_div_def fl_nonneg)

end
