(* ===== verification/Tracker_State.thy ===== *)
theory Tracker_State
  imports Float64
begin

text \<open>
  The data of package \<open>internal/divergence\<close>: the events and reports of \<open>types.go\<close>, the
  tracker's state from \<open>tracker.go\<close> and the archive records of \<open>archive.go\<close>.  Field
  names carry the initials of the Go struct.  Addresses, hashes and monikers are Go strings, so
  \<open>length\<close> counts bytes.
\<close>

section \<open>Votes, validators and reports\<close>

type_synonym vote_type = "8 word"

abbreviation Prevote :: vote_type where
  "Prevote \<equiv> 1"

abbreviation Precommit :: vote_type where
  "Precommit \<equiv> 2"

definition vote_type_string :: "vote_type \<Rightarrow> string" where
  "vote_type_string v =
     (if v = Prevote then ''prevote''
      else if v = Precommit then ''precommit''
      else ''unknown'')"

record vote_event =
  ve_height :: int
  ve_round :: int
  ve_type :: vote_type
  ve_addr :: string
  ve_hash :: string
  ve_timestamp :: gtime

record validator_power =
  vp_address :: string
  vp_power :: int
  vp_moniker :: string

type_synonym roster = "(string, validator_power) gomap"

record group =
  gr_hash :: string
  gr_power :: int
  gr_pct :: rat
  gr_count :: int
  gr_monikers :: "string list"
  gr_validators :: "string list"
  gr_canonical :: bool

record round_report =
  rr_height :: int
  rr_round :: int
  rr_type :: vote_type
  rr_groups :: "group list"
  rr_total_power :: int
  rr_voted_power :: int
  rr_resolved :: bool
  rr_canonical :: string
  rr_divergent :: bool

record report =
  rp_live :: "round_report list"
  rp_history :: "round_report list"

definition zero_report :: round_report where
  "zero_report =
     \<lparr>rr_height = 0, rr_round = 0, rr_type = 0, rr_groups = [], rr_total_power = 0,
      rr_voted_power = 0, rr_resolved = False, rr_canonical = '''', rr_divergent = False\<rparr>"

section \<open>The live detector\<close>

record config =
  cf_threshold :: rat
  cf_history :: int
  cf_prevotes :: bool

definition default_config :: config where
  "default_config = \<lparr>cf_threshold = 5, cf_history = 32, cf_prevotes = False\<rparr>"

record round_key =
  rk_height :: int
  rk_round :: int
  rk_type :: vote_type

record group_data =
  gd_hash :: string
  gd_power :: int
  gd_validators :: "string list"
  gd_monikers :: "string list"

record round_data =
  rd_key :: round_key
  rd_groups :: "(string, group_data) gomap"
  rd_seen :: "string set"
  rd_total_power :: int
  rd_voted_power :: int
  rd_validators :: roster
  rd_resolved :: bool
  rd_canonical :: string
  rd_committed :: bool
  rd_advanced :: bool
  rd_detected :: bool

section \<open>The archive\<close>

definition round_limit :: int where
  "round_limit = 128"

definition hash_limit :: nat where
  "hash_limit = 4"

definition unknown_limit :: nat where
  "unknown_limit = 64"

definition identity_limit :: nat where
  "identity_limit = 128"

definition max_int32 :: int where
  "max_int32 = 2147483647"

record inv_hash =
  ih_hash :: string
  ih_first :: gtime
  ih_last :: gtime
  ih_signed :: "gtime option"

record inv_vote =
  iv_observed :: bool
  iv_hashes :: "inv_hash list"
  iv_conflicting :: bool
  iv_truncated :: bool

type_synonym phases = "(vote_type, inv_vote) gomap"

record archived_round =
  ar_round :: int
  ar_proposer :: string
  ar_first :: gtime
  ar_last :: gtime
  ar_roster :: roster
  ar_votes :: "(string, phases) gomap"
  ar_truncated :: bool

record archived_height =
  ah_revision :: u64
  ah_height :: int
  ah_rounds :: "(int, archived_round) gomap"
  ah_first :: gtime
  ah_last :: gtime
  ah_committed :: bool
  ah_canonical :: string
  ah_first_round :: int
  ah_last_round :: int
  ah_observed :: int
  ah_evicted :: int
  ah_evicted_through :: int

section \<open>The tracker\<close>

record tracker =
  tk_cfg :: config
  tk_rounds :: "(round_key, round_data) gomap"
  tk_history :: "round_report list"
  tk_validators :: roster
  tk_total_power :: int
  tk_committed :: int
  tk_archive :: "(int, archived_height) gomap"
  tk_evicted_through :: int
  tk_latest :: int
  tk_catalogue :: u64

definition new_tracker :: "config \<Rightarrow> tracker" where
  "new_tracker cfg =
     \<lparr>tk_cfg = (if cf_history cfg \<le> 0 then cfg\<lparr>cf_history := 32\<rparr> else cfg),
      tk_rounds = [], tk_history = [], tk_validators = [], tk_total_power = 0,
      tk_committed = 0, tk_archive = [], tk_evicted_through = 0, tk_latest = 0,
      tk_catalogue = 0\<rparr>"

text \<open>What the tracker holds of one height and of one round of a height.\<close>

abbreviation block_at :: "tracker \<Rightarrow> int \<Rightarrow> archived_height option" where
  "block_at t h \<equiv> map_of (tk_archive t) h"

definition round_at :: "tracker \<Rightarrow> int \<Rightarrow> int \<Rightarrow> archived_round option" where
  "round_at t h r = Option.bind (block_at t h) (\<lambda>b. map_of (ah_rounds b) r)"

text \<open>\<open>block.rounds[round].votes[addr][type]\<close>, a nil map or pointer on the way giving nil.\<close>

definition vote_at :: "tracker \<Rightarrow> int \<Rightarrow> int \<Rightarrow> string \<Rightarrow> vote_type \<Rightarrow> inv_vote option" where
  "vote_at t h r addr ty =
     Option.bind (round_at t h r)
       (\<lambda>rd. Option.bind (map_of (ar_votes rd) addr) (\<lambda>ps. map_of ps ty))"

end
