(* ===== verification/Archive.thy ===== *)
theory Archive
  imports Tracker_State
begin

text \<open>
  The investigation archive of \<open>internal/divergence/archive.go\<close>: admission of heights and
  rounds, eviction, and the recording of votes.  The Go code mutates \<open>*archivedHeight\<close> and
  \<open>*archivedRound\<close> through pointers held by the tracker's maps; here an operation returns the
  tracker with the changed record stored back.  \<open>now\<close> is the reading of \<open>time.Now()\<close>.
\<close>

section \<open>Operations\<close>

text \<open>The detector holds no round the archive has let go (\<open>pruneDetectorRoundsLocked\<close>).\<close>

definition prune_detector_rounds :: "tracker \<Rightarrow> tracker" where
  "prune_detector_rounds t =
     t\<lparr>tk_rounds := gfilter (\<lambda>k. round_at t (rk_height k) (rk_round k) \<noteq> None) (tk_rounds t)\<rparr>"

definition new_block :: "int \<Rightarrow> gtime \<Rightarrow> archived_height" where
  "new_block height now =
     \<lparr>ah_revision = 1, ah_height = height, ah_rounds = [], ah_first = now, ah_last = now,
      ah_committed = False, ah_canonical = '''', ah_first_round = 0, ah_last_round = 0,
      ah_observed = 0, ah_evicted = 0, ah_evicted_through = -1\<rparr>"

text \<open>A new height enters the archive; the oldest one leaves it when there are too many.\<close>

definition enter_height :: "tracker \<Rightarrow> int \<Rightarrow> gtime \<Rightarrow> tracker" where
  "enter_height t height now =
     t\<lparr>tk_archive := gput height (new_block height now) (tk_archive t),
       tk_catalogue := tk_catalogue t + 1,
       tk_latest := (if height > tk_latest t then height else tk_latest t)\<rparr>"

definition evict_height :: "tracker \<Rightarrow> int \<Rightarrow> tracker" where
  "evict_height t height =
     (let oldest = oldest_key height (gkeys (tk_archive t))
      in prune_detector_rounds
           (t\<lparr>tk_archive := gdel oldest (tk_archive t),
              tk_evicted_through :=
                (if oldest > tk_evicted_through t then oldest else tk_evicted_through t)\<rparr>))"

definition create_archive_height :: "tracker \<Rightarrow> int \<Rightarrow> gtime \<Rightarrow> tracker \<times> archived_height option" where
  "create_archive_height t height now =
     (if height \<le> 0 \<or> height \<le> tk_evicted_through t then (t, None)
      else case block_at t height of
        Some block \<Rightarrow> (t, Some block)
      | None \<Rightarrow>
          let t1 = enter_height t height now;
              t2 = (if int (length (tk_archive t1)) > cf_history (tk_cfg t1)
                    then evict_height t1 height else t1)
          in (t2, block_at t2 height))"

definition archive_height :: "tracker \<Rightarrow> int \<Rightarrow> gtime \<Rightarrow> tracker \<times> archived_height option" where
  "archive_height t height now =
     (if height \<le> 0 \<or> height \<le> tk_evicted_through t then (t, None)
      else case block_at t height of
        Some block \<Rightarrow> (t, Some block)
      | None \<Rightarrow>
          if height \<le> tk_committed t then (t, None) else create_archive_height t height now)"

definition put_block :: "archived_height \<Rightarrow> tracker \<Rightarrow> tracker" where
  "put_block block t = t\<lparr>tk_archive := gput (ah_height block) block (tk_archive t)\<rparr>"

definition put_round :: "archived_round \<Rightarrow> archived_height \<Rightarrow> archived_height" where
  "put_round rd block = block\<lparr>ah_rounds := gput (ar_round rd) rd (ah_rounds block)\<rparr>"

definition new_round :: "tracker \<Rightarrow> int \<Rightarrow> gtime \<Rightarrow> archived_round" where
  "new_round t rnd now =
     \<lparr>ar_round = rnd, ar_proposer = '''', ar_first = now, ar_last = now,
      ar_roster = tk_validators t, ar_votes = [], ar_truncated = False\<rparr>"

text \<open>The block after a new round is entered, before the round limit is applied.\<close>

definition enter_round :: "tracker \<Rightarrow> archived_height \<Rightarrow> int \<Rightarrow> gtime \<Rightarrow> archived_height" where
  "enter_round t block rnd now =
     (put_round (new_round t rnd now) block)
       \<lparr>ah_revision := ah_revision block + 1,
        ah_first_round := (if ah_observed block = 0 \<or> rnd < ah_first_round block
                           then rnd else ah_first_round block),
        ah_last_round := (if ah_observed block = 0 \<or> rnd > ah_last_round block
                          then rnd else ah_last_round block),
        ah_observed := i64 (ah_observed block + 1),
        ah_last := now\<rparr>"

definition evict_round :: "archived_height \<Rightarrow> int \<Rightarrow> archived_height" where
  "evict_round block rnd =
     (let oldest = oldest_key rnd (gkeys (ah_rounds block))
      in block\<lparr>ah_rounds := gdel oldest (ah_rounds block),
               ah_evicted_through := oldest,
               ah_evicted := i64 (ah_evicted block + 1)\<rparr>)"

definition archive_round ::
  "tracker \<Rightarrow> archived_height \<Rightarrow> int \<Rightarrow> gtime \<Rightarrow> tracker \<times> archived_height \<times> archived_round option" where
  "archive_round t block rnd now =
     (if rnd < 0 \<or> rnd \<le> ah_evicted_through block then (t, block, None)
      else case map_of (ah_rounds block) rnd of
        Some rd \<Rightarrow> (t, block, Some rd)
      | None \<Rightarrow>
          if ah_committed block \<or> ah_height block \<le> tk_committed t then (t, block, None)
          else
            let b1 = enter_round t block rnd now
            in if int (length (ah_rounds b1)) > round_limit
               then let b2 = evict_round b1 rnd
                    in (prune_detector_rounds (put_block b2 t), b2, map_of (ah_rounds b2) rnd)
               else (put_block b1 t, b1, map_of (ah_rounds b1) rnd))"

definition observe_round :: "tracker \<Rightarrow> int \<Rightarrow> int \<Rightarrow> string \<Rightarrow> gtime \<Rightarrow> tracker" where
  "observe_round t height rnd proposer now =
     (if height \<le> 0 \<or> rnd < 0 \<or> rnd > max_int32 \<or> length proposer > identity_limit then t
      else case archive_height t height now of
        (t1, None) \<Rightarrow> t1
      | (t1, Some block) \<Rightarrow>
          (case archive_round t1 block rnd now of
             (t2, _, None) \<Rightarrow> t2
           | (t2, block2, Some rd) \<Rightarrow>
               if proposer \<noteq> '''' \<and> ar_proposer rd \<noteq> proposer
               then put_block
                      ((put_round (rd\<lparr>ar_proposer := proposer, ar_last := now\<rparr>) block2)
                         \<lparr>ah_last := now, ah_revision := ah_revision block2 + 1\<rparr>) t2
               else t2))"

text \<open>The voters of a round that its roster does not know.\<close>

definition unknown_voters :: "archived_round \<Rightarrow> string list" where
  "unknown_voters rd = filter (\<lambda>a. map_of (ar_roster rd) a = None) (gkeys (ar_votes rd))"

definition bump :: "archived_height \<Rightarrow> archived_height" where
  "bump block = block\<lparr>ah_revision := ah_revision block + 1\<rparr>"

definition fresh_vote :: inv_vote where
  "fresh_vote = \<lparr>iv_observed = True, iv_hashes = [], iv_conflicting = False, iv_truncated = False\<rparr>"

definition set_vote :: "archived_round \<Rightarrow> string \<Rightarrow> vote_type \<Rightarrow> inv_vote \<Rightarrow> archived_round" where
  "set_vote rd addr ty vote =
     rd\<lparr>ar_votes := gput addr (gput ty vote (case map_of (ar_votes rd) addr of None \<Rightarrow> [] | Some ps \<Rightarrow> ps))
                      (ar_votes rd)\<rparr>"

definition get_vote :: "archived_round \<Rightarrow> string \<Rightarrow> vote_type \<Rightarrow> inv_vote option" where
  "get_vote rd addr ty = Option.bind (map_of (ar_votes rd) addr) (\<lambda>ps. map_of ps ty)"

text \<open>
  The part of \<open>observeVoteLocked\<close> that follows the admission of the height and the round: it
  changes the round's votes and the block's revision and last-seen time.
\<close>

definition record_vote :: "archived_height \<Rightarrow> archived_round \<Rightarrow> vote_event \<Rightarrow> gtime \<Rightarrow> archived_height" where
  "record_vote block rd v now =
     (if map_of (ar_votes rd) (ve_addr v) = None \<and> map_of (ar_roster rd) (ve_addr v) = None
         \<and> length (unknown_voters rd) \<ge> unknown_limit
      then put_round (rd\<lparr>ar_truncated := True\<rparr>) (if ar_truncated rd then block else bump block)
      else
        let vote = (case get_vote rd (ve_addr v) (ve_type v) of None \<Rightarrow> fresh_vote | Some w \<Rightarrow> w)
        in if list_ex (\<lambda>h. ih_hash h = ve_hash v) (iv_hashes vote)
           then put_round (set_vote rd (ve_addr v) (ve_type v) vote) block
           else if length (iv_hashes vote) \<ge> hash_limit
           then put_round
                  ((set_vote rd (ve_addr v) (ve_type v) (vote\<lparr>iv_truncated := True, iv_conflicting := True\<rparr>))
                     \<lparr>ar_truncated := True\<rparr>)
                  (if \<not> iv_truncated vote \<or> \<not> iv_conflicting vote \<or> \<not> ar_truncated rd
                   then bump block else block)
           else
             let observation = \<lparr>ih_hash = ve_hash v, ih_first = now, ih_last = now,
                                ih_signed = (if ve_timestamp v = 0 then None
                                             else Some (ve_timestamp v))\<rparr>;
                 hashes = iv_hashes vote @ [observation]
             in (put_round
                   ((set_vote rd (ve_addr v) (ve_type v)
                       (vote\<lparr>iv_hashes := hashes, iv_conflicting := length hashes > 1\<rparr>))
                      \<lparr>ar_last := now\<rparr>)
                   (bump block))\<lparr>ah_last := now\<rparr>)"

definition well_formed_vote :: "vote_event \<Rightarrow> bool" where
  "well_formed_vote v \<longleftrightarrow>
     \<not> (ve_height v \<le> 0 \<or> ve_round v < 0 \<or> ve_round v > max_int32 \<or> ve_addr v = ''''
        \<or> length (ve_addr v) > identity_limit \<or> length (ve_hash v) > identity_limit
        \<or> ve_type v \<noteq> Prevote \<and> ve_type v \<noteq> Precommit)"

definition observe_vote :: "tracker \<Rightarrow> vote_event \<Rightarrow> gtime \<Rightarrow> tracker" where
  "observe_vote t v now =
     (if \<not> well_formed_vote v then t
      else case archive_height t (ve_height v) now of
        (t1, None) \<Rightarrow> t1
      | (t1, Some block) \<Rightarrow>
          (case archive_round t1 block (ve_round v) now of
             (t2, _, None) \<Rightarrow> t2
           | (t2, block2, Some rd) \<Rightarrow> put_block (record_vote block2 rd v now) t2))"

definition archive_commit :: "tracker \<Rightarrow> int \<Rightarrow> string \<Rightarrow> gtime \<Rightarrow> tracker" where
  "archive_commit t height hash now =
     (if length hash > identity_limit then t
      else case create_archive_height t height now of
        (t1, None) \<Rightarrow> t1
      | (t1, Some block) \<Rightarrow>
          if \<not> ah_committed block \<or> ah_canonical block = '''' \<and> hash \<noteq> ''''
          then put_block (block\<lparr>ah_committed := True, ah_canonical := hash, ah_last := now,
                                ah_revision := ah_revision block + 1\<rparr>) t1
          else t1)"

end
