(* ===== verification/Archive_Inv.thy ===== *)
theory Archive_Inv
  imports Archive
begin

text \<open>
  The well-formedness invariant of the archive and its preservation by every operation of
  \<open>archive.go\<close>.  It holds the retention bounds the package documents (heights, rounds,
  hashes per validator and phase, unknown voters), the consistency of the evidence flags, and the
  bookkeeping of rounds from which \<open>MissingRounds\<close> is computed.
\<close>

section \<open>The invariant\<close>

definition vote_inv :: "inv_vote \<Rightarrow> bool" where
  "vote_inv w \<longleftrightarrow>
     iv_observed w \<and> iv_hashes w \<noteq> [] \<and> length (iv_hashes w) \<le> hash_limit
     \<and> distinct (map ih_hash (iv_hashes w))
     \<and> (iv_conflicting w \<longleftrightarrow> length (iv_hashes w) > 1)
     \<and> (iv_truncated w \<longrightarrow> length (iv_hashes w) = hash_limit)"

definition phases_inv :: "phases \<Rightarrow> bool" where
  "phases_inv ps \<longleftrightarrow>
     gmap_ok ps \<and> gmap_all (\<lambda>ty w. (ty = Prevote \<or> ty = Precommit) \<and> vote_inv w) ps"

definition round_inv :: "archived_round \<Rightarrow> bool" where
  "round_inv rd \<longleftrightarrow>
     gmap_ok (ar_roster rd) \<and> gmap_ok (ar_votes rd) \<and> gmap_all (\<lambda>a ps. phases_inv ps) (ar_votes rd)
     \<and> length (unknown_voters rd) \<le> unknown_limit"

definition block_inv :: "archived_height \<Rightarrow> bool" where
  "block_inv b \<longleftrightarrow>
     gmap_ok (ah_rounds b)
     \<and> gmap_all (\<lambda>r rd. ar_round rd = r \<and> ah_evicted_through b < r \<and> r \<le> ah_last_round b
                        \<and> ah_first_round b \<le> r \<and> round_inv rd) (ah_rounds b)
     \<and> int (length (ah_rounds b)) \<le> round_limit
     \<and> ah_observed b = int (length (ah_rounds b)) + ah_evicted b
     \<and> 0 \<le> ah_evicted b \<and> ah_evicted b \<le> ah_evicted_through b + 1
     \<and> 0 \<le> ah_first_round b \<and> 0 \<le> ah_last_round b \<and> ah_last_round b \<le> max_int32
     \<and> (0 < ah_observed b \<longrightarrow> ah_evicted_through b \<le> ah_last_round b)"

definition archive_inv :: "tracker \<Rightarrow> bool" where
  "archive_inv t \<longleftrightarrow>
     0 < cf_history (tk_cfg t) \<and> 0 \<le> tk_evicted_through t \<and> gmap_ok (tk_validators t)
     \<and> gmap_ok (tk_archive t)
     \<and> gmap_all (\<lambda>h b. ah_height b = h \<and> tk_evicted_through t < h \<and> h \<le> tk_latest t \<and> block_inv b)
         (tk_archive t)
     \<and> int (length (tk_archive t)) \<le> cf_history (tk_cfg t)"

text \<open>The detector keeps rounds only of heights and rounds that the archive retains.\<close>

definition detector_bounded :: "tracker \<Rightarrow> bool" where
  "detector_bounded t \<longleftrightarrow>
     gmap_ok (tk_rounds t)
     \<and> gmap_all (\<lambda>k rd. rd_key rd = k \<and> (rk_type k = Prevote \<or> rk_type k = Precommit)
                        \<and> round_at t (rk_height k) (rk_round k) \<noteq> None) (tk_rounds t)"

section \<open>Votes and rounds\<close>

lemma vote_inv_add:
  assumes "w = fresh_vote \<or> vote_inv w" and "ih_hash h \<notin> ih_hash ` set (iv_hashes w)"
    and "\<not> length (iv_hashes w) \<ge> hash_limit"
  shows "vote_inv (w\<lparr>iv_hashes := iv_hashes w @ [h], iv_conflicting := length (iv_hashes w @ [h]) > 1\<rparr>)"
  using assms by (auto simp: vote_inv_def fresh_vote_def hash_limit_def)

lemma vote_inv_truncate:
  assumes "w = fresh_vote \<or> vote_inv w" and "length (iv_hashes w) \<ge> hash_limit"
  shows "vote_inv (w\<lparr>iv_truncated := True, iv_conflicting := True\<rparr>)"
  using assms by (auto simp: vote_inv_def fresh_vote_def hash_limit_def)

lemma phases_inv_put:
  assumes "phases_inv ps" and "ty = Prevote \<or> ty = Precommit" and "vote_inv w"
  shows "phases_inv (gput ty w ps)"
  using assms by (auto simp: phases_inv_def intro!: inv_intro)

lemma phases_inv_Nil [simp]: "phases_inv []"
  by (simp add: phases_inv_def)

lemma get_vote_inv: "round_inv rd \<Longrightarrow> get_vote rd a ty = Some w \<Longrightarrow> vote_inv w"
  by (auto simp: round_inv_def get_vote_def phases_inv_def Option.bind_eq_Some_conv
      dest!: gmap_all_lookup)

lemma unknown_voters_set_vote:
  "unknown_voters (set_vote rd a ty w) =
     (if map_of (ar_votes rd) a = None \<and> map_of (ar_roster rd) a = None
      then unknown_voters rd @ [a] else unknown_voters rd)"
proof -
  have keys: "gkeys (gput a v m) = (if map_of m a = None then gkeys m @ [a] else gkeys m)"
    for v :: phases and m
    by (induction m) auto
  show ?thesis
    by (auto simp: unknown_voters_def set_vote_def keys)
qed

lemma unknown_voters_update [simp]:
  "unknown_voters (rd\<lparr>ar_truncated := x\<rparr>) = unknown_voters rd"
  "unknown_voters (rd\<lparr>ar_last := n\<rparr>) = unknown_voters rd"
  "unknown_voters (rd\<lparr>ar_proposer := p\<rparr>) = unknown_voters rd"
  by (simp_all add: unknown_voters_def)

lemma round_inv_update [simp]:
  "round_inv (rd\<lparr>ar_truncated := x\<rparr>) = round_inv rd"
  "round_inv (rd\<lparr>ar_last := n\<rparr>) = round_inv rd"
  "round_inv (rd\<lparr>ar_proposer := p\<rparr>) = round_inv rd"
  by (simp_all add: round_inv_def)

lemma ar_round_set_vote [simp]: "ar_round (set_vote rd a ty w) = ar_round rd"
  by (simp add: set_vote_def)

lemma round_inv_set_vote:
  assumes "round_inv rd" and "ty = Prevote \<or> ty = Precommit" and "vote_inv w"
    and "\<not> (map_of (ar_votes rd) a = None \<and> map_of (ar_roster rd) a = None
             \<and> length (unknown_voters rd) \<ge> unknown_limit)"
  shows "round_inv (set_vote rd a ty w)"
proof -
  have "phases_inv (case map_of (ar_votes rd) a of None \<Rightarrow> [] | Some ps \<Rightarrow> ps)"
    using assms(1) by (auto simp: round_inv_def split: option.split dest: gmap_all_lookup)
  then have "gmap_all (\<lambda>a. phases_inv) (ar_votes (set_vote rd a ty w))"
    using assms(1-3) by (auto simp: round_inv_def set_vote_def intro!: inv_intro phases_inv_put)
  moreover have "length (unknown_voters (set_vote rd a ty w)) \<le> unknown_limit"
    using assms(1,4) by (auto simp: unknown_voters_set_vote round_inv_def)
  ultimately show ?thesis
    using assms(1) by (simp add: round_inv_def set_vote_def)
qed

section \<open>Blocks\<close>

lemma block_inv_update [simp]:
  "block_inv (b\<lparr>ah_revision := x\<rparr>) = block_inv b"
  "block_inv (b\<lparr>ah_last := n\<rparr>) = block_inv b"
  "block_inv (b\<lparr>ah_committed := c\<rparr>) = block_inv b"
  "block_inv (b\<lparr>ah_canonical := s\<rparr>) = block_inv b"
  "block_inv (bump b) = block_inv b"
  by (simp_all add: block_inv_def bump_def)

lemma block_inv_round:
  "block_inv b \<Longrightarrow> map_of (ah_rounds b) r = Some rd \<Longrightarrow> ar_round rd = r \<and> round_inv rd"
  by (auto simp: block_inv_def dest: gmap_all_lookup)

text \<open>Replacing a retained round by one of the same number.\<close>

lemma block_inv_put_round:
  assumes "block_inv b" and "map_of (ah_rounds b) (ar_round rd') = Some rd" and "round_inv rd'"
  shows "block_inv (put_round rd' b)"
proof -
  have "ar_round rd' \<in> fst ` set (ah_rounds b)"
    using assms(2) by (metis domI gkeys_dom)
  then show ?thesis
    using assms by (auto simp: block_inv_def put_round_def length_gput intro!: inv_intro
        dest: gmap_all_lookup)
qed

lemma put_round_keys:
  "map_of (ah_rounds b) (ar_round rd') \<noteq> None \<Longrightarrow>
     fst ` set (ah_rounds (put_round rd' b)) = fst ` set (ah_rounds b)"
  by (simp add: put_round_def gkeys_gput insert_absorb map_of_eq_None_iff)

lemma put_round_bump: "put_round rd (bump b) = bump (put_round rd b)"
  by (simp add: put_round_def bump_def)

lemma record_vote_cases:
  assumes "block_inv b" and "map_of (ah_rounds b) (ar_round rd) = Some rd" and "well_formed_vote v"
  obtains b' rd' where "record_vote b rd v now = put_round rd' b'"
    and "b' \<in> {b, bump b, (bump b)\<lparr>ah_last := now\<rparr>}"
    and "ar_round rd' = ar_round rd" and "round_inv rd'" and "ar_roster rd' = ar_roster rd"
proof -
  have ri: "round_inv rd" using assms block_inv_round by blast
  have ty: "ve_type v = Prevote \<or> ve_type v = Precommit"
    using assms(3) by (auto simp: well_formed_vote_def)
  define w where "w = (case get_vote rd (ve_addr v) (ve_type v) of None \<Rightarrow> fresh_vote | Some w \<Rightarrow> w)"
  have w: "w = fresh_vote \<or> vote_inv w"
    using get_vote_inv [OF ri] by (auto simp: w_def split: option.split)
  show thesis
  proof (cases "map_of (ar_votes rd) (ve_addr v) = None \<and> map_of (ar_roster rd) (ve_addr v) = None
         \<and> length (unknown_voters rd) \<ge> unknown_limit")
    case True
    then show thesis
      using ri by (intro that [of "rd\<lparr>ar_truncated := True\<rparr>" "if ar_truncated rd then b else bump b"])
        (auto simp: record_vote_def)
  next
    case False
    note adm = round_inv_set_vote [OF ri ty _ False]
    show thesis
    proof (cases "list_ex (\<lambda>h. ih_hash h = ve_hash v) (iv_hashes w)")
      case True
      then have "vote_inv w" using w by (auto simp: fresh_vote_def)
      then show thesis
        using True False adm by (intro that [of "set_vote rd (ve_addr v) (ve_type v) w" b])
          (auto simp: record_vote_def w_def [symmetric] set_vote_def)
    next
      case new: False
      show thesis
      proof (cases "length (iv_hashes w) \<ge> hash_limit")
        case True
        with w have "vote_inv (w\<lparr>iv_truncated := True, iv_conflicting := True\<rparr>)"
          by (rule vote_inv_truncate)
        then show thesis
          using True new False adm
          by (intro that [of "(set_vote rd (ve_addr v) (ve_type v)
                 (w\<lparr>iv_truncated := True, iv_conflicting := True\<rparr>))\<lparr>ar_truncated := True\<rparr>"
               "if \<not> iv_truncated w \<or> \<not> iv_conflicting w \<or> \<not> ar_truncated rd then bump b else b"])
            (auto simp: record_vote_def w_def [symmetric] set_vote_def)
      next
        case room: False
        define h where "h = \<lparr>ih_hash = ve_hash v, ih_first = now, ih_last = now,
            ih_signed = (if ve_timestamp v = 0 then None else Some (ve_timestamp v))\<rparr>"
        have "ih_hash h \<notin> ih_hash ` set (iv_hashes w)"
          using new by (auto simp: h_def list_ex_iff)
        from vote_inv_add [OF w this room]
        have "vote_inv (w\<lparr>iv_hashes := iv_hashes w @ [h], iv_conflicting := length (iv_hashes w @ [h]) > 1\<rparr>)" .
        then show thesis
          using room new False adm
          by (intro that [of "(set_vote rd (ve_addr v) (ve_type v)
                 (w\<lparr>iv_hashes := iv_hashes w @ [h], iv_conflicting := length (iv_hashes w @ [h]) > 1\<rparr>))
                   \<lparr>ar_last := now\<rparr>" "(bump b)\<lparr>ah_last := now\<rparr>"])
            (auto simp: record_vote_def w_def [symmetric] h_def put_round_def set_vote_def Let_def)
      qed
    qed
  qed
qed

lemma record_vote_inv:
  assumes "block_inv b" and "map_of (ah_rounds b) (ar_round rd) = Some rd" and "well_formed_vote v"
  shows "block_inv (record_vote b rd v now)"
    and "ah_height (record_vote b rd v now) = ah_height b"
    and "fst ` set (ah_rounds (record_vote b rd v now)) = fst ` set (ah_rounds b)"
proof -
  obtain b' rd' where r: "record_vote b rd v now = put_round rd' b'"
    and b': "b' \<in> {b, bump b, (bump b)\<lparr>ah_last := now\<rparr>}"
    and rd': "ar_round rd' = ar_round rd" "round_inv rd'"
    using record_vote_cases [OF assms] by metis
  from b' have inv: "block_inv b'" using assms(1) by auto
  from b' have same: "ah_rounds b' = ah_rounds b" "ah_height b' = ah_height b"
    by (auto simp: bump_def)
  show "block_inv (record_vote b rd v now)"
    unfolding r by (rule block_inv_put_round [OF inv, of _ rd]) (use same rd' assms(2) in auto)
  show "ah_height (record_vote b rd v now) = ah_height b"
    unfolding r by (simp add: put_round_def same)
  show "fst ` set (ah_rounds (record_vote b rd v now)) = fst ` set (ah_rounds b)"
    unfolding r using put_round_keys [of b' rd'] same rd' assms(2) by auto
qed

section \<open>The tracker's maps\<close>

lemma round_at_put_block:
  "round_at (put_block b t) h r = (if h = ah_height b then map_of (ah_rounds b) r else round_at t h r)"
  by (simp add: round_at_def put_block_def map_of_gput)

lemma block_at_put_block:
  "block_at (put_block b t) h = (if h = ah_height b then Some b else block_at t h)"
  by (simp add: put_block_def map_of_gput)

lemma put_block_frame [simp]:
  "tk_cfg (put_block b t) = tk_cfg t"
  "tk_rounds (put_block b t) = tk_rounds t"
  "tk_history (put_block b t) = tk_history t"
  "tk_validators (put_block b t) = tk_validators t"
  "tk_total_power (put_block b t) = tk_total_power t"
  "tk_committed (put_block b t) = tk_committed t"
  "tk_evicted_through (put_block b t) = tk_evicted_through t"
  "tk_latest (put_block b t) = tk_latest t"
  "tk_catalogue (put_block b t) = tk_catalogue t"
  by (simp_all add: put_block_def)

lemma prune_frame [simp]:
  "tk_cfg (prune_detector_rounds t) = tk_cfg t"
  "tk_archive (prune_detector_rounds t) = tk_archive t"
  "tk_history (prune_detector_rounds t) = tk_history t"
  "tk_validators (prune_detector_rounds t) = tk_validators t"
  "tk_total_power (prune_detector_rounds t) = tk_total_power t"
  "tk_committed (prune_detector_rounds t) = tk_committed t"
  "tk_evicted_through (prune_detector_rounds t) = tk_evicted_through t"
  "tk_latest (prune_detector_rounds t) = tk_latest t"
  "tk_catalogue (prune_detector_rounds t) = tk_catalogue t"
  by (simp_all add: prune_detector_rounds_def)

lemma round_at_prune [simp]: "round_at (prune_detector_rounds t) h r = round_at t h r"
  by (simp add: round_at_def)

lemma archive_inv_prune [simp]: "archive_inv (prune_detector_rounds t) = archive_inv t"
  by (simp add: archive_inv_def)

text \<open>Pruning restores the bound, whatever was evicted.\<close>

definition detector_keyed :: "tracker \<Rightarrow> bool" where
  "detector_keyed t \<longleftrightarrow>
     gmap_ok (tk_rounds t)
     \<and> gmap_all (\<lambda>k rd. rd_key rd = k \<and> (rk_type k = Prevote \<or> rk_type k = Precommit)) (tk_rounds t)"

lemma detector_bounded_iff:
  "detector_bounded t \<longleftrightarrow>
     detector_keyed t
     \<and> gmap_all (\<lambda>k rd. round_at t (rk_height k) (rk_round k) \<noteq> None) (tk_rounds t)"
  by (auto simp: detector_bounded_def detector_keyed_def gmap_all_def list_all_iff)

lemma detector_bounded_keyed: "detector_bounded t \<Longrightarrow> detector_keyed t"
  by (simp add: detector_bounded_iff)

lemma prune_bounded: "detector_keyed t \<Longrightarrow> detector_bounded (prune_detector_rounds t)"
  unfolding detector_bounded_iff detector_keyed_def
  by (simp add: prune_detector_rounds_def round_at_def gmap_all_gfilter gmap_all_gfilter_test)

lemma detector_keyed_frame:
  "tk_rounds t' = tk_rounds t \<Longrightarrow> detector_keyed t' = detector_keyed t"
  by (simp add: detector_keyed_def)

text \<open>A change that keeps every round of every retained height keeps the bound.\<close>

lemma detector_bounded_mono:
  assumes "detector_bounded t" and "tk_rounds t' = tk_rounds t"
    and "\<And>h r. round_at t h r \<noteq> None \<Longrightarrow> round_at t' h r \<noteq> None"
  shows "detector_bounded t'"
  using assms by (auto simp: detector_bounded_def intro: gmap_all_mono)

lemma archive_block:
  assumes "archive_inv t" and "block_at t h = Some b"
  shows "ah_height b = h" "tk_evicted_through t < h" "h \<le> tk_latest t" "block_inv b" "0 < h"
  using assms by (auto simp: archive_inv_def dest: gmap_all_lookup)

lemma archive_inv_put_block:
  assumes "archive_inv t" and "block_at t (ah_height b') = Some b" and "block_inv b'"
  shows "archive_inv (put_block b' t)"
proof -
  have "ah_height b' \<in> fst ` set (tk_archive t)"
    using assms(2) by (metis domI gkeys_dom)
  with assms archive_block [OF assms(1,2)] show ?thesis
    by (auto simp: archive_inv_def put_block_def length_gput intro!: inv_intro)
qed

lemma detector_bounded_put_block:
  assumes "detector_bounded t" and "block_at t (ah_height b') = Some b"
    and "fst ` set (ah_rounds b) \<subseteq> fst ` set (ah_rounds b')"
  shows "detector_bounded (put_block b' t)"
proof (rule detector_bounded_mono [OF assms(1)])
  show "tk_rounds (put_block b' t) = tk_rounds t" by simp
next
  fix h r
  assume "round_at t h r \<noteq> None"
  moreover have "map_of (ah_rounds b) r \<noteq> None \<Longrightarrow> map_of (ah_rounds b') r \<noteq> None"
    using assms(3) by (auto simp: map_of_eq_None_iff)
  moreover have "round_at t h r = map_of (ah_rounds b) r" if "h = ah_height b'"
    using assms(2) that by (simp add: round_at_def)
  ultimately show "round_at (put_block b' t) h r \<noteq> None"
    by (cases "h = ah_height b'") (simp_all add: round_at_put_block)
qed

section \<open>Admitting a height\<close>

lemma block_inv_new: "block_inv (new_block h now)"
  by (simp add: block_inv_def new_block_def round_limit_def max_int32_def)

lemma enter_height_inv:
  fixes now :: gtime and height :: int and t :: tracker
  assumes inv: "archive_inv t" and det: "detector_bounded t"
    and new: "0 < height" "tk_evicted_through t < height" "block_at t height = None"
  defines "t1 \<equiv> enter_height t height now"
  shows "gmap_ok (tk_archive t1)"
    and "gmap_all (\<lambda>h b. ah_height b = h \<and> tk_evicted_through t1 < h \<and> h \<le> tk_latest t1 \<and> block_inv b)
           (tk_archive t1)"
    and "length (tk_archive t1) = Suc (length (tk_archive t))"
    and "detector_bounded t1"
    and "tk_cfg t1 = tk_cfg t" "tk_evicted_through t1 = tk_evicted_through t" "tk_validators t1 = tk_validators t"
    and "height \<in> fst ` set (tk_archive t1)"
proof -
  show "gmap_ok (tk_archive t1)"
    using inv by (simp add: t1_def enter_height_def archive_inv_def)
  show "gmap_all (\<lambda>h b. ah_height b = h \<and> tk_evicted_through t1 < h \<and> h \<le> tk_latest t1 \<and> block_inv b)
           (tk_archive t1)"
    using inv new block_inv_new
    by (auto simp: t1_def enter_height_def archive_inv_def new_block_def intro!: inv_intro
        elim!: gmap_all_mono)
  show "length (tk_archive t1) = Suc (length (tk_archive t))"
    using new(3) by (simp add: t1_def enter_height_def length_gput map_of_eq_None_iff)
  show "detector_bounded t1"
    by (rule detector_bounded_mono [OF det])
      (auto simp: t1_def enter_height_def round_at_def map_of_gput Option.bind_eq_Some_conv new(3))
  show "height \<in> fst ` set (tk_archive t1)"
    by (simp add: t1_def enter_height_def gkeys_gput)
qed (simp_all add: t1_def enter_height_def)

lemma evict_height_inv:
  assumes ok: "gmap_ok (tk_archive t)" and det: "detector_keyed t"
    and all: "gmap_all (\<lambda>h b. ah_height b = h \<and> tk_evicted_through t < h \<and> h \<le> tk_latest t \<and> block_inv b)
                (tk_archive t)"
    and mem: "height \<in> fst ` set (tk_archive t)"
    and cfg: "0 < cf_history (tk_cfg t)" "0 \<le> tk_evicted_through t" "gmap_ok (tk_validators t)"
    and len: "int (length (tk_archive t)) \<le> cf_history (tk_cfg t) + 1"
  shows "archive_inv (evict_height t height)" and "detector_bounded (evict_height t height)"
proof -
  define old where "old = oldest_key height (gkeys (tk_archive t))"
  define t2 where "t2 = t\<lparr>tk_archive := gdel old (tk_archive t),
      tk_evicted_through := (if old > tk_evicted_through t then old else tk_evicted_through t)\<rparr>"
  have t': "evict_height t height = prune_detector_rounds t2"
    by (simp add: evict_height_def t2_def old_def Let_def)
  have old_mem: "old \<in> fst ` set (tk_archive t)"
    using oldest_key_mem [of height "gkeys (tk_archive t)"] mem by (auto simp: old_def)
  have least: "h \<in> fst ` set (tk_archive t) \<Longrightarrow> old \<le> h" for h
    unfolding old_def by (rule oldest_key_le) simp
  have "gmap_all (\<lambda>h b. ah_height b = h \<and> tk_evicted_through t2 < h \<and> h \<le> tk_latest t2 \<and> block_inv b)
      (tk_archive t2)"
  proof (subst gmap_all_iff; (intro allI impI)?)
    show "gmap_ok (tk_archive t2)" using ok by (simp add: t2_def)
  next
    fix h b
    assume "map_of (tk_archive t2) h = Some b"
    then have b: "map_of (tk_archive t) h = Some b" and ne: "h \<noteq> old"
      by (auto simp: t2_def map_of_gdel split: if_splits)
    from b have "h \<in> fst ` set (tk_archive t)" by (metis domI gkeys_dom)
    with least ne have "old < h" by fastforce
    with gmap_all_lookup [OF all b]
    show "ah_height b = h \<and> tk_evicted_through t2 < h \<and> h \<le> tk_latest t2 \<and> block_inv b"
      by (simp add: t2_def)
  qed
  moreover have "int (length (tk_archive t2)) \<le> cf_history (tk_cfg t2)"
    using old_mem ok len cfg by (simp add: t2_def length_gdel)
  moreover have "0 \<le> tk_evicted_through t2"
    using cfg by (simp add: t2_def)
  ultimately have "archive_inv t2"
    using cfg ok by (simp add: archive_inv_def t2_def)
  moreover have "detector_keyed t2"
    using det by (simp add: detector_keyed_def t2_def)
  ultimately show "archive_inv (evict_height t height)" "detector_bounded (evict_height t height)"
    by (simp_all add: t' prune_bounded)
qed

lemma create_archive_height_inv:
  assumes inv: "archive_inv t" and det: "detector_bounded t"
    and step: "create_archive_height t height now = (t', res)"
  shows "archive_inv t'" and "detector_bounded t'"
proof (atomize (full), cases "height \<le> 0 \<or> height \<le> tk_evicted_through t \<or> block_at t height \<noteq> None")
  case True
  then show "archive_inv t' \<and> detector_bounded t'"
    using step inv det by (auto simp: create_archive_height_def split: if_splits)
next
  case False
  then have new: "0 < height" "tk_evicted_through t < height" "block_at t height = None" by auto
  note e = enter_height_inv [OF inv det new, of now]
  have t': "t' = (if int (length (tk_archive (enter_height t height now))) > cf_history (tk_cfg t)
                  then evict_height (enter_height t height now) height else enter_height t height now)"
    using step new by (auto simp: create_archive_height_def Let_def e(5) split: if_splits)
  show "archive_inv t' \<and> detector_bounded t'"
  proof (cases "int (length (tk_archive (enter_height t height now))) > cf_history (tk_cfg t)")
    case True
    have "archive_inv (evict_height (enter_height t height now) height)
        \<and> detector_bounded (evict_height (enter_height t height now) height)"
      using inv e detector_bounded_keyed [OF e(4)]
      by (intro conjI evict_height_inv) (auto simp: archive_inv_def)
    with t' True show ?thesis by simp
  next
    case False
    with t' inv e show ?thesis by (auto simp: archive_inv_def)
  qed
qed

lemma create_archive_height_block:
  "create_archive_height t height now = (t', Some b) \<Longrightarrow> block_at t' height = Some b"
  by (auto simp: create_archive_height_def Let_def split: if_splits option.splits)

lemma archive_height_inv:
  assumes "archive_inv t" and "detector_bounded t" and "archive_height t height now = (t', res)"
  shows "archive_inv t'" and "detector_bounded t'"
  using assms create_archive_height_inv [OF assms(1,2), of height now t' res]
  by (auto simp: archive_height_def split: if_splits option.splits)

lemma archive_height_block:
  "archive_height t height now = (t', Some b) \<Longrightarrow> block_at t' height = Some b"
  by (auto simp: archive_height_def dest: create_archive_height_block split: if_splits option.splits)

section \<open>Admitting a round\<close>

lemma put_round_other [simp]:
  "ah_height (put_round rd b) = ah_height b"
  "ah_evicted_through (put_round rd b) = ah_evicted_through b"
  "ah_observed (put_round rd b) = ah_observed b"
  by (simp_all add: put_round_def)

lemma enter_round_inv:
  fixes t :: tracker and b :: archived_height and rnd :: int and now :: gtime
  assumes b: "block_inv b" and ros: "gmap_ok (tk_validators t)"
    and new: "0 \<le> rnd" "rnd \<le> max_int32" "ah_evicted_through b < rnd" "map_of (ah_rounds b) rnd = None"
  defines "b1 \<equiv> enter_round t b rnd now"
  shows "gmap_ok (ah_rounds b1)"
    and "gmap_all (\<lambda>r rd. ar_round rd = r \<and> ah_evicted_through b1 < r \<and> r \<le> ah_last_round b1
                          \<and> ah_first_round b1 \<le> r \<and> round_inv rd) (ah_rounds b1)"
    and "length (ah_rounds b1) = Suc (length (ah_rounds b))"
    and "ah_observed b1 = int (length (ah_rounds b1)) + ah_evicted b1"
    and "rnd \<in> fst ` set (ah_rounds b1)"
    and "fst ` set (ah_rounds b) \<subseteq> fst ` set (ah_rounds b1)"
    and "0 \<le> ah_first_round b1" "0 \<le> ah_last_round b1" "ah_last_round b1 \<le> max_int32" "rnd \<le> ah_last_round b1"
    and "ah_evicted_through b1 = ah_evicted_through b" "ah_evicted b1 = ah_evicted b" "ah_height b1 = ah_height b"
    and "0 < ah_observed b1"
proof -
  have rounds: "ah_rounds b1 = gput rnd (new_round t rnd now) (ah_rounds b)"
    by (simp add: b1_def enter_round_def put_round_def new_round_def)
  have ev: "ah_evicted_through b1 = ah_evicted_through b"
    and le: "ah_evicted b1 = ah_evicted b" and he: "ah_height b1 = ah_height b"
    by (simp_all add: b1_def enter_round_def put_round_def)
  have notin: "rnd \<notin> fst ` set (ah_rounds b)"
    using new(4) by (simp add: map_of_eq_None_iff)
  show "gmap_ok (ah_rounds b1)"
    using b by (simp add: rounds block_inv_def)
  show len: "length (ah_rounds b1) = Suc (length (ah_rounds b))"
    using notin by (simp add: rounds length_gput)
  have empty: "ah_rounds b = []" if "ah_observed b = 0"
  proof -
    have "int (length (ah_rounds b)) = 0"
      using that b unfolding block_inv_def by linarith
    then show ?thesis by simp
  qed
  have fresh: "round_inv (new_round t rnd now)" "ar_round (new_round t rnd now) = rnd"
    using ros by (auto simp: round_inv_def new_round_def unknown_voters_def)
  have old: "gmap_all (\<lambda>r rd. ar_round rd = r \<and> ah_evicted_through b1 < r \<and> r \<le> ah_last_round b1
                          \<and> ah_first_round b1 \<le> r \<and> round_inv rd) (ah_rounds b)"
  proof (cases "ah_observed b = 0")
    case True
    then show ?thesis by (simp add: empty)
  next
    case False
    then show ?thesis
      using b by (auto simp: block_inv_def b1_def enter_round_def put_round_def elim!: gmap_all_mono)
  qed
  have mine: "ah_first_round b1 \<le> rnd" "rnd \<le> ah_last_round b1"
    by (auto simp: b1_def enter_round_def put_round_def)
  show "gmap_all (\<lambda>r rd. ar_round rd = r \<and> ah_evicted_through b1 < r \<and> r \<le> ah_last_round b1
                          \<and> ah_first_round b1 \<le> r \<and> round_inv rd) (ah_rounds b1)"
    unfolding rounds
    by (rule gmap_all_gput [OF _ old]) (use fresh mine new ev in auto)
  have "ah_observed b \<le> ah_evicted_through b + 129"
    using b by (auto simp: block_inv_def round_limit_def)
  then have "i64 (ah_observed b + 1) = ah_observed b + 1"
    using b new by (intro i64_id) (auto simp: block_inv_def int64_min_def int64_max_def max_int32_def)
  then have obs: "ah_observed b1 = ah_observed b + 1"
    by (simp add: b1_def enter_round_def)
  then show "ah_observed b1 = int (length (ah_rounds b1)) + ah_evicted b1"
    using b len le by (auto simp: block_inv_def)
  show "0 < ah_observed b1"
    using obs b by (auto simp: block_inv_def)
  show "rnd \<in> fst ` set (ah_rounds b1)" "fst ` set (ah_rounds b) \<subseteq> fst ` set (ah_rounds b1)"
    by (auto simp: rounds gkeys_gput)
  show "0 \<le> ah_first_round b1" "0 \<le> ah_last_round b1" "ah_last_round b1 \<le> max_int32"
    using b new by (auto simp: b1_def enter_round_def put_round_def block_inv_def)
  show "rnd \<le> ah_last_round b1" by (rule mine)
qed (simp_all add: b1_def enter_round_def put_round_def)

lemma evict_round_inv:
  fixes b :: archived_height and rnd :: int
  assumes ok: "gmap_ok (ah_rounds b)"
    and all: "gmap_all (\<lambda>r rd. ar_round rd = r \<and> ah_evicted_through b < r \<and> r \<le> ah_last_round b
                          \<and> ah_first_round b \<le> r \<and> round_inv rd) (ah_rounds b)"
    and len: "int (length (ah_rounds b)) = round_limit + 1"
    and obs: "ah_observed b = int (length (ah_rounds b)) + ah_evicted b"
    and mem: "rnd \<in> fst ` set (ah_rounds b)"
    and rng: "0 \<le> ah_first_round b" "0 \<le> ah_last_round b" "ah_last_round b \<le> max_int32"
    and ev: "0 \<le> ah_evicted b" "ah_evicted b \<le> ah_evicted_through b + 1"
  shows "block_inv (evict_round b rnd)" and "ah_height (evict_round b rnd) = ah_height b"
proof -
  define old where "old = oldest_key rnd (gkeys (ah_rounds b))"
  have old_mem: "old \<in> fst ` set (ah_rounds b)"
    using oldest_key_mem [of rnd "gkeys (ah_rounds b)"] mem by (auto simp: old_def)
  then obtain rd where "map_of (ah_rounds b) old = Some rd"
    by (auto simp: gkeys_dom)
  from gmap_all_lookup [OF all this] have old: "ah_evicted_through b < old" "old \<le> ah_last_round b"
    by auto
  have least: "r \<in> fst ` set (ah_rounds b) \<Longrightarrow> old \<le> r" for r
    unfolding old_def by (rule oldest_key_le) simp
  have e: "i64 (ah_evicted b + 1) = ah_evicted b + 1"
    using ev old rng by (intro i64_id) (auto simp: int64_min_def int64_max_def max_int32_def)
  have b': "evict_round b rnd = b\<lparr>ah_rounds := gdel old (ah_rounds b), ah_evicted_through := old,
      ah_evicted := ah_evicted b + 1\<rparr>"
    by (simp add: evict_round_def old_def Let_def e [unfolded old_def])
  have "gmap_all (\<lambda>r rd. ar_round rd = r \<and> old < r \<and> r \<le> ah_last_round b
                          \<and> ah_first_round b \<le> r \<and> round_inv rd) (gdel old (ah_rounds b))"
  proof (subst gmap_all_iff; (intro allI impI)?)
    show "gmap_ok (gdel old (ah_rounds b))" using ok by simp
  next
    fix r rd
    assume "map_of (gdel old (ah_rounds b)) r = Some rd"
    then have r: "map_of (ah_rounds b) r = Some rd" and ne: "r \<noteq> old"
      by (auto simp: map_of_gdel split: if_splits)
    from r have "r \<in> fst ` set (ah_rounds b)" by (metis domI gkeys_dom)
    with least ne have "old < r" by fastforce
    with gmap_all_lookup [OF all r]
    show "ar_round rd = r \<and> old < r \<and> r \<le> ah_last_round b \<and> ah_first_round b \<le> r \<and> round_inv rd"
      by simp
  qed
  moreover have "int (length (gdel old (ah_rounds b))) = round_limit"
    using old_mem ok len by (simp add: length_gdel round_limit_def)
  ultimately show "block_inv (evict_round b rnd)"
    using ok obs rng ev old len by (simp add: b' block_inv_def)
  show "ah_height (evict_round b rnd) = ah_height b"
    by (simp add: b')
qed

lemma archive_round_inv:
  assumes inv: "archive_inv t" and det: "detector_bounded t" and b: "block_at t (ah_height b) = Some b"
    and rnd: "rnd \<le> max_int32" and step: "archive_round t b rnd now = (t', b', res)"
  shows "archive_inv t'" and "detector_bounded t'"
    and "block_at t' (ah_height b') = Some b'" and "ah_height b' = ah_height b"
    and "res = Some rd \<Longrightarrow> map_of (ah_rounds b') rnd = Some rd \<and> ar_round rd = rnd"
proof -
  have bi: "block_inv b" using archive_block [OF inv b] by simp
  have res: "archive_inv t' \<and> detector_bounded t' \<and> block_at t' (ah_height b') = Some b'
      \<and> ah_height b' = ah_height b \<and> block_inv b'
      \<and> (res = None \<or> res = map_of (ah_rounds b') rnd)"
  proof (cases "rnd < 0 \<or> rnd \<le> ah_evicted_through b \<or> map_of (ah_rounds b) rnd \<noteq> None
        \<or> ah_committed b \<or> ah_height b \<le> tk_committed t")
    case True
    then show ?thesis
      using step inv det b bi by (auto simp: archive_round_def split: if_splits option.splits)
  next
    case False
    then have new: "0 \<le> rnd" "ah_evicted_through b < rnd" "map_of (ah_rounds b) rnd = None" by auto
    have ros: "gmap_ok (tk_validators t)" using inv by (simp add: archive_inv_def)
    note e = enter_round_inv [OF bi ros new(1) rnd new(2,3), of now]
    let ?b1 = "enter_round t b rnd now"
    have len: "int (length (ah_rounds ?b1)) \<le> round_limit + 1"
      using e(3) bi by (simp add: block_inv_def)
    show ?thesis
    proof (cases "int (length (ah_rounds ?b1)) > round_limit")
      case False
      have "ah_evicted_through ?b1 \<le> ah_last_round ?b1"
        using e(10,11) new(2) by linarith
      moreover have "0 \<le> ah_evicted ?b1" "ah_evicted ?b1 \<le> ah_evicted_through ?b1 + 1"
        using bi e(11,12) by (simp_all add: block_inv_def)
      ultimately have b1: "block_inv ?b1"
        unfolding block_inv_def using e(1,2,4,7,8,9) False by simp
      have out: "t' = put_block ?b1 t" "b' = ?b1" "res = map_of (ah_rounds ?b1) rnd"
        using step new \<open>\<not> (rnd < 0 \<or> _)\<close> False by (auto simp: archive_round_def Let_def)
      show ?thesis
        unfolding out
        using archive_inv_put_block [OF inv _ b1] detector_bounded_put_block [OF det _ e(6)] b e(13) b1
        by (simp add: block_at_put_block)
    next
      case True
      have l: "int (length (ah_rounds ?b1)) = round_limit + 1" using True len by simp
      have b2: "block_inv (evict_round ?b1 rnd)" "ah_height (evict_round ?b1 rnd) = ah_height b"
        using evict_round_inv [OF e(1,2) l e(4,5,7,8,9)] e(11,12,13) bi by (auto simp: block_inv_def)
      have out: "t' = prune_detector_rounds (put_block (evict_round ?b1 rnd) t)"
        "b' = evict_round ?b1 rnd" "res = map_of (ah_rounds (evict_round ?b1 rnd)) rnd"
        using step new \<open>\<not> (rnd < 0 \<or> _)\<close> True by (auto simp: archive_round_def Let_def)
      have "archive_inv (put_block (evict_round ?b1 rnd) t)"
        by (rule archive_inv_put_block [OF inv _ b2(1)]) (simp add: b2 b)
      moreover have "detector_keyed (put_block (evict_round ?b1 rnd) t)"
        using detector_bounded_keyed [OF det] by (simp add: detector_keyed_def)
      ultimately show ?thesis
        unfolding out using b2 by (simp add: prune_bounded block_at_put_block)
    qed
  qed
  then show "archive_inv t'" "detector_bounded t'" "block_at t' (ah_height b') = Some b'"
    "ah_height b' = ah_height b"
    by auto
  show "res = Some rd \<Longrightarrow> map_of (ah_rounds b') rnd = Some rd \<and> ar_round rd = rnd"
    using res block_inv_round [of b' rnd rd] by auto
qed

section \<open>The operations\<close>

lemma observe_round_inv:
  assumes inv: "archive_inv t" and det: "detector_bounded t"
  shows "archive_inv (observe_round t h r p now) \<and> detector_bounded (observe_round t h r p now)"
proof (cases "h \<le> 0 \<or> r < 0 \<or> r > max_int32 \<or> length p > identity_limit")
  case True
  with inv det show ?thesis by (simp add: observe_round_def)
next
  case False
  obtain t1 o1 where s1: "archive_height t h now = (t1, o1)" by fastforce
  note i1 = archive_height_inv [OF inv det s1]
  show ?thesis
  proof (cases o1)
    case None
    with False s1 i1 show ?thesis by (simp add: observe_round_def)
  next
    case (Some b)
    with s1 have b: "block_at t1 h = Some b" by (simp add: archive_height_block)
    have hb: "ah_height b = h" using archive_block [OF i1(1) b] by simp
    obtain t2 b2 o2 where s2: "archive_round t1 b r now = (t2, b2, o2)" by (metis prod_cases3)
    have r: "r \<le> max_int32" using False by simp
    note i2 = archive_round_inv [OF i1 _ r s2, unfolded hb, OF b]
    show ?thesis
    proof (cases o2)
      case None
      with False s1 s2 Some i2 show ?thesis by (simp add: observe_round_def)
    next
      case (Some rd)
      let ?rd' = "rd\<lparr>ar_proposer := p, ar_last := now\<rparr>"
      let ?b' = "(put_round ?rd' b2)\<lparr>ah_last := now, ah_revision := ah_revision b2 + 1\<rparr>"
      have mem: "map_of (ah_rounds b2) (ar_round ?rd') = Some rd" using i2(5) [OF Some] by simp
      have bi2: "block_inv b2" using archive_block [OF i2(1,3)] by simp
      then have "round_inv ?rd'" using block_inv_round mem by fastforce
      from block_inv_put_round [OF bi2 mem this] have bi': "block_inv ?b'" by simp
      have keys: "fst ` set (ah_rounds b2) \<subseteq> fst ` set (ah_rounds ?b')"
        using put_round_keys [of b2 ?rd'] mem by auto
      have at: "block_at t2 (ah_height ?b') = Some b2" using i2(3,4) by simp
      show ?thesis
        using False s1 s2 \<open>o1 = Some b\<close> Some i2 archive_inv_put_block [OF i2(1) at bi']
          detector_bounded_put_block [OF i2(2) at keys]
        by (simp add: observe_round_def)
    qed
  qed
qed

lemma observe_vote_inv:
  assumes inv: "archive_inv t" and det: "detector_bounded t"
  shows "archive_inv (observe_vote t v now) \<and> detector_bounded (observe_vote t v now)"
proof (cases "well_formed_vote v")
  case False
  with inv det show ?thesis by (simp add: observe_vote_def)
next
  case wf: True
  obtain t1 o1 where s1: "archive_height t (ve_height v) now = (t1, o1)" by fastforce
  note i1 = archive_height_inv [OF inv det s1]
  show ?thesis
  proof (cases o1)
    case None
    with wf s1 i1 show ?thesis by (simp add: observe_vote_def)
  next
    case (Some b)
    with s1 have b: "block_at t1 (ve_height v) = Some b" by (simp add: archive_height_block)
    have hb: "ah_height b = ve_height v" using archive_block [OF i1(1) b] by simp
    obtain t2 b2 o2 where s2: "archive_round t1 b (ve_round v) now = (t2, b2, o2)" by (metis prod_cases3)
    have r: "ve_round v \<le> max_int32" using wf by (auto simp: well_formed_vote_def)
    note i2 = archive_round_inv [OF i1 _ r s2, unfolded hb, OF b]
    show ?thesis
    proof (cases o2)
      case None
      with wf s1 s2 Some i2 show ?thesis by (simp add: observe_vote_def)
    next
      case (Some rd)
      have mem: "map_of (ah_rounds b2) (ar_round rd) = Some rd" using i2(5) [OF Some] by simp
      have bi2: "block_inv b2" using archive_block [OF i2(1,3)] by simp
      note rv = record_vote_inv [OF bi2 mem wf, of now]
      have at: "block_at t2 (ah_height (record_vote b2 rd v now)) = Some b2"
        using i2(3) by (simp add: rv(2))
      show ?thesis
        using wf s1 s2 \<open>o1 = Some b\<close> Some archive_inv_put_block [OF i2(1) at rv(1)]
          detector_bounded_put_block [OF i2(2) at] rv(3)
        by (simp add: observe_vote_def)
    qed
  qed
qed

lemma archive_commit_inv:
  assumes inv: "archive_inv t" and det: "detector_bounded t"
  shows "archive_inv (archive_commit t h hash now) \<and> detector_bounded (archive_commit t h hash now)"
proof -
  obtain t1 o1 where s1: "create_archive_height t h now = (t1, o1)" by fastforce
  note i1 = create_archive_height_inv [OF inv det s1]
  show ?thesis
  proof (cases o1)
    case None
    with inv det s1 i1 show ?thesis by (simp add: archive_commit_def)
  next
    case (Some b)
    with s1 have b: "block_at t1 h = Some b" by (simp add: create_archive_height_block)
    note ab = archive_block [OF i1(1) b]
    let ?b' = "b\<lparr>ah_committed := True, ah_canonical := hash, ah_last := now, ah_revision := ah_revision b + 1\<rparr>"
    have at: "block_at t1 (ah_height ?b') = Some b" using ab(1) b by simp
    have bi: "block_inv ?b'" using ab(4) by simp
    show ?thesis
      using inv det i1 s1 Some archive_inv_put_block [OF i1(1) at bi] detector_bounded_put_block [OF i1(2) at]
      by (simp add: archive_commit_def)
  qed
qed

end
