(* ===== verification/Detector.thy ===== *)
theory Detector
  imports Archive_Inv
begin

text \<open>
  The vote-split detector of \<open>internal/divergence/tracker.go\<close>: grouping votes by block hash,
  the report of a round, the trigger, commit resolution and the published report.  Each operation
  runs under the tracker's mutex, so it is one atomic step of the model.
\<close>

section \<open>Reports\<close>

definition zero_validator :: validator_power where
  "zero_validator = \<lparr>vp_address = '''', vp_power = 0, vp_moniker = ''''\<rparr>"

text \<open>A read \<open>m[addr]\<close>: the zero value where the key is absent.\<close>

definition roster_get :: "roster \<Rightarrow> string \<Rightarrow> validator_power" where
  "roster_get m addr = (case map_of m addr of Some v \<Rightarrow> v | None \<Rightarrow> zero_validator)"

abbreviation power_of :: "roster \<Rightarrow> string \<Rightarrow> int" where
  "power_of m addr \<equiv> vp_power (roster_get m addr)"

definition group_lt :: "group \<Rightarrow> group \<Rightarrow> bool" where
  "group_lt a b =
     (if gr_power a = gr_power b then gr_hash a < gr_hash b else gr_power a > gr_power b)"

text \<open>\<open>100 * float64(power) / float64(total)\<close>, zero without a positive total.\<close>

definition voting_pct :: "int \<Rightarrow> int \<Rightarrow> rat" where
  "voting_pct tot pw =
     (if tot > 0 then f64_div (f64_mul 100 (f64_of_int pw)) (f64_of_int tot) else 0)"

definition make_group :: "round_data \<Rightarrow> group_data \<Rightarrow> group" where
  "make_group rd g =
     \<lparr>gr_hash = gd_hash g, gr_power = gd_power g, gr_pct = voting_pct (rd_total_power rd) (gd_power g),
      gr_count = int (length (gd_validators g)), gr_monikers = gd_monikers g,
      gr_validators = gd_validators g,
      gr_canonical = (rd_resolved rd \<and> gd_hash g = rd_canonical rd)\<rparr>"

text \<open>The loop that looks for a group beside the leader above the threshold.\<close>

fun divergent_scan :: "rat \<Rightarrow> bool \<Rightarrow> group list \<Rightarrow> bool" where
  "divergent_scan thr leader_found [] = False"
| "divergent_scan thr leader_found (g # gs) =
     (if gr_hash g = '''' then divergent_scan thr leader_found gs
      else if \<not> leader_found then divergent_scan thr True gs
      else if gr_pct g \<ge> thr \<and> gr_power g > 0 then True
      else divergent_scan thr leader_found gs)"

definition group_list :: "round_data \<Rightarrow> group list" where
  "group_list rd = map (\<lambda>(h, g). make_group rd g) (rd_groups rd)"

definition round_groups :: "round_data \<Rightarrow> group list" where
  "round_groups rd = sort_slice group_lt (group_list rd)"

definition report_round :: "config \<Rightarrow> round_data \<Rightarrow> round_report" where
  "report_round cfg rd =
     \<lparr>rr_height = rk_height (rd_key rd), rr_round = rk_round (rd_key rd), rr_type = rk_type (rd_key rd),
      rr_groups = round_groups rd, rr_total_power = rd_total_power rd, rr_voted_power = rd_voted_power rd,
      rr_resolved = rd_resolved rd, rr_canonical = rd_canonical rd,
      rr_divergent = divergent_scan (cf_threshold cfg) False (round_groups rd)\<rparr>"

section \<open>The validator set\<close>

definition roster_of :: "validator_power list \<Rightarrow> roster" where
  "roster_of vs = fold (\<lambda>v m. gput (vp_address v) v m) vs []"

definition total_power :: "validator_power list \<Rightarrow> int" where
  "total_power vs = fold (\<lambda>v tot. i64 (tot + vp_power v)) vs 0"

text \<open>One more voter in a group: its power, and its moniker while fewer than five are kept.\<close>

definition add_power :: "roster \<Rightarrow> string \<Rightarrow> group_data \<Rightarrow> group_data" where
  "add_power m addr g =
     (let v = roster_get m addr
      in g\<lparr>gd_power := i64 (gd_power g + vp_power v),
           gd_monikers := (if vp_moniker v \<noteq> '''' \<and> length (gd_monikers g) < 5
                           then gd_monikers g @ [vp_moniker v] else gd_monikers g)\<rparr>)"

definition reweigh_group :: "roster \<Rightarrow> group_data \<Rightarrow> group_data" where
  "reweigh_group m g = fold (add_power m) (gd_validators g) (g\<lparr>gd_power := 0, gd_monikers := []\<rparr>)"

definition reweigh_round :: "roster \<Rightarrow> int \<Rightarrow> round_data \<Rightarrow> round_data" where
  "reweigh_round m tot rd =
     (if rd_total_power rd = 0
      then let groups = gmap_vals (\<lambda>h. reweigh_group m) (rd_groups rd)
           in rd\<lparr>rd_validators := m, rd_total_power := tot, rd_groups := groups,
                 rd_voted_power := fold (\<lambda>(h, g) s. i64 (s + gd_power g)) groups 0\<rparr>
      else rd)"

definition adopt_roster :: "roster \<Rightarrow> archived_height \<Rightarrow> archived_height" where
  "adopt_roster m block =
     block\<lparr>ah_revision := ah_revision block
             + (if m = [] then 0
                else of_nat (length (filter (\<lambda>(r, rd). ar_roster rd = []) (ah_rounds block)))),
           ah_rounds := gmap_vals (\<lambda>r rd. if ar_roster rd = [] then rd\<lparr>ar_roster := m\<rparr> else rd)
                          (ah_rounds block)\<rparr>"

definition set_validators :: "tracker \<Rightarrow> validator_power list \<Rightarrow> tracker" where
  "set_validators t vs =
     (let m = roster_of vs; tot = total_power vs
      in t\<lparr>tk_validators := m, tk_total_power := tot,
           tk_rounds := gmap_vals (\<lambda>k. reweigh_round m tot) (tk_rounds t),
           tk_archive := gmap_vals (\<lambda>h. adopt_roster m) (tk_archive t)\<rparr>)"

section \<open>Votes\<close>

definition new_round_data :: "tracker \<Rightarrow> round_key \<Rightarrow> round_data" where
  "new_round_data t key =
     \<lparr>rd_key = key, rd_groups = [], rd_seen = {}, rd_total_power = tk_total_power t,
      rd_voted_power = 0, rd_validators = tk_validators t, rd_resolved = False,
      rd_canonical = '''', rd_committed = False, rd_advanced = False, rd_detected = False\<rparr>"

definition count_vote :: "round_data \<Rightarrow> vote_event \<Rightarrow> round_data" where
  "count_vote rd v =
     (let g = (case map_of (rd_groups rd) (ve_hash v) of Some g \<Rightarrow> g
               | None \<Rightarrow> \<lparr>gd_hash = ve_hash v, gd_power = 0, gd_validators = [], gd_monikers = []\<rparr>);
          g' = (add_power (rd_validators rd) (ve_addr v) g)
                 \<lparr>gd_validators := gd_validators g @ [ve_addr v]\<rparr>
      in rd\<lparr>rd_seen := insert (ve_addr v) (rd_seen rd),
            rd_groups := gput (ve_hash v) g' (rd_groups rd),
            rd_voted_power := i64 (rd_voted_power rd + power_of (rd_validators rd) (ve_addr v))\<rparr>)"

text \<open>Whether the counted vote fires the detection of its round.\<close>

definition fires :: "config \<Rightarrow> round_data \<Rightarrow> vote_type \<Rightarrow> bool" where
  "fires cfg rd ty \<longleftrightarrow>
     (ty = Precommit \<or> cf_prevotes cfg)
     \<and> (\<not> rd_advanced rd
        \<and> (ty = Precommit \<and> rd_total_power rd > 0
             \<and> rd_voted_power rd > go_div (i64 (rd_total_power rd * 2)) 3
           \<or> cf_prevotes cfg \<and> rd_voted_power rd = rd_total_power rd \<and> rd_total_power rd > 0))
     \<and> rr_divergent (report_round cfg rd) \<and> \<not> rd_detected rd"

definition vote_key :: "vote_event \<Rightarrow> round_key" where
  "vote_key v = \<lparr>rk_height = ve_height v, rk_round = ve_round v, rk_type = ve_type v\<rparr>"

definition ingest_vote :: "tracker \<Rightarrow> vote_event \<Rightarrow> gtime \<Rightarrow> tracker \<times> round_report \<times> bool" where
  "ingest_vote t0 v now =
     (let t = observe_vote t0 v now
      in if vote_at t (ve_height v) (ve_round v) (ve_addr v) (ve_type v) = None
         then (t, zero_report, False)
         else if ve_height v \<le> tk_committed t then (t, zero_report, False)
         else
           let key = vote_key v;
               rd = (case map_of (tk_rounds t) key of Some rd \<Rightarrow> rd | None \<Rightarrow> new_round_data t key)
           in if ve_addr v \<in> rd_seen rd
              then (t\<lparr>tk_rounds := gput key rd (tk_rounds t)\<rparr>, report_round (tk_cfg t) rd, False)
              else
                let rd' = count_vote rd v;
                    trigger = fires (tk_cfg t) rd' (ve_type v)
                in (t\<lparr>tk_rounds := gput key (rd'\<lparr>rd_detected := rd_detected rd' \<or> trigger\<rparr>) (tk_rounds t)\<rparr>,
                    report_round (tk_cfg t) rd', trigger))"

definition mark_round_advanced :: "tracker \<Rightarrow> int \<Rightarrow> int \<Rightarrow> tracker" where
  "mark_round_advanced t height rnd =
     fold (\<lambda>vt t. let key = \<lparr>rk_height = height, rk_round = rnd, rk_type = vt\<rparr>
                  in case map_of (tk_rounds t) key of
                       Some rd \<Rightarrow> t\<lparr>tk_rounds := gput key (rd\<lparr>rd_advanced := True\<rparr>) (tk_rounds t)\<rparr>
                     | None \<Rightarrow> t)
       [Prevote, Precommit] t"

section \<open>Commits and the published report\<close>

definition resolved_lt :: "round_report \<Rightarrow> round_report \<Rightarrow> bool" where
  "resolved_lt a b =
     (if rr_round a \<noteq> rr_round b then rr_round a < rr_round b else rr_type a < rr_type b)"

definition live_lt :: "round_report \<Rightarrow> round_report \<Rightarrow> bool" where
  "live_lt a b =
     (if rr_height a \<noteq> rr_height b then rr_height a < rr_height b
      else if rr_round a \<noteq> rr_round b then rr_round a < rr_round b
      else rr_type a < rr_type b)"

text \<open>
  \<open>if len(xs) > limit { xs = xs[len(xs)-limit:] }\<close>; \<open>None\<close> is the run-time panic of a slice
  expression that is out of range.
\<close>

definition keep_last :: "int \<Rightarrow> 'a list \<Rightarrow> 'a list option" where
  "keep_last limit xs =
     (if int (length xs) > limit
      then let i = i64 (int (length xs) - limit)
           in if 0 \<le> i \<and> i \<le> int (length xs) then Some (drop (nat i) xs) else None
      else Some xs)"

definition resolve_round :: "int \<Rightarrow> string \<Rightarrow> round_key \<Rightarrow> round_data \<Rightarrow> round_data" where
  "resolve_round height hash k rd =
     (if rk_height k = height \<and> \<not> rd_resolved rd
      then rd\<lparr>rd_committed := True, rd_resolved := True, rd_canonical := hash\<rparr>
      else if rk_height k < height \<and> \<not> rd_resolved rd
      then rd\<lparr>rd_committed := True, rd_resolved := True\<rparr>
      else rd)"

definition resolved_reports :: "tracker \<Rightarrow> int \<Rightarrow> string \<Rightarrow> round_report list" where
  "resolved_reports t height hash =
     sort_slice resolved_lt
       (map (\<lambda>(k, rd). report_round (tk_cfg t) (resolve_round height hash k rd))
         (filter (\<lambda>(k, rd). rk_height k = height \<and> \<not> rd_resolved rd) (tk_rounds t)))"

definition advance_committed :: "tracker \<Rightarrow> int \<Rightarrow> tracker" where
  "advance_committed t height =
     (if height > tk_committed t
      then t\<lparr>tk_committed := height, tk_catalogue := tk_catalogue t + 1\<rparr> else t)"

definition resolve_commit ::
  "tracker \<Rightarrow> int \<Rightarrow> string \<Rightarrow> gtime \<Rightarrow> (tracker \<times> round_report list) option" where
  "resolve_commit t0 height hash now =
     (let t = advance_committed (archive_commit t0 height hash now) height;
          resolved = resolved_reports t height hash;
          hs = cf_history (tk_cfg t);
          rounds = gmap_vals (resolve_round height hash) (tk_rounds t);
          cutoff = i64 (height - hs)
      in case keep_last (i64 (hs * 4)) (tk_history t @ resolved) of
           None \<Rightarrow> None
         | Some history \<Rightarrow>
             Some (t\<lparr>tk_history := history,
                     tk_rounds := gfilter (\<lambda>k. \<not> rk_height k < cutoff) rounds\<rparr>, resolved))"

definition current_report :: "tracker \<Rightarrow> report" where
  "current_report t =
     (let live = sort_slice live_lt
                   (map (\<lambda>(k, rd). report_round (tk_cfg t) rd)
                     (filter (\<lambda>(k, rd). \<not> rd_resolved rd) (tk_rounds t)));
          divergent = filter rr_divergent (tk_history t);
          hs = cf_history (tk_cfg t)
      in \<lparr>rp_live = live,
          rp_history = (if int (length divergent) > hs
                        then drop (length divergent - nat hs) divergent else divergent)\<rparr>)"

end
