(* ===== verification/Detector_Report.thy ===== *)
theory Detector_Report
  imports Detector
begin

text \<open>
  What a round report says: it does not depend on the iteration order of Go's maps, its groups are
  sorted by power, and its divergence flag means that two block hashes hold the threshold.
\<close>

section \<open>The comparators\<close>

interpretation group_order: slice_less group_lt "\<lambda>g. (- gr_power g, gr_hash g)"
  by unfold_locales (auto simp: group_lt_def)

interpretation resolved_order: slice_less resolved_lt "\<lambda>r. (rr_round r, rr_type r)"
  by unfold_locales (auto simp: resolved_lt_def)

interpretation live_order: slice_less live_lt "\<lambda>r. (rr_height r, rr_round r, rr_type r)"
  by unfold_locales (auto simp: live_lt_def)

section \<open>Groups of a round\<close>

definition groups_keyed :: "round_data \<Rightarrow> bool" where
  "groups_keyed rd \<longleftrightarrow> gmap_ok (rd_groups rd) \<and> gmap_all (\<lambda>h g. gd_hash g = h) (rd_groups rd)"

lemma make_group_sel [simp]:
  "gr_hash (make_group rd g) = gd_hash g"
  "gr_power (make_group rd g) = gd_power g"
  "gr_pct (make_group rd g) = voting_pct (rd_total_power rd) (gd_power g)"
  "gr_count (make_group rd g) = int (length (gd_validators g))"
  "gr_validators (make_group rd g) = gd_validators g"
  "gr_canonical (make_group rd g) \<longleftrightarrow> rd_resolved rd \<and> gd_hash g = rd_canonical rd"
  by (simp_all add: make_group_def)

lemma round_groups_sorted:
  "sorted (map (\<lambda>g. (- gr_power g, gr_hash g)) (round_groups rd))"
  by (simp add: round_groups_def group_order.sorted_result)

lemma group_list_hashes: "groups_keyed rd \<Longrightarrow> map gr_hash (group_list rd) = gkeys (rd_groups rd)"
  by (auto simp: groups_keyed_def gmap_all_def list_all_iff group_list_def)

lemma distinct_group_hashes:
  assumes "groups_keyed rd"
  shows "distinct (map gr_hash (group_list rd))"
  using assms unfolding group_list_hashes [OF assms] by (simp add: groups_keyed_def)

lemma round_groups_hashes: "groups_keyed rd \<Longrightarrow> distinct (map gr_hash (round_groups rd))"
  unfolding round_groups_def distinct_map_sort_slice by (rule distinct_group_hashes)

lemma keyed_hash: "groups_keyed rd \<Longrightarrow> map_of (rd_groups rd) h = Some d \<Longrightarrow> gd_hash d = h"
  by (auto simp: groups_keyed_def dest: gmap_all_lookup)

lemma round_groups_member:
  assumes "groups_keyed rd"
  shows "g \<in> set (round_groups rd) \<longleftrightarrow>
    (\<exists>d. map_of (rd_groups rd) (gr_hash g) = Some d \<and> g = make_group rd d)"
proof -
  have "(h, d) \<in> set (rd_groups rd) \<longleftrightarrow> map_of (rd_groups rd) h = Some d" for h d
    using assms by (simp add: groups_keyed_def)
  then have "g \<in> set (round_groups rd) \<longleftrightarrow>
      (\<exists>h d. map_of (rd_groups rd) h = Some d \<and> g = make_group rd d)"
    by (force simp: round_groups_def group_list_def)
  then show ?thesis
    using keyed_hash [OF assms] by (metis make_group_sel(1))
qed

section \<open>The divergence flag\<close>

lemma divergent_scan_True:
  "divergent_scan thr True gs \<longleftrightarrow>
     (\<exists>g \<in> set gs. gr_hash g \<noteq> '''' \<and> gr_pct g \<ge> thr \<and> gr_power g > 0)"
  by (induction gs) auto

text \<open>The first non-nil group is the leader, and any group after it can diverge.\<close>

lemma divergent_scan_split:
  "divergent_scan thr False gs \<longleftrightarrow>
     (\<exists>pre g post. gs = pre @ g # post \<and> (\<forall>p \<in> set pre. gr_hash p = '''') \<and> gr_hash g \<noteq> ''''
        \<and> divergent_scan thr True post)"
proof (induction gs)
  case Nil
  then show ?case by simp
next
  case (Cons a gs)
  show ?case
  proof (cases "gr_hash a = ''''")
    case True
    have "(\<exists>pre g post. a # gs = pre @ g # post \<and> (\<forall>p \<in> set pre. gr_hash p = '''') \<and> gr_hash g \<noteq> ''''
            \<and> divergent_scan thr True post) \<longleftrightarrow>
          (\<exists>pre g post. gs = pre @ g # post \<and> (\<forall>p \<in> set pre. gr_hash p = '''') \<and> gr_hash g \<noteq> ''''
            \<and> divergent_scan thr True post)" (is "?L = ?R")
    proof
      assume ?L
      then obtain pre g post where l: "a # gs = pre @ g # post" "\<forall>p \<in> set pre. gr_hash p = ''''"
        "gr_hash g \<noteq> ''''" "divergent_scan thr True post" by blast
      with True obtain pre' where "pre = a # pre'" by (cases pre) auto
      with l show ?R by (intro exI [of _ pre'] exI [of _ g] exI [of _ post]) auto
    next
      assume ?R
      then obtain pre g post where "gs = pre @ g # post" "\<forall>p \<in> set pre. gr_hash p = ''''"
        "gr_hash g \<noteq> ''''" "divergent_scan thr True post" by blast
      with True show ?L by (intro exI [of _ "a # pre"] exI [of _ g] exI [of _ post]) auto
    qed
    with True Cons.IH show ?thesis by simp
  next
    case False
    have "(\<exists>pre g post. a # gs = pre @ g # post \<and> (\<forall>p \<in> set pre. gr_hash p = '''') \<and> gr_hash g \<noteq> ''''
            \<and> divergent_scan thr True post) \<longleftrightarrow> divergent_scan thr True gs" (is "?L = ?R")
    proof
      assume ?L
      then obtain pre g post where l: "a # gs = pre @ g # post" "\<forall>p \<in> set pre. gr_hash p = ''''"
        "divergent_scan thr True post" by blast
      with False have "pre = []" by (cases pre) auto
      with l show ?R by simp
    next
      assume ?R
      with False show ?L by (intro exI [of _ "[]"] exI [of _ a] exI [of _ gs]) simp
    qed
    with False show ?thesis by simp
  qed
qed

lemma voting_pct_mono: "0 \<le> a \<Longrightarrow> a \<le> b \<Longrightarrow> voting_pct tot a \<le> voting_pct tot b"
  by (auto simp: voting_pct_def intro!: f64_div_mono f64_mul_mono f64_mul_nonneg f64_of_int_mono
      f64_of_int_nonneg)

text \<open>A hash whose voters hold the threshold.\<close>

definition strong_hash :: "config \<Rightarrow> round_data \<Rightarrow> string \<Rightarrow> bool" where
  "strong_hash cfg rd h \<longleftrightarrow>
     (case map_of (rd_groups rd) h of None \<Rightarrow> False
      | Some g \<Rightarrow> h \<noteq> '''' \<and> gd_power g > 0
                  \<and> voting_pct (rd_total_power rd) (gd_power g) \<ge> cf_threshold cfg)"

lemma strong_hash_group:
  assumes "groups_keyed rd"
  shows "strong_hash cfg rd h \<longleftrightarrow>
    (\<exists>g \<in> set (round_groups rd). gr_hash g = h \<and> h \<noteq> '''' \<and> gr_power g > 0 \<and> gr_pct g \<ge> cf_threshold cfg)"
proof
  assume "strong_hash cfg rd h"
  then obtain d where d: "map_of (rd_groups rd) h = Some d" and s: "h \<noteq> ''''" "gd_power d > 0"
    "voting_pct (rd_total_power rd) (gd_power d) \<ge> cf_threshold cfg"
    by (auto simp: strong_hash_def split: option.splits)
  from d have "make_group rd d \<in> set (round_groups rd)"
    using keyed_hash [OF assms d] by (auto simp: round_groups_member [OF assms])
  with s keyed_hash [OF assms d]
  show "\<exists>g \<in> set (round_groups rd). gr_hash g = h \<and> h \<noteq> '''' \<and> gr_power g > 0 \<and> gr_pct g \<ge> cf_threshold cfg"
    by (intro bexI [of _ "make_group rd d"]) auto
next
  assume "\<exists>g \<in> set (round_groups rd). gr_hash g = h \<and> h \<noteq> '''' \<and> gr_power g > 0 \<and> gr_pct g \<ge> cf_threshold cfg"
  then obtain g where g: "g \<in> set (round_groups rd)" "gr_hash g = h" "h \<noteq> ''''" "gr_power g > 0"
    "gr_pct g \<ge> cf_threshold cfg" by blast
  from g(1,2) obtain d where "map_of (rd_groups rd) h = Some d" "g = make_group rd d"
    unfolding round_groups_member [OF assms] by auto
  with g show "strong_hash cfg rd h" by (simp add: strong_hash_def)
qed

lemma divergent_two_hashes:
  assumes k: "groups_keyed rd"
  shows "rr_divergent (report_round cfg rd) \<longleftrightarrow>
    (\<exists>h1 h2. h1 \<noteq> h2 \<and> strong_hash cfg rd h1 \<and> strong_hash cfg rd h2)"
proof
  let ?gs = "round_groups rd"
  note sorted = round_groups_sorted [of rd] and dist = round_groups_hashes [OF k]
  assume "rr_divergent (report_round cfg rd)"
  then obtain pre L post where split: "?gs = pre @ L # post" and L: "gr_hash L \<noteq> ''''"
    and "divergent_scan (cf_threshold cfg) True post"
    by (auto simp: report_round_def divergent_scan_split)
  then obtain g where g: "g \<in> set post" "gr_hash g \<noteq> ''''" "gr_pct g \<ge> cf_threshold cfg" "gr_power g > 0"
    by (auto simp: divergent_scan_True)
  have le: "gr_power g \<le> gr_power L"
    using sorted g(1) by (auto simp: split sorted_append)
  have mem: "L \<in> set ?gs" "g \<in> set ?gs" using split g(1) by auto
  from mem obtain dg dL where "g = make_group rd dg" "L = make_group rd dL"
    unfolding round_groups_member [OF k] by blast
  then have "gr_pct g \<le> gr_pct L"
    using le g(4) by (simp add: voting_pct_mono)
  with g le L mem have "strong_hash cfg rd (gr_hash L)" "strong_hash cfg rd (gr_hash g)"
    by (auto simp: strong_hash_group [OF k])
  moreover have "gr_hash L \<noteq> gr_hash g" using dist g(1) by (auto simp: split)
  ultimately show "\<exists>h1 h2. h1 \<noteq> h2 \<and> strong_hash cfg rd h1 \<and> strong_hash cfg rd h2" by blast
next
  let ?gs = "round_groups rd"
  assume "\<exists>h1 h2. h1 \<noteq> h2 \<and> strong_hash cfg rd h1 \<and> strong_hash cfg rd h2"
  then obtain a b where ab: "a \<in> set ?gs" "b \<in> set ?gs" "gr_hash a \<noteq> gr_hash b"
    "gr_hash a \<noteq> ''''" "gr_hash b \<noteq> ''''" "gr_power a > 0" "gr_power b > 0"
    "gr_pct a \<ge> cf_threshold cfg" "gr_pct b \<ge> cf_threshold cfg"
    by (auto simp: strong_hash_group [OF k])
  then obtain pre L post where split: "?gs = pre @ L # post"
    and pre: "\<forall>p \<in> set pre. \<not> gr_hash p \<noteq> ''''" and L: "gr_hash L \<noteq> ''''"
    using split_list_first_prop [of ?gs "\<lambda>g. gr_hash g \<noteq> ''''"] by blast
  have "a \<in> set post \<or> b \<in> set post"
    using ab pre by (auto simp: split)
  with ab have "divergent_scan (cf_threshold cfg) True post"
    by (auto simp: divergent_scan_True)
  with split pre L show "rr_divergent (report_round cfg rd)"
    by (auto simp: report_round_def divergent_scan_split)
qed

section \<open>Iteration order\<close>

lemma round_groups_order_irrelevant:
  assumes k: "groups_keyed rd" and perm: "mset gs = mset (rd_groups rd)"
  shows "round_groups (rd\<lparr>rd_groups := gs\<rparr>) = round_groups rd"
proof -
  have mk: "make_group (rd\<lparr>rd_groups := gs\<rparr>) = make_group rd"
    by (simp add: make_group_def fun_eq_iff)
  have "sort_slice group_lt (group_list rd) = sort_slice group_lt (group_list (rd\<lparr>rd_groups := gs\<rparr>))"
  proof (rule group_order.sort_order_irrelevant)
    show "mset (group_list rd) = mset (group_list (rd\<lparr>rd_groups := gs\<rparr>))"
      by (simp add: group_list_def mk perm)
    have "inj_on gr_hash (set (group_list rd))"
      using distinct_group_hashes [OF k] by (simp add: distinct_map)
    then show "inj_on (\<lambda>g. (- gr_power g, gr_hash g)) (set (group_list rd))"
      by (auto simp: inj_on_def)
  qed
  then show ?thesis by (simp add: round_groups_def)
qed

lemma report_order_irrelevant:
  assumes "groups_keyed rd" and "mset gs = mset (rd_groups rd)"
  shows "report_round cfg (rd\<lparr>rd_groups := gs\<rparr>) = report_round cfg rd"
  using round_groups_order_irrelevant [OF assms] by (simp add: report_round_def)

end
