(* ===== verification/Detector_Inv.thy ===== *)
theory Detector_Inv
  imports Detector_Report
begin

text \<open>
  The invariant of the live detector and its preservation by every tracker operation: each voter of
  a round is counted once, in one group, with the power of the round's validator set, and no round of
  a committed height is live.
\<close>

section \<open>The tally of a round\<close>

definition voters :: "round_data \<Rightarrow> string list" where
  "voters rd = concat (map (\<lambda>(h, g). gd_validators g) (rd_groups rd))"

definition group_inv :: "roster \<Rightarrow> string \<Rightarrow> group_data \<Rightarrow> bool" where
  "group_inv m h g \<longleftrightarrow>
     gd_hash g = h \<and> gd_validators g \<noteq> [] \<and> length (gd_monikers g) \<le> 5
     \<and> gd_power g = i64 (\<Sum>a \<leftarrow> gd_validators g. power_of m a)"

definition tally_inv :: "round_data \<Rightarrow> bool" where
  "tally_inv rd \<longleftrightarrow>
     gmap_ok (rd_groups rd) \<and> gmap_all (group_inv (rd_validators rd)) (rd_groups rd)
     \<and> distinct (voters rd) \<and> set (voters rd) = rd_seen rd
     \<and> rd_voted_power rd = i64 (\<Sum>a \<leftarrow> voters rd. power_of (rd_validators rd) a)"

lemma tally_inv_update [simp]:
  "tally_inv (rd\<lparr>rd_detected := x\<rparr>) = tally_inv rd"
  "tally_inv (rd\<lparr>rd_advanced := x\<rparr>) = tally_inv rd"
  "tally_inv (rd\<lparr>rd_resolved := x\<rparr>) = tally_inv rd"
  "tally_inv (rd\<lparr>rd_committed := x\<rparr>) = tally_inv rd"
  "tally_inv (rd\<lparr>rd_canonical := s\<rparr>) = tally_inv rd"
  by (simp_all add: tally_inv_def voters_def)

lemma tally_keyed: "tally_inv rd \<Longrightarrow> groups_keyed rd"
  by (auto simp: tally_inv_def groups_keyed_def group_inv_def elim: gmap_all_mono)

lemma i64_add_right: "i64 (x + i64 y) = i64 (x + y)"
  using i64_add_left [of y x] by (simp add: add.commute)

lemma tally_inv_new: "tally_inv (new_round_data t key)"
  by (simp add: tally_inv_def new_round_data_def voters_def i64_def)

lemma add_power_sel [simp]:
  "gd_hash (add_power m a g) = gd_hash g"
  "gd_validators (add_power m a g) = gd_validators g"
  "gd_power (add_power m a g) = i64 (gd_power g + power_of m a)"
  by (simp_all add: add_power_def Let_def)

lemma add_power_monikers: "length (gd_monikers g) \<le> 5 \<Longrightarrow> length (gd_monikers (add_power m a g)) \<le> 5"
  by (simp add: add_power_def Let_def)

text \<open>The voters of a map of groups, as a multiset, after one group changes.\<close>

lemma mset_voters_gput:
  fixes m :: "(string, group_data) gomap"
  assumes "gmap_ok m"
  defines "vs \<equiv> \<lambda>m :: (string, group_data) gomap. mset (concat (map (\<lambda>(h, g). gd_validators g) m))"
  shows "vs (gput h g' m) + (case map_of m h of None \<Rightarrow> {#} | Some g \<Rightarrow> mset (gd_validators g))
         = vs m + mset (gd_validators g')"
  using assms(1)
  by (induction m) (auto simp: vs_def ac_simps map_of_eq_None_iff dest: map_of_SomeD split: option.splits)

lemma sum_list_mset_cong:
  fixes f :: "'a \<Rightarrow> int"
  shows "mset xs = mset ys \<Longrightarrow> (\<Sum>a \<leftarrow> xs. f a) = (\<Sum>a \<leftarrow> ys. f a)"
  by (metis mset_map sum_mset_sum_list)

lemma count_vote_sel [simp]:
  "rd_key (count_vote rd v) = rd_key rd"
  "rd_seen (count_vote rd v) = insert (ve_addr v) (rd_seen rd)"
  "rd_validators (count_vote rd v) = rd_validators rd"
  "rd_total_power (count_vote rd v) = rd_total_power rd"
  "rd_resolved (count_vote rd v) = rd_resolved rd"
  "rd_canonical (count_vote rd v) = rd_canonical rd"
  "rd_advanced (count_vote rd v) = rd_advanced rd"
  "rd_detected (count_vote rd v) = rd_detected rd"
  by (simp_all add: count_vote_def Let_def)

lemma count_vote_inv:
  assumes inv: "tally_inv rd" and new: "ve_addr v \<notin> rd_seen rd"
  shows "tally_inv (count_vote rd v)"
    and "mset (voters (count_vote rd v)) = add_mset (ve_addr v) (mset (voters rd))"
proof -
  let ?m = "rd_validators rd" and ?a = "ve_addr v" and ?h = "ve_hash v"
  define g where "g = (case map_of (rd_groups rd) ?h of Some g \<Rightarrow> g
      | None \<Rightarrow> \<lparr>gd_hash = ?h, gd_power = 0, gd_validators = [], gd_monikers = []\<rparr>)"
  define g' where "g' = (add_power ?m ?a g)\<lparr>gd_validators := gd_validators g @ [?a]\<rparr>"
  have rd': "count_vote rd v = rd\<lparr>rd_seen := insert ?a (rd_seen rd),
      rd_groups := gput ?h g' (rd_groups rd), rd_voted_power := i64 (rd_voted_power rd + power_of ?m ?a)\<rparr>"
    by (simp add: count_vote_def g_def g'_def Let_def)
  have ok: "gmap_ok (rd_groups rd)" and all: "gmap_all (group_inv ?m) (rd_groups rd)"
    using inv by (auto simp: tally_inv_def)
  have g: "gd_hash g = ?h" "length (gd_monikers g) \<le> 5"
    "gd_power g = i64 (\<Sum>a \<leftarrow> gd_validators g. power_of ?m a)"
    using gmap_all_lookup [OF all, of ?h]
    by (auto simp: g_def group_inv_def i64_def split: option.split)
  have g': "group_inv ?m ?h g'"
    using g add_power_monikers [of g ?m ?a] by (simp add: group_inv_def g'_def i64_add_left)
  show ms: "mset (voters (count_vote rd v)) = add_mset ?a (mset (voters rd))"
    using mset_voters_gput [OF ok, of ?h g']
    by (auto simp: voters_def rd' g'_def g_def split: option.splits)
  then have dist: "distinct (voters (count_vote rd v)) \<longleftrightarrow> distinct (?a # voters rd)"
    and st: "set (voters (count_vote rd v)) = set (?a # voters rd)"
    by (metis mset.simps(2) mset_eq_imp_distinct_iff, metis mset.simps(2) mset_eq_setD)
  have "(\<Sum>a \<leftarrow> voters (count_vote rd v). power_of ?m a) = (\<Sum>a \<leftarrow> ?a # voters rd. power_of ?m a)"
    by (rule sum_list_mset_cong) (simp add: ms)
  moreover have "rd_voted_power (count_vote rd v)
      = i64 ((\<Sum>a \<leftarrow> voters rd. power_of ?m a) + power_of ?m ?a)"
    using inv by (simp add: rd' tally_inv_def i64_add_left)
  ultimately have "rd_voted_power (count_vote rd v)
      = i64 (\<Sum>a \<leftarrow> voters (count_vote rd v). power_of ?m a)"
    by (simp add: add.commute)
  moreover have "gmap_ok (rd_groups (count_vote rd v))"
    "gmap_all (group_inv ?m) (rd_groups (count_vote rd v))"
    using ok all g' by (auto simp: rd' intro!: inv_intro)
  ultimately show "tally_inv (count_vote rd v)"
    using inv new dist st by (simp add: tally_inv_def)
qed

section \<open>Reweighing under a first validator set\<close>

lemma fold_add_power:
  "i64 (gd_power g) = gd_power g \<Longrightarrow>
     gd_power (fold (add_power m) as g) = i64 (gd_power g + (\<Sum>a \<leftarrow> as. power_of m a))
     \<and> gd_hash (fold (add_power m) as g) = gd_hash g
     \<and> gd_validators (fold (add_power m) as g) = gd_validators g
     \<and> (length (gd_monikers g) \<le> 5 \<longrightarrow> length (gd_monikers (fold (add_power m) as g)) \<le> 5)"
proof (induction as arbitrary: g)
  case Nil
  then show ?case by simp
next
  case (Cons a as)
  have "i64 (gd_power (add_power m a g)) = gd_power (add_power m a g)" by simp
  from Cons.IH [OF this] add_power_monikers [of g m a] show ?case
    by (simp add: i64_add_left add.assoc)
qed

lemma reweigh_group_sel:
  "gd_power (reweigh_group m g) = i64 (\<Sum>a \<leftarrow> gd_validators g. power_of m a)"
  "gd_hash (reweigh_group m g) = gd_hash g"
  "gd_validators (reweigh_group m g) = gd_validators g"
  "length (gd_monikers (reweigh_group m g)) \<le> 5"
  using fold_add_power [of "g\<lparr>gd_power := 0, gd_monikers := []\<rparr>" m "gd_validators g"]
  by (simp_all add: reweigh_group_def i64_def)

lemma fold_group_power:
  assumes "gmap_all (\<lambda>h g. gd_power g = i64 (\<Sum>a \<leftarrow> gd_validators g. power_of m a)) gs"
    and "i64 s = s"
  shows "fold (\<lambda>(h, g) s. i64 (s + gd_power g)) gs s
         = i64 (s + (\<Sum>a \<leftarrow> concat (map (\<lambda>(h, g). gd_validators g) gs). power_of m a))"
  using assms
proof (induction gs arbitrary: s)
  case Nil
  then show ?case by simp
next
  case (Cons p gs)
  obtain h g where p: "p = (h, g)" by fastforce
  have "gd_power g = i64 (\<Sum>a \<leftarrow> gd_validators g. power_of m a)"
    and rest: "gmap_all (\<lambda>h g. gd_power g = i64 (\<Sum>a \<leftarrow> gd_validators g. power_of m a)) gs"
    using Cons.prems(1) by (auto simp: p gmap_all_def)
  then show ?case
    using Cons.IH [OF rest, of "i64 (s + gd_power g)"]
    by (simp add: p i64_add_left i64_add_right add.assoc)
qed

lemma reweigh_round_inv:
  assumes "tally_inv rd"
  shows "tally_inv (reweigh_round m tot rd)"
proof (cases "rd_total_power rd = 0")
  case False
  with assms show ?thesis by (simp add: reweigh_round_def)
next
  case True
  let ?gs = "gmap_vals (\<lambda>h. reweigh_group m) (rd_groups rd)"
  have same: "concat (map (\<lambda>(h, g). gd_validators g) ?gs) = voters rd"
    by (simp add: gmap_vals_def voters_def comp_def case_prod_unfold reweigh_group_sel)
  have all: "gmap_all (group_inv m) ?gs"
    using assms unfolding gmap_all_gmap_vals tally_inv_def
    by (auto simp: group_inv_def reweigh_group_sel elim!: gmap_all_mono)
  then have "gmap_all (\<lambda>h g. gd_power g = i64 (\<Sum>a \<leftarrow> gd_validators g. power_of m a)) ?gs"
    by (auto simp: group_inv_def elim: gmap_all_mono)
  from fold_group_power [OF this, of 0] same
  have "fold (\<lambda>(h, g) s. i64 (s + gd_power g)) ?gs 0 = i64 (\<Sum>a \<leftarrow> voters rd. power_of m a)"
    by (simp add: i64_def)
  with True all same assms show ?thesis
    by (simp add: tally_inv_def reweigh_round_def Let_def) (simp add: voters_def)
qed

lemma reweigh_round_sel [simp]:
  "rd_key (reweigh_round m tot rd) = rd_key rd"
  "rd_seen (reweigh_round m tot rd) = rd_seen rd"
  "rd_resolved (reweigh_round m tot rd) = rd_resolved rd"
  "rd_detected (reweigh_round m tot rd) = rd_detected rd"
  by (simp_all add: reweigh_round_def Let_def)

end
