(* ===== verification/Tracker_Frame.thy ===== *)
theory Tracker_Frame
  imports Detector_Inv
begin

text \<open>
  What the archive operations leave alone, and what they let go for good.  A height or round that
  eviction has passed (\<open>gone\<close>) is never admitted again, so an archive operation either keeps a
  detector round as it is or drops it for ever.
\<close>

section \<open>The frame\<close>

definition gone :: "tracker \<Rightarrow> round_key \<Rightarrow> bool" where
  "gone t k \<longleftrightarrow>
     rk_height k \<le> tk_evicted_through t
     \<or> (\<exists>b. block_at t (rk_height k) = Some b \<and> rk_round k \<le> ah_evicted_through b)"

definition archive_frame :: "tracker \<Rightarrow> tracker \<Rightarrow> bool" where
  "archive_frame t t' \<longleftrightarrow>
     tk_cfg t' = tk_cfg t \<and> tk_validators t' = tk_validators t \<and> tk_total_power t' = tk_total_power t
     \<and> tk_history t' = tk_history t \<and> tk_committed t' = tk_committed t
     \<and> (\<forall>k. gone t k \<longrightarrow> gone t' k)
     \<and> (\<exists>p. tk_rounds t' = gfilter p (tk_rounds t) \<and> (\<forall>k \<in> fst ` set (tk_rounds t). p k \<or> gone t' k))"

lemma gfilter_True [simp]: "gfilter (\<lambda>k. True) m = m"
  by (simp add: gfilter_def case_prod_unfold)

lemma gfilter_gfilter: "gfilter q (gfilter p m) = gfilter (\<lambda>k. p k \<and> q k) m"
  by (simp add: gfilter_def case_prod_unfold)

lemma archive_frame_refl [simp]: "archive_frame t t"
  unfolding archive_frame_def by (simp add: exI [of _ "\<lambda>k. True"])

lemma archive_frame_trans:
  assumes a: "archive_frame t t1" and b: "archive_frame t1 t2"
  shows "archive_frame t t2"
proof -
  obtain p where p: "tk_rounds t1 = gfilter p (tk_rounds t)" "\<forall>k \<in> fst ` set (tk_rounds t). p k \<or> gone t1 k"
    using a by (auto simp: archive_frame_def)
  obtain q where q: "tk_rounds t2 = gfilter q (tk_rounds t1)" "\<forall>k \<in> fst ` set (tk_rounds t1). q k \<or> gone t2 k"
    using b by (auto simp: archive_frame_def)
  have "p k \<and> q k \<or> gone t2 k" if "k \<in> fst ` set (tk_rounds t)" for k
  proof (cases "p k")
    case True
    with that have "k \<in> fst ` set (tk_rounds t1)" by (auto simp: p(1) gfilter_def)
    with True q(2) show ?thesis by auto
  next
    case False
    with that p(2) have "gone t1 k" by auto
    with b show ?thesis by (auto simp: archive_frame_def)
  qed
  then show ?thesis
    using a b p(1) q(1) unfolding archive_frame_def
    by (auto simp: gfilter_gfilter intro!: exI [of _ "\<lambda>k. p k \<and> q k"])
qed

text \<open>Changes of one block that keep the rounds and the eviction mark.\<close>

lemma gone_put_block:
  assumes "block_at t (ah_height b') = Some b" and "ah_evicted_through b \<le> ah_evicted_through b'"
  shows "gone t k \<Longrightarrow> gone (put_block b' t) k"
  using assms by (auto simp: gone_def block_at_put_block)

lemma put_block_archive_frame:
  assumes "block_at t (ah_height b') = Some b" and "ah_evicted_through b \<le> ah_evicted_through b'"
  shows "archive_frame t (put_block b' t)"
  using gone_put_block [OF assms] unfolding archive_frame_def
  by (auto intro!: exI [of _ "\<lambda>k. True"])

text \<open>Pruning after an eviction: what the eviction took from the archive must be gone.\<close>

lemma prune_archive_frame:
  assumes "detector_bounded t"
    and "\<And>k. gone t k \<Longrightarrow> gone t' k"
    and "\<And>h r. round_at t h r \<noteq> None \<Longrightarrow> round_at t' h r = None \<Longrightarrow> gone t' \<lparr>rk_height = h, rk_round = r, rk_type = ty\<rparr>"
    and "tk_cfg t' = tk_cfg t" "tk_validators t' = tk_validators t" "tk_total_power t' = tk_total_power t"
      "tk_history t' = tk_history t" "tk_committed t' = tk_committed t" "tk_rounds t' = tk_rounds t"
  shows "archive_frame t (prune_detector_rounds t')"
proof -
  have same: "gone (prune_detector_rounds t') k = gone t' k" for k
    by (simp add: gone_def)
  have any: "gone t' k" if "gone t' \<lparr>rk_height = rk_height k, rk_round = rk_round k, rk_type = ty\<rparr>" for k
    using that by (simp add: gone_def)
  have "round_at t' (rk_height k) (rk_round k) \<noteq> None \<or> gone t' k"
    if "k \<in> fst ` set (tk_rounds t)" for k
  proof -
    from that assms(1) have "round_at t (rk_height k) (rk_round k) \<noteq> None"
      by (auto simp: detector_bounded_def gmap_all_def list_all_iff)
    with assms(3) [of "rk_height k" "rk_round k"] any show ?thesis by metis
  qed
  then show ?thesis
    using assms unfolding archive_frame_def same
    by (auto simp: prune_detector_rounds_def
        intro!: exI [of _ "\<lambda>k. round_at t' (rk_height k) (rk_round k) \<noteq> None"])
qed

section \<open>Heights\<close>

lemma enter_height_frame:
  assumes "block_at t height = None"
  shows "archive_frame t (enter_height t height now)"
  unfolding archive_frame_def using assms
  by (auto simp: enter_height_def gone_def map_of_gput intro!: exI [of _ "\<lambda>k. True"])

lemma evict_height_frame:
  assumes det: "detector_bounded t"
    and below: "\<And>h b. block_at t h = Some b \<Longrightarrow> tk_evicted_through t < h"
  shows "archive_frame t (evict_height t height)"
proof -
  define old where "old = oldest_key height (gkeys (tk_archive t))"
  define t2 where "t2 = t\<lparr>tk_archive := gdel old (tk_archive t),
      tk_evicted_through := (if old > tk_evicted_through t then old else tk_evicted_through t)\<rparr>"
  have block: "block_at t2 h = (if h = old then None else block_at t h)" for h
    by (simp add: t2_def map_of_gdel)
  have ev: "old \<le> tk_evicted_through t2" "tk_evicted_through t \<le> tk_evicted_through t2"
    by (auto simp: t2_def)
  have "archive_frame t (prune_detector_rounds t2)"
  proof (rule prune_archive_frame [OF det])
    show "gone t k \<Longrightarrow> gone t2 k" for k
      using ev by (cases "rk_height k = old") (auto simp: gone_def block)
    show "round_at t h r \<noteq> None \<Longrightarrow> round_at t2 h r = None \<Longrightarrow>
        gone t2 \<lparr>rk_height = h, rk_round = r, rk_type = Prevote\<rparr>" for h r
      using ev by (cases "h = old") (auto simp: round_at_def block gone_def)
  qed (simp_all add: t2_def)
  then show ?thesis
    by (simp only: evict_height_def t2_def old_def Let_def)
qed

lemma create_archive_height_frame:
  assumes inv: "archive_inv t" and det: "detector_bounded t"
    and step: "create_archive_height t height now = (t', res)"
  shows "archive_frame t t'"
proof (cases "height \<le> 0 \<or> height \<le> tk_evicted_through t \<or> block_at t height \<noteq> None")
  case True
  then show ?thesis using step by (auto simp: create_archive_height_def split: if_splits)
next
  case False
  then have new: "0 < height" "tk_evicted_through t < height" "block_at t height = None" by auto
  note e = enter_height_inv [OF inv det new, of now]
  have f: "archive_frame t (enter_height t height now)" by (rule enter_height_frame [OF new(3)])
  have "tk_evicted_through (enter_height t height now) < h"
    if "block_at (enter_height t height now) h = Some b" for h b
    using gmap_all_lookup [OF e(2) that] by simp
  from archive_frame_trans [OF f evict_height_frame [OF e(4) this]] f show ?thesis
    using step new by (auto simp: create_archive_height_def Let_def split: if_splits)
qed

lemma archive_height_frame:
  "archive_inv t \<Longrightarrow> detector_bounded t \<Longrightarrow> archive_height t height now = (t', res) \<Longrightarrow> archive_frame t t'"
  using create_archive_height_frame [of t height now t' res]
  by (auto simp: archive_height_def split: if_splits option.splits)

section \<open>Rounds\<close>

lemma archive_round_frame:
  assumes inv: "archive_inv t" and det: "detector_bounded t" and b: "block_at t (ah_height b) = Some b"
    and rnd: "rnd \<le> max_int32" and step: "archive_round t b rnd now = (t', b', res)"
  shows "archive_frame t t'"
proof (cases "rnd < 0 \<or> rnd \<le> ah_evicted_through b \<or> map_of (ah_rounds b) rnd \<noteq> None
        \<or> ah_committed b \<or> ah_height b \<le> tk_committed t")
  case True
  then show ?thesis
    using step by (auto simp: archive_round_def split: if_splits option.splits)
next
  case False
  have bi: "block_inv b" using archive_block [OF inv b] by simp
  from False have new: "0 \<le> rnd" "ah_evicted_through b < rnd" "map_of (ah_rounds b) rnd = None" by auto
  have ros: "gmap_ok (tk_validators t)" using inv by (simp add: archive_inv_def)
  note e = enter_round_inv [OF bi ros new(1) rnd new(2,3), of now]
  let ?b1 = "enter_round t b rnd now" and ?b2 = "evict_round (enter_round t b rnd now) rnd"
  show ?thesis
  proof (cases "int (length (ah_rounds ?b1)) > round_limit")
    case False
    then have "t' = put_block ?b1 t"
      using step new \<open>\<not> (rnd < 0 \<or> _)\<close> by (auto simp: archive_round_def Let_def)
    then show ?thesis
      using put_block_archive_frame [of t ?b1 b] b e(11,13) by simp
  next
    case True
    define old where "old = oldest_key rnd (gkeys (ah_rounds ?b1))"
    have b2: "ah_evicted_through ?b2 = old" "ah_rounds ?b2 = gdel old (ah_rounds ?b1)"
      "ah_height ?b2 = ah_height b"
      using e(13) by (simp_all add: evict_round_def old_def Let_def)
    have "old \<in> fst ` set (ah_rounds ?b1)"
      using oldest_key_mem [of rnd "gkeys (ah_rounds ?b1)"] e(5) by (auto simp: old_def)
    then obtain rd where "map_of (ah_rounds ?b1) old = Some rd" by (auto simp: gkeys_dom)
    from gmap_all_lookup [OF e(2) this] have lt: "ah_evicted_through b < old" by (simp add: e(11))
    have at: "block_at t (ah_height ?b2) = Some b" by (simp add: b2 b)
    have "archive_frame t (prune_detector_rounds (put_block ?b2 t))"
    proof (rule prune_archive_frame [OF det])
      show "gone t k \<Longrightarrow> gone (put_block ?b2 t) k" for k
        by (rule gone_put_block [OF at]) (use lt b2 in simp_all)
      show "round_at t h r \<noteq> None \<Longrightarrow> round_at (put_block ?b2 t) h r = None \<Longrightarrow>
          gone (put_block ?b2 t) \<lparr>rk_height = h, rk_round = r, rk_type = Prevote\<rparr>" for h r
      proof -
        assume was: "round_at t h r \<noteq> None" and "round_at (put_block ?b2 t) h r = None"
        then have h: "h = ah_height b" and none: "map_of (gdel old (ah_rounds ?b1)) r = None"
          by (auto simp: round_at_put_block b2 split: if_splits)
        from was b h have "r \<in> fst ` set (ah_rounds b)"
          by (auto simp: round_at_def gkeys_dom)
        with e(6) none have "r = old"
          by (auto simp: map_of_gdel map_of_eq_None_iff split: if_splits)
        with h show ?thesis
          by (simp add: gone_def block_at_put_block b2)
      qed
    qed simp_all
    moreover have "t' = prune_detector_rounds (put_block ?b2 t)"
      using step new \<open>\<not> (rnd < 0 \<or> _)\<close> True by (auto simp: archive_round_def Let_def)
    ultimately show ?thesis by simp
  qed
qed

section \<open>The operations\<close>

lemma observe_round_frame:
  assumes inv: "archive_inv t" and det: "detector_bounded t"
  shows "archive_frame t (observe_round t h r p now)"
proof (cases "h \<le> 0 \<or> r < 0 \<or> r > max_int32 \<or> length p > identity_limit")
  case True
  then show ?thesis by (simp add: observe_round_def)
next
  case False
  obtain t1 o1 where s1: "archive_height t h now = (t1, o1)" by fastforce
  note i1 = archive_height_inv [OF inv det s1] and f1 = archive_height_frame [OF inv det s1]
  show ?thesis
  proof (cases o1)
    case None
    with False s1 f1 show ?thesis by (simp add: observe_round_def)
  next
    case (Some b)
    with s1 have b: "block_at t1 h = Some b" by (simp add: archive_height_block)
    have hb: "ah_height b = h" using archive_block [OF i1(1) b] by simp
    obtain t2 b2 o2 where s2: "archive_round t1 b r now = (t2, b2, o2)" by (metis prod_cases3)
    have r: "r \<le> max_int32" using False by simp
    have bb: "block_at t1 (ah_height b) = Some b" using b hb by simp
    note i2 = archive_round_inv [OF i1 bb r s2]
    have f2: "archive_frame t t2"
      by (rule archive_frame_trans [OF f1 archive_round_frame [OF i1 bb r s2]])
    have f3: "archive_frame t (put_block b' t2)"
      if "ah_height b' = ah_height b2" "ah_evicted_through b' = ah_evicted_through b2" for b'
      by (rule archive_frame_trans [OF f2 put_block_archive_frame [of _ _ b2]]) (use i2 that in auto)
    show ?thesis
      using False s1 s2 \<open>o1 = Some b\<close> f2 f3
      by (auto simp: observe_round_def split: option.split)
  qed
qed

lemma observe_vote_frame:
  assumes inv: "archive_inv t" and det: "detector_bounded t"
  shows "archive_frame t (observe_vote t v now)"
proof (cases "well_formed_vote v")
  case False
  then show ?thesis by (simp add: observe_vote_def)
next
  case wf: True
  obtain t1 o1 where s1: "archive_height t (ve_height v) now = (t1, o1)" by fastforce
  note i1 = archive_height_inv [OF inv det s1] and f1 = archive_height_frame [OF inv det s1]
  show ?thesis
  proof (cases o1)
    case None
    with wf s1 f1 show ?thesis by (simp add: observe_vote_def)
  next
    case (Some b)
    with s1 have b: "block_at t1 (ve_height v) = Some b" by (simp add: archive_height_block)
    have bb: "block_at t1 (ah_height b) = Some b" using b archive_block [OF i1(1) b] by simp
    obtain t2 b2 o2 where s2: "archive_round t1 b (ve_round v) now = (t2, b2, o2)" by (metis prod_cases3)
    have r: "ve_round v \<le> max_int32" using wf by (auto simp: well_formed_vote_def)
    note i2 = archive_round_inv [OF i1 bb r s2]
    have f2: "archive_frame t t2"
      by (rule archive_frame_trans [OF f1 archive_round_frame [OF i1 bb r s2]])
    have "archive_frame t (put_block (record_vote b2 rd v now) t2)" if o2: "o2 = Some rd" for rd
    proof (rule archive_frame_trans [OF f2 put_block_archive_frame])
      have mem: "map_of (ah_rounds b2) (ar_round rd) = Some rd" using i2(5) [OF o2] by simp
      have bi2: "block_inv b2" using archive_block [OF i2(1,3)] by simp
      obtain b' rd' where rv: "record_vote b2 rd v now = put_round rd' b'"
        and b': "b' \<in> {b2, bump b2, (bump b2)\<lparr>ah_last := now\<rparr>}"
        using record_vote_cases [OF bi2 mem wf] by metis
      show "block_at t2 (ah_height (record_vote b2 rd v now)) = Some b2"
        using i2(3) record_vote_inv(2) [OF bi2 mem wf] by simp
      show "ah_evicted_through b2 \<le> ah_evicted_through (record_vote b2 rd v now)"
        using b' by (auto simp: rv bump_def)
    qed
    then show ?thesis
      using wf s1 s2 \<open>o1 = Some b\<close> f2 by (auto simp: observe_vote_def split: option.split)
  qed
qed

lemma archive_commit_frame:
  assumes inv: "archive_inv t" and det: "detector_bounded t"
  shows "archive_frame t (archive_commit t h hash now)"
proof -
  obtain t1 o1 where s1: "create_archive_height t h now = (t1, o1)" by fastforce
  note i1 = create_archive_height_inv [OF inv det s1] and f1 = create_archive_height_frame [OF inv det s1]
  have "archive_frame t (put_block (b\<lparr>ah_committed := True, ah_canonical := hash, ah_last := now,
            ah_revision := ah_revision b + 1\<rparr>) t1)" if "o1 = Some b" for b
  proof (rule archive_frame_trans [OF f1 put_block_archive_frame [of _ _ b]])
    have "block_at t1 h = Some b" using s1 that by (simp add: create_archive_height_block)
    with archive_block [OF i1(1) this]
    show "block_at t1 (ah_height (b\<lparr>ah_committed := True, ah_canonical := hash, ah_last := now,
            ah_revision := ah_revision b + 1\<rparr>)) = Some b" by simp
  qed simp
  then show ?thesis
    using s1 f1 by (auto simp: archive_commit_def split: option.split)
qed

end
