(* ===== verification/Tracker_Runs.thy ===== *)
theory Tracker_Runs
  imports Tracker_Frame
begin

text \<open>
  The tracker as a state machine: its invariant, the operations of its interface as steps, and the
  detections of a run.
\<close>

section \<open>The invariant\<close>

definition live_inv :: "tracker \<Rightarrow> bool" where
  "live_inv t \<longleftrightarrow>
     gmap_all (\<lambda>k rd. tally_inv rd \<and> (\<not> rd_resolved rd \<longrightarrow> tk_committed t < rk_height k)) (tk_rounds t)"

definition tracker_inv :: "tracker \<Rightarrow> bool" where
  "tracker_inv t \<longleftrightarrow> archive_inv t \<and> detector_bounded t \<and> live_inv t"

lemma live_inv_frame: "archive_frame t t' \<Longrightarrow> live_inv t \<Longrightarrow> live_inv t'"
  by (auto simp: archive_frame_def live_inv_def intro: inv_intro)

lemma new_tracker_inv: "tracker_inv (new_tracker cfg)"
  by (simp add: tracker_inv_def archive_inv_def detector_bounded_def live_inv_def new_tracker_def)

lemma tracker_inv_round:
  assumes "tracker_inv t" and "map_of (tk_rounds t) k = Some rd"
  shows "rd_key rd = k" "tally_inv rd" "\<not> rd_resolved rd \<Longrightarrow> tk_committed t < rk_height k"
    "rk_type k = Prevote \<or> rk_type k = Precommit" "round_at t (rk_height k) (rk_round k) \<noteq> None"
  using assms gmap_all_lookup [of _ "tk_rounds t" k rd]
  by (auto simp: tracker_inv_def live_inv_def detector_bounded_def)

lemma observe_round_tracker: "tracker_inv t \<Longrightarrow> tracker_inv (observe_round t h r p now)"
  using observe_round_inv observe_round_frame live_inv_frame by (metis tracker_inv_def)

lemma observe_vote_tracker: "tracker_inv t \<Longrightarrow> tracker_inv (observe_vote t v now)"
  using observe_vote_inv observe_vote_frame live_inv_frame by (metis tracker_inv_def)

text \<open>Storing a round of the detector back.\<close>

lemma tracker_inv_put:
  assumes "tracker_inv t" and "rd_key rd = k" and "tally_inv rd"
    and "\<not> rd_resolved rd \<Longrightarrow> tk_committed t < rk_height k"
    and "rk_type k = Prevote \<or> rk_type k = Precommit" and "round_at t (rk_height k) (rk_round k) \<noteq> None"
  shows "tracker_inv (t\<lparr>tk_rounds := gput k rd (tk_rounds t)\<rparr>)"
proof -
  have "archive_inv (t\<lparr>tk_rounds := gput k rd (tk_rounds t)\<rparr>)"
    using assms(1) by (simp add: tracker_inv_def archive_inv_def)
  moreover have "detector_bounded (t\<lparr>tk_rounds := gput k rd (tk_rounds t)\<rparr>)"
    using assms by (auto simp: tracker_inv_def detector_bounded_def round_at_def intro!: inv_intro)
  moreover have "live_inv (t\<lparr>tk_rounds := gput k rd (tk_rounds t)\<rparr>)"
    using assms by (auto simp: tracker_inv_def live_inv_def intro!: inv_intro)
  ultimately show ?thesis by (simp add: tracker_inv_def)
qed

text \<open>What an ingested vote did, in one case analysis shared by the proofs about ingestion.\<close>

definition vote_round :: "tracker \<Rightarrow> vote_event \<Rightarrow> round_data" where
  "vote_round t v =
     (case map_of (tk_rounds t) (vote_key v) of Some rd \<Rightarrow> rd | None \<Rightarrow> new_round_data t (vote_key v))"

definition admitted :: "tracker \<Rightarrow> vote_event \<Rightarrow> bool" where
  "admitted t v \<longleftrightarrow>
     vote_at t (ve_height v) (ve_round v) (ve_addr v) (ve_type v) \<noteq> None \<and> tk_committed t < ve_height v"

lemma vote_key_sel [simp]:
  "rk_height (vote_key v) = ve_height v" "rk_round (vote_key v) = ve_round v" "rk_type (vote_key v) = ve_type v"
  by (simp_all add: vote_key_def)

definition note_detection :: "config \<Rightarrow> vote_type \<Rightarrow> round_data \<Rightarrow> round_data" where
  "note_detection cfg ty rd = rd\<lparr>rd_detected := rd_detected rd \<or> fires cfg rd ty\<rparr>"

lemma ingest_vote_eq:
  "ingest_vote t0 v now =
     (let t = observe_vote t0 v now; rd = vote_round t v; rd' = count_vote rd v
      in if \<not> admitted t v then (t, zero_report, False)
         else if ve_addr v \<in> rd_seen rd
         then (t\<lparr>tk_rounds := gput (vote_key v) rd (tk_rounds t)\<rparr>, report_round (tk_cfg t) rd, False)
         else (t\<lparr>tk_rounds := gput (vote_key v) (note_detection (tk_cfg t) (ve_type v) rd') (tk_rounds t)\<rparr>,
               report_round (tk_cfg t) rd', fires (tk_cfg t) rd' (ve_type v)))"
  by (auto simp: ingest_vote_def admitted_def vote_round_def note_detection_def Let_def)

lemma admitted_key:
  assumes "tracker_inv t" and "admitted t v"
  shows "ve_type v = Prevote \<or> ve_type v = Precommit" "round_at t (ve_height v) (ve_round v) \<noteq> None"
    "tk_committed t < ve_height v" "\<not> gone t (vote_key v)"
proof -
  from assms(2) obtain b rd ps w where b: "block_at t (ve_height v) = Some b"
    and rd: "map_of (ah_rounds b) (ve_round v) = Some rd"
    and ps: "map_of (ar_votes rd) (ve_addr v) = Some ps" and w: "map_of ps (ve_type v) = Some w"
    by (auto simp: admitted_def vote_at_def round_at_def Option.bind_eq_Some_conv)
  have inv: "archive_inv t" using assms(1) by (simp add: tracker_inv_def)
  have bi: "block_inv b" "tk_evicted_through t < ve_height v" using archive_block [OF inv b] by auto
  have "round_inv rd" using block_inv_round [OF bi(1) rd] by simp
  then have "phases_inv ps" using gmap_all_lookup [OF _ ps, of "\<lambda>a. phases_inv"] by (simp add: round_inv_def)
  then show "ve_type v = Prevote \<or> ve_type v = Precommit"
    using gmap_all_lookup [OF _ w] by (auto simp: phases_inv_def)
  show "round_at t (ve_height v) (ve_round v) \<noteq> None" using b rd by (simp add: round_at_def)
  show "tk_committed t < ve_height v" using assms(2) by (simp add: admitted_def)
  have "ah_evicted_through b < ve_round v"
    using gmap_all_lookup [OF _ rd] bi(1) by (auto simp: block_inv_def)
  with b bi(2) show "\<not> gone t (vote_key v)" by (auto simp: gone_def)
qed

lemma vote_round_inv:
  assumes "tracker_inv t" and "admitted t v"
  shows "rd_key (vote_round t v) = vote_key v" "tally_inv (vote_round t v)"
  using tracker_inv_round [OF assms(1), of "vote_key v"] tally_inv_new
  by (auto simp: vote_round_def new_round_data_def split: option.split)

lemma note_detection_sel [simp]:
  "rd_key (note_detection cfg ty rd) = rd_key rd"
  "tally_inv (note_detection cfg ty rd) = tally_inv rd"
  "rd_detected (note_detection cfg ty rd) = (rd_detected rd \<or> fires cfg rd ty)"
  by (simp_all add: note_detection_def)

lemma ingest_vote_tracker:
  assumes "tracker_inv t0"
  shows "tracker_inv (fst (ingest_vote t0 v now))"
proof -
  let ?t = "observe_vote t0 v now"
  have inv: "tracker_inv ?t" by (rule observe_vote_tracker [OF assms])
  show ?thesis
  proof (cases "admitted ?t v")
    case False
    with inv show ?thesis by (simp add: ingest_vote_eq Let_def)
  next
    case True
    note a = admitted_key [OF inv True] and r = vote_round_inv [OF inv True]
    show ?thesis
      using inv True a r count_vote_inv(1) [OF r(2), of v]
      by (auto simp: ingest_vote_eq Let_def intro!: tracker_inv_put)
  qed
qed

section \<open>The other operations\<close>

lemma gmap_ok_roster_of: "gmap_ok (roster_of vs)"
proof -
  have "gmap_ok m \<Longrightarrow> gmap_ok (fold (\<lambda>v. gput (vp_address v) v) vs m)" for m :: roster
    by (induction vs arbitrary: m) auto
  then show ?thesis by (simp add: roster_of_def)
qed

lemma adopt_roster_inv:
  assumes "block_inv b" and "gmap_ok m"
  shows "block_inv (adopt_roster m b)"
proof -
  have "round_inv (if ar_roster rd = [] then rd\<lparr>ar_roster := m\<rparr> else rd)" if "round_inv rd" for rd
  proof -
    have "length (filter (\<lambda>a. map_of m a = None) xs) \<le> length xs" for xs by simp
    then have "length (unknown_voters (rd\<lparr>ar_roster := m\<rparr>)) \<le> length (unknown_voters rd)"
      if "ar_roster rd = []" using that by (simp add: unknown_voters_def)
    then show ?thesis using that assms(2) by (auto simp: round_inv_def)
  qed
  then have "gmap_all (\<lambda>r rd. ar_round rd = r \<and> ah_evicted_through b < r \<and> r \<le> ah_last_round b
        \<and> ah_first_round b \<le> r \<and> round_inv rd)
      (gmap_vals (\<lambda>r rd. if ar_roster rd = [] then rd\<lparr>ar_roster := m\<rparr> else rd) (ah_rounds b))"
    using assms(1) unfolding gmap_all_gmap_vals block_inv_def by (elim conjE gmap_all_mono) simp
  then show ?thesis
    using assms(1) by (simp add: block_inv_def adopt_roster_def)
qed

lemma round_at_set_validators: "round_at (set_validators t vs) h r \<noteq> None \<longleftrightarrow> round_at t h r \<noteq> None"
  by (cases "block_at t h")
    (simp_all add: round_at_def set_validators_def Let_def map_of_gmap_vals adopt_roster_def)

lemma adopt_roster_sel [simp]:
  "ah_height (adopt_roster m b) = ah_height b"
  "ah_evicted_through (adopt_roster m b) = ah_evicted_through b"
  by (simp_all add: adopt_roster_def)

lemma set_validators_tracker:
  assumes "tracker_inv t"
  shows "tracker_inv (set_validators t vs)"
proof -
  have "archive_inv (set_validators t vs)"
    using assms adopt_roster_inv [OF _ gmap_ok_roster_of]
    by (auto simp: tracker_inv_def archive_inv_def set_validators_def Let_def gmap_ok_roster_of
        gmap_all_gmap_vals elim!: gmap_all_mono)
  moreover have "detector_bounded (set_validators t vs)"
    using assms unfolding tracker_inv_def detector_bounded_def
    by (auto simp: set_validators_def Let_def gmap_all_gmap_vals
        round_at_set_validators [unfolded set_validators_def Let_def, simplified] elim!: gmap_all_mono)
  moreover have "live_inv (set_validators t vs)"
    using assms unfolding tracker_inv_def live_inv_def
    by (auto simp: set_validators_def Let_def gmap_all_gmap_vals reweigh_round_inv elim!: gmap_all_mono)
  ultimately show ?thesis by (simp add: tracker_inv_def)
qed

lemma tracker_inv_advance:
  assumes "tracker_inv t" and "map_of (tk_rounds t) k = Some rd"
  shows "tracker_inv (t\<lparr>tk_rounds := gput k (rd\<lparr>rd_advanced := True\<rparr>) (tk_rounds t)\<rparr>)"
  using tracker_inv_round [OF assms] by (intro tracker_inv_put assms) auto

lemma mark_round_advanced_tracker: "tracker_inv t \<Longrightarrow> tracker_inv (mark_round_advanced t h r)"
proof -
  assume inv: "tracker_inv t"
  have step: "tracker_inv (case map_of (tk_rounds t) k of
      Some rd \<Rightarrow> t\<lparr>tk_rounds := gput k (rd\<lparr>rd_advanced := True\<rparr>) (tk_rounds t)\<rparr> | None \<Rightarrow> t)"
    if "tracker_inv t" for t k
    using that tracker_inv_advance [OF that] by (simp split: option.split)
  show ?thesis
    using inv by (simp add: mark_round_advanced_def Let_def step)
qed

lemma resolve_round_sel [simp]:
  "rd_key (resolve_round h hash k rd) = rd_key rd"
  "tally_inv (resolve_round h hash k rd) = tally_inv rd"
  "rd_detected (resolve_round h hash k rd) = rd_detected rd"
  "rd_resolved (resolve_round h hash k rd) = (rd_resolved rd \<or> rk_height k \<le> h)"
  by (auto simp: resolve_round_def)

lemma advance_committed_sel [simp]:
  "tk_cfg (advance_committed t h) = tk_cfg t"
  "tk_rounds (advance_committed t h) = tk_rounds t"
  "tk_archive (advance_committed t h) = tk_archive t"
  "tk_history (advance_committed t h) = tk_history t"
  "tk_validators (advance_committed t h) = tk_validators t"
  "tk_evicted_through (advance_committed t h) = tk_evicted_through t"
  "tk_latest (advance_committed t h) = tk_latest t"
  "tk_committed (advance_committed t h) = max (tk_committed t) h"
  "tk_catalogue (advance_committed t h) = tk_catalogue t + (if h > tk_committed t then 1 else 0)"
  by (simp_all add: advance_committed_def)

lemma resolve_commit_tracker:
  assumes "tracker_inv t" and "resolve_commit t h hash now = Some (t', rs)"
  shows "tracker_inv t'"
proof -
  let ?c = "archive_commit t h hash now"
  have c: "archive_inv ?c" "detector_bounded ?c" "live_inv ?c"
    using assms(1) archive_commit_inv live_inv_frame [OF archive_commit_frame]
    by (auto simp: tracker_inv_def)
  from assms(2) obtain hist where t': "t' = (advance_committed ?c h)\<lparr>tk_history := hist,
      tk_rounds := gfilter (\<lambda>k. \<not> rk_height k < i64 (h - cf_history (tk_cfg ?c)))
                     (gmap_vals (resolve_round h hash) (tk_rounds ?c))\<rparr>"
    by (auto simp: resolve_commit_def Let_def split: option.splits)
  have "archive_inv t'" using c(1) by (simp add: archive_inv_def t')
  moreover have "detector_bounded t'"
    using c(2) by (auto simp: detector_bounded_def t' round_at_def gmap_all_gmap_vals
        intro!: gmap_all_gfilter elim!: gmap_all_mono)
  moreover have "live_inv t'"
    using c(3) by (auto simp: live_inv_def t' gmap_all_gmap_vals intro!: gmap_all_gfilter
        elim!: gmap_all_mono)
  ultimately show ?thesis by (simp add: tracker_inv_def)
qed

section \<open>Runs\<close>

datatype tracker_op =
  SetValidators "validator_power list"
| IngestVote vote_event gtime
| ObserveRound int int string gtime
| ObserveVote vote_event gtime
| MarkRoundAdvanced int int
| ResolveCommit int string gtime

text \<open>One call of the tracker's interface, with the detections it fires; \<open>None\<close> is a panic.\<close>

fun apply_op :: "tracker_op \<Rightarrow> tracker \<Rightarrow> (tracker \<times> round_key list) option" where
  "apply_op (SetValidators vs) t = Some (set_validators t vs, [])"
| "apply_op (IngestVote v now) t =
     (case ingest_vote t v now of (t', rep, trigger) \<Rightarrow> Some (t', if trigger then [vote_key v] else []))"
| "apply_op (ObserveRound h r p now) t = Some (observe_round t h r p now, [])"
| "apply_op (ObserveVote v now) t = Some (observe_vote t v now, [])"
| "apply_op (MarkRoundAdvanced h r) t = Some (mark_round_advanced t h r, [])"
| "apply_op (ResolveCommit h hash now) t =
     map_option (\<lambda>(t', rs). (t', [])) (resolve_commit t h hash now)"

fun run_ops :: "tracker_op list \<Rightarrow> tracker \<Rightarrow> (tracker \<times> round_key list) option" where
  "run_ops [] t = Some (t, [])"
| "run_ops (op # ops) t =
     (case apply_op op t of
        None \<Rightarrow> None
      | Some (t1, ks) \<Rightarrow> map_option (\<lambda>(t2, ks'). (t2, ks @ ks')) (run_ops ops t1))"

inductive reachable :: "config \<Rightarrow> tracker \<Rightarrow> bool" for cfg :: config where
  start: "reachable cfg (new_tracker cfg)"
| step: "reachable cfg t \<Longrightarrow> apply_op op t = Some (t', ks) \<Longrightarrow> reachable cfg t'"

lemma apply_op_inv: "tracker_inv t \<Longrightarrow> apply_op op t = Some (t', ks) \<Longrightarrow> tracker_inv t'"
proof (cases op)
  case (IngestVote v now)
  then show "tracker_inv t \<Longrightarrow> apply_op op t = Some (t', ks) \<Longrightarrow> tracker_inv t'"
    using ingest_vote_tracker [of t v now] by (auto split: prod.splits)
qed (auto simp: set_validators_tracker observe_round_tracker observe_vote_tracker
    mark_round_advanced_tracker dest: resolve_commit_tracker)

lemma reachable_inv: "reachable cfg t \<Longrightarrow> tracker_inv t"
  by (induction rule: reachable.induct) (auto intro: new_tracker_inv apply_op_inv)

lemma run_ops_reachable:
  "reachable cfg t \<Longrightarrow> run_ops ops t = Some (t', ks) \<Longrightarrow> reachable cfg t'"
  by (induction ops arbitrary: t ks) (auto split: option.splits prod.splits intro: reachable.step)

lemma run_ops_new: "run_ops ops (new_tracker cfg) = Some (t, ks) \<Longrightarrow> reachable cfg t"
  by (rule run_ops_reachable [OF reachable.start])

text \<open>The operations keep the tracker's configuration.\<close>

lemma archive_frame_cfg: "archive_frame t t' \<Longrightarrow> tk_cfg t' = tk_cfg t"
  by (simp add: archive_frame_def)

lemma mark_round_advanced_rounds:
  "mark_round_advanced t h r = t\<lparr>tk_rounds := tk_rounds (mark_round_advanced t h r)\<rparr>"
  by (simp add: mark_round_advanced_def Let_def split: option.split)

lemma set_validators_cfg [simp]:
  "tk_cfg (set_validators t vs) = tk_cfg t" "tk_committed (set_validators t vs) = tk_committed t"
  "tk_evicted_through (set_validators t vs) = tk_evicted_through t"
  by (simp_all add: set_validators_def Let_def)

lemma ingest_vote_cfg: "ingest_vote t v now = (t', res) \<Longrightarrow> tk_cfg t' = tk_cfg (observe_vote t v now)"
  by (auto simp: ingest_vote_eq Let_def split: if_splits)

lemma resolve_commit_cfg:
  "resolve_commit t h hash now = Some (t', rs) \<Longrightarrow> tk_cfg t' = tk_cfg (archive_commit t h hash now)"
  by (auto simp: resolve_commit_def Let_def split: option.splits)

lemma apply_op_cfg:
  assumes "tracker_inv t" and "apply_op op t = Some (t', ks)"
  shows "tk_cfg t' = tk_cfg t"
proof -
  have a: "archive_inv t" "detector_bounded t" using assms(1) by (simp_all add: tracker_inv_def)
  note f = archive_frame_cfg [OF observe_vote_frame [OF a]] archive_frame_cfg [OF observe_round_frame [OF a]]
    archive_frame_cfg [OF archive_commit_frame [OF a]]
  show ?thesis
    using assms(2) f arg_cong [OF mark_round_advanced_rounds, of tk_cfg]
    by (cases op) (auto split: prod.splits dest: resolve_commit_cfg ingest_vote_cfg)
qed

section \<open>At most one detection\<close>

text \<open>
  A round is spent once it has fired, or its height has been committed, or the archive has let it
  go.  Every operation keeps it spent, and only a round that is not spent fires.
\<close>

definition spent :: "tracker \<Rightarrow> round_key \<Rightarrow> bool" where
  "spent t k \<longleftrightarrow>
     gone t k \<or> rk_height k \<le> tk_committed t
     \<or> (\<exists>rd. map_of (tk_rounds t) k = Some rd \<and> rd_detected rd)"

text \<open>The integers a run passes are \<open>int64\<close>, and commits have a height.\<close>

fun op_in_range :: "tracker_op \<Rightarrow> bool" where
  "op_in_range (ResolveCommit h hash now) = (0 \<le> h \<and> h \<le> int64_max)"
| "op_in_range op = True"

lemma spent_frame:
  assumes "archive_frame t t'" and "gmap_ok (tk_rounds t)" and "spent t k"
  shows "spent t' k"
proof -
  obtain p where p: "tk_rounds t' = gfilter p (tk_rounds t)"
    and q: "\<And>k. k \<in> fst ` set (tk_rounds t) \<Longrightarrow> p k \<or> gone t' k"
    using assms(1) by (auto simp: archive_frame_def)
  have g: "gone t k \<Longrightarrow> gone t' k" "tk_committed t' = tk_committed t"
    using assms(1) by (auto simp: archive_frame_def)
  show ?thesis
    using assms(3) unfolding spent_def
  proof (elim disjE exE)
    fix rd
    assume rd: "map_of (tk_rounds t) k = Some rd \<and> rd_detected rd"
    then have "p k \<or> gone t' k" using q by (force simp: gkeys_dom)
    with rd show "gone t' k \<or> rk_height k \<le> tk_committed t'
        \<or> (\<exists>rd. map_of (tk_rounds t') k = Some rd \<and> rd_detected rd)"
      by (auto simp: p map_of_gfilter [OF assms(2)])
  qed (use g in auto)
qed

lemma spent_put:
  assumes "spent t k"
    and "\<And>rd0. map_of (tk_rounds t) k' = Some rd0 \<Longrightarrow> rd_detected rd0 \<Longrightarrow> rd_detected rd"
  shows "spent (t\<lparr>tk_rounds := gput k' rd (tk_rounds t)\<rparr>) k"
  using assms by (cases "k = k'") (auto simp: spent_def gone_def map_of_gput)

lemma tracker_inv_ok: "tracker_inv t \<Longrightarrow> gmap_ok (tk_rounds t)"
  by (simp add: tracker_inv_def detector_bounded_def)

lemma observe_vote_spent: "tracker_inv t \<Longrightarrow> spent t k \<Longrightarrow> spent (observe_vote t v now) k"
  using spent_frame [OF observe_vote_frame] tracker_inv_ok by (auto simp: tracker_inv_def)

lemma ingest_vote_spent:
  assumes inv: "tracker_inv t" and step: "ingest_vote t v now = (t', rep, trigger)"
  shows "spent t k \<Longrightarrow> spent t' k" and "trigger \<Longrightarrow> \<not> spent t (vote_key v) \<and> spent t' (vote_key v)"
proof -
  let ?t = "observe_vote t v now" and ?rd = "vote_round (observe_vote t v now) v"
  let ?rd' = "count_vote ?rd v"
  have keep: "rd0 = ?rd" if "map_of (tk_rounds ?t) (vote_key v) = Some rd0" for rd0
    using that by (simp add: vote_round_def)
  show "spent t' k" if "spent t k"
  proof -
    have s: "spent ?t k" by (rule observe_vote_spent [OF inv that])
    have "spent (?t\<lparr>tk_rounds := gput (vote_key v) ?rd (tk_rounds ?t)\<rparr>) k"
      by (rule spent_put [OF s]) (use keep in auto)
    moreover have "spent (?t\<lparr>tk_rounds := gput (vote_key v)
        (note_detection (tk_cfg ?t) (ve_type v) ?rd') (tk_rounds ?t)\<rparr>) k"
      by (rule spent_put [OF s]) (use keep in auto)
    ultimately show ?thesis
      using step s by (auto simp: ingest_vote_eq Let_def split: if_splits)
  qed
  assume trigger
  with step have adm: "admitted ?t v" and fires: "fires (tk_cfg ?t) ?rd' (ve_type v)"
    and t': "t' = ?t\<lparr>tk_rounds := gput (vote_key v)
        (note_detection (tk_cfg ?t) (ve_type v) ?rd') (tk_rounds ?t)\<rparr>"
    by (auto simp: ingest_vote_eq Let_def split: if_splits)
  have "\<not> rd_detected ?rd" using fires by (simp add: fires_def)
  then have "\<not> spent ?t (vote_key v)"
    using admitted_key [OF observe_vote_tracker [OF inv] adm] keep by (auto simp: spent_def)
  then have "\<not> spent t (vote_key v)" using observe_vote_spent [OF inv] by blast
  moreover have "spent t' (vote_key v)" using fires by (simp add: spent_def t' map_of_gput)
  ultimately show "\<not> spent t (vote_key v) \<and> spent t' (vote_key v)" ..
qed

lemma set_validators_spent: "spent t k \<Longrightarrow> spent (set_validators t vs) k"
  by (auto simp: spent_def gone_def set_validators_def Let_def map_of_gmap_vals reweigh_round_sel)

lemma mark_round_advanced_spent: "spent t k \<Longrightarrow> spent (mark_round_advanced t h r) k"
proof -
  have step: "spent (case map_of (tk_rounds t) k' of
      Some rd \<Rightarrow> t\<lparr>tk_rounds := gput k' (rd\<lparr>rd_advanced := True\<rparr>) (tk_rounds t)\<rparr> | None \<Rightarrow> t) k"
    if "spent t k" for t k'
    using that by (auto intro!: spent_put split: option.split)
  show "spent t k \<Longrightarrow> spent (mark_round_advanced t h r) k"
    by (simp add: mark_round_advanced_def Let_def step)
qed

lemma resolve_commit_spent:
  assumes inv: "tracker_inv t" and step: "resolve_commit t h hash now = Some (t', rs)"
    and h: "0 \<le> h" "h \<le> int64_max" and hs: "cf_history (tk_cfg t) \<le> int64_max" and s: "spent t k"
  shows "spent t' k"
proof -
  let ?c = "archive_commit t h hash now"
  have a: "archive_inv t" "detector_bounded t" using inv by (simp_all add: tracker_inv_def)
  have cfg: "tk_cfg ?c = tk_cfg t" by (rule archive_frame_cfg [OF archive_commit_frame [OF a]])
  have sc: "spent ?c k" by (rule spent_frame [OF archive_commit_frame [OF a] tracker_inv_ok [OF inv] s])
  have ok: "gmap_ok (tk_rounds ?c)" using archive_commit_inv [OF a] by (simp add: detector_bounded_def)
  have pos: "0 < cf_history (tk_cfg t)" using a(1) by (simp add: archive_inv_def)
  have "i64 (h - cf_history (tk_cfg t)) = h - cf_history (tk_cfg t)"
    by (rule i64_id) (use h hs pos in \<open>auto simp: int64_min_def int64_max_def\<close>)
  with pos have low: "rk_height k < h" if "rk_height k < i64 (h - cf_history (tk_cfg t))"
    using that by linarith
  from step obtain hist where t': "t' = (advance_committed ?c h)\<lparr>tk_history := hist,
      tk_rounds := gfilter (\<lambda>k. \<not> rk_height k < i64 (h - cf_history (tk_cfg t)))
                     (gmap_vals (resolve_round h hash) (tk_rounds ?c))\<rparr>"
    by (auto simp: resolve_commit_def Let_def cfg split: option.splits)
  have look: "map_of (tk_rounds t') k = (if rk_height k < i64 (h - cf_history (tk_cfg t)) then None
      else map_option (resolve_round h hash k) (map_of (tk_rounds ?c) k))"
    using ok by (simp add: t' map_of_gfilter map_of_gmap_vals)
  from sc show ?thesis
    using low unfolding spent_def look by (auto simp: gone_def t')
qed

lemma apply_op_spent:
  assumes "tracker_inv t" and "apply_op op t = Some (t', ks)" and "op_in_range op"
    and "cf_history (tk_cfg t) \<le> int64_max"
  shows "(spent t k \<longrightarrow> spent t' k) \<and> (k \<in> set ks \<longrightarrow> \<not> spent t k \<and> spent t' k) \<and> distinct ks"
proof (cases op)
  case (IngestVote v now)
  obtain t1 rep b where i: "ingest_vote t v now = (t1, rep, b)" by (metis prod_cases3)
  with assms(2) IngestVote have "t' = t1" "ks = (if b then [vote_key v] else [])" by auto
  with ingest_vote_spent [OF assms(1) i] show ?thesis by auto
next
  case (ObserveRound h r p now)
  have a: "archive_inv t" "detector_bounded t" using assms(1) by (simp_all add: tracker_inv_def)
  from assms(2) ObserveRound spent_frame [OF observe_round_frame [OF a] tracker_inv_ok [OF assms(1)]]
  show ?thesis by auto
next
  case (ResolveCommit h hash now)
  with assms resolve_commit_spent [OF assms(1)] show ?thesis by auto
qed (use assms set_validators_spent mark_round_advanced_spent observe_vote_spent [OF assms(1)] in auto)

lemma run_ops_detections:
  assumes "tracker_inv t" and "run_ops ops t = Some (t', ks)" and "list_all op_in_range ops"
    and "cf_history (tk_cfg t) \<le> int64_max"
  shows "distinct ks \<and> (\<forall>k \<in> set ks. \<not> spent t k)"
  using assms
proof (induction ops arbitrary: t ks)
  case Nil
  then show ?case by simp
next
  case (Cons op ops)
  from Cons.prems(2) obtain t1 k1 k2 where op: "apply_op op t = Some (t1, k1)"
    and rest: "run_ops ops t1 = Some (t', k2)" and ks: "ks = k1 @ k2"
    by (auto split: option.splits prod.splits)
  have hyp: "op_in_range op" "list_all op_in_range ops" using Cons.prems(3) by simp_all
  note sp = apply_op_spent [OF Cons.prems(1) op hyp(1) Cons.prems(4)]
  have "distinct k2 \<and> (\<forall>k \<in> set k2. \<not> spent t1 k)"
    by (rule Cons.IH [OF apply_op_inv [OF Cons.prems(1) op] rest hyp(2)])
      (simp add: apply_op_cfg [OF Cons.prems(1) op] Cons.prems(4))
  with sp show ?case unfolding ks by auto
qed

end
