(* ===== verification/Archive_Growth.thy ===== *)
theory Archive_Growth
  imports Tracker_Runs "HOL-Library.Sublist"
begin

text \<open>
  How the archive changes under the tracker's operations: what is retained only grows, and the
  revision of a height counts its changes, so equal revisions mean equal evidence.  This is the law
  the cached views of the web server rest on.
\<close>

section \<open>Growth of a round and of a height\<close>

definition round_grows :: "archived_round \<Rightarrow> archived_round \<Rightarrow> bool" where
  "round_grows rd rd' \<longleftrightarrow>
     ar_round rd' = ar_round rd \<and> ar_first rd' = ar_first rd
     \<and> (ar_truncated rd \<longrightarrow> ar_truncated rd')
     \<and> (ar_roster rd \<noteq> [] \<longrightarrow> ar_roster rd' = ar_roster rd)
     \<and> (\<forall>a ty w. get_vote rd a ty = Some w \<longrightarrow>
          (\<exists>w'. get_vote rd' a ty = Some w' \<and> prefix (iv_hashes w) (iv_hashes w')
                \<and> (iv_conflicting w \<longrightarrow> iv_conflicting w') \<and> (iv_truncated w \<longrightarrow> iv_truncated w')))"

text \<open>\<open>n\<close> counts the revisions between the two states of the height.\<close>

definition block_grows :: "nat \<Rightarrow> archived_height \<Rightarrow> archived_height \<Rightarrow> bool" where
  "block_grows n b b' \<longleftrightarrow>
     ah_height b' = ah_height b \<and> ah_first b' = ah_first b
     \<and> ah_revision b' = ah_revision b + of_nat n \<and> (n = 0 \<longrightarrow> b' = b)
     \<and> (ah_committed b \<longrightarrow> ah_committed b')
     \<and> (ah_committed b \<and> ah_canonical b \<noteq> '''' \<longrightarrow> ah_canonical b' = ah_canonical b)
     \<and> ah_evicted_through b \<le> ah_evicted_through b'
     \<and> (\<forall>r rd. map_of (ah_rounds b) r = Some rd \<longrightarrow>
          r \<le> ah_evicted_through b' \<or> (\<exists>rd'. map_of (ah_rounds b') r = Some rd' \<and> round_grows rd rd'))"

definition archive_grows :: "nat \<Rightarrow> tracker \<Rightarrow> tracker \<Rightarrow> bool" where
  "archive_grows n t t' \<longleftrightarrow>
     tk_evicted_through t \<le> tk_evicted_through t'
     \<and> (\<forall>h b. block_at t h = Some b \<longrightarrow>
          h \<le> tk_evicted_through t' \<or> (\<exists>m b'. m \<le> n \<and> block_at t' h = Some b' \<and> block_grows m b b'))"

lemma round_grows_refl [simp]: "round_grows rd rd"
  by (simp add: round_grows_def)

lemma round_grows_trans: "round_grows a b \<Longrightarrow> round_grows b c \<Longrightarrow> round_grows a c"
  unfolding round_grows_def by (auto, (meson prefix_order.order_trans)+)

lemma block_grows_refl [simp]: "block_grows 0 b b"
  by (simp add: block_grows_def)

lemma block_grows_trans:
  assumes "block_grows m a b" and "block_grows n b c"
  shows "block_grows (m + n) a c"
proof -
  have "r \<le> ah_evicted_through c \<or> (\<exists>rd'. map_of (ah_rounds c) r = Some rd' \<and> round_grows rd rd')"
    if "map_of (ah_rounds a) r = Some rd" for r rd
  proof (cases "r \<le> ah_evicted_through b")
    case True
    with assms(2) show ?thesis by (simp add: block_grows_def)
  next
    case False
    with assms(1) that obtain rd1 where "map_of (ah_rounds b) r = Some rd1" "round_grows rd rd1"
      by (auto simp: block_grows_def)
    with assms(2) show ?thesis unfolding block_grows_def using round_grows_trans by blast
  qed
  with assms show ?thesis by (simp add: block_grows_def)
qed

lemma archive_grows_refl [simp]: "archive_grows n t t"
  unfolding archive_grows_def using block_grows_refl by blast

lemma archive_grows_trans:
  assumes "archive_grows m t t1" and "archive_grows n t1 t2"
  shows "archive_grows (m + n) t t2"
  unfolding archive_grows_def
proof (intro conjI allI impI)
  show "tk_evicted_through t \<le> tk_evicted_through t2"
    using assms by (simp add: archive_grows_def)
next
  fix h b
  assume b: "block_at t h = Some b"
  show "h \<le> tk_evicted_through t2 \<or> (\<exists>k b'. k \<le> m + n \<and> block_at t2 h = Some b' \<and> block_grows k b b')"
  proof (cases "h \<le> tk_evicted_through t1")
    case True
    with assms(2) show ?thesis by (simp add: archive_grows_def)
  next
    case False
    with assms(1) b obtain i b1 where b1: "i \<le> m" "block_at t1 h = Some b1" "block_grows i b b1"
      unfolding archive_grows_def by blast
    show ?thesis
    proof (cases "h \<le> tk_evicted_through t2")
      case False
      with assms(2) b1 obtain j b2 where "j \<le> n" "block_at t2 h = Some b2" "block_grows j b1 b2"
        unfolding archive_grows_def by blast
      with b1 block_grows_trans [OF b1(3)] show ?thesis by (meson add_mono)
    qed simp
  qed
qed

lemma archive_grows_mono: "archive_grows m t t' \<Longrightarrow> m \<le> n \<Longrightarrow> archive_grows n t t'"
  unfolding archive_grows_def by (meson order_trans)

lemma archive_grows_same:
  "tk_archive t' = tk_archive t \<Longrightarrow> tk_evicted_through t' = tk_evicted_through t \<Longrightarrow> archive_grows n t t'"
  unfolding archive_grows_def using block_grows_refl by auto

lemma archive_grows_cong:
  "archive_grows n t t' \<Longrightarrow> tk_archive t'' = tk_archive t' \<and> tk_evicted_through t'' = tk_evicted_through t' \<Longrightarrow>
     archive_grows n t t''"
  by (simp add: archive_grows_def)

lemma archive_grows_put_block:
  assumes "block_at t (ah_height b') = Some b" and "block_grows n b b'"
  shows "archive_grows n t (put_block b' t)"
  using assms block_grows_refl unfolding archive_grows_def by (auto simp: block_at_put_block)

lemma archive_grows_prune: "archive_grows n t (prune_detector_rounds t') = archive_grows n t t'"
  by (simp add: archive_grows_def)

section \<open>Recording a vote\<close>

lemma get_vote_set_vote:
  "get_vote (set_vote rd a ty w) a' ty' = (if a' = a \<and> ty' = ty then Some w else get_vote rd a' ty')"
  by (auto simp: get_vote_def set_vote_def map_of_gput split: option.split)

lemma get_vote_update [simp]:
  "get_vote (rd\<lparr>ar_truncated := x\<rparr>) = get_vote rd" "get_vote (rd\<lparr>ar_last := n\<rparr>) = get_vote rd"
  "get_vote (rd\<lparr>ar_proposer := p\<rparr>) = get_vote rd" "get_vote (rd\<lparr>ar_roster := m\<rparr>) = get_vote rd"
  by (auto simp: get_vote_def intro!: ext)

lemma set_vote_sel [simp]:
  "ar_first (set_vote rd a ty w) = ar_first rd" "ar_truncated (set_vote rd a ty w) = ar_truncated rd"
  "ar_roster (set_vote rd a ty w) = ar_roster rd"
  by (simp_all add: set_vote_def)

lemma set_vote_same:
  assumes "round_inv rd" and "get_vote rd a ty = Some w"
  shows "set_vote rd a ty w = rd"
proof -
  obtain ps where ps: "map_of (ar_votes rd) a = Some ps" "map_of ps ty = Some w"
    using assms(2) by (auto simp: get_vote_def Option.bind_eq_Some_conv)
  have "phases_inv ps" using assms(1) gmap_all_lookup [OF _ ps(1)] by (auto simp: round_inv_def)
  then have "gput ty w ps = ps" using ps(2) by (simp add: phases_inv_def gput_present)
  moreover have "gput a ps (ar_votes rd) = ar_votes rd"
    using assms(1) ps(1) by (simp add: round_inv_def gput_present)
  ultimately show ?thesis using ps(1) by (simp add: set_vote_def)
qed

lemma put_round_same:
  assumes "block_inv b" and "map_of (ah_rounds b) (ar_round rd) = Some rd"
  shows "put_round rd b = b"
  using assms by (simp add: put_round_def block_inv_def gput_present)

text \<open>A change to one round, with one revision.\<close>

lemma block_grows_round:
  assumes "map_of (ah_rounds b) (ar_round rd) = Some rd" and "round_grows rd rd'"
  shows "block_grows 1 b ((put_round rd' (bump b))\<lparr>ah_last := n\<rparr>)"
    and "block_grows 1 b (put_round rd' (bump b))"
  using assms by (auto simp: block_grows_def put_round_def bump_def map_of_gput round_grows_def)

lemma record_vote_grows:
  assumes bi: "block_inv b" and mem: "map_of (ah_rounds b) (ar_round rd) = Some rd"
  shows "\<exists>n \<le> 1. block_grows n b (record_vote b rd v now)"
proof -
  have ri: "round_inv rd" using bi mem block_inv_round by blast
  have same: "put_round rd b = b" by (rule put_round_same [OF bi mem])
  define w where "w = (case get_vote rd (ve_addr v) (ve_type v) of None \<Rightarrow> fresh_vote | Some w \<Rightarrow> w)"
  have grow: "round_grows rd ((set_vote rd (ve_addr v) (ve_type v) w')\<lparr>ar_truncated := tr\<rparr>)"
    "round_grows rd ((set_vote rd (ve_addr v) (ve_type v) w')\<lparr>ar_last := now\<rparr>)"
    if "prefix (iv_hashes w) (iv_hashes w')" "iv_conflicting w \<longrightarrow> iv_conflicting w'"
      "iv_truncated w \<longrightarrow> iv_truncated w'" "ar_truncated rd \<longrightarrow> tr" for w' tr
    using that by (auto simp: round_grows_def get_vote_set_vote w_def)
  consider (unknown) "map_of (ar_votes rd) (ve_addr v) = None \<and> map_of (ar_roster rd) (ve_addr v) = None
         \<and> length (unknown_voters rd) \<ge> unknown_limit"
    | (dup) "\<not> (map_of (ar_votes rd) (ve_addr v) = None \<and> map_of (ar_roster rd) (ve_addr v) = None
         \<and> length (unknown_voters rd) \<ge> unknown_limit)" "list_ex (\<lambda>h. ih_hash h = ve_hash v) (iv_hashes w)"
    | (full) "\<not> (map_of (ar_votes rd) (ve_addr v) = None \<and> map_of (ar_roster rd) (ve_addr v) = None
         \<and> length (unknown_voters rd) \<ge> unknown_limit)" "\<not> list_ex (\<lambda>h. ih_hash h = ve_hash v) (iv_hashes w)"
        "length (iv_hashes w) \<ge> hash_limit"
    | (fresh) "\<not> (map_of (ar_votes rd) (ve_addr v) = None \<and> map_of (ar_roster rd) (ve_addr v) = None
         \<and> length (unknown_voters rd) \<ge> unknown_limit)" "\<not> list_ex (\<lambda>h. ih_hash h = ve_hash v) (iv_hashes w)"
        "\<not> length (iv_hashes w) \<ge> hash_limit"
    by metis
  then show ?thesis
  proof cases
    case unknown
    have "round_grows rd (rd\<lparr>ar_truncated := True\<rparr>)" by (simp add: round_grows_def)
    from block_grows_round(2) [OF mem this] unknown
    have "\<not> ar_truncated rd \<Longrightarrow> block_grows 1 b (record_vote b rd v now)"
      by (simp add: record_vote_def)
    moreover have "block_grows 0 b (record_vote b rd v now)" if tr: "ar_truncated rd"
    proof -
      have "rd\<lparr>ar_truncated := True\<rparr> = rd" using tr by simp
      with same have "put_round (rd\<lparr>ar_truncated := True\<rparr>) b = b" by metis
      with unknown tr show ?thesis by (simp add: record_vote_def)
    qed
    ultimately show ?thesis by (cases "ar_truncated rd") (blast, blast)
  next
    case dup
    then have "get_vote rd (ve_addr v) (ve_type v) = Some w"
      by (auto simp: w_def fresh_vote_def split: option.splits)
    from set_vote_same [OF ri this] dup same have "record_vote b rd v now = b"
      by (auto simp: record_vote_def w_def [symmetric] Let_def)
    then show ?thesis by (intro exI [of _ 0]) simp
  next
    case full
    then have some: "get_vote rd (ve_addr v) (ve_type v) = Some w"
      by (auto simp: w_def fresh_vote_def hash_limit_def split: option.splits)
    let ?rd' = "(set_vote rd (ve_addr v) (ve_type v) (w\<lparr>iv_truncated := True, iv_conflicting := True\<rparr>))
                 \<lparr>ar_truncated := True\<rparr>"
    have g: "round_grows rd ?rd'" by (rule grow(1)) auto
    show ?thesis
    proof (cases "\<not> iv_truncated w \<or> \<not> iv_conflicting w \<or> \<not> ar_truncated rd")
      case True
      then have "record_vote b rd v now = put_round ?rd' (bump b)"
        using full by (auto simp: record_vote_def w_def [symmetric] Let_def)
      with block_grows_round(2) [OF mem g] show ?thesis by (intro exI [of _ 1]) simp
    next
      case False
      then have "w\<lparr>iv_truncated := True, iv_conflicting := True\<rparr> = w"
        and "rd\<lparr>ar_truncated := True\<rparr> = rd" by simp_all
      with set_vote_same [OF ri some] have "?rd' = rd" by metis
      with same have "put_round ?rd' b = b" by metis
      then have "record_vote b rd v now = b"
        using full False by (auto simp: record_vote_def w_def [symmetric] Let_def)
      then show ?thesis by (intro exI [of _ 0]) simp
    qed
  next
    case fresh
    define h where "h = \<lparr>ih_hash = ve_hash v, ih_first = now, ih_last = now,
        ih_signed = (if ve_timestamp v = 0 then None else Some (ve_timestamp v))\<rparr>"
    let ?w' = "w\<lparr>iv_hashes := iv_hashes w @ [h], iv_conflicting := length (iv_hashes w @ [h]) > 1\<rparr>"
    have "iv_conflicting w \<longrightarrow> length (iv_hashes w) \<ge> 1"
      using get_vote_inv [OF ri] by (auto simp: w_def fresh_vote_def vote_inv_def split: option.splits)
    then have "round_grows rd ((set_vote rd (ve_addr v) (ve_type v) ?w')\<lparr>ar_last := now\<rparr>)"
      by (intro grow(2) [of _ True]) auto
    from block_grows_round(1) [OF mem this, of now]
    have "block_grows 1 b (record_vote b rd v now)"
      using fresh by (auto simp: record_vote_def w_def [symmetric] h_def Let_def)
    then show ?thesis by blast
  qed
qed

section \<open>The archive's operations\<close>

lemma enter_height_grows:
  assumes "block_at t height = None"
  shows "archive_grows n t (enter_height t height now)"
  using assms block_grows_refl unfolding archive_grows_def by (auto simp: enter_height_def map_of_gput)

lemma evict_height_grows: "archive_grows n t (evict_height t height)"
  using block_grows_refl unfolding archive_grows_def evict_height_def Let_def
  by (auto simp: map_of_gdel)

lemma create_archive_height_grows:
  "create_archive_height t h now = (t', res) \<Longrightarrow> archive_grows 0 t t'"
  using archive_grows_trans [OF enter_height_grows evict_height_grows, of t h 0 0]
    enter_height_grows [of t h 0]
  by (auto simp: create_archive_height_def Let_def split: if_splits option.splits)

lemma archive_height_grows: "archive_height t h now = (t', res) \<Longrightarrow> archive_grows 0 t t'"
  using create_archive_height_grows [of t h now]
  by (auto simp: archive_height_def split: if_splits option.splits)

lemma enter_round_grows:
  assumes "map_of (ah_rounds b) rnd = None"
  shows "block_grows 1 b (enter_round t b rnd now)"
  using assms by (auto simp: block_grows_def enter_round_def put_round_def new_round_def map_of_gput)

lemma block_grows_evict:
  assumes g: "block_grows n b b1" and lt: "ah_evicted_through b1 < old" and n: "0 < n"
  shows "block_grows n b (b1\<lparr>ah_rounds := gdel old (ah_rounds b1), ah_evicted_through := old,
           ah_evicted := e\<rparr>)"
proof -
  have "r \<le> old \<or> (\<exists>rd'. map_of (gdel old (ah_rounds b1)) r = Some rd' \<and> round_grows rd rd')"
    if "map_of (ah_rounds b) r = Some rd" for r rd
  proof (cases "r \<le> old")
    case False
    then have "\<not> r \<le> ah_evicted_through b1" using lt by simp
    with g that obtain rd' where "map_of (ah_rounds b1) r = Some rd'" "round_grows rd rd'"
      by (auto simp: block_grows_def)
    with False show ?thesis by (auto simp: map_of_gdel)
  qed simp
  then show ?thesis using g lt n by (simp add: block_grows_def)
qed

lemma archive_round_grows:
  assumes inv: "archive_inv t" and det: "detector_bounded t" and b: "block_at t (ah_height b) = Some b"
    and rnd: "rnd \<le> max_int32" and step: "archive_round t b rnd now = (t', b', res)"
  shows "archive_grows 1 t t'"
proof (cases "rnd < 0 \<or> rnd \<le> ah_evicted_through b \<or> map_of (ah_rounds b) rnd \<noteq> None
        \<or> ah_committed b \<or> ah_height b \<le> tk_committed t")
  case True
  then show ?thesis
    using step by (auto simp: archive_round_def split: if_splits option.splits)
next
  case False
  have bi: "block_inv b" using archive_block [OF inv b] by simp
  from False have new: "0 \<le> rnd" "ah_evicted_through b < rnd" "map_of (ah_rounds b) rnd = None" by auto
  have ros: "gmap_ok (tk_validators t)" using inv by (simp add: archive_inv_def)
  note e = enter_round_inv [OF bi ros new(1) rnd new(2,3), of now]
  let ?b1 = "enter_round t b rnd now" and ?b2 = "evict_round (enter_round t b rnd now) rnd"
  note g1 = enter_round_grows [OF new(3), of t now]
  show ?thesis
  proof (cases "int (length (ah_rounds ?b1)) > round_limit")
    case False
    then have "t' = put_block ?b1 t"
      using step new \<open>\<not> (rnd < 0 \<or> _)\<close> by (auto simp: archive_round_def Let_def)
    then show ?thesis
      using archive_grows_put_block [of t ?b1 b 1] b e(13) g1 by simp
  next
    case True
    define old where "old = oldest_key rnd (gkeys (ah_rounds ?b1))"
    have "old \<in> fst ` set (ah_rounds ?b1)"
      using oldest_key_mem [of rnd "gkeys (ah_rounds ?b1)"] e(5) by (auto simp: old_def)
    then obtain rd where "map_of (ah_rounds ?b1) old = Some rd" by (auto simp: gkeys_dom)
    from gmap_all_lookup [OF e(2) this] have lt: "ah_evicted_through ?b1 < old" by simp
    have b2: "?b2 = ?b1\<lparr>ah_rounds := gdel old (ah_rounds ?b1), ah_evicted_through := old,
        ah_evicted := i64 (ah_evicted ?b1 + 1)\<rparr>"
      by (simp add: evict_round_def old_def Let_def)
    have g2: "block_grows 1 b ?b2"
      unfolding b2 by (rule block_grows_evict [OF g1 lt]) simp
    have "archive_grows 1 t (put_block ?b2 t)"
      by (rule archive_grows_put_block [OF _ g2]) (simp add: b2 e(13) b)
    moreover have "t' = prune_detector_rounds (put_block ?b2 t)"
      using step new \<open>\<not> (rnd < 0 \<or> _)\<close> True by (auto simp: archive_round_def Let_def)
    ultimately show ?thesis by (simp add: archive_grows_prune)
  qed
qed

lemma put_round_proposer_grows:
  assumes "map_of (ah_rounds b) (ar_round rd) = Some rd"
  shows "block_grows 1 b ((put_round (rd\<lparr>ar_proposer := p, ar_last := now\<rparr>) b)
           \<lparr>ah_last := now, ah_revision := ah_revision b + 1\<rparr>)"
  using assms by (auto simp: block_grows_def put_round_def map_of_gput round_grows_def)

lemma observe_round_grows:
  assumes inv: "archive_inv t" and det: "detector_bounded t"
  shows "archive_grows 2 t (observe_round t h r p now)"
proof (cases "h \<le> 0 \<or> r < 0 \<or> r > max_int32 \<or> length p > identity_limit")
  case True
  then show ?thesis by (simp add: observe_round_def)
next
  case False
  obtain t1 o1 where s1: "archive_height t h now = (t1, o1)" by fastforce
  note i1 = archive_height_inv [OF inv det s1] and f1 = archive_height_grows [OF s1]
  show ?thesis
  proof (cases o1)
    case None
    with False s1 archive_grows_mono [OF f1] show ?thesis by (simp add: observe_round_def)
  next
    case (Some b)
    with s1 have b: "block_at t1 h = Some b" by (simp add: archive_height_block)
    have bb: "block_at t1 (ah_height b) = Some b" using b archive_block [OF i1(1) b] by simp
    obtain t2 b2 o2 where s2: "archive_round t1 b r now = (t2, b2, o2)" by (metis prod_cases3)
    have r: "r \<le> max_int32" using False by simp
    note i2 = archive_round_inv [OF i1 bb r s2]
    note f2 = archive_grows_trans [OF f1 archive_round_grows [OF i1 bb r s2]]
    have "archive_grows 2 t (put_block ((put_round (rd\<lparr>ar_proposer := p, ar_last := now\<rparr>) b2)
        \<lparr>ah_last := now, ah_revision := ah_revision b2 + 1\<rparr>) t2)" if o2: "o2 = Some rd" for rd
    proof -
      have "map_of (ah_rounds b2) (ar_round rd) = Some rd" using i2(5) [OF o2] by simp
      note g = put_round_proposer_grows [OF this, where p = p and now = now]
      show ?thesis
        using archive_grows_trans [OF f2 archive_grows_put_block [OF _ g]] i2(3)
        by (simp add: numeral_2_eq_2)
    qed
    then show ?thesis
      using False s1 s2 \<open>o1 = Some b\<close> archive_grows_mono [OF f2]
      by (auto simp: observe_round_def split: option.split)
  qed
qed

lemma observe_vote_grows:
  assumes inv: "archive_inv t" and det: "detector_bounded t"
  shows "archive_grows 2 t (observe_vote t v now)"
proof (cases "well_formed_vote v")
  case False
  then show ?thesis by (simp add: observe_vote_def)
next
  case wf: True
  obtain t1 o1 where s1: "archive_height t (ve_height v) now = (t1, o1)" by fastforce
  note i1 = archive_height_inv [OF inv det s1] and f1 = archive_height_grows [OF s1]
  show ?thesis
  proof (cases o1)
    case None
    with wf s1 archive_grows_mono [OF f1] show ?thesis by (simp add: observe_vote_def)
  next
    case (Some b)
    with s1 have b: "block_at t1 (ve_height v) = Some b" by (simp add: archive_height_block)
    have bb: "block_at t1 (ah_height b) = Some b" using b archive_block [OF i1(1) b] by simp
    obtain t2 b2 o2 where s2: "archive_round t1 b (ve_round v) now = (t2, b2, o2)" by (metis prod_cases3)
    have r: "ve_round v \<le> max_int32" using wf by (auto simp: well_formed_vote_def)
    note i2 = archive_round_inv [OF i1 bb r s2]
    note f2 = archive_grows_trans [OF f1 archive_round_grows [OF i1 bb r s2]]
    have "archive_grows 2 t (put_block (record_vote b2 rd v now) t2)" if o2: "o2 = Some rd" for rd
    proof -
      have mem: "map_of (ah_rounds b2) (ar_round rd) = Some rd" using i2(5) [OF o2] by simp
      have bi2: "block_inv b2" using archive_block [OF i2(1,3)] by simp
      obtain n where n: "n \<le> 1" "block_grows n b2 (record_vote b2 rd v now)"
        using record_vote_grows [OF bi2 mem] by blast
      have "archive_grows n t2 (put_block (record_vote b2 rd v now) t2)"
        by (rule archive_grows_put_block [OF _ n(2)]) (use i2(3) record_vote_inv(2) [OF bi2 mem wf] in simp)
      from archive_grows_trans [OF f2 this] show ?thesis
        by (rule archive_grows_mono) (use n(1) in simp)
    qed
    then show ?thesis
      using wf s1 s2 \<open>o1 = Some b\<close> archive_grows_mono [OF f2]
      by (auto simp: observe_vote_def split: option.split)
  qed
qed

lemma archive_commit_grows:
  assumes inv: "archive_inv t" and det: "detector_bounded t"
  shows "archive_grows 1 t (archive_commit t h hash now)"
proof -
  obtain t1 o1 where s1: "create_archive_height t h now = (t1, o1)" by fastforce
  note i1 = create_archive_height_inv [OF inv det s1] and f1 = create_archive_height_grows [OF s1]
  have "archive_grows 1 t (put_block (b\<lparr>ah_committed := True, ah_canonical := hash, ah_last := now,
            ah_revision := ah_revision b + 1\<rparr>) t1)"
    if o1: "o1 = Some b" and new: "\<not> ah_committed b \<or> ah_canonical b = ''''" for b
  proof -
    let ?b' = "b\<lparr>ah_committed := True, ah_canonical := hash, ah_last := now, ah_revision := ah_revision b + 1\<rparr>"
    have "block_at t1 h = Some b" using s1 o1 by (simp add: create_archive_height_block)
    with archive_block [OF i1(1) this] have at: "block_at t1 (ah_height ?b') = Some b" by simp
    have "block_grows 1 b ?b'" using new by (auto simp: block_grows_def)
    from archive_grows_trans [OF f1 archive_grows_put_block [OF at this]] show ?thesis by simp
  qed
  then show ?thesis
    using s1 archive_grows_mono [OF f1] by (auto simp: archive_commit_def split: option.split)
qed

section \<open>The tracker's operations\<close>

lemma adopt_roster_grows:
  assumes bi: "block_inv b"
  shows "\<exists>n \<le> 128. block_grows n b (adopt_roster m b)"
proof -
  let ?k = "length (filter (\<lambda>(r, rd). ar_roster rd = []) (ah_rounds b))"
  let ?n = "if m = [] then 0 else ?k"
  have "length (ah_rounds b) \<le> 128" using bi by (simp add: block_inv_def round_limit_def)
  then have n: "?n \<le> 128" using le_trans [OF length_filter_le] by auto
  have "adopt_roster m b = b" if "?n = 0"
  proof -
    have same: "(if ar_roster rd = [] then rd\<lparr>ar_roster := m\<rparr> else rd) = rd"
      if "(r, rd) \<in> set (ah_rounds b)" for r rd
      using \<open>?n = 0\<close> that by (cases "m = []") (auto simp: filter_empty_conv)
    then have "gmap_vals (\<lambda>r rd. if ar_roster rd = [] then rd\<lparr>ar_roster := m\<rparr> else rd) (ah_rounds b)
        = ah_rounds b"
      unfolding gmap_vals_def by (intro map_idI) auto
    moreover have "(if m = [] then 0 else of_nat ?k :: u64) = 0" using that by (cases "m = []") simp_all
    ultimately show ?thesis by (simp only: adopt_roster_def) simp
  qed
  then have "block_grows ?n b (adopt_roster m b)"
    by (auto simp: block_grows_def adopt_roster_def map_of_gmap_vals round_grows_def)
  with n show ?thesis by blast
qed

lemma set_validators_grows:
  assumes "archive_inv t"
  shows "archive_grows 128 t (set_validators t vs)"
  unfolding archive_grows_def
proof (intro conjI allI impI disjI2)
  fix h b
  assume b: "block_at t h = Some b"
  from adopt_roster_grows [of b "roster_of vs"] archive_block [OF assms b]
  obtain n where "n \<le> 128" "block_grows n b (adopt_roster (roster_of vs) b)" by blast
  moreover have "block_at (set_validators t vs) h = Some (adopt_roster (roster_of vs) b)"
    using b by (simp add: set_validators_def Let_def map_of_gmap_vals)
  ultimately show "\<exists>m b'. m \<le> 128 \<and> block_at (set_validators t vs) h = Some b' \<and> block_grows m b b'"
    by blast
qed simp

lemma ingest_vote_archive:
  "ingest_vote t v now = (t', res) \<Longrightarrow> tk_archive t' = tk_archive (observe_vote t v now)
     \<and> tk_evicted_through t' = tk_evicted_through (observe_vote t v now)"
  by (auto simp: ingest_vote_eq Let_def split: if_splits)

lemma resolve_commit_archive:
  "resolve_commit t h hash now = Some (t', rs) \<Longrightarrow> tk_archive t' = tk_archive (archive_commit t h hash now)
     \<and> tk_evicted_through t' = tk_evicted_through (archive_commit t h hash now)"
  by (auto simp: resolve_commit_def Let_def split: option.splits)

lemma apply_op_grows:
  assumes "tracker_inv t" and "apply_op op t = Some (t', ks)"
  shows "archive_grows 128 t t'"
proof -
  have a: "archive_inv t" "detector_bounded t" using assms(1) by (simp_all add: tracker_inv_def)
  note ov = archive_grows_mono [OF observe_vote_grows [OF a], of 128]
    and orr = archive_grows_mono [OF observe_round_grows [OF a], of 128]
    and ac = archive_grows_mono [OF archive_commit_grows [OF a], of 128]
  show ?thesis
  proof (cases op)
    case (IngestVote v now)
    with assms(2) obtain res where "ingest_vote t v now = (t', res)" by (auto split: prod.splits)
    from archive_grows_cong [OF ov ingest_vote_archive [OF this]] show ?thesis by simp
  next
    case (ResolveCommit h hash now)
    with assms(2) obtain rs where "resolve_commit t h hash now = Some (t', rs)" by auto
    from archive_grows_cong [OF ac resolve_commit_archive [OF this]] show ?thesis by simp
  next
    case (MarkRoundAdvanced h r)
    with assms(2) have "t' = t\<lparr>tk_rounds := tk_rounds t'\<rparr>"
      using mark_round_advanced_rounds [of t h r] by simp
    then have "tk_archive t' = tk_archive t" "tk_evicted_through t' = tk_evicted_through t"
      by (metis tracker.select_convs(7) tracker.surjective tracker.update_convs(2),
          metis tracker.select_convs(8) tracker.surjective tracker.update_convs(2))
    then show ?thesis by (rule archive_grows_same)
  qed (use assms(2) ov orr set_validators_grows [OF a(1)] in auto)
qed

lemma run_ops_grows:
  "tracker_inv t \<Longrightarrow> run_ops ops t = Some (t', ks) \<Longrightarrow> archive_grows (128 * length ops) t t'"
proof (induction ops arbitrary: t ks)
  case Nil
  then show ?case by simp
next
  case (Cons op ops)
  from Cons.prems(2) obtain t1 k1 k2 where op: "apply_op op t = Some (t1, k1)"
    and rest: "run_ops ops t1 = Some (t', k2)"
    by (auto split: option.splits prod.splits)
  from archive_grows_trans [OF apply_op_grows [OF Cons.prems(1) op]
      Cons.IH [OF apply_op_inv [OF Cons.prems(1) op] rest]]
  show ?case by simp
qed

text \<open>Fewer than \<open>2^64\<close> revisions apart, equal revisions mean equal evidence.\<close>

lemma block_grows_revision:
  assumes "block_grows n b b'" and "n < 18446744073709551616" and "ah_revision b' = ah_revision b"
  shows "b' = b"
proof -
  have "(of_nat n :: u64) = 0" using assms(1,3) by (simp add: block_grows_def)
  then have "n mod 18446744073709551616 = 0" by (simp add: of_nat_eq_0_iff take_bit_eq_mod word_of_nat_eq_0_iff)
  with assms(2) have "n = 0" by simp
  with assms(1) show ?thesis by (simp add: block_grows_def)
qed

lemma run_ops_inv: "tracker_inv t \<Longrightarrow> run_ops ops t = Some (t', ks) \<Longrightarrow> tracker_inv t'"
  by (induction ops arbitrary: t ks) (auto split: option.splits prod.splits intro: apply_op_inv)

text \<open>So over a run a retained height with the same revision is the same.\<close>

lemma revision_same_block:
  assumes inv: "tracker_inv t" and run: "run_ops ops t = Some (t', ks)" and short: "length ops < 144115188075855872"
    and b: "block_at t h = Some b" and b': "block_at t' h = Some b'" and rev: "ah_revision b' = ah_revision b"
  shows "b' = b"
proof -
  have "tracker_inv t'" by (rule run_ops_inv [OF inv run])
  then have "\<not> h \<le> tk_evicted_through t'" using archive_block(2) [of t' h b'] b' by (simp add: tracker_inv_def)
  with run_ops_grows [OF inv run] b b'
  obtain n where "n \<le> 128 * length ops" "block_grows n b b'"
    unfolding archive_grows_def by (metis option.inject)
  with short rev block_grows_revision show ?thesis by simp
qed

end
