(* ===== verification/Investigation.thy ===== *)
theory Investigation
  imports Decimal Archive_Growth
begin

text \<open>
  The investigation of one height as the archive presents it (\<open>archive.go\<close> from
  \<open>BlockInvestigation\<close> on, and \<open>archive_snapshot.go\<close>): the header computed under the lock,
  the detached capture, and the expensive body built from it later.  Powers are decimal strings, as
  in the JSON the program serves.
\<close>

section \<open>Views\<close>

record inv_coverage =
  co_first :: "int option"
  co_last :: "int option"
  co_observed :: int
  co_missing :: int
  co_evicted :: int
  co_complete :: bool

record inv_retention =
  re_height_limit :: int
  re_round_limit :: int
  re_hash_limit :: int
  re_unknown_limit :: int
  re_earliest :: int
  re_latest :: int
  re_heights :: "int list"

record inv_group =
  pg_hash :: string
  pg_power :: string
  pg_count :: int
  pg_validators :: "string list"
  pg_canonical :: bool

record inv_phase =
  ph_groups :: "inv_group list"
  ph_observed :: string
  ph_count :: int
  ph_absent :: string
  ph_not_observed :: "string list"
  ph_conflicting :: "string list"

record inv_validator =
  vv_address :: string
  vv_moniker :: string
  vv_power :: string
  vv_known :: bool
  vv_prevote :: inv_vote
  vv_precommit :: inv_vote

record inv_round =
  vr_round :: int
  vr_proposer :: string
  vr_first :: gtime
  vr_last :: gtime
  vr_complete :: bool
  vr_total :: string
  vr_validators :: "inv_validator list"
  vr_prevotes :: inv_phase
  vr_precommits :: inv_phase
  vr_truncated :: bool

record investigation =
  bi_height :: int
  bi_found :: bool
  bi_status :: string
  bi_committed :: bool
  bi_canonical :: string
  bi_first :: "gtime option"
  bi_last :: "gtime option"
  bi_rounds :: "inv_round list"
  bi_truncated :: bool
  bi_coverage :: inv_coverage
  bi_retention :: inv_retention

record archive_version =
  av_evidence :: u64
  av_catalogue :: u64
  av_header :: investigation

text \<open>The evidence a capture owns is a value; \<open>CapturedAt\<close> and \<open>LockDuration\<close> are clock readings.\<close>

record capture =
  ca_version :: archive_version
  ca_captured_at :: gtime
  ca_lock :: duration
  ca_block :: "archived_height option"

section \<open>The header\<close>

definition zero_coverage :: inv_coverage where
  "zero_coverage = \<lparr>co_first = None, co_last = None, co_observed = 0, co_missing = 0, co_evicted = 0,
                    co_complete = False\<rparr>"

definition retention_of :: "tracker \<Rightarrow> inv_retention" where
  "retention_of t =
     (let hs = sort_slice (<) (gkeys (tk_archive t))
      in \<lparr>re_height_limit = cf_history (tk_cfg t), re_round_limit = round_limit,
          re_hash_limit = int hash_limit, re_unknown_limit = int unknown_limit,
          re_earliest = (if hs = [] then 0 else hd hs), re_latest = (if hs = [] then 0 else last hs),
          re_heights = hs\<rparr>)"

definition not_observed_header :: "tracker \<Rightarrow> int \<Rightarrow> investigation" where
  "not_observed_header t h =
     \<lparr>bi_height = h, bi_found = False, bi_status = ''not_observed'', bi_committed = False,
      bi_canonical = '''', bi_first = None, bi_last = None, bi_rounds = [], bi_truncated = False,
      bi_coverage = zero_coverage, bi_retention = retention_of t\<rparr>"

definition coverage_of :: "archived_height \<Rightarrow> inv_coverage" where
  "coverage_of b =
     (if ah_observed b > 0
      then \<lparr>co_first = Some (ah_first_round b), co_last = Some (ah_last_round b),
            co_observed = ah_observed b,
            co_missing = i64 (i64 (ah_last_round b - ah_observed b) + 1),
            co_evicted = ah_evicted b, co_complete = ah_rounds b \<noteq> []\<rparr>
      else \<lparr>co_first = None, co_last = None, co_observed = ah_observed b, co_missing = 0,
            co_evicted = ah_evicted b, co_complete = ah_rounds b \<noteq> []\<rparr>)"

definition investigation_header :: "tracker \<Rightarrow> int \<Rightarrow> investigation" where
  "investigation_header t h =
     (let result = not_observed_header t h
      in case block_at t h of
           None \<Rightarrow> if h > 0 \<and> h \<le> tk_evicted_through t
                    then result\<lparr>bi_status := ''evicted'', bi_truncated := True\<rparr> else result
         | Some b \<Rightarrow>
             result\<lparr>bi_found := True,
                    bi_status := (if ah_committed b then ''committed''
                                  else if h < tk_latest t \<or> h \<le> tk_committed t then ''passed''
                                  else ''live''),
                    bi_committed := ah_committed b, bi_canonical := ah_canonical b,
                    bi_first := Some (ah_first b), bi_last := Some (ah_last b),
                    bi_coverage := coverage_of b, bi_truncated := ah_evicted b > 0\<rparr>)"

section \<open>A round\<close>

definition clone_vote :: "inv_vote option \<Rightarrow> inv_vote" where
  "clone_vote v =
     (case v of None \<Rightarrow> \<lparr>iv_observed = False, iv_hashes = [], iv_conflicting = False, iv_truncated = False\<rparr>
              | Some w \<Rightarrow> w)"

definition round_addresses :: "archived_round \<Rightarrow> string list" where
  "round_addresses rd = remdups (gkeys (ar_roster rd) @ gkeys (ar_votes rd))"

definition validator_row :: "archived_round \<Rightarrow> string \<Rightarrow> inv_validator" where
  "validator_row rd addr =
     (let v = (case map_of (ar_roster rd) addr of Some v \<Rightarrow> v
               | None \<Rightarrow> \<lparr>vp_address = '''', vp_power = 0, vp_moniker = ''''\<rparr>)
      in \<lparr>vv_address = addr, vv_moniker = vp_moniker v, vv_power = format_int (vp_power v),
          vv_known = map_of (ar_roster rd) addr \<noteq> None,
          vv_prevote = clone_vote (get_vote rd addr Prevote),
          vv_precommit = clone_vote (get_vote rd addr Precommit)\<rparr>)"

text \<open>The power \<open>snapshotArchiveRound\<close> adds to the total for an address.\<close>

definition counted_power :: "archived_round \<Rightarrow> string \<Rightarrow> int" where
  "counted_power rd addr =
     (case map_of (ar_roster rd) addr of
        Some v \<Rightarrow> if vp_power v > 0 then vp_power v else 0 | None \<Rightarrow> 0)"

text \<open>A phase while it is tallied: \<open>groups\<close> and \<open>powers\<close>, by hash, and the running sums.\<close>

record phase_tally =
  pt_groups :: "(string, inv_group) gomap"
  pt_powers :: "(string, int) gomap"
  pt_observed :: int
  pt_absent :: int
  pt_count :: int
  pt_not_observed :: "string list"
  pt_conflicting :: "string list"

definition empty_tally :: phase_tally where
  "empty_tally = \<lparr>pt_groups = [], pt_powers = [], pt_observed = 0, pt_absent = 0, pt_count = 0,
                  pt_not_observed = [], pt_conflicting = []\<rparr>"

definition vote_of :: "vote_type \<Rightarrow> inv_validator \<Rightarrow> inv_vote" where
  "vote_of kind v = (if kind = Precommit then vv_precommit v else vv_prevote v)"

definition row_power :: "inv_validator \<Rightarrow> int" where
  "row_power v = (case big_set_string (vv_power v) of Some p \<Rightarrow> if p < 0 then 0 else p | None \<Rightarrow> 0)"

definition get_power :: "(string, int) gomap \<Rightarrow> string \<Rightarrow> int" where
  "get_power m h = (case map_of m h of Some p \<Rightarrow> p | None \<Rightarrow> 0)"

definition tally_hash :: "string \<Rightarrow> bool \<Rightarrow> inv_validator \<Rightarrow> inv_hash \<Rightarrow> phase_tally \<Rightarrow> phase_tally" where
  "tally_hash canonical committed v h acc =
     (let hash = ih_hash h;
          g = (case map_of (pt_groups acc) hash of Some g \<Rightarrow> g
               | None \<Rightarrow> \<lparr>pg_hash = hash, pg_power = '''', pg_count = 0, pg_validators = [],
                          pg_canonical = (committed \<and> hash \<noteq> '''' \<and> canonical = hash)\<rparr>)
      in acc\<lparr>pt_groups := gput hash (g\<lparr>pg_validators := pg_validators g @ [vv_address v],
                                      pg_count := i64 (pg_count g + 1)\<rparr>) (pt_groups acc),
             pt_powers := gput hash (get_power (pt_powers acc) hash + row_power v) (pt_powers acc)\<rparr>)"

definition tally_validator ::
  "vote_type \<Rightarrow> string \<Rightarrow> bool \<Rightarrow> inv_validator \<Rightarrow> phase_tally \<Rightarrow> phase_tally" where
  "tally_validator kind canonical committed v acc =
     (let vote = vote_of kind v; power = row_power v
      in if \<not> iv_observed vote
         then acc\<lparr>pt_absent := pt_absent acc + power,
                  pt_not_observed := pt_not_observed acc @ [vv_address v]\<rparr>
         else fold (tally_hash canonical committed v) (iv_hashes vote)
                (acc\<lparr>pt_observed := pt_observed acc + power, pt_count := i64 (pt_count acc + 1),
                     pt_conflicting := (if iv_conflicting vote then pt_conflicting acc @ [vv_address v]
                                        else pt_conflicting acc)\<rparr>))"

definition phase_group_lt :: "(string, int) gomap \<Rightarrow> inv_group \<Rightarrow> inv_group \<Rightarrow> bool" where
  "phase_group_lt powers a b =
     (let p = get_power powers (pg_hash a); q = get_power powers (pg_hash b)
      in if p \<noteq> q then p > q else pg_hash a < pg_hash b)"

definition phase_tally_of :: "inv_validator list \<Rightarrow> vote_type \<Rightarrow> string \<Rightarrow> bool \<Rightarrow> phase_tally" where
  "phase_tally_of vs kind canonical committed = fold (tally_validator kind canonical committed) vs empty_tally"

definition snapshot_phase :: "inv_validator list \<Rightarrow> vote_type \<Rightarrow> string \<Rightarrow> bool \<Rightarrow> inv_phase" where
  "snapshot_phase vs kind canonical committed =
     (let acc = phase_tally_of vs kind canonical committed
      in \<lparr>ph_groups = sort_slice (phase_group_lt (pt_powers acc))
            (map (\<lambda>(h, g). g\<lparr>pg_power := format_int (get_power (pt_powers acc) h)\<rparr>) (pt_groups acc)),
          ph_observed = format_int (pt_observed acc), ph_count = pt_count acc,
          ph_absent = format_int (pt_absent acc), ph_not_observed = pt_not_observed acc,
          ph_conflicting = pt_conflicting acc\<rparr>)"

definition row_lt :: "inv_validator \<Rightarrow> inv_validator \<Rightarrow> bool" where
  "row_lt a b = (vv_address a < vv_address b)"

definition snapshot_round :: "archived_round \<Rightarrow> string \<Rightarrow> bool \<Rightarrow> inv_round" where
  "snapshot_round rd canonical committed =
     (let addrs = round_addresses rd;
          rows = sort_slice row_lt (map (validator_row rd) addrs)
      in \<lparr>vr_round = ar_round rd, vr_proposer = ar_proposer rd, vr_first = ar_first rd, vr_last = ar_last rd,
          vr_complete = (ar_roster rd \<noteq> [] \<and> list_all (\<lambda>a. map_of (ar_roster rd) a \<noteq> None) addrs),
          vr_total = format_int (fold (\<lambda>a s. s + counted_power rd a) addrs 0),
          vr_validators = rows,
          vr_prevotes = snapshot_phase rows Prevote canonical committed,
          vr_precommits = snapshot_phase rows Precommit canonical committed,
          vr_truncated = ar_truncated rd\<rparr>)"

section \<open>Versions, captures and the built investigation\<close>

definition investigation_version :: "tracker \<Rightarrow> int \<Rightarrow> archive_version" where
  "investigation_version t h =
     \<lparr>av_evidence = (case block_at t h of Some b \<Rightarrow> ah_revision b | None \<Rightarrow> 0),
      av_catalogue = tk_catalogue t, av_header = investigation_header t h\<rparr>"

definition capture_investigation :: "tracker \<Rightarrow> int \<Rightarrow> gtime \<Rightarrow> duration \<Rightarrow> capture" where
  "capture_investigation t h now lock =
     \<lparr>ca_version = investigation_version t h, ca_captured_at = now, ca_lock = lock, ca_block = block_at t h\<rparr>"

definition round_lt :: "inv_round \<Rightarrow> inv_round \<Rightarrow> bool" where
  "round_lt a b = (vr_round a < vr_round b)"

definition block_rounds :: "archived_height \<Rightarrow> inv_round list" where
  "block_rounds b = map (\<lambda>(r, rd). snapshot_round rd (ah_canonical b) (ah_committed b)) (ah_rounds b)"

definition build :: "capture \<Rightarrow> investigation" where
  "build c =
     (let out = (av_header (ca_version c))\<lparr>bi_rounds := []\<rparr>
      in case ca_block c of
           None \<Rightarrow> out
         | Some b \<Rightarrow>
             out\<lparr>bi_rounds := sort_slice round_lt (block_rounds b),
                 bi_truncated := (bi_truncated out \<or> list_ex vr_truncated (block_rounds b)),
                 bi_coverage := (bi_coverage out)
                   \<lparr>co_complete := co_complete (bi_coverage out) \<and> list_all vr_complete (block_rounds b)\<rparr>\<rparr>)"

definition block_investigation :: "tracker \<Rightarrow> int \<Rightarrow> gtime \<Rightarrow> duration \<Rightarrow> investigation" where
  "block_investigation t h now lock = build (capture_investigation t h now lock)"

section \<open>Orders\<close>

interpretation row_order: slice_less row_lt vv_address
  by unfold_locales (simp add: row_lt_def)

interpretation inv_round_order: slice_less round_lt vr_round
  by unfold_locales (simp add: round_lt_def)

interpretation height_order: slice_less "(<)" "\<lambda>h :: int. h"
  by unfold_locales simp

interpretation phase_group_order: slice_less "phase_group_lt powers" "\<lambda>g. (- get_power powers (pg_hash g), pg_hash g)"
  by unfold_locales (auto simp: phase_group_lt_def Let_def)

section \<open>Tallies\<close>

lemma row_power_row: "row_power (validator_row rd a) = counted_power rd a"
  by (simp add: row_power_def validator_row_def counted_power_def Let_def split: option.split)

lemma row_power_nonneg: "0 \<le> row_power v"
  by (simp add: row_power_def split: option.split)

lemma tally_hash_sel [simp]:
  "pt_observed (tally_hash c m v h acc) = pt_observed acc"
  "pt_absent (tally_hash c m v h acc) = pt_absent acc"
  "pt_not_observed (tally_hash c m v h acc) = pt_not_observed acc"
  "pt_conflicting (tally_hash c m v h acc) = pt_conflicting acc"
  "pt_count (tally_hash c m v h acc) = pt_count acc"
  by (simp_all add: tally_hash_def Let_def)

lemma fold_tally_hash_sel [simp]:
  "pt_observed (fold (tally_hash c m v) hs acc) = pt_observed acc"
  "pt_absent (fold (tally_hash c m v) hs acc) = pt_absent acc"
  "pt_not_observed (fold (tally_hash c m v) hs acc) = pt_not_observed acc"
  "pt_conflicting (fold (tally_hash c m v) hs acc) = pt_conflicting acc"
  "pt_count (fold (tally_hash c m v) hs acc) = pt_count acc"
  by (induction hs arbitrary: acc) auto

lemma fold_tally_sums:
  "pt_observed (fold (tally_validator k c m) vs acc) + pt_absent (fold (tally_validator k c m) vs acc)
     = pt_observed acc + pt_absent acc + (\<Sum>v \<leftarrow> vs. row_power v)"
  "pt_not_observed (fold (tally_validator k c m) vs acc)
     = pt_not_observed acc @ map vv_address (filter (\<lambda>v. \<not> iv_observed (vote_of k v)) vs)"
  "pt_conflicting (fold (tally_validator k c m) vs acc)
     = pt_conflicting acc
       @ map vv_address (filter (\<lambda>v. iv_observed (vote_of k v) \<and> iv_conflicting (vote_of k v)) vs)"
  "pt_observed (fold (tally_validator k c m) vs acc)
     = pt_observed acc + (\<Sum>v \<leftarrow> filter (\<lambda>v. iv_observed (vote_of k v)) vs. row_power v)"
  by (induction vs arbitrary: acc) (auto simp: tally_validator_def Let_def)

lemma sum_counted_power:
  "fold (\<lambda>a s. s + counted_power rd a) as s = s + (\<Sum>a \<leftarrow> as. counted_power rd a)"
  by (induction as arbitrary: s) auto

lemma rows_power:
  "(\<Sum>v \<leftarrow> sort_slice row_lt (map (validator_row rd) as). row_power v) = (\<Sum>a \<leftarrow> as. counted_power rd a)"
proof -
  have "(\<Sum>v \<leftarrow> sort_slice row_lt (map (validator_row rd) as). row_power v)
      = (\<Sum>v \<leftarrow> map (validator_row rd) as. row_power v)"
    by (rule sum_list_mset_cong) simp
  then show ?thesis by (simp add: comp_def row_power_row)
qed

end
