(* ===== verification/Investigation_Facts.thy ===== *)
theory Investigation_Facts
  imports Investigation
begin

text \<open>
  What the investigation view shows: the voting power of a round is split exactly between observed
  and absent validators, each hash has one group with its signers and their power, the rounds a
  height missed are counted, and the built view does not depend on the iteration order of any map.
\<close>

section \<open>Groups of a phase\<close>

definition signs :: "vote_type \<Rightarrow> string \<Rightarrow> inv_validator \<Rightarrow> bool" where
  "signs k h v \<longleftrightarrow> iv_observed (vote_of k v) \<and> h \<in> ih_hash ` set (iv_hashes (vote_of k v))"

definition signers :: "vote_type \<Rightarrow> string \<Rightarrow> inv_validator list \<Rightarrow> inv_validator list" where
  "signers k h vs = filter (signs k h) vs"

text \<open>The group of a hash, as the view should show it.\<close>

definition expected_group :: "vote_type \<Rightarrow> string \<Rightarrow> bool \<Rightarrow> inv_validator list \<Rightarrow> string \<Rightarrow> string \<Rightarrow> inv_group" where
  "expected_group k canonical committed vs pw h =
     \<lparr>pg_hash = h, pg_power = pw, pg_count = i64 (int (length (signers k h vs))),
      pg_validators = map vv_address (signers k h vs),
      pg_canonical = (committed \<and> h \<noteq> '''' \<and> canonical = h)\<rparr>"

definition tally_spec :: "vote_type \<Rightarrow> string \<Rightarrow> bool \<Rightarrow> inv_validator list \<Rightarrow> phase_tally \<Rightarrow> bool" where
  "tally_spec k c m vs acc \<longleftrightarrow>
     gmap_ok (pt_groups acc)
     \<and> (\<forall>h. map_of (pt_groups acc) h
              = (if signers k h vs = [] then None else Some (expected_group k c m vs '''' h))
            \<and> get_power (pt_powers acc) h = (\<Sum>v \<leftarrow> signers k h vs. row_power v))"

definition join_group :: "string \<Rightarrow> bool \<Rightarrow> inv_validator \<Rightarrow> string \<Rightarrow> inv_group option \<Rightarrow> inv_group" where
  "join_group c m v h og =
     (let g = (case og of Some g \<Rightarrow> g
               | None \<Rightarrow> \<lparr>pg_hash = h, pg_power = '''', pg_count = 0, pg_validators = [],
                          pg_canonical = (m \<and> h \<noteq> '''' \<and> c = h)\<rparr>)
      in g\<lparr>pg_validators := pg_validators g @ [vv_address v], pg_count := i64 (pg_count g + 1)\<rparr>)"

lemma tally_hash_join:
  "pt_groups (tally_hash c m v h acc)
     = gput (ih_hash h) (join_group c m v (ih_hash h) (map_of (pt_groups acc) (ih_hash h))) (pt_groups acc)"
  "pt_powers (tally_hash c m v h acc)
     = gput (ih_hash h) (get_power (pt_powers acc) (ih_hash h) + row_power v) (pt_powers acc)"
  by (simp_all add: tally_hash_def join_group_def Let_def)

lemma get_power_gput: "get_power (gput k p m) h = (if h = k then p else get_power m h)"
  by (simp add: get_power_def map_of_gput)

lemma fold_tally_hash_all:
  assumes "distinct (map ih_hash hs)" and "gmap_ok (pt_groups acc)"
  shows "gmap_ok (pt_groups (fold (tally_hash c m v) hs acc))
    \<and> map_of (pt_groups (fold (tally_hash c m v) hs acc)) k
        = (if k \<in> ih_hash ` set hs then Some (join_group c m v k (map_of (pt_groups acc) k))
           else map_of (pt_groups acc) k)
    \<and> get_power (pt_powers (fold (tally_hash c m v) hs acc)) k
        = get_power (pt_powers acc) k + (if k \<in> ih_hash ` set hs then row_power v else 0)"
  using assms
proof (induction hs arbitrary: acc)
  case (Cons h hs)
  have ok: "gmap_ok (pt_groups (tally_hash c m v h acc))"
    using Cons.prems(2) by (simp add: tally_hash_join)
  from Cons.IH [OF _ ok] Cons.prems(1) show ?case
    by (auto simp: tally_hash_join map_of_gput get_power_gput)
qed simp

lemmas fold_tally_hash =
  conjunct1 [OF fold_tally_hash_all]
  conjunct1 [OF conjunct2 [OF fold_tally_hash_all]]
  conjunct2 [OF conjunct2 [OF fold_tally_hash_all]]

lemma signers_snoc: "signers k h (vs @ [v]) = signers k h vs @ (if signs k h v then [v] else [])"
  by (simp add: signers_def)

lemma tally_spec_of:
  assumes "\<forall>v \<in> set vs. distinct (map ih_hash (iv_hashes (vote_of k v)))"
  shows "tally_spec k c m vs (phase_tally_of vs k c m)"
  using assms
proof (induction vs rule: rev_induct)
  case Nil
  then show ?case
    by (simp add: tally_spec_def phase_tally_of_def empty_tally_def signers_def get_power_def)
next
  case (snoc v vs)
  let ?acc = "phase_tally_of vs k c m"
  have ih: "tally_spec k c m vs ?acc" using snoc by simp
  have last: "phase_tally_of (vs @ [v]) k c m = tally_validator k c m v ?acc"
    by (simp add: phase_tally_of_def)
  show ?case
  proof (cases "iv_observed (vote_of k v)")
    case False
    then have "signers k h (vs @ [v]) = signers k h vs" for h by (simp add: signers_snoc signs_def)
    moreover have "pt_groups (tally_validator k c m v ?acc) = pt_groups ?acc"
      "pt_powers (tally_validator k c m v ?acc) = pt_powers ?acc"
      using False by (simp_all add: tally_validator_def Let_def)
    ultimately show ?thesis using ih by (simp add: tally_spec_def last expected_group_def)
  next
    case True
    let ?hs = "iv_hashes (vote_of k v)"
    obtain acc1 where acc1: "phase_tally_of (vs @ [v]) k c m = fold (tally_hash c m v) ?hs acc1"
      "pt_groups acc1 = pt_groups ?acc" "pt_powers acc1 = pt_powers ?acc"
      using True by (auto simp: last tally_validator_def Let_def)
    have d: "distinct (map ih_hash ?hs)" and ok: "gmap_ok (pt_groups acc1)"
      using snoc.prems ih by (simp_all add: tally_spec_def acc1)
    note f = fold_tally_hash [OF d ok, of c m v]
    have s: "signs k h v \<longleftrightarrow> h \<in> ih_hash ` set ?hs" for h using True by (simp add: signs_def)
    have "map_of (pt_groups (phase_tally_of (vs @ [v]) k c m)) h
        = (if signers k h (vs @ [v]) = [] then None else Some (expected_group k c m (vs @ [v]) '''' h))" for h
      using ih unfolding acc1(1) f(2) acc1(2) tally_spec_def
      by (auto simp: signers_snoc s join_group_def expected_group_def Let_def i64_add_left)
    moreover have "get_power (pt_powers (phase_tally_of (vs @ [v]) k c m)) h
        = (\<Sum>v \<leftarrow> signers k h (vs @ [v]). row_power v)" for h
      using ih unfolding acc1(1) f(3) acc1(3) tally_spec_def by (auto simp: signers_snoc s)
    ultimately show ?thesis using f(1) by (simp add: tally_spec_def acc1(1))
  qed
qed

lemma phase_groups_exact:
  assumes "\<forall>v \<in> set vs. distinct (map ih_hash (iv_hashes (vote_of k v)))"
  shows "g \<in> set (ph_groups (snapshot_phase vs k c m)) \<longleftrightarrow>
           (\<exists>h. signers k h vs \<noteq> []
              \<and> g = expected_group k c m vs (format_int (\<Sum>v \<leftarrow> signers k h vs. row_power v)) h)"
    and "distinct (map pg_hash (ph_groups (snapshot_phase vs k c m)))"
proof -
  let ?acc = "phase_tally_of vs k c m"
  note spec = tally_spec_of [OF assms, unfolded tally_spec_def]
  have ok: "gmap_ok (pt_groups ?acc)" using spec by blast
  have entry: "(h, g) \<in> set (pt_groups ?acc) \<longleftrightarrow> signers k h vs \<noteq> [] \<and> g = expected_group k c m vs '''' h" for h g
    unfolding gmap_ok_in_iff [OF ok] using spec by auto
  have pwr: "get_power (pt_powers ?acc) h = (\<Sum>v \<leftarrow> signers k h vs. row_power v)" for h
    using spec by blast
  show "g \<in> set (ph_groups (snapshot_phase vs k c m)) \<longleftrightarrow>
           (\<exists>h. signers k h vs \<noteq> []
              \<and> g = expected_group k c m vs (format_int (\<Sum>v \<leftarrow> signers k h vs. row_power v)) h)"
    by (auto simp: snapshot_phase_def Let_def entry pwr expected_group_def image_iff
        intro!: bexI [of _ "(_, _)"])
  have "map pg_hash (map (\<lambda>(h, g). g\<lparr>pg_power := format_int (get_power (pt_powers ?acc) h)\<rparr>) (pt_groups ?acc))
      = gkeys (pt_groups ?acc)"
    using entry by (auto simp: expected_group_def)
  then show "distinct (map pg_hash (ph_groups (snapshot_phase vs k c m)))"
    using ok unfolding snapshot_phase_def Let_def by (simp add: distinct_map_sort_slice del: map_map)
qed

section \<open>Map order\<close>

text \<open>Two states of a round that differ only in the iteration order of their maps.\<close>

definition same_round :: "archived_round \<Rightarrow> archived_round \<Rightarrow> bool" where
  "same_round rd rd' \<longleftrightarrow>
     ar_round rd' = ar_round rd \<and> ar_proposer rd' = ar_proposer rd \<and> ar_first rd' = ar_first rd
     \<and> ar_last rd' = ar_last rd \<and> ar_truncated rd' = ar_truncated rd
     \<and> map_of (ar_roster rd') = map_of (ar_roster rd)
     \<and> fst ` set (ar_votes rd') = fst ` set (ar_votes rd)
     \<and> (\<forall>a ty. get_vote rd' a ty = get_vote rd a ty)"

lemma rows_distinct: "inj_on vv_address (set (map (validator_row rd) as))"
  by (auto simp: inj_on_def validator_row_def Let_def)

lemma same_round_rows:
  assumes "same_round rd rd'"
  shows "mset (round_addresses rd') = mset (round_addresses rd)"
    and "validator_row rd' = validator_row rd" and "counted_power rd' = counted_power rd"
proof -
  have "set (round_addresses rd') = set (round_addresses rd)"
    using assms by (simp add: round_addresses_def same_round_def gkeys_dom)
  moreover have "distinct (round_addresses rd')" "distinct (round_addresses rd)"
    by (simp_all add: round_addresses_def)
  ultimately show "mset (round_addresses rd') = mset (round_addresses rd)"
    by (simp add: set_eq_iff_mset_eq_distinct)
  show "validator_row rd' = validator_row rd" "counted_power rd' = counted_power rd"
    using assms by (auto simp: validator_row_def counted_power_def same_round_def)
qed

lemma snapshot_round_order:
  assumes "same_round rd rd'"
  shows "snapshot_round rd' c m = snapshot_round rd c m"
proof -
  note r = same_round_rows [OF assms]
  have "mset (map (validator_row rd) (round_addresses rd')) = mset (map (validator_row rd) (round_addresses rd))"
    by (simp add: r(1))
  then have rows: "sort_slice row_lt (map (validator_row rd) (round_addresses rd'))
      = sort_slice row_lt (map (validator_row rd) (round_addresses rd))"
    by (rule row_order.sort_order_irrelevant) (rule rows_distinct)
  have tot: "(\<Sum>a \<leftarrow> round_addresses rd'. counted_power rd a) = (\<Sum>a \<leftarrow> round_addresses rd. counted_power rd a)"
    by (rule sum_list_mset_cong) (rule r(1))
  have st: "set (round_addresses rd') = set (round_addresses rd)"
    using r(1) by (metis set_mset_mset)
  have ros: "map_of (ar_roster rd') = map_of (ar_roster rd)" using assms by (simp add: same_round_def)
  have "ar_roster rd' = [] \<longleftrightarrow> map_of (ar_roster rd') = Map.empty" by (simp add: map_of_eq_empty_iff)
  then have "ar_roster rd' = [] \<longleftrightarrow> ar_roster rd = []" unfolding ros by (simp add: map_of_eq_empty_iff)
  with assms st ros rows tot show ?thesis
    unfolding snapshot_round_def Let_def r(2,3) sum_counted_power
    by (simp add: same_round_def list_all_iff)
qed

section \<open>A round of the view\<close>

lemma snapshot_rows_voted:
  assumes "round_inv rd" and "v \<in> set (vr_validators (snapshot_round rd c m))"
  shows "distinct (map ih_hash (iv_hashes (vote_of k v)))"
proof -
  obtain a where v: "v = validator_row rd a"
    using assms(2) by (auto simp: snapshot_round_def Let_def)
  have "distinct (map ih_hash (iv_hashes (clone_vote (get_vote rd a ty))))" for ty
    using get_vote_inv [OF assms(1), of a ty] by (auto simp: clone_vote_def vote_inv_def split: option.split)
  then show ?thesis by (simp add: v vote_of_def validator_row_def Let_def)
qed

lemma phase_sums:
  fixes rd :: archived_round and c :: string and m :: bool
  defines "s \<equiv> snapshot_round rd c m"
  assumes "p = vr_prevotes s \<or> p = vr_precommits s"
  obtains tot seen lost where "vr_total s = format_int tot" "ph_observed p = format_int seen"
    "ph_absent p = format_int lost" "tot = seen + lost" "0 \<le> seen" "0 \<le> lost"
proof -
  let ?rows = "vr_validators s"
  have rows: "?rows = sort_slice row_lt (map (validator_row rd) (round_addresses rd))"
    by (simp add: s_def snapshot_round_def Let_def)
  obtain k where p: "p = snapshot_phase ?rows k c m"
    using assms(2) by (auto simp: s_def snapshot_round_def Let_def)
  let ?acc = "phase_tally_of ?rows k c m"
  let ?seen = "\<Sum>v \<leftarrow> filter (\<lambda>v. iv_observed (vote_of k v)) ?rows. row_power v"
  have seen: "pt_observed ?acc = ?seen"
    using fold_tally_sums(4) [of k c m ?rows empty_tally] by (simp add: phase_tally_of_def empty_tally_def)
  have sum: "pt_observed ?acc + pt_absent ?acc = (\<Sum>v \<leftarrow> ?rows. row_power v)"
    using fold_tally_sums(1) [of k c m ?rows empty_tally] by (simp add: phase_tally_of_def empty_tally_def)
  have tot: "vr_total s = format_int (\<Sum>v \<leftarrow> ?rows. row_power v)"
    unfolding rows rows_power by (simp add: s_def snapshot_round_def Let_def sum_counted_power)
  have le: "(\<Sum>v \<leftarrow> filter P rows. row_power v) \<le> (\<Sum>v \<leftarrow> rows. row_power v)" for P rows
    by (induction rows) (auto intro: add_increasing simp: row_power_nonneg)
  have "0 \<le> pt_absent ?acc" using seen sum le [of "\<lambda>v. iv_observed (vote_of k v)" ?rows] by linarith
  moreover have "0 \<le> ?seen" by (rule sum_list_nonneg) (auto simp: row_power_nonneg)
  ultimately show thesis
    using that [OF tot, of "pt_observed ?acc" "pt_absent ?acc"] seen sum
    by (simp add: p snapshot_phase_def Let_def)
qed

section \<open>Coverage\<close>

lemma coverage_missing:
  assumes "block_inv b" and "0 < ah_observed b"
  shows "co_missing (coverage_of b) = ah_last_round b + 1 - ah_observed b"
    and "0 \<le> co_missing (coverage_of b)"
proof -
  have le: "ah_observed b \<le> ah_last_round b + 1"
  proof -
    have "fst ` set (ah_rounds b) \<subseteq> {ah_evicted_through b <.. ah_last_round b}"
      using assms(1) by (auto simp: block_inv_def gmap_all_def list_all_iff)
    then have "card (fst ` set (ah_rounds b)) \<le> card {ah_evicted_through b <.. ah_last_round b}"
      by (rule card_mono [rotated]) simp
    moreover have "gmap_ok (ah_rounds b)" using assms(1) by (simp add: block_inv_def)
    ultimately have "int (length (ah_rounds b)) \<le> ah_last_round b - ah_evicted_through b"
      using assms by (simp add: gmap_ok_card block_inv_def le_nat_iff)
    with assms(1) show ?thesis by (simp add: block_inv_def)
  qed
  have "0 \<le> ah_last_round b" "ah_last_round b \<le> max_int32"
    using assms(1) by (simp_all add: block_inv_def)
  with assms(2) le have "i64 (ah_last_round b - ah_observed b) = ah_last_round b - ah_observed b"
    "i64 (ah_last_round b - ah_observed b + 1) = ah_last_round b - ah_observed b + 1"
    by (auto intro!: i64_id simp: int64_min_def int64_max_def max_int32_def)
  with assms(2) le show "co_missing (coverage_of b) = ah_last_round b + 1 - ah_observed b"
    "0 \<le> co_missing (coverage_of b)"
    by (simp_all add: coverage_of_def)
qed

end
