(* ===== verification/Tracker_Facts.thy ===== *)
theory Tracker_Facts
  imports Investigation_Facts
begin

text \<open>
  Further facts about the tracker's operations: repeated deliveries change nothing, commits return
  and keep the history bounded, the live detector's size, and independence of map iteration order.
\<close>

section \<open>Repeated deliveries\<close>

lemma gput_gput [simp]: "gput k v (gput k v m) = gput k v m"
  by (induction m) auto

lemma put_round_put_round [simp]: "put_round rd (put_round rd b) = put_round rd b"
  by (simp add: put_round_def)

lemma record_vote_known:
  assumes bi: "block_inv b" and mem: "map_of (ah_rounds b) (ar_round rd) = Some rd"
    and w: "get_vote rd (ve_addr v) (ve_type v) = Some w"
    and ex: "list_ex (\<lambda>h. ih_hash h = ve_hash v) (iv_hashes w)"
  shows "record_vote b rd v now = b"
proof -
  have ri: "round_inv rd" using bi mem block_inv_round by blast
  obtain ps where "map_of (ar_votes rd) (ve_addr v) = Some ps"
    using w by (auto simp: get_vote_def Option.bind_eq_Some_conv)
  then show ?thesis
    using ex by (simp add: record_vote_def w set_vote_same [OF ri w] put_round_same [OF bi mem])
qed

lemma record_vote_full:
  assumes bi: "block_inv b" and mem: "map_of (ah_rounds b) (ar_round rd) = Some rd"
    and w: "get_vote rd (ve_addr v) (ve_type v) = Some w"
    and full: "\<not> list_ex (\<lambda>h. ih_hash h = ve_hash v) (iv_hashes w)" "length (iv_hashes w) \<ge> hash_limit"
    and marked: "iv_truncated w" "iv_conflicting w" "ar_truncated rd"
  shows "record_vote b rd v now = b"
proof -
  have ri: "round_inv rd" using bi mem block_inv_round by blast
  have same: "w\<lparr>iv_truncated := True, iv_conflicting := True\<rparr> = w" "rd\<lparr>ar_truncated := True\<rparr> = rd"
    using marked by simp_all
  obtain ps where "map_of (ar_votes rd) (ve_addr v) = Some ps"
    using w by (auto simp: get_vote_def Option.bind_eq_Some_conv)
  then have "record_vote b rd v now
      = put_round ((set_vote rd (ve_addr v) (ve_type v) (w\<lparr>iv_truncated := True, iv_conflicting := True\<rparr>))
          \<lparr>ar_truncated := True\<rparr>) b"
    using full marked by (simp add: record_vote_def w Let_def)
  also have "\<dots> = b"
    using same set_vote_same [OF ri w] put_round_same [OF bi mem] by metis
  finally show ?thesis .
qed

lemma map_of_put_round [simp]: "map_of (ah_rounds (put_round rd b)) (ar_round rd) = Some rd"
  by (simp add: put_round_def map_of_gput)

text \<open>The round a recorded vote leaves behind.\<close>

lemma record_vote_again:
  fixes n1 n2 :: gtime and b :: archived_height and rd :: archived_round and v :: vote_event
  assumes bi: "block_inv b" and mem: "map_of (ah_rounds b) (ar_round rd) = Some rd"
    and wf: "well_formed_vote v"
  defines "b1 \<equiv> record_vote b rd v n1"
  assumes rd1: "map_of (ah_rounds b1) (ar_round rd) = Some rd1"
  shows "record_vote b1 rd1 v n2 = b1"
proof -
  have bi1: "block_inv b1" unfolding b1_def by (rule record_vote_inv(1) [OF bi mem wf])
  have r1: "ar_round rd1 = ar_round rd" using block_inv_round [OF bi1 rd1] by simp
  have mem1: "map_of (ah_rounds b1) (ar_round rd1) = Some rd1" using rd1 r1 by simp
  define w where "w = (case get_vote rd (ve_addr v) (ve_type v) of None \<Rightarrow> fresh_vote | Some w \<Rightarrow> w)"
  let ?unk = "map_of (ar_votes rd) (ve_addr v) = None \<and> map_of (ar_roster rd) (ve_addr v) = None
         \<and> length (unknown_voters rd) \<ge> unknown_limit"
  consider (unknown) "?unk"
    | (dup) "\<not> ?unk" "list_ex (\<lambda>h. ih_hash h = ve_hash v) (iv_hashes w)"
    | (full) "\<not> ?unk" "\<not> list_ex (\<lambda>h. ih_hash h = ve_hash v) (iv_hashes w)" "length (iv_hashes w) \<ge> hash_limit"
    | (fresh) "\<not> ?unk" "\<not> list_ex (\<lambda>h. ih_hash h = ve_hash v) (iv_hashes w)" "\<not> length (iv_hashes w) \<ge> hash_limit"
    by metis
  then show ?thesis
  proof cases
    case unknown
    then have b1: "b1 = put_round (rd\<lparr>ar_truncated := True\<rparr>) (if ar_truncated rd then b else bump b)"
      by (simp add: b1_def record_vote_def)
    with rd1 have "rd1 = rd\<lparr>ar_truncated := True\<rparr>"
      using map_of_put_round [of "rd\<lparr>ar_truncated := True\<rparr>"] by simp
    then show ?thesis using unknown b1 by (simp add: record_vote_def)
  next
    case dup
    then have w': "get_vote rd (ve_addr v) (ve_type v) = Some w"
      by (auto simp: w_def fresh_vote_def split: option.splits)
    from record_vote_known [OF bi mem w' dup(2)] have "b1 = b" by (simp add: b1_def)
    with rd1 mem have "rd1 = rd" by simp
    with record_vote_known [OF bi mem w' dup(2)] \<open>b1 = b\<close> show ?thesis by simp
  next
    case full
    let ?w' = "w\<lparr>iv_truncated := True, iv_conflicting := True\<rparr>"
    let ?rd' = "(set_vote rd (ve_addr v) (ve_type v) ?w')\<lparr>ar_truncated := True\<rparr>"
    have "\<exists>b0. b1 = put_round ?rd' b0"
      using full by (auto simp: b1_def record_vote_def w_def [symmetric] Let_def)
    with rd1 have "rd1 = ?rd'" using map_of_put_round [of ?rd'] by auto
    then show ?thesis
      by (intro record_vote_full [OF bi1 mem1, of _ ?w'])
        (use full in \<open>auto simp: get_vote_set_vote\<close>)
  next
    case fresh
    let ?h = "\<lparr>ih_hash = ve_hash v, ih_first = n1, ih_last = n1,
        ih_signed = (if ve_timestamp v = 0 then None else Some (ve_timestamp v))\<rparr>"
    let ?w' = "w\<lparr>iv_hashes := iv_hashes w @ [?h], iv_conflicting := length (iv_hashes w @ [?h]) > 1\<rparr>"
    let ?rd' = "(set_vote rd (ve_addr v) (ve_type v) ?w')\<lparr>ar_last := n1\<rparr>"
    have "b1 = (put_round ?rd' (bump b))\<lparr>ah_last := n1\<rparr>"
      using fresh by (auto simp: b1_def record_vote_def w_def [symmetric] Let_def)
    with rd1 have "rd1 = ?rd'" using map_of_put_round [of ?rd'] by auto
    then show ?thesis
      by (intro record_vote_known [OF bi1 mem1, of _ ?w']) (auto simp: get_vote_set_vote)
  qed
qed

lemma create_archive_height_again:
  assumes inv: "archive_inv t" and det: "detector_bounded t"
    and step: "create_archive_height t h now = (t1, None)"
  shows "h \<le> 0 \<or> h \<le> tk_evicted_through t1"
proof (cases "h \<le> 0 \<or> h \<le> tk_evicted_through t")
  case True
  with step show ?thesis by (auto simp: create_archive_height_def)
next
  case False
  then have none: "block_at t h = None"
    using step by (auto simp: create_archive_height_def split: option.splits)
  note e = enter_height_inv [OF inv det _ _ none, of now]
  have at: "block_at (enter_height t h now) h \<noteq> None" by (simp add: enter_height_def map_of_gput)
  from step False none at have "t1 = evict_height (enter_height t h now) h" "block_at t1 h = None"
    by (auto simp: create_archive_height_def Let_def split: if_splits)
  then have "oldest_key h (gkeys (tk_archive (enter_height t h now))) = h"
    using at by (auto simp: evict_height_def Let_def map_of_gdel split: if_splits)
  with \<open>t1 = _\<close> show ?thesis by (simp add: evict_height_def Let_def)
qed

lemma archive_height_again:
  assumes "archive_inv t" and "detector_bounded t" and step: "archive_height t h n1 = (t1, o1)"
  shows "archive_height t1 h n2 = (t1, o1)"
proof (cases o1)
  case None
  show ?thesis
  proof (cases "h \<le> 0 \<or> h \<le> tk_evicted_through t \<or> block_at t h = None \<and> h \<le> tk_committed t")
    case True
    with step None show ?thesis by (auto simp: archive_height_def split: option.splits if_splits)
  next
    case False
    with step None have "create_archive_height t h n1 = (t1, None)"
      by (auto simp: archive_height_def split: option.splits)
    from create_archive_height_again [OF assms(1,2) this] None show ?thesis
      by (auto simp: archive_height_def)
  qed
next
  case (Some b)
  with step have b: "block_at t1 h = Some b" by (simp add: archive_height_block)
  have "archive_inv t1" using archive_height_inv assms by blast
  from archive_block [OF this b] b Some show ?thesis by (simp add: archive_height_def)
qed

lemma archive_height_present:
  "archive_inv t \<Longrightarrow> block_at t h = Some b \<Longrightarrow> archive_height t h now = (t, Some b)"
  using archive_block [of t h b] by (simp add: archive_height_def)

lemma archive_round_present:
  assumes "block_inv b" and "map_of (ah_rounds b) r = Some rd"
  shows "archive_round t b r now = (t, b, Some rd)"
proof -
  have "ah_evicted_through b < r" "0 \<le> ah_evicted b" "ah_evicted b \<le> ah_evicted_through b + 1"
    using assms gmap_all_lookup [OF _ assms(2)] by (auto simp: block_inv_def)
  then show ?thesis using assms(2) by (simp add: archive_round_def)
qed

lemma archive_round_again:
  assumes inv: "archive_inv t" and det: "detector_bounded t" and b: "block_at t (ah_height b) = Some b"
    and rnd: "r \<le> max_int32" and step: "archive_round t b r n1 = (t2, b2, None)"
  shows "archive_round t2 b2 r n2 = (t2, b2, None)"
proof (cases "r < 0 \<or> r \<le> ah_evicted_through b \<or> map_of (ah_rounds b) r = None
    \<and> (ah_committed b \<or> ah_height b \<le> tk_committed t)")
  case True
  with step show ?thesis by (auto simp: archive_round_def split: if_splits option.splits)
next
  case False
  with step have none: "map_of (ah_rounds b) r = None"
    by (auto simp: archive_round_def split: option.splits)
  have at: "map_of (ah_rounds (enter_round t b r n1)) r \<noteq> None"
    by (simp add: enter_round_def put_round_def new_round_def map_of_gput)
  from step False none at have b2: "b2 = evict_round (enter_round t b r n1) r" "map_of (ah_rounds b2) r = None"
    by (auto simp: archive_round_def Let_def split: if_splits)
  then have "r \<le> ah_evicted_through b2"
    using at by (auto simp: evict_round_def Let_def map_of_gdel split: if_splits)
  then show ?thesis by (simp add: archive_round_def)
qed

lemma put_block_same: "gmap_ok (tk_archive t) \<Longrightarrow> block_at t (ah_height b) = Some b \<Longrightarrow> put_block b t = t"
  by (simp add: put_block_def gput_present)

lemma observe_vote_again:
  assumes inv: "archive_inv t" and det: "detector_bounded t"
  shows "observe_vote (observe_vote t v n1) v n2 = observe_vote t v n1"
proof (cases "well_formed_vote v")
  case False
  then show ?thesis by (simp add: observe_vote_def)
next
  case wf: True
  obtain t1 o1 where s1: "archive_height t (ve_height v) n1 = (t1, o1)" by fastforce
  note i1 = archive_height_inv [OF inv det s1]
  show ?thesis
  proof (cases o1)
    case None
    with wf s1 archive_height_again [OF inv det s1, of n2] show ?thesis by (simp add: observe_vote_def)
  next
    case (Some b)
    with s1 have b: "block_at t1 (ve_height v) = Some b" by (simp add: archive_height_block)
    have hb: "ah_height b = ve_height v" using archive_block [OF i1(1) b] by simp
    obtain t2 b2 o2 where s2: "archive_round t1 b (ve_round v) n1 = (t2, b2, o2)" by (metis prod_cases3)
    have r: "ve_round v \<le> max_int32" using wf by (auto simp: well_formed_vote_def)
    note i2 = archive_round_inv [OF i1 _ r s2, unfolded hb, OF b]
    show ?thesis
    proof (cases o2)
      case None
      have "archive_height t2 (ve_height v) n2 = (t2, Some b2)"
        using archive_height_present [OF i2(1)] i2(3,4) by simp
      moreover have "archive_round t2 b2 (ve_round v) n2 = (t2, b2, None)"
        using archive_round_again [OF i1 _ r s2 [unfolded None]] b hb by simp
      ultimately show ?thesis using wf s1 s2 Some None by (simp add: observe_vote_def)
    next
      case o2: (Some rd)
      have mem: "map_of (ah_rounds b2) (ar_round rd) = Some rd" and rr: "ar_round rd = ve_round v"
        using i2(5) [OF o2] by simp_all
      have bi2: "block_inv b2" using archive_block [OF i2(1,3)] by simp
      let ?b3 = "record_vote b2 rd v n1"
      note rv = record_vote_inv [OF bi2 mem wf, of n1]
      let ?t3 = "put_block ?b3 t2"
      have t3: "observe_vote t v n1 = ?t3" using wf s1 s2 Some o2 by (simp add: observe_vote_def)
      have inv3: "archive_inv ?t3" using observe_vote_inv [OF inv det, of v n1] t3 by simp
      have at3: "block_at ?t3 (ve_height v) = Some ?b3" using rv(2) i2(4) by (simp add: block_at_put_block)
      from mem have "map_of (ah_rounds ?b3) (ve_round v) \<noteq> None"
        using rv(3) rr by (metis domIff domI gkeys_dom)
      then obtain rd3 where rd3: "map_of (ah_rounds ?b3) (ve_round v) = Some rd3" by blast
      have "record_vote ?b3 rd3 v n2 = ?b3" by (rule record_vote_again [OF bi2 mem wf]) (use rd3 rr in simp)
      moreover have "put_block ?b3 ?t3 = ?t3"
        by (rule put_block_same) (use inv3 at3 rv(2) i2(4) in \<open>auto simp: archive_inv_def\<close>)
      moreover note archive_height_present [OF inv3 at3, of n2] archive_round_present [OF rv(1) rd3, of ?t3 n2]
      ultimately show ?thesis using wf unfolding t3 by (simp add: observe_vote_def)
    qed
  qed
qed

lemma run_ops_append:
  "run_ops (xs @ ys) t =
     (case run_ops xs t of None \<Rightarrow> None
      | Some (t1, ks) \<Rightarrow> map_option (\<lambda>(t2, ks'). (t2, ks @ ks')) (run_ops ys t1))"
  by (induction xs arbitrary: t) (auto simp: option.map_comp comp_def map_option_case split: option.splits prod.splits)

section \<open>Sizes, and commits that return\<close>

lemma detector_size_inv:
  assumes "tracker_inv t"
  shows "int (length (tk_rounds t)) \<le> 256 * cf_history (tk_cfg t)"
proof -
  have inv: "archive_inv t" and det: "detector_bounded t" using assms by (simp_all add: tracker_inv_def)
  define R where "R h = {r. round_at t h r \<noteq> None}" for h
  let ?H = "fst ` set (tk_archive t)" and ?T = "{Prevote, Precommit}"
  let ?K = "(\<lambda>((h, r), ty). \<lparr>rk_height = h, rk_round = r, rk_type = ty\<rparr>) ` ((SIGMA h:?H. R h) \<times> ?T)"
  have R: "finite (R h) \<and> card (R h) \<le> 128" if "h \<in> ?H" for h
  proof -
    obtain b where b: "block_at t h = Some b" using \<open>h \<in> ?H\<close> by (auto simp: gkeys_dom)
    then have "R h = fst ` set (ah_rounds b)" by (auto simp: R_def round_at_def gkeys_dom)
    moreover have "card (fst ` set (ah_rounds b)) \<le> 128"
      using archive_block(4) [OF inv b] by (simp add: block_inv_def gmap_ok_card round_limit_def)
    ultimately show ?thesis by simp
  qed
  have fin: "finite (SIGMA h:?H. R h)" using R by (intro finite_SigmaI) auto
  have "card (SIGMA h:?H. R h) = (\<Sum>h \<in> ?H. card (R h))" using R by (intro card_SigmaI) auto
  also have "\<dots> \<le> (\<Sum>h \<in> ?H. 128)" using R by (intro sum_mono) auto
  also have "\<dots> = 128 * length (tk_archive t)"
    using inv by (simp add: archive_inv_def gmap_ok_card)
  finally have sig: "card (SIGMA h:?H. R h) \<le> 128 * length (tk_archive t)" .
  have "fst ` set (tk_rounds t) \<subseteq> ?K"
  proof
    fix k
    assume "k \<in> fst ` set (tk_rounds t)"
    then have "rk_type k \<in> ?T" "round_at t (rk_height k) (rk_round k) \<noteq> None"
      using det by (auto simp: detector_bounded_def gmap_all_def list_all_iff)
    moreover from this have "rk_height k \<in> ?H" by (auto simp: round_at_def gkeys_dom Option.bind_eq_Some_conv)
    ultimately show "k \<in> ?K"
      by (intro image_eqI [of _ _ "((rk_height k, rk_round k), rk_type k)"]) (auto simp: R_def)
  qed
  then have "card (fst ` set (tk_rounds t)) \<le> card ?K" by (rule card_mono [rotated]) (use fin in auto)
  also have "\<dots> \<le> card ((SIGMA h:?H. R h) \<times> ?T)" by (rule card_image_le) (use fin in auto)
  also have "\<dots> \<le> 256 * length (tk_archive t)"
    using sig card_insert_le_m1 [of 2 "{Precommit}" Prevote] by (simp add: card_cartesian_product)
  finally have "length (tk_rounds t) \<le> 256 * length (tk_archive t)"
    using gmap_ok_card [OF tracker_inv_ok [OF assms]] by simp
  with inv show ?thesis by (simp add: archive_inv_def)
qed

lemma keep_last_small:
  assumes "0 < limit" and "limit \<le> int64_max" and "int (length xs) \<le> int64_max"
  obtains ys where "keep_last limit xs = Some ys" "int (length ys) \<le> limit" "suffix ys xs"
    "length xs \<le> nat limit \<Longrightarrow> ys = xs"
proof (cases "int (length xs) > limit")
  case True
  then have i: "i64 (int (length xs) - limit) = int (length xs) - limit"
    using assms by (intro i64_id) (auto simp: int64_min_def int64_max_def)
  have "keep_last limit xs = Some (drop (nat (int (length xs) - limit)) xs)"
    using True assms by (simp add: keep_last_def i Let_def)
  then show thesis using that True assms(1) by (simp add: suffix_drop)
next
  case False
  then show thesis using that by (simp add: keep_last_def)
qed

definition history_ok :: "tracker \<Rightarrow> bool" where
  "history_ok t \<longleftrightarrow>
     cf_history (tk_cfg t) \<le> 18014398509481984 \<and> int (length (tk_history t)) \<le> 4 * cf_history (tk_cfg t)"

lemma resolved_reports_length: "length (resolved_reports t h hash) \<le> length (tk_rounds t)"
  by (simp add: resolved_reports_def)

lemma resolve_commit_returns:
  assumes inv: "tracker_inv t" and hist: "history_ok t"
  obtains t' rs where "resolve_commit t h hash now = Some (t', rs)" "history_ok t'"
proof -
  let ?c = "archive_commit t h hash now"
  have a: "archive_inv t" "detector_bounded t" using inv by (simp_all add: tracker_inv_def)
  note f = archive_commit_frame [OF a, of h hash now]
  have c: "tracker_inv ?c"
    using archive_commit_inv [OF a] live_inv_frame [OF f] inv by (simp add: tracker_inv_def)
  have same: "tk_cfg ?c = tk_cfg t" "tk_history ?c = tk_history t" using f by (simp_all add: archive_frame_def)
  let ?hs = "cf_history (tk_cfg t)"
  have hs: "0 < ?hs" "?hs \<le> 18014398509481984" "int (length (tk_history t)) \<le> 4 * ?hs"
    using a(1) hist by (simp_all add: archive_inv_def history_ok_def)
  let ?rs = "resolved_reports (advance_committed ?c h) h hash"
  have "int (length ?rs) \<le> 256 * ?hs"
    using resolved_reports_length [of "advance_committed ?c h" h hash] detector_size_inv [OF c] same by simp
  with hs have len: "int (length (tk_history t @ ?rs)) \<le> int64_max" by (simp add: int64_max_def)
  have lim: "i64 (?hs * 4) = 4 * ?hs" "0 < 4 * ?hs" "4 * ?hs \<le> int64_max"
    using hs i64_id [of "4 * ?hs"] by (auto simp: int64_min_def int64_max_def mult.commute)
  obtain ys where "keep_last (4 * ?hs) (tk_history t @ ?rs) = Some ys" "int (length ys) \<le> 4 * ?hs"
    using keep_last_small [OF lim(2,3) len] by metis
  then show thesis
    using that hs lim(1) by (simp add: resolve_commit_def Let_def same history_ok_def)
qed

lemma history_frame: "archive_frame t t' \<Longrightarrow> history_ok t \<Longrightarrow> history_ok t'"
  by (simp add: archive_frame_def history_ok_def)

lemma apply_op_returns:
  assumes inv: "tracker_inv t" and hist: "history_ok t"
  obtains t' ks where "apply_op op t = Some (t', ks)" "history_ok t'"
proof (cases op)
  case (ResolveCommit h hash now)
  with resolve_commit_returns [OF assms, of h hash now] that show thesis by fastforce
next
  case (IngestVote v now)
  have a: "archive_inv t" "detector_bounded t" using inv by (simp_all add: tracker_inv_def)
  obtain t1 rep b where i: "ingest_vote t v now = (t1, rep, b)" by (metis prod_cases3)
  then have "tk_history t1 = tk_history (observe_vote t v now)" "tk_cfg t1 = tk_cfg (observe_vote t v now)"
    by (auto simp: ingest_vote_eq Let_def split: if_splits)
  with history_frame [OF observe_vote_frame [OF a] hist] have "history_ok t1" by (simp add: history_ok_def)
  with i IngestVote that show thesis by simp
next
  case (SetValidators vs)
  then show thesis using that hist by (simp add: history_ok_def set_validators_def Let_def)
next
  case (MarkRoundAdvanced h r)
  have "history_ok (mark_round_advanced t h r)"
    using hist by (subst mark_round_advanced_rounds) (simp add: history_ok_def)
  then show thesis using that MarkRoundAdvanced by simp
next
  case (ObserveRound h r p now)
  have a: "archive_inv t" "detector_bounded t" using inv by (simp_all add: tracker_inv_def)
  show thesis using that ObserveRound history_frame [OF observe_round_frame [OF a] hist] by simp
next
  case (ObserveVote v now)
  have a: "archive_inv t" "detector_bounded t" using inv by (simp_all add: tracker_inv_def)
  show thesis using that ObserveVote history_frame [OF observe_vote_frame [OF a] hist] by simp
qed

lemma run_ops_returns:
  "tracker_inv t \<Longrightarrow> history_ok t \<Longrightarrow> \<exists>t' ks. run_ops ops t = Some (t', ks) \<and> history_ok t'"
proof (induction ops arbitrary: t)
  case Nil
  then show ?case by simp
next
  case (Cons op ops)
  obtain t1 k1 where op: "apply_op op t = Some (t1, k1)" "history_ok t1"
    using apply_op_returns [OF Cons.prems, of op] by metis
  from Cons.IH [OF apply_op_inv [OF Cons.prems(1) op(1)] op(2)] op(1) show ?case by auto
qed

section \<open>Iteration order\<close>

lemma filter_mset_list: "mset xs = mset ys \<Longrightarrow> mset (map f (filter P xs)) = mset (map f (filter P ys))"
  by (metis mset_filter mset_map)

lemma resolved_reports_order:
  assumes "detector_keyed t" and "mset rs = mset (tk_rounds t)"
  shows "resolved_reports (t\<lparr>tk_rounds := rs\<rparr>) h hash = resolved_reports t h hash"
  unfolding resolved_reports_def
proof (rule resolved_order.sort_order_irrelevant)
  show "mset (map (\<lambda>(k, rd). report_round (tk_cfg (t\<lparr>tk_rounds := rs\<rparr>)) (resolve_round h hash k rd))
         (filter (\<lambda>(k, rd). rk_height k = h \<and> \<not> rd_resolved rd) (tk_rounds (t\<lparr>tk_rounds := rs\<rparr>))))
      = mset (map (\<lambda>(k, rd). report_round (tk_cfg t) (resolve_round h hash k rd))
         (filter (\<lambda>(k, rd). rk_height k = h \<and> \<not> rd_resolved rd) (tk_rounds t)))"
    using filter_mset_list [OF assms(2)] by simp
  have st: "set rs = set (tk_rounds t)" using assms(2) by (metis set_mset_mset)
  have key: "rd_key rd = k" if "(k, rd) \<in> set (tk_rounds t)" for k rd
    using assms(1) that by (auto simp: detector_keyed_def gmap_all_def list_all_iff)
  have uniq: "rd = rd'" if "(k, rd) \<in> set (tk_rounds t)" "(k, rd') \<in> set (tk_rounds t)" for k rd rd'
    using assms(1) that by (auto simp: detector_keyed_def dest: eq_key_imp_eq_value)
  show "inj_on (\<lambda>r. (rr_round r, rr_type r))
      (set (map (\<lambda>(k, rd). report_round (tk_cfg (t\<lparr>tk_rounds := rs\<rparr>)) (resolve_round h hash k rd))
         (filter (\<lambda>(k, rd). rk_height k = h \<and> \<not> rd_resolved rd) (tk_rounds (t\<lparr>tk_rounds := rs\<rparr>)))))"
  proof (rule inj_onI, clarsimp simp: st)
    fix k rd k' rd'
    assume m: "(k, rd) \<in> set (tk_rounds t)" "(k', rd') \<in> set (tk_rounds t)" "rk_height k' = rk_height k"
      and eq: "rr_round (report_round (tk_cfg t) (resolve_round (rk_height k) hash k rd))
                 = rr_round (report_round (tk_cfg t) (resolve_round (rk_height k) hash k' rd'))"
        "rr_type (report_round (tk_cfg t) (resolve_round (rk_height k) hash k rd))
                 = rr_type (report_round (tk_cfg t) (resolve_round (rk_height k) hash k' rd'))"
    then have "rk_round k = rk_round k'" "rk_type k = rk_type k'"
      using key [OF m(1)] key [OF m(2)] by (simp_all add: report_round_def)
    with m(3) have "k = k'" by simp
    with uniq m show "report_round (tk_cfg t) (resolve_round (rk_height k) hash k rd)
        = report_round (tk_cfg t) (resolve_round (rk_height k) hash k' rd')" by blast
  qed
qed

lemma current_report_order:
  assumes "detector_keyed t" and "mset rs = mset (tk_rounds t)"
  shows "current_report (t\<lparr>tk_rounds := rs\<rparr>) = current_report t"
proof -
  have st: "set rs = set (tk_rounds t)" using assms(2) by (metis set_mset_mset)
  have key: "rd_key rd = k" if "(k, rd) \<in> set (tk_rounds t)" for k rd
    using assms(1) that by (auto simp: detector_keyed_def gmap_all_def list_all_iff)
  have uniq: "rd = rd'" if "(k, rd) \<in> set (tk_rounds t)" "(k, rd') \<in> set (tk_rounds t)" for k rd rd'
    using assms(1) that by (auto simp: detector_keyed_def dest: eq_key_imp_eq_value)
  have "sort_slice live_lt (map (\<lambda>(k, rd). report_round (tk_cfg t) rd) (filter (\<lambda>(k, rd). \<not> rd_resolved rd) rs))
      = sort_slice live_lt
          (map (\<lambda>(k, rd). report_round (tk_cfg t) rd) (filter (\<lambda>(k, rd). \<not> rd_resolved rd) (tk_rounds t)))"
  proof (rule live_order.sort_order_irrelevant)
    show "mset (map (\<lambda>(k, rd). report_round (tk_cfg t) rd) (filter (\<lambda>(k, rd). \<not> rd_resolved rd) rs))
        = mset (map (\<lambda>(k, rd). report_round (tk_cfg t) rd) (filter (\<lambda>(k, rd). \<not> rd_resolved rd) (tk_rounds t)))"
      by (rule filter_mset_list [OF assms(2)])
    show "inj_on (\<lambda>r. (rr_height r, rr_round r, rr_type r))
        (set (map (\<lambda>(k, rd). report_round (tk_cfg t) rd) (filter (\<lambda>(k, rd). \<not> rd_resolved rd) rs)))"
    proof (rule inj_onI, clarsimp simp: st)
      fix k rd k' rd'
      assume m: "(k, rd) \<in> set (tk_rounds t)" "(k', rd') \<in> set (tk_rounds t)"
        and eq: "rr_height (report_round (tk_cfg t) rd) = rr_height (report_round (tk_cfg t) rd')"
          "rr_round (report_round (tk_cfg t) rd) = rr_round (report_round (tk_cfg t) rd')"
          "rr_type (report_round (tk_cfg t) rd) = rr_type (report_round (tk_cfg t) rd')"
      then have "k = k'"
        using key [OF m(1)] key [OF m(2)] by (simp add: report_round_def)
      with uniq m show "report_round (tk_cfg t) rd = report_round (tk_cfg t) rd'" by blast
    qed
  qed
  then show ?thesis by (simp add: current_report_def Let_def)
qed

text \<open>The divergence of a round of a reachable tracker, by the hashes themselves.\<close>

lemma strong_hash_iff:
  "strong_hash cfg rd h \<longleftrightarrow>
     (\<exists>g. map_of (rd_groups rd) h = Some g \<and> h \<noteq> '''' \<and> gd_power g > 0
          \<and> voting_pct (rd_total_power rd) (gd_power g) \<ge> cf_threshold cfg)"
  by (auto simp: strong_hash_def split: option.splits)

text \<open>A detection, in terms of the round's counts.\<close>

lemma fires_two_thirds:
  assumes "fires cfg rd ty" and "0 \<le> rd_total_power rd" and "rd_total_power rd \<le> int64_max div 2"
  shows "0 < rd_total_power rd" "2 * rd_total_power rd < 3 * rd_voted_power rd"
proof -
  have "i64 (rd_total_power rd * 2) = rd_total_power rd * 2"
    using assms(2,3) by (intro i64_id) (auto simp: int64_min_def int64_max_def)
  moreover have "go_div (rd_total_power rd * 2) 3 = rd_total_power rd * 2 div 3"
    using assms(2) by (cases "rd_total_power rd = 0") (simp_all add: go_div_def)
  ultimately show "0 < rd_total_power rd" "2 * rd_total_power rd < 3 * rd_voted_power rd"
    using assms(1) by (auto simp: fires_def)
qed

end
