(* ===== verification/Tracker_Demo.thy ===== *)
theory Tracker_Demo
  imports Investigation_Facts
begin

text \<open>
  A small run of the tracker: three validators of equal power split their precommits of height 5
  between two blocks.  The witnesses of the tracker's properties are taken from it.
\<close>

definition demo_validator :: "string \<Rightarrow> string \<Rightarrow> validator_power" where
  "demo_validator addr moniker = \<lparr>vp_address = addr, vp_power = 10, vp_moniker = moniker\<rparr>"

definition demo_vote :: "string \<Rightarrow> string \<Rightarrow> vote_event" where
  "demo_vote addr hash =
     \<lparr>ve_height = 5, ve_round = 0, ve_type = Precommit, ve_addr = addr, ve_hash = hash, ve_timestamp = 0\<rparr>"

definition demo_set :: "validator_power list" where
  "demo_set = [demo_validator ''A'' ''alpha'', demo_validator ''B'' ''beta'', demo_validator ''C'' '''']"

definition demo_prefix :: "tracker_op list" where
  "demo_prefix = [SetValidators demo_set, IngestVote (demo_vote ''A'' ''x'') 1, IngestVote (demo_vote ''B'' ''y'') 2]"

definition demo_ops :: "tracker_op list" where
  "demo_ops = demo_prefix @ [IngestVote (demo_vote ''C'' ''x'') 3]"

definition demo_roster :: roster where
  "demo_roster = [(''A'', demo_validator ''A'' ''alpha''), (''B'', demo_validator ''B'' ''beta''),
                  (''C'', demo_validator ''C'' '''')]"

definition demo_key :: round_key where
  "demo_key = \<lparr>rk_height = 5, rk_round = 0, rk_type = Precommit\<rparr>"

definition demo_rd :: "bool \<Rightarrow> round_data" where
  "demo_rd full =
     \<lparr>rd_key = demo_key,
      rd_groups =
        [(''x'', \<lparr>gd_hash = ''x'', gd_power = (if full then 20 else 10),
                  gd_validators = (if full then [''A'', ''C''] else [''A'']), gd_monikers = [''alpha'']\<rparr>),
         (''y'', \<lparr>gd_hash = ''y'', gd_power = 10, gd_validators = [''B''], gd_monikers = [''beta'']\<rparr>)],
      rd_seen = (if full then {''A'', ''B'', ''C''} else {''A'', ''B''}),
      rd_total_power = 30, rd_voted_power = (if full then 30 else 20), rd_validators = demo_roster,
      rd_resolved = False, rd_canonical = '''', rd_committed = False, rd_advanced = False,
      rd_detected = full\<rparr>"

definition demo_inv_vote :: "string \<Rightarrow> gtime \<Rightarrow> phases" where
  "demo_inv_vote hash now =
     [(Precommit, \<lparr>iv_observed = True,
                   iv_hashes = [\<lparr>ih_hash = hash, ih_first = now, ih_last = now, ih_signed = None\<rparr>],
                   iv_conflicting = False, iv_truncated = False\<rparr>)]"

definition demo_round :: "bool \<Rightarrow> archived_round" where
  "demo_round full =
     \<lparr>ar_round = 0, ar_proposer = '''', ar_first = 1, ar_last = (if full then 3 else 2),
      ar_roster = demo_roster,
      ar_votes = [(''A'', demo_inv_vote ''x'' 1), (''B'', demo_inv_vote ''y'' 2)]
                 @ (if full then [(''C'', demo_inv_vote ''x'' 3)] else []),
      ar_truncated = False\<rparr>"

definition demo_block :: "bool \<Rightarrow> archived_height" where
  "demo_block full =
     \<lparr>ah_revision = (if full then 5 else 4), ah_height = 5, ah_rounds = [(0, demo_round full)], ah_first = 1,
      ah_last = (if full then 3 else 2), ah_committed = False, ah_canonical = '''', ah_first_round = 0,
      ah_last_round = 0, ah_observed = 1, ah_evicted = 0, ah_evicted_through = -1\<rparr>"

text \<open>The tracker before and after the third vote.\<close>

definition demo_tracker :: "bool \<Rightarrow> tracker" where
  "demo_tracker full =
     \<lparr>tk_cfg = default_config, tk_rounds = [(demo_key, demo_rd full)], tk_history = [],
      tk_validators = demo_roster, tk_total_power = 30, tk_committed = 0,
      tk_archive = [(5, demo_block full)], tk_evicted_through = 0, tk_latest = 5, tk_catalogue = 1\<rparr>"

lemma demo_prefix_run: "run_ops demo_prefix (new_tracker default_config) = Some (demo_tracker False, [])"
  by code_simp

lemma demo_last: "ingest_vote (demo_tracker False) (demo_vote ''C'' ''x'') 3
    = (demo_tracker True, report_round default_config (demo_rd True), True)"
  by code_simp

end
