(* ===== verification/Tracker_Props.thy ===== *)
theory Tracker_Props
  imports Tracker_Facts Tracker_Demo
begin

text \<open>
  The properties of the tracker, stated over every tracker a run of its interface can reach, each
  with a witness on the demonstration run.
\<close>

section \<open>The demonstration run\<close>

lemma demo_vote_key: "vote_key (demo_vote a h) = demo_key"
  by (simp add: vote_key_def demo_vote_def demo_key_def)

lemma demo_run: "run_ops demo_ops (new_tracker default_config) = Some (demo_tracker True, [demo_key])"
  by (simp add: demo_ops_def run_ops_append demo_prefix_run demo_last demo_vote_key)

lemma demo_last_run:
  "run_ops [IngestVote (demo_vote ''C'' ''x'') 3] (demo_tracker False) = Some (demo_tracker True, [demo_key])"
  by (simp add: demo_last demo_vote_key)

lemma demo_reachable: "reachable default_config (demo_tracker b)"
  using run_ops_new [OF demo_run] run_ops_new [OF demo_prefix_run] by (cases b) simp_all

lemma demo_inv: "tracker_inv (demo_tracker b)"
  by (rule reachable_inv [OF demo_reachable])

lemma demo_round_at: "map_of (tk_rounds (demo_tracker b)) demo_key = Some (demo_rd b)"
  by (simp add: demo_tracker_def)

lemma demo_block_at: "block_at (demo_tracker b) 5 = Some (demo_block b)"
  by (simp add: demo_tracker_def)

lemma demo_cfg: "cf_history default_config = 32" "tk_cfg (demo_tracker b) = default_config"
  by (simp_all add: default_config_def demo_tracker_def)

lemma new_tracker_cfg: "cf_history (tk_cfg (new_tracker cfg)) = (if cf_history cfg \<le> 0 then 32 else cf_history cfg)"
  by (simp add: new_tracker_def)

section \<open>Detections\<close>

text \<open>C1: over any sequence of calls the tracker fires at most one divergence detection for each
  (height, round, type), whatever the interleaving of votes, commits, validator updates, evictions
  and round advances.\<close>

theorem detection_once:
  assumes "run_ops ops (new_tracker cfg) = Some (t, ks)" and "list_all op_in_range ops"
    and "cf_history cfg \<le> int64_max"
  shows "distinct ks"
  using run_ops_detections [OF new_tracker_inv assms(1,2)] assms(3)
  by (simp add: new_tracker_cfg int64_max_def)

theorem detection_once_witness:
  "run_ops demo_ops (new_tracker default_config) = Some (demo_tracker True, [demo_key]) \<and> distinct [demo_key]"
proof -
  have "list_all op_in_range demo_ops" by (simp add: demo_ops_def demo_prefix_def)
  from detection_once [OF demo_run this] demo_run show ?thesis by (simp add: demo_cfg int64_max_def)
qed



text \<open>In every reachable tracker each voter of a live round is counted once, in one group; the
  groups' powers and the voted power are the 64-bit sums of the voters' powers in the validator set
  the round was weighed with.\<close>

theorem voters_counted_once:
  assumes "reachable cfg t" and "map_of (tk_rounds t) k = Some rd"
  shows "distinct (voters rd) \<and> set (voters rd) = rd_seen rd
         \<and> rd_voted_power rd = i64 (\<Sum>a \<leftarrow> voters rd. power_of (rd_validators rd) a)
         \<and> (\<forall>h g. map_of (rd_groups rd) h = Some g \<longrightarrow>
              gd_hash g = h \<and> gd_power g = i64 (\<Sum>a \<leftarrow> gd_validators g. power_of (rd_validators rd) a)
              \<and> length (gd_monikers g) \<le> 5)"
  using tracker_inv_round(2) [OF reachable_inv [OF assms(1)] assms(2)]
  by (auto simp: tally_inv_def group_inv_def dest!: gmap_all_lookup)

theorem voters_counted_once_witness:
  "distinct (voters (demo_rd True)) \<and> set (voters (demo_rd True)) = {''A'', ''B'', ''C''}"
  using voters_counted_once [OF demo_reachable demo_round_at, of True]
  by (simp add: demo_rd_def)

section \<open>Retention\<close>

text \<open>C9: the archive's memory is bounded in every reachable tracker: at most \<open>history_size\<close> heights,
  128 rounds a height, 64 unknown voters a round and four distinct hashes a validator and phase, with
  the conflict flag set exactly when more than one hash was seen; nothing at or below the eviction
  marks is retained.\<close>

theorem archive_bounded:
  assumes "reachable cfg t"
  shows "int (length (tk_archive t)) \<le> cf_history (tk_cfg t)
         \<and> (\<forall>h b. block_at t h = Some b \<longrightarrow>
              tk_evicted_through t < h \<and> length (ah_rounds b) \<le> 128
              \<and> (\<forall>r rd. map_of (ah_rounds b) r = Some rd \<longrightarrow>
                   ah_evicted_through b < r \<and> length (unknown_voters rd) \<le> 64
                   \<and> (\<forall>a ty w. get_vote rd a ty = Some w \<longrightarrow>
                        1 \<le> length (iv_hashes w) \<and> length (iv_hashes w) \<le> 4
                        \<and> distinct (map ih_hash (iv_hashes w))
                        \<and> (iv_conflicting w \<longleftrightarrow> 1 < length (iv_hashes w)))))"
proof -
  have inv: "archive_inv t" using reachable_inv [OF assms] by (simp add: tracker_inv_def)
  have "tk_evicted_through t < h \<and> length (ah_rounds b) \<le> 128
      \<and> (\<forall>r rd. map_of (ah_rounds b) r = Some rd \<longrightarrow>
           ah_evicted_through b < r \<and> length (unknown_voters rd) \<le> 64
           \<and> (\<forall>a ty w. get_vote rd a ty = Some w \<longrightarrow> 1 \<le> length (iv_hashes w) \<and> length (iv_hashes w) \<le> 4
                \<and> distinct (map ih_hash (iv_hashes w)) \<and> (iv_conflicting w \<longleftrightarrow> 1 < length (iv_hashes w))))"
    if b: "block_at t h = Some b" for h b
  proof -
    have bi: "tk_evicted_through t < h" "block_inv b" using archive_block [OF inv b] by simp_all
    have "ah_evicted_through b < r \<and> length (unknown_voters rd) \<le> 64
        \<and> (\<forall>a ty w. get_vote rd a ty = Some w \<longrightarrow> vote_inv w)" if rd: "map_of (ah_rounds b) r = Some rd" for r rd
    proof -
      have "ah_evicted_through b < r" "round_inv rd"
        using bi(2) gmap_all_lookup [OF _ rd] by (auto simp: block_inv_def)
      moreover from this have "length (unknown_voters rd) \<le> 64"
        by (simp add: round_inv_def unknown_limit_def)
      ultimately show ?thesis using get_vote_inv by blast
    qed
    with bi show ?thesis
      by (fastforce simp: block_inv_def round_limit_def vote_inv_def hash_limit_def Suc_le_eq)
  qed
  with inv show ?thesis by (simp add: archive_inv_def)
qed

theorem archive_bounded_witness: "int (length (tk_archive (demo_tracker True))) \<le> 32"
  using archive_bounded [OF demo_reachable, of True] by (simp add: demo_cfg)

text \<open>The live detector holds rounds only of heights and rounds the archive retains, so at most
  \<open>256 * history_size\<close> of them, even at a height that never commits.\<close>

theorem detector_size:
  assumes "reachable cfg t"
  shows "int (length (tk_rounds t)) \<le> 256 * cf_history (tk_cfg t)
         \<and> (\<forall>k rd. map_of (tk_rounds t) k = Some rd \<longrightarrow> round_at t (rk_height k) (rk_round k) \<noteq> None)"
  using detector_size_inv [OF reachable_inv [OF assms]] tracker_inv_round(5) [OF reachable_inv [OF assms]]
  by blast

theorem detector_size_witness: "int (length (tk_rounds (demo_tracker True))) \<le> 256 * 32"
  using detector_size [OF demo_reachable, of True] by (simp add: demo_cfg)

section \<open>Commits and the live view\<close>

text \<open>In every reachable tracker the live view shows only heights above the last committed one,
  in strictly increasing order of (height, round, type): nothing stays live after its commit.\<close>

theorem live_view_uncommitted:
  assumes "reachable cfg t"
  shows "(\<forall>r \<in> set (rp_live (current_report t)). tk_committed t < rr_height r)
         \<and> sorted_wrt (<) (map (\<lambda>r. (rr_height r, rr_round r, rr_type r)) (rp_live (current_report t)))"
proof -
  have inv: "tracker_inv t" by (rule reachable_inv [OF assms])
  have key: "rd_key rd = k \<and> (\<not> rd_resolved rd \<longrightarrow> tk_committed t < rk_height k)"
    if "(k, rd) \<in> set (tk_rounds t)" for k rd
    using that tracker_inv_round [OF inv] by (simp add: gmap_ok_in_iff [OF tracker_inv_ok [OF inv]])
  let ?xs = "filter (\<lambda>(k, rd). \<not> rd_resolved rd) (tk_rounds t)"
  let ?reps = "map (\<lambda>(k, rd). report_round (tk_cfg t) rd) ?xs"
  let ?key = "\<lambda>r. (rr_height r, rr_round r, rr_type r)"
  have live: "rp_live (current_report t) = sort_slice live_lt ?reps"
    by (simp add: current_report_def Let_def)
  have "map ?key ?reps = map (\<lambda>(k, rd). (rk_height k, rk_round k, rk_type k)) ?xs"
    using key by (auto simp: report_round_def)
  moreover have "distinct (map (\<lambda>(k, rd). (rk_height k, rk_round k, rk_type k)) ?xs)"
  proof -
    have "distinct (map fst ?xs)" using tracker_inv_ok [OF inv] by (simp add: distinct_map_filter)
    moreover have "inj_on (\<lambda>k. (rk_height k, rk_round k, rk_type k)) A" for A :: "round_key set"
      by (auto intro!: inj_onI round_key.equality)
    ultimately have "distinct (map (\<lambda>k. (rk_height k, rk_round k, rk_type k)) (map fst ?xs))"
      by (simp only: distinct_map)
    then show ?thesis by (simp add: comp_def case_prod_unfold)
  qed
  ultimately have "distinct (map ?key (sort_slice live_lt ?reps))"
    by (simp only: distinct_map_sort_slice)
  then have "sorted_wrt (<) (map ?key (sort_slice live_lt ?reps))"
    using live_order.sorted_result by (simp only: strict_sorted_iff)
  moreover have "tk_committed t < rr_height r" if "r \<in> set (sort_slice live_lt ?reps)" for r
    using that key by (auto simp: report_round_def)
  ultimately show ?thesis by (simp add: live)
qed

theorem live_view_uncommitted_witness:
  "list_all (\<lambda>r. 0 < rr_height r) (rp_live (current_report (demo_tracker True)))"
  using live_view_uncommitted [OF demo_reachable, of True] by (simp add: demo_tracker_def list_all_iff)

text \<open>For a history size of at most \<open>2^54\<close> no call of the tracker panics, over any run, and the
  resolved history stays within four times the history size.\<close>

theorem runs_return:
  assumes "0 < cf_history cfg" and "cf_history cfg \<le> 18014398509481984"
  shows "\<exists>t ks. run_ops ops (new_tracker cfg) = Some (t, ks)
           \<and> int (length (tk_history t)) \<le> 4 * cf_history cfg"
proof -
  have "history_ok (new_tracker cfg)" using assms by (simp add: history_ok_def new_tracker_def)
  from run_ops_returns [OF new_tracker_inv this]
  obtain t ks where r: "run_ops ops (new_tracker cfg) = Some (t, ks)" "history_ok t" by blast
  have "reachable cfg t" by (rule run_ops_new [OF r(1)])
  then have "tk_cfg t = tk_cfg (new_tracker cfg)"
    by (induction rule: reachable.induct) (use reachable_inv apply_op_cfg in \<open>auto, metis\<close>)
  with r assms show ?thesis by (auto simp: history_ok_def new_tracker_def)
qed

theorem runs_return_witness:
  "\<exists>t ks. run_ops [ResolveCommit 7 ''x'' 9] (new_tracker default_config) = Some (t, ks)
           \<and> int (length (tk_history t)) \<le> 4 * 32"
  using runs_return [of default_config "[ResolveCommit 7 ''x'' 9]"] by (simp add: demo_cfg)

text \<open>A history size of \<open>2^61\<close> wraps in \<open>HistorySize*4\<close>.\<close>

lemma huge_history:
  "resolve_commit (new_tracker \<lparr>cf_threshold = thr, cf_history = 2305843009213693952, cf_prevotes = p\<rparr>) h hash now
     = None"
proof -
  let ?t = "new_tracker \<lparr>cf_threshold = thr, cf_history = 2305843009213693952, cf_prevotes = p\<rparr>"
  have a: "archive_inv ?t" "detector_bounded ?t" using new_tracker_inv by (simp_all add: tracker_inv_def)
  note f = archive_commit_frame [OF a, of h hash now]
  have "tk_cfg (archive_commit ?t h hash now) = tk_cfg ?t" "tk_history (archive_commit ?t h hash now) = []"
    using f by (simp_all add: archive_frame_def new_tracker_def)
  moreover have "tk_rounds (archive_commit ?t h hash now) = []"
    using f by (auto simp: archive_frame_def new_tracker_def gfilter_def)
  ultimately show ?thesis
    by (simp add: resolve_commit_def Let_def resolved_reports_def sort_slice_def keep_last_def i64_def
        new_tracker_def)
qed

text \<open>The published report and the reports a commit resolves do not depend on the iteration order
  of the detector's maps.\<close>

theorem reports_order_irrelevant:
  assumes "reachable cfg t" and "mset rs = mset (tk_rounds t)"
  shows "current_report (t\<lparr>tk_rounds := rs\<rparr>) = current_report t
         \<and> resolved_reports (t\<lparr>tk_rounds := rs\<rparr>) h hash = resolved_reports t h hash
         \<and> (\<forall>k rd gs. map_of (tk_rounds t) k = Some rd \<longrightarrow> mset gs = mset (rd_groups rd) \<longrightarrow>
              report_round c (rd\<lparr>rd_groups := gs\<rparr>) = report_round c rd)"
proof -
  have inv: "tracker_inv t" by (rule reachable_inv [OF assms(1)])
  then have k: "detector_keyed t" by (simp add: tracker_inv_def detector_bounded_keyed)
  show ?thesis
    using current_report_order [OF k assms(2)] resolved_reports_order [OF k assms(2)]
      report_order_irrelevant [OF tally_keyed [OF tracker_inv_round(2) [OF inv]]]
    by blast
qed

theorem reports_order_irrelevant_witness:
  "report_round default_config ((demo_rd True)\<lparr>rd_groups := rev (rd_groups (demo_rd True))\<rparr>)
     = report_round default_config (demo_rd True)"
  using reports_order_irrelevant [OF demo_reachable [of True] refl, where c = default_config] demo_round_at [of True]
  by simp

section \<open>Evidence\<close>

text \<open>Identical deliveries are idempotent: observing the same vote again, at any later time,
  changes nothing at all, the observation times and the revision included.\<close>

theorem vote_delivery_idempotent:
  assumes "reachable cfg t"
  shows "observe_vote (observe_vote t v n1) v n2 = observe_vote t v n1"
  using observe_vote_again reachable_inv [OF assms] by (simp add: tracker_inv_def)

theorem vote_delivery_idempotent_witness:
  "observe_vote (observe_vote (demo_tracker True) (demo_vote ''A'' ''z'') 7) (demo_vote ''A'' ''z'') 9
     = observe_vote (demo_tracker True) (demo_vote ''A'' ''z'') 7"
  by (rule vote_delivery_idempotent [OF demo_reachable])

text \<open>C6: the revision of a retained height identifies its evidence.  Over any run of fewer than
  \<open>2^57\<close> calls, a height whose revision is unchanged is unchanged, so the body built from it is the
  same and a view cached under that revision is current.\<close>

theorem revision_identifies_evidence:
  assumes "reachable cfg t" and "run_ops ops t = Some (t', ks)" and "length ops < 144115188075855872"
    and "block_at t h = Some b" and "block_at t' h = Some b'" and "ah_revision b' = ah_revision b"
  shows "b' = b \<and> bi_rounds (block_investigation t' h n2 d2) = bi_rounds (block_investigation t h n1 d1)"
  using revision_same_block [OF reachable_inv [OF assms(1)] assms(2-6)] assms(4,5)
  by (simp add: block_investigation_def build_def capture_investigation_def Let_def)

theorem revision_identifies_evidence_witness:
  "bi_rounds (block_investigation (demo_tracker True) 5 2 0) = bi_rounds (block_investigation (demo_tracker True) 5 1 0)"
  using revision_identifies_evidence [OF demo_reachable, of "[]" True "demo_tracker True" "[]" 5] demo_block_at
  by simp

text \<open>C10: evidence is never rewritten.  Over any run a retained height keeps its first-seen time; once
  committed with a canonical hash it keeps both; each of its rounds is either evicted or keeps every
  hash seen from every validator, in the order of arrival, with the conflict and truncation flags.\<close>

theorem evidence_only_grows:
  assumes "reachable cfg t" and "run_ops ops t = Some (t', ks)" and "block_at t h = Some b"
  shows "h \<le> tk_evicted_through t'
         \<or> (\<exists>b'. block_at t' h = Some b' \<and> ah_first b' = ah_first b
              \<and> (ah_committed b \<longrightarrow> ah_committed b')
              \<and> (ah_committed b \<and> ah_canonical b \<noteq> '''' \<longrightarrow> ah_canonical b' = ah_canonical b)
              \<and> (\<forall>r rd. map_of (ah_rounds b) r = Some rd \<longrightarrow>
                   r \<le> ah_evicted_through b' \<or> (\<exists>rd'. map_of (ah_rounds b') r = Some rd' \<and> round_grows rd rd')))"
  using run_ops_grows [OF reachable_inv [OF assms(1)] assms(2)] assms(3)
  unfolding archive_grows_def block_grows_def by blast

theorem evidence_only_grows_witness:
  "5 \<le> tk_evicted_through (demo_tracker True)
   \<or> (\<exists>b'. block_at (demo_tracker True) 5 = Some b' \<and> ah_first b' = 1)"
  using evidence_only_grows [OF demo_reachable demo_last_run demo_block_at] by (auto simp: demo_block_def)

text \<open>A height the archive has evicted is reported as evicted ever after: it is not admitted
  again, whatever the node sends.\<close>

theorem evicted_stays_evicted:
  assumes "reachable cfg t" and "run_ops ops t = Some (t', ks)"
    and "bi_status (investigation_header t h) = ''evicted''"
  shows "bi_status (investigation_header t' h) = ''evicted'' \<and> \<not> bi_found (investigation_header t' h)
         \<and> av_evidence (investigation_version t' h) = 0"
proof -
  have h: "0 < h" "h \<le> tk_evicted_through t"
    using assms(3) by (auto simp: investigation_header_def not_observed_header_def Let_def
        split: option.splits if_splits)
  have "tk_evicted_through t \<le> tk_evicted_through t'"
    using run_ops_grows [OF reachable_inv [OF assms(1)] assms(2)] by (simp add: archive_grows_def)
  with h have ev: "h \<le> tk_evicted_through t'" by simp
  have "archive_inv t'"
    using reachable_inv [OF run_ops_reachable [OF assms(1,2)]] by (simp add: tracker_inv_def)
  then have "block_at t' h = None" using archive_block(2) [of t' h] ev by (cases "block_at t' h") auto
  with h(1) ev show ?thesis
    by (simp add: investigation_header_def investigation_version_def not_observed_header_def Let_def)
qed

definition evicting_ops :: "tracker_op list" where
  "evicting_ops = [ResolveCommit 1 ''x'' 1, ResolveCommit 2 ''y'' 2]"

definition tiny_config :: config where
  "tiny_config = \<lparr>cf_threshold = 5, cf_history = 1, cf_prevotes = False\<rparr>"

theorem evicted_stays_evicted_witness:
  "bi_status (investigation_header (fst (the (run_ops evicting_ops (new_tracker tiny_config)))) 1) = ''evicted''"
proof -
  obtain t ks where r: "run_ops evicting_ops (new_tracker tiny_config) = Some (t, ks)"
    and e: "bi_status (investigation_header t 1) = ''evicted''"
  proof -
    have "map_option (\<lambda>(t, ks). bi_status (investigation_header t 1))
        (run_ops evicting_ops (new_tracker tiny_config)) = Some ''evicted''"
      by code_simp
    then show thesis using that by (auto split: option.splits)
  qed
  have "run_ops [] t = Some (t, [])" by simp
  from evicted_stays_evicted [OF run_ops_new [OF r] this e] show ?thesis by (simp add: r)
qed

section \<open>The investigation view\<close>

text \<open>In every round of an investigation, for prevotes and precommits alike, the observed and the
  not-observed voting power add up to the round's total voting power.\<close>

theorem phase_power_partition:
  assumes "p = vr_prevotes (snapshot_round rd c m) \<or> p = vr_precommits (snapshot_round rd c m)"
  shows "\<exists>tot seen lost. vr_total (snapshot_round rd c m) = format_int tot
           \<and> ph_observed p = format_int seen \<and> ph_absent p = format_int lost
           \<and> tot = seen + lost \<and> 0 \<le> seen \<and> 0 \<le> lost"
  using phase_sums [OF assms] by metis

theorem phase_power_partition_witness:
  "ph_observed (vr_precommits (snapshot_round (demo_round False) '''' False)) = ''20''
   \<and> ph_absent (vr_precommits (snapshot_round (demo_round False) '''' False)) = ''10''
   \<and> (\<exists>tot seen lost. vr_total (snapshot_round (demo_round False) '''' False) = format_int tot
        \<and> ''20'' = format_int seen \<and> ''10'' = format_int lost \<and> tot = seen + lost)"
proof -
  have v: "ph_observed (vr_precommits (snapshot_round (demo_round False) '''' False)) = ''20''"
    "ph_absent (vr_precommits (snapshot_round (demo_round False) '''' False)) = ''10''"
    by code_simp code_simp
  from phase_power_partition [OF disjI2 [OF refl], of "demo_round False" "''''" False] show ?thesis
    unfolding v by blast
qed

text \<open>C14: the groups of a phase are exact: one group for each hash some validator signed, holding
  exactly its signers in address order and the sum of their powers, marked canonical only for the
  committed non-nil hash.\<close>

theorem phase_groups_are_signers:
  assumes "reachable cfg t" and "round_at t h r = Some rd"
    and "vs = vr_validators (snapshot_round rd c m)"
  shows "(g \<in> set (ph_groups (snapshot_phase vs k c m)) \<longleftrightarrow>
            (\<exists>hash. signers k hash vs \<noteq> []
               \<and> g = expected_group k c m vs (format_int (\<Sum>v \<leftarrow> signers k hash vs. row_power v)) hash))
         \<and> distinct (map pg_hash (ph_groups (snapshot_phase vs k c m)))
         \<and> sorted (map vv_address vs)"
proof -
  have inv: "archive_inv t" using reachable_inv [OF assms(1)] by (simp add: tracker_inv_def)
  obtain b where b: "block_at t h = Some b" "map_of (ah_rounds b) r = Some rd"
    using assms(2) by (auto simp: round_at_def Option.bind_eq_Some_conv)
  have "round_inv rd" using block_inv_round [OF archive_block(4) [OF inv b(1)] b(2)] by simp
  then have "\<forall>v \<in> set vs. distinct (map ih_hash (iv_hashes (vote_of k v)))"
    using snapshot_rows_voted assms(3) by blast
  moreover have "sorted (map vv_address vs)"
    unfolding assms(3) by (simp add: snapshot_round_def Let_def row_order.sorted_result)
  ultimately show ?thesis using phase_groups_exact by blast
qed

theorem phase_groups_are_signers_witness:
  "distinct (map pg_hash (ph_groups (snapshot_phase (vr_validators (snapshot_round (demo_round True) '''' False))
      Precommit '''' False)))"
proof -
  have "round_at (demo_tracker True) 5 0 = Some (demo_round True)"
    by (simp add: round_at_def demo_block_at) (simp add: demo_block_def)
  from phase_groups_are_signers [OF demo_reachable this refl] show ?thesis by blast
qed

text \<open>The coverage of a retained height is consistent: the rounds observed and the rounds missing
  make up exactly the rounds up to the last one observed, and neither count is negative or wraps.\<close>

theorem missing_rounds_exact:
  assumes "reachable cfg t" and "block_at t h = Some b" and "0 < ah_observed b"
  shows "co_missing (bi_coverage (investigation_header t h)) + co_observed (bi_coverage (investigation_header t h))
           = ah_last_round b + 1
         \<and> 0 \<le> co_missing (bi_coverage (investigation_header t h))
         \<and> co_last (bi_coverage (investigation_header t h)) = Some (ah_last_round b)"
proof -
  have "archive_inv t" using reachable_inv [OF assms(1)] by (simp add: tracker_inv_def)
  from coverage_missing [OF archive_block(4) [OF this assms(2)] assms(3)] assms(2,3) show ?thesis
    by (simp add: investigation_header_def Let_def coverage_of_def)
qed

theorem missing_rounds_exact_witness:
  "0 \<le> co_missing (bi_coverage (investigation_header (demo_tracker True) 5))"
  using missing_rounds_exact [OF demo_reachable demo_block_at, of True] by (simp add: demo_block_def)

text \<open>The view of a round does not depend on the iteration order of the roster and vote maps, and
  the rounds of a built investigation come in strictly increasing order.\<close>

theorem view_order_irrelevant:
  assumes "reachable cfg t"
  shows "(\<forall>rd rd'. same_round rd rd' \<longrightarrow> snapshot_round rd' c m = snapshot_round rd c m)
         \<and> sorted_wrt (<) (map vr_round (bi_rounds (block_investigation t h now lock)))"
proof -
  have "sorted_wrt (<) (map vr_round (sort_slice round_lt (block_rounds b)))" if b: "block_at t h = Some b" for b
  proof -
    have "archive_inv t" using reachable_inv [OF assms] by (simp add: tracker_inv_def)
    then have bi: "block_inv b" using archive_block(4) b by blast
    then have "map vr_round (block_rounds b) = gkeys (ah_rounds b)"
      by (auto simp: block_rounds_def snapshot_round_def Let_def block_inv_def gmap_all_def list_all_iff)
    then have "distinct (map vr_round (sort_slice round_lt (block_rounds b)))"
      using bi by (simp only: distinct_map_sort_slice block_inv_def)
    then show ?thesis using inv_round_order.sorted_result by (simp only: strict_sorted_iff)
  qed
  then show ?thesis
    using snapshot_round_order
    by (auto simp: block_investigation_def build_def capture_investigation_def Let_def investigation_version_def
        split: option.split)
qed

theorem view_order_irrelevant_witness:
  "snapshot_round ((demo_round True)\<lparr>ar_roster := rev demo_roster\<rparr>) '''' False = snapshot_round (demo_round True) '''' False"
proof -
  have "map_of (rev demo_roster) = map_of demo_roster"
    by (rule map_of_eqI) (auto simp: demo_roster_def)
  then have "same_round (demo_round True) ((demo_round True)\<lparr>ar_roster := rev demo_roster\<rparr>)"
    by (simp add: same_round_def demo_round_def get_vote_def)
  with view_order_irrelevant [OF demo_reachable [of True]] show ?thesis by blast
qed

end
