(* ===== verification/Dash_State.thy ===== *)
theory Dash_State
  imports Float64
begin

text \<open>
  The monitoring state of \<open>internal/state\<close>.  Pointers that may be nil are options, an
  \<open>error\<close> is the option of its text, \<open>*big.Int\<close> is \<open>int\<close>, and the deep copies of
  \<open>Snapshot\<close> are values.  The clock is an argument.
\<close>

section \<open>Votes and validators\<close>

datatype vote_kind = VoteAbsent | VoteForBlock | VoteNil | VoteZero

fun vote_kind_string :: "vote_kind \<Rightarrow> string" where
  "vote_kind_string VoteForBlock = ''voted''"
| "vote_kind_string VoteNil = ''nil''"
| "vote_kind_string VoteZero = ''zero''"
| "vote_kind_string VoteAbsent = ''absent''"

record vote =
  vo_kind :: vote_kind
  vo_hash :: string
  vo_timestamp :: gtime

definition zero_vote :: vote where
  "zero_vote = \<lparr>vo_kind = VoteAbsent, vo_hash = '''', vo_timestamp = 0\<rparr>"

record round_vote =
  rv_address :: string
  rv_prevote :: vote
  rv_precommit :: vote
  rv_proposer :: bool

definition zero_round_vote :: round_vote where
  "zero_round_vote = \<lparr>rv_address = '''', rv_prevote = zero_vote, rv_precommit = zero_vote, rv_proposer = False\<rparr>"

record validator =
  va_address :: string
  va_index :: int
  va_power :: int
  va_pct :: rat

record chain_validator =
  cv_operator :: string
  cv_cons_addr :: string
  cv_raw :: string
  cv_moniker :: string
  cv_jailed :: bool
  cv_active :: bool
  cv_commission :: string
  cv_assigned :: string

record validator_with_vote =
  row_validator :: validator
  row_vote :: round_vote
  row_chain :: "chain_validator option"

record round_view =
  vw_round :: int
  vw_rows :: "validator_with_vote list"
  vw_total :: int

section \<open>Chain, health and comparison\<close>

record upgrade =
  up_name :: string
  up_height :: int

record node_status =
  ns_network :: string
  ns_version :: string
  ns_app_version :: string
  ns_moniker :: string
  ns_our :: string
  ns_catching_up :: bool
  ns_latest :: int
  ns_latest_ts :: gtime

record health =
  he_mode :: string
  he_ws :: bool
  he_ws_endpoint :: string
  he_http_endpoint :: string
  he_event_at :: gtime
  he_http_at :: gtime
  he_success_at :: gtime
  he_error :: string
  he_stale_ms :: int

definition block_history_limit :: nat where
  "block_history_limit = 120"

record block_sample =
  bs_height :: int
  bs_time :: gtime
  bs_hash :: string
  bs_app_hash :: string
  bs_txs :: int
  bs_ms :: int

record endpoint_result =
  er_endpoint :: string
  er_status :: string
  er_chain :: string
  er_height :: int
  er_latest :: int
  er_app_hash :: string
  er_error :: string

record rpc_comparison =
  cmp_status :: string
  cmp_height :: int
  cmp_chain :: string
  cmp_checked :: gtime
  cmp_endpoints :: "endpoint_result list"

record state_data =
  sd_height :: int
  sd_round :: int
  sd_step :: int
  sd_start :: gtime
  sd_last_round :: "round_view option"
  sd_chain_validators :: "chain_validator list"
  sd_node_status :: "node_status option"
  sd_upgrade :: "upgrade option"
  sd_block_time :: duration
  sd_blocks :: "block_sample list"
  sd_health :: health
  sd_comparison :: rpc_comparison
  sd_validator_height :: int
  sd_consensus_error :: "string option"
  sd_validators_error :: "string option"
  sd_status_error :: "string option"
  sd_upgrade_error :: "string option"
  sd_committed :: int
  sd_active_rpc :: string
  sd_ws_connected :: bool
  sd_last_update :: gtime

definition new_state :: "gtime \<Rightarrow> gtime \<Rightarrow> state_data" where
  "new_state now1 now2 =
     \<lparr>sd_height = 0, sd_round = 0, sd_step = 0, sd_start = now1, sd_last_round = None,
      sd_chain_validators = [], sd_node_status = None, sd_upgrade = None, sd_block_time = 0,
      sd_blocks = [],
      sd_health = \<lparr>he_mode = ''unavailable'', he_ws = False, he_ws_endpoint = '''', he_http_endpoint = '''',
                   he_event_at = 0, he_http_at = 0, he_success_at = 0, he_error = '''', he_stale_ms = 30000\<rparr>,
      sd_comparison = \<lparr>cmp_status = ''not_configured'', cmp_height = 0, cmp_chain = '''', cmp_checked = 0,
                       cmp_endpoints = []\<rparr>,
      sd_validator_height = 0, sd_consensus_error = None, sd_validators_error = None,
      sd_status_error = None, sd_upgrade_error = None, sd_committed = 0, sd_active_rpc = '''',
      sd_ws_connected = False, sd_last_update = now2\<rparr>"

section \<open>\<open>Mutate\<close>, \<open>Snapshot\<close> and the mode\<close>

definition mutate :: "(state_data \<Rightarrow> state_data) \<Rightarrow> gtime \<Rightarrow> state_data \<Rightarrow> state_data" where
  "mutate f now s = (f s)\<lparr>sd_last_update := now\<rparr>"

text \<open>\<open>staleAfter\<close>: the configured duration, or 30 seconds when it is not positive (or wrapped).\<close>

definition stale_after :: "health \<Rightarrow> duration" where
  "stale_after h = (let d = i64 (he_stale_ms h * millisecond) in if d \<le> 0 then 30 * second else d)"

definition mode_at :: "health \<Rightarrow> gtime \<Rightarrow> string" where
  "mode_at h now =
     (if he_success_at h = 0 then ''unavailable''
      else if time_sub now (he_success_at h) > stale_after h then ''stale''
      else if he_ws h \<and> he_event_at h \<noteq> 0 \<and> time_sub now (he_event_at h) \<le> stale_after h then ''streaming''
      else if he_http_at h \<noteq> 0 \<and> time_sub now (he_http_at h) \<le> stale_after h then ''polling''
      else ''stale'')"

definition snapshot :: "state_data \<Rightarrow> gtime \<Rightarrow> state_data" where
  "snapshot s now = s\<lparr>sd_health := (sd_health s)\<lparr>he_mode := mode_at (sd_health s) now\<rparr>\<rparr>"

text \<open>The modes from worst to best.\<close>

definition mode_rank :: "string \<Rightarrow> nat" where
  "mode_rank m =
     (if m = ''streaming'' then 3 else if m = ''polling'' then 2 else if m = ''stale'' then 1 else 0)"

lemma time_sub_mono: "a \<le> b \<Longrightarrow> time_sub a c \<le> time_sub b c"
  by (auto simp: time_sub_def)

lemma mode_at_rank:
  "mode_rank (mode_at h now) =
     (if he_success_at h = 0 then 0
      else if time_sub now (he_success_at h) > stale_after h then 1
      else if he_ws h \<and> he_event_at h \<noteq> 0 \<and> time_sub now (he_event_at h) \<le> stale_after h then 3
      else if he_http_at h \<noteq> 0 \<and> time_sub now (he_http_at h) \<le> stale_after h then 2 else 1)"
  by (simp add: mode_at_def mode_rank_def)

lemma mode_decays_rank:
  assumes "now \<le> now'"
  shows "mode_rank (mode_at h now') \<le> mode_rank (mode_at h now)"
proof -
  have "time_sub now x \<le> time_sub now' x" for x by (rule time_sub_mono [OF assms])
  from this [of "he_success_at h"] this [of "he_event_at h"] this [of "he_http_at h"] show ?thesis
    unfolding mode_at_rank by auto
qed

end
