(* ===== verification/Transitions.thy ===== *)
theory Transitions
  imports Dash_State Tracker_State
begin

text \<open>
  The transitions of the dashboard state that every consensus input shares
  (\<open>internal/core/transitions.go\<close>, with \<open>clearRoundVotes\<close> and \<open>markProposer\<close> of
  \<open>orchestrator.go\<close>), and the invariant they keep.
\<close>

section \<open>Operations\<close>

definition clear_row :: "validator_with_vote \<Rightarrow> validator_with_vote" where
  "clear_row row =
     row\<lparr>row_vote := (row_vote row)\<lparr>rv_prevote := zero_vote, rv_precommit := zero_vote, rv_proposer := False\<rparr>\<rparr>"

definition clear_round_votes :: "round_view option \<Rightarrow> round_view option" where
  "clear_round_votes rv = map_option (\<lambda>v. v\<lparr>vw_rows := map clear_row (vw_rows v)\<rparr>) rv"

definition mark_proposer :: "string \<Rightarrow> round_view option \<Rightarrow> round_view option" where
  "mark_proposer addr rv =
     (if addr = '''' then rv
      else map_option (\<lambda>v. v\<lparr>vw_rows := map (\<lambda>row. row\<lparr>row_vote := (row_vote row)
             \<lparr>rv_proposer := (va_address (row_validator row) = addr)\<rparr>\<rparr>) (vw_rows v)\<rparr>) rv)"

definition advance_round :: "state_data \<Rightarrow> int \<Rightarrow> int \<Rightarrow> int \<Rightarrow> gtime \<Rightarrow> state_data \<times> bool" where
  "advance_round s height rnd step now =
     (if height \<le> sd_committed s \<or> height < sd_height s \<or> rnd < 0 \<or> rnd > max_int32 then (s, False)
      else if height = sd_height s \<and> rnd < sd_round s then (s, False)
      else if height \<noteq> sd_height s \<or> rnd \<noteq> sd_round s
      then (s\<lparr>sd_height := height, sd_round := rnd, sd_step := step, sd_start := now,
              sd_last_round := map_option (\<lambda>v. v\<lparr>vw_round := rnd\<rparr>) (clear_round_votes (sd_last_round s))\<rparr>,
            True)
      else if step > sd_step s then (s\<lparr>sd_step := step\<rparr>, True)
      else (s, True))"

text \<open>The votes already observed in the current round, by validator address: a later row wins.\<close>

definition previous_votes :: "state_data \<Rightarrow> (string, round_vote) gomap" where
  "previous_votes s =
     (case sd_last_round s of
        Some v \<Rightarrow> if vw_round v = sd_round s
                   then fold (\<lambda>row m. gput (va_address (row_validator row)) (row_vote row) m) (vw_rows v) []
                   else []
      | None \<Rightarrow> [])"

definition merge_validator_round ::
  "state_data \<Rightarrow> validator_with_vote list \<Rightarrow> int \<Rightarrow> int \<Rightarrow> state_data \<times> bool" where
  "merge_validator_round s rows tot height =
     (if height < sd_validator_height s then (s, False)
      else
        let previous = previous_votes s;
            keep = (\<lambda>row. let addr = va_address (row_validator row);
                              rv = (case map_of previous addr of Some rv \<Rightarrow> rv | None \<Rightarrow> zero_round_vote)
                          in row\<lparr>row_vote := rv\<lparr>rv_address := addr\<rparr>\<rparr>)
        in (s\<lparr>sd_last_round := Some \<lparr>vw_round = sd_round s, vw_rows = map keep rows, vw_total = tot\<rparr>,
              sd_validator_height := height\<rparr>, True))"

definition time_after :: "gtime \<Rightarrow> gtime \<Rightarrow> bool" where
  "time_after a b \<longleftrightarrow> a > b"

definition append_block :: "state_data \<Rightarrow> block_sample \<Rightarrow> state_data" where
  "append_block s sample =
     (let add = (\<lambda>b. let bs = sd_blocks s @ [b]
                     in s\<lparr>sd_blocks := (if length bs > block_history_limit
                                        then drop (length bs - block_history_limit) bs else bs)\<rparr>)
      in if sd_blocks s = [] then add sample
         else let prev = last (sd_blocks s)
              in if bs_height sample \<le> bs_height prev then s
                 else if bs_height sample = i64 (bs_height prev + 1) \<and> time_after (bs_time sample) (bs_time prev)
                 then add (sample\<lparr>bs_ms := go_div (time_sub (bs_time sample) (bs_time prev)) millisecond\<rparr>)
                 else add sample)"

definition record_http_success :: "state_data \<Rightarrow> string \<Rightarrow> gtime \<Rightarrow> state_data" where
  "record_http_success s endpoint now =
     s\<lparr>sd_active_rpc := endpoint,
       sd_health := (sd_health s)
         \<lparr>he_http_endpoint := endpoint, he_http_at := now, he_success_at := now,
          he_error := (if he_ws (sd_health s) then he_error (sd_health s) else '''')\<rparr>\<rparr>"

section \<open>The invariant\<close>

text \<open>
  The consensus position is above the last committed height unless there is none (height zero), the
  round view is the one of the current round, and the block history is strictly increasing and
  bounded.
\<close>

definition blocks_inv :: "block_sample list \<Rightarrow> bool" where
  "blocks_inv bs \<longleftrightarrow> sorted_wrt (\<lambda>a b. bs_height a < bs_height b) bs \<and> length bs \<le> 120"

definition dash_inv :: "state_data \<Rightarrow> bool" where
  "dash_inv s \<longleftrightarrow>
     (if sd_height s = 0 then sd_round s = 0 \<and> sd_step s = 0 else sd_committed s < sd_height s)
     \<and> 0 \<le> sd_committed s \<and> 0 \<le> sd_height s
     \<and> 0 \<le> sd_round s \<and> sd_round s \<le> max_int32
     \<and> (\<forall>v. sd_last_round s = Some v \<longrightarrow> vw_round v = sd_round s)
     \<and> blocks_inv (sd_blocks s)"

text \<open>The position of the dashboard: the next height when there is no active one.\<close>

definition position :: "state_data \<Rightarrow> int \<times> int" where
  "position s = (if sd_height s = 0 then (sd_committed s + 1, 0) else (sd_height s, sd_round s))"

lemma new_state_inv: "dash_inv (new_state n1 n2)"
  by (simp add: dash_inv_def new_state_def blocks_inv_def max_int32_def)

lemma advance_round_cases:
  assumes "advance_round s h r st now = (s', ok)"
  obtains (rejected) "\<not> ok" "s' = s"
  | (moved) ok "sd_committed s < h" "sd_height s \<le> h" "0 \<le> r" "r \<le> max_int32"
      "h \<noteq> sd_height s \<or> r \<noteq> sd_round s" "h = sd_height s \<Longrightarrow> sd_round s < r"
      "s' = s\<lparr>sd_height := h, sd_round := r, sd_step := st, sd_start := now,
              sd_last_round := map_option (\<lambda>v. v\<lparr>vw_round := r\<rparr>) (clear_round_votes (sd_last_round s))\<rparr>"
  | (same) ok "sd_committed s < h" "h = sd_height s" "r = sd_round s" "0 \<le> r" "r \<le> max_int32"
      "s' = s\<lparr>sd_step := max st (sd_step s)\<rparr>"
proof -
  have "sd_step s = max st (sd_step s) \<Longrightarrow> s\<lparr>sd_step := max st (sd_step s)\<rparr> = s" by simp
  with assms that show thesis
    unfolding advance_round_def by (fastforce split: if_splits simp: max_def)
qed

lemma position_mono_height:
  "dash_inv s \<Longrightarrow> sd_committed s < h \<Longrightarrow> sd_height s \<le> h \<Longrightarrow> 0 \<le> r \<Longrightarrow>
     (h = sd_height s \<Longrightarrow> sd_round s \<le> r) \<Longrightarrow> position s \<le> (h, r)"
  by (cases "h = sd_height s") (auto simp: dash_inv_def position_def split: if_splits)

lemma advance_round_inv:
  assumes inv: "dash_inv s" and step: "advance_round s h r st now = (s', ok)"
  shows "dash_inv s'" and "position s \<le> position s'"
    and "ok \<Longrightarrow> position s' = (h, r) \<and> sd_committed s < h \<and> sd_height s' = h \<and> sd_round s' = r"
    and "\<not> ok \<Longrightarrow> s' = s" and "sd_committed s' = sd_committed s" and "sd_blocks s' = sd_blocks s"
proof -
  have "dash_inv s' \<and> position s \<le> position s'
      \<and> (ok \<longrightarrow> position s' = (h, r) \<and> sd_committed s < h \<and> sd_height s' = h \<and> sd_round s' = r)
      \<and> (\<not> ok \<longrightarrow> s' = s) \<and> sd_committed s' = sd_committed s \<and> sd_blocks s' = sd_blocks s"
    using step
  proof (cases rule: advance_round_cases)
    case rejected
    with inv show ?thesis by simp
  next
    case moved
    have h: "0 < h" using inv moved(2) by (simp add: dash_inv_def)
    have "position s \<le> (h, r)"
      by (rule position_mono_height [OF inv moved(2,3,4)]) (use moved(7) in simp)
    moreover from h have "position s' = (h, r)" by (simp add: position_def moved(8))
    ultimately show ?thesis
      using inv moved h by (auto simp: dash_inv_def clear_round_votes_def)
  next
    case same
    have "0 < h" using inv same(2) by (simp add: dash_inv_def)
    with inv same show ?thesis by (auto simp: dash_inv_def position_def)
  qed
  then show "dash_inv s'" "position s \<le> position s'"
    "ok \<Longrightarrow> position s' = (h, r) \<and> sd_committed s < h \<and> sd_height s' = h \<and> sd_round s' = r"
    "\<not> ok \<Longrightarrow> s' = s" "sd_committed s' = sd_committed s" "sd_blocks s' = sd_blocks s"
    by auto
qed

lemma blocks_inv_add:
  assumes "blocks_inv bs" and "bs \<noteq> [] \<Longrightarrow> bs_height (last bs) < bs_height b"
  shows "blocks_inv (if length (bs @ [b]) > block_history_limit
           then drop (length (bs @ [b]) - block_history_limit) (bs @ [b]) else bs @ [b])"
proof -
  have "bs_height x < bs_height b" if "x \<in> set bs" for x
  proof -
    from that have ne: "bs \<noteq> []" by auto
    have "sorted_wrt (\<lambda>a b. bs_height a < bs_height b) (butlast bs @ [last bs])"
      using assms(1) ne by (simp add: blocks_inv_def)
    then have "\<forall>y \<in> set (butlast bs). bs_height y < bs_height (last bs)" by (simp add: sorted_wrt_append)
    moreover have "set bs = insert (last bs) (set (butlast bs))"
      using ne by (metis append_butlast_last_id list.set(1) list.set(2) set_append sup_bot.right_neutral Un_insert_right)
    ultimately show ?thesis using that assms(2) [OF ne] by fastforce
  qed
  with assms(1) have "sorted_wrt (\<lambda>a b. bs_height a < bs_height b) (bs @ [b])"
    by (simp add: blocks_inv_def sorted_wrt_append)
  with assms(1) show ?thesis
    using sorted_wrt_drop [of _ "bs @ [b]"] by (auto simp: blocks_inv_def block_history_limit_def simp del: drop_append)
qed

lemma append_block_frame:
  "append_block s b = s\<lparr>sd_blocks := sd_blocks (append_block s b)\<rparr>"
  by (simp add: append_block_def Let_def)

lemma append_block_inv: "blocks_inv (sd_blocks s) \<Longrightarrow> blocks_inv (sd_blocks (append_block s b))"
  using blocks_inv_add [of "sd_blocks s"] unfolding append_block_def Let_def
  by (cases "sd_blocks s = []") (auto simp del: length_append)

lemma append_block_dash: "dash_inv s \<Longrightarrow> dash_inv (append_block s b) \<and> position (append_block s b) = position s"
  using append_block_inv [of s b] by (subst (1 2) append_block_frame) (simp add: dash_inv_def position_def)

end
