(* ===== verification/Buffers.thy ===== *)
theory Buffers
  imports Prelude
begin

text \<open>
  Go channels as bounded queues, and the contract of the bounded buffers of the program that keep
  the newest values (the event bus's subscriptions, the log ring).
\<close>

section \<open>Channels\<close>

text \<open>A \<open>select\<close> with one channel case and a \<open>default\<close>.\<close>

definition chan_send :: "nat \<Rightarrow> 'e \<Rightarrow> 'e list \<Rightarrow> 'e list option" where
  "chan_send cap ev q = (if length q < cap then Some (q @ [ev]) else None)"

definition chan_recv :: "'e list \<Rightarrow> ('e \<times> 'e list) option" where
  "chan_recv q = (case q of [] \<Rightarrow> None | e # es \<Rightarrow> Some (e, es))"

section \<open>Buffers that keep the newest values\<close>

text \<open>
  While there is room a value is appended; when there is none the oldest value makes way.  \<open>ok\<close> is
  the representation invariant of the buffer.
\<close>

locale keeps_newest =
  fixes offer :: "'e \<Rightarrow> 'q \<Rightarrow> 'q"
    and contents :: "'q \<Rightarrow> 'e list"
    and room :: nat
    and ok :: "'q \<Rightarrow> bool"
  assumes room_pos: "0 < room"
    and ok_length: "ok q \<Longrightarrow> length (contents q) \<le> room"
    and ok_offer: "ok q \<Longrightarrow> ok (offer e q)"
    and offer_room: "ok q \<Longrightarrow> length (contents q) < room \<Longrightarrow> contents (offer e q) = contents q @ [e]"
    and offer_full: "ok q \<Longrightarrow> length (contents q) = room \<Longrightarrow> contents (offer e q) = tl (contents q) @ [e]"
begin

lemma offer_last: "ok q \<Longrightarrow> contents (offer e q) = drop (Suc (length (contents q)) - room) (contents q @ [e])"
proof (cases "length (contents q) < room")
  case True
  assume "ok q"
  from offer_room [OF this True] True show ?thesis by (simp add: Suc_leI)
next
  case False
  assume ok: "ok q"
  with False ok_length [OF ok] have full: "length (contents q) = room" by simp
  with room_pos have "contents q \<noteq> []" by auto
  with offer_full [OF ok full, of e] full show ?thesis by (cases "contents q") auto
qed

lemma offers_ok: "ok q \<Longrightarrow> ok (fold offer es q)"
  by (induction es arbitrary: q) (simp_all add: ok_offer)

text \<open>After any sequence of offers the buffer holds the newest values.\<close>

lemma offers_keep_newest:
  "ok q \<Longrightarrow> contents (fold offer es q) = drop (length (contents q) + length es - room) (contents q @ es)"
proof (induction es arbitrary: q)
  case Nil
  then show ?case using ok_length by simp
next
  case (Cons e es)
  note ih = Cons.IH [OF ok_offer [OF Cons.prems, of e]]
  show ?case
  proof (cases "length (contents q) < room")
    case True
    with ih offer_room [OF Cons.prems True, of e] show ?thesis by (simp del: drop_append)
  next
    case False
    with ok_length [OF Cons.prems] have full: "length (contents q) = room" by simp
    with room_pos obtain x xs where c: "contents q = x # xs" by (cases "contents q") auto
    from ih offer_full [OF Cons.prems full, of e] full show ?thesis
      by (auto simp: c algebra_simps simp del: drop_append)
  qed
qed

lemma offers_from_empty:
  "ok q \<Longrightarrow> contents q = [] \<Longrightarrow> contents (fold offer es q) = drop (length es - room) es"
  by (simp add: offers_keep_newest)

end

text \<open>A buffer that also counts what makes way.\<close>

locale newest_buffer = keeps_newest offer contents room ok
  for offer :: "'e \<Rightarrow> 'q \<Rightarrow> 'q" and contents :: "'q \<Rightarrow> 'e list" and room :: nat and ok :: "'q \<Rightarrow> bool" +
  fixes losses :: "'q \<Rightarrow> u64"
  assumes count_room: "ok q \<Longrightarrow> length (contents q) < room \<Longrightarrow> losses (offer e q) = losses q"
    and count_full: "ok q \<Longrightarrow> length (contents q) = room \<Longrightarrow> losses (offer e q) = losses q + 1"
begin

lemma offers_count_losses:
  "ok q \<Longrightarrow> losses (fold offer es q) = losses q + of_nat (length (contents q) + length es - room)"
proof (induction es arbitrary: q)
  case Nil
  then show ?case using ok_length by simp
next
  case (Cons e es)
  note ih = Cons.IH [OF ok_offer [OF Cons.prems, of e]]
  show ?case
  proof (cases "length (contents q) < room")
    case True
    with ih offer_room [OF Cons.prems True, of e] count_room [OF Cons.prems True, of e] show ?thesis by simp
  next
    case False
    with ok_length [OF Cons.prems] have full: "length (contents q) = room" by simp
    with room_pos obtain x xs where c: "contents q = x # xs" by (cases "contents q") auto
    with full have r: "room = Suc (length xs)" by simp
    from ih offer_full [OF Cons.prems full, of e] count_full [OF Cons.prems full, of e] show ?thesis
      by (simp add: c r)
  qed
qed

end

end
