(* ===== verification/Event_Bus.thy ===== *)
theory Event_Bus
  imports Dash_State Tracker_State Buffers
begin

text \<open>
  The in-process event bus (\<open>internal/events\<close>): the events and their kinds, subscriptions with
  bounded buffers, and the publisher that drops the oldest event of a full buffer.  A Go channel is
  the list of its buffered values, oldest first.
\<close>

section \<open>Events\<close>

datatype kind =
  KindNewBlock | KindNewBlockHeader | KindRoundChanged | KindVoteReceived | KindValidatorSetUpdated
| KindStatusUpdated | KindUpgradePlanUpdated | KindBlockTimeUpdated | KindDivergenceDetected
| KindDivergenceResolved | KindEndpointAppHashDivergence | KindConnectionLost | KindConnectionRestored
| KindError | KindLog

fun kind_code :: "kind \<Rightarrow> nat" where
  "kind_code KindNewBlock = 1"
| "kind_code KindNewBlockHeader = 2"
| "kind_code KindRoundChanged = 3"
| "kind_code KindVoteReceived = 4"
| "kind_code KindValidatorSetUpdated = 5"
| "kind_code KindStatusUpdated = 6"
| "kind_code KindUpgradePlanUpdated = 7"
| "kind_code KindBlockTimeUpdated = 8"
| "kind_code KindDivergenceDetected = 9"
| "kind_code KindDivergenceResolved = 10"
| "kind_code KindEndpointAppHashDivergence = 11"
| "kind_code KindConnectionLost = 12"
| "kind_code KindConnectionRestored = 13"
| "kind_code KindError = 14"
| "kind_code KindLog = 15"

fun kind_string :: "kind \<Rightarrow> string" where
  "kind_string KindNewBlock = ''new_block''"
| "kind_string KindNewBlockHeader = ''new_block_header''"
| "kind_string KindRoundChanged = ''round_changed''"
| "kind_string KindVoteReceived = ''vote_received''"
| "kind_string KindValidatorSetUpdated = ''validator_set_updated''"
| "kind_string KindStatusUpdated = ''status_updated''"
| "kind_string KindUpgradePlanUpdated = ''upgrade_plan_updated''"
| "kind_string KindBlockTimeUpdated = ''block_time_updated''"
| "kind_string KindDivergenceDetected = ''divergence_detected''"
| "kind_string KindDivergenceResolved = ''divergence_resolved''"
| "kind_string KindEndpointAppHashDivergence = ''endpoint_apphash_divergence''"
| "kind_string KindConnectionLost = ''connection_lost''"
| "kind_string KindConnectionRestored = ''connection_restored''"
| "kind_string KindError = ''error''"
| "kind_string KindLog = ''log''"

text \<open>Kinds are ordered by their codes, as the constants of the enumeration are.\<close>

lemma kind_code_inject: "kind_code a = kind_code b \<longleftrightarrow> a = b"
  by (cases a; cases b) simp_all

instantiation kind :: linorder
begin

definition less_eq_kind :: "kind \<Rightarrow> kind \<Rightarrow> bool" where
  "less_eq_kind a b \<longleftrightarrow> kind_code a \<le> kind_code b"

definition less_kind :: "kind \<Rightarrow> kind \<Rightarrow> bool" where
  "less_kind a b \<longleftrightarrow> kind_code a < kind_code b"

instance
  by standard (auto simp: less_eq_kind_def less_kind_def kind_code_inject)

end

record new_block_event =
  nb_height :: int
  nb_hash :: string
  nb_app_hash :: string
  nb_proposer :: string
  nb_time :: gtime
  nb_txs :: int

record round_changed =
  rc_height :: int
  rc_round :: int
  rc_step :: int
  rc_start :: gtime
  rc_proposer :: string

record vote_received =
  vc_height :: int
  vc_round :: int
  vc_type :: int
  vc_addr :: string
  vc_hash :: string
  vc_timestamp :: gtime

record status_updated =
  su_network :: string
  su_version :: string
  su_our :: string
  su_catching_up :: bool
  su_latest :: int

datatype event =
  EvNewBlock new_block_event
| EvRoundChanged round_changed
| EvVoteReceived vote_received
| EvValidatorSetUpdated int
| EvStatusUpdated status_updated
| EvUpgradePlanUpdated string int
| EvBlockTimeUpdated duration
| EvDivergenceDetected round_report
| EvDivergenceResolved round_report
| EvEndpointAppHashDivergence rpc_comparison
| EvConnectionLost string "string option"
| EvConnectionRestored string
| EvError string string
| EvLog string string gtime

fun event_kind :: "event \<Rightarrow> kind" where
  "event_kind (EvNewBlock e) = KindNewBlock"
| "event_kind (EvRoundChanged e) = KindRoundChanged"
| "event_kind (EvVoteReceived e) = KindVoteReceived"
| "event_kind (EvValidatorSetUpdated h) = KindValidatorSetUpdated"
| "event_kind (EvStatusUpdated e) = KindStatusUpdated"
| "event_kind (EvUpgradePlanUpdated n h) = KindUpgradePlanUpdated"
| "event_kind (EvBlockTimeUpdated d) = KindBlockTimeUpdated"
| "event_kind (EvDivergenceDetected r) = KindDivergenceDetected"
| "event_kind (EvDivergenceResolved r) = KindDivergenceResolved"
| "event_kind (EvEndpointAppHashDivergence r) = KindEndpointAppHashDivergence"
| "event_kind (EvConnectionLost e x) = KindConnectionLost"
| "event_kind (EvConnectionRestored e) = KindConnectionRestored"
| "event_kind (EvError s m) = KindError"
| "event_kind (EvLog l m n) = KindLog"

section \<open>The bus\<close>

record subscription =
  sb_queue :: "event list"
  sb_kinds :: "kind list"
  sb_dropped :: u64
  sb_name :: string

record bus =
  bu_subs :: "(u64, subscription) gomap"
  bu_next :: u64
  bu_cap :: nat

definition new_bus :: "int \<Rightarrow> bus" where
  "new_bus cap = \<lparr>bu_subs = [], bu_next = 0, bu_cap = nat (if cap \<le> 0 then 256 else cap)\<rparr>"

definition subscribe :: "string \<Rightarrow> kind list \<Rightarrow> bus \<Rightarrow> u64 \<times> bus" where
  "subscribe name kinds b =
     (bu_next b,
      b\<lparr>bu_subs := gput (bu_next b)
          \<lparr>sb_queue = [], sb_kinds = remdups kinds, sb_dropped = 0, sb_name = name\<rparr> (bu_subs b),
        bu_next := bu_next b + 1\<rparr>)"

definition cancel :: "u64 \<Rightarrow> bus \<Rightarrow> bus" where
  "cancel i b = (case map_of (bu_subs b) i of Some s \<Rightarrow> b\<lparr>bu_subs := gdel i (bu_subs b)\<rparr> | None \<Rightarrow> b)"

definition wants :: "subscription \<Rightarrow> event \<Rightarrow> bool" where
  "wants s ev \<longleftrightarrow> sb_kinds s = [] \<or> event_kind ev \<in> set (sb_kinds s)"

definition deliver :: "nat \<Rightarrow> event \<Rightarrow> subscription \<Rightarrow> subscription" where
  "deliver cap ev s =
     (case chan_send cap ev (sb_queue s) of
        Some q \<Rightarrow> s\<lparr>sb_queue := q\<rparr>
      | None \<Rightarrow>
          let q1 = (case chan_recv (sb_queue s) of Some (e, q) \<Rightarrow> q | None \<Rightarrow> sb_queue s)
          in (case chan_send cap ev q1 of
                Some q2 \<Rightarrow> s\<lparr>sb_queue := q2, sb_dropped := sb_dropped s + 1\<rparr>
              | None \<Rightarrow> s\<lparr>sb_queue := q1, sb_dropped := sb_dropped s + 1\<rparr>))"

definition publish :: "event \<Rightarrow> bus \<Rightarrow> bus" where
  "publish ev b =
     b\<lparr>bu_subs := gmap_vals (\<lambda>i s. if wants s ev then deliver (bu_cap b) ev s else s) (bu_subs b)\<rparr>"

definition receive :: "u64 \<Rightarrow> bus \<Rightarrow> event option \<times> bus" where
  "receive i b =
     (case map_of (bu_subs b) i of
        None \<Rightarrow> (None, b)
      | Some s \<Rightarrow> (case chan_recv (sb_queue s) of
                     None \<Rightarrow> (None, b)
                   | Some (e, q) \<Rightarrow> (Some e, b\<lparr>bu_subs := gput i (s\<lparr>sb_queue := q\<rparr>) (bu_subs b)\<rparr>)))"

definition bus_stats :: "bus \<Rightarrow> (string, u64) gomap" where
  "bus_stats b = fold (\<lambda>(i, s) m. gput (sb_name s) (sb_dropped s) m) (bu_subs b) []"

text \<open>A subscription's buffer meets the contract, for any positive capacity.\<close>

abbreviation fits :: "nat \<Rightarrow> subscription \<Rightarrow> bool" where
  "fits cap s \<equiv> length (sb_queue s) \<le> cap"

lemma deliver_room:
  "length (sb_queue s) < cap \<Longrightarrow>
     sb_queue (deliver cap e s) = sb_queue s @ [e] \<and> sb_dropped (deliver cap e s) = sb_dropped s"
  by (simp add: deliver_def chan_send_def)

lemma deliver_full:
  "length (sb_queue s) = cap \<Longrightarrow> 0 < cap \<Longrightarrow>
     sb_queue (deliver cap e s) = tl (sb_queue s) @ [e] \<and> sb_dropped (deliver cap e s) = sb_dropped s + 1"
  by (cases "sb_queue s") (auto simp: deliver_def chan_send_def chan_recv_def)

lemma deliver_newest_buffer: "0 < cap \<Longrightarrow> newest_buffer (deliver cap) sb_queue cap (fits cap) sb_dropped"
proof unfold_locales
  fix s :: subscription and e :: event
  assume "0 < cap" "fits cap s"
  then show "fits cap (deliver cap e s)"
    using deliver_room [of s cap e] deliver_full [of s cap e] by (cases "length (sb_queue s) < cap") auto
qed (simp_all add: deliver_room deliver_full)

interpretation default_subscription: newest_buffer "deliver 256" sb_queue 256 "fits 256" sb_dropped
  by (rule deliver_newest_buffer) simp

lemma deliver_frame [simp]:
  "sb_kinds (deliver cap ev s) = sb_kinds s" "sb_name (deliver cap ev s) = sb_name s"
  by (simp_all add: deliver_def Let_def split: option.splits)

text \<open>Publishing a sequence of events offers each subscriber those it wants, independently of the others.\<close>

lemma publish_all:
  "bu_subs (fold publish es b)
     = gmap_vals (\<lambda>i s. fold (deliver (bu_cap b)) (filter (wants s) es) s) (bu_subs b)
   \<and> bu_cap (fold publish es b) = bu_cap b \<and> bu_next (fold publish es b) = bu_next b"
proof (induction es arbitrary: b)
  case Nil
  then show ?case by (simp add: gmap_vals_def case_prod_unfold)
next
  case (Cons e es)
  have "wants (if wants s e then deliver (bu_cap b) e s else s) = wants s" for s
    by (simp add: wants_def fun_eq_iff)
  with Cons.IH [of "publish e b"] show ?case
    by (auto simp: publish_def gmap_vals_def case_prod_unfold)
qed

section \<open>The bus invariant\<close>

definition bus_inv :: "bus \<Rightarrow> bool" where
  "bus_inv b \<longleftrightarrow>
     0 < bu_cap b \<and> gmap_ok (bu_subs b)
     \<and> gmap_all (\<lambda>i s. length (sb_queue s) \<le> bu_cap b \<and> list_all (wants s) (sb_queue s)) (bu_subs b)"

lemma new_bus_inv: "bus_inv (new_bus cap)"
  by (simp add: bus_inv_def new_bus_def)

lemma subscribe_inv: "bus_inv b \<Longrightarrow> bus_inv (snd (subscribe name ks b))"
  by (auto simp: bus_inv_def subscribe_def intro!: inv_intro)

lemma cancel_inv: "bus_inv b \<Longrightarrow> bus_inv (cancel i b)"
  by (auto simp: bus_inv_def cancel_def intro!: inv_intro split: option.split)

lemma wants_queue_update [simp]: "wants (s\<lparr>sb_queue := q\<rparr>) = wants s"
  by (simp add: wants_def fun_eq_iff)

lemma receive_inv:
  assumes "bus_inv b"
  shows "bus_inv (snd (receive i b))"
proof (cases "map_of (bu_subs b) i")
  case (Some s)
  have "length (sb_queue s) \<le> bu_cap b \<and> list_all (wants s) (sb_queue s)"
    using assms gmap_all_lookup [OF _ Some] unfolding bus_inv_def by blast
  with assms Some show ?thesis
    by (auto simp: bus_inv_def receive_def chan_recv_def intro!: gmap_all_gput split: list.split)
qed (use assms in \<open>simp add: receive_def\<close>)

lemma deliver_inv:
  assumes "0 < cap" and "length (sb_queue s) \<le> cap" and "list_all (wants s) (sb_queue s)" and "wants s ev"
  shows "length (sb_queue (deliver cap ev s)) \<le> cap" "list_all (wants s) (sb_queue (deliver cap ev s))"
proof -
  note kn = newest_buffer.axioms(1) [OF deliver_newest_buffer [OF assms(1)]]
  note o = keeps_newest.offer_last [OF kn assms(2), of ev]
  show "length (sb_queue (deliver cap ev s)) \<le> cap"
    using keeps_newest.ok_offer [OF kn assms(2)] .
  show "list_all (wants s) (sb_queue (deliver cap ev s))"
    unfolding o using assms(3,4) by (auto simp: list_all_iff dest: in_set_dropD)
qed

lemma publish_inv: "bus_inv b \<Longrightarrow> bus_inv (publish ev b)"
proof -
  assume inv: "bus_inv b"
  have w: "wants (deliver c ev s) = wants s" for c s by (simp add: wants_def fun_eq_iff)
  have "gmap_all (\<lambda>i s. length (sb_queue s) \<le> bu_cap b \<and> list_all (wants s) (sb_queue s))
      (gmap_vals (\<lambda>i s. if wants s ev then deliver (bu_cap b) ev s else s) (bu_subs b))"
    using inv unfolding gmap_all_gmap_vals bus_inv_def
    by (elim conjE gmap_all_mono) (simp add: w deliver_inv)
  with inv show ?thesis by (simp add: bus_inv_def publish_def)
qed

section \<open>Concurrent publishers\<close>

text \<open>
  \<open>Publish\<close> holds a read lock, so publishers of the same subscription interleave between their
  \<open>select\<close>s.  A publisher is about to try its first send, to take the oldest value, or to send again;
  \<open>rs_lost\<close> counts the values that never reach the consumer.
\<close>

datatype 'e publisher = TrySend 'e | TakeOldest 'e | Resend 'e | Finished

record 'e race =
  rs_queue :: "'e list"
  rs_dropped :: nat
  rs_lost :: nat
  rs_delivered :: "'e list"
  rs_pubs :: "'e publisher list"

definition publisher_step :: "nat \<Rightarrow> nat \<Rightarrow> 'e race \<Rightarrow> 'e race" where
  "publisher_step cap i s =
     (if i < length (rs_pubs s)
      then case rs_pubs s ! i of
        TrySend e \<Rightarrow>
          (case chan_send cap e (rs_queue s) of
             Some q \<Rightarrow> s\<lparr>rs_queue := q, rs_pubs := (rs_pubs s)[i := Finished]\<rparr>
           | None \<Rightarrow> s\<lparr>rs_pubs := (rs_pubs s)[i := TakeOldest e]\<rparr>)
      | TakeOldest e \<Rightarrow>
          (case chan_recv (rs_queue s) of
             Some (x, q) \<Rightarrow> s\<lparr>rs_queue := q, rs_lost := rs_lost s + 1, rs_pubs := (rs_pubs s)[i := Resend e]\<rparr>
           | None \<Rightarrow> s\<lparr>rs_pubs := (rs_pubs s)[i := Resend e]\<rparr>)
      | Resend e \<Rightarrow>
          (case chan_send cap e (rs_queue s) of
             Some q \<Rightarrow> s\<lparr>rs_queue := q, rs_dropped := rs_dropped s + 1, rs_pubs := (rs_pubs s)[i := Finished]\<rparr>
           | None \<Rightarrow> s\<lparr>rs_lost := rs_lost s + 1, rs_dropped := rs_dropped s + 1,
                       rs_pubs := (rs_pubs s)[i := Finished]\<rparr>)
      | Finished \<Rightarrow> s
      else s)"

definition consumer_step :: "'e race \<Rightarrow> 'e race" where
  "consumer_step s =
     (case chan_recv (rs_queue s) of
        Some (x, q) \<Rightarrow> s\<lparr>rs_queue := q, rs_delivered := rs_delivered s @ [x]\<rparr>
      | None \<Rightarrow> s)"

inductive race_reach :: "nat \<Rightarrow> 'e race \<Rightarrow> 'e race \<Rightarrow> bool" for cap :: nat and s0 :: "'e race" where
  race_start: "race_reach cap s0 s0"
| race_publisher: "race_reach cap s0 s \<Longrightarrow> race_reach cap s0 (publisher_step cap i s)"
| race_consumer: "race_reach cap s0 s \<Longrightarrow> race_reach cap s0 (consumer_step s)"

definition fresh_race :: "'e list \<Rightarrow> 'e list \<Rightarrow> 'e race" where
  "fresh_race q es = \<lparr>rs_queue = q, rs_dropped = 0, rs_lost = 0, rs_delivered = [], rs_pubs = map TrySend es\<rparr>"

definition resending :: "'e race \<Rightarrow> nat" where
  "resending s = length (filter (\<lambda>p. case p of Resend e \<Rightarrow> True | _ \<Rightarrow> False) (rs_pubs s))"

lemma filter_update_count:
  "i < length ps \<Longrightarrow>
     length (filter P (ps[i := p])) + (if P (ps ! i) then 1 else 0) = length (filter P ps) + (if P p then 1 else 0)"
proof (induction ps arbitrary: i)
  case (Cons a ps)
  then show ?case by (cases i) auto
qed simp

lemma race_bound:
  assumes "race_reach cap s0 s" and "length (rs_queue s0) \<le> cap" and "s0 = fresh_race q es"
  shows "length (rs_queue s) \<le> cap \<and> rs_lost s \<le> 2 * rs_dropped s + resending s"
  using assms
proof (induction rule: race_reach.induct)
  case race_start
  then show ?case by (simp add: fresh_race_def)
next
  case (race_consumer s)
  then show ?case by (auto simp: consumer_step_def chan_recv_def resending_def split: list.splits option.splits)
next
  case (race_publisher s i)
  show ?case
  proof (cases "i < length (rs_pubs s)")
    case False
    with race_publisher show ?thesis by (simp add: publisher_step_def)
  next
    case True
    note upd = filter_update_count [OF True, of "\<lambda>p. case p of Resend e \<Rightarrow> True | _ \<Rightarrow> False"]
    from race_publisher True show ?thesis
      using upd [of Finished] upd [of "TakeOldest e" for e] upd [of "Resend e" for e]
      by (cases "rs_pubs s ! i")
        (auto simp: publisher_step_def resending_def chan_send_def chan_recv_def split: list.splits option.splits)
  qed
qed

end
