(* ===== verification/Text.thy ===== *)
theory Text
  imports Decimal
begin

text \<open>
  The string functions of Go's standard library that the program uses.  Case mapping is the ASCII
  one: the addresses and hashes it is applied to are hexadecimal text, and bytes outside the letters
  are left alone.  A byte slice is the string of its bytes.
\<close>

section \<open>Case\<close>

definition upper_char :: "char \<Rightarrow> char" where
  "upper_char c = (if CHR ''a'' \<le> c \<and> c \<le> CHR ''z'' then char_of (of_char c - 32 :: nat) else c)"

definition lower_char :: "char \<Rightarrow> char" where
  "lower_char c = (if CHR ''A'' \<le> c \<and> c \<le> CHR ''Z'' then char_of (of_char c + 32 :: nat) else c)"

definition to_upper :: "string \<Rightarrow> string" where
  "to_upper s = map upper_char s"

definition to_lower :: "string \<Rightarrow> string" where
  "to_lower s = map lower_char s"

lemma to_lower_empty [simp]: "to_lower s = '''' \<longleftrightarrow> s = ''''"
  by (simp add: to_lower_def)

lemma to_upper_empty [simp]: "to_upper s = '''' \<longleftrightarrow> s = ''''"
  by (simp add: to_upper_def)

section \<open>Hexadecimal\<close>

definition hex_digit :: "nat \<Rightarrow> char" where
  "hex_digit d = (if d < 10 then char_of (48 + d) else char_of (87 + d))"

definition hex_byte :: "char \<Rightarrow> string" where
  "hex_byte c = [hex_digit (of_char c div 16), hex_digit (of_char c mod 16)]"

definition hex_encode :: "string \<Rightarrow> string" where
  "hex_encode bs = concat (map hex_byte bs)"

lemma hex_digit_inject:
  assumes "a < 16" and "b < 16" and "hex_digit a = hex_digit b"
  shows "a = b"
proof -
  have v: "of_char (hex_digit d) = (if d < 10 then 48 + d else 87 + d)" if "d < 16" for d :: nat
    using that by (simp add: hex_digit_def)
  from assms(3) have "of_char (hex_digit a) = (of_char (hex_digit b) :: nat)" by simp
  with v [OF assms(1)] v [OF assms(2)] show ?thesis by (auto split: if_splits)
qed

lemma hex_byte_inject: "hex_byte a = hex_byte b \<longleftrightarrow> a = b"
proof
  assume "hex_byte a = hex_byte b"
  then have "hex_digit (of_char a div 16) = hex_digit (of_char b div 16)"
    "hex_digit (of_char a mod 16) = hex_digit (of_char b mod 16)"
    by (simp_all add: hex_byte_def)
  moreover have "of_char c < (256 :: nat)" for c
    by (rule nat_of_char_less_256)
  then have "of_char c div 16 < (16 :: nat)" for c by (simp add: less_mult_imp_div_less)
  ultimately have "of_char a div 16 = (of_char b div 16 :: nat)" "of_char a mod 16 = (of_char b mod 16 :: nat)"
    using hex_digit_inject by (simp_all add: hex_digit_inject)
  then have "of_char a = (of_char b :: nat)" by (metis div_mult_mod_eq)
  then show "a = b" by simp
qed simp

lemma hex_encode_inject: "hex_encode a = hex_encode b \<longleftrightarrow> a = b"
proof (induction a arbitrary: b)
  case Nil
  show ?case by (cases b) (simp_all add: hex_encode_def hex_byte_def)
next
  case (Cons x xs)
  show ?case
  proof (cases b)
    case Nil
    then show ?thesis by (simp add: hex_encode_def hex_byte_def)
  next
    case (Cons y ys)
    have "length (hex_byte x) = length (hex_byte y)" by (simp add: hex_byte_def)
    then show ?thesis
      using Cons.IH [of ys] \<open>b = y # ys\<close> hex_byte_inject by (simp add: hex_encode_def append_eq_append_conv)
  qed
qed

section \<open>Splitting and quoting\<close>

text \<open>\<open>strings.Split\<close> with a separator of one byte.\<close>

fun split_on :: "char \<Rightarrow> string \<Rightarrow> string list" where
  "split_on sep [] = ['''']"
| "split_on sep (c # s) =
     (if c = sep then '''' # split_on sep s
      else case split_on sep s of [] \<Rightarrow> [[c]] | p # ps \<Rightarrow> (c # p) # ps)"

lemma split_on_nonempty: "split_on sep s \<noteq> []"
  by (induction s) (auto split: list.split)

text \<open>\<open>strings.Join\<close>, the inverse.\<close>

fun join_on :: "char \<Rightarrow> string list \<Rightarrow> string" where
  "join_on sep [] = ''''"
| "join_on sep [p] = p"
| "join_on sep (p # q # ps) = p @ sep # join_on sep (q # ps)"

lemma join_split: "join_on sep (split_on sep s) = s"
proof (induction s)
  case (Cons c s)
  obtain p ps where p: "split_on sep s = p # ps" using split_on_nonempty [of sep s] by (cases "split_on sep s") auto
  with Cons show ?case by (cases ps) auto
qed simp

lemma split_on_free: "c \<notin> set s \<Longrightarrow> split_on c s = [s]"
  by (induction s) auto

lemma split_on_append: "split_on c (s @ c # s') = split_on c s @ split_on c s'"
proof (induction s)
  case (Cons x s)
  obtain p ps where "split_on c s = p # ps" using split_on_nonempty [of c s] by (cases "split_on c s") auto
  with Cons show ?case by simp
qed simp

lemma split_join: "ps \<noteq> [] \<Longrightarrow> list_all (\<lambda>p. c \<notin> set p) ps \<Longrightarrow> split_on c (join_on c ps) = ps"
  by (induction c ps rule: join_on.induct) (simp_all add: split_on_free split_on_append)

text \<open>\<open>strings.TrimSpace\<close>, for ASCII text.\<close>

definition is_space :: "char \<Rightarrow> bool" where
  "is_space c \<longleftrightarrow> of_char c \<in> {9, 10, 11, 12, 13, 32 :: nat}"

definition trim_space :: "string \<Rightarrow> string" where
  "trim_space s = rev (dropWhile is_space (rev (dropWhile is_space s)))"

text \<open>\<open>%q\<close>: a double-quoted Go string.  Printable bytes are kept, others are escaped.\<close>

definition quote_char :: "char \<Rightarrow> string" where
  "quote_char c =
     (let n = of_char c :: nat
      in if n = 34 then [char_of (92 :: nat), c]
         else if n = 92 then [c, c]
         else if n = 10 then [char_of (92 :: nat), CHR ''n'']
         else if n = 13 then [char_of (92 :: nat), CHR ''r'']
         else if n = 9 then [char_of (92 :: nat), CHR ''t'']
         else if n = 7 then [char_of (92 :: nat), CHR ''a'']
         else if n = 8 then [char_of (92 :: nat), CHR ''b'']
         else if n = 11 then [char_of (92 :: nat), CHR ''v'']
         else if n = 12 then [char_of (92 :: nat), CHR ''f'']
         else if n < 32 \<or> n = 127 then [char_of (92 :: nat), CHR ''x''] @ hex_byte c
         else [c])"

definition go_quote :: "string \<Rightarrow> string" where
  "go_quote s = [char_of (34 :: nat)] @ concat (map quote_char s) @ [char_of (34 :: nat)]"

end
