(* ===== verification/Orchestrator.thy ===== *)
theory Orchestrator
  imports Transitions Event_Bus Text Tracker_Facts
begin

text \<open>
  The orchestrator of \<open>internal/core/orchestrator.go\<close>: the handlers of the node's WebSocket
  events and of the HTTP polls, each as a function on the orchestrator's state.  What the node or
  the chain client answers is an argument; \<open>now\<close> is the clock.  A result \<open>None\<close> is a panic,
  and the text of an error is part of the result where the code returns one.
\<close>

section \<open>State\<close>

text \<open>
  \<open>oc_refresh\<close> is the one-place channel \<open>validatorRefresh\<close>; \<open>oc_published\<close> is the ghost
  trace of everything handed to \<open>Publish\<close>.
\<close>

record orchestrator =
  oc_state :: state_data
  oc_tracker :: tracker
  oc_bus :: bus
  oc_refresh :: bool
  oc_published :: "event list"

definition emit :: "event \<Rightarrow> orchestrator \<Rightarrow> orchestrator" where
  "emit ev oc = oc\<lparr>oc_bus := publish ev (oc_bus oc), oc_published := oc_published oc @ [ev]\<rparr>"

definition on_state :: "(state_data \<Rightarrow> state_data) \<Rightarrow> gtime \<Rightarrow> orchestrator \<Rightarrow> orchestrator" where
  "on_state f now oc = oc\<lparr>oc_state := mutate f now (oc_state oc)\<rparr>"

text \<open>A mutation that also sets a local variable of the handler.\<close>

definition on_state_with ::
  "(state_data \<Rightarrow> state_data \<times> 'r) \<Rightarrow> gtime \<Rightarrow> orchestrator \<Rightarrow> orchestrator \<times> 'r" where
  "on_state_with f now oc =
     (let (s, r) = f (oc_state oc) in (oc\<lparr>oc_state := s\<lparr>sd_last_update := now\<rparr>\<rparr>, r))"

section \<open>WebSocket events\<close>

record ws_block =
  wb_height :: int
  wb_time :: gtime
  wb_proposer :: string
  wb_app_hash :: string
  wb_txs :: int
  wb_hash :: string

record ws_round =
  wr_height :: int
  wr_round :: int
  wr_step :: string
  wr_proposer :: string

record ws_vote =
  wv_type :: int
  wv_height :: int
  wv_round :: int
  wv_hash :: string
  wv_timestamp :: gtime
  wv_addr :: string

datatype ws_event =
  WsNewBlock ws_block
| WsNewRound ws_round
| WsVote ws_vote
| WsValidatorSetUpdates
| WsOther

definition step_from_string :: "string \<Rightarrow> int" where
  "step_from_string s =
     (if s = ''RoundStepNewHeight'' then 1
      else if s = ''RoundStepNewRound'' then 2
      else if s = ''RoundStepPropose'' then 3
      else if s = ''RoundStepPrevote'' then 4
      else if s = ''RoundStepPrevoteWait'' then 5
      else if s = ''RoundStepPrecommit'' then 6
      else if s = ''RoundStepPrecommitWait'' then 7
      else if s = ''RoundStepCommit'' then 8
      else 0)"

definition accept_block :: "int \<Rightarrow> block_sample \<Rightarrow> gtime \<Rightarrow> state_data \<Rightarrow> state_data \<times> bool" where
  "accept_block h sample now s =
     (if h < sd_committed s then (s, False)
      else if list_ex (\<lambda>b. bs_height b = h) (sd_blocks s) then (s, False)
      else
        let s1 = (if h > sd_committed s then s\<lparr>sd_committed := h\<rparr> else s);
            s2 = append_block s1 sample
        in (fst (advance_round s2 (i64 (h + 1)) 0 1 now), True))"

definition publish_resolved :: "round_report list \<Rightarrow> orchestrator \<Rightarrow> orchestrator" where
  "publish_resolved rs oc = fold (\<lambda>r oc. if rr_divergent r then emit (EvDivergenceResolved r) oc else oc) rs oc"

definition handle_new_block :: "ws_block \<Rightarrow> gtime \<Rightarrow> orchestrator \<Rightarrow> orchestrator option" where
  "handle_new_block d now oc =
     (let h = wb_height d; hash = to_lower (wb_hash d); app = to_lower (wb_app_hash d)
      in if h \<le> 0 then Some oc
         else
           let (oc1, accepted) = on_state_with (accept_block h
                 \<lparr>bs_height = h, bs_time = wb_time d, bs_hash = hash, bs_app_hash = app, bs_txs = wb_txs d, bs_ms = 0\<rparr>
                 now) now oc
           in if \<not> accepted then Some oc1
              else case resolve_commit (oc_tracker oc1) h hash now of
                None \<Rightarrow> None
              | Some (t, resolved) \<Rightarrow>
                  Some (publish_resolved resolved
                    (emit (EvNewBlock \<lparr>nb_height = h, nb_hash = hash, nb_app_hash = app,
                                       nb_proposer = to_upper (wb_proposer d), nb_time = wb_time d,
                                       nb_txs = wb_txs d\<rparr>)
                      (oc1\<lparr>oc_tracker := t\<rparr>))))"

definition enter_new_round ::
  "int \<Rightarrow> int \<Rightarrow> int \<Rightarrow> string \<Rightarrow> gtime \<Rightarrow> state_data \<Rightarrow> state_data \<times> gtime option" where
  "enter_new_round h r step proposer now s =
     (case advance_round s h r step now of
        (s1, False) \<Rightarrow> (s1, None)
      | (s1, True) \<Rightarrow>
          (s1\<lparr>sd_last_round := mark_proposer proposer (sd_last_round s1)\<rparr>, Some (sd_start s1)))"

definition handle_new_round :: "ws_round \<Rightarrow> gtime \<Rightarrow> orchestrator \<Rightarrow> orchestrator" where
  "handle_new_round d now oc =
     (let h = wr_height d; r = wr_round d; step = step_from_string (wr_step d);
          proposer = to_upper (wr_proposer d)
      in case on_state_with (enter_new_round h r step proposer now) now oc of
           (oc1, None) \<Rightarrow> oc1
         | (oc1, Some started) \<Rightarrow>
             let oc2 = oc1\<lparr>oc_tracker := observe_round (oc_tracker oc1) h r proposer now\<rparr>;
                 oc3 = emit (EvRoundChanged \<lparr>rc_height = h, rc_round = r, rc_step = step,
                                             rc_start = started, rc_proposer = proposer\<rparr>) oc2
             in if r > 0 then oc3\<lparr>oc_tracker := mark_round_advanced (oc_tracker oc3) h (r - 1)\<rparr> else oc3)"

text \<open>The row of the voter takes its first vote of the phase; a second one is not accepted.\<close>

fun note_vote :: "string \<Rightarrow> vote_type \<Rightarrow> vote \<Rightarrow> validator_with_vote list \<Rightarrow> validator_with_vote list \<times> bool" where
  "note_vote addr vt cell [] = ([], True)"
| "note_vote addr vt cell (row # rows) =
     (if va_address (row_validator row) \<noteq> addr
      then let (rows', ok) = note_vote addr vt cell rows in (row # rows', ok)
      else if vt = Prevote \<and> vo_kind (rv_prevote (row_vote row)) \<noteq> VoteAbsent
              \<or> vt = Precommit \<and> vo_kind (rv_precommit (row_vote row)) \<noteq> VoteAbsent
      then (row # rows, False)
      else (row\<lparr>row_vote := (row_vote row)
               \<lparr>rv_prevote := (if vt = Prevote then cell else rv_prevote (row_vote row)),
                rv_precommit := (if vt = Precommit then cell else rv_precommit (row_vote row))\<rparr>\<rparr> # rows,
            True))"

definition accept_vote ::
  "int \<Rightarrow> int \<Rightarrow> int \<Rightarrow> string \<Rightarrow> vote_type \<Rightarrow> vote \<Rightarrow> gtime \<Rightarrow> state_data \<Rightarrow> state_data \<times> bool" where
  "accept_vote h r step addr vt cell now s =
     (case advance_round s h r step now of
        (s1, False) \<Rightarrow> (s1, False)
      | (s1, True) \<Rightarrow>
          (case sd_last_round s1 of
             None \<Rightarrow> (s1, True)
           | Some v \<Rightarrow>
               let (rows, ok) = note_vote addr vt cell (vw_rows v)
               in (s1\<lparr>sd_last_round := Some (v\<lparr>vw_rows := rows\<rparr>)\<rparr>, ok)))"

definition count_live_vote :: "vote_event \<Rightarrow> int \<Rightarrow> gtime \<Rightarrow> orchestrator \<Rightarrow> orchestrator" where
  "count_live_vote v wire now oc =
     (case ingest_vote (oc_tracker oc) v now of
        (t, rep, trigger) \<Rightarrow>
          let oc1 = emit (EvVoteReceived \<lparr>vc_height = ve_height v, vc_round = ve_round v, vc_type = wire,
                            vc_addr = ve_addr v, vc_hash = ve_hash v, vc_timestamp = ve_timestamp v\<rparr>)
                      (oc\<lparr>oc_tracker := t\<rparr>)
          in if trigger then emit (EvDivergenceDetected rep) oc1 else oc1)"

definition handle_vote :: "ws_vote \<Rightarrow> gtime \<Rightarrow> orchestrator \<Rightarrow> orchestrator" where
  "handle_vote w now oc =
     (let addr = to_upper (wv_addr w); hash = to_lower (wv_hash w)
      in if wv_type w \<noteq> 1 \<and> wv_type w \<noteq> 2 then oc
         else
           let vt = (if wv_type w = 1 then Prevote else Precommit);
               step = (if wv_type w = 1 then 4 else 6);
               v = \<lparr>ve_height = wv_height w, ve_round = wv_round w, ve_type = vt, ve_addr = addr,
                    ve_hash = hash, ve_timestamp = wv_timestamp w\<rparr>;
               oc1 = oc\<lparr>oc_tracker := observe_vote (oc_tracker oc) v now\<rparr>;
               cell = \<lparr>vo_kind = (if hash = '''' then VoteNil else VoteForBlock), vo_hash = hash,
                       vo_timestamp = wv_timestamp w\<rparr>;
               (oc2, accepted) = on_state_with (accept_vote (wv_height w) (wv_round w) step addr vt cell now) now oc1
           in if accepted then count_live_vote v (wv_type w) now oc2 else oc2)"

definition note_ws_event :: "gtime \<Rightarrow> state_data \<Rightarrow> state_data" where
  "note_ws_event now s =
     s\<lparr>sd_health := (sd_health s)\<lparr>he_event_at := now, he_success_at := now, he_error := ''''\<rparr>,
       sd_consensus_error := None\<rparr>"

definition handle_ws_event :: "ws_event \<Rightarrow> gtime \<Rightarrow> orchestrator \<Rightarrow> orchestrator option" where
  "handle_ws_event ev now oc =
     (let oc1 = on_state (note_ws_event now) now oc
      in case ev of
           WsNewBlock d \<Rightarrow> handle_new_block d now oc1
         | WsNewRound d \<Rightarrow> Some (handle_new_round d now oc1)
         | WsVote w \<Rightarrow> Some (handle_vote w now oc1)
         | WsValidatorSetUpdates \<Rightarrow> Some (oc1\<lparr>oc_refresh := True\<rparr>)
         | WsOther \<Rightarrow> Some oc1)"

section \<open>HTTP polls\<close>

text \<open>
  The answers of the chain client: an error's text, or a value with the endpoint that gave it.  The
  \<open>*types.Block\<close> of a block answer may be nil, as it is for a pruned height.
\<close>

record rpc_status =
  st_network :: string
  st_version :: string
  st_moniker :: string
  st_address :: string
  st_catching_up :: bool
  st_latest :: int
  st_latest_time :: gtime

record rpc_block =
  rb_height :: int
  rb_time :: gtime
  rb_chain :: string
  rb_app_hash :: string
  rb_txs :: int

record block_answer =
  ba_hash :: string
  ba_block :: "rpc_block option"

definition status_failed :: "string \<Rightarrow> state_data \<Rightarrow> state_data" where
  "status_failed err s = s\<lparr>sd_status_error := Some err, sd_health := (sd_health s)\<lparr>he_error := err\<rparr>\<rparr>"

definition node_status_of :: "rpc_status \<Rightarrow> node_status" where
  "node_status_of st =
     \<lparr>ns_network = st_network st, ns_version = st_version st, ns_app_version = '''',
      ns_moniker = st_moniker st, ns_our = to_upper (hex_encode (st_address st)),
      ns_catching_up = st_catching_up st, ns_latest = st_latest st, ns_latest_ts = st_latest_time st\<rparr>"

definition apply_status :: "node_status \<Rightarrow> string \<Rightarrow> gtime \<Rightarrow> state_data \<Rightarrow> state_data" where
  "apply_status ns endpoint now s =
     (let s1 = record_http_success (s\<lparr>sd_status_error := None, sd_node_status := Some ns\<rparr>) endpoint now
      in if ns_latest ns > sd_committed s1
         then let s2 = s1\<lparr>sd_committed := ns_latest ns\<rparr>
              in if sd_height s2 > 0 \<and> sd_height s2 \<le> ns_latest ns
                 then s2\<lparr>sd_height := 0, sd_round := 0, sd_step := 0, sd_start := 0,
                         sd_last_round := map_option (\<lambda>v. v\<lparr>vw_round := 0\<rparr>) (clear_round_votes (sd_last_round s2))\<rparr>
                 else s2
         else s1)"

definition height_text :: "int \<Rightarrow> string" where
  "height_text h = format_int h"

definition refresh_latest_block ::
  "(int \<Rightarrow> string + block_answer \<times> string) \<Rightarrow> int \<Rightarrow> gtime \<Rightarrow> orchestrator
     \<Rightarrow> (orchestrator \<times> string option) option" where
  "refresh_latest_block fetch h now oc =
     (if h \<le> 0 then Some (oc, None)
      else
        let before = oc_state oc
        in if sd_blocks before \<noteq> [] \<and> bs_height (last (sd_blocks before)) \<ge> h then Some (oc, None)
           else case fetch h of
             Inl err \<Rightarrow> Some (oc, Some err)
           | Inr (ans, endpoint) \<Rightarrow>
               (case ba_block ans of
                  None \<Rightarrow> Some (oc, Some (''RPC did not return block '' @ height_text h))
                | Some b \<Rightarrow>
                    if rb_height b \<noteq> h then Some (oc, Some (''RPC did not return block '' @ height_text h))
                    else if (case sd_node_status before of None \<Rightarrow> False | Some ns \<Rightarrow> rb_chain b \<noteq> ns_network ns)
                    then Some (oc, Some ''block chain differs from status chain'')
                    else
                      let sample = \<lparr>bs_height = h, bs_time = rb_time b, bs_hash = hex_encode (ba_hash ans),
                                    bs_app_hash = hex_encode (rb_app_hash b), bs_txs = rb_txs b, bs_ms = 0\<rparr>;
                          oc1 = on_state (\<lambda>s. record_http_success (append_block s sample) endpoint now) now oc
                      in case resolve_commit (oc_tracker oc1) h (bs_hash sample) now of
                           None \<Rightarrow> None
                         | Some (t, resolved) \<Rightarrow>
                             Some (emit (EvStatusUpdated \<lparr>su_network = '''', su_version = '''', su_our = '''',
                                                          su_catching_up = False, su_latest = h\<rparr>)
                                     (publish_resolved resolved (oc1\<lparr>oc_tracker := t\<rparr>)), None)))"

definition chain_mismatch :: "rpc_status \<Rightarrow> state_data \<Rightarrow> string option" where
  "chain_mismatch st previous =
     (case sd_node_status previous of
        None \<Rightarrow> None
      | Some ns \<Rightarrow>
          if ns_network ns \<noteq> st_network st
          then Some (''RPC chain '' @ go_quote (st_network st) @ '' differs from established chain ''
                     @ go_quote (ns_network ns))
          else None)"

definition refresh_status ::
  "string + rpc_status \<times> string \<Rightarrow> (int \<Rightarrow> string + block_answer \<times> string) \<Rightarrow> gtime \<Rightarrow> orchestrator
     \<Rightarrow> (orchestrator \<times> string option) option" where
  "refresh_status answer fetch now oc =
     (case answer of
        Inl err \<Rightarrow> Some (on_state (status_failed err) now oc, Some err)
      | Inr (st, endpoint) \<Rightarrow>
          let previous = oc_state oc
          in case chain_mismatch st previous of
               Some err \<Rightarrow> Some (on_state (status_failed err) now oc, Some err)
             | None \<Rightarrow>
                 let ns = node_status_of st;
                     oc1 = on_state (apply_status ns endpoint now) now oc;
                     oc2 = emit (EvStatusUpdated \<lparr>su_network = ns_network ns, su_version = ns_version ns,
                                   su_our = ns_our ns, su_catching_up = ns_catching_up ns,
                                   su_latest = ns_latest ns\<rparr>) oc1
                 in if sd_blocks previous = [] \<or> \<not> he_ws (sd_health previous)
                    then map_option (\<lambda>(oc3, err). (oc3, None)) (refresh_latest_block fetch (ns_latest ns) now oc2)
                    else Some (oc2, None))"

text \<open>
  The validator set: \<open>(address bytes, power)\<close> pairs with the height they were read at, and the
  staking module's validators.  A share is \<open>Float64(vp/total) * 100\<close>, the quotient taken at the
  precision \<open>SetInt\<close> gives its arguments.
\<close>

definition share_pct :: "int \<Rightarrow> int \<Rightarrow> rat" where
  "share_pct vp tot =
     (if tot > 0
      then f64_mul (fl64 (fl (nat (max 64 (max (bitlen \<bar>vp\<bar>) (bitlen \<bar>tot\<bar>)))) (of_int vp / of_int tot))) 100
      else 0)"

definition by_cons_addr :: "chain_validator list \<Rightarrow> (string, chain_validator) gomap" where
  "by_cons_addr cvs = fold (\<lambda>cv m. gput (cv_raw cv) cv m) cvs []"

definition address_text :: "string \<Rightarrow> string" where
  "address_text bytes = to_upper (hex_encode bytes)"

definition fresh_row ::
  "(string, chain_validator) gomap \<Rightarrow> int \<Rightarrow> int \<times> string \<times> int \<Rightarrow> validator_with_vote" where
  "fresh_row cvs tot entry =
     (case entry of (i, bytes, pw) \<Rightarrow>
        let addr = address_text bytes
        in \<lparr>row_validator = \<lparr>va_address = addr, va_index = i, va_power = pw, va_pct = share_pct pw tot\<rparr>,
            row_vote = zero_round_vote, row_chain = map_of cvs addr\<rparr>)"

definition power_entry ::
  "(string, chain_validator) gomap \<Rightarrow> string \<times> int \<Rightarrow> validator_power" where
  "power_entry cvs entry =
     (case entry of (bytes, pw) \<Rightarrow>
        \<lparr>vp_address = address_text bytes, vp_power = pw,
         vp_moniker = (case map_of cvs (address_text bytes) of Some cv \<Rightarrow> cv_moniker cv | None \<Rightarrow> '''')\<rparr>)"

definition apply_validators ::
  "validator_with_vote list \<Rightarrow> int \<Rightarrow> int \<Rightarrow> chain_validator list \<Rightarrow> state_data \<Rightarrow> state_data \<times> bool" where
  "apply_validators rows tot height cvs s =
     (case merge_validator_round s rows tot height of
        (s1, False) \<Rightarrow> (s1, False)
      | (s1, True) \<Rightarrow> (s1\<lparr>sd_validators_error := None, sd_chain_validators := cvs\<rparr>, True))"

definition validators_failed :: "string \<Rightarrow> state_data \<Rightarrow> state_data" where
  "validators_failed err s = s\<lparr>sd_validators_error := Some err\<rparr>"

definition refresh_validators ::
  "string + (string \<times> int) list \<times> int \<Rightarrow> string + chain_validator list \<Rightarrow> gtime \<Rightarrow> orchestrator
     \<Rightarrow> orchestrator \<times> string option" where
  "refresh_validators answer chain now oc =
     (case answer of
        Inl err \<Rightarrow> (on_state (validators_failed err) now oc, Some err)
      | Inr (vs, height) \<Rightarrow>
          if vs = []
          then let err = ''RPC returned an empty validator set''
               in (on_state (validators_failed err) now oc, Some err)
          else
            let cvs = (case chain of Inl _ \<Rightarrow> sd_chain_validators (oc_state oc) | Inr cvs \<Rightarrow> cvs);
                by_cons = by_cons_addr cvs;
                tot = fold (\<lambda>(bytes, pw) acc. acc + pw) vs 0;
                rows = map (fresh_row by_cons tot) (zip (map int [0..<length vs]) vs);
                (oc1, accepted) = on_state_with (apply_validators rows tot height cvs) now oc
            in if \<not> accepted then (oc1, None)
               else (emit (EvValidatorSetUpdated height)
                       (oc1\<lparr>oc_tracker := set_validators (oc_tracker oc1) (map (power_entry by_cons) vs)\<rparr>), None))"

definition refresh_upgrade ::
  "string + upgrade option \<Rightarrow> gtime \<Rightarrow> orchestrator \<Rightarrow> orchestrator \<times> string option" where
  "refresh_upgrade answer now oc =
     (case answer of
        Inl err \<Rightarrow> (on_state (\<lambda>s. s\<lparr>sd_upgrade_error := Some err\<rparr>) now oc, Some err)
      | Inr plan \<Rightarrow>
          (emit (case plan of None \<Rightarrow> EvUpgradePlanUpdated '''' 0
                 | Some u \<Rightarrow> EvUpgradePlanUpdated (up_name u) (up_height u))
             (on_state (\<lambda>s. s\<lparr>sd_upgrade_error := None, sd_upgrade := plan\<rparr>) now oc), None))"

text \<open>\<open>None\<close> where \<open>latestB.Block.Time\<close> or \<open>earlierB.Block.Time\<close> dereferences a nil block.\<close>

definition refresh_block_time ::
  "string + int \<Rightarrow> (int \<Rightarrow> string + block_answer \<times> string) \<Rightarrow> gtime \<Rightarrow> orchestrator
     \<Rightarrow> (orchestrator \<times> string option) option" where
  "refresh_block_time latest_height fetch now oc =
     (case latest_height of
        Inl err \<Rightarrow> Some (oc, Some err)
      | Inr latest \<Rightarrow>
          if latest \<le> 100 then Some (oc, None)
          else case fetch latest of
            Inl err \<Rightarrow> Some (oc, Some err)
          | Inr (a, _) \<Rightarrow>
              (case fetch (latest - 100) of
                 Inl err \<Rightarrow> Some (oc, Some err)
               | Inr (b, _) \<Rightarrow>
                   (case (ba_block a, ba_block b) of
                      (Some x, Some y) \<Rightarrow>
                        let dt = go_div (time_sub (rb_time x) (rb_time y)) 100
                        in Some (emit (EvBlockTimeUpdated dt)
                                   (on_state (\<lambda>s. s\<lparr>sd_block_time := dt\<rparr>) now oc), None)
                    | _ \<Rightarrow> None)))"

text \<open>The compact consensus state, \<open>height/round/step\<close>.\<close>

definition parse_height_round_step :: "string \<Rightarrow> string + int \<times> int \<times> int" where
  "parse_height_round_step text =
     (let bad = Inl (''invalid consensus height/round/step '' @ go_quote text)
      in case map parse_int64 (split_on (CHR ''/'') text) of
           [Some h, Some r, Some st] \<Rightarrow>
             if h < 0 \<or> r < 0 \<or> st < 0 then bad
             else if h = 0 then Inl ''consensus height is zero'' else Inr (h, r, st)
         | _ \<Rightarrow> bad)"

definition apply_consensus ::
  "int \<Rightarrow> int \<Rightarrow> int \<Rightarrow> string \<Rightarrow> gtime \<Rightarrow> state_data \<Rightarrow> state_data \<times> gtime option" where
  "apply_consensus h r st endpoint now s =
     (if mode_at (sd_health s) now = ''streaming'' then (s, None)
      else
        let s1 = record_http_success (s\<lparr>sd_consensus_error := None\<rparr>) endpoint now
        in case advance_round s1 h r st now of
             (s2, False) \<Rightarrow> (s2, None)
           | (s2, True) \<Rightarrow>
               let s3 = (if mode_at (sd_health s2) now \<noteq> ''streaming''
                         then s2\<lparr>sd_last_round := clear_round_votes (sd_last_round s2)\<rparr> else s2)
               in (s3, Some (sd_start s3)))"

definition consensus_failed :: "string \<Rightarrow> gtime \<Rightarrow> state_data \<Rightarrow> state_data" where
  "consensus_failed err now s =
     (if mode_at (sd_health s) now = ''streaming'' then s
      else s\<lparr>sd_consensus_error := Some err, sd_health := (sd_health s)\<lparr>he_error := err\<rparr>\<rparr>)"

definition refresh_consensus ::
  "string + string \<times> string \<Rightarrow> gtime \<Rightarrow> orchestrator \<Rightarrow> orchestrator \<times> string option" where
  "refresh_consensus answer now oc =
     (case answer of
        Inl err \<Rightarrow> (on_state (consensus_failed err now) now oc, Some err)
      | Inr (text, endpoint) \<Rightarrow>
          (case parse_height_round_step text of
             Inl err \<Rightarrow> (on_state (consensus_failed err now) now oc, Some err)
           | Inr (h, r, st) \<Rightarrow>
               (case on_state_with (apply_consensus h r st endpoint now) now oc of
                  (oc1, None) \<Rightarrow> (oc1, None)
                | (oc1, Some started) \<Rightarrow>
                    (emit (EvRoundChanged \<lparr>rc_height = h, rc_round = r, rc_step = st, rc_start = started,
                                           rc_proposer = ''''\<rparr>)
                       (oc1\<lparr>oc_tracker := observe_round (oc_tracker oc1) h r '''' now\<rparr>), None))))"

end
