(* ===== verification/Orchestrator_Runs.thy ===== *)
theory Orchestrator_Runs
  imports Orchestrator
begin

text \<open>
  The orchestrator as a state machine over its inputs, the invariant of its state and of the trace of
  events it publishes.
\<close>

section \<open>Inputs and runs\<close>

datatype orch_input =
  InWs ws_event gtime
| InStatus "string + rpc_status \<times> string" "int \<Rightarrow> string + block_answer \<times> string" gtime
| InValidators "string + (string \<times> int) list \<times> int" "string + chain_validator list" gtime
| InUpgrade "string + upgrade option" gtime
| InBlockTime "string + int" "int \<Rightarrow> string + block_answer \<times> string" gtime
| InConsensus "string + string \<times> string" gtime

fun apply_input :: "orch_input \<Rightarrow> orchestrator \<Rightarrow> orchestrator option" where
  "apply_input (InWs ev now) oc = handle_ws_event ev now oc"
| "apply_input (InStatus a f now) oc = map_option fst (refresh_status a f now oc)"
| "apply_input (InValidators a c now) oc = Some (fst (refresh_validators a c now oc))"
| "apply_input (InUpgrade a now) oc = Some (fst (refresh_upgrade a now oc))"
| "apply_input (InBlockTime a f now) oc = map_option fst (refresh_block_time a f now oc)"
| "apply_input (InConsensus a now) oc = Some (fst (refresh_consensus a now oc))"

fun run_inputs :: "orch_input list \<Rightarrow> orchestrator \<Rightarrow> orchestrator option" where
  "run_inputs [] oc = Some oc"
| "run_inputs (i # is) oc = (case apply_input i oc of None \<Rightarrow> None | Some oc1 \<Rightarrow> run_inputs is oc1)"

definition new_orchestrator :: "config \<Rightarrow> int \<Rightarrow> gtime \<Rightarrow> gtime \<Rightarrow> orchestrator" where
  "new_orchestrator cfg cap n1 n2 =
     \<lparr>oc_state = new_state n1 n2, oc_tracker = new_tracker cfg, oc_bus = new_bus cap, oc_refresh = False,
      oc_published = []\<rparr>"

text \<open>Heights are \<open>int64\<close>, and a block has a successor.\<close>

fun input_in_range :: "orch_input \<Rightarrow> bool" where
  "input_in_range (InWs (WsNewBlock d) now) = (wb_height d < int64_max)"
| "input_in_range (InStatus (Inr (st, e)) f now) = (st_latest st \<le> int64_max)"
| "input_in_range i = True"

section \<open>The trace\<close>

fun round_position :: "event \<Rightarrow> (int \<times> int) list" where
  "round_position (EvRoundChanged e) = [(rc_height e, rc_round e)]"
| "round_position e = []"

fun block_height :: "event \<Rightarrow> int list" where
  "block_height (EvNewBlock e) = [nb_height e]"
| "block_height e = []"

fun detection_key :: "event \<Rightarrow> round_key list" where
  "detection_key (EvDivergenceDetected r) = [\<lparr>rk_height = rr_height r, rk_round = rr_round r, rk_type = rr_type r\<rparr>]"
| "detection_key e = []"

text \<open>The height an event is about when it concerns live consensus.\<close>

fun live_height :: "event \<Rightarrow> int list" where
  "live_height (EvRoundChanged e) = [rc_height e]"
| "live_height (EvVoteReceived e) = [vc_height e]"
| "live_height (EvDivergenceDetected r) = [rr_height r]"
| "live_height e = []"

definition round_positions :: "event list \<Rightarrow> (int \<times> int) list" where
  "round_positions es = concat (map round_position es)"

definition block_heights :: "event list \<Rightarrow> int list" where
  "block_heights es = concat (map block_height es)"

definition detection_keys :: "event list \<Rightarrow> round_key list" where
  "detection_keys es = concat (map detection_key es)"

lemma trace_lists [simp]:
  "round_positions (es @ fs) = round_positions es @ round_positions fs"
  "block_heights (es @ fs) = block_heights es @ block_heights fs"
  "detection_keys (es @ fs) = detection_keys es @ detection_keys fs"
  "round_positions (e # es) = round_position e @ round_positions es"
  "block_heights (e # es) = block_height e @ block_heights es"
  "detection_keys (e # es) = detection_key e @ detection_keys es"
  "round_positions [] = []" "block_heights [] = []" "detection_keys [] = []"
  by (simp_all add: round_positions_def block_heights_def detection_keys_def)

definition commits_first :: "event list \<Rightarrow> bool" where
  "commits_first es \<longleftrightarrow>
     sorted_wrt (\<lambda>a b. \<forall>h \<in> set (block_height a). \<forall>l \<in> set (live_height b). h < l) es"

definition committed_shown :: "state_data \<Rightarrow> bool" where
  "committed_shown s \<longleftrightarrow> sd_committed s \<in> bs_height ` set (sd_blocks s)"

definition trace_inv :: "orchestrator \<Rightarrow> bool" where
  "trace_inv oc \<longleftrightarrow>
     (let es = oc_published oc; s = oc_state oc; t = oc_tracker oc;
          ps = round_positions es; hs = block_heights es; ds = detection_keys es
      in sorted ps \<and> (\<forall>p \<in> set ps. p \<le> position s)
         \<and> sorted_wrt (<) hs
         \<and> (\<forall>h \<in> set hs. h < sd_committed s \<or> h = sd_committed s \<and> committed_shown s)
         \<and> commits_first es
         \<and> distinct ds \<and> (\<forall>k \<in> set ds. spent t k))"

definition blocks_below :: "state_data \<Rightarrow> bool" where
  "blocks_below s \<longleftrightarrow> (\<forall>b \<in> set (sd_blocks s). bs_height b \<le> sd_committed s)"

definition orch_inv :: "orchestrator \<Rightarrow> bool" where
  "orch_inv oc \<longleftrightarrow>
     dash_inv (oc_state oc) \<and> blocks_below (oc_state oc) \<and> tracker_inv (oc_tracker oc)
     \<and> cf_history (tk_cfg (oc_tracker oc)) \<le> int64_max \<and> bus_inv (oc_bus oc) \<and> trace_inv oc"

section \<open>Publishing\<close>

lemma emit_sel [simp]:
  "oc_state (emit ev oc) = oc_state oc" "oc_tracker (emit ev oc) = oc_tracker oc"
  "oc_refresh (emit ev oc) = oc_refresh oc" "oc_published (emit ev oc) = oc_published oc @ [ev]"
  "oc_bus (emit ev oc) = publish ev (oc_bus oc)"
  by (simp_all add: emit_def)

text \<open>Publishing an event that is not about consensus keeps the invariant.\<close>

lemma commits_first_snoc:
  "commits_first (es @ [e]) \<longleftrightarrow>
     commits_first es \<and> (\<forall>h \<in> set (block_heights es). \<forall>l \<in> set (live_height e). h < l)"
  by (auto simp: commits_first_def sorted_wrt_append block_heights_def)

lemma trace_inv_heights:
  "trace_inv oc \<Longrightarrow> h \<in> set (block_heights (oc_published oc)) \<Longrightarrow> h \<le> sd_committed (oc_state oc)"
  by (fastforce simp: trace_inv_def Let_def)

lemma orch_inv_emit_plain:
  assumes "orch_inv oc" and "round_position e = []" "block_height e = []" "detection_key e = []" "live_height e = []"
  shows "orch_inv (emit e oc)"
  using assms publish_inv [of "oc_bus oc" e]
  by (simp add: orch_inv_def trace_inv_def Let_def commits_first_snoc)

lemma orch_inv_emit_live:
  assumes "orch_inv oc" and "block_height e = []" "detection_key e = []"
    and "\<forall>l \<in> set (live_height e). sd_committed (oc_state oc) < l"
    and "\<forall>p \<in> set (round_position e). p = position (oc_state oc)" "length (round_position e) \<le> 1"
  shows "orch_inv (emit e oc)"
proof -
  have t: "trace_inv oc" using assms(1) by (simp add: orch_inv_def)
  let ?ps = "round_positions (oc_published oc)"
  have "sorted (?ps @ round_position e)"
    using t assms(5,6) by (cases "round_position e") (auto simp: trace_inv_def Let_def sorted_append)
  moreover have "commits_first (oc_published oc @ [e])"
    using t assms(4) trace_inv_heights [OF t] by (fastforce simp: commits_first_snoc trace_inv_def Let_def)
  moreover have "\<forall>p \<in> set (?ps @ round_position e). p \<le> position (oc_state oc)"
    using t assms(5) by (auto simp: trace_inv_def Let_def)
  ultimately have "trace_inv (emit e oc)"
    using t assms(2,3) by (simp add: trace_inv_def Let_def)
  with assms(1) publish_inv show ?thesis by (simp add: orch_inv_def)
qed

text \<open>Changing the dashboard's state without going back.\<close>

definition state_forward :: "state_data \<Rightarrow> state_data \<Rightarrow> bool" where
  "state_forward s s' \<longleftrightarrow>
     dash_inv s' \<and> blocks_below s' \<and> position s \<le> position s'
     \<and> (sd_committed s < sd_committed s'
        \<or> sd_committed s = sd_committed s' \<and> (committed_shown s \<longrightarrow> committed_shown s'))"

lemma orch_inv_state:
  assumes "orch_inv oc" and "state_forward (oc_state oc) s'"
  shows "orch_inv (oc\<lparr>oc_state := s'\<rparr>)"
proof -
  have t: "trace_inv oc" using assms(1) by (simp add: orch_inv_def)
  have "\<forall>p \<in> set (round_positions (oc_published oc)). p \<le> position s'"
    using t assms(2) by (auto simp: trace_inv_def Let_def state_forward_def dest: order_trans)
  moreover have "h < sd_committed s' \<or> h = sd_committed s' \<and> committed_shown s'"
    if "h \<in> set (block_heights (oc_published oc))" for h
  proof -
    have "h < sd_committed (oc_state oc) \<or> h = sd_committed (oc_state oc) \<and> committed_shown (oc_state oc)"
      using t that by (auto simp: trace_inv_def Let_def)
    with assms(2) show ?thesis unfolding state_forward_def by auto
  qed
  ultimately have "trace_inv (oc\<lparr>oc_state := s'\<rparr>)" using t by (simp add: trace_inv_def Let_def)
  with assms show ?thesis by (simp add: orch_inv_def state_forward_def)
qed

lemma orch_inv_tracker:
  assumes "orch_inv oc" and "tracker_inv t'" and "tk_cfg t' = tk_cfg (oc_tracker oc)"
    and "\<And>k. spent (oc_tracker oc) k \<Longrightarrow> spent t' k"
  shows "orch_inv (oc\<lparr>oc_tracker := t'\<rparr>)"
  using assms by (simp add: orch_inv_def trace_inv_def Let_def)

text \<open>Updates of fields the invariant does not read.\<close>

lemma state_forward_refl: "dash_inv s \<Longrightarrow> blocks_below s \<Longrightarrow> state_forward s s"
  by (simp add: state_forward_def)

lemma forward_cong:
  "state_forward s s' \<Longrightarrow>
     sd_height s'' = sd_height s' \<and> sd_round s'' = sd_round s' \<and> sd_step s'' = sd_step s'
     \<and> sd_committed s'' = sd_committed s' \<and> sd_blocks s'' = sd_blocks s'
     \<and> map_option vw_round (sd_last_round s'') = map_option vw_round (sd_last_round s') \<Longrightarrow>
     state_forward s s''"
  unfolding state_forward_def dash_inv_def blocks_below_def position_def committed_shown_def
  by (cases "sd_last_round s'"; cases "sd_last_round s''") auto

lemma forward_trans: "state_forward s s1 \<Longrightarrow> state_forward s1 s2 \<Longrightarrow> state_forward s s2"
  unfolding state_forward_def by (auto dest: order_trans)

lemma orch_inv_forward_refl: "orch_inv oc \<Longrightarrow> state_forward (oc_state oc) (oc_state oc)"
  by (simp add: orch_inv_def state_forward_refl)

lemma clear_round_votes_round [simp]: "map_option vw_round (clear_round_votes rv) = map_option vw_round rv"
  by (simp add: clear_round_votes_def option.map_comp comp_def)

lemma mark_proposer_round [simp]: "map_option vw_round (mark_proposer a rv) = map_option vw_round rv"
  by (simp add: mark_proposer_def option.map_comp comp_def)

lemma advance_forward:
  assumes "dash_inv s" and "blocks_below s" and "advance_round s h r st now = (s', ok)"
  shows "state_forward s s'"
  using advance_round_inv [OF assms(1,3)] assms(2)
  by (simp add: state_forward_def blocks_below_def committed_shown_def)

section \<open>The handlers\<close>

lemma append_block_cases:
  obtains (kept) "sd_blocks s \<noteq> []" "bs_height b \<le> bs_height (last (sd_blocks s))" "append_block s b = s"
  | (added) b' bs where "bs_height b' = bs_height b" "bs = sd_blocks s @ [b']"
      "sd_blocks s = [] \<or> bs_height (last (sd_blocks s)) < bs_height b"
      "append_block s b = s\<lparr>sd_blocks := (if length bs > block_history_limit
                                          then drop (length bs - block_history_limit) bs else bs)\<rparr>"
proof (cases "sd_blocks s \<noteq> [] \<and> bs_height b \<le> bs_height (last (sd_blocks s))")
  case True
  then show thesis by (intro kept) (auto simp: append_block_def Let_def)
next
  case False
  let ?p = "last (sd_blocks s)"
  let ?b' = "if sd_blocks s \<noteq> [] \<and> bs_height b = i64 (bs_height ?p + 1) \<and> time_after (bs_time b) (bs_time ?p)
    then b\<lparr>bs_ms := go_div (time_sub (bs_time b) (bs_time ?p)) millisecond\<rparr> else b"
  show thesis
    by (rule added [of ?b' "sd_blocks s @ [?b']"]) (use False in \<open>auto simp: append_block_def Let_def\<close>)
qed

lemma last_block_max:
  assumes "blocks_inv bs" and "b \<in> set bs"
  shows "bs_height b \<le> bs_height (last bs)"
proof -
  have "bs \<noteq> []" using assms(2) by auto
  then have "bs = butlast bs @ [last bs]" by simp
  with assms show ?thesis
    unfolding blocks_inv_def by (metis append_Nil2 in_set_butlast_appendI less_imp_le order_refl set_ConsD
        sorted_wrt_append Un_iff set_append list.set_intros(1) empty_iff list.set(1))
qed

lemma blocks_append:
  assumes inv: "dash_inv s" "blocks_below s" and le: "bs_height b \<le> sd_committed s"
  shows "state_forward s (append_block s b)"
    and "bs_height b = sd_committed s \<Longrightarrow> bs_height b \<in> bs_height ` set (sd_blocks (append_block s b))"
proof (atomize (full), cases rule: append_block_cases [of s b])
  case kept
  have "bs_height b \<in> bs_height ` set (sd_blocks s)" if "bs_height b = sd_committed s"
  proof -
    have "last (sd_blocks s) \<in> set (sd_blocks s)" using kept(1) by simp
    moreover from this have "bs_height (last (sd_blocks s)) = bs_height b"
      using kept(2) inv(2) that by (fastforce simp: blocks_below_def)
    ultimately show ?thesis by (metis image_eqI)
  qed
  with kept(3) state_forward_refl [OF inv]
  show "state_forward s (append_block s b)
      \<and> (bs_height b = sd_committed s \<longrightarrow> bs_height b \<in> bs_height ` set (sd_blocks (append_block s b)))" by simp
next
  case (added b' bs)
  let ?d = "length bs - block_history_limit"
  have new: "sd_blocks (append_block s b) = drop ?d bs" using added(4) by (cases "length bs > block_history_limit") auto
  have lim: "?d \<le> length (sd_blocks s)" by (simp add: added(2) block_history_limit_def)
  have mem: "b' \<in> set (drop ?d bs)" using lim by (simp add: added(2))
  have same: "sd_committed (append_block s b) = sd_committed s" by (simp add: added(4))
  have "blocks_below (append_block s b)"
    using inv(2) le added(1,2) unfolding blocks_below_def new same by (auto dest: in_set_dropD)
  moreover have "committed_shown (append_block s b)" if "committed_shown s"
  proof -
    from that obtain c where "c \<in> set (sd_blocks s)" "bs_height c = sd_committed s"
      by (auto simp: committed_shown_def)
    moreover have "blocks_inv (sd_blocks s)" using inv(1) by (simp add: dash_inv_def)
    ultimately have "sd_committed s \<le> bs_height (last (sd_blocks s))" "sd_blocks s \<noteq> []"
      using last_block_max [of "sd_blocks s" c] by auto
    then have False using added(3) le by auto
    then show ?thesis ..
  qed
  moreover have "bs_height b \<in> bs_height ` set (drop ?d bs)" using mem added(1) by (metis image_eqI)
  ultimately show "state_forward s (append_block s b)
      \<and> (bs_height b = sd_committed s \<longrightarrow> bs_height b \<in> bs_height ` set (sd_blocks (append_block s b)))"
    using append_block_dash [OF inv(1), of b] by (auto simp: state_forward_def new same simp del: image_iff)
qed

lemma accept_block_stale:
  "h < sd_committed s \<or> h \<in> bs_height ` set (sd_blocks s) \<Longrightarrow> accept_block h b now s = (s, False)"
  by (auto simp: accept_block_def list_ex_iff)

lemma accept_block_ok:
  assumes "sd_committed s \<le> h" and "h \<notin> bs_height ` set (sd_blocks s)" and "0 < h" and "h < int64_max"
  shows "accept_block h b now s
    = (fst (advance_round (append_block (s\<lparr>sd_committed := h\<rparr>) b) (h + 1) 0 1 now), True)"
proof -
  have i: "i64 (h + 1) = h + 1" using assms(3,4) by (intro i64_id) (auto simp: int64_min_def int64_max_def)
  have new: "(if h > sd_committed s then s\<lparr>sd_committed := h\<rparr> else s) = s\<lparr>sd_committed := h\<rparr>"
    using assms(1) by (cases "sd_committed s = h") simp_all
  have "\<not> h < sd_committed s" "\<not> list_ex (\<lambda>b. bs_height b = h) (sd_blocks s)"
    using assms(1,2) by (auto simp: list_ex_iff)
  then show ?thesis unfolding accept_block_def Let_def i new by simp
qed

lemma accept_block_forward:
  assumes inv: "dash_inv s" "blocks_below s" and step: "accept_block h b now s = (s', ok)"
    and b: "bs_height b = h" and h: "0 < h" "h < int64_max"
  shows "state_forward s s'"
    and "ok \<Longrightarrow> sd_committed s' = h \<and> h \<in> bs_height ` set (sd_blocks s')
                \<and> sd_committed s \<le> h \<and> h \<notin> bs_height ` set (sd_blocks s)"
proof -
  let ?s1 = "s\<lparr>sd_committed := h\<rparr>"
  let ?s2 = "append_block ?s1 b"
  consider (stale) "\<not> ok" "s' = s" | (ok) ok "sd_committed s \<le> h" "h \<notin> bs_height ` set (sd_blocks s)"
    "s' = fst (advance_round ?s2 (h + 1) 0 1 now)"
  proof (cases "h < sd_committed s \<or> h \<in> bs_height ` set (sd_blocks s)")
    case True
    from step accept_block_stale [OF this, of b now] have "s' = s" "ok = False" by simp_all
    then show thesis by (intro stale) simp_all
  next
    case False
    then have c: "sd_committed s \<le> h" "h \<notin> bs_height ` set (sd_blocks s)" by auto
    from step accept_block_ok [OF this h, of b now]
    have "s' = fst (advance_round ?s2 (h + 1) 0 1 now)" "ok = True" by (metis prod.inject)+
    with c show thesis by (intro ok) simp_all
  qed
  then have "state_forward s s'
      \<and> (ok \<longrightarrow> sd_committed s' = h \<and> h \<in> bs_height ` set (sd_blocks s')
                \<and> sd_committed s \<le> h \<and> h \<notin> bs_height ` set (sd_blocks s))"
  proof cases
    case stale
    with state_forward_refl [OF inv] show ?thesis by simp
  next
    case ok
    have below: "blocks_below ?s1" using inv(2) ok(2) by (force simp: blocks_below_def)
    have bl: "blocks_inv (sd_blocks ?s2)" using append_block_inv [of ?s1 b] inv(1) by (simp add: dash_inv_def)
    obtain s3 m where adv: "advance_round ?s2 (h + 1) 0 1 now = (s3, m)" by fastforce
    have frame: "sd_committed ?s2 = h" "sd_height ?s2 = sd_height s" "sd_round ?s2 = sd_round s"
      "sd_step ?s2 = sd_step s" "sd_last_round ?s2 = sd_last_round s"
      by (subst append_block_frame, simp)+
    have blocks3: "sd_blocks s3 = sd_blocks ?s2" "sd_committed s3 = h"
      using adv by (auto simp: advance_round_def frame split: if_splits)
    have below2: "\<forall>c \<in> set (sd_blocks ?s2). bs_height c \<le> h" and mem: "h \<in> bs_height ` set (sd_blocks ?s2)"
    proof -
      show "\<forall>c \<in> set (sd_blocks ?s2). bs_height c \<le> h"
        using below b by (cases rule: append_block_cases [of ?s1 b]) (auto simp: blocks_below_def dest!: in_set_dropD split: if_splits)
      show "h \<in> bs_height ` set (sd_blocks ?s2)"
      proof (cases rule: append_block_cases [of ?s1 b])
        case kept
        then have mem: "last (sd_blocks s) \<in> set (sd_blocks s)" by simp
        with below have "bs_height (last (sd_blocks s)) \<le> h" by (simp add: blocks_below_def)
        moreover have "h \<le> bs_height (last (sd_blocks s))" using kept(2) b by simp
        ultimately have "h \<in> bs_height ` set (sd_blocks s)" using mem by (metis antisym image_eqI)
        with ok(3) show ?thesis by simp
      next
        case (added b' bs)
        have "b' \<in> set (drop (length bs - block_history_limit) bs)"
          by (simp add: added(2) block_history_limit_def)
        moreover have "sd_blocks ?s2 = drop (length bs - block_history_limit) bs"
          unfolding added(4) by (cases "length bs > block_history_limit") auto
        ultimately show ?thesis using added(1) b by (metis image_eqI)
      qed
    qed
    consider (old) "s3 = ?s2" "h < sd_height s"
      | (stepped) "s3 = ?s2\<lparr>sd_step := 1\<rparr>" "h < sd_height s"
      | (moved) "s3 = ?s2\<lparr>sd_height := h + 1, sd_round := 0, sd_step := 1, sd_start := now,
              sd_last_round := map_option (\<lambda>v. v\<lparr>vw_round := 0\<rparr>) (clear_round_votes (sd_last_round s))\<rparr>"
          "sd_height s \<le> h + 1" "sd_height s = h + 1 \<Longrightarrow> sd_round s < 0"
      using adv by (auto simp: advance_round_def frame max_int32_def split: if_splits)
    then have "dash_inv s3 \<and> position s \<le> position s3"
    proof cases
      case moved
      have "sd_height s \<le> h" using moved(2,3) inv(1) by (fastforce simp: dash_inv_def)
      with moved(1) inv(1) ok(2) h bl show ?thesis
        by (cases "sd_height s = 0") (auto simp: dash_inv_def position_def frame max_int32_def clear_round_votes_def)
    qed (use inv(1) ok(2) h bl in \<open>simp_all add: dash_inv_def position_def frame\<close>)
    moreover have "sd_committed s < h \<or> sd_committed s = h \<and> \<not> committed_shown s"
      using ok(2,3) by (auto simp: committed_shown_def)
    ultimately show ?thesis
      using below2 mem blocks3 ok adv by (auto simp: state_forward_def blocks_below_def)
  qed
  then show "state_forward s s'"
    "ok \<Longrightarrow> sd_committed s' = h \<and> h \<in> bs_height ` set (sd_blocks s')
                \<and> sd_committed s \<le> h \<and> h \<notin> bs_height ` set (sd_blocks s)"
    by auto
qed

end
