(* ===== verification/Machines.thy ===== *)
theory Machines
  imports Main
begin

text \<open>
  What the step functions of the development share: a run over a list of inputs that stops at a panic, and an
  invariant that every step on an admissible input keeps.
\<close>

locale machine =
  fixes step :: "'i \<Rightarrow> 's \<Rightarrow> 's option"
    and run :: "'i list \<Rightarrow> 's \<Rightarrow> 's option"
    and admissible :: "'i \<Rightarrow> bool"
    and inv :: "'s \<Rightarrow> bool"
  assumes run_Nil: "run [] s = Some s"
    and run_Cons: "run (x # xs) s = (case step x s of None \<Rightarrow> None | Some s1 \<Rightarrow> run xs s1)"
    and step_inv: "step x s = Some s' \<Longrightarrow> admissible x \<Longrightarrow> inv s \<Longrightarrow> inv s'"
begin

lemma run_inv: "run xs s = Some s' \<Longrightarrow> list_all admissible xs \<Longrightarrow> inv s \<Longrightarrow> inv s'"
  by (induction xs arbitrary: s) (auto simp: run_Nil run_Cons intro: step_inv split: option.splits)

lemma run_append: "run (xs @ ys) s = Option.bind (run xs s) (run ys)"
  by (induction xs arbitrary: s) (auto simp: run_Nil run_Cons split: option.split)

lemma run_inv_middle:
  assumes "run (xs @ ys) s = Some s'" and "list_all admissible xs" and "inv s"
  obtains s1 where "run xs s = Some s1" "inv s1" "run ys s1 = Some s'"
  using assms run_inv by (auto simp: run_append bind_eq_Some_conv)

end

text \<open>A machine whose steps return from every state of the invariant never panics.\<close>

locale live_machine = machine +
  assumes step_returns: "admissible x \<Longrightarrow> inv s \<Longrightarrow> step x s \<noteq> None"
begin

lemma run_returns: "list_all admissible xs \<Longrightarrow> inv s \<Longrightarrow> \<exists>s'. run xs s = Some s' \<and> inv s'"
proof (induction xs arbitrary: s)
  case (Cons x xs)
  then obtain s1 where "step x s = Some s1" using step_returns by force
  with Cons step_inv show ?case by (auto simp: run_Cons)
qed (simp add: run_Nil)

end

end
