(* ===== verification/Orchestrator_Inv.thy ===== *)
theory Orchestrator_Inv
  imports Orchestrator_Runs Machines
begin

text \<open>Every input keeps the orchestrator's invariant.\<close>

section \<open>Shared steps\<close>

lemma on_state_inv:
  assumes "orch_inv oc" and "state_forward (oc_state oc) (f (oc_state oc))"
  shows "orch_inv (on_state f now oc)"
proof -
  have "state_forward (oc_state oc) (mutate f now (oc_state oc))"
    by (rule forward_cong [OF assms(2)]) (simp add: mutate_def)
  from orch_inv_state [OF assms(1) this] show ?thesis by (simp add: on_state_def)
qed

lemma on_state_with_inv:
  assumes "orch_inv oc" and "on_state_with f now oc = (oc1, r)"
    and "\<And>s'. f (oc_state oc) = (s', r) \<Longrightarrow> state_forward (oc_state oc) s'"
  shows "orch_inv oc1" and "oc_tracker oc1 = oc_tracker oc" and "oc_published oc1 = oc_published oc"
    and "oc_bus oc1 = oc_bus oc"
    and "\<exists>s'. f (oc_state oc) = (s', r) \<and> oc_state oc1 = s'\<lparr>sd_last_update := now\<rparr>"
proof -
  obtain s' r' where f: "f (oc_state oc) = (s', r')" by fastforce
  then have oc1: "oc1 = oc\<lparr>oc_state := s'\<lparr>sd_last_update := now\<rparr>\<rparr>" "r' = r"
    using assms(2) by (simp_all add: on_state_with_def)
  have "state_forward (oc_state oc) (s'\<lparr>sd_last_update := now\<rparr>)"
    by (rule forward_cong [OF assms(3)]) (use f oc1 in simp_all)
  from orch_inv_state [OF assms(1) this] show "orch_inv oc1" by (simp add: oc1)
  show "oc_tracker oc1 = oc_tracker oc" "oc_published oc1 = oc_published oc" "oc_bus oc1 = oc_bus oc"
    "\<exists>s'. f (oc_state oc) = (s', r) \<and> oc_state oc1 = s'\<lparr>sd_last_update := now\<rparr>"
    using f oc1 by simp_all
qed

lemma position_update: "position (s\<lparr>sd_last_update := now\<rparr>) = position s"
  by (simp add: position_def)

lemma plain_forward:
  assumes "orch_inv oc"
    and "sd_height s' = sd_height (oc_state oc) \<and> sd_round s' = sd_round (oc_state oc)
      \<and> sd_step s' = sd_step (oc_state oc) \<and> sd_committed s' = sd_committed (oc_state oc)
      \<and> sd_blocks s' = sd_blocks (oc_state oc)
      \<and> map_option vw_round (sd_last_round s') = map_option vw_round (sd_last_round (oc_state oc))"
  shows "state_forward (oc_state oc) s'"
  by (rule forward_cong [OF orch_inv_forward_refl [OF assms(1)] assms(2)])

lemma orch_inv_parts:
  assumes "orch_inv oc"
  shows "dash_inv (oc_state oc)" "blocks_below (oc_state oc)" "tracker_inv (oc_tracker oc)"
    "cf_history (tk_cfg (oc_tracker oc)) \<le> int64_max" "bus_inv (oc_bus oc)" "trace_inv oc"
    "archive_inv (oc_tracker oc)" "detector_bounded (oc_tracker oc)"
  using assms by (simp_all add: orch_inv_def tracker_inv_def)

lemma observe_vote_orch:
  assumes "orch_inv oc"
  shows "orch_inv (oc\<lparr>oc_tracker := observe_vote (oc_tracker oc) v now\<rparr>)"
proof -
  note p = orch_inv_parts [OF assms]
  show ?thesis
    by (rule orch_inv_tracker [OF assms observe_vote_tracker [OF p(3)]
        archive_frame_cfg [OF observe_vote_frame [OF p(7,8)]] observe_vote_spent [OF p(3)]])
qed

lemma observe_round_orch:
  assumes "orch_inv oc"
  shows "orch_inv (oc\<lparr>oc_tracker := observe_round (oc_tracker oc) h r pr now\<rparr>)"
proof -
  note p = orch_inv_parts [OF assms]
  show ?thesis
    by (rule orch_inv_tracker [OF assms observe_round_tracker [OF p(3)]
        archive_frame_cfg [OF observe_round_frame [OF p(7,8)]]
        spent_frame [OF observe_round_frame [OF p(7,8)] tracker_inv_ok [OF p(3)]]])
qed

lemma mark_round_advanced_cfg [simp]: "tk_cfg (mark_round_advanced t h r) = tk_cfg t"
  using arg_cong [OF mark_round_advanced_rounds, of tk_cfg t h r] by simp

lemma mark_round_advanced_orch:
  "orch_inv oc \<Longrightarrow> orch_inv (oc\<lparr>oc_tracker := mark_round_advanced (oc_tracker oc) h r\<rparr>)"
  by (rule orch_inv_tracker) (auto intro: mark_round_advanced_tracker mark_round_advanced_spent
      simp: orch_inv_parts)

lemma set_validators_orch:
  "orch_inv oc \<Longrightarrow> orch_inv (oc\<lparr>oc_tracker := set_validators (oc_tracker oc) vs\<rparr>)"
  by (rule orch_inv_tracker) (auto intro: set_validators_tracker set_validators_spent simp: orch_inv_parts)

lemma resolve_commit_orch:
  assumes "orch_inv oc" and "resolve_commit (oc_tracker oc) h hash now = Some (t, rs)"
    and "0 \<le> h" "h \<le> int64_max"
  shows "orch_inv (oc\<lparr>oc_tracker := t\<rparr>)"
proof -
  note p = orch_inv_parts [OF assms(1)]
  have "tk_cfg t = tk_cfg (oc_tracker oc)"
    using resolve_commit_cfg [OF assms(2)] archive_frame_cfg [OF archive_commit_frame [OF p(7,8)]] by simp
  then show ?thesis
    by (rule orch_inv_tracker [OF assms(1) resolve_commit_tracker [OF p(3) assms(2)] _
        resolve_commit_spent [OF p(3) assms(2-4) p(4)]])
qed

lemma publish_resolved_inv:
  "orch_inv oc \<Longrightarrow> orch_inv (publish_resolved rs oc)
     \<and> oc_state (publish_resolved rs oc) = oc_state oc \<and> oc_tracker (publish_resolved rs oc) = oc_tracker oc"
proof (induction rs arbitrary: oc)
  case Nil
  then show ?case by (simp add: publish_resolved_def)
next
  case (Cons r rs)
  have "orch_inv (emit (EvDivergenceResolved r) oc)" by (rule orch_inv_emit_plain [OF Cons.prems]) simp_all
  from Cons.IH [OF this] Cons.IH [OF Cons.prems] show ?case by (simp add: publish_resolved_def)
qed

section \<open>New blocks\<close>

lemma orch_inv_emit_block:
  assumes "orch_inv oc" and "\<forall>n \<in> set (block_heights (oc_published oc)). n < nb_height e"
    and "nb_height e = sd_committed (oc_state oc)" and "committed_shown (oc_state oc)"
  shows "orch_inv (emit (EvNewBlock e) oc)"
proof -
  have t: "trace_inv oc" using assms(1) by (simp add: orch_inv_def)
  have "trace_inv (emit (EvNewBlock e) oc)"
    using t assms(2-4) by (auto simp: trace_inv_def Let_def commits_first_snoc sorted_wrt_append)
  with assms(1) publish_inv show ?thesis by (simp add: orch_inv_def)
qed

lemma handle_new_block_inv:
  assumes inv: "orch_inv oc" and step: "handle_new_block d now oc = Some oc'" and small: "wb_height d < int64_max"
  shows "orch_inv oc'"
proof (cases "wb_height d \<le> 0")
  case True
  with inv step show ?thesis by (simp add: handle_new_block_def Let_def)
next
  case False
  let ?h = "wb_height d"
  define smp where "smp = \<lparr>bs_height = ?h, bs_time = wb_time d, bs_hash = to_lower (wb_hash d),
      bs_app_hash = to_lower (wb_app_hash d), bs_txs = wb_txs d, bs_ms = 0\<rparr>"
  have h: "0 < ?h" "?h < int64_max" "bs_height smp = ?h" using False small by (simp_all add: smp_def)
  obtain oc1 ok where s1: "on_state_with (accept_block ?h smp now) now oc = (oc1, ok)" by fastforce
  note p = orch_inv_parts [OF inv]
  have fwd: "state_forward (oc_state oc) s'" if "accept_block ?h smp now (oc_state oc) = (s', ok)" for s'
    by (rule accept_block_forward(1) [OF p(1,2) that h(3,1,2)])
  note o = on_state_with_inv [OF inv s1 fwd]
  from o(5) obtain s' where a: "accept_block ?h smp now (oc_state oc) = (s', ok)"
    "oc_state oc1 = s'\<lparr>sd_last_update := now\<rparr>" by blast
  show ?thesis
  proof (cases ok)
    case False
    with step s1 h o(1) show ?thesis by (simp add: handle_new_block_def Let_def smp_def)
  next
    case True
    note acc = accept_block_forward(2) [OF p(1,2) a(1) h(3,1,2) True]
    define ev where "ev = \<lparr>nb_height = ?h, nb_hash = to_lower (wb_hash d), nb_app_hash = to_lower (wb_app_hash d),
      nb_proposer = to_upper (wb_proposer d), nb_time = wb_time d, nb_txs = wb_txs d\<rparr>"
    from step s1 h True obtain t rs where r: "resolve_commit (oc_tracker oc1) ?h (to_lower (wb_hash d)) now = Some (t, rs)"
      and oc': "oc' = publish_resolved rs (emit (EvNewBlock ev) (oc1\<lparr>oc_tracker := t\<rparr>))"
      by (auto simp: handle_new_block_def Let_def smp_def ev_def split: option.splits)
    have inv2: "orch_inv (oc1\<lparr>oc_tracker := t\<rparr>)" using resolve_commit_orch [OF o(1) r] h by simp
    have "n < ?h" if "n \<in> set (block_heights (oc_published oc))" for n
    proof -
      have "n < sd_committed (oc_state oc) \<or> n = sd_committed (oc_state oc) \<and> committed_shown (oc_state oc)"
        using p(6) that by (simp add: trace_inv_def Let_def)
      moreover have "n \<noteq> ?h" if "n = sd_committed (oc_state oc)" "committed_shown (oc_state oc)"
        using that acc by (auto simp: committed_shown_def)
      ultimately show ?thesis using acc by auto
    qed
    moreover have "sd_committed (oc_state oc1) = ?h" "committed_shown (oc_state oc1)"
      using acc by (simp_all add: a(2) committed_shown_def)
    ultimately have "orch_inv (emit (EvNewBlock ev) (oc1\<lparr>oc_tracker := t\<rparr>))"
      by (intro orch_inv_emit_block [OF inv2]) (simp_all add: o(3) ev_def)
    with publish_resolved_inv show ?thesis by (simp add: oc')
  qed
qed

section \<open>New rounds and votes\<close>

lemma enter_new_round_forward:
  assumes "dash_inv s" and "blocks_below s" and "enter_new_round h r st pr now s = (s', res)"
  shows "state_forward s s'"
    and "res \<noteq> None \<Longrightarrow> position s' = (h, r) \<and> sd_committed s' < h"
proof -
  obtain s1 ok where a: "advance_round s h r st now = (s1, ok)" by fastforce
  note f = advance_forward [OF assms(1,2) a] and i = advance_round_inv [OF assms(1) a]
  have s': "s' = (if ok then s1\<lparr>sd_last_round := mark_proposer pr (sd_last_round s1)\<rparr> else s1)"
    "res = (if ok then Some (sd_start s1) else None)"
    using assms(3) a by (auto simp: enter_new_round_def split: if_splits bool.splits)
  show "state_forward s s'" by (rule forward_cong [OF f]) (simp add: s')
  show "res \<noteq> None \<Longrightarrow> position s' = (h, r) \<and> sd_committed s' < h"
    using i by (auto simp: s' position_def split: if_splits)
qed

lemma handle_new_round_inv:
  assumes inv: "orch_inv oc"
  shows "orch_inv (handle_new_round d now oc)"
proof -
  let ?h = "wr_height d" and ?r = "wr_round d" and ?pr = "to_upper (wr_proposer d)"
  obtain oc1 res where s1: "on_state_with (enter_new_round ?h ?r (step_from_string (wr_step d)) ?pr now) now oc = (oc1, res)"
    by fastforce
  note p = orch_inv_parts [OF inv]
  have fwd: "state_forward (oc_state oc) s'"
    if "enter_new_round ?h ?r (step_from_string (wr_step d)) ?pr now (oc_state oc) = (s', res)" for s'
    by (rule enter_new_round_forward(1) [OF p(1,2) that])
  note o = on_state_with_inv [OF inv s1 fwd]
  from o(5) obtain s' where a: "enter_new_round ?h ?r (step_from_string (wr_step d)) ?pr now (oc_state oc) = (s', res)"
    "oc_state oc1 = s'\<lparr>sd_last_update := now\<rparr>" by blast
  show ?thesis
  proof (cases res)
    case None
    with s1 o(1) show ?thesis by (simp add: handle_new_round_def Let_def)
  next
    case (Some started)
    have at: "position (oc_state oc1) = (?h, ?r)" "sd_committed (oc_state oc1) < ?h"
      using enter_new_round_forward(2) [OF p(1,2) a(1)] Some a(2) by (simp_all add: position_update)
    let ?e = "EvRoundChanged \<lparr>rc_height = ?h, rc_round = ?r, rc_step = step_from_string (wr_step d),
        rc_start = started, rc_proposer = ?pr\<rparr>"
    have "orch_inv (emit ?e (oc1\<lparr>oc_tracker := observe_round (oc_tracker oc1) ?h ?r ?pr now\<rparr>))"
      by (rule orch_inv_emit_live [OF observe_round_orch [OF o(1)]]) (simp_all add: at)
    from this mark_round_advanced_orch [OF this] show ?thesis
      using s1 Some by (simp add: handle_new_round_def Let_def)
  qed
qed

lemma accept_vote_forward:
  assumes "dash_inv s" and "blocks_below s" and "accept_vote h r st a vt cell now s = (s', ok)"
  shows "state_forward s s'"
    and "ok \<Longrightarrow> sd_committed s' < h"
proof -
  obtain s1 ok1 where a: "advance_round s h r st now = (s1, ok1)" by fastforce
  note f = advance_forward [OF assms(1,2) a] and i = advance_round_inv [OF assms(1) a]
  show "state_forward s s'"
    by (rule forward_cong [OF f])
      (use assms(3) a in \<open>auto simp: accept_vote_def split: bool.splits option.splits prod.splits\<close>)
  show "ok \<Longrightarrow> sd_committed s' < h"
    using assms(3) a i by (auto simp: accept_vote_def split: bool.splits option.splits prod.splits)
qed

lemma count_live_vote_inv:
  assumes inv: "orch_inv oc" and h: "sd_committed (oc_state oc) < ve_height v"
  shows "orch_inv (count_live_vote v wire now oc)"
proof -
  note p = orch_inv_parts [OF inv]
  obtain t rep trig where i: "ingest_vote (oc_tracker oc) v now = (t, rep, trig)" by (metis prod_cases3)
  have ti: "tracker_inv t" using ingest_vote_tracker [OF p(3), of v now] i by simp
  have cfg: "tk_cfg t = tk_cfg (oc_tracker oc)"
    using ingest_vote_cfg [OF i] archive_frame_cfg [OF observe_vote_frame [OF p(7,8)]] by simp
  note sp = ingest_vote_spent [OF p(3) i]
  let ?e = "EvVoteReceived \<lparr>vc_height = ve_height v, vc_round = ve_round v, vc_type = wire,
      vc_addr = ve_addr v, vc_hash = ve_hash v, vc_timestamp = ve_timestamp v\<rparr>"
  let ?oc1 = "emit ?e (oc\<lparr>oc_tracker := t\<rparr>)"
  have inv1: "orch_inv ?oc1"
    by (rule orch_inv_emit_live [OF orch_inv_tracker [OF inv ti cfg sp(1)]]) (simp_all add: h)
  have "orch_inv (emit (EvDivergenceDetected rep) ?oc1)" if trig
  proof -
    have key: "\<lparr>rk_height = rr_height rep, rk_round = rr_round rep, rk_type = rr_type rep\<rparr> = vote_key v"
      and hh: "rr_height rep = ve_height v"
    proof -
      let ?t = "observe_vote (oc_tracker oc) v now"
      have inv': "tracker_inv ?t" by (rule observe_vote_tracker [OF p(3)])
      from i that have adm: "admitted ?t v" and rep: "rep = report_round (tk_cfg ?t) (count_vote (vote_round ?t v) v)"
        by (auto simp: ingest_vote_eq Let_def split: if_splits)
      have "rd_key (count_vote (vote_round ?t v) v) = vote_key v" using vote_round_inv [OF inv' adm] by simp
      then show "\<lparr>rk_height = rr_height rep, rk_round = rr_round rep, rk_type = rr_type rep\<rparr> = vote_key v"
        "rr_height rep = ve_height v"
        by (simp_all add: rep report_round_def)
    qed
    have t1: "trace_inv ?oc1" using inv1 by (simp add: orch_inv_def)
    have fresh: "vote_key v \<notin> set (detection_keys (oc_published oc))" "spent t (vote_key v)"
      using sp(2) [OF that] p(6) by (auto simp: trace_inv_def Let_def)
    have "commits_first (oc_published ?oc1 @ [EvDivergenceDetected rep])"
      unfolding commits_first_snoc using t1 trace_inv_heights [OF t1] h hh
      by (fastforce simp: trace_inv_def Let_def)
    then have "trace_inv (emit (EvDivergenceDetected rep) ?oc1)"
      using t1 fresh by (simp add: trace_inv_def Let_def key)
    with inv1 publish_inv show ?thesis by (simp add: orch_inv_def)
  qed
  with inv1 i show ?thesis by (simp add: count_live_vote_def Let_def)
qed

lemma handle_vote_inv:
  assumes inv: "orch_inv oc"
  shows "orch_inv (handle_vote w now oc)"
proof (cases "wv_type w \<noteq> 1 \<and> wv_type w \<noteq> 2")
  case True
  with inv show ?thesis by (simp add: handle_vote_def Let_def)
next
  case False
  define vt where "vt = (if wv_type w = 1 then Prevote else Precommit)"
  define st where "st = (if wv_type w = 1 then 4 else 6 :: int)"
  define v where "v = \<lparr>ve_height = wv_height w, ve_round = wv_round w, ve_type = vt, ve_addr = to_upper (wv_addr w),
      ve_hash = to_lower (wv_hash w), ve_timestamp = wv_timestamp w\<rparr>"
  define cell where "cell = \<lparr>vo_kind = (if to_lower (wv_hash w) = '''' then VoteNil else VoteForBlock),
      vo_hash = to_lower (wv_hash w), vo_timestamp = wv_timestamp w\<rparr>"
  let ?oc1 = "oc\<lparr>oc_tracker := observe_vote (oc_tracker oc) v now\<rparr>"
  have inv1: "orch_inv ?oc1" by (rule observe_vote_orch [OF inv])
  note p = orch_inv_parts [OF inv1]
  obtain oc2 ok where s2: "on_state_with (accept_vote (wv_height w) (wv_round w) st (to_upper (wv_addr w)) vt cell now)
      now ?oc1 = (oc2, ok)" by fastforce
  have fwd: "state_forward (oc_state ?oc1) s'"
    if "accept_vote (wv_height w) (wv_round w) st (to_upper (wv_addr w)) vt cell now (oc_state ?oc1) = (s', ok)" for s'
    by (rule accept_vote_forward(1) [OF p(1,2) that])
  note o = on_state_with_inv [OF inv1 s2 fwd]
  from o(5) obtain s' where a: "accept_vote (wv_height w) (wv_round w) st (to_upper (wv_addr w)) vt cell now
      (oc_state ?oc1) = (s', ok)" "oc_state oc2 = s'\<lparr>sd_last_update := now\<rparr>" by blast
  have eq: "handle_vote w now oc = (if ok then count_live_vote v (wv_type w) now oc2 else oc2)"
    using False s2 by (auto simp: handle_vote_def Let_def v_def vt_def st_def cell_def)
  have "sd_committed (oc_state oc2) < ve_height v" if ok
    using accept_vote_forward(2) [OF p(1,2) a(1) that] by (simp add: a(2) v_def)
  with o(1) count_live_vote_inv eq show ?thesis by simp
qed

lemma handle_ws_event_inv:
  assumes inv: "orch_inv oc" and step: "handle_ws_event ev now oc = Some oc'"
    and rng: "\<And>d. ev = WsNewBlock d \<Longrightarrow> wb_height d < int64_max"
  shows "orch_inv oc'"
proof -
  have i1: "orch_inv (on_state (note_ws_event now) now oc)"
    by (rule on_state_inv [OF inv plain_forward [OF inv]]) (simp add: note_ws_event_def)
  show ?thesis
  proof (cases ev)
    case (WsNewBlock d)
    with step handle_new_block_inv [OF i1 _ rng] show ?thesis by (simp add: handle_ws_event_def Let_def)
  next
    case WsValidatorSetUpdates
    have "orch_inv (oc1\<lparr>oc_refresh := b\<rparr>) = orch_inv oc1" for oc1 b
      by (simp add: orch_inv_def trace_inv_def Let_def)
    with WsValidatorSetUpdates step i1 show ?thesis by (auto simp: handle_ws_event_def Let_def)
  qed (use step i1 handle_new_round_inv [OF i1] handle_vote_inv [OF i1] in \<open>auto simp: handle_ws_event_def Let_def\<close>)
qed

section \<open>Polls\<close>

lemma refresh_latest_block_inv:
  assumes inv: "orch_inv oc" and step: "refresh_latest_block fetch h now oc = Some (oc', res)"
    and h: "h \<le> sd_committed (oc_state oc)" "h \<le> int64_max"
  shows "orch_inv oc'"
proof (cases "oc' = oc")
  case True
  with inv show ?thesis by simp
next
  case False
  from step False obtain ans endpoint b where f: "fetch h = Inr (ans, endpoint)" "ba_block ans = Some b"
    by (auto simp: refresh_latest_block_def Let_def split: if_splits sum.splits option.splits)
  define smp where "smp = \<lparr>bs_height = h, bs_time = rb_time b, bs_hash = hex_encode (ba_hash ans),
      bs_app_hash = hex_encode (rb_app_hash b), bs_txs = rb_txs b, bs_ms = 0\<rparr>"
  let ?oc1 = "on_state (\<lambda>s. record_http_success (append_block s smp) endpoint now) now oc"
  from step False f have pos: "0 < h"
    by (auto simp: refresh_latest_block_def split: if_splits)
  from step False f obtain t rs where r: "resolve_commit (oc_tracker ?oc1) h (bs_hash smp) now = Some (t, rs)"
    and oc': "oc' = emit (EvStatusUpdated \<lparr>su_network = '''', su_version = '''', su_our = '''',
        su_catching_up = False, su_latest = h\<rparr>) (publish_resolved rs (?oc1\<lparr>oc_tracker := t\<rparr>))"
    by (auto simp: refresh_latest_block_def Let_def smp_def split: if_splits option.splits)
  note p = orch_inv_parts [OF inv]
  have "state_forward (oc_state oc) (append_block (oc_state oc) smp)"
    by (rule blocks_append(1) [OF p(1,2)]) (simp add: smp_def h)
  then have "state_forward (oc_state oc) (record_http_success (append_block (oc_state oc) smp) endpoint now)"
    by (rule forward_cong) (simp add: record_http_success_def)
  then have i1: "orch_inv ?oc1" by (intro on_state_inv [OF inv])
  have "orch_inv (?oc1\<lparr>oc_tracker := t\<rparr>)" by (rule resolve_commit_orch [OF i1 r]) (use pos h in simp_all)
  then show ?thesis unfolding oc' by (intro orch_inv_emit_plain) (simp_all add: publish_resolved_inv)
qed

lemma apply_status_forward:
  assumes "dash_inv s" and "blocks_below s"
  shows "state_forward s (apply_status ns e now s)" and "ns_latest ns \<le> sd_committed (apply_status ns e now s)"
proof -
  let ?s1 = "record_http_success (s\<lparr>sd_status_error := None, sd_node_status := Some ns\<rparr>) e now"
  have same: "sd_height ?s1 = sd_height s" "sd_round ?s1 = sd_round s" "sd_step ?s1 = sd_step s"
    "sd_committed ?s1 = sd_committed s" "sd_blocks ?s1 = sd_blocks s" "sd_last_round ?s1 = sd_last_round s"
    by (simp_all add: record_http_success_def)
  have f1: "state_forward s ?s1" by (rule forward_cong [OF state_forward_refl [OF assms]]) (simp add: same)
  have "state_forward s (apply_status ns e now s)" if gt: "ns_latest ns > sd_committed s"
  proof (cases "sd_height s > 0 \<and> sd_height s \<le> ns_latest ns")
    case True
    then have "apply_status ns e now s = ?s1\<lparr>sd_committed := ns_latest ns, sd_height := 0, sd_round := 0,
        sd_step := 0, sd_start := 0,
        sd_last_round := map_option (\<lambda>v. v\<lparr>vw_round := 0\<rparr>) (clear_round_votes (sd_last_round s))\<rparr>"
      using gt by (simp add: apply_status_def Let_def same)
    with assms gt True show ?thesis
      by (auto simp: state_forward_def dash_inv_def position_def blocks_below_def same max_int32_def
          clear_round_votes_def)
  next
    case False
    then have "apply_status ns e now s = ?s1\<lparr>sd_committed := ns_latest ns\<rparr>"
      using gt by (auto simp: apply_status_def Let_def same)
    with assms gt False show ?thesis
      by (auto simp: state_forward_def dash_inv_def position_def blocks_below_def same)
  qed
  moreover have "apply_status ns e now s = ?s1" if "\<not> ns_latest ns > sd_committed s"
    using that by (simp add: apply_status_def Let_def same)
  ultimately show "state_forward s (apply_status ns e now s)" using f1 by (cases "ns_latest ns > sd_committed s") simp_all
  show "ns_latest ns \<le> sd_committed (apply_status ns e now s)"
    by (simp add: apply_status_def Let_def same)
qed

lemma refresh_status_inv:
  assumes inv: "orch_inv oc" and step: "refresh_status a fetch now oc = Some (oc', res)"
    and rng: "\<And>st e. a = Inr (st, e) \<Longrightarrow> st_latest st \<le> int64_max"
  shows "orch_inv oc'"
proof -
  have failed: "orch_inv (on_state (status_failed err) now oc)" for err
    by (rule on_state_inv [OF inv plain_forward [OF inv]]) (simp add: status_failed_def)
  show ?thesis
  proof (cases a)
    case (Inl err)
    with step failed show ?thesis by (auto simp: refresh_status_def)
  next
    case (Inr r)
    obtain st e where r: "r = (st, e)" by fastforce
    show ?thesis
    proof (cases "chain_mismatch st (oc_state oc)")
      case (Some err)
      with step failed Inr r show ?thesis by (auto simp: refresh_status_def)
    next
      case None
      let ?ns = "node_status_of st"
      let ?oc1 = "on_state (apply_status ?ns e now) now oc"
      let ?oc2 = "emit (EvStatusUpdated \<lparr>su_network = ns_network ?ns, su_version = ns_version ?ns,
          su_our = ns_our ?ns, su_catching_up = ns_catching_up ?ns, su_latest = ns_latest ?ns\<rparr>) ?oc1"
      note p = orch_inv_parts [OF inv]
      have i1: "orch_inv ?oc1" by (rule on_state_inv [OF inv]) (rule apply_status_forward(1) [OF p(1,2)])
      have i2: "orch_inv ?oc2" by (rule orch_inv_emit_plain [OF i1]) simp_all
      have "ns_latest ?ns \<le> sd_committed (oc_state ?oc2)"
        using apply_status_forward(2) [OF p(1,2)] by (simp add: on_state_def mutate_def)
      moreover have "ns_latest ?ns \<le> int64_max" using rng Inr r by (simp add: node_status_of_def)
      ultimately show ?thesis
        using step Inr r None i2 refresh_latest_block_inv [OF i2]
        by (auto simp: refresh_status_def Let_def split: if_splits)
    qed
  qed
qed

lemma refresh_validators_inv:
  assumes inv: "orch_inv oc"
  shows "orch_inv (fst (refresh_validators a c now oc))"
proof -
  have failed: "orch_inv (on_state (validators_failed err) now oc)" for err
    by (rule on_state_inv [OF inv plain_forward [OF inv]]) (simp add: validators_failed_def)
  have applied: "orch_inv oc1
      \<and> orch_inv (emit (EvValidatorSetUpdated height) (oc1\<lparr>oc_tracker := set_validators (oc_tracker oc1) vs\<rparr>))"
    if s1: "on_state_with (apply_validators rows tot height cvs) now oc = (oc1, ok)"
    for rows tot height cvs oc1 ok vs
  proof -
    note p = orch_inv_parts [OF inv]
    have fwd: "state_forward (oc_state oc) s'" if "apply_validators rows tot height cvs (oc_state oc) = (s', ok)" for s'
    proof -
      have "\<forall>v. sd_last_round (oc_state oc) = Some v \<longrightarrow> vw_round v = sd_round (oc_state oc)"
        using p(1) by (simp add: dash_inv_def)
      with that p(1,2) show ?thesis
        by (auto simp: apply_validators_def merge_validator_round_def Let_def state_forward_def dash_inv_def
            position_def blocks_below_def committed_shown_def split: if_splits bool.splits prod.splits)
    qed
    note o = on_state_with_inv [OF inv s1 fwd]
    have "orch_inv (emit (EvValidatorSetUpdated height) (oc1\<lparr>oc_tracker := set_validators (oc_tracker oc1) vs\<rparr>))"
      by (rule orch_inv_emit_plain [OF set_validators_orch [OF o(1)]]) simp_all
    with o(1) show ?thesis by simp
  qed
  show ?thesis
    unfolding refresh_validators_def Let_def
    using failed applied by (auto split: sum.split prod.split; blast)
qed

lemma refresh_upgrade_inv: "orch_inv oc \<Longrightarrow> orch_inv (fst (refresh_upgrade a now oc))"
  by (auto simp: refresh_upgrade_def intro!: orch_inv_emit_plain on_state_inv plain_forward
      split: sum.split option.split)

lemma refresh_block_time_inv:
  "orch_inv oc \<Longrightarrow> refresh_block_time a fetch now oc = Some (oc', res) \<Longrightarrow> orch_inv oc'"
  by (auto simp: refresh_block_time_def Let_def intro!: orch_inv_emit_plain on_state_inv plain_forward
      split: sum.splits option.splits if_splits)

lemma apply_consensus_forward:
  assumes "dash_inv s" and "blocks_below s" and "apply_consensus h r st e now s = (s', res)"
  shows "state_forward s s'"
    and "res \<noteq> None \<Longrightarrow> position s' = (h, r) \<and> sd_committed s' < h"
proof -
  let ?s1 = "record_http_success (s\<lparr>sd_consensus_error := None\<rparr>) e now"
  have f1: "state_forward s ?s1"
    by (rule forward_cong [OF state_forward_refl [OF assms(1,2)]]) (simp add: record_http_success_def)
  then have inv1: "dash_inv ?s1" "blocks_below ?s1" by (simp_all add: state_forward_def)
  obtain s2 ok where a: "advance_round ?s1 h r st now = (s2, ok)" by fastforce
  have f2: "state_forward s s2" by (rule forward_trans [OF f1 advance_forward [OF inv1 a]])
  note i = advance_round_inv [OF inv1(1) a]
  let ?s3 = "if mode_at (sd_health s2) now \<noteq> ''streaming''
             then s2\<lparr>sd_last_round := clear_round_votes (sd_last_round s2)\<rparr> else s2"
  have f3: "state_forward s ?s3" by (rule forward_cong [OF f2]) simp
  have p3: "position ?s3 = position s2" "sd_committed ?s3 = sd_committed s2" by (simp_all add: position_def)
  have s': "s' = (if mode_at (sd_health s) now = ''streaming'' then s else if ok then ?s3 else s2)"
    "res = (if mode_at (sd_health s) now = ''streaming'' \<or> \<not> ok then None else Some (sd_start ?s3))"
    using assms(3) a by (cases ok; auto simp: apply_consensus_def Let_def split: if_splits)+
  show "state_forward s s'"
    using f2 f3 state_forward_refl [OF assms(1,2)] by (simp only: s'(1) split: if_split) simp
  show "position s' = (h, r) \<and> sd_committed s' < h" if "res \<noteq> None"
  proof -
    have ok: ok and s3: "s' = ?s3" using that s' by (auto split: if_splits)
    from i(3) [OF ok] i(5) have "position s2 = (h, r)" "sd_committed s2 < h" by simp_all
    with p3 show ?thesis by (simp only: s3)
  qed
qed

lemma refresh_consensus_inv:
  assumes inv: "orch_inv oc"
  shows "orch_inv (fst (refresh_consensus a now oc))"
proof -
  have failed: "orch_inv (on_state (consensus_failed err now) now oc)" for err
    by (rule on_state_inv [OF inv plain_forward [OF inv]]) (simp add: consensus_failed_def)
  have applied: "orch_inv oc1 \<and> (\<forall>started. res = Some started \<longrightarrow>
      orch_inv (emit (EvRoundChanged \<lparr>rc_height = h, rc_round = r, rc_step = st, rc_start = started,
                                      rc_proposer = ''''\<rparr>)
                  (oc1\<lparr>oc_tracker := observe_round (oc_tracker oc1) h r '''' now\<rparr>)))"
    if s1: "on_state_with (apply_consensus h r st e now) now oc = (oc1, res)" for h r st e oc1 res
  proof -
    note p = orch_inv_parts [OF inv]
    have fwd: "state_forward (oc_state oc) s'" if "apply_consensus h r st e now (oc_state oc) = (s', res)" for s'
      by (rule apply_consensus_forward(1) [OF p(1,2) that])
    note o = on_state_with_inv [OF inv s1 fwd]
    from o(5) obtain s' where a: "apply_consensus h r st e now (oc_state oc) = (s', res)"
      "oc_state oc1 = s'\<lparr>sd_last_update := now\<rparr>" by blast
    have "orch_inv (emit (EvRoundChanged \<lparr>rc_height = h, rc_round = r, rc_step = st, rc_start = started,
        rc_proposer = ''''\<rparr>) (oc1\<lparr>oc_tracker := observe_round (oc_tracker oc1) h r '''' now\<rparr>))"
      if "res = Some started" for started
      by (rule orch_inv_emit_live [OF observe_round_orch [OF o(1)]])
        (use apply_consensus_forward(2) [OF p(1,2) a(1)] that in \<open>simp_all add: a(2) position_update\<close>)
    with o(1) show ?thesis by blast
  qed
  show ?thesis
    unfolding refresh_consensus_def
    using failed applied by (auto split: sum.split prod.split option.split; blast)
qed

section \<open>Runs\<close>

lemma apply_input_inv:
  assumes "orch_inv oc" and "apply_input i oc = Some oc'" and "input_in_range i"
  shows "orch_inv oc'"
proof (cases i)
  case (InWs ev now)
  have "handle_ws_event ev now oc = Some oc'" using assms(2) InWs by simp
  then show ?thesis
    by (rule handle_ws_event_inv [OF assms(1)]) (use assms(3) InWs in simp)
next
  case (InStatus a f now)
  then obtain res where "refresh_status a f now oc = Some (oc', res)" using assms(2) by auto
  moreover have "st_latest st \<le> int64_max" if "a = Inr (st, e)" for st e
    using assms(3) InStatus that by simp
  ultimately show ?thesis by (rule refresh_status_inv [OF assms(1)])
next
  case (InBlockTime a f now)
  with assms refresh_block_time_inv [OF assms(1)] show ?thesis by auto
qed (use assms refresh_validators_inv refresh_upgrade_inv refresh_consensus_inv in auto)

lemma new_orchestrator_inv:
  assumes "cf_history cfg \<le> int64_max"
  shows "orch_inv (new_orchestrator cfg cap n1 n2)"
proof -
  have "cf_history (tk_cfg (new_tracker cfg)) \<le> int64_max"
    using assms by (simp add: new_tracker_def int64_max_def)
  with new_state_inv new_tracker_inv new_bus_inv show ?thesis
    by (simp add: orch_inv_def new_orchestrator_def trace_inv_def blocks_below_def commits_first_def)
      (simp add: new_state_def)
qed

interpretation orch: machine apply_input run_inputs input_in_range orch_inv
  by unfold_locales (auto intro: apply_input_inv)

lemma run_inputs_inv:
  "orch_inv oc \<Longrightarrow> run_inputs is oc = Some oc' \<Longrightarrow> list_all input_in_range is \<Longrightarrow> orch_inv oc'"
  by (rule orch.run_inv)

end
