(* ===== verification/Orchestrator_Props.thy ===== *)
theory Orchestrator_Props
  imports Orchestrator_Inv
begin

text \<open>The properties of the dashboard state and of the orchestrator.\<close>

section \<open>Returning\<close>

definition blocks_present :: "(int \<Rightarrow> string + block_answer \<times> string) \<Rightarrow> bool" where
  "blocks_present f \<longleftrightarrow> (\<forall>h ans e. f h = Inr (ans, e) \<longrightarrow> ba_block ans \<noteq> None)"

fun answers_present :: "orch_input \<Rightarrow> bool" where
  "answers_present (InBlockTime a f now) = blocks_present f"
| "answers_present i = True"

lemma blocks_presentD: "blocks_present f \<Longrightarrow> f h = Inr (ans, e) \<Longrightarrow> ba_block ans = None \<Longrightarrow> False"
  unfolding blocks_present_def by blast

lemma history_op:
  assumes "tracker_inv t" and "history_ok t" and "apply_op op t = Some (t', ks)"
  shows "history_ok t'"
  using apply_op_returns [OF assms(1,2), of op] assms(3) by (metis option.inject prod.inject)

lemma history_ops:
  assumes "tracker_inv t" and "history_ok t"
  shows "history_ok (observe_vote t v now)" "history_ok (observe_round t h r p now)"
    "history_ok (mark_round_advanced t h r)" "history_ok (set_validators t vs)"
    "ingest_vote t v now = (t', rep, trig) \<Longrightarrow> history_ok t'"
    "resolve_commit t h hash now = Some (t', rs) \<Longrightarrow> history_ok t'"
  using history_op [OF assms, of "ObserveVote v now"] history_op [OF assms, of "ObserveRound h r p now"]
    history_op [OF assms, of "MarkRoundAdvanced h r"] history_op [OF assms, of "SetValidators vs"]
    history_op [OF assms, of "IngestVote v now"] history_op [OF assms, of "ResolveCommit h hash now"]
  by (simp_all split: prod.splits)

lemma publish_resolved_tracker [simp]: "oc_tracker (publish_resolved rs oc) = oc_tracker oc"
  by (induction rs arbitrary: oc) (simp_all add: publish_resolved_def)

lemma on_state_tracker [simp]: "oc_tracker (on_state f now oc) = oc_tracker oc"
  by (simp add: on_state_def)

lemma on_state_with_tracker: "on_state_with f now oc = (oc1, r) \<Longrightarrow> oc_tracker oc1 = oc_tracker oc"
  by (auto simp: on_state_with_def split: prod.splits)

lemma handle_new_block_returns:
  assumes "tracker_inv (oc_tracker oc)" and "history_ok (oc_tracker oc)"
  shows "\<exists>oc'. handle_new_block d now oc = Some oc' \<and> history_ok (oc_tracker oc')"
proof -
  obtain t rs where "resolve_commit (oc_tracker oc) (wb_height d) (to_lower (wb_hash d)) now = Some (t, rs)" "history_ok t"
    using resolve_commit_returns [OF assms] by metis
  with assms show ?thesis
    by (auto simp: handle_new_block_def Let_def on_state_with_tracker split: prod.split)
qed

lemma refresh_latest_block_returns:
  assumes "tracker_inv (oc_tracker oc)" and "history_ok (oc_tracker oc)"
  shows "\<exists>oc' e. refresh_latest_block fetch h now oc = Some (oc', e) \<and> history_ok (oc_tracker oc')"
proof -
  have no: "resolve_commit (oc_tracker oc) k hash now = None \<Longrightarrow> False" for k hash
    using resolve_commit_returns [OF assms, of k hash now] by auto
  show ?thesis
    using assms(2) by (auto simp: refresh_latest_block_def Let_def split: sum.split option.split
        dest: no history_ops(6) [OF assms])
qed

lemma handle_new_round_history:
  assumes "tracker_inv (oc_tracker oc)" and "history_ok (oc_tracker oc)"
  shows "history_ok (oc_tracker (handle_new_round d now oc))"
  using assms history_ops(2) [OF assms]
    history_ops(3) [OF observe_round_tracker [OF assms(1)] history_ops(2) [OF assms]]
  by (auto simp: handle_new_round_def Let_def on_state_with_tracker split: prod.split option.split)

lemma handle_vote_history:
  assumes "tracker_inv (oc_tracker oc)" and "history_ok (oc_tracker oc)"
  shows "history_ok (oc_tracker (handle_vote w now oc))"
proof -
  have "history_ok (oc_tracker (count_live_vote v wire now oc1))"
    if "tracker_inv (oc_tracker oc1)" "history_ok (oc_tracker oc1)" for v wire oc1
    using history_ops(5) [OF that] by (auto simp: count_live_vote_def Let_def split: prod.split)
  with observe_vote_tracker [OF assms(1)] history_ops(1) [OF assms] assms show ?thesis
    by (auto simp: handle_vote_def Let_def split: prod.split dest!: on_state_with_tracker)
qed

lemma apply_input_returns:
  assumes inv: "tracker_inv (oc_tracker oc)" and hist: "history_ok (oc_tracker oc)" and ans: "answers_present i"
  shows "\<exists>oc'. apply_input i oc = Some oc' \<and> history_ok (oc_tracker oc')"
proof (cases i)
  case (InWs ev now)
  let ?oc1 = "on_state (note_ws_event now) now oc"
  have "tracker_inv (oc_tracker ?oc1)" "history_ok (oc_tracker ?oc1)" using inv hist by simp_all
  then show ?thesis
    using InWs handle_new_block_returns [of ?oc1] handle_new_round_history [of ?oc1] handle_vote_history [of ?oc1]
    by (cases ev) (simp_all add: handle_ws_event_def Let_def)
next
  case (InStatus a f now)
  have "\<exists>oc' e. refresh_status a f now oc = Some (oc', e) \<and> history_ok (oc_tracker oc')"
  proof -
    have "\<exists>oc'. map_option (\<lambda>(oc3, err). (oc3, None)) (refresh_latest_block f h now oc2) = Some (oc', None :: string option)
        \<and> history_ok (oc_tracker oc')" if "oc_tracker oc2 = oc_tracker oc" for oc2 h
      using refresh_latest_block_returns [of oc2 f h now] inv hist that by auto
    with inv hist show ?thesis
      by (auto simp: refresh_status_def Let_def split: sum.split option.split)
  qed
  with InStatus show ?thesis by auto
next
  case (InBlockTime a f now)
  with ans hist show ?thesis
    by (auto simp: refresh_block_time_def Let_def split: sum.split option.split dest: blocks_presentD)
next
  case (InValidators a c now)
  have "history_ok (oc_tracker (fst (refresh_validators a c now oc)))"
    using inv hist history_ops(4) [OF inv hist]
    by (auto simp: refresh_validators_def Let_def split: sum.split prod.split dest!: on_state_with_tracker)
  with InValidators show ?thesis by simp
next
  case (InConsensus a now)
  have "history_ok (oc_tracker (fst (refresh_consensus a now oc)))"
    using inv hist history_ops(2) [OF inv hist]
    by (auto simp: refresh_consensus_def split: sum.split prod.split option.split dest!: on_state_with_tracker)
  with InConsensus show ?thesis by simp
next
  case (InUpgrade a now)
  with hist show ?thesis by (auto simp: refresh_upgrade_def split: sum.split option.split)
qed

interpretation live_orch:
  live_machine apply_input run_inputs "\<lambda>i. input_in_range i \<and> answers_present i"
    "\<lambda>oc. orch_inv oc \<and> history_ok (oc_tracker oc)"
proof
  fix i oc
  assume "input_in_range i \<and> answers_present i" and "orch_inv oc \<and> history_ok (oc_tracker oc)"
  then obtain oc1 where oc1: "apply_input i oc = Some oc1" "history_ok (oc_tracker oc1)" "orch_inv oc1"
    using apply_input_returns [of oc i] apply_input_inv [of oc i] by (auto simp: orch_inv_def)
  then show "apply_input i oc \<noteq> None" by simp
  show "orch_inv oc' \<and> history_ok (oc_tracker oc')" if "apply_input i oc = Some oc'" for oc'
    using that oc1 by simp
qed simp_all

lemma run_inputs_history:
  "orch_inv oc \<Longrightarrow> history_ok (oc_tracker oc) \<Longrightarrow> list_all input_in_range is \<Longrightarrow> list_all answers_present is \<Longrightarrow>
     \<exists>oc'. run_inputs is oc = Some oc' \<and> history_ok (oc_tracker oc')"
  using live_orch.run_returns [of "is" oc] by (auto simp: list_all_iff)

lemma run_inputs_returns:
  "orch_inv oc \<Longrightarrow> history_ok (oc_tracker oc) \<Longrightarrow> list_all input_in_range is \<Longrightarrow> list_all answers_present is \<Longrightarrow>
     \<exists>oc'. run_inputs is oc = Some oc'"
  using run_inputs_history by blast

section \<open>A demonstration run\<close>

definition demo_inputs :: "orch_input list" where
  "demo_inputs =
     [InWs (WsNewRound \<lparr>wr_height = 5, wr_round = 0, wr_step = ''RoundStepPropose'', wr_proposer = ''aa''\<rparr>) 10,
      InWs (WsVote \<lparr>wv_type = 1, wv_height = 5, wv_round = 0, wv_hash = ''AB'', wv_timestamp = 9, wv_addr = ''aa''\<rparr>) 11,
      InWs (WsNewBlock \<lparr>wb_height = 5, wb_time = 12, wb_proposer = ''aa'', wb_app_hash = ''CD'', wb_txs = 0, wb_hash = ''AB''\<rparr>) 13]"

definition demo_orch :: orchestrator where
  "demo_orch = new_orchestrator default_config 4 1 2"

definition demo_final :: orchestrator where
  "demo_final = the (run_inputs demo_inputs demo_orch)"

lemma default_history: "cf_history default_config \<le> int64_max" "cf_history default_config \<le> 18014398509481984"
  "0 < cf_history default_config"
  by (simp_all add: default_config_def int64_max_def)

lemma demo_in_range: "list_all input_in_range demo_inputs" "list_all answers_present demo_inputs"
  by (simp_all add: demo_inputs_def int64_max_def)

lemma history_ok_new: "0 < cf_history cfg \<Longrightarrow> cf_history cfg \<le> 18014398509481984 \<Longrightarrow> history_ok (new_tracker cfg)"
  by (simp add: history_ok_def new_tracker_def)

lemma demo_final_run: "run_inputs demo_inputs demo_orch = Some demo_final"
proof -
  have "history_ok (oc_tracker demo_orch)"
    using history_ok_new [OF default_history(3,2)] by (simp add: demo_orch_def new_orchestrator_def)
  with run_inputs_returns [OF new_orchestrator_inv [OF default_history(1)] _ demo_in_range]
  show ?thesis by (auto simp: demo_final_def demo_orch_def)
qed

section \<open>Properties\<close>



text \<open>C7: each block is announced once: the heights of the published \<open>NewBlock\<close> events are strictly
  increasing, whatever duplicates or replays the node sends, and each announced height is committed.\<close>

theorem blocks_announced_once:
  assumes "run_inputs is (new_orchestrator cfg cap n1 n2) = Some oc" and "list_all input_in_range is"
    and "cf_history cfg \<le> int64_max"
  shows "sorted_wrt (<) (block_heights (oc_published oc))
         \<and> (\<forall>h \<in> set (block_heights (oc_published oc)). h \<le> sd_committed (oc_state oc))"
  using run_inputs_inv [OF new_orchestrator_inv [OF assms(3)] assms(1,2)] trace_inv_heights [of oc]
  by (simp add: orch_inv_def) (simp add: trace_inv_def Let_def)

theorem blocks_announced_once_witness:
  "sorted_wrt (<) (block_heights (oc_published demo_final))"
  using blocks_announced_once [OF demo_final_run [unfolded demo_orch_def] demo_in_range(1) default_history(1)] by simp

text \<open>The orchestrator publishes at most one \<open>DivergenceDetected\<close> event for each height, round and
  vote type over its whole life.\<close>

theorem divergence_announced_once:
  assumes "run_inputs is (new_orchestrator cfg cap n1 n2) = Some oc" and "list_all input_in_range is"
    and "cf_history cfg \<le> int64_max"
  shows "distinct (detection_keys (oc_published oc))"
  using run_inputs_inv [OF new_orchestrator_inv [OF assms(3)] assms(1,2)]
  by (simp add: orch_inv_def trace_inv_def Let_def)

theorem divergence_announced_once_witness: "distinct (detection_keys (oc_published demo_final))"
  by (rule divergence_announced_once [OF demo_final_run [unfolded demo_orch_def] demo_in_range(1) default_history(1)])

text \<open>C8: the dashboard state stays consistent over every run: the active height is above the last
  committed one (or there is none), the round view is the one of the active round, the block history
  is strictly increasing, at most 120 long and within the committed heights, and the tracker's and the
  bus's invariants hold with it.\<close>

theorem dashboard_consistent:
  assumes "run_inputs is (new_orchestrator cfg cap n1 n2) = Some oc" and "list_all input_in_range is"
    and "cf_history cfg \<le> int64_max"
  shows "(sd_height (oc_state oc) = 0 \<or> sd_committed (oc_state oc) < sd_height (oc_state oc))
         \<and> (\<forall>v. sd_last_round (oc_state oc) = Some v \<longrightarrow> vw_round v = sd_round (oc_state oc))
         \<and> sorted_wrt (<) (map bs_height (sd_blocks (oc_state oc))) \<and> length (sd_blocks (oc_state oc)) \<le> 120
         \<and> (\<forall>b \<in> set (sd_blocks (oc_state oc)). bs_height b \<le> sd_committed (oc_state oc))
         \<and> tracker_inv (oc_tracker oc) \<and> bus_inv (oc_bus oc)"
  using run_inputs_inv [OF new_orchestrator_inv [OF assms(3)] assms(1,2)]
  by (auto simp: orch_inv_def dash_inv_def blocks_inv_def blocks_below_def sorted_wrt_map split: if_splits)

theorem dashboard_consistent_witness:
  "sorted_wrt (<) (map bs_height (sd_blocks (oc_state demo_final))) \<and> length (sd_blocks (oc_state demo_final)) \<le> 120"
  using dashboard_consistent [OF demo_final_run [unfolded demo_orch_def] demo_in_range(1) default_history(1)] by simp

text \<open>C5: the orchestrator never panics: for a history size of at most \<open>2^54\<close> every run returns,
  provided the block answers of the block-time poll carry a block.\<close>

theorem orchestrator_returns:
  assumes "list_all input_in_range is" and "list_all answers_present is"
    and "0 < cf_history cfg" and "cf_history cfg \<le> 18014398509481984"
  shows "\<exists>oc. run_inputs is (new_orchestrator cfg cap n1 n2) = Some oc"
proof (rule run_inputs_returns [OF new_orchestrator_inv _ assms(1,2)])
  show "cf_history cfg \<le> int64_max" using assms(4) by (simp add: int64_max_def)
  show "history_ok (oc_tracker (new_orchestrator cfg cap n1 n2))"
    using history_ok_new [OF assms(3,4)] by (simp add: new_orchestrator_def)
qed

theorem orchestrator_returns_witness: "\<exists>oc. run_inputs demo_inputs (new_orchestrator default_config 4 1 2) = Some oc"
  by (rule orchestrator_returns [OF demo_in_range default_history(3,2)])

text \<open>The block-time poll panics on a nil block.  When the chain client answers without error but
  one of the two blocks is missing (a pruned height), the poll dereferences nil; \<open>obs.Recover\<close> then
  ends the poller for good.  It does so in no other case.\<close>

theorem block_time_panics_iff:
  "refresh_block_time ans fetch now oc = None \<longleftrightarrow>
     (\<exists>latest a e b f. ans = Inr latest \<and> 100 < latest \<and> fetch latest = Inr (a, e)
        \<and> fetch (latest - 100) = Inr (b, f) \<and> (ba_block a = None \<or> ba_block b = None))"
  by (auto simp: refresh_block_time_def Let_def split: sum.splits option.splits)

text \<open>Without new observations the reported mode only degrades, from streaming to polling to stale;
  it is unavailable exactly before the first success.\<close>

theorem mode_only_degrades:
  assumes "now \<le> now'"
  shows "mode_rank (mode_at h now') \<le> mode_rank (mode_at h now)
         \<and> (mode_at h now = ''unavailable'' \<longleftrightarrow> he_success_at h = 0)"
  using mode_decays_rank [OF assms] by (simp add: mode_at_def)

theorem mode_only_degrades_witness:
  "mode_rank (mode_at ((sd_health (new_state 1 2))\<lparr>he_success_at := 5, he_http_at := 5\<rparr>) 100000000000)
     \<le> mode_rank (mode_at ((sd_health (new_state 1 2))\<lparr>he_success_at := 5, he_http_at := 5\<rparr>) 6)"
  using mode_only_degrades [of 6 100000000000] by simp

end
