(* ===== verification/Bus_Props.thy ===== *)
theory Bus_Props
  imports Event_Bus
begin

text \<open>
  The properties of the event bus: what one subscriber sees of a sequence of events, and what
  publishers that interleave on a full subscription can lose.
\<close>

section \<open>Values in flight\<close>

definition in_flight :: "'e publisher \<Rightarrow> 'e multiset" where
  "in_flight p = (case p of TrySend e \<Rightarrow> {#e#} | TakeOldest e \<Rightarrow> {#e#} | Resend e \<Rightarrow> {#e#} | Finished \<Rightarrow> {#})"

definition race_values :: "'e race \<Rightarrow> 'e multiset" where
  "race_values s = mset (rs_delivered s) + mset (rs_queue s) + (\<Sum>p \<in># mset (rs_pubs s). in_flight p)"

lemma sum_mset_update:
  assumes "i < length ps"
  shows "(\<Sum>p \<in># mset (ps[i := p']). in_flight p) + in_flight (ps ! i)
           = (\<Sum>p \<in># mset ps. in_flight p) + in_flight p'"
proof -
  have "mset (ps[i := p']) = add_mset p' (mset ps - {#ps ! i#})" by (rule mset_update [OF assms])
  moreover have "mset ps = add_mset (ps ! i) (mset ps - {#ps ! i#})"
    using assms by (simp add: insert_DiffM)
  ultimately obtain rest where "mset (ps[i := p']) = add_mset p' rest" "mset ps = add_mset (ps ! i) rest" by metis
  then show ?thesis by (simp add: ac_simps)
qed

text \<open>A step keeps the values, or loses one and counts it as lost.\<close>

definition accounts :: "'e multiset \<Rightarrow> 'e race \<Rightarrow> bool" where
  "accounts m s \<longleftrightarrow> race_values s \<subseteq># m \<and> size m = size (race_values s) + rs_lost s"

lemma accountsI:
  assumes "accounts m s" and "race_values s = race_values s' + gone" and "rs_lost s' = rs_lost s + size gone"
  shows "accounts m s'"
  using assms by (auto simp: accounts_def dest: subset_mset.trans [OF mset_subset_eq_add_left])

lemma consumer_accounts: "accounts m s \<Longrightarrow> accounts m (consumer_step s)"
  by (rule accountsI [where gone = "{#}" and s = s])
    (auto simp: consumer_step_def chan_recv_def race_values_def split: list.split)

lemma publisher_accounts:
  assumes "accounts m s"
  shows "accounts m (publisher_step cap i s)"
proof (cases "i < length (rs_pubs s)")
  case False
  with assms show ?thesis by (simp add: publisher_step_def)
next
  case True
  note upd = sum_mset_update [OF True]
  show ?thesis
  proof (cases "rs_pubs s ! i")
    case (TrySend e)
    then show ?thesis using upd [of Finished] upd [of "TakeOldest e"]
      by (intro accountsI [OF assms, where gone = "{#}"])
        (auto simp: True publisher_step_def chan_send_def race_values_def in_flight_def)
  next
    case (TakeOldest e)
    then show ?thesis using upd [of "Resend e"]
      by (intro accountsI [OF assms, where gone = "mset (take 1 (rs_queue s))"])
        (auto simp: True publisher_step_def chan_recv_def race_values_def in_flight_def split: list.split)
  next
    case (Resend e)
    then show ?thesis using upd [of Finished]
      by (intro accountsI [OF assms, where gone = "if length (rs_queue s) < cap then {#} else {#e#}"])
        (auto simp: True publisher_step_def chan_send_def race_values_def in_flight_def)
  next
    case Finished
    with assms True show ?thesis by (simp add: publisher_step_def)
  qed
qed

lemma race_accounts: "race_reach cap (fresh_race q es) s \<Longrightarrow> accounts (mset (q @ es)) s"
proof (induction rule: race_reach.induct)
  case race_start
  have "(\<Sum>p \<in># mset (map TrySend es). in_flight p) = mset es" by (induction es) (simp_all add: in_flight_def)
  then show ?case by (simp add: accounts_def race_values_def fresh_race_def)
qed (simp_all add: consumer_accounts publisher_accounts)

section \<open>Properties\<close>

text \<open>C13: a subscriber is never blocked and never blocks others: after any sequence of events its queue
  holds, in order, exactly the newest events of the kinds it asked for, as many as its buffer holds,
  and its counter has grown by the number that were dropped; the other subscribers play no part.\<close>

theorem subscriber_keeps_newest:
  assumes "bus_inv b" and "map_of (bu_subs b) i = Some s"
  shows "\<exists>s'. map_of (bu_subs (fold publish es b)) i = Some s'
           \<and> sb_queue s' = (let wanted = sb_queue s @ filter (wants s) es in drop (length wanted - bu_cap b) wanted)
           \<and> sb_dropped s' = sb_dropped s + of_nat (length (sb_queue s) + length (filter (wants s) es) - bu_cap b)"
proof -
  have cap: "0 < bu_cap b" and len: "length (sb_queue s) \<le> bu_cap b"
    using assms gmap_all_lookup [OF _ assms(2)] unfolding bus_inv_def by blast+
  note buffer = deliver_newest_buffer [OF cap]
  note keep = keeps_newest.offers_keep_newest [OF newest_buffer.axioms(1) [OF buffer] len]
    newest_buffer.offers_count_losses [OF buffer len]
  from assms(2) show ?thesis
    by (simp add: publish_all map_of_gmap_vals keep Let_def)
qed

theorem subscriber_keeps_newest_witness:
  "\<exists>s'. map_of (bu_subs (fold publish [EvError ''a'' ''b'', EvBlockTimeUpdated 7]
            (snd (subscribe ''tui'' [KindBlockTimeUpdated] (new_bus 1))))) 0 = Some s'
        \<and> sb_queue s' = [EvBlockTimeUpdated 7]"
  using subscriber_keeps_newest [OF subscribe_inv [OF new_bus_inv], of "''tui''" "[KindBlockTimeUpdated]" 1 0 _
      "[EvError ''a'' ''b'', EvBlockTimeUpdated 7]"]
  by (auto simp: subscribe_def new_bus_def wants_def)

text \<open>C21: publishers that interleave on one full subscription never invent or repeat an event, never
  overfill the queue, and lose at most two events for each drop that is or will be counted.\<close>

theorem concurrent_publishers:
  assumes "race_reach cap (fresh_race q es) s" and "length q \<le> cap"
  shows "length (rs_queue s) \<le> cap \<and> mset (rs_delivered s) + mset (rs_queue s) \<subseteq># mset (q @ es)
         \<and> rs_lost s \<le> 2 * rs_dropped s + resending s"
proof -
  have "accounts (mset (q @ es)) s" by (rule race_accounts [OF assms(1)])
  then have "mset (rs_delivered s) + mset (rs_queue s) \<subseteq># mset (q @ es)"
    unfolding accounts_def race_values_def by (meson mset_subset_eq_add_left subset_mset.trans)
  moreover have "length (rs_queue s) \<le> cap \<and> rs_lost s \<le> 2 * rs_dropped s + resending s"
    by (rule race_bound [OF assms(1) _ refl]) (simp add: fresh_race_def assms(2))
  ultimately show ?thesis by simp
qed

definition play :: "nat \<Rightarrow> nat list \<Rightarrow> 'e race \<Rightarrow> 'e race" where
  "play cap is s = fold (\<lambda>i s. if i = 0 then consumer_step s else publisher_step cap (i - 1) s) is s"

lemma play_reach: "race_reach cap s0 s \<Longrightarrow> race_reach cap s0 (play cap is s)"
  unfolding play_def by (induction "is" arbitrary: s) (auto intro: race_publisher race_consumer)

text \<open>A schedule that reaches the bound: two events are lost and one drop is counted.\<close>

definition two_lost :: "nat race" where
  "two_lost = play 1 [1, 1, 2, 1] (fresh_race [0] [1, 2])"

theorem concurrent_publishers_witness:
  "rs_lost two_lost = 2 \<and> rs_dropped two_lost = 1 \<and> rs_pubs two_lost = [Finished, Finished]
   \<and> rs_lost two_lost \<le> 2 * rs_dropped two_lost + resending two_lost"
  using concurrent_publishers [OF play_reach [OF race_start, of 1 "fresh_race [0::nat] [1, 2]" "[1, 1, 2, 1]"]]
  by (simp add: two_lost_def) code_simp

end
