(* ===== verification/Comparison.thy ===== *)
theory Comparison
  imports Orchestrator
begin

text \<open>
  The comparison of application hashes across monitored RPC endpoints
  (\<open>internal/core/comparison.go\<close>).  What the pools answer is a parameter: \<open>st\<close> gives the
  chain and latest height an endpoint reports or its error, \<open>bl\<close> the block it returns for a height.
  Each goroutine writes its own row only, so the two rounds of requests are maps over the rows.
\<close>

section \<open>Definitions\<close>

type_synonym status_oracle = "string \<Rightarrow> string + string \<times> int"
type_synonym block_oracle = "string \<Rightarrow> int \<Rightarrow> string + block_answer"

text \<open>The \<open>seen\<close> set of the code is the set of the URLs gathered so far.\<close>

fun add_unseen :: "string list \<Rightarrow> string list \<Rightarrow> string list" where
  "add_unseen urls [] = urls"
| "add_unseen urls (e # es) = (if e \<in> set urls then add_unseen urls es else add_unseen (urls @ [e]) es)"

definition first_row :: "status_oracle \<Rightarrow> string \<Rightarrow> endpoint_result" where
  "first_row st ep =
     (let row = \<lparr>er_endpoint = ep, er_status = ''error'', er_chain = '''', er_height = 0, er_latest = 0,
                 er_app_hash = '''', er_error = ''''\<rparr>
      in case st ep of
           Inl err \<Rightarrow> row\<lparr>er_error := err\<rparr>
         | Inr (chain, latest) \<Rightarrow> row\<lparr>er_chain := chain, er_latest := latest, er_status := ''pending''\<rparr>)"

definition wrong_height_error :: "int \<Rightarrow> string" where
  "wrong_height_error h = ''endpoint did not return requested height '' @ format_int h"

definition fetch_row :: "block_oracle \<Rightarrow> int \<Rightarrow> string \<Rightarrow> endpoint_result \<Rightarrow> endpoint_result" where
  "fetch_row bl h chain row =
     (if er_status row = ''error'' then row
      else if er_chain row \<noteq> chain
      then row\<lparr>er_status := ''chain_mismatch'', er_error := ''endpoint belongs to a different chain''\<rparr>
      else if er_latest row < h then row\<lparr>er_status := ''lagging''\<rparr>
      else case bl (er_endpoint row) h of
        Inl err \<Rightarrow> row\<lparr>er_status := ''error'', er_error := err\<rparr>
      | Inr ans \<Rightarrow>
          (case ba_block ans of
             None \<Rightarrow> row\<lparr>er_status := ''error'', er_error := wrong_height_error h\<rparr>
           | Some b \<Rightarrow>
               if rb_height b \<noteq> h then row\<lparr>er_status := ''error'', er_error := wrong_height_error h\<rparr>
               else if rb_chain b \<noteq> chain
               then row\<lparr>er_status := ''chain_mismatch'', er_error := ''block header belongs to a different chain''\<rparr>
               else row\<lparr>er_height := rb_height b, er_app_hash := hex_encode (rb_app_hash b),
                        er_status := ''compared''\<rparr>))"

definition match_row :: "string \<Rightarrow> endpoint_result \<Rightarrow> endpoint_result" where
  "match_row refhash row =
     (if er_status row \<noteq> ''compared'' then row
      else if er_app_hash row = refhash then row\<lparr>er_status := ''match''\<rparr>
      else row\<lparr>er_status := ''mismatch''\<rparr>)"

definition no_reference :: "endpoint_result \<Rightarrow> endpoint_result" where
  "no_reference row =
     (if er_status row = ''compared''
      then row\<lparr>er_status := ''error'', er_error := ''reference block is unavailable''\<rparr> else row)"

definition no_height :: "endpoint_result \<Rightarrow> endpoint_result" where
  "no_height row =
     (if er_status row = ''pending''
      then row\<lparr>er_status := ''error'', er_error := ''reference height is unavailable''\<rparr> else row)"

text \<open>The statuses of the other rows once the reference is known: all matching, some mismatch, or neither.\<close>

definition overall :: "endpoint_result list \<Rightarrow> string" where
  "overall rows =
     (if list_ex (\<lambda>r. er_status r = ''mismatch'') rows then ''mismatch''
      else if rows \<noteq> [] \<and> length (filter (\<lambda>r. er_status r = ''match'') rows) = length rows then ''matching''
      else ''incomplete'')"

definition compare_endpoints :: "status_oracle \<Rightarrow> block_oracle \<Rightarrow> string list \<Rightarrow> gtime \<Rightarrow> rpc_comparison" where
  "compare_endpoints st bl urls now =
     (let rows = map (first_row st) urls; primary = hd rows
      in if er_status primary = ''pending'' \<and> er_latest primary > 0
         then
           let h = er_latest primary; chain = er_chain primary;
               rows1 = map (fetch_row bl h chain) rows; reference = hd rows1
           in if er_status reference = ''compared''
              then let others = map (match_row (er_app_hash reference)) (tl rows1)
                   in \<lparr>cmp_status = overall others, cmp_height = h, cmp_chain = chain, cmp_checked = now,
                       cmp_endpoints = reference\<lparr>er_status := ''reference''\<rparr> # others\<rparr>
              else \<lparr>cmp_status = ''incomplete'', cmp_height = h, cmp_chain = chain, cmp_checked = now,
                    cmp_endpoints = reference # map no_reference (tl rows1)\<rparr>
         else \<lparr>cmp_status = ''incomplete'', cmp_height = 0, cmp_chain = '''', cmp_checked = now,
               cmp_endpoints = map no_height rows\<rparr>)"

definition refresh_comparison ::
  "status_oracle \<Rightarrow> block_oracle \<Rightarrow> string \<Rightarrow> string list \<Rightarrow> gtime \<Rightarrow> orchestrator \<Rightarrow> orchestrator" where
  "refresh_comparison st bl primary monitored now oc =
     (let report = compare_endpoints st bl (add_unseen [primary] monitored) now
      in emit (EvEndpointAppHashDivergence report) (on_state (\<lambda>s. s\<lparr>sd_comparison := report\<rparr>) now oc))"

section \<open>What an endpoint shows\<close>

text \<open>
  The specification: the application hash an endpoint shows for a height of a chain, when it is on
  that chain, has reached the height, and returns that block of that chain.
\<close>

definition shown_hash :: "status_oracle \<Rightarrow> block_oracle \<Rightarrow> int \<Rightarrow> string \<Rightarrow> string \<Rightarrow> string option" where
  "shown_hash st bl h chain ep =
     (case st ep of Inl _ \<Rightarrow> None
      | Inr (c, latest) \<Rightarrow>
          if c \<noteq> chain \<or> latest < h then None
          else case bl ep h of Inl _ \<Rightarrow> None
          | Inr ans \<Rightarrow> (case ba_block ans of None \<Rightarrow> None
              | Some b \<Rightarrow> if rb_height b = h \<and> rb_chain b = chain then Some (rb_app_hash b) else None))"

definition reference_of :: "status_oracle \<Rightarrow> block_oracle \<Rightarrow> string \<Rightarrow> (int \<times> string \<times> string) option" where
  "reference_of st bl primary =
     (case st primary of Inl _ \<Rightarrow> None
      | Inr (chain, latest) \<Rightarrow>
          if 0 < latest then map_option (\<lambda>x. (latest, chain, x)) (shown_hash st bl latest chain primary) else None)"

lemma first_row_endpoint [simp]: "er_endpoint (first_row st ep) = ep"
  by (simp add: first_row_def Let_def split: sum.split prod.split)

lemma fetch_row_endpoint [simp]: "er_endpoint (fetch_row bl h chain row) = er_endpoint row"
  by (simp add: fetch_row_def split: sum.split option.split)

lemma match_row_endpoint [simp]: "er_endpoint (match_row x row) = er_endpoint row"
  by (simp add: match_row_def)

lemma no_reference_endpoint [simp]: "er_endpoint (no_reference row) = er_endpoint row"
  by (simp add: no_reference_def)

lemma no_height_endpoint [simp]: "er_endpoint (no_height row) = er_endpoint row"
  by (simp add: no_height_def)

lemma compared_iff:
  "er_status (fetch_row bl h chain (first_row st ep)) = ''compared'' \<longleftrightarrow> shown_hash st bl h chain ep \<noteq> None"
  by (simp add: fetch_row_def first_row_def shown_hash_def split: sum.split prod.split option.split)

lemma compared_hash:
  "shown_hash st bl h chain ep = Some x \<Longrightarrow>
     er_status (fetch_row bl h chain (first_row st ep)) = ''compared''
     \<and> er_app_hash (fetch_row bl h chain (first_row st ep)) = hex_encode x"
  by (auto simp: fetch_row_def first_row_def shown_hash_def split: sum.splits prod.splits option.splits if_splits)

lemma fetch_row_statuses:
  "er_status (fetch_row bl h chain (first_row st ep)) \<in>
     {''error'', ''chain_mismatch'', ''lagging'', ''compared''}"
  by (simp add: fetch_row_def first_row_def split: sum.split prod.split option.split)

lemma matched_status:
  "er_status (match_row (hex_encode x) (fetch_row bl h chain (first_row st ep))) = ''match'' \<longleftrightarrow>
     shown_hash st bl h chain ep = Some x"
  "er_status (match_row (hex_encode x) (fetch_row bl h chain (first_row st ep))) = ''mismatch'' \<longleftrightarrow>
     (\<exists>y. shown_hash st bl h chain ep = Some y \<and> y \<noteq> x)"
proof -
  let ?row = "fetch_row bl h chain (first_row st ep)"
  consider y where "shown_hash st bl h chain ep = Some y" | "shown_hash st bl h chain ep = None" by fastforce
  then have "(er_status (match_row (hex_encode x) ?row) = ''match'' \<longleftrightarrow> shown_hash st bl h chain ep = Some x)
    \<and> (er_status (match_row (hex_encode x) ?row) = ''mismatch'' \<longleftrightarrow>
        (\<exists>y. shown_hash st bl h chain ep = Some y \<and> y \<noteq> x))"
  proof cases
    case 1
    with compared_hash [OF 1] show ?thesis by (simp add: match_row_def hex_encode_inject)
  next
    case 2
    with compared_iff [of bl h chain st ep] fetch_row_statuses [of bl h chain st ep] show ?thesis
      by (auto simp: match_row_def)
  qed
  then show "er_status (match_row (hex_encode x) ?row) = ''match'' \<longleftrightarrow> shown_hash st bl h chain ep = Some x"
    "er_status (match_row (hex_encode x) ?row) = ''mismatch'' \<longleftrightarrow>
      (\<exists>y. shown_hash st bl h chain ep = Some y \<and> y \<noteq> x)" by auto
qed

lemma reference_cases:
  "reference_of st bl ep = Some (h, chain, x) \<longleftrightarrow>
     er_status (first_row st ep) = ''pending'' \<and> 0 < er_latest (first_row st ep)
     \<and> h = er_latest (first_row st ep) \<and> chain = er_chain (first_row st ep) \<and> shown_hash st bl h chain ep = Some x"
  by (auto simp: reference_of_def first_row_def split: sum.split prod.split)

lemma overall_mismatch: "overall rows = ''mismatch'' \<longleftrightarrow> (\<exists>r \<in> set rows. er_status r = ''mismatch'')"
  by (auto simp: overall_def list_ex_iff)

lemma overall_matching:
  "overall rows = ''matching'' \<longleftrightarrow> rows \<noteq> [] \<and> (\<forall>r \<in> set rows. er_status r = ''match'')"
proof -
  have "length (filter P rows) = length rows \<longleftrightarrow> (\<forall>r \<in> set rows. P r)" for P :: "endpoint_result \<Rightarrow> bool"
    by (metis (mono_tags, lifting) filter_True length_filter_less less_irrefl)
  then show ?thesis by (auto simp: overall_def list_ex_iff)
qed

lemma compare_with_reference:
  assumes "reference_of st bl ep = Some (h, chain, x)"
  shows "compare_endpoints st bl (ep # eps) now =
    \<lparr>cmp_status = overall (map (\<lambda>e. match_row (hex_encode x) (fetch_row bl h chain (first_row st e))) eps),
     cmp_height = h, cmp_chain = chain, cmp_checked = now,
     cmp_endpoints = (fetch_row bl h chain (first_row st ep))\<lparr>er_status := ''reference''\<rparr>
       # map (\<lambda>e. match_row (hex_encode x) (fetch_row bl h chain (first_row st e))) eps\<rparr>"
proof -
  have *: "er_status (first_row st ep) = ''pending''" "0 < er_latest (first_row st ep)"
    "er_latest (first_row st ep) = h" "er_chain (first_row st ep) = chain" "shown_hash st bl h chain ep = Some x"
    using assms unfolding reference_cases by auto
  show ?thesis
    using compared_hash [OF *(5)] *(1,2) by (simp add: compare_endpoints_def Let_def comp_def *(3,4))
qed

lemma compare_without_reference:
  assumes "reference_of st bl ep = None"
  shows "cmp_status (compare_endpoints st bl (ep # eps) now) = ''incomplete''"
proof -
  have "\<not> (er_status (first_row st ep) = ''pending'' \<and> 0 < er_latest (first_row st ep)
      \<and> shown_hash st bl (er_latest (first_row st ep)) (er_chain (first_row st ep)) ep \<noteq> None)"
    using assms reference_cases [of st bl ep] by fastforce
  then show ?thesis
    by (auto simp: compare_endpoints_def Let_def compared_iff)
qed

lemma add_unseen_props:
  "distinct urls \<Longrightarrow> distinct (add_unseen urls es) \<and> set (add_unseen urls es) = set urls \<union> set es
     \<and> take (length urls) (add_unseen urls es) = urls"
proof (induction urls es rule: add_unseen.induct)
  case (2 urls e es)
  have "take (length urls) xs = urls" if "take (Suc (length urls)) xs = urls @ [e]" for xs
    using arg_cong [OF that, of "take (length urls)"] by simp
  with 2 show ?case by auto
qed simp

section \<open>Properties\<close>

text \<open>C11: the verdict of a comparison is sound and complete.  It is a mismatch exactly when the primary
  shows a block at its latest height and some other endpoint shows a different application hash for
  the same height of the same chain; it is matching exactly when there are other endpoints and every
  one of them shows the primary's hash.  Lagging, foreign and unreachable endpoints decide nothing.\<close>

theorem comparison_verdict:
  "(cmp_status (compare_endpoints st bl (ep # eps) now) = ''mismatch'' \<longleftrightarrow>
      (\<exists>h chain x. reference_of st bl ep = Some (h, chain, x)
         \<and> (\<exists>e y. e \<in> set eps \<and> shown_hash st bl h chain e = Some y \<and> y \<noteq> x)))
   \<and> (cmp_status (compare_endpoints st bl (ep # eps) now) = ''matching'' \<longleftrightarrow>
      eps \<noteq> [] \<and> (\<exists>h chain x. reference_of st bl ep = Some (h, chain, x)
         \<and> list_all (\<lambda>e. shown_hash st bl h chain e = Some x) eps))"
proof (cases "reference_of st bl ep")
  case None
  then show ?thesis by (simp add: compare_without_reference)
next
  case (Some r)
  obtain h chain x where r: "r = (h, chain, x)" by (cases r)
  with compare_with_reference [OF Some [unfolded r], of eps now] show ?thesis
    by (auto simp: Some overall_mismatch overall_matching matched_status list_all_iff)
qed

text \<open>The report has one row for each distinct monitored endpoint, the primary first, whatever the
  endpoints answer, and the subscribers are told exactly the report that the dashboard holds.\<close>

theorem comparison_rows:
  "let oc' = refresh_comparison st bl primary monitored now oc; rep = sd_comparison (oc_state oc')
   in oc_published oc' = oc_published oc @ [EvEndpointAppHashDivergence rep]
      \<and> distinct (map er_endpoint (cmp_endpoints rep))
      \<and> set (map er_endpoint (cmp_endpoints rep)) = insert primary (set monitored)
      \<and> er_endpoint (hd (cmp_endpoints rep)) = primary"
proof -
  obtain urls where u: "add_unseen [primary] monitored = primary # urls"
    using add_unseen_props [of "[primary]" monitored] by (cases "add_unseen [primary] monitored") auto
  have p: "distinct (primary # urls)" "set (primary # urls) = insert primary (set monitored)"
    using add_unseen_props [of "[primary]" monitored] u by auto
  have e: "map er_endpoint (cmp_endpoints (compare_endpoints st bl (primary # urls) now)) = primary # urls"
    by (simp add: compare_endpoints_def Let_def comp_def)
  then have "er_endpoint (hd (cmp_endpoints (compare_endpoints st bl (primary # urls) now))) = primary"
    by (metis hd_map list.map_disc_iff list.sel(1) list.distinct(1))
  with e p show ?thesis
    by (simp only: refresh_comparison_def Let_def u emit_def on_state_def mutate_def) simp
qed

end
