(* ===== verification/Log_Ring.thy ===== *)
theory Log_Ring
  imports Buffers
begin

text \<open>
  The ring of recent log lines (\<open>internal/obs/log.go\<close>): a fixed array with a write position, its
  live subscribers, and its view in chronological order.  The line is a type parameter; a
  subscriber's channel is named by a number and modelled by its capacity and its buffered lines.
\<close>

section \<open>Definitions\<close>

record 'l ring =
  rg_buf :: "'l list"
  rg_head :: nat
  rg_full :: bool
  rg_subs :: "(nat, nat \<times> 'l list) gomap"

text \<open>\<open>blank\<close> is the zero line that \<open>make\<close> fills the array with.\<close>

definition new_ring :: "'l \<Rightarrow> int \<Rightarrow> 'l ring" where
  "new_ring blank cap =
     \<lparr>rg_buf = replicate (nat (if cap \<le> 0 then 256 else cap)) blank, rg_head = 0, rg_full = False, rg_subs = []\<rparr>"

definition push :: "'l \<Rightarrow> 'l ring \<Rightarrow> 'l ring" where
  "push l r =
     (let head = (rg_head r + 1) mod length (rg_buf r)
      in r\<lparr>rg_buf := (rg_buf r)[rg_head r := l], rg_head := head, rg_full := (head = 0 \<or> rg_full r),
           rg_subs := gmap_vals (\<lambda>ch (cap, q). (cap, case chan_send cap l q of Some q' \<Rightarrow> q' | None \<Rightarrow> q))
                        (rg_subs r)\<rparr>)"

definition ring_snapshot :: "'l ring \<Rightarrow> 'l list" where
  "ring_snapshot r =
     (if \<not> rg_full r then take (rg_head r) (rg_buf r)
      else drop (rg_head r) (rg_buf r) @ take (rg_head r) (rg_buf r))"

definition ring_subscribe :: "nat \<Rightarrow> nat \<Rightarrow> 'l list \<Rightarrow> 'l ring \<Rightarrow> 'l ring" where
  "ring_subscribe ch cap q r = r\<lparr>rg_subs := gput ch (cap, q) (rg_subs r)\<rparr>"

definition ring_cancel :: "nat \<Rightarrow> 'l ring \<Rightarrow> 'l ring" where
  "ring_cancel ch r = r\<lparr>rg_subs := gdel ch (rg_subs r)\<rparr>"

section \<open>The ring keeps the newest lines\<close>

definition ring_ok :: "nat \<Rightarrow> 'l ring \<Rightarrow> bool" where
  "ring_ok n r \<longleftrightarrow> length (rg_buf r) = n \<and> rg_head r < n"

lemma ring_ok_new: "n = nat (if cap \<le> 0 then 256 else cap) \<Longrightarrow> ring_ok n (new_ring blank cap)"
  by (auto simp: ring_ok_def new_ring_def)

lemma ring_ok_push: "ring_ok n r \<Longrightarrow> ring_ok n (push l r)"
  by (auto simp: ring_ok_def push_def Let_def)

lemma ring_length: "ring_ok n r \<Longrightarrow> length (ring_snapshot r) = (if rg_full r then n else rg_head r)"
  by (auto simp: ring_ok_def ring_snapshot_def)

lemma take_drop_update:
  "h < length xs \<Longrightarrow> take (Suc h) (xs[h := x]) = take h xs @ [x]"
  "h < length xs \<Longrightarrow> drop (Suc h) (xs[h := x]) = drop (Suc h) xs"
  by (simp_all add: take_Suc_conv_app_nth)

text \<open>The write position after a push either advances or wraps at the end of the array.\<close>

lemma push_cases:
  assumes "ring_ok n r"
  obtains (inside) "Suc (rg_head r) < n" "rg_head (push l r) = Suc (rg_head r)" "rg_full (push l r) = rg_full r"
  | (wraps) "Suc (rg_head r) = n" "rg_head (push l r) = 0" "rg_full (push l r)"
  using assms by (cases "Suc (rg_head r) < n") (auto simp: ring_ok_def push_def Let_def)

lemma push_buf: "rg_buf (push l r) = (rg_buf r)[rg_head r := l]"
  by (simp add: push_def Let_def)

lemma push_appends:
  assumes ok: "ring_ok n r" and "\<not> rg_full r"
  shows "ring_snapshot (push l r) = ring_snapshot r @ [l]"
  using ok
proof (cases rule: push_cases [of n r l])
  case inside
  with assms show ?thesis by (simp add: ring_snapshot_def push_buf take_drop_update ring_ok_def)
next
  case wraps
  with assms have "length (rg_buf r) = Suc (rg_head r)" by (simp add: ring_ok_def)
  with wraps assms(2) show ?thesis
    using take_drop_update(1) [of "rg_head r" "rg_buf r" l] by (simp add: ring_snapshot_def push_buf)
qed

lemma push_overwrites:
  assumes ok: "ring_ok n r" and full: "rg_full r"
  shows "ring_snapshot (push l r) = tl (ring_snapshot r) @ [l]"
proof -
  have h: "rg_head r < length (rg_buf r)" using ok by (simp add: ring_ok_def)
  then have d: "drop (rg_head r) (rg_buf r) = rg_buf r ! rg_head r # drop (Suc (rg_head r)) (rg_buf r)"
    by (simp add: Cons_nth_drop_Suc)
  from ok show ?thesis
  proof (cases rule: push_cases [of n r l])
    case inside
    with h full d show ?thesis by (simp add: ring_snapshot_def push_buf take_drop_update)
  next
    case wraps
    with ok have len: "length (rg_buf r) = Suc (rg_head r)" by (simp add: ring_ok_def)
    with wraps full d h show ?thesis
      using take_drop_update(1) [OF h, of l] by (simp add: ring_snapshot_def push_buf)
  qed
qed

text \<open>
  A ring that is not full holds fewer lines than its array; so the two cases of the contract are
  exactly the two values of \<open>full\<close>.
\<close>

lemma full_iff: "ring_ok n r \<Longrightarrow> length (ring_snapshot r) < n \<longleftrightarrow> \<not> rg_full r"
  by (auto simp: ring_length) (simp add: ring_ok_def)

lemma ring_keeps_newest: "0 < n \<Longrightarrow> keeps_newest push ring_snapshot n (ring_ok n)"
proof unfold_locales
  fix r :: "'l ring" and l :: 'l
  assume "0 < n" and ok: "ring_ok n r"
  then show "length (ring_snapshot r) \<le> n" by (auto simp: ring_length) (simp add: ring_ok_def)
  show "ring_ok n (push l r)" by (rule ring_ok_push [OF ok])
  show "length (ring_snapshot r) < n \<Longrightarrow> ring_snapshot (push l r) = ring_snapshot r @ [l]"
    using push_appends [OF ok] full_iff [OF ok] by blast
  show "length (ring_snapshot r) = n \<Longrightarrow> ring_snapshot (push l r) = tl (ring_snapshot r) @ [l]"
    using push_overwrites [OF ok] full_iff [OF ok] by simp
qed

interpretation default_ring: keeps_newest push ring_snapshot 256 "ring_ok 256"
  by (rule ring_keeps_newest) simp

lemma pushes_newest:
  "ring_snapshot (fold push ls (new_ring blank cap)) = drop (length ls - nat (if cap \<le> 0 then 256 else cap)) ls"
proof -
  have "0 < nat (if cap \<le> 0 then 256 else cap)" by simp
  from keeps_newest.offers_from_empty [OF ring_keeps_newest [OF this] ring_ok_new [OF refl], of blank ls]
  show ?thesis by (simp add: ring_snapshot_def new_ring_def)
qed

section \<open>Subscribers\<close>

text \<open>A subscriber's channel takes lines while it has room and misses the others.\<close>

lemma push_subscriber:
  "map_of (rg_subs (push l r)) ch
     = map_option (\<lambda>(cap, q). (cap, case chan_send cap l q of Some q' \<Rightarrow> q' | None \<Rightarrow> q)) (map_of (rg_subs r) ch)"
  by (simp add: push_def Let_def map_of_gmap_vals case_prod_unfold)

lemma pushes_subscriber:
  "map_of (rg_subs r) ch = Some (cap, q) \<Longrightarrow> length q \<le> cap \<Longrightarrow>
     map_of (rg_subs (fold push ls r)) ch = Some (cap, q @ take (cap - length q) ls)"
proof (induction ls arbitrary: r q)
  case (Cons l ls)
  show ?case
  proof (cases "length q < cap")
    case True
    with Cons.prems push_subscriber [of l r ch]
    have "map_of (rg_subs (push l r)) ch = Some (cap, q @ [l])" by (simp add: chan_send_def)
    from Cons.IH [OF this] True show ?thesis
      by (simp add: take_Cons' Suc_diff_Suc)
  next
    case False
    with Cons.prems push_subscriber [of l r ch]
    have "map_of (rg_subs (push l r)) ch = Some (cap, q)" by (simp add: chan_send_def)
    from Cons.IH [OF this Cons.prems(2)] False show ?thesis by simp
  qed
qed simp

section \<open>Properties\<close>

text \<open>C20: the log ring implements "the newest \<open>cap\<close> lines in order": after any sequence of lines the
  snapshot is exactly their last \<open>cap\<close>, through every wrap of the write position, and a subscriber
  that never reads has received the first lines that fit its channel.\<close>

theorem ring_snapshot_newest:
  "ring_snapshot (fold push ls (new_ring blank cap))
     = drop (length ls - nat (if cap \<le> 0 then 256 else cap)) ls
   \<and> map_of (rg_subs (fold push ls (ring_subscribe ch k [] (new_ring blank cap)))) ch = Some (k, take k ls)"
proof
  show "ring_snapshot (fold push ls (new_ring blank cap)) = drop (length ls - nat (if cap \<le> 0 then 256 else cap)) ls"
    by (rule pushes_newest)
  show "map_of (rg_subs (fold push ls (ring_subscribe ch k [] (new_ring blank cap)))) ch = Some (k, take k ls)"
    by (rule pushes_subscriber [where q = "[]", simplified]) (simp add: ring_subscribe_def map_of_gput)
qed

end
