(* ===== verification/Rpc_Pool.thy ===== *)
theory Rpc_Pool
  imports Decimal
begin

text \<open>
  The pool of RPC endpoints (\<open>internal/chain/cometrpc/client.go\<close>): the primary-first order, the
  failover loop of \<open>do\<close>, and the pagination of the validator set.  The circuit breaker of an
  endpoint is third-party code: \<open>exec\<close> is a parameter that takes the breaker's state and what the
  call would answer, and gives its new state and what it lets through.
\<close>

section \<open>The pool\<close>

record endpoint =
  ep_url :: string
  ep_primary :: bool

record 'b backend =
  be_endpoint :: endpoint
  be_breaker :: 'b

record 'b pool =
  po_endpoints :: "'b backend list"
  po_active :: nat

definition primary_first :: "endpoint list \<Rightarrow> endpoint list" where
  "primary_first eps = filter ep_primary eps @ filter (\<lambda>e. \<not> ep_primary e) eps"

text \<open>\<open>init\<close> makes the HTTP client and the breaker of an endpoint, or fails.\<close>

fun build_backends :: "(string \<Rightarrow> string + 'b) \<Rightarrow> endpoint list \<Rightarrow> string + 'b backend list" where
  "build_backends init [] = Inr []"
| "build_backends init (e # es) =
     (case init (ep_url e) of
        Inl err \<Rightarrow> Inl (''init '' @ ep_url e @ '': '' @ err)
      | Inr b \<Rightarrow>
          (case build_backends init es of
             Inl err \<Rightarrow> Inl err
           | Inr bs \<Rightarrow> Inr (\<lparr>be_endpoint = e, be_breaker = b\<rparr> # bs)))"

definition new_pool :: "(string \<Rightarrow> string + 'b) \<Rightarrow> endpoint list \<Rightarrow> string + 'b pool" where
  "new_pool init eps =
     (if eps = [] then Inl ''no endpoints''
      else case build_backends init (primary_first eps) of
        Inl err \<Rightarrow> Inl err
      | Inr bs \<Rightarrow> Inr \<lparr>po_endpoints = bs, po_active = 0\<rparr>)"

definition active_url :: "'b pool \<Rightarrow> string" where
  "active_url p =
     (if po_active p \<ge> length (po_endpoints p) then ''''
      else ep_url (be_endpoint (po_endpoints p ! po_active p)))"

fun find_url :: "string \<Rightarrow> 'b backend list \<Rightarrow> nat option" where
  "find_url url [] = None"
| "find_url url (b # bs) = (if ep_url (be_endpoint b) = url then Some 0 else map_option Suc (find_url url bs))"

definition set_active :: "string \<Rightarrow> 'b pool \<Rightarrow> 'b pool" where
  "set_active url p = (case find_url url (po_endpoints p) of Some i \<Rightarrow> p\<lparr>po_active := i\<rparr> | None \<Rightarrow> p)"

section \<open>Failover\<close>

text \<open>
  The loop of \<open>do\<close>: \<open>k\<close> endpoints are left to try, the next one at offset \<open>off\<close> from where the
  active endpoint was when the call began; \<open>call i\<close> is what the endpoint at position \<open>i\<close> would answer.
\<close>

definition set_breaker :: "nat \<Rightarrow> 'b \<Rightarrow> 'b pool \<Rightarrow> 'b pool" where
  "set_breaker i cb p = p\<lparr>po_endpoints := (po_endpoints p)[i := (po_endpoints p ! i)\<lparr>be_breaker := cb\<rparr>]\<rparr>"

fun do_from ::
  "('b \<Rightarrow> string + 'r \<Rightarrow> 'b \<times> (string + 'r)) \<Rightarrow> (nat \<Rightarrow> string + 'r) \<Rightarrow> nat \<Rightarrow> nat \<Rightarrow> nat \<Rightarrow> string
     \<Rightarrow> 'b pool \<Rightarrow> 'b pool \<times> (string + 'r \<times> string)" where
  "do_from exec call start off 0 last_err p = (p, Inl (''all endpoints failed: '' @ last_err))"
| "do_from exec call start off (Suc k) last_err p =
     (let i = (start + off) mod length (po_endpoints p);
          b = po_endpoints p ! i;
          (cb, answer) = exec (be_breaker b) (call i);
          p1 = set_breaker i cb p
      in case answer of
           Inr res \<Rightarrow> (p1\<lparr>po_active := i\<rparr>, Inr (res, ep_url (be_endpoint b)))
         | Inl err \<Rightarrow> do_from exec call start (off + 1) k err p1)"

definition do_call ::
  "('b \<Rightarrow> string + 'r \<Rightarrow> 'b \<times> (string + 'r)) \<Rightarrow> (nat \<Rightarrow> string + 'r) \<Rightarrow> 'b pool
     \<Rightarrow> 'b pool \<times> (string + 'r \<times> string)" where
  "do_call exec call p = do_from exec call (po_active p) 0 (length (po_endpoints p)) ''%!w(<nil>)'' p"

definition pool_ok :: "'b pool \<Rightarrow> bool" where
  "pool_ok p \<longleftrightarrow> po_active p < length (po_endpoints p)"

abbreviation pool_urls :: "'b pool \<Rightarrow> string list" where
  "pool_urls p \<equiv> map (\<lambda>b. ep_url (be_endpoint b)) (po_endpoints p)"

text \<open>What endpoint \<open>i\<close> lets through, given the breakers the pool has.\<close>

definition lets_through ::
  "('b \<Rightarrow> string + 'r \<Rightarrow> 'b \<times> (string + 'r)) \<Rightarrow> (nat \<Rightarrow> string + 'r) \<Rightarrow> 'b pool \<Rightarrow> nat \<Rightarrow> string + 'r" where
  "lets_through exec call p i = snd (exec (be_breaker (po_endpoints p ! i)) (call i))"

lemma build_backends_endpoints:
  "build_backends init es = Inr bs \<Longrightarrow> map be_endpoint bs = es"
  by (induction es arbitrary: bs) (auto split: sum.splits)

lemma new_pool_ok: "new_pool init eps = Inr p \<Longrightarrow> pool_ok p \<and> map be_endpoint (po_endpoints p) = primary_first eps"
proof -
  assume p: "new_pool init eps = Inr p"
  then obtain bs where bs: "build_backends init (primary_first eps) = Inr bs"
      "p = \<lparr>po_endpoints = bs, po_active = 0\<rparr>" and ne: "eps \<noteq> []"
    by (auto simp: new_pool_def split: if_splits sum.splits)
  have "primary_first eps \<noteq> []"
    using ne by (cases eps) (auto simp: primary_first_def)
  with bs build_backends_endpoints [OF bs(1)] show ?thesis by (auto simp: pool_ok_def)
qed

lemma find_url_Some: "find_url url bs = Some i \<Longrightarrow> i < length bs \<and> ep_url (be_endpoint (bs ! i)) = url"
  by (induction bs arbitrary: i) (auto split: if_splits)

lemma set_active_ok: "pool_ok p \<Longrightarrow> pool_ok (set_active url p)"
  by (auto simp: set_active_def pool_ok_def dest: find_url_Some split: option.split)

lemma set_breaker_frame [simp]:
  "length (po_endpoints (set_breaker i cb p)) = length (po_endpoints p)"
  "po_active (set_breaker i cb p) = po_active p" "pool_urls (set_breaker i cb p) = pool_urls p"
  "pool_ok (set_breaker i cb p) = pool_ok p"
proof -
  show "pool_urls (set_breaker i cb p) = pool_urls p"
    by (cases "i < length (po_endpoints p)")
      (auto simp: set_breaker_def map_update intro!: nth_equalityI simp: nth_list_update)
qed (simp_all add: set_breaker_def pool_ok_def)

lemma set_breaker_other [simp]:
  "m \<noteq> i \<Longrightarrow> lets_through exec call (set_breaker i cb p) m = lets_through exec call p m"
  by (simp add: lets_through_def set_breaker_def)

text \<open>Different offsets below the number of endpoints name different endpoints.\<close>

lemma offset_other:
  assumes "k < (n::nat)" and "m < k"
  shows "(start + off + 1 + m) mod n \<noteq> (start + off) mod n"
proof
  assume "(start + off + 1 + m) mod n = (start + off) mod n"
  then have "n dvd (1 + m)"
    by (metis add.assoc add_diff_cancel_left' le_add1 mod_eq_dvd_iff_nat)
  then show False using assms by (auto dest: dvd_imp_le)
qed

lemma do_from_step:
  "do_from exec call start off (Suc k) err p =
     (let i = (start + off) mod length (po_endpoints p); p1 = set_breaker i (fst (exec (be_breaker (po_endpoints p ! i)) (call i))) p
      in case lets_through exec call p i of
           Inr res \<Rightarrow> (p1\<lparr>po_active := i\<rparr>, Inr (res, ep_url (be_endpoint (po_endpoints p ! i))))
         | Inl x \<Rightarrow> do_from exec call start (off + 1) k x p1)"
  by (cases "exec (be_breaker (po_endpoints p ! ((start + off) mod length (po_endpoints p))))
        (call ((start + off) mod length (po_endpoints p)))")
    (simp add: Let_def lets_through_def split: sum.split)

lemma do_from_frame:
  "do_from exec call start off k err p = (p', r) \<Longrightarrow> pool_ok p \<Longrightarrow>
     pool_ok p' \<and> pool_urls p' = pool_urls p"
proof (induction k arbitrary: off err p)
  case (Suc k)
  have i: "(start + off) mod length (po_endpoints p) < length (po_endpoints p)"
    using Suc.prems(2) by (simp add: pool_ok_def mod_less_divisor [OF le_less_trans [OF le0]])
  have upd: "pool_urls (q\<lparr>po_active := j\<rparr>) = pool_urls q" for q :: "'a pool" and j by simp
  from Suc show ?case
    unfolding do_from_step Let_def
    by (auto split: sum.splits simp: upd) (use i in \<open>simp add: pool_ok_def\<close>)
qed simp

text \<open>Endpoints not yet tried still have the breakers of the start of the call.\<close>

lemma do_from_first_success:
  assumes "0 < length (po_endpoints p)" and "k \<le> length (po_endpoints p)"
    and "j < k" and "lets_through exec call p ((start + off + j) mod length (po_endpoints p)) = Inr res"
    and "\<And>m. m < j \<Longrightarrow> \<exists>x. lets_through exec call p ((start + off + m) mod length (po_endpoints p)) = Inl x"
  shows "\<exists>p'. do_from exec call start off k err p =
           (p', Inr (res, pool_urls p ! ((start + off + j) mod length (po_endpoints p))))
         \<and> po_active p' = (start + off + j) mod length (po_endpoints p)"
  using assms
proof (induction k arbitrary: off err p j)
  case (Suc k)
  let ?n = "length (po_endpoints p)" and ?i = "(start + off) mod length (po_endpoints p)"
  have i: "?i < ?n" using Suc.prems(1) by simp
  show ?case
  proof (cases j)
    case 0
    with Suc.prems(4) i show ?thesis unfolding do_from_step by (simp add: Let_def)
  next
    case (Suc j')
    obtain x where x: "lets_through exec call p ?i = Inl x" using Suc.prems(5) [of 0] Suc by auto
    let ?p1 = "set_breaker ?i (fst (exec (be_breaker (po_endpoints p ! ?i)) (call ?i))) p"
    have other: "(start + off + 1 + m) mod ?n \<noteq> ?i" if "m < k" for m
      by (rule offset_other [OF _ that]) (use Suc.prems(2) in simp)
    have "\<exists>p'. do_from exec call start (off + 1) k x ?p1 =
            (p', Inr (res, pool_urls ?p1 ! ((start + (off + 1) + j') mod length (po_endpoints ?p1))))
          \<and> po_active p' = (start + (off + 1) + j') mod length (po_endpoints ?p1)"
    proof (rule Suc.IH)
      show "0 < length (po_endpoints ?p1)" "k \<le> length (po_endpoints ?p1)" "j' < k"
        using Suc.prems(1-3) Suc by simp_all
      show "lets_through exec call ?p1 ((start + (off + 1) + j') mod length (po_endpoints ?p1)) = Inr res"
        using other [of j'] Suc.prems(3,4) Suc by (simp add: add.assoc)
      show "\<exists>x. lets_through exec call ?p1 ((start + (off + 1) + m) mod length (po_endpoints ?p1)) = Inl x"
        if "m < j'" for m
        using other [of m] Suc.prems(3) Suc.prems(5) [of "Suc m"] Suc that by (simp add: add.assoc)
    qed
    with x Suc show ?thesis unfolding do_from_step by (simp add: Let_def add.assoc)
  qed
qed simp

lemma do_from_all_fail:
  assumes "k \<le> length (po_endpoints p)"
    and "\<And>m. m < k \<Longrightarrow> \<exists>x. lets_through exec call p ((start + off + m) mod length (po_endpoints p)) = Inl x"
  shows "\<exists>p' x. do_from exec call start off k err p = (p', Inl x) \<and> po_active p' = po_active p"
  using assms
proof (induction k arbitrary: off err p)
  case (Suc k)
  let ?n = "length (po_endpoints p)" and ?i = "(start + off) mod length (po_endpoints p)"
  obtain x where x: "lets_through exec call p ?i = Inl x" using Suc.prems(2) [of 0] by auto
  let ?p1 = "set_breaker ?i (fst (exec (be_breaker (po_endpoints p ! ?i)) (call ?i))) p"
  have other: "(start + off + 1 + m) mod ?n \<noteq> ?i" if "m < k" for m
    by (rule offset_other [OF _ that]) (use Suc.prems(1) in simp)
  have "\<exists>p' y. do_from exec call start (off + 1) k x ?p1 = (p', Inl y) \<and> po_active p' = po_active ?p1"
  proof (rule Suc.IH)
    show "k \<le> length (po_endpoints ?p1)" using Suc.prems(1) by simp
    show "\<exists>x. lets_through exec call ?p1 ((start + (off + 1) + m) mod length (po_endpoints ?p1)) = Inl x"
      if "m < k" for m
      using other [OF that] Suc.prems(2) [of "Suc m"] that by (simp add: add.assoc)
  qed
  with x show ?case unfolding do_from_step by (simp add: Let_def)
qed simp

section \<open>Properties\<close>

definition passes :: "string + 'r \<Rightarrow> bool" where
  "passes a = (case a of Inl e \<Rightarrow> False | Inr r \<Rightarrow> True)"

text \<open>The endpoints in the order a call tries them: from the active one on, around the pool.\<close>

definition try_order :: "'b pool \<Rightarrow> nat list" where
  "try_order p = map (\<lambda>j. (po_active p + j) mod length (po_endpoints p)) [0..<length (po_endpoints p)]"

text \<open>C12: failover.  A call is answered by the first endpoint, in cyclic order from the active one, whose
  breaker lets an answer through; that endpoint becomes the active one.  The call fails only if every
  endpoint of the pool failed, each tried once, and then the active endpoint stays.  The pool keeps its
  endpoints and a valid active index.\<close>

theorem failover:
  assumes "pool_ok p" and "do_call exec call p = (p', r)"
  shows "pool_ok p' \<and> pool_urls p' = pool_urls p
    \<and> (case find (\<lambda>i. passes (lets_through exec call p i)) (try_order p) of
          Some i \<Rightarrow> (case lets_through exec call p i of Inr res \<Rightarrow> r = Inr (res, pool_urls p ! i) | Inl _ \<Rightarrow> False)
                  \<and> po_active p' = i
        | None \<Rightarrow> (\<exists>e. r = Inl e) \<and> po_active p' = po_active p)"
proof -
  let ?n = "length (po_endpoints p)"
  let ?at = "\<lambda>j. lets_through exec call p ((po_active p + 0 + j) mod ?n)"
  have n: "0 < ?n" using assms(1) by (auto simp: pool_ok_def)
  note call = assms(2) [unfolded do_call_def]
  have frame: "pool_ok p' \<and> pool_urls p' = pool_urls p"
    by (rule do_from_frame [OF call assms(1)])
  show ?thesis
  proof (cases "find (\<lambda>i. passes (lets_through exec call p i)) (try_order p)")
    case None
    then have "\<not> passes (?at m)" if "m < ?n" for m
      using that by (auto simp: find_None_iff try_order_def)
    then have "\<exists>x. ?at m = Inl x" if "m < ?n" for m
      using that by (metis (no_types, lifting) passes_def sum.case_eq_if sum.collapse(1))
    from do_from_all_fail [OF order_refl this, where err = "''%!w(<nil>)''"] call frame None show ?thesis
      by auto
  next
    case (Some i)
    then obtain j where j: "j < ?n" "passes (?at j)" "i = (po_active p + j) mod ?n"
        "\<And>m. m < j \<Longrightarrow> \<not> passes (?at m)"
      by (auto simp: find_Some_iff try_order_def)
    obtain res where res: "?at j = Inr res" using j(2) by (auto simp: passes_def split: sum.splits)
    have "\<exists>x. ?at m = Inl x" if "m < j" for m
      using j(4) [OF that] by (metis (no_types, lifting) passes_def sum.case_eq_if sum.collapse(1))
    from do_from_first_success [OF n order_refl j(1) res this, where err = "''%!w(<nil>)''"] call frame Some res j(3)
    show ?thesis by auto
  qed
qed

text \<open>A breaker that opens after five failures in a row and lets nothing through while it is open.\<close>

definition counting_breaker :: "nat \<Rightarrow> string + nat \<Rightarrow> nat \<times> (string + nat)" where
  "counting_breaker k answer =
     (if 5 \<le> k then (k, Inl ''circuit breaker is open'')
      else case answer of Inl e \<Rightarrow> (k + 1, Inl e) | Inr r \<Rightarrow> (0, Inr r))"

definition demo_pool :: "nat pool" where
  "demo_pool = \<lparr>po_endpoints = [\<lparr>be_endpoint = \<lparr>ep_url = ''a'', ep_primary = True\<rparr>, be_breaker = 5\<rparr>,
                                \<lparr>be_endpoint = \<lparr>ep_url = ''b'', ep_primary = False\<rparr>, be_breaker = 0\<rparr>], po_active = 0\<rparr>"

theorem failover_witness:
  "snd (do_call counting_breaker (\<lambda>i. Inr i) demo_pool) = Inr (1, ''b'')
   \<and> po_active (fst (do_call counting_breaker (\<lambda>i. Inr i) demo_pool)) = 1"
  using failover [of demo_pool counting_breaker "\<lambda>i. Inr i" "fst (do_call counting_breaker (\<lambda>i. Inr i) demo_pool)"
      "snd (do_call counting_breaker (\<lambda>i. Inr i) demo_pool)"]
  by (simp add: demo_pool_def pool_ok_def try_order_def lets_through_def counting_breaker_def passes_def
      upt_conv_Cons)

end
