(* ===== verification/Validator_Pages.thy ===== *)
theory Validator_Pages
  imports Decimal
begin

text \<open>
  The pagination of the validator set (\<open>AllValidators\<close> of \<open>internal/chain/cometrpc/client.go\<close>).
  \<open>fetch height page per_page\<close> is what the pool answers for one page; the page number grows with
  every request, so an answer may depend on when it was asked for.  A validator is its address with
  its power.
\<close>

section \<open>Definitions\<close>

type_synonym raw_validator = "string \<times> int"

record validator_page =
  pg_height :: int
  pg_validators :: "raw_validator list"
  pg_total :: int

type_synonym page_oracle = "int option \<Rightarrow> int \<Rightarrow> int \<Rightarrow> string + validator_page \<times> string"

fun note_keys :: "string list \<Rightarrow> string list \<Rightarrow> string list option" where
  "note_keys known [] = Some known"
| "note_keys known (k # ks) = (if k \<in> set known then None else note_keys (k # known) ks)"

definition page_height_error :: "int \<Rightarrow> int \<Rightarrow> string" where
  "page_height_error got want =
     ''validator page height '' @ format_int got @ '' differs from requested '' @ format_int want"

definition per_page :: int where
  "per_page = 100"

function collect_pages ::
  "page_oracle \<Rightarrow> int option \<Rightarrow> int \<Rightarrow> int \<Rightarrow> raw_validator list \<Rightarrow> string list \<Rightarrow> int
     \<Rightarrow> string + raw_validator list \<times> int \<times> string" where
  "collect_pages fetch height pinned page all known expected =
     (case fetch (if pinned > 0 then Some pinned else height) page per_page of
        Inl err \<Rightarrow> Inl err
      | Inr (res, url) \<Rightarrow>
          let pinned' = (if pinned = 0 then pg_height res else pinned);
              expected' = (if expected < 0 then pg_total res else expected);
              vs = pg_validators res
          in if pg_height res \<noteq> pinned' then Inl (page_height_error (pg_height res) pinned')
             else if pg_total res \<noteq> expected' \<or> pg_total res < 0 \<or> int (length all) + int (length vs) > expected'
             then Inl ''inconsistent validator pagination total''
             else if vs = [] \<and> int (length all) < expected' then Inl ''incomplete validator pagination''
             else case note_keys known (map fst vs) of
               None \<Rightarrow> Inl ''duplicate validator across pages''
             | Some known' \<Rightarrow>
                 let all' = all @ vs
                 in if int (length all') \<ge> pg_total res \<or> vs = [] then Inr (all', pg_height res, url)
                    else collect_pages fetch height pinned' (page + 1) all' known' expected')"
  by pat_completeness auto
termination
  by (relation "measures [\<lambda>(f, h, p, pg, al, k, e). if e < 0 then 1 else 0,
        \<lambda>(f, h, p, pg, al, k, e). nat (e - int (length al))]")
    (auto split: if_splits)

definition all_validators :: "page_oracle \<Rightarrow> int option \<Rightarrow> string + raw_validator list \<times> int \<times> string" where
  "all_validators fetch height =
     collect_pages fetch height (case height of Some h \<Rightarrow> h | None \<Rightarrow> 0) 1 [] [] (- 1)"

declare collect_pages.simps [simp del]

section \<open>What an accepted answer is made of\<close>

text \<open>
  The pages from \<open>page\<close> on, as requested, that make up a list of validators of one height.  Zero is
  the code's mark for "no height yet", so a page that reports height zero pins nothing.
\<close>

inductive served ::
  "page_oracle \<Rightarrow> int option \<Rightarrow> int \<Rightarrow> int \<Rightarrow> int \<Rightarrow> int \<Rightarrow> raw_validator list \<Rightarrow> bool"
  for fetch :: page_oracle and height :: "int option" and tot :: int where
  served_last: "fetch (if pinned > 0 then Some pinned else height) page per_page = Inr (res, url) \<Longrightarrow>
     pg_total res = tot \<Longrightarrow> pg_height res = h \<Longrightarrow> pinned = 0 \<or> pinned = h \<Longrightarrow>
     served fetch height tot pinned page h (pg_validators res)"
| served_more: "fetch (if pinned > 0 then Some pinned else height) page per_page = Inr (res, url) \<Longrightarrow>
     pg_total res = tot \<Longrightarrow> pg_height res = 0 \<or> pg_height res = h \<Longrightarrow> pinned = 0 \<or> pinned = h \<Longrightarrow>
     served fetch height tot (if pinned = 0 then pg_height res else pinned) (page + 1) h vs \<Longrightarrow>
     served fetch height tot pinned page h (pg_validators res @ vs)"

lemma note_keys_Some:
  "note_keys known ks = Some known' \<Longrightarrow> distinct known \<Longrightarrow>
     distinct known' \<and> set known' = set known \<union> set ks \<and> distinct ks \<and> set known \<inter> set ks = {}"
  by (induction known ks rule: note_keys.induct) (auto split: if_splits)

lemma note_keys_ok:
  "distinct ks \<Longrightarrow> set known \<inter> set ks = {} \<Longrightarrow> note_keys known ks = Some (rev ks @ known)"
  by (induction known ks rule: note_keys.induct) auto

lemma collect_pages_sound:
  "collect_pages fetch height pinned page all known expected = Inr (vs, h, url) \<Longrightarrow>
     distinct known \<Longrightarrow> set known = fst ` set all \<Longrightarrow> distinct (map fst all) \<Longrightarrow>
     int (length all) \<le> expected \<or> expected < 0 \<Longrightarrow>
     \<exists>new. vs = all @ new \<and> distinct (map fst vs)
       \<and> served fetch height (int (length vs)) pinned page h new \<and> (0 \<le> expected \<longrightarrow> int (length vs) = expected)"
proof (induction fetch height pinned page all known expected rule: collect_pages.induct)
  case (1 fetch height pinned page all known expected)
  let ?req = "if pinned > 0 then Some pinned else height"
  obtain res u where f: "fetch ?req page per_page = Inr (res, u)"
    using "1.prems"(1) by (subst (asm) collect_pages.simps) (auto split: sum.splits)
  let ?p = "if pinned = 0 then pg_height res else pinned"
  let ?e = "if expected < 0 then pg_total res else expected"
  note call = "1.prems"(1) [unfolded collect_pages.simps [of fetch height pinned] f Let_def, simplified]
  have h: "pg_height res = ?p" using call by (auto split: if_splits)
  have t: "pg_total res = ?e" "0 \<le> ?e" "int (length all) + int (length (pg_validators res)) \<le> ?e"
    "pg_validators res \<noteq> [] \<or> ?e \<le> int (length all)"
    using call h by (auto split: if_splits)
  obtain known' where k: "note_keys known (map fst (pg_validators res)) = Some known'"
    using call h t by (auto split: if_splits option.splits)
  note nk = note_keys_Some [OF k "1.prems"(2)]
  have d: "distinct (map fst (all @ pg_validators res))"
    using nk "1.prems"(3,4) by auto
  show ?case
  proof (cases "pg_total res \<le> int (length (all @ pg_validators res)) \<or> pg_validators res = []")
    case True
    with call h t k have r: "vs = all @ pg_validators res" "h = pg_height res"
      by (auto split: if_splits)
    have len: "int (length vs) = pg_total res" using True t r by auto
    have "served fetch height (int (length vs)) pinned page h (pg_validators res)"
      by (rule served_last [where url = u], rule f) (use len r h in \<open>auto split: if_splits\<close>)
    with r d len t show ?thesis by (auto split: if_splits)
  next
    case False
    with call h t k have rest: "collect_pages fetch height ?p (page + 1) (all @ pg_validators res) known' ?e = Inr (vs, h, url)"
      by (auto split: if_splits)
    have "\<exists>new. vs = (all @ pg_validators res) @ new \<and> distinct (map fst vs)
        \<and> served fetch height (int (length vs)) ?p (page + 1) h new \<and> (0 \<le> ?e \<longrightarrow> int (length vs) = ?e)"
      by (rule "1.IH" [OF f refl refl refl refl _ _ _ k refl _ rest])
        (use h t False nk "1.prems" d in \<open>auto split: if_splits\<close>)
    then obtain new where new: "vs = (all @ pg_validators res) @ new" "distinct (map fst vs)"
        "served fetch height (int (length vs)) ?p (page + 1) h new" "int (length vs) = ?e"
      using t(2) by auto
    have hh: "?p = 0 \<or> ?p = h" using new(3) by cases
    have "served fetch height (int (length vs)) pinned page h (pg_validators res @ new)"
      by (rule served_more [where url = u], rule f) (use hh h t new(3,4) in \<open>auto split: if_splits\<close>)
    with new show ?thesis by auto
  qed
qed

section \<open>An honest node\<close>

definition page_of :: "raw_validator list \<Rightarrow> int \<Rightarrow> raw_validator list" where
  "page_of vs page = take (nat per_page) (drop (nat (per_page * (page - 1))) vs)"

text \<open>A node that serves the pages of one validator list at one positive height.\<close>

definition honest :: "page_oracle \<Rightarrow> int option \<Rightarrow> raw_validator list \<Rightarrow> int \<Rightarrow> string \<Rightarrow> bool" where
  "honest fetch height vs h url \<longleftrightarrow>
     0 < h \<and> (\<forall>req page. (req = height \<or> req = Some h) \<longrightarrow> 1 \<le> page \<longrightarrow>
        fetch req page per_page =
          Inr (\<lparr>pg_height = h, pg_validators = page_of vs page, pg_total = int (length vs)\<rparr>, url))"

lemma collect_pages_honest:
  assumes "honest fetch height vs h url" and "distinct (map fst vs)"
    and "pinned = h \<or> pinned = 0" and "1 \<le> page" and "all = take (nat (per_page * (page - 1))) vs"
    and "distinct known" and "set known = fst ` set all" and "expected = int (length vs) \<or> expected < 0"
    and "length all < length vs \<or> page = 1"
  shows "collect_pages fetch height pinned page all known expected = Inr (vs, h, url)"
  using assms
proof (induction "length vs - length all" arbitrary: pinned page all known expected rule: less_induct)
  case less
  let ?res = "\<lparr>pg_height = h, pg_validators = page_of vs page, pg_total = int (length vs)\<rparr>"
  let ?n = "nat (per_page * (page - 1))" and ?new = "page_of vs page"
  have f: "fetch (if pinned > 0 then Some pinned else height) page per_page = Inr (?res, url)"
    using less.prems(1,3,4) by (auto simp: honest_def)
  have hpos: "0 < h" using less.prems(1) by (simp add: honest_def)
  have cat: "all @ ?new = take (?n + 100) vs"
    using less.prems(5) by (simp add: page_of_def take_add per_page_def)
  then have split: "vs = all @ ?new @ drop (?n + 100) vs" by (metis append.assoc append_take_drop_id)
  have d: "distinct (map fst (all @ ?new))"
    using less.prems(2) cat by (metis distinct_take take_map)
  have k: "note_keys known (map fst ?new) = Some (rev (map fst ?new) @ known)"
    by (rule note_keys_ok) (use d less.prems(7) in auto)
  have fits: "length (all @ ?new) \<le> length vs" by (simp add: cat)
  have nonempty: "?new = [] \<Longrightarrow> length vs \<le> length all"
    using less.prems(5,9) by (auto simp: page_of_def per_page_def)
  show ?case
  proof (cases "length vs \<le> length (all @ ?new) \<or> ?new = []")
    case True
    have "length all \<le> ?n" by (simp add: less.prems(5))
    with True nonempty fits have "drop (?n + 100) vs = []" by (auto simp: cat)
    with split have eq: "all @ ?new = vs" by simp
    have len: "int (length all) + int (length ?new) = int (length vs)"
      using arg_cong [OF eq, of length] by simp
    show ?thesis
      by (subst collect_pages.simps)
        (use less.prems(3,8) hpos len nonempty in \<open>auto simp: f k Let_def eq\<close>)
  next
    case False
    have next_page: "collect_pages fetch height h (page + 1) (all @ ?new) (rev (map fst ?new) @ known) (int (length vs))
        = Inr (vs, h, url)"
    proof (rule less.hyps)
      show "length vs - length (all @ ?new) < length vs - length all"
        using False by (cases ?new) auto
      have "nat (per_page * (page + 1 - 1)) = ?n + 100" using less.prems(4) by (simp add: per_page_def)
      then show "all @ ?new = take (nat (per_page * (page + 1 - 1))) vs" using cat by simp
      show "distinct (rev (map fst ?new) @ known)" using d less.prems(6,7) by auto
      show "set (rev (map fst ?new) @ known) = fst ` set (all @ ?new)" using less.prems(7) by auto
    qed (use less.prems False in auto)
    show ?thesis
      by (subst collect_pages.simps)
        (use False fits less.prems(3,8) hpos next_page in \<open>auto simp: f k Let_def\<close>)
  qed
qed

section \<open>Properties\<close>

text \<open>An accepted validator set is one consistent set: no address occurs twice, it is the
  concatenation of the pages 1, 2, ... the node served for one height with one total, that total is
  its length, and the height returned is the one they report.\<close>

theorem validator_pages_sound:
  assumes "all_validators fetch height = Inr (vs, h, url)"
  shows "distinct (map fst vs)
         \<and> served fetch height (int (length vs)) (case height of Some x \<Rightarrow> x | None \<Rightarrow> 0) 1 h vs"
  using collect_pages_sound [OF assms [unfolded all_validators_def]] by auto

definition two_pages :: page_oracle where
  "two_pages req page k =
     (if page = 1 then Inr (\<lparr>pg_height = 7, pg_validators = [(''a'', 5)], pg_total = 2\<rparr>, ''u'')
      else Inr (\<lparr>pg_height = 7, pg_validators = [(''b'', 6)], pg_total = 2\<rparr>, ''u''))"

lemma two_pages_answer: "all_validators two_pages None = Inr ([(''a'', 5), (''b'', 6)], 7, ''u'')"
  by (simp add: all_validators_def collect_pages.simps two_pages_def Let_def)

theorem validator_pages_sound_witness: "served two_pages None 2 0 1 7 [(''a'', 5), (''b'', 6)]"
  using validator_pages_sound [OF two_pages_answer] by simp



end
