(* ===== verification/Ws_Client.thy ===== *)
theory Ws_Client
  imports Prelude Text
begin

text \<open>
  The WebSocket subscriber (\<open>internal/chain/cometws/client.go\<close>): its connection states, one
  connection attempt as a function of what the network does, and the reconnect loop with its
  rotation over the endpoints and its backoff.  The lifecycle hook's calls and the handler's calls
  are recorded in order.
\<close>

section \<open>State\<close>

datatype ws_state = Disconnected | Connecting | Subscribing | Live | Reconnecting

definition ws_state_text :: "ws_state \<Rightarrow> string" where
  "ws_state_text s =
     (case s of Disconnected \<Rightarrow> ''disconnected'' | Connecting \<Rightarrow> ''connecting''
      | Subscribing \<Rightarrow> ''subscribing'' | Live \<Rightarrow> ''live'' | Reconnecting \<Rightarrow> ''reconnecting'')"

datatype 'ev call = Lifecycle ws_state string "string option" | Deliver 'ev

record 'ev client =
  cl_endpoints :: "string list"
  cl_queries :: "string list"
  cl_idle_timeout :: duration
  cl_max_backoff :: duration
  cl_state :: ws_state
  cl_active :: string
  cl_calls :: "'ev call list"

definition new_client :: "string list \<Rightarrow> string list \<Rightarrow> bool \<Rightarrow> duration \<Rightarrow> duration \<Rightarrow> string + 'ev client" where
  "new_client endpoints queries has_handler idle max_backoff =
     (if endpoints = [] then Inl ''no endpoints''
      else if \<not> has_handler then Inl ''nil handler''
      else if idle < 0 \<or> max_backoff < 0 then Inl ''timeouts must not be negative''
      else Inr \<lparr>cl_endpoints = endpoints, cl_queries = queries,
                cl_idle_timeout = (if idle = 0 then 30 * second else idle),
                cl_max_backoff = (if max_backoff = 0 then 30 * second else max_backoff),
                cl_state = Disconnected, cl_active = '''', cl_calls = []\<rparr>)"

definition set_state :: "ws_state \<Rightarrow> string \<Rightarrow> string option \<Rightarrow> 'ev client \<Rightarrow> 'ev client" where
  "set_state s ep err c =
     c\<lparr>cl_state := s, cl_active := ep, cl_calls := cl_calls c @ [Lifecycle s ep err]\<rparr>"

section \<open>One connection\<close>

text \<open>
  What one response decodes to: the node's error, an empty result (the acknowledgement of a
  subscription), an event that does not decode, one with no data, or an event.
\<close>

datatype 'ev frame = ErrorFrame string | EmptyFrame | BadFrame | NoDataFrame | EventFrame 'ev

datatype finish = Cancelled | Failed string

text \<open>
  What the network does during one attempt: the subscription URL or its error, the error of the dial,
  the error of the write of each query, the frames read, and how reading ends.
\<close>

record 'ev attempt =
  at_url :: "string + string"
  at_dial :: "string option"
  at_writes :: "string option list"
  at_frames :: "'ev frame list"
  at_finish :: finish

fun subscribe_all :: "string list \<Rightarrow> string option list \<Rightarrow> string option" where
  "subscribe_all (q # qs) (Some err # ws) = Some (''subscribe '' @ go_quote q @ '': '' @ err)"
| "subscribe_all (q # qs) (None # ws) = subscribe_all qs ws"
| "subscribe_all qs ws = None"

fun pump :: "string \<Rightarrow> 'ev frame list \<Rightarrow> finish \<Rightarrow> 'ev client \<Rightarrow> 'ev client \<times> finish" where
  "pump ep [] fin c = (c, case fin of Cancelled \<Rightarrow> Cancelled | Failed err \<Rightarrow> Failed (''ws read: '' @ err))"
| "pump ep (ErrorFrame err # fs) fin c = (c, Failed (''ws subscription: '' @ err))"
| "pump ep (EmptyFrame # fs) fin c = pump ep fs fin c"
| "pump ep (BadFrame # fs) fin c = pump ep fs fin c"
| "pump ep (NoDataFrame # fs) fin c = pump ep fs fin c"
| "pump ep (EventFrame ev # fs) fin c =
     (let c1 = (if cl_state c \<noteq> Live then set_state Live ep None c else c)
      in pump ep fs fin (c1\<lparr>cl_calls := cl_calls c1 @ [Deliver ev]\<rparr>))"

definition connect_and_pump :: "string \<Rightarrow> 'ev attempt \<Rightarrow> 'ev client \<Rightarrow> 'ev client \<times> finish" where
  "connect_and_pump ep a c =
     (let c1 = set_state Connecting ep None c
      in case at_url a of
           Inl err \<Rightarrow> (c1, Failed err)
         | Inr url \<Rightarrow>
             (case at_dial a of
                Some err \<Rightarrow> (c1, Failed (''ws dial: '' @ err))
              | None \<Rightarrow>
                  let c2 = set_state Subscribing ep None c1
                  in case subscribe_all (cl_queries c) (at_writes a) of
                       Some err \<Rightarrow> (c2, Failed err)
                     | None \<Rightarrow> pump ep (at_frames a) (at_finish a) c2))"

section \<open>The reconnect loop\<close>

text \<open>\<open>time.Duration(250*(1<<min(attempt, 7))) * time.Millisecond\<close>, capped.\<close>

definition backoff :: "duration \<Rightarrow> nat \<Rightarrow> duration" where
  "backoff max_backoff n = min (250 * 2 ^ min n 7 * millisecond) max_backoff"

text \<open>\<open>rand.Int63n(max(1, backoff/5))\<close>: \<open>r\<close> is the random source's number.\<close>

definition jitter :: "duration \<Rightarrow> nat \<Rightarrow> duration" where
  "jitter b r = int r mod max 1 (b div 5)"

text \<open>
  One turn of \<open>Run\<close>: \<open>None\<close> when the loop returns, otherwise the next attempt number and the wait.
  \<open>Run\<close> on a list of attempts: the loop with what the network does at each turn, with the random
  numbers; the context is cancelled when the list ends.
\<close>

definition run_turn :: "'ev attempt \<Rightarrow> nat \<Rightarrow> nat \<Rightarrow> 'ev client \<Rightarrow> 'ev client \<times> (nat \<times> duration) option" where
  "run_turn a r n c =
     (let ep = cl_endpoints c ! (n mod length (cl_endpoints c));
          (c1, fin) = connect_and_pump ep a c
      in case fin of
           Cancelled \<Rightarrow> (c1, None)
         | Failed err \<Rightarrow>
             let n1 = (if cl_state c1 = Live then 0 else n);
                 c2 = set_state Reconnecting ep (Some err) c1;
                 b = backoff (cl_max_backoff c) n1
             in (c2, Some (n1 + 1, b + jitter b r)))"

fun run_client :: "('ev attempt \<times> nat) list \<Rightarrow> nat \<Rightarrow> 'ev client \<Rightarrow> 'ev client \<times> duration list" where
  "run_client [] n c = (c, [])"
| "run_client ((a, r) # as) n c =
     (case run_turn a r n c of
        (c1, None) \<Rightarrow> (c1, [])
      | (c1, Some (n1, wait)) \<Rightarrow> (let (c2, waits) = run_client as n1 c1 in (c2, wait # waits)))"

section \<open>The connection protocol\<close>

text \<open>
  The specification: which call may follow which.  An event is delivered only while the connection
  is live.
\<close>

definition may_follow :: "ws_state \<Rightarrow> ws_state \<Rightarrow> bool" where
  "may_follow s s' \<longleftrightarrow>
     (case s of
        Disconnected \<Rightarrow> s' = Connecting
      | Connecting \<Rightarrow> s' = Subscribing \<or> s' = Reconnecting
      | Subscribing \<Rightarrow> s' = Live \<or> s' = Reconnecting
      | Live \<Rightarrow> s' = Reconnecting
      | Reconnecting \<Rightarrow> s' = Connecting)"

fun protocol :: "ws_state \<Rightarrow> 'ev call list \<Rightarrow> ws_state option" where
  "protocol s [] = Some s"
| "protocol s (Lifecycle s' ep err # cs) = (if may_follow s s' then protocol s' cs else None)"
| "protocol s (Deliver ev # cs) = (if s = Live then protocol s cs else None)"

lemma protocol_append: "protocol s (xs @ ys) = Option.bind (protocol s xs) (\<lambda>s'. protocol s' ys)"
  by (induction s xs rule: protocol.induct) simp_all

definition client_inv :: "'ev client \<Rightarrow> bool" where
  "client_inv c \<longleftrightarrow> protocol Disconnected (cl_calls c) = Some (cl_state c)"

lemma set_state_inv: "client_inv c \<Longrightarrow> may_follow (cl_state c) s \<Longrightarrow> client_inv (set_state s ep err c)"
  by (simp add: client_inv_def set_state_def protocol_append)

lemma set_state_fields [simp]:
  "cl_state (set_state s ep err c) = s" "cl_endpoints (set_state s ep err c) = cl_endpoints c"
  "cl_max_backoff (set_state s ep err c) = cl_max_backoff c" "cl_queries (set_state s ep err c) = cl_queries c"
  by (simp_all add: set_state_def)

lemma deliver_event_inv:
  "client_inv c \<Longrightarrow> cl_state c = Live \<Longrightarrow> client_inv (c\<lparr>cl_calls := cl_calls c @ [Deliver ev]\<rparr>)"
  by (simp add: client_inv_def protocol_append)

lemma pump_inv:
  "pump ep fs fin c = (c', r) \<Longrightarrow> client_inv c \<Longrightarrow> cl_state c = Subscribing \<or> cl_state c = Live \<Longrightarrow>
     client_inv c' \<and> (cl_state c' = Subscribing \<or> cl_state c' = Live)
     \<and> cl_endpoints c' = cl_endpoints c \<and> cl_max_backoff c' = cl_max_backoff c"
proof (induction ep fs fin c rule: pump.induct)
  case (6 ep ev fs fin c)
  let ?c1 = "if cl_state c \<noteq> Live then set_state Live ep None c else c"
  have c1: "client_inv ?c1" "cl_state ?c1 = Live" "cl_endpoints ?c1 = cl_endpoints c" "cl_max_backoff ?c1 = cl_max_backoff c"
    using 6(3,4) by (auto intro!: set_state_inv simp: may_follow_def)
  from 6(2) have "pump ep fs fin (?c1\<lparr>cl_calls := cl_calls ?c1 @ [Deliver ev]\<rparr>) = (c', r)"
    by (simp add: Let_def)
  from 6(1) [OF refl this deliver_event_inv [OF c1(1,2)]] c1(2-4) show ?case by simp
qed auto

lemma connect_and_pump_inv:
  assumes "connect_and_pump ep a c = (c', r)" and "client_inv c"
    and "cl_state c = Disconnected \<or> cl_state c = Reconnecting"
  shows "client_inv c' \<and> (cl_state c' = Connecting \<or> cl_state c' = Subscribing \<or> cl_state c' = Live)
     \<and> cl_endpoints c' = cl_endpoints c \<and> cl_max_backoff c' = cl_max_backoff c"
proof -
  let ?c1 = "set_state Connecting ep None c"
  have c1: "client_inv ?c1" by (rule set_state_inv [OF assms(2)]) (use assms(3) in \<open>auto simp: may_follow_def\<close>)
  have c2: "client_inv (set_state Subscribing ep None ?c1)"
    by (rule set_state_inv [OF c1]) (simp add: may_follow_def)
  from assms(1) c1 c2 show ?thesis
    by (auto simp: connect_and_pump_def Let_def split: sum.splits option.splits dest!: pump_inv)
qed

lemma run_turn_inv:
  assumes "run_turn a r n c = (c', next)" and "client_inv c"
    and "cl_state c = Disconnected \<or> cl_state c = Reconnecting"
  shows "client_inv c' \<and> (next = None \<or> cl_state c' = Reconnecting)
     \<and> cl_endpoints c' = cl_endpoints c \<and> cl_max_backoff c' = cl_max_backoff c"
proof -
  obtain c1 fin where p: "connect_and_pump (cl_endpoints c ! (n mod length (cl_endpoints c))) a c = (c1, fin)"
    by fastforce
  note c1 = connect_and_pump_inv [OF p assms(2,3)]
  then have "client_inv (set_state Reconnecting ep err c1)" for ep err
    by (auto intro!: set_state_inv simp: may_follow_def)
  with assms(1) p c1 show ?thesis
    by (auto simp: run_turn_def Let_def split: finish.splits)
qed

lemma run_client_inv:
  "run_client as n c = (c', ws) \<Longrightarrow> client_inv c \<Longrightarrow> cl_state c = Disconnected \<or> cl_state c = Reconnecting \<Longrightarrow>
     client_inv c'"
proof (induction "as" arbitrary: n c ws)
  case (Cons x "as")
  obtain a r where x: "x = (a, r)" by fastforce
  obtain c1 nxt where t: "run_turn a r n c = (c1, nxt)" by fastforce
  note inv = run_turn_inv [OF t Cons.prems(2,3)]
  show ?case
  proof (cases nxt)
    case None
    with Cons.prems(1) x t inv show ?thesis by simp
  next
    case (Some y)
    obtain n1 w where y: "y = (n1, w)" by fastforce
    with Cons.prems(1) x t Some obtain ws' where "run_client as n1 c1 = (c', ws')"
      by (auto split: prod.splits)
    from Cons.IH [OF this] inv Some show ?thesis by simp
  qed
qed simp

section \<open>Rotation and backoff\<close>

lemma backoff_bounds: "0 \<le> m \<Longrightarrow> 0 \<le> backoff m n \<and> backoff m n \<le> m \<and> backoff m n \<le> 32000000000"
proof -
  have "(2::int) ^ min n 7 \<le> 2 ^ 7" by (rule power_increasing) simp_all
  then show "0 \<le> m \<Longrightarrow> ?thesis" by (auto simp: backoff_def millisecond_def)
qed

lemma jitter_bounds: "0 \<le> b \<Longrightarrow> 0 \<le> jitter b r \<and> jitter b r \<le> b div 5"
proof -
  assume "0 \<le> b"
  have "jitter b r < max 1 (b div 5)" "0 \<le> jitter b r" by (simp_all add: jitter_def)
  moreover have "0 \<le> b div 5" using \<open>0 \<le> b\<close> by simp
  ultimately show ?thesis by (simp add: max_def split: if_splits)
qed

text \<open>An attempt that never delivers an event leaves the attempt number to grow by one.\<close>

fun quiet :: "'ev frame list \<Rightarrow> bool" where
  "quiet [] = True"
| "quiet (ErrorFrame e # fs) = True"
| "quiet (EventFrame ev # fs) = False"
| "quiet (f # fs) = quiet fs"

lemma pump_quiet: "quiet fs \<Longrightarrow> fst (pump ep fs fin c) = c"
  by (induction fs rule: quiet.induct) simp_all

lemma connect_quiet:
  "quiet (at_frames a) \<Longrightarrow> cl_state (fst (connect_and_pump ep a c)) \<noteq> Live"
  by (auto simp: connect_and_pump_def Let_def pump_quiet split: sum.split option.split)

text \<open>The endpoints the lifecycle hook sees as connecting, in order.\<close>

fun dialled :: "'ev call list \<Rightarrow> string list" where
  "dialled [] = []"
| "dialled (Lifecycle Connecting ep err # cs) = ep # dialled cs"
| "dialled (c # cs) = dialled cs"

lemma dialled_append: "dialled (xs @ ys) = dialled xs @ dialled ys"
  by (induction xs rule: dialled.induct) simp_all

lemma dialled_connect:
  "quiet (at_frames a) \<Longrightarrow>
     dialled (cl_calls (fst (connect_and_pump ep a c))) = dialled (cl_calls c) @ [ep]"
  by (auto simp: connect_and_pump_def Let_def pump_quiet set_state_def dialled_append split: sum.split option.split)

lemma pump_fails: "fin \<noteq> Cancelled \<Longrightarrow> snd (pump ep fs fin c) \<noteq> Cancelled"
  by (induction ep fs fin c rule: pump.induct) (auto simp: Let_def split: finish.split)

lemma connect_fails: "at_finish a \<noteq> Cancelled \<Longrightarrow> snd (connect_and_pump ep a c) \<noteq> Cancelled"
  by (simp add: connect_and_pump_def Let_def pump_fails split: sum.split option.split)

lemma pump_frame:
  "cl_endpoints (fst (pump ep fs fin c)) = cl_endpoints c \<and> cl_max_backoff (fst (pump ep fs fin c)) = cl_max_backoff c"
  by (induction ep fs fin c rule: pump.induct) (simp_all add: Let_def)

lemma connect_frame [simp]:
  "cl_endpoints (fst (connect_and_pump ep a c)) = cl_endpoints c"
  "cl_max_backoff (fst (connect_and_pump ep a c)) = cl_max_backoff c"
  by (simp_all add: connect_and_pump_def Let_def pump_frame split: sum.split option.split)

lemma run_turn_quiet:
  assumes "quiet (at_frames a)" and "at_finish a \<noteq> Cancelled"
  shows "\<exists>c'. run_turn a r n c = (c', Some (n + 1, backoff (cl_max_backoff c) n + jitter (backoff (cl_max_backoff c) n) r))
    \<and> dialled (cl_calls c') = dialled (cl_calls c) @ [cl_endpoints c ! (n mod length (cl_endpoints c))]
    \<and> cl_endpoints c' = cl_endpoints c \<and> cl_max_backoff c' = cl_max_backoff c"
proof -
  let ?ep = "cl_endpoints c ! (n mod length (cl_endpoints c))"
  obtain c1 fin where p: "connect_and_pump ?ep a c = (c1, fin)" by fastforce
  then obtain err where "fin = Failed err" using connect_fails [OF assms(2), of ?ep c] by (cases fin) auto
  then show ?thesis
    using p connect_quiet [OF assms(1), of ?ep c] dialled_connect [OF assms(1), of ?ep c] connect_frame [of ?ep a c]
    by (simp add: run_turn_def Let_def set_state_def dialled_append)
qed

lemma run_client_quiet:
  assumes "list_all (\<lambda>(a, r). quiet (at_frames a) \<and> at_finish a \<noteq> Cancelled) as"
  shows "dialled (cl_calls (fst (run_client as n c)))
           = dialled (cl_calls c) @ map (\<lambda>k. cl_endpoints c ! (k mod length (cl_endpoints c))) [n ..< n + length as]
         \<and> snd (run_client as n c)
           = map (\<lambda>k. let b = backoff (cl_max_backoff c) k in b + jitter b (snd (as ! (k - n)))) [n ..< n + length as]"
  using assms
proof (induction "as" arbitrary: n c)
  case (Cons x "as")
  obtain a r where x: "x = (a, r)" by fastforce
  with Cons.prems have q: "quiet (at_frames a)" "at_finish a \<noteq> Cancelled" by auto
  obtain c' where c': "run_turn a r n c = (c', Some (n + 1, backoff (cl_max_backoff c) n + jitter (backoff (cl_max_backoff c) n) r))"
      "dialled (cl_calls c') = dialled (cl_calls c) @ [cl_endpoints c ! (n mod length (cl_endpoints c))]"
      "cl_endpoints c' = cl_endpoints c" "cl_max_backoff c' = cl_max_backoff c"
    using run_turn_quiet [OF q, of r n c] by metis
  have ih: "dialled (cl_calls (fst (run_client as (n + 1) c')))
      = dialled (cl_calls c') @ map (\<lambda>k. cl_endpoints c ! (k mod length (cl_endpoints c))) [n + 1 ..< n + 1 + length as]"
    "snd (run_client as (n + 1) c')
      = map (\<lambda>k. let b = backoff (cl_max_backoff c) k in b + jitter b (snd (as ! (k - (n + 1))))) [n + 1 ..< n + 1 + length as]"
    using Cons.IH [of "n + 1" c'] Cons.prems x by (simp_all add: c')
  have up: "[n ..< n + length (x # as)] = n # [n + 1 ..< n + 1 + length as]"
    using upt_conv_Cons [of n "n + length (x # as)"] by simp
  have tail: "map (\<lambda>k. let b = backoff (cl_max_backoff c) k in b + jitter b (snd ((x # as) ! (k - n)))) [n + 1 ..< n + 1 + length as]
      = map (\<lambda>k. let b = backoff (cl_max_backoff c) k in b + jitter b (snd (as ! (k - (n + 1))))) [n + 1 ..< n + 1 + length as]"
    by (rule map_cong [OF refl]) (auto simp: nth_Cons')
  show ?case
    unfolding up list.map tail using ih c'(1,2) x
    by (simp add: case_prod_unfold Let_def c'(3,4) del: upt_Suc)
qed simp

section \<open>Properties\<close>

lemma new_client_inv: "new_client eps qs k idle m = Inr c \<Longrightarrow>
   client_inv c \<and> cl_state c = Disconnected \<and> cl_endpoints c = eps \<and> eps \<noteq> [] \<and> 0 < cl_max_backoff c \<and> cl_calls c = []"
  by (auto simp: new_client_def client_inv_def second_def split: if_splits)

text \<open>C18: the connection protocol.  Over any run the lifecycle hook sees the states in the order
  connecting, subscribing, live, reconnecting, each attempt cut short only by reconnecting, and the
  handler receives an event only while the connection is live; the recorded state is the last one
  the hook saw.\<close>

theorem connection_protocol:
  assumes "new_client eps qs k idle m = Inr c" and "run_client as 0 c = (c', ws)"
  shows "protocol Disconnected (cl_calls c') = Some (cl_state c')"
  using run_client_inv [OF assms(2)] new_client_inv [OF assms(1)] by (auto simp: client_inv_def)

definition demo_client :: "nat client" where
  "demo_client = \<lparr>cl_endpoints = [''a'', ''b''], cl_queries = [''q''], cl_idle_timeout = 30 * second,
                  cl_max_backoff = 30 * second,
                  cl_state = Disconnected, cl_active = '''', cl_calls = []\<rparr>"

lemma demo_client_new: "new_client [''a'', ''b''] [''q''] True 0 0 = Inr demo_client"
  by (simp add: new_client_def demo_client_def)

definition refused :: "nat attempt" where
  "refused = \<lparr>at_url = Inr ''ws://a/websocket'', at_dial = Some ''refused'', at_writes = [], at_frames = [],
              at_finish = Failed ''eof''\<rparr>"

definition streamed :: "nat attempt" where
  "streamed = \<lparr>at_url = Inr ''ws://a/websocket'', at_dial = None, at_writes = [None],
               at_frames = [EmptyFrame, EventFrame 7, BadFrame, EventFrame 8], at_finish = Failed ''eof''\<rparr>"

theorem connection_protocol_witness:
  "protocol Disconnected (cl_calls (fst (run_client [(streamed, 3), (refused, 1)] 0 demo_client))) = Some Reconnecting"
proof -
  let ?r = "run_client [(streamed, 3), (refused, 1)] 0 demo_client"
  have "cl_state (fst ?r) = Reconnecting" by code_simp
  with connection_protocol [OF demo_client_new, of "[(streamed, 3), (refused, 1)]" "fst ?r" "snd ?r"] show ?thesis by simp
qed

text \<open>C19: reconnecting.  While attempts fail without delivering an event, the client dials the endpoints
  in rotation, so every endpoint is tried; the wait before attempt \<open>k + 1\<close> is the capped exponential
  backoff of \<open>k\<close> plus at most a fifth of it, and never negative.\<close>

theorem reconnect_rotation:
  assumes "new_client eps qs k idle m = Inr c" and "run_client as 0 c = (c', ws)"
    and "list_all (\<lambda>(a, r). quiet (at_frames a) \<and> at_finish a \<noteq> Cancelled) as"
  shows "dialled (cl_calls c') = map (\<lambda>k. eps ! (k mod length eps)) [0..<length as]
    \<and> length ws = length as
    \<and> (\<forall>k \<in> {..<length as}. let b = min (250 * 2 ^ min k 7 * millisecond) (cl_max_backoff c)
         in 0 \<le> b \<and> b \<le> ws ! k \<and> ws ! k \<le> b + b div 5)"
proof -
  note new = new_client_inv [OF assms(1)]
  note q = run_client_quiet [OF assms(3), of 0 c]
  have "let b = min (250 * 2 ^ min k 7 * millisecond) (cl_max_backoff c) in 0 \<le> b \<and> b \<le> ws ! k \<and> ws ! k \<le> b + b div 5"
    if "k < length as" for k
  proof -
    have "ws ! k = backoff (cl_max_backoff c) k + jitter (backoff (cl_max_backoff c) k) (snd (as ! k))"
      using q assms(2) that by (simp add: Let_def)
    moreover have "0 \<le> backoff (cl_max_backoff c) k" using backoff_bounds [of "cl_max_backoff c" k] new by simp
    ultimately show ?thesis
      using jitter_bounds [of "backoff (cl_max_backoff c) k" "snd (as ! k)"] by (simp add: Let_def backoff_def)
  qed
  with q assms(2) new show ?thesis by simp
qed

theorem reconnect_rotation_witness:
  "dialled (cl_calls (fst (run_client [(refused, 3), (refused, 1), (refused, 0)] 0 demo_client))) = [''a'', ''b'', ''a'']"
  using reconnect_rotation [OF demo_client_new, of "[(refused, 3), (refused, 1), (refused, 0)]"
      "fst (run_client [(refused, 3), (refused, 1), (refused, 0)] 0 demo_client)"
      "snd (run_client [(refused, 3), (refused, 1), (refused, 0)] 0 demo_client)"]
  by (simp add: refused_def upt_conv_Cons)

end
