(* ===== verification/Ws_Queue.thy ===== *)
theory Ws_Queue
  imports Prelude
begin

text \<open>
  The outgoing queue of a dashboard connection (\<open>internal/web/ws_queue.go\<close>, with \<open>signalClose\<close> and
  the frame loop of \<open>writePump\<close> from \<open>ws.go\<close>).  An envelope carries its payload as a parameter
  type, and once encoded its bytes (\<open>wsWire\<close>: the prefix and the encoded payload).  A result \<open>None\<close> is the panic of an index that is out of range.  \<open>wc_sent\<close> is the ghost list of
  the frames written to the connection.
\<close>

section \<open>State\<close>

record 'p envelope =
  en_type :: string
  en_height :: int
  en_round :: int
  en_seq :: u64
  en_payload :: 'p
  en_wire :: "(string \<times> string) option"
  en_size :: int
  en_queued :: gtime

record 'p ws_client =
  wc_subs :: "(string, bool) gomap"
  wc_seq :: u64
  wc_pending :: "'p envelope list"
  wc_bytes :: int
  wc_limit :: int
  wc_overloaded :: gtime
  wc_wake :: bool
  wc_dropped :: u64
  wc_closed :: bool
  wc_sent :: "'p envelope list"

definition queue_messages :: int where
  "queue_messages = 256"

definition queue_bytes :: int where
  "queue_bytes = 4194304"

definition queue_max_age :: duration where
  "queue_max_age = 2 * second"

section \<open>Operations\<close>

definition signal_close :: "'p ws_client \<Rightarrow> 'p ws_client" where
  "signal_close c = (if wc_closed c then c else c\<lparr>wc_closed := True, wc_pending := [], wc_bytes := 0\<rparr>)"

definition remove_first :: "'p ws_client \<Rightarrow> ('p envelope \<times> 'p ws_client) option" where
  "remove_first c =
     (case wc_pending c of
        [] \<Rightarrow> None
      | env # rest \<Rightarrow> Some (env, c\<lparr>wc_pending := rest, wc_bytes := wc_bytes c - en_size env\<rparr>))"

definition is_baseline :: "'p envelope \<Rightarrow> bool" where
  "is_baseline env \<longleftrightarrow> en_seq env = 1 \<and> en_type env = ''state.snapshot''"

definition drop_first :: "gtime \<Rightarrow> 'p ws_client \<Rightarrow> 'p ws_client option" where
  "drop_first now c =
     map_option (\<lambda>(env, c1). c1\<lparr>wc_dropped := wc_dropped c1 + 1,
                                wc_overloaded := (if wc_overloaded c1 = 0 then now else wc_overloaded c1)\<rparr>)
       (remove_first c)"

lemma drop_first_length: "drop_first now c = Some c1 \<Longrightarrow> length (wc_pending c1) < length (wc_pending c)"
  by (auto simp: drop_first_def remove_first_def split: list.splits)

text \<open>The loop that makes room; the flag is \<open>False\<close> where the code returns false from it.\<close>

function make_room :: "int \<Rightarrow> int \<Rightarrow> gtime \<Rightarrow> 'p ws_client \<Rightarrow> ('p ws_client \<times> bool) option" where
  "make_room limit sz now c =
     (if int (length (wc_pending c)) \<ge> limit \<or> wc_bytes c + sz > queue_bytes
      then case wc_pending c of
             [] \<Rightarrow> None
           | first # rest \<Rightarrow>
               if is_baseline first then Some (c, False)
               else (case drop_first now c of
                       None \<Rightarrow> None
                     | Some c1 \<Rightarrow>
                         if time_sub now (wc_overloaded c1) > queue_max_age then Some (c1, False)
                         else make_room limit sz now c1)
      else Some (c, True))"
  by pat_completeness auto
termination
  by (relation "measure (\<lambda>(l, s, n, c). length (wc_pending c))") (auto dest: drop_first_length)

declare make_room.simps [simp del]

definition append_env :: "'p envelope \<Rightarrow> 'p ws_client \<Rightarrow> 'p ws_client" where
  "append_env env c = c\<lparr>wc_pending := wc_pending c @ [env], wc_bytes := wc_bytes c + en_size env, wc_wake := True\<rparr>"

text \<open>An adjacent snapshot takes the place of one that still waits, unless that one is the first baseline.\<close>

definition supersedes :: "'p envelope \<Rightarrow> 'p ws_client \<Rightarrow> bool" where
  "supersedes env c \<longleftrightarrow>
     wc_pending c \<noteq> [] \<and> (en_type env = ''state.snapshot'' \<or> en_type env = ''context.snapshot'')
     \<and> en_type (last (wc_pending c)) = en_type env \<and> en_seq (last (wc_pending c)) \<noteq> 1
     \<and> wc_bytes c - en_size (last (wc_pending c)) + en_size env \<le> queue_bytes"

definition replace_last :: "'p envelope \<Rightarrow> 'p ws_client \<Rightarrow> 'p ws_client" where
  "replace_last env c =
     (let prev = last (wc_pending c)
      in c\<lparr>wc_pending := butlast (wc_pending c) @ [env\<lparr>en_seq := en_seq prev, en_queued := en_queued prev\<rparr>],
           wc_bytes := wc_bytes c + (en_size env - en_size prev)\<rparr>)"

definition queue_locked :: "'p envelope \<Rightarrow> gtime \<Rightarrow> 'p ws_client \<Rightarrow> ('p ws_client \<times> bool) option" where
  "queue_locked env now c =
     (if wc_closed c then Some (c, False)
      else
        let limit = (if wc_limit c \<le> 0 then queue_messages else wc_limit c)
        in if en_size env > queue_bytes
              \<or> wc_pending c \<noteq> [] \<and> time_sub now (en_queued (hd (wc_pending c))) > queue_max_age
           then Some (c, False)
           else if supersedes env c then Some (replace_last env c, True)
           else
             let c1 = c\<lparr>wc_seq := wc_seq c + 1\<rparr>;
                 env1 = env\<lparr>en_seq := wc_seq c1, en_queued := now\<rparr>
             in (case make_room limit (en_size env) now c1 of
                   None \<Rightarrow> None
                 | Some (c2, False) \<Rightarrow> Some (c2, False)
                 | Some (c2, True) \<Rightarrow> Some (append_env env1 c2, True)))"

text \<open>\<open>queue\<close>, and every caller of \<open>queueLocked\<close>: a refused frame closes the connection.\<close>

definition queue_env :: "'p envelope \<Rightarrow> gtime \<Rightarrow> 'p ws_client \<Rightarrow> 'p ws_client option" where
  "queue_env env now c =
     (case queue_locked env now c of
        None \<Rightarrow> None
      | Some (c1, ok) \<Rightarrow> Some (if ok then c1 else signal_close c1))"

definition dequeue :: "'p ws_client \<Rightarrow> ('p envelope \<times> 'p ws_client) option" where
  "dequeue c =
     (if wc_pending c = [] \<or> wc_closed c then None
      else map_option (\<lambda>(env, c1).
             (env, if int (length (wc_pending c1)) < queue_messages div 2 \<and> wc_bytes c1 < queue_bytes div 2
                   then c1\<lparr>wc_overloaded := 0\<rparr> else c1))
           (remove_first c))"

text \<open>One turn of the frame loop of \<open>writePump\<close>: \<open>ok\<close> is whether the connection took the frame.\<close>

definition write_next :: "gtime \<Rightarrow> bool \<Rightarrow> 'p ws_client \<Rightarrow> 'p ws_client" where
  "write_next now ok c =
     (case dequeue c of
        None \<Rightarrow> c\<lparr>wc_wake := False\<rparr>
      | Some (env, c1) \<Rightarrow>
          if time_sub now (en_queued env) > queue_max_age then signal_close c1
          else if \<not> ok then signal_close c1
          else c1\<lparr>wc_sent := wc_sent c1 @ [env]\<rparr>)"

datatype 'p queue_op = Queue "'p envelope" gtime | Write gtime bool | Close

fun queue_step :: "'p queue_op \<Rightarrow> 'p ws_client \<Rightarrow> 'p ws_client option" where
  "queue_step (Queue env now) c = queue_env env now c"
| "queue_step (Write now ok) c = Some (write_next now ok c)"
| "queue_step Close c = Some (signal_close c)"

fun run_queue :: "'p queue_op list \<Rightarrow> 'p ws_client \<Rightarrow> 'p ws_client option" where
  "run_queue [] c = Some c"
| "run_queue (op # ops) c = (case queue_step op c of None \<Rightarrow> None | Some c1 \<Rightarrow> run_queue ops c1)"

text \<open>The client that \<open>serveWS\<close> makes.\<close>

definition new_ws_client :: "int \<Rightarrow> 'p ws_client" where
  "new_ws_client limit =
     \<lparr>wc_subs = [(''state'', True), (''blocks'', True), (''divergence'', True), (''votes'', True)],
      wc_seq = 0, wc_pending = [], wc_bytes = 0, wc_limit = limit, wc_overloaded = 0, wc_wake = False,
      wc_dropped = 0, wc_closed = False, wc_sent = []\<rparr>"

section \<open>The invariant\<close>

abbreviation seq_of :: "'p envelope \<Rightarrow> nat" where
  "seq_of env \<equiv> unat (en_seq env)"

definition effective_limit :: "'p ws_client \<Rightarrow> int" where
  "effective_limit c = (if wc_limit c \<le> 0 then queue_messages else wc_limit c)"

definition accounted :: "'p ws_client \<Rightarrow> bool" where
  "accounted c \<longleftrightarrow>
     wc_bytes c = (\<Sum>e \<leftarrow> wc_pending c. en_size e) \<and> list_all (\<lambda>e. 0 \<le> en_size e) (wc_pending c)
     \<and> wc_bytes c \<le> queue_bytes \<and> int (length (wc_pending c)) \<le> effective_limit c"

text \<open>
  \<open>frames c\<close> is everything the browser has or will get, in order.  Sequence numbers count up from 1,
  and each one that is missing is a counted drop.
\<close>

abbreviation frames :: "'p ws_client \<Rightarrow> 'p envelope list" where
  "frames c \<equiv> wc_sent c @ wc_pending c"

definition numbered :: "'p ws_client \<Rightarrow> bool" where
  "numbered c \<longleftrightarrow>
     sorted_wrt (<) (map seq_of (frames c)) \<and> list_all (\<lambda>e. 1 \<le> seq_of e \<and> seq_of e \<le> unat (wc_seq c)) (frames c)
     \<and> (wc_sent c \<noteq> [] \<longrightarrow> is_baseline (hd (wc_sent c)))
     \<and> (\<not> wc_closed c \<longrightarrow> frames c \<noteq> [] \<and> is_baseline (hd (frames c))
          \<and> unat (wc_seq c) = length (frames c) + unat (wc_dropped c))"

definition queue_inv :: "'p ws_client \<Rightarrow> bool" where
  "queue_inv c \<longleftrightarrow> accounted c \<and> numbered c \<and> (wc_closed c \<longrightarrow> wc_pending c = [])"

lemma effective_limit_pos: "0 < effective_limit c"
  by (simp add: effective_limit_def queue_messages_def)

lemma effective_limit_cong: "wc_limit c = wc_limit c' \<Longrightarrow> effective_limit c = effective_limit c'"
  by (simp add: effective_limit_def)

lemma signal_close_inv: "queue_inv c \<Longrightarrow> queue_inv (signal_close c)"
  by (auto simp: queue_inv_def signal_close_def accounted_def numbered_def effective_limit_def queue_bytes_def
      queue_messages_def sorted_wrt_append)

lemma is_baseline_seq: "is_baseline e \<Longrightarrow> seq_of e = 1"
  by (simp add: is_baseline_def)

lemma drop_first_Some:
  "wc_pending c = e # rest \<Longrightarrow>
     drop_first now c = Some (c\<lparr>wc_pending := rest, wc_bytes := wc_bytes c - en_size e, wc_dropped := wc_dropped c + 1,
                              wc_overloaded := (if wc_overloaded c = 0 then now else wc_overloaded c)\<rparr>)"
  by (simp add: drop_first_def remove_first_def)

text \<open>What the loop that makes room does: it drops a prefix of the queue, never the first baseline.\<close>

definition made_room :: "'p ws_client \<Rightarrow> int \<Rightarrow> int \<Rightarrow> nat \<Rightarrow> 'p ws_client \<Rightarrow> bool \<Rightarrow> bool" where
  "made_room c limit sz k c2 ok \<longleftrightarrow>
     k \<le> length (wc_pending c) \<and> wc_pending c2 = drop k (wc_pending c)
     \<and> wc_bytes c2 = (\<Sum>e \<leftarrow> wc_pending c2. en_size e) \<and> wc_dropped c2 = wc_dropped c + of_nat k
     \<and> wc_sent c2 = wc_sent c \<and> wc_seq c2 = wc_seq c \<and> wc_closed c2 = wc_closed c \<and> wc_limit c2 = wc_limit c
     \<and> wc_subs c2 = wc_subs c \<and> (0 < k \<longrightarrow> \<not> is_baseline (hd (wc_pending c)))
     \<and> (ok \<longrightarrow> int (length (wc_pending c2)) < limit \<and> wc_bytes c2 + sz \<le> queue_bytes)"

lemma make_room_made:
  assumes "0 < limit" and "sz \<le> queue_bytes" and "wc_bytes c = (\<Sum>e \<leftarrow> wc_pending c. en_size e)"
  shows "\<exists>k c2 ok. make_room limit sz now c = Some (c2, ok) \<and> made_room c limit sz k c2 ok"
  using assms
proof (induction limit sz now c rule: make_room.induct)
  case (1 limit sz now c)
  show ?case
  proof (cases "int (length (wc_pending c)) \<ge> limit \<or> wc_bytes c + sz > queue_bytes")
    case False
    with 1 show ?thesis
      by (intro exI [of _ 0] exI [of _ c] exI [of _ True])
        (simp add: make_room.simps [of limit sz now c] made_room_def)
  next
    case full: True
    show ?thesis
    proof (cases "wc_pending c")
      case Nil
      with full 1 show ?thesis by simp
    next
      case (Cons e rest)
      show ?thesis
      proof (cases "is_baseline e")
        case True
        with full Cons 1 show ?thesis
          by (intro exI [of _ 0] exI [of _ c] exI [of _ False])
            (simp add: make_room.simps [of limit sz now c] made_room_def)
      next
        case False
        let ?c1 = "c\<lparr>wc_pending := rest, wc_bytes := wc_bytes c - en_size e, wc_dropped := wc_dropped c + 1,
                   wc_overloaded := (if wc_overloaded c = 0 then now else wc_overloaded c)\<rparr>"
        have d: "drop_first now c = Some ?c1" by (rule drop_first_Some [OF Cons])
        have b: "wc_bytes ?c1 = (\<Sum>e \<leftarrow> wc_pending ?c1. en_size e)" using 1 Cons by simp
        show ?thesis
        proof (cases "time_sub now (wc_overloaded ?c1) > queue_max_age")
          case True
          have "make_room limit sz now c = Some (?c1, False)"
            using full Cons False d True by (subst make_room.simps) simp
          with Cons False b show ?thesis
            by (intro exI [of _ 1] exI [of _ ?c1] exI [of _ False]) (simp add: made_room_def)
        next
          case young: False
          obtain k c2 ok where r: "make_room limit sz now ?c1 = Some (c2, ok)" "made_room ?c1 limit sz k c2 ok"
            using "1.IH" [OF full Cons False d young "1.prems"(1,2) b] by blast
          have "make_room limit sz now c = Some (c2, ok)"
            using full Cons False d young r(1) by (subst make_room.simps) simp
          with r(2) Cons False show ?thesis
            by (intro exI [of _ "Suc k"] exI [of _ c2] exI [of _ ok]) (auto simp: made_room_def add.assoc)
        qed
      qed
    qed
  qed
qed

lemma unat_add_small:
  assumes "unat (w :: u64) + k < 2 ^ 64"
  shows "unat (w + of_nat k) = unat w + k"
proof -
  have "unat (of_nat k :: u64) = k" using assms by (simp add: unsigned_of_nat take_bit_nat_eq_self)
  then show ?thesis using assms by (simp add: unat_word_ariths)
qed

lemma unat_lt_64: "unat (w :: u64) < 2 ^ 64"
  using unsigned_less [of w] by simp

text \<open>A refused frame: the connection closes with what was sent, still well numbered.\<close>

lemma refused_inv:
  assumes "queue_inv c" and "wc_sent c2 = wc_sent c" and "unat (wc_seq c) \<le> unat (wc_seq c2)" and "\<not> wc_closed c2"
  shows "queue_inv (signal_close c2)"
  using assms effective_limit_pos [of c2]
  by (auto simp: queue_inv_def signal_close_def accounted_def numbered_def effective_limit_def queue_bytes_def
      queue_messages_def sorted_wrt_append list_all_iff intro: order_trans)

lemma replace_last_inv:
  assumes "queue_inv c" and "supersedes env c" and "0 \<le> en_size env" and "\<not> wc_closed c"
  shows "queue_inv (replace_last env c)"
proof -
  obtain ps prev where p: "wc_pending c = ps @ [prev]"
    using assms(2) by (metis supersedes_def append_butlast_last_id)
  have seq: "en_seq prev \<noteq> 1" and size: "wc_bytes c - en_size prev + en_size env \<le> queue_bytes"
    using assms(2) p by (simp_all add: supersedes_def)
  let ?new = "env\<lparr>en_seq := en_seq prev, en_queued := en_queued prev\<rparr>"
  have r: "replace_last env c = c\<lparr>wc_pending := ps @ [?new], wc_bytes := wc_bytes c + (en_size env - en_size prev)\<rparr>"
    by (simp add: replace_last_def p)
  have base: "is_baseline (hd ((wc_sent c @ ps) @ [prev]))"
    using assms(1,4) p by (simp add: queue_inv_def numbered_def)
  have hd: "wc_sent c @ ps \<noteq> [] \<and> is_baseline (hd (wc_sent c @ ps))"
  proof (cases "wc_sent c @ ps = []")
    case True
    with base seq show ?thesis by (simp add: is_baseline_def)
  next
    case False
    with base show ?thesis by (metis hd_append2)
  qed
  have "hd (wc_sent c @ ps @ [?new]) = hd (wc_sent c @ ps)" using hd by (metis append.assoc hd_append2)
  with hd have "is_baseline (hd (wc_sent c @ ps @ [?new]))" by simp
  with assms(1,3,4) p size show ?thesis
    unfolding r queue_inv_def accounted_def numbered_def
    by (auto simp: effective_limit_def)
qed

lemma sorted_snoc:
  "sorted_wrt (<) (map f xs) \<Longrightarrow> (\<And>x. x \<in> set xs \<Longrightarrow> f x < f y) \<Longrightarrow> sorted_wrt (<) (map f (xs @ [y]))"
  for f :: "'a \<Rightarrow> nat"
  by (simp add: sorted_wrt_append)

lemma append_env_inv:
  assumes inv: "queue_inv c" and "\<not> wc_closed c" and small: "unat (wc_seq c) < 2 ^ 64 - 1"
    and room: "made_room (c\<lparr>wc_seq := wc_seq c + 1\<rparr>) (effective_limit c) (en_size env) k c2 True"
    and "0 \<le> en_size env"
  shows "queue_inv (append_env (env\<lparr>en_seq := wc_seq c + 1, en_queued := now\<rparr>) c2)"
proof -
  have s: "unat (wc_seq c + 1) = unat (wc_seq c) + 1"
    using unat_add_small [of "wc_seq c" 1] small by simp
  note r = room [unfolded made_room_def, simplified]
  have count: "unat (wc_seq c) = length (frames c) + unat (wc_dropped c)"
    using inv assms(2) by (simp add: queue_inv_def numbered_def)
  have dropped: "unat (wc_dropped c2) = unat (wc_dropped c) + k"
    using unat_add_small [of "wc_dropped c" k] r count unat_lt_64 [of "wc_seq c"] by simp
  have limit: "effective_limit c2 = effective_limit c" using r by (intro effective_limit_cong) simp
  have first: "frames c \<noteq> [] \<and> is_baseline (hd (frames c))"
    using inv assms(2) by (simp add: queue_inv_def numbered_def)
  have base: "is_baseline (hd (wc_sent c @ drop k (wc_pending c)))" "wc_sent c @ drop k (wc_pending c) \<noteq> []"
    using first r by (cases "wc_sent c"; cases "k = 0"; simp)+
  have sub: "set (drop k (wc_pending c)) \<subseteq> set (wc_pending c)" by (rule set_drop_subset)
  have sorted: "sorted_wrt (<) (map seq_of (wc_sent c @ drop k (wc_pending c)))"
  proof -
    have "sorted_wrt (<) (map seq_of (wc_sent c) @ map seq_of (wc_pending c))"
      using inv by (simp add: queue_inv_def numbered_def)
    then show ?thesis
      unfolding map_append [symmetric] sorted_wrt_map
      by (auto simp: sorted_wrt_append intro: sorted_wrt_drop dest: in_set_dropD)
  qed
  have below: "\<forall>e \<in> set (wc_sent c @ drop k (wc_pending c)). 1 \<le> seq_of e \<and> seq_of e \<le> unat (wc_seq c)"
    using inv sub by (auto simp: queue_inv_def numbered_def list_all_iff)
  have nonneg: "\<forall>e \<in> set (drop k (wc_pending c)). 0 \<le> en_size e"
    using inv sub by (auto simp: queue_inv_def accounted_def list_all_iff)
  let ?new = "env\<lparr>en_seq := wc_seq c + 1, en_queued := now\<rparr>"
  let ?c3 = "append_env ?new c2"
  have f: "wc_pending ?c3 = drop k (wc_pending c) @ [?new]" "wc_sent ?c3 = wc_sent c" "wc_closed ?c3 = wc_closed c"
      "wc_seq ?c3 = wc_seq c + 1" "wc_dropped ?c3 = wc_dropped c2" "effective_limit ?c3 = effective_limit c"
      "wc_bytes ?c3 = wc_bytes c2 + en_size env"
    using r limit by (simp_all add: append_env_def effective_limit_def)
  have "accounted ?c3"
    unfolding accounted_def f using r assms(5) nonneg by (auto simp: list_all_iff)
  moreover have "numbered ?c3"
  proof -
    have fr: "frames ?c3 = (wc_sent c @ drop k (wc_pending c)) @ [?new]" by (simp add: f)
    have a: "sorted_wrt (<) (map seq_of (frames ?c3))"
      unfolding fr by (rule sorted_snoc [OF sorted]) (use below s in \<open>auto simp: less_Suc_eq_le\<close>)
    have b: "list_all (\<lambda>e. 1 \<le> seq_of e \<and> seq_of e \<le> unat (wc_seq ?c3)) (frames ?c3)"
      unfolding fr list_all_append f(4) s using below by (auto simp: list_all_iff s intro: le_SucI)
    have d: "hd (frames ?c3) = hd (wc_sent c @ drop k (wc_pending c))" unfolding fr using base(2) by (rule hd_append2)
    have e: "unat (wc_seq ?c3) = length (frames ?c3) + unat (wc_dropped ?c3)"
      unfolding fr f s dropped using count r by simp
    have g: "wc_sent ?c3 \<noteq> [] \<longrightarrow> is_baseline (hd (wc_sent ?c3))"
      using inv by (simp add: f queue_inv_def numbered_def)
    show ?thesis unfolding numbered_def using a b d e g base by (simp add: fr)
  qed
  ultimately show ?thesis using assms(2) by (simp add: queue_inv_def f)
qed

lemma queue_locked_ok:
  assumes inv: "queue_inv c" and small: "unat (wc_seq c) < 2 ^ 64 - 1" and size: "0 \<le> en_size env"
  shows "\<exists>c' ok. queue_locked env now c = Some (c', ok) \<and> queue_inv (if ok then c' else signal_close c')
           \<and> unat (wc_seq c') \<le> unat (wc_seq c) + 1 \<and> wc_limit c' = wc_limit c \<and> wc_subs c' = wc_subs c"
proof (cases "wc_closed c \<or> en_size env > queue_bytes
      \<or> wc_pending c \<noteq> [] \<and> time_sub now (en_queued (hd (wc_pending c))) > queue_max_age")
  case True
  then show ?thesis using inv signal_close_inv [OF inv] by (auto simp: queue_locked_def Let_def)
next
  case False
  show ?thesis
  proof (cases "supersedes env c")
    case True
    have "queue_locked env now c = Some (replace_last env c, True)"
      using False True by (simp add: queue_locked_def Let_def)
    moreover have "wc_seq (replace_last env c) = wc_seq c" "wc_limit (replace_last env c) = wc_limit c"
      "wc_subs (replace_last env c) = wc_subs c"
      by (simp_all add: replace_last_def Let_def)
    ultimately show ?thesis using replace_last_inv [OF inv True size] False by auto
  next
    case fresh: False
    let ?c1 = "c\<lparr>wc_seq := wc_seq c + 1\<rparr>"
    have s: "unat (wc_seq c + 1) = unat (wc_seq c) + 1"
      using unat_add_small [of "wc_seq c" 1] small by simp
    have acc: "wc_bytes ?c1 = (\<Sum>e \<leftarrow> wc_pending ?c1. en_size e)" using inv by (simp add: queue_inv_def accounted_def)
    have fit: "en_size env \<le> queue_bytes" using False by simp
    obtain k c2 ok where r: "make_room (effective_limit c) (en_size env) now ?c1 = Some (c2, ok)"
        "made_room ?c1 (effective_limit c) (en_size env) k c2 ok"
      using make_room_made [OF effective_limit_pos fit acc, of c now] by blast
    have "queue_inv (if ok then append_env (env\<lparr>en_seq := wc_seq c + 1, en_queued := now\<rparr>) c2 else signal_close c2)"
      using append_env_inv [OF inv _ small, of env k c2 now] refused_inv [OF inv, of c2] r(2) False size s
      by (auto simp: made_room_def)
    moreover have "queue_locked env now c
        = Some (if ok then append_env (env\<lparr>en_seq := wc_seq c + 1, en_queued := now\<rparr>) c2 else c2, ok)"
      using False fresh r(1) by (cases ok) (auto simp: queue_locked_def Let_def effective_limit_def)
    moreover have "wc_seq c2 = wc_seq c + 1" "wc_limit c2 = wc_limit c" "wc_subs c2 = wc_subs c"
      using r(2) by (simp_all add: made_room_def)
    ultimately show ?thesis using s by (cases ok) (auto simp: append_env_def)
  qed
qed

lemma queue_env_ok:
  assumes "queue_inv c" and "unat (wc_seq c) < 2 ^ 64 - 1" and "0 \<le> en_size env"
  shows "\<exists>c'. queue_env env now c = Some c' \<and> queue_inv c' \<and> unat (wc_seq c') \<le> unat (wc_seq c) + 1
           \<and> wc_limit c' = wc_limit c \<and> wc_subs c' = wc_subs c"
proof -
  obtain c1 ok where "queue_locked env now c = Some (c1, ok)" "queue_inv (if ok then c1 else signal_close c1)"
      "unat (wc_seq c1) \<le> unat (wc_seq c) + 1" "wc_limit c1 = wc_limit c" "wc_subs c1 = wc_subs c"
    using queue_locked_ok [OF assms, of now] by blast
  then show ?thesis by (cases ok) (auto simp: queue_env_def signal_close_def)
qed

lemma write_next_inv:
  assumes inv: "queue_inv c"
  shows "queue_inv (write_next now ok c) \<and> wc_seq (write_next now ok c) = wc_seq c
         \<and> wc_limit (write_next now ok c) = wc_limit c \<and> wc_subs (write_next now ok c) = wc_subs c"
proof (cases "dequeue c")
  case None
  with inv show ?thesis
    by (auto simp: write_next_def queue_inv_def accounted_def numbered_def effective_limit_def)
next
  case (Some x)
  obtain env c1 where x: "x = (env, c1)" by fastforce
  from Some x obtain rest where p: "wc_pending c = env # rest" "\<not> wc_closed c"
    by (auto simp: dequeue_def remove_first_def split: list.splits if_splits)
  from Some x p have c1: "wc_pending c1 = rest" "wc_bytes c1 = wc_bytes c - en_size env" "wc_sent c1 = wc_sent c"
      "wc_seq c1 = wc_seq c" "wc_dropped c1 = wc_dropped c" "wc_closed c1 = wc_closed c" "wc_limit c1 = wc_limit c"
      "wc_subs c1 = wc_subs c"
    by (auto simp: dequeue_def remove_first_def split: if_splits)
  have closed: "queue_inv (signal_close c1)"
    by (rule refused_inv [OF inv]) (use c1 p in simp_all)
  let ?c2 = "c1\<lparr>wc_sent := wc_sent c1 @ [env]\<rparr>"
  have f: "frames ?c2 = frames c" by (simp add: c1 p)
  have hd: "is_baseline (hd (wc_sent ?c2))"
    using inv p c1(3) by (cases "wc_sent c") (auto simp: queue_inv_def numbered_def)
  have "accounted ?c2"
    using inv c1 p effective_limit_cong [of c1 c] by (auto simp: queue_inv_def accounted_def effective_limit_def)
  moreover have "numbered ?c2"
    using inv hd c1(4-6) p(2) unfolding queue_inv_def numbered_def f by auto
  ultimately have "queue_inv ?c2" using p c1 by (simp add: queue_inv_def)
  with Some x closed c1 show ?thesis by (simp add: write_next_def signal_close_def)
qed

fun sized :: "'p queue_op \<Rightarrow> bool" where
  "sized (Queue env now) = (0 \<le> en_size env)"
| "sized op = True"

lemma queue_step_ok:
  assumes "queue_inv c" and "unat (wc_seq c) < 2 ^ 64 - 1" and "sized op"
  shows "\<exists>c'. queue_step op c = Some c' \<and> queue_inv c' \<and> unat (wc_seq c') \<le> unat (wc_seq c) + 1
           \<and> wc_limit c' = wc_limit c"
proof (cases op)
  case (Queue env now)
  with queue_env_ok [OF assms(1,2), of env now] assms(3) show ?thesis by auto
next
  case (Write now ok)
  with write_next_inv [OF assms(1), of now ok] show ?thesis by simp
next
  case Close
  with signal_close_inv [OF assms(1)] show ?thesis by (simp add: signal_close_def)
qed

lemma run_queue_ok:
  "queue_inv c \<Longrightarrow> unat (wc_seq c) + length ops < 2 ^ 64 - 1 \<Longrightarrow> list_all sized ops \<Longrightarrow>
     \<exists>c'. run_queue ops c = Some c' \<and> queue_inv c' \<and> wc_limit c' = wc_limit c"
proof (induction ops arbitrary: c)
  case (Cons op ops)
  obtain c1 where c1: "queue_step op c = Some c1" "queue_inv c1" "unat (wc_seq c1) \<le> unat (wc_seq c) + 1"
      "wc_limit c1 = wc_limit c"
    using queue_step_ok [of c op] Cons.prems by auto
  from Cons.IH [OF c1(2)] Cons.prems c1 show ?case by auto
qed simp

text \<open>The baseline that \<open>serveWS\<close> queues on a fresh connection.\<close>

lemma baseline_queued:
  assumes "en_type env = ''state.snapshot''" and "0 \<le> en_size env"
  shows "\<exists>c. queue_env env now (new_ws_client limit) = Some c \<and> queue_inv c \<and> unat (wc_seq c) \<le> 1
           \<and> wc_limit c = limit"
proof (cases "en_size env > queue_bytes")
  case True
  then show ?thesis
    by (auto simp: queue_env_def queue_locked_def new_ws_client_def signal_close_def queue_inv_def accounted_def
        numbered_def queue_bytes_def effective_limit_def queue_messages_def)
next
  case False
  let ?c = "append_env (env\<lparr>en_seq := 1, en_queued := now\<rparr>) (new_ws_client limit\<lparr>wc_seq := 1\<rparr>)"
  have "queue_env env now (new_ws_client limit) = Some ?c"
    using False by (simp add: queue_env_def queue_locked_def new_ws_client_def supersedes_def Let_def
        make_room.simps queue_messages_def)
  moreover have "queue_inv ?c"
    using False assms
    by (auto simp: queue_inv_def accounted_def numbered_def append_env_def new_ws_client_def is_baseline_def
        effective_limit_def queue_messages_def)
  ultimately show ?thesis by (simp add: append_env_def new_ws_client_def)
qed

section \<open>Properties\<close>

text \<open>C22: the stream of a dashboard connection.  Whatever is queued and however the writer and the clock
  behave, the queue never indexes out of range; the first frame written is the state snapshot with
  sequence number 1; sequence numbers written are strictly increasing; and while the connection is open
  every number that is missing is a counted drop.\<close>

theorem stream_numbered:
  assumes "en_type base = ''state.snapshot''" and "0 \<le> en_size base" and "list_all sized ops"
    and "length ops < 18446744073709551614"
  shows "\<exists>c. run_queue (Queue base now # ops) (new_ws_client limit) = Some c
    \<and> sorted_wrt (<) (map seq_of (wc_sent c))
    \<and> (wc_sent c \<noteq> [] \<longrightarrow> en_seq (hd (wc_sent c)) = 1 \<and> en_type (hd (wc_sent c)) = ''state.snapshot'')
    \<and> (\<not> wc_closed c \<longrightarrow>
         unat (wc_seq c) = length (wc_sent c) + length (wc_pending c) + unat (wc_dropped c))"
proof -
  obtain c0 where c0: "queue_env base now (new_ws_client limit) = Some c0" "queue_inv c0" "unat (wc_seq c0) \<le> 1"
    using baseline_queued [OF assms(1,2)] by blast
  obtain c where "run_queue ops c0 = Some c" "queue_inv c"
    using run_queue_ok [OF c0(2) _ assms(3)] c0(3) assms(4) by auto
  with c0(1) show ?thesis by (auto simp: queue_inv_def numbered_def is_baseline_def sorted_wrt_append)
qed

definition demo_base :: "nat envelope" where
  "demo_base = \<lparr>en_type = ''state.snapshot'', en_height = 0, en_round = 0, en_seq = 0, en_payload = 7,
               en_wire = None, en_size = 100, en_queued = 0\<rparr>"

definition demo_queue_ops :: "nat queue_op list" where
  "demo_queue_ops =
     [Queue (demo_base\<lparr>en_type := ''vote.received''\<rparr>) 2, Write 3 True, Queue (demo_base\<lparr>en_type := ''vote.received''\<rparr>) 4,
      Queue (demo_base\<lparr>en_type := ''vote.received''\<rparr>) 5, Write 6 True]"

theorem stream_numbered_witness:
  "\<exists>c. run_queue (Queue demo_base 1 # demo_queue_ops) (new_ws_client 2) = Some c
     \<and> sorted_wrt (<) (map seq_of (wc_sent c))"
  using stream_numbered [of demo_base demo_queue_ops 1 2] by (auto simp: demo_base_def demo_queue_ops_def)

text \<open>The queue's memory is bounded: it never holds more frames than the connection's limit nor more
  than four mebibytes, and its byte count is exactly the sum of the sizes of the frames it holds.\<close>

theorem queue_bounded:
  assumes "en_type base = ''state.snapshot''" and "0 \<le> en_size base" and "list_all sized ops"
    and "length ops < 18446744073709551614"
    and "run_queue (Queue base now # ops) (new_ws_client limit) = Some c"
  shows "wc_bytes c = (\<Sum>e \<leftarrow> wc_pending c. en_size e) \<and> wc_bytes c \<le> 4194304
    \<and> int (length (wc_pending c)) \<le> (if limit \<le> 0 then 256 else limit)"
proof -
  obtain c0 where c0: "queue_env base now (new_ws_client limit) = Some c0" "queue_inv c0" "unat (wc_seq c0) \<le> 1"
      "wc_limit c0 = limit"
    using baseline_queued [OF assms(1,2)] by blast
  obtain c' where "run_queue ops c0 = Some c'" "queue_inv c'" "wc_limit c' = limit"
    using run_queue_ok [OF c0(2) _ assms(3)] c0(3,4) assms(4) by auto
  with c0(1) assms(5) show ?thesis
    by (auto simp: queue_inv_def accounted_def queue_bytes_def queue_messages_def effective_limit_def)
qed

definition demo_queue :: "nat ws_client" where
  "demo_queue = the (run_queue (Queue demo_base 1 # demo_queue_ops) (new_ws_client 2))"

lemma demo_queue_run: "run_queue (Queue demo_base 1 # demo_queue_ops) (new_ws_client 2) = Some demo_queue"
proof -
  obtain c0 where c0: "queue_env demo_base 1 (new_ws_client 2) = Some c0" "queue_inv c0" "unat (wc_seq c0) \<le> 1"
    using baseline_queued [of demo_base 1 2] by (auto simp: demo_base_def)
  obtain c where "run_queue demo_queue_ops c0 = Some c"
    using run_queue_ok [OF c0(2), of demo_queue_ops] c0(3) by (auto simp: demo_base_def demo_queue_ops_def)
  with c0(1) show ?thesis by (simp add: demo_queue_def)
qed

theorem queue_bounded_witness: "int (length (wc_pending demo_queue)) \<le> 2"
  using queue_bounded [OF _ _ _ _ demo_queue_run] by (simp add: demo_base_def demo_queue_ops_def)

end
