(* ===== verification/Ws_Wire.thy ===== *)
theory Ws_Wire
  imports Ws_Queue Float64 Decimal
begin

text \<open>
  The encoded frame (\<open>internal/web/ws_wire.go\<close>) and the budget of incoming commands
  (\<open>internal/web/ws_commands.go\<close>).  JSON encoding is the standard library's: \<open>body\<close> and \<open>head\<close> give
  the bytes of \<open>json.Marshal\<close> for the payload and for the small header, or its error.
\<close>

section \<open>Frames\<close>

definition quote :: char where
  "quote = char_of (34 :: nat)"

definition payload_key :: string where
  "payload_key = [CHR '','', quote] @ ''payload'' @ [quote, CHR '':'']"

definition seq_key :: string where
  "seq_key = [CHR '','', quote] @ ''seq'' @ [quote, CHR '':'']"

definition prepare ::
  "('p envelope \<Rightarrow> string + string) \<Rightarrow> ('p \<Rightarrow> string + string) \<Rightarrow> 'p envelope \<Rightarrow> string + 'p envelope" where
  "prepare head body env =
     (if en_wire env \<noteq> None then Inr env
      else case body (en_payload env) of
        Inl err \<Rightarrow> Inl err
      | Inr payload \<Rightarrow>
          (case head env of
             Inl err \<Rightarrow> Inl err
           | Inr h \<Rightarrow>
               let prefix = butlast h @ payload_key
               in Inr (env\<lparr>en_wire := Some (prefix, payload),
                          en_size := int (length prefix) + int (length payload) + 32\<rparr>)))"

text \<open>The bytes \<open>writeTo\<close> writes; an envelope in a queue has been prepared.\<close>

definition wire_bytes :: "'p envelope \<Rightarrow> string" where
  "wire_bytes env =
     (case en_wire env of
        None \<Rightarrow> ''''
      | Some (prefix, payload) \<Rightarrow> prefix @ payload @ seq_key @ dec_nat (unat (en_seq env)) @ ''}'')"

definition prepared :: "'p envelope \<Rightarrow> bool" where
  "prepared env \<longleftrightarrow>
     (case en_wire env of None \<Rightarrow> False
      | Some (prefix, payload) \<Rightarrow> en_size env = int (length prefix) + int (length payload) + 32)"

lemma prepare_prepared:
  "prepare head body env = Inr env' \<Longrightarrow> en_wire env = None \<or> prepared env \<Longrightarrow>
     prepared env' \<and> en_type env' = en_type env \<and> 0 \<le> en_size env'"
  by (auto simp: prepare_def prepared_def Let_def split: sum.splits if_splits option.splits)

lemma dec_nat_length: "n < 10 ^ k \<Longrightarrow> 0 < k \<Longrightarrow> length (dec_nat n) \<le> k"
proof (induction n arbitrary: k rule: dec_nat.induct)
  case (1 n)
  show ?case
  proof (cases "n < 10")
    case True
    with 1 show ?thesis by (simp add: dec_nat.simps [of n])
  next
    case False
    with 1 obtain j where j: "k = Suc j" "0 < j" by (cases k; cases "k - 1") auto
    then have "n div 10 < 10 ^ j" using 1(2) by (simp add: less_mult_imp_div_less mult.commute)
    with 1(1) [OF False this] j False show ?thesis by (simp add: dec_nat.simps [of n])
  qed
qed

lemma wire_bytes_fit: "prepared env \<Longrightarrow> int (length (wire_bytes env)) \<le> en_size env"
proof -
  assume p: "prepared env"
  have "unat (en_seq env) < 2 ^ 64" by (rule unat_lt_64)
  then have "unat (en_seq env) < 10 ^ 20" by (rule less_trans) simp
  from dec_nat_length [OF this] have "length (dec_nat (unat (en_seq env))) \<le> 20" by simp
  with p show ?thesis
    by (auto simp: prepared_def wire_bytes_def seq_key_def split: option.splits)
qed

section \<open>The command budget\<close>

record command_budget =
  cb_tokens :: rat
  cb_at :: gtime

definition command_burst :: rat where
  "command_burst = 512"

definition commands_per_second :: rat where
  "commands_per_second = 100"

definition new_command_budget :: "gtime \<Rightarrow> command_budget" where
  "new_command_budget now = \<lparr>cb_tokens = command_burst, cb_at = now\<rparr>"

text \<open>\<open>Duration.Seconds\<close>: whole seconds plus the rest, as floats.\<close>

definition duration_seconds :: "duration \<Rightarrow> rat" where
  "duration_seconds d =
     (let sec = go_div d second; rest = d - sec * second
      in f64_add (f64_of_int sec) (f64_div (f64_of_int rest) 1000000000))"

definition allow_command :: "gtime \<Rightarrow> command_budget \<Rightarrow> command_budget \<times> bool" where
  "allow_command now b =
     (let t = f64_add (cb_tokens b) (f64_mul (duration_seconds (time_sub now (cb_at b))) commands_per_second);
          t1 = (if t > command_burst then command_burst else t)
      in if t1 < 1 then (\<lparr>cb_tokens = t1, cb_at = now\<rparr>, False)
         else (\<lparr>cb_tokens = f64_add t1 (- 1), cb_at = now\<rparr>, True))"

end
