(* ===== verification/Ws_Hub.thy ===== *)
theory Ws_Hub
  imports Ws_Wire Event_Bus
begin

text \<open>
  The hub of dashboard connections (\<open>internal/web/ws.go\<close>): admission, dispatch of bus events by
  channel, the periodic repair, commands, resynchronisation and shutdown.  Clients are named by
  numbers in the order of their registration.  Encoding (\<open>prep\<close>) and the payloads of snapshots are
  parameters.  \<open>dispatchMu\<close> makes every dispatch one atomic step.
\<close>

section \<open>State\<close>

record 'p hub =
  hu_max :: int
  hu_clients :: "(nat, 'p ws_client) gomap"
  hu_next :: nat
  hu_pending :: int
  hu_closing :: bool
  hu_resync :: "nat list"
  hu_timer :: "gtime option"
  hu_resync_last :: gtime
  hu_resync_closing :: bool

definition ws_max_clients :: int where
  "ws_max_clients = 256"

definition resync_period :: duration where
  "resync_period = 250 * millisecond"

definition new_hub :: "'p hub" where
  "new_hub = \<lparr>hu_max = ws_max_clients, hu_clients = [], hu_next = 0, hu_pending = 0, hu_closing = False,
              hu_resync = [], hu_timer = None, hu_resync_last = 0, hu_resync_closing = False\<rparr>"

type_synonym 'p prep = "'p envelope \<Rightarrow> string + 'p envelope"

section \<open>Envelopes and channels\<close>

definition blank_envelope :: "string \<Rightarrow> 'p \<Rightarrow> 'p envelope" where
  "blank_envelope ty p =
     \<lparr>en_type = ty, en_height = 0, en_round = 0, en_seq = 0, en_payload = p, en_wire = None, en_size = 0,
      en_queued = 0\<rparr>"

text \<open>The event kinds the hub subscribes to.\<close>

definition hub_kinds :: "kind list" where
  "hub_kinds =
     [KindNewBlock, KindRoundChanged, KindVoteReceived, KindStatusUpdated, KindUpgradePlanUpdated,
      KindBlockTimeUpdated, KindValidatorSetUpdated, KindDivergenceDetected, KindDivergenceResolved,
      KindConnectionLost, KindConnectionRestored, KindEndpointAppHashDivergence]"

fun envelope :: "event \<Rightarrow> 'p \<Rightarrow> 'p envelope option" where
  "envelope (EvNewBlock e) p = Some ((blank_envelope ''block.committed'' p)\<lparr>en_height := nb_height e\<rparr>)"
| "envelope (EvVoteReceived e) p =
     Some ((blank_envelope ''vote.received'' p)\<lparr>en_height := vc_height e, en_round := vc_round e\<rparr>)"
| "envelope (EvRoundChanged e) p =
     Some ((blank_envelope ''round.changed'' p)\<lparr>en_height := rc_height e, en_round := rc_round e\<rparr>)"
| "envelope (EvEndpointAppHashDivergence r) p = Some (blank_envelope ''rpc_comparison.updated'' p)"
| "envelope (EvStatusUpdated e) p = Some (blank_envelope ''status.updated'' p)"
| "envelope (EvUpgradePlanUpdated n h) p = Some (blank_envelope ''upgrade.changed'' p)"
| "envelope (EvBlockTimeUpdated d) p = Some (blank_envelope ''block_time.updated'' p)"
| "envelope (EvValidatorSetUpdated h) p = Some (blank_envelope ''validators.changed'' p)"
| "envelope (EvDivergenceDetected r) p = Some (blank_envelope ''divergence.detected'' p)"
| "envelope (EvDivergenceResolved r) p = Some (blank_envelope ''divergence.resolved'' p)"
| "envelope (EvConnectionLost e x) p = Some (blank_envelope ''connection.lost'' p)"
| "envelope (EvConnectionRestored e) p = Some (blank_envelope ''connection.restored'' p)"
| "envelope (EvError s m) p = None"
| "envelope (EvLog l m n) p = None"

definition channel_for :: "string \<Rightarrow> string" where
  "channel_for ty =
     (if ty = ''context.snapshot'' then ''context''
      else if ty = ''vote.received'' then ''votes''
      else if ty = ''block.committed'' then ''blocks''
      else if take 11 ty = ''divergence.'' then ''divergence''
      else ''state'')"

definition subscribed :: "string \<Rightarrow> 'p ws_client \<Rightarrow> bool" where
  "subscribed ch c \<longleftrightarrow> map_of (wc_subs c) ch = Some True"

definition has_subscribers :: "string \<Rightarrow> 'p hub \<Rightarrow> bool" where
  "has_subscribers ch h \<longleftrightarrow> list_ex (\<lambda>(i, c). subscribed ch c) (hu_clients h)"

definition has_divergence_only :: "'p hub \<Rightarrow> bool" where
  "has_divergence_only h \<longleftrightarrow>
     list_ex (\<lambda>(i, c). subscribed ''divergence'' c \<and> \<not> subscribed ''state'' c) (hu_clients h)"

definition interested :: "string \<Rightarrow> 'p ws_client \<Rightarrow> bool" where
  "interested ty c \<longleftrightarrow>
     subscribed (channel_for ty) c \<and> \<not> (ty = ''divergence.snapshot'' \<and> subscribed ''state'' c)"

section \<open>Dispatch\<close>

text \<open>A loop over the clients in which each may panic.\<close>

fun each_client :: "('p ws_client \<Rightarrow> 'p ws_client option) \<Rightarrow> (nat, 'p ws_client) gomap \<Rightarrow> (nat, 'p ws_client) gomap option" where
  "each_client f [] = Some []"
| "each_client f ((i, c) # cs) =
     (case f c of None \<Rightarrow> None
      | Some c' \<Rightarrow> map_option (\<lambda>cs'. (i, c') # cs') (each_client f cs))"

definition broadcast :: "'p prep \<Rightarrow> 'p envelope \<Rightarrow> gtime \<Rightarrow> 'p hub \<Rightarrow> 'p hub option" where
  "broadcast prep env now h =
     (if \<not> has_subscribers (channel_for (en_type env)) h then Some h
      else case prep env of
        Inl err \<Rightarrow> Some h
      | Inr e \<Rightarrow>
          map_option (\<lambda>cs. h\<lparr>hu_clients := cs\<rparr>)
            (each_client (\<lambda>c. if interested (en_type e) c then queue_env e now c else Some c) (hu_clients h)))"

definition bus_event :: "'p prep \<Rightarrow> event \<Rightarrow> 'p \<Rightarrow> gtime \<Rightarrow> 'p hub \<Rightarrow> 'p hub option" where
  "bus_event prep ev p now h =
     (case envelope ev p of None \<Rightarrow> Some h | Some env \<Rightarrow> broadcast prep env now h)"

text \<open>One tick of the periodic repair, with the payloads of the three snapshots.\<close>

definition repair_tick :: "'p prep \<Rightarrow> 'p \<Rightarrow> 'p \<Rightarrow> 'p \<Rightarrow> gtime \<Rightarrow> 'p hub \<Rightarrow> 'p hub option" where
  "repair_tick prep st ctx dv now h =
     Option.bind (if has_subscribers ''state'' h then broadcast prep (blank_envelope ''state.snapshot'' st) now h
                  else Some h) (\<lambda>h1.
     Option.bind (if has_subscribers ''context'' h1 then broadcast prep (blank_envelope ''context.snapshot'' ctx) now h1
                  else Some h1) (\<lambda>h2.
     if has_divergence_only h2 then broadcast prep (blank_envelope ''divergence.snapshot'' dv) now h2 else Some h2))"

section \<open>Connections\<close>

definition close_client :: "nat \<Rightarrow> 'p hub \<Rightarrow> 'p hub" where
  "close_client i h = h\<lparr>hu_clients := gdel i (hu_clients h), hu_resync := removeAll i (hu_resync h)\<rparr>"

definition client_limit :: "'p hub \<Rightarrow> int" where
  "client_limit h = (if hu_max h \<le> 0 then ws_max_clients else hu_max h)"

definition reserve :: "'p hub \<Rightarrow> 'p hub \<times> bool" where
  "reserve h =
     (if hu_closing h \<or> int (length (hu_clients h)) + hu_pending h \<ge> client_limit h then (h, False)
      else (h\<lparr>hu_pending := hu_pending h + 1\<rparr>, True))"

definition upgrade_failed :: "'p hub \<Rightarrow> 'p hub" where
  "upgrade_failed h = h\<lparr>hu_pending := hu_pending h - 1\<rparr>"

text \<open>The upgraded connection is registered and gets its baseline before any broadcast can reach it.\<close>

definition join :: "'p prep \<Rightarrow> 'p \<Rightarrow> gtime \<Rightarrow> 'p hub \<Rightarrow> 'p hub option" where
  "join prep st now h =
     (let h1 = h\<lparr>hu_pending := hu_pending h - 1\<rparr>
      in if hu_closing h1 then Some h1
         else
           let i = hu_next h1; c = new_ws_client 0;
               h2 = h1\<lparr>hu_clients := gput i c (hu_clients h1), hu_next := i + 1\<rparr>
           in case prep (blank_envelope ''state.snapshot'' st) of
                Inl err \<Rightarrow> Some (close_client i h2)
              | Inr env \<Rightarrow>
                  (case queue_locked env now c of
                     None \<Rightarrow> None
                   | Some (c', True) \<Rightarrow> Some (h2\<lparr>hu_clients := gput i c' (hu_clients h2)\<rparr>)
                   | Some (c', False) \<Rightarrow> Some (close_client i h2)))"

definition on_client :: "nat \<Rightarrow> ('p ws_client \<Rightarrow> 'p ws_client option) \<Rightarrow> 'p hub \<Rightarrow> 'p hub option" where
  "on_client i f h =
     (case map_of (hu_clients h) i of
        None \<Rightarrow> Some h
      | Some c \<Rightarrow> map_option (\<lambda>c'. h\<lparr>hu_clients := gput i c' (hu_clients h)\<rparr>) (f c))"

definition queue_prepared :: "'p prep \<Rightarrow> 'p envelope \<Rightarrow> gtime \<Rightarrow> 'p ws_client \<Rightarrow> 'p ws_client option" where
  "queue_prepared prep env now c =
     (case prep env of Inl err \<Rightarrow> Some (signal_close c) | Inr e \<Rightarrow> queue_env e now c)"

section \<open>Resynchronisation\<close>

definition request_resync :: "nat \<Rightarrow> gtime \<Rightarrow> 'p hub \<Rightarrow> 'p hub" where
  "request_resync i now h =
     (if hu_resync_closing h then h
      else
        let h1 = h\<lparr>hu_resync := (if i \<in> set (hu_resync h) then hu_resync h else hu_resync h @ [i])\<rparr>
        in if hu_timer h1 \<noteq> None then h1
           else let delay = time_sub (hu_resync_last h1 + resync_period) now;
                    wait = (if delay < 10 * millisecond then 10 * millisecond else delay)
                in h1\<lparr>hu_timer := Some (now + wait)\<rparr>)"

fun resync_clients :: "'p envelope \<Rightarrow> gtime \<Rightarrow> nat list \<Rightarrow> 'p hub \<Rightarrow> 'p hub option" where
  "resync_clients env now [] h = Some h"
| "resync_clients env now (i # is) h = Option.bind (on_client i (queue_env env now) h) (resync_clients env now is)"

definition flush_resync :: "'p prep \<Rightarrow> 'p \<Rightarrow> gtime \<Rightarrow> 'p hub \<Rightarrow> 'p hub option" where
  "flush_resync prep st now h =
     (if hu_resync_closing h then Some h
      else
        let waiting = hu_resync h; h1 = h\<lparr>hu_resync := [], hu_resync_last := now, hu_timer := None\<rparr>
        in if hu_closing h1 \<or> waiting = [] then Some h1
           else case prep (blank_envelope ''state.snapshot'' st) of
             Inl err \<Rightarrow> Some h1
           | Inr env \<Rightarrow> resync_clients env now waiting h1)"

section \<open>Commands and shutdown\<close>

datatype command = Subscribe "string list" | Unsubscribe "string list" | Resync | Ping | OtherCommand

definition set_channels :: "string list \<Rightarrow> bool \<Rightarrow> 'p ws_client \<Rightarrow> 'p ws_client" where
  "set_channels chs on c =
     fold (\<lambda>ch c. if ch \<in> {''state'', ''blocks'', ''divergence'', ''votes'', ''context''}
                   then c\<lparr>wc_subs := gput ch on (wc_subs c)\<rparr> else c) chs c"

definition run_command :: "'p prep \<Rightarrow> 'p \<Rightarrow> nat \<Rightarrow> command \<Rightarrow> gtime \<Rightarrow> 'p hub \<Rightarrow> 'p hub option" where
  "run_command prep none i cmd now h =
     (case cmd of
        Subscribe chs \<Rightarrow> on_client i (\<lambda>c. Some (set_channels chs True c)) h
      | Unsubscribe chs \<Rightarrow> on_client i (\<lambda>c. Some (set_channels chs False c)) h
      | Resync \<Rightarrow> Some (request_resync i now h)
      | Ping \<Rightarrow> on_client i (queue_prepared prep (blank_envelope ''pong'' none) now) h
      | OtherCommand \<Rightarrow> Some h)"

text \<open>
  One message of \<open>readPump\<close>: \<open>None\<close> as a command is text that does not decode.  A command beyond
  the budget ends the pump, which closes the connection.
\<close>

definition read_message ::
  "'p prep \<Rightarrow> 'p \<Rightarrow> nat \<Rightarrow> command option \<Rightarrow> gtime \<Rightarrow> command_budget \<Rightarrow> 'p hub \<Rightarrow> (command_budget \<times> 'p hub) option" where
  "read_message prep none i cmd now b h =
     (case allow_command now b of
        (b1, False) \<Rightarrow> Some (b1, close_client i h)
      | (b1, True) \<Rightarrow>
          (case cmd of
             None \<Rightarrow> Some (b1, h)
           | Some c \<Rightarrow> map_option (\<lambda>h1. (b1, h1)) (run_command prep none i c now h)))"

definition shutdown :: "'p hub \<Rightarrow> 'p hub" where
  "shutdown h = h\<lparr>hu_resync_closing := True, hu_timer := None, hu_resync := [], hu_closing := True, hu_clients := []\<rparr>"

section \<open>Runs\<close>

datatype 'p hub_op =
  Reserve
| UpgradeFailed
| Join 'p gtime
| BusEvent event 'p gtime
| Tick 'p 'p 'p gtime
| Message nat "command option" gtime
| FlushResync 'p gtime
| WriteFrame nat gtime bool
| Leave nat
| Shutdown

text \<open>An upgrade ends only when one is pending.  The budgets live beside the hub, one for each reader.\<close>

definition budget_of :: "gtime \<Rightarrow> (nat, command_budget) gomap \<Rightarrow> nat \<Rightarrow> command_budget" where
  "budget_of now bs i = (case map_of bs i of Some b \<Rightarrow> b | None \<Rightarrow> new_command_budget now)"

fun hub_step ::
  "'p prep \<Rightarrow> 'p \<Rightarrow> 'p hub_op \<Rightarrow> (nat, command_budget) gomap \<times> 'p hub
     \<Rightarrow> ((nat, command_budget) gomap \<times> 'p hub) option" where
  "hub_step prep none Reserve (bs, h) = Some (bs, fst (reserve h))"
| "hub_step prep none UpgradeFailed (bs, h) = Some (bs, if hu_pending h > 0 then upgrade_failed h else h)"
| "hub_step prep none (Join st now) (bs, h) =
     (if hu_pending h > 0 then map_option (\<lambda>h. (bs, h)) (join prep st now h) else Some (bs, h))"
| "hub_step prep none (BusEvent ev p now) (bs, h) = map_option (\<lambda>h. (bs, h)) (bus_event prep ev p now h)"
| "hub_step prep none (Tick st ctx dv now) (bs, h) = map_option (\<lambda>h. (bs, h)) (repair_tick prep st ctx dv now h)"
| "hub_step prep none (Message i cmd now) (bs, h) =
     (case map_of (hu_clients h) i of
        None \<Rightarrow> Some (bs, h)
      | Some c \<Rightarrow> map_option (\<lambda>(b, h). (gput i b bs, h)) (read_message prep none i cmd now (budget_of now bs i) h))"
| "hub_step prep none (FlushResync st now) (bs, h) = map_option (\<lambda>h. (bs, h)) (flush_resync prep st now h)"
| "hub_step prep none (WriteFrame i now ok) (bs, h) =
     map_option (\<lambda>h. (bs, h)) (on_client i (\<lambda>c. Some (write_next now ok c)) h)"
| "hub_step prep none (Leave i) (bs, h) = Some (bs, close_client i h)"
| "hub_step prep none Shutdown (bs, h) = Some (bs, shutdown h)"

fun run_hub ::
  "'p prep \<Rightarrow> 'p \<Rightarrow> 'p hub_op list \<Rightarrow> (nat, command_budget) gomap \<times> 'p hub
     \<Rightarrow> ((nat, command_budget) gomap \<times> 'p hub) option" where
  "run_hub prep none [] s = Some s"
| "run_hub prep none (op # ops) s =
     (case hub_step prep none op s of None \<Rightarrow> None | Some s1 \<Rightarrow> run_hub prep none ops s1)"

end
