(* ===== verification/Ws_Hub_Props.thy ===== *)
theory Ws_Hub_Props
  imports Ws_Hub
begin

text \<open>
  The hub's invariant, over every operation and every run: bounded admission, well-numbered streams,
  nothing registered after shutdown; and what a broadcast does to each client.
\<close>

section \<open>Loops over the clients\<close>

lemma each_client_Some:
  "list_all (\<lambda>(i, c). f c \<noteq> None) cs \<Longrightarrow> each_client f cs = Some (gmap_vals (\<lambda>i c. the (f c)) cs)"
  by (induction f cs rule: each_client.induct) (auto simp: gmap_vals_def)

lemma each_client_lookup:
  "each_client f cs = Some cs' \<Longrightarrow> map_of cs' i = Option.bind (map_of cs i) f \<and> gkeys cs' = gkeys cs"
  by (induction f cs arbitrary: cs' rule: each_client.induct) (auto split: option.splits)

section \<open>The invariant\<close>

lemma ws_max_clients_pos [simp]: "\<not> ws_max_clients \<le> 0"
  by (simp add: ws_max_clients_def)

definition client_ok :: "nat \<Rightarrow> 'p ws_client \<Rightarrow> bool" where
  "client_ok n c \<longleftrightarrow> queue_inv c \<and> unat (wc_seq c) \<le> n \<and> wc_limit c = 0"

definition hub_inv :: "nat \<Rightarrow> 'p hub \<Rightarrow> bool" where
  "hub_inv n h \<longleftrightarrow>
     gmap_ok (hu_clients h) \<and> gmap_all (\<lambda>i c. client_ok n c) (hu_clients h)
     \<and> hu_max h = ws_max_clients \<and> 0 \<le> hu_pending h \<and> int (length (hu_clients h)) + hu_pending h \<le> client_limit h
     \<and> distinct (hu_resync h) \<and> (hu_closing h \<longrightarrow> hu_clients h = [])"

lemma client_ok_mono: "client_ok m c \<Longrightarrow> m \<le> n \<Longrightarrow> client_ok n c"
  by (auto simp: client_ok_def)

lemma hub_inv_mono: "hub_inv m h \<Longrightarrow> m \<le> n \<Longrightarrow> hub_inv n h"
  by (auto simp: hub_inv_def intro: client_ok_mono elim: gmap_all_mono)

lemma new_hub_inv: "hub_inv 0 new_hub"
  by (simp add: hub_inv_def new_hub_def client_limit_def ws_max_clients_def)

lemma gmap_vals_Nil [simp]: "gmap_vals f m = [] \<longleftrightarrow> m = []"
  by (simp add: gmap_vals_def)

text \<open>Preparing gives an envelope of the same type with a size.\<close>

definition prep_ok :: "'p prep \<Rightarrow> bool" where
  "prep_ok prep \<longleftrightarrow> (\<forall>env e. en_wire env = None \<longrightarrow> prep env = Inr e \<longrightarrow> en_type e = en_type env \<and> 0 \<le> en_size e)"

lemma prep_okD: "prep_ok prep \<Longrightarrow> en_wire env = None \<Longrightarrow> prep env = Inr e \<Longrightarrow> en_type e = en_type env \<and> 0 \<le> en_size e"
  unfolding prep_ok_def by blast

lemma prepare_ok: "prep_ok (prepare head body)"
  by (auto simp: prep_ok_def dest: prepare_prepared)

lemma blank_wire [simp]: "en_wire (blank_envelope ty p) = None" "en_type (blank_envelope ty p) = ty"
  by (simp_all add: blank_envelope_def)

lemma envelope_wire: "envelope ev p = Some env \<Longrightarrow> en_wire env = None"
  by (cases ev) auto

lemma queue_env_client:
  "client_ok n c \<Longrightarrow> n < 2 ^ 64 - 1 \<Longrightarrow> 0 \<le> en_size env \<Longrightarrow> \<exists>c'. queue_env env now c = Some c' \<and> client_ok (Suc n) c'"
  unfolding client_ok_def using queue_env_ok [of c env now] by fastforce

lemma signal_close_client: "client_ok n c \<Longrightarrow> client_ok n (signal_close c)"
  by (simp add: client_ok_def signal_close_inv) (simp add: signal_close_def)

lemma write_client: "client_ok n c \<Longrightarrow> client_ok n (write_next now ok c)"
  by (simp add: client_ok_def write_next_inv)

lemma queue_inv_subs [simp]: "queue_inv (c\<lparr>wc_subs := s\<rparr>) = queue_inv c"
  by (simp add: queue_inv_def accounted_def numbered_def effective_limit_def)

lemma set_channels_client: "client_ok n c \<Longrightarrow> client_ok n (set_channels chs on c)"
  unfolding set_channels_def by (induction chs arbitrary: c) (auto simp: client_ok_def)

section \<open>Operations\<close>

lemma broadcast_inv:
  assumes inv: "hub_inv n h" and "n < 2 ^ 64 - 1" and prep: "prep_ok prep" and "en_wire env = None"
  shows "\<exists>h'. broadcast prep env now h = Some h' \<and> hub_inv (Suc n) h'"
proof (cases "has_subscribers (channel_for (en_type env)) h")
  case False
  with hub_inv_mono [OF inv, of "Suc n"] show ?thesis by (simp add: broadcast_def)
next
  case True
  show ?thesis
  proof (cases "prep env")
    case (Inl err)
    with True hub_inv_mono [OF inv, of "Suc n"] show ?thesis by (simp add: broadcast_def)
  next
    case (Inr e)
    let ?f = "\<lambda>c. if interested (en_type e) c then queue_env e now c else Some c"
    have e: "0 \<le> en_size e" using prep assms(4) Inr by (auto simp: prep_ok_def)
    have f: "\<exists>c'. ?f c = Some c' \<and> client_ok (Suc n) c'" if "client_ok n c" for c
      using queue_env_client [OF that assms(2) e] client_ok_mono [OF that, of "Suc n"] by auto
    have ok: "gmap_all (\<lambda>i c. client_ok n c) (hu_clients h)" using inv by (simp add: hub_inv_def)
    then have "list_all (\<lambda>(i, c). ?f c \<noteq> None) (hu_clients h)"
      unfolding gmap_all_def list_all_iff using f by fastforce
    note each = each_client_Some [OF this]
    have "gmap_all (\<lambda>i c. client_ok (Suc n) (the (?f c))) (hu_clients h)"
      using ok by (rule gmap_all_mono) (use f in fastforce)
    then have "hub_inv (Suc n) (h\<lparr>hu_clients := gmap_vals (\<lambda>i c. the (?f c)) (hu_clients h)\<rparr>)"
      using inv by (auto simp: hub_inv_def gmap_all_gmap_vals client_limit_def)
    with True Inr each show ?thesis by (simp add: broadcast_def)
  qed
qed

lemma repair_tick_inv:
  assumes inv: "hub_inv n h" and small: "n + 2 < 2 ^ 64 - 1" and prep: "prep_ok prep"
  shows "\<exists>h'. repair_tick prep st ctx dv now h = Some h' \<and> hub_inv (n + 3) h'"
proof -
  have step: "\<exists>h'. (if b then broadcast prep (blank_envelope ty p) now k else Some k) = Some h' \<and> hub_inv (Suc m) h'"
    if "hub_inv m k" "m < 2 ^ 64 - 1" for m k b ty p
    using broadcast_inv [OF that prep, of "blank_envelope ty p" now] hub_inv_mono [OF that(1), of "Suc m"] by auto
  obtain h1 where h1: "(if has_subscribers ''state'' h then broadcast prep (blank_envelope ''state.snapshot'' st) now h
      else Some h) = Some h1" "hub_inv (Suc n) h1"
    using step [OF inv] small by (metis add_lessD1)
  obtain h2 where h2: "(if has_subscribers ''context'' h1 then broadcast prep (blank_envelope ''context.snapshot'' ctx) now h1
      else Some h1) = Some h2" "hub_inv (Suc (Suc n)) h2"
    using step [OF h1(2)] small by (metis add_2_eq_Suc' Suc_lessD)
  obtain h3 where h3: "(if has_divergence_only h2 then broadcast prep (blank_envelope ''divergence.snapshot'' dv) now h2
      else Some h2) = Some h3" "hub_inv (Suc (Suc (Suc n))) h3"
    using step [OF h2(2)] small by (metis add_2_eq_Suc')
  from h1(1) h2(1) h3 show ?thesis unfolding repair_tick_def by (simp add: numeral_3_eq_3)
qed

lemma length_gdel_client: "length (gdel i m) \<le> length m"
  by (rule length_gdel_le)

lemma close_client_inv: "hub_inv n h \<Longrightarrow> hub_inv n (close_client i h)"
  using length_gdel_client [of i "hu_clients h"]
  by (auto simp: hub_inv_def close_client_def client_limit_def distinct_removeAll intro!: inv_intro)

lemma reserve_inv: "hub_inv n h \<Longrightarrow> hub_inv n (fst (reserve h))"
  by (auto simp: hub_inv_def reserve_def client_limit_def)

lemma upgrade_failed_inv: "hub_inv n h \<Longrightarrow> 0 < hu_pending h \<Longrightarrow> hub_inv n (upgrade_failed h)"
  by (auto simp: hub_inv_def upgrade_failed_def client_limit_def)

lemma on_client_inv:
  assumes inv: "hub_inv n h" and f: "\<And>c. client_ok n c \<Longrightarrow> \<exists>c'. f c = Some c' \<and> client_ok m c'" and "n \<le> m"
  shows "\<exists>h'. on_client i f h = Some h' \<and> hub_inv m h'"
proof (cases "map_of (hu_clients h) i")
  case None
  with hub_inv_mono [OF inv assms(3)] show ?thesis by (simp add: on_client_def)
next
  case (Some c)
  have "client_ok n c" using inv gmap_all_lookup [OF _ Some] unfolding hub_inv_def by blast
  from f [OF this] obtain c' where c': "f c = Some c'" "client_ok m c'" by blast
  have "i \<in> fst ` set (hu_clients h)" using Some by (metis domI gkeys_dom)
  moreover have "gmap_all (\<lambda>i c. client_ok m c) (hu_clients h)"
    by (rule gmap_all_mono [where P = "\<lambda>i c. client_ok n c"])
      (use inv client_ok_mono [OF _ assms(3)] in \<open>auto simp: hub_inv_def\<close>)
  ultimately have "hub_inv m (h\<lparr>hu_clients := gput i c' (hu_clients h)\<rparr>)"
    using inv c' by (auto simp: hub_inv_def client_limit_def length_gput intro!: inv_intro)
  with Some c' show ?thesis by (simp add: on_client_def)
qed

lemma gdel_gput: "gdel k (gput k v m) = gdel k m"
  by (induction m) (auto simp: AList.delete_eq)

lemma join_inv:
  assumes inv: "hub_inv n h" and pos: "0 < hu_pending h" and prep: "prep_ok prep" and "1 \<le> n"
  shows "\<exists>h'. join prep st now h = Some h' \<and> hub_inv n h'"
proof -
  let ?h1 = "h\<lparr>hu_pending := hu_pending h - 1\<rparr>"
  have h1: "hub_inv n ?h1" using inv pos by (auto simp: hub_inv_def client_limit_def)
  have room: "int (length (hu_clients h)) + 1 + hu_pending ?h1 \<le> client_limit h" using inv by (simp add: hub_inv_def)
  let ?h2 = "\<lambda>c. ?h1\<lparr>hu_clients := gput (hu_next h) c (hu_clients h), hu_next := hu_next h + 1\<rparr>"
  have len: "int (length (gput i c (hu_clients h))) \<le> int (length (hu_clients h)) + 1" for i c
    by (simp add: length_gput)
  have h2: "hub_inv n (?h2 c)" if "client_ok n c" "\<not> hu_closing h" for c
    using h1 room len [of "hu_next h" c] that by (auto simp: hub_inv_def client_limit_def intro!: inv_intro)
  have gone: "hub_inv n (close_client (hu_next h) (?h2 c))" if "\<not> hu_closing h" for c
  proof -
    have "gdel (hu_next h) (gput (hu_next h) c (hu_clients h)) = gdel (hu_next h) (hu_clients h)"
      by (rule gdel_gput)
    then show ?thesis
      using h1 that length_gdel_client [of "hu_next h" "hu_clients h"]
      by (auto simp: hub_inv_def close_client_def client_limit_def distinct_removeAll intro!: inv_intro)
  qed
  show ?thesis
  proof (cases "hu_closing h")
    case True
    with h1 show ?thesis by (simp add: join_def Let_def)
  next
    case active: False
    show ?thesis
    proof (cases "prep (blank_envelope ''state.snapshot'' st)")
      case (Inl err)
      with active gone show ?thesis by (simp add: join_def Let_def)
    next
      case (Inr env)
      then have env: "en_type env = ''state.snapshot''" "0 \<le> en_size env"
        using prep_okD [OF prep blank_wire(1) Inr] by auto
      obtain c where c: "queue_env env now (new_ws_client 0) = Some c" "queue_inv c" "unat (wc_seq c) \<le> 1" "wc_limit c = 0"
        using baseline_queued [OF env, of now 0] by blast
      have ok: "client_ok n c" using c assms(4) by (simp add: client_ok_def)
      obtain c1 b where q: "queue_locked env now (new_ws_client 0) = Some (c1, b)"
        using c(1) by (auto simp: queue_env_def split: option.splits prod.splits)
      show ?thesis
      proof (cases b)
        case True
        with q c(1) have "c1 = c" by (simp add: queue_env_def)
        have same: "gput i c (gput i d m) = gput i c m" for i and d and m :: "(nat, 'a ws_client) gomap"
          by (induction m) auto
        have "hub_inv n (?h1\<lparr>hu_next := Suc (hu_next h), hu_clients := gput (hu_next h) c (hu_clients h)\<rparr>)"
          using h2 [OF ok active] by (auto simp: hub_inv_def client_limit_def)
        with \<open>c1 = c\<close> True q Inr active show ?thesis
          by (simp add: join_def Let_def same)
      next
        case False
        with q Inr active gone show ?thesis by (simp add: join_def Let_def)
      qed
    qed
  qed
qed

lemma request_resync_inv: "hub_inv n h \<Longrightarrow> hub_inv n (request_resync i now h)"
  by (auto simp: request_resync_def hub_inv_def client_limit_def Let_def)

text \<open>Each waiting client gets one frame: those still waiting have not had theirs.\<close>

lemma resync_clients_inv:
  assumes "0 \<le> en_size env" and "n < 2 ^ 64 - 1"
  shows "hub_inv (Suc n) h \<Longrightarrow> distinct is \<Longrightarrow>
     gmap_all (\<lambda>i c. i \<in> set is \<longrightarrow> client_ok n c) (hu_clients h) \<Longrightarrow>
     \<exists>h'. resync_clients env now is h = Some h' \<and> hub_inv (Suc n) h'"
proof (induction "is" arbitrary: h)
  case (Cons i "is")
  show ?case
  proof (cases "map_of (hu_clients h) i")
    case None
    with Cons show ?thesis by (simp add: on_client_def gmap_all_conj gmap_all_mono)
  next
    case (Some c)
    have "client_ok n c" using gmap_all_lookup [OF Cons.prems(3) Some] by simp
    then obtain c' where c': "queue_env env now c = Some c'" "client_ok (Suc n) c'"
      using queue_env_client [OF _ assms(2,1)] by blast
    let ?h1 = "h\<lparr>hu_clients := gput i c' (hu_clients h)\<rparr>"
    have "i \<in> fst ` set (hu_clients h)" using Some by (metis domI gkeys_dom)
    then have "hub_inv (Suc n) ?h1"
      using Cons.prems(1) c' by (auto simp: hub_inv_def client_limit_def length_gput intro!: inv_intro)
    moreover have "gmap_all (\<lambda>j c. j \<in> set is \<longrightarrow> client_ok n c) (hu_clients ?h1)"
      using Cons.prems(2) by (auto intro!: gmap_all_gput gmap_all_mono [OF Cons.prems(3)])
    ultimately obtain h' where "resync_clients env now is ?h1 = Some h'" "hub_inv (Suc n) h'"
      using Cons.IH [of ?h1] Cons.prems(2) by (metis distinct.simps(2))
    with Some c' show ?thesis by (simp add: on_client_def)
  qed
qed simp

lemma flush_resync_inv:
  assumes inv: "hub_inv n h" and small: "n < 2 ^ 64 - 1" and prep: "prep_ok prep"
  shows "\<exists>h'. flush_resync prep st now h = Some h' \<and> hub_inv (Suc n) h'"
proof -
  let ?h1 = "h\<lparr>hu_resync := [], hu_resync_last := now, hu_timer := None\<rparr>"
  have h1: "hub_inv (Suc n) ?h1"
    using hub_inv_mono [OF inv, of "Suc n"] by (auto simp: hub_inv_def client_limit_def)
  have same: "gmap_all (\<lambda>i c. i \<in> set (hu_resync h) \<longrightarrow> client_ok n c) (hu_clients ?h1)"
    using inv by (auto simp: hub_inv_def intro: gmap_all_mono [of "\<lambda>i c. client_ok n c"])
  have "\<exists>h'. resync_clients env now (hu_resync h) ?h1 = Some h' \<and> hub_inv (Suc n) h'"
    if "prep (blank_envelope ''state.snapshot'' st) = Inr env" for env
    by (rule resync_clients_inv [OF _ small h1 _ same])
      (use prep_okD [OF prep blank_wire(1) that] inv in \<open>auto simp: hub_inv_def\<close>)
  with h1 hub_inv_mono [OF inv, of "Suc n"] show ?thesis
    by (auto simp: flush_resync_def Let_def split: sum.split)
qed

lemma run_command_inv:
  assumes inv: "hub_inv n h" and small: "n < 2 ^ 64 - 1" and prep: "prep_ok prep"
  shows "\<exists>h'. run_command prep none i cmd now h = Some h' \<and> hub_inv (Suc n) h'"
proof -
  have channels: "\<exists>c'. Some (set_channels chs on c) = Some c' \<and> client_ok (Suc n) c'" if "client_ok n c" for c chs on
    using set_channels_client [OF client_ok_mono [OF that]] by simp
  have pong: "\<exists>c'. queue_prepared prep (blank_envelope ''pong'' none) now c = Some c' \<and> client_ok (Suc n) c'"
    if "client_ok n c" for c
  proof (cases "prep (blank_envelope ''pong'' none)")
    case (Inl err)
    then show ?thesis using signal_close_client [OF client_ok_mono [OF that]] by (simp add: queue_prepared_def)
  next
    case (Inr e)
    then have "0 \<le> en_size e" using prep_okD [OF prep blank_wire(1)] by blast
    with Inr queue_env_client [OF that small] show ?thesis by (simp add: queue_prepared_def)
  qed
  show ?thesis
    using on_client_inv [OF inv channels le_SucI [OF order_refl]] on_client_inv [OF inv pong le_SucI [OF order_refl]]
      hub_inv_mono [OF inv, of "Suc n"] request_resync_inv [OF hub_inv_mono [OF inv, of "Suc n"]]
    by (cases cmd) (simp_all add: run_command_def)
qed

lemma shutdown_inv: "hub_inv n h \<Longrightarrow> hub_inv n (shutdown h)"
  by (auto simp: hub_inv_def shutdown_def client_limit_def)

lemma hub_step_inv:
  assumes inv: "hub_inv n h" and small: "n + 2 < 2 ^ 64 - 1" and prep: "prep_ok prep" and "1 \<le> n"
  shows "\<exists>bs' h'. hub_step prep none op (bs, h) = Some (bs', h') \<and> hub_inv (n + 3) h'"
proof -
  note up = hub_inv_mono [of _ _ "n + 3"]
  have lift: "\<exists>bs' h'. map_option (\<lambda>h. (bs, h)) r = Some (bs', h') \<and> hub_inv (n + 3) h'"
    if "\<exists>h'. r = Some h' \<and> hub_inv m h'" "m \<le> n + 3" for r m
    using that up by fastforce
  show ?thesis
  proof (cases op)
    case Reserve
    then show ?thesis using up [OF reserve_inv [OF inv]] by simp
  next
    case UpgradeFailed
    then show ?thesis using up [OF upgrade_failed_inv [OF inv]] up [OF inv] by simp
  next
    case (Join st now)
    then show ?thesis using lift [OF join_inv [OF inv _ prep assms(4), of st now]] up [OF inv] by simp
  next
    case (BusEvent ev p now)
    have "\<exists>h'. bus_event prep ev p now h = Some h' \<and> hub_inv (Suc n) h'"
      using broadcast_inv [OF inv _ prep envelope_wire] small hub_inv_mono [OF inv, of "Suc n"]
      by (auto simp: bus_event_def split: option.split)
    from lift [OF this] BusEvent show ?thesis by simp
  next
    case (Tick st ctx dv now)
    then show ?thesis using lift [OF repair_tick_inv [OF inv small prep]] by simp
  next
    case (Message i cmd now)
    have "\<exists>b h'. read_message prep none i cmd now bud h = Some (b, h') \<and> hub_inv (n + 3) h'" for bud
      using run_command_inv [OF inv _ prep, of none i _ now] small up [OF close_client_inv [OF inv]] up [OF inv] up
      by (fastforce simp: read_message_def split: prod.split bool.split option.split)
    with Message up [OF inv] show ?thesis by (fastforce split: option.split)
  next
    case (FlushResync st now)
    then show ?thesis using lift [OF flush_resync_inv [OF inv _ prep]] small by simp
  next
    case (WriteFrame i now ok)
    then show ?thesis
      using lift [OF on_client_inv [OF inv _ order_refl, of "\<lambda>c. Some (write_next now ok c)" i]]
        write_client [of n _ now ok] by auto
  next
    case (Leave i)
    then show ?thesis using up [OF close_client_inv [OF inv]] by simp
  next
    case Shutdown
    then show ?thesis using up [OF shutdown_inv [OF inv]] by simp
  qed
qed

lemma run_hub_inv:
  "hub_inv n h \<Longrightarrow> 1 \<le> n \<Longrightarrow> n + 3 * length ops < 2 ^ 64 - 1 \<Longrightarrow> prep_ok prep \<Longrightarrow>
     \<exists>bs' h'. run_hub prep none ops (bs, h) = Some (bs', h') \<and> hub_inv (n + 3 * length ops) h'"
proof (induction ops arbitrary: n bs h)
  case (Cons op ops)
  obtain bs1 h1 where s: "hub_step prep none op (bs, h) = Some (bs1, h1)" "hub_inv (n + 3) h1"
    using hub_step_inv [OF Cons.prems(1) _ Cons.prems(4,2), of none op bs] Cons.prems(3) by auto
  with Cons.IH [OF s(2)] Cons.prems show ?case by (simp add: add.assoc)
qed simp

section \<open>Properties\<close>


definition plain_head :: "nat envelope \<Rightarrow> string + string" where
  "plain_head env = Inr (''{'' @ en_type env @ ''}'')"

definition plain_body :: "nat \<Rightarrow> string + string" where
  "plain_body p = (if p = 0 then Inl ''unsupported value'' else Inr (dec_nat p))"

definition demo_hub_ops :: "nat hub_op list" where
  "demo_hub_ops =
     [Reserve, Reserve, Join 7 second, Message 0 (Some (Unsubscribe [''votes''])) (2 * second),
      BusEvent (EvBlockTimeUpdated 3) 5 (2 * second), WriteFrame 0 (2 * second) True,
      Message 0 (Some Resync) (2 * second), FlushResync 8 (2 * second), UpgradeFailed, Tick 9 9 9 (3 * second)]"


text \<open>Dispatch by channel.  A broadcast whose encoding succeeds is queued exactly once to each client
  that subscribed to the channel of its type (a divergence snapshot only to one without the full state),
  and leaves every other client as it was; skipping the encoding when nobody listens changes nothing.\<close>

theorem broadcast_channels:
  assumes "broadcast (prepare head body) env now h = Some h'" and "prepare head body env = Inr e"
    and "map_of (hu_clients h) i = Some c"
  shows "map_of (hu_clients h') i =
     (if map_of (wc_subs c) (channel_for (en_type env)) = Some True
         \<and> (en_type env = ''divergence.snapshot'' \<longrightarrow> map_of (wc_subs c) ''state'' \<noteq> Some True)
      then queue_env e now c else Some c)"
proof -
  have ty: "en_type e = en_type env"
    using assms(2) by (auto simp: prepare_def Let_def split: if_splits sum.splits)
  show ?thesis
  proof (cases "has_subscribers (channel_for (en_type env)) h")
    case False
    then have "\<not> subscribed (channel_for (en_type env)) c"
      using map_of_SomeD [OF assms(3)] by (auto simp: has_subscribers_def list_ex_iff)
    with False assms show ?thesis by (simp add: broadcast_def subscribed_def)
  next
    case True
    with assms obtain cs where
      cs: "each_client (\<lambda>c. if interested (en_type e) c then queue_env e now c else Some c) (hu_clients h) = Some cs"
        "h' = h\<lparr>hu_clients := cs\<rparr>"
      by (auto simp: broadcast_def)
    from each_client_lookup [OF cs(1), of i] cs(2) assms(3) ty show ?thesis
      by (simp add: interested_def subscribed_def)
  qed
qed

definition demo_hub :: "nat hub" where
  "demo_hub = new_hub\<lparr>hu_clients := [(4, new_ws_client 0), (5, set_channels [''votes''] False (new_ws_client 0))]\<rparr>"

definition demo_vote :: "nat envelope" where
  "demo_vote = blank_envelope ''vote.received'' 3"

lemma demo_broadcast:
  "\<exists>h e. broadcast (prepare plain_head plain_body) demo_vote 9 demo_hub = Some h
     \<and> prepare plain_head plain_body demo_vote = Inr e"
  by (simp add: broadcast_def demo_vote_def demo_hub_def blank_envelope_def prepare_def plain_head_def plain_body_def
      has_subscribers_def subscribed_def channel_for_def new_hub_def new_ws_client_def set_channels_def interested_def
      queue_env_def queue_locked_def make_room.simps queue_messages_def queue_bytes_def supersedes_def Let_def
      payload_key_def dec_nat.simps)

theorem broadcast_channels_witness:
  "\<exists>h. broadcast (prepare plain_head plain_body) demo_vote 9 demo_hub = Some h
     \<and> map_of (hu_clients h) 5 = map_of (hu_clients demo_hub) 5"
proof -
  obtain h e where h: "broadcast (prepare plain_head plain_body) demo_vote 9 demo_hub = Some h"
      "prepare plain_head plain_body demo_vote = Inr e"
    using demo_broadcast by blast
  have "map_of (hu_clients demo_hub) 5 = Some (set_channels [''votes''] False (new_ws_client 0))"
    by (simp add: demo_hub_def)
  from broadcast_channels [OF h this] h(1) this show ?thesis
    by (simp add: demo_vote_def blank_envelope_def channel_for_def set_channels_def new_ws_client_def)
qed

text \<open>Nothing happens to a hub that is shutting down.\<close>

abbreviation stopped :: "'p hub \<Rightarrow> bool" where
  "stopped h \<equiv> hu_closing h \<and> hu_clients h = []"

lemma broadcast_stopped: "stopped h \<Longrightarrow> broadcast prep env now h = Some h"
  by (simp add: broadcast_def has_subscribers_def)

lemma hub_step_stopped:
  "stopped h \<Longrightarrow> \<exists>bs' h'. hub_step prep none op (bs, h) = Some (bs', h') \<and> stopped h'"
  by (cases op)
    (auto simp: reserve_def upgrade_failed_def join_def bus_event_def repair_tick_def broadcast_stopped
      flush_resync_def on_client_def close_client_def shutdown_def has_subscribers_def has_divergence_only_def Let_def
      split: option.split)

lemma run_hub_stopped:
  "stopped h \<Longrightarrow> \<exists>bs' h'. run_hub prep none ops (bs, h) = Some (bs', h') \<and> stopped h'"
proof (induction ops arbitrary: bs h)
  case (Cons op ops)
  obtain bs1 h1 where "hub_step prep none op (bs, h) = Some (bs1, h1)" "stopped h1"
    using hub_step_stopped [OF Cons.prems] by blast
  with Cons.IH show ?case by simp
qed simp

text \<open>Shutdown is final.  From any state of the hub, once it has been shut down no operation panics,
  no client is ever registered again, also none whose upgrade was under way, and every new connection is
  refused.\<close>

theorem shutdown_final:
  "\<exists>bs' h'. run_hub prep none (Shutdown # ops) (bs, h) = Some (bs', h') \<and> hu_clients h' = []
     \<and> \<not> snd (reserve h')"
proof -
  have "stopped (shutdown h)" by (simp add: shutdown_def)
  from run_hub_stopped [OF this] obtain bs' h' where
    "run_hub prep none ops (bs, shutdown h) = Some (bs', h')" "stopped h'"
    by blast
  then show ?thesis by (simp add: reserve_def)
qed

end
