(* ===== verification/Catalogue.thy ===== *)
theory Catalogue
  imports Investigation
begin

text \<open>
  The catalogue revision of the tracker (\<open>catalogueRevision\<close>): while it is unchanged, so are the set of
  retained heights, the eviction mark, the newest and the committed height, and with them everything in
  the header of a height that is not evidence of that height (its retention and status).
\<close>

section \<open>What an unchanged catalogue keeps\<close>

definition same_catalogue :: "tracker \<Rightarrow> tracker \<Rightarrow> bool" where
  "same_catalogue t t' \<longleftrightarrow>
     gkeys (tk_archive t') = gkeys (tk_archive t) \<and> tk_evicted_through t' = tk_evicted_through t
     \<and> tk_latest t' = tk_latest t \<and> tk_committed t' = tk_committed t"

definition catalogue_grows :: "nat \<Rightarrow> tracker \<Rightarrow> tracker \<Rightarrow> bool" where
  "catalogue_grows n t t' \<longleftrightarrow>
     tk_cfg t' = tk_cfg t
     \<and> (\<exists>k \<le> n. tk_catalogue t' = tk_catalogue t + of_nat k \<and> (k = 0 \<longrightarrow> same_catalogue t t'))"

lemma same_catalogue_refl [simp]: "same_catalogue t t"
  by (simp add: same_catalogue_def)

lemma catalogue_grows_same:
  "tk_cfg t' = tk_cfg t \<Longrightarrow> tk_catalogue t' = tk_catalogue t \<Longrightarrow> same_catalogue t t' \<Longrightarrow> catalogue_grows n t t'"
  by (auto simp: catalogue_grows_def intro!: exI [of _ 0])

lemma catalogue_grows_refl [simp]: "catalogue_grows n t t"
  by (rule catalogue_grows_same) simp_all

lemma catalogue_grows_mono: "catalogue_grows m t t' \<Longrightarrow> m \<le> n \<Longrightarrow> catalogue_grows n t t'"
  unfolding catalogue_grows_def by (meson order_trans)

lemma catalogue_grows_trans:
  assumes "catalogue_grows m t t1" and "catalogue_grows n t1 t2"
  shows "catalogue_grows (m + n) t t2"
proof -
  from assms obtain i j where "i \<le> m" "tk_catalogue t1 = tk_catalogue t + of_nat i" "i = 0 \<longrightarrow> same_catalogue t t1"
    "j \<le> n" "tk_catalogue t2 = tk_catalogue t1 + of_nat j" "j = 0 \<longrightarrow> same_catalogue t1 t2"
    unfolding catalogue_grows_def by blast
  with assms show ?thesis
    unfolding catalogue_grows_def
    by (intro conjI exI [of _ "i + j"]) (auto simp: same_catalogue_def add.assoc)
qed

lemma catalogue_grows_cong:
  "catalogue_grows n t t' \<Longrightarrow> tk_cfg t'' = tk_cfg t' \<Longrightarrow> tk_catalogue t'' = tk_catalogue t' \<Longrightarrow>
     same_catalogue t' t'' \<Longrightarrow> catalogue_grows n t t''"
  using catalogue_grows_trans [of n t t' 0 t''] catalogue_grows_same [of t'' t' 0] by simp

lemma gkeys_gput_present: "k \<in> fst ` set m \<Longrightarrow> gkeys (gput k v m) = gkeys m"
  by (induction m) auto

lemma catalogue_put_block:
  assumes "block_at t (ah_height b) = Some c"
  shows "catalogue_grows n t (put_block b t)"
proof -
  have "ah_height b \<in> fst ` set (tk_archive t)" using assms by (metis domI gkeys_dom)
  then have "same_catalogue t (put_block b t)"
    using gkeys_gput_present by (simp add: same_catalogue_def) (simp add: put_block_def)
  then show ?thesis by (rule catalogue_grows_same [rotated 2]) simp_all
qed

section \<open>The archive\<close>

lemma catalogue_create_height:
  "create_archive_height t h now = (t', res) \<Longrightarrow> catalogue_grows 1 t t'"
proof -
  assume step: "create_archive_height t h now = (t', res)"
  have entered: "catalogue_grows 1 t (enter_height t h now)"
    by (auto simp: catalogue_grows_def enter_height_def intro!: exI [of _ 1])
  have "catalogue_grows 1 t (evict_height (enter_height t h now) h)"
    by (auto simp: catalogue_grows_def enter_height_def evict_height_def Let_def intro!: exI [of _ 1])
  with entered step show ?thesis
    by (auto simp: create_archive_height_def Let_def split: if_splits option.splits)
qed

lemma catalogue_archive_height: "archive_height t h now = (t', res) \<Longrightarrow> catalogue_grows 1 t t'"
  using catalogue_create_height [of t h now t' res]
  by (auto simp: archive_height_def split: if_splits option.splits)

lemma catalogue_archive_round:
  assumes b: "block_at t (ah_height b) = Some b" and step: "archive_round t b rnd now = (t', b', res)"
  shows "catalogue_grows 0 t t'"
proof -
  have e: "ah_height (enter_round t b rnd now) = ah_height b"
    and e2: "ah_height (evict_round (enter_round t b rnd now) rnd) = ah_height b"
    by (simp_all add: enter_round_def evict_round_def put_round_def Let_def)
  have p: "catalogue_grows 0 t (put_block (enter_round t b rnd now) t)"
    by (rule catalogue_put_block [of _ _ b]) (simp add: e b)
  have q: "catalogue_grows 0 t (put_block (evict_round (enter_round t b rnd now) rnd) t)"
    by (rule catalogue_put_block [of _ _ b]) (simp add: e2 b)
  have "catalogue_grows 0 t (prune_detector_rounds (put_block (evict_round (enter_round t b rnd now) rnd) t))"
    by (rule catalogue_grows_cong [OF q]) (simp_all add: same_catalogue_def)
  with p step show ?thesis
    by (auto simp: archive_round_def Let_def split: if_splits option.splits)
qed

lemma catalogue_observe_round:
  assumes inv: "archive_inv t" and det: "detector_bounded t"
  shows "catalogue_grows 1 t (observe_round t h r p now)"
proof (cases "h \<le> 0 \<or> r < 0 \<or> r > max_int32 \<or> length p > identity_limit")
  case True
  then show ?thesis by (simp add: observe_round_def)
next
  case False
  obtain t1 o1 where s1: "archive_height t h now = (t1, o1)" by fastforce
  note i1 = archive_height_inv [OF inv det s1] and f1 = catalogue_archive_height [OF s1]
  show ?thesis
  proof (cases o1)
    case None
    with False s1 f1 show ?thesis by (simp add: observe_round_def)
  next
    case (Some b)
    with s1 have b: "block_at t1 h = Some b" by (simp add: archive_height_block)
    have bb: "block_at t1 (ah_height b) = Some b" using b archive_block [OF i1(1) b] by simp
    obtain t2 b2 o2 where s2: "archive_round t1 b r now = (t2, b2, o2)" by (metis prod_cases3)
    have r: "r \<le> max_int32" using False by simp
    note i2 = archive_round_inv [OF i1 bb r s2]
    note f2 = catalogue_grows_trans [OF f1 catalogue_archive_round [OF bb s2]]
    have "catalogue_grows 0 t2 (put_block ((put_round (rd\<lparr>ar_proposer := p, ar_last := now\<rparr>) b2)
            \<lparr>ah_last := now, ah_revision := ah_revision b2 + 1\<rparr>) t2)" for rd
      by (rule catalogue_put_block [of _ _ b2]) (use i2(3) in \<open>simp add: put_round_def\<close>)
    from catalogue_grows_trans [OF f2 this] f2 False s1 s2 Some show ?thesis
      by (auto simp: observe_round_def split: option.split)
  qed
qed

lemma catalogue_observe_vote:
  assumes inv: "archive_inv t" and det: "detector_bounded t"
  shows "catalogue_grows 1 t (observe_vote t v now)"
proof (cases "well_formed_vote v")
  case False
  then show ?thesis by (simp add: observe_vote_def)
next
  case wf: True
  obtain t1 o1 where s1: "archive_height t (ve_height v) now = (t1, o1)" by fastforce
  note i1 = archive_height_inv [OF inv det s1] and f1 = catalogue_archive_height [OF s1]
  show ?thesis
  proof (cases o1)
    case None
    with wf s1 f1 show ?thesis by (simp add: observe_vote_def)
  next
    case (Some b)
    with s1 have b: "block_at t1 (ve_height v) = Some b" by (simp add: archive_height_block)
    have bb: "block_at t1 (ah_height b) = Some b" using b archive_block [OF i1(1) b] by simp
    obtain t2 b2 o2 where s2: "archive_round t1 b (ve_round v) now = (t2, b2, o2)" by (metis prod_cases3)
    have r: "ve_round v \<le> max_int32" using wf by (auto simp: well_formed_vote_def)
    note i2 = archive_round_inv [OF i1 bb r s2]
    note f2 = catalogue_grows_trans [OF f1 catalogue_archive_round [OF bb s2]]
    have "catalogue_grows 0 t2 (put_block (record_vote b2 rd v now) t2)" if o2: "o2 = Some rd" for rd
    proof (rule catalogue_put_block [of _ _ b2])
      have mem: "map_of (ah_rounds b2) (ar_round rd) = Some rd" using i2(5) [OF o2] by simp
      have bi2: "block_inv b2" using archive_block [OF i2(1,3)] by simp
      show "block_at t2 (ah_height (record_vote b2 rd v now)) = Some b2"
        using i2(3) record_vote_inv(2) [OF bi2 mem wf] by simp
    qed
    from catalogue_grows_trans [OF f2 this] f2 wf s1 s2 Some show ?thesis
      by (auto simp: observe_vote_def split: option.split)
  qed
qed

lemma catalogue_archive_commit:
  assumes inv: "archive_inv t" and det: "detector_bounded t"
  shows "catalogue_grows 1 t (archive_commit t h hash now)"
proof -
  obtain t1 o1 where s1: "create_archive_height t h now = (t1, o1)" by fastforce
  note i1 = create_archive_height_inv [OF inv det s1] and f1 = catalogue_create_height [OF s1]
  have "catalogue_grows 0 t1 (put_block (b\<lparr>ah_committed := True, ah_canonical := hash, ah_last := now,
            ah_revision := ah_revision b + 1\<rparr>) t1)" if o1: "o1 = Some b" for b
  proof (rule catalogue_put_block [of _ _ b])
    have "block_at t1 h = Some b" using s1 o1 by (simp add: create_archive_height_block)
    with archive_block [OF i1(1) this]
    show "block_at t1 (ah_height (b\<lparr>ah_committed := True, ah_canonical := hash, ah_last := now,
            ah_revision := ah_revision b + 1\<rparr>)) = Some b" by simp
  qed
  from catalogue_grows_trans [OF f1 this] f1 s1 show ?thesis
    by (auto simp: archive_commit_def split: option.split)
qed

section \<open>The tracker\<close>

lemma catalogue_apply_op:
  assumes "tracker_inv t" and op: "apply_op op t = Some (t', ks)"
  shows "catalogue_grows 2 t t'"
proof -
  have a: "archive_inv t" "detector_bounded t" using assms(1) by (simp_all add: tracker_inv_def)
  note ov = catalogue_grows_mono [OF catalogue_observe_vote [OF a], of 2]
    and orr = catalogue_grows_mono [OF catalogue_observe_round [OF a], of 2]
  show ?thesis
  proof (cases op)
    case (SetValidators vs)
    with op have "t' = set_validators t vs" by simp
    then show ?thesis
      by (intro catalogue_grows_same) (simp_all add: set_validators_def Let_def same_catalogue_def)
  next
    case (IngestVote v now)
    let ?o = "observe_vote t v now"
    from IngestVote op obtain rs b where i: "ingest_vote t v now = (t', rs, b)" by (auto split: prod.splits)
    have "tk_cfg t' = tk_cfg ?o \<and> tk_catalogue t' = tk_catalogue ?o \<and> same_catalogue ?o t'"
      using i by (auto simp: ingest_vote_eq Let_def same_catalogue_def split: if_splits)
    with catalogue_grows_cong [OF ov] show ?thesis by simp
  next
    case (MarkRoundAdvanced h r)
    with op have "t' = t\<lparr>tk_rounds := tk_rounds t'\<rparr>"
      using mark_round_advanced_rounds [of t h r] by simp
    then have "tk_cfg t' = tk_cfg t \<and> tk_catalogue t' = tk_catalogue t \<and> same_catalogue t t'"
      unfolding same_catalogue_def
      by (metis tracker.select_convs(1,7,8,9,10) tracker.select_convs(6) tracker.surjective tracker.update_convs(2))
    then show ?thesis by (intro catalogue_grows_same) simp_all
  next
    case (ResolveCommit h hash now)
    let ?c = "archive_commit t h hash now"
    from ResolveCommit op obtain rs where r: "resolve_commit t h hash now = Some (t', rs)" by auto
    have "catalogue_grows 1 ?c (advance_committed ?c h)"
    proof (cases "h > tk_committed ?c")
      case True
      then show ?thesis by (auto simp: advance_committed_def catalogue_grows_def intro!: exI [of _ 1])
    qed (simp add: advance_committed_def)
    from catalogue_grows_trans [OF catalogue_archive_commit [OF a] this]
    have "catalogue_grows 2 t (advance_committed ?c h)" by (simp add: numeral_2_eq_2)
    then show ?thesis
      by (rule catalogue_grows_cong)
        (use r in \<open>auto simp: resolve_commit_def Let_def same_catalogue_def split: option.splits\<close>)
  qed (use op ov orr in auto)
qed

lemma catalogue_run:
  "tracker_inv t \<Longrightarrow> run_ops ops t = Some (t', ks) \<Longrightarrow> catalogue_grows (2 * length ops) t t'"
proof (induction ops arbitrary: t ks)
  case (Cons op ops)
  from Cons.prems(2) obtain t1 k1 k2 where op: "apply_op op t = Some (t1, k1)"
    and rest: "run_ops ops t1 = Some (t', k2)"
    by (auto split: option.splits prod.splits)
  from catalogue_grows_trans [OF catalogue_apply_op [OF Cons.prems(1) op]
      Cons.IH [OF apply_op_inv [OF Cons.prems(1) op] rest]]
  show ?case by simp
qed simp

text \<open>Fewer than \<open>2^64\<close> revisions apart, an equal catalogue revision means an equal catalogue.\<close>

lemma catalogue_identifies:
  assumes "catalogue_grows n t t'" and "n < 18446744073709551616" and "tk_catalogue t' = tk_catalogue t"
  shows "same_catalogue t t'"
proof -
  from assms(1) obtain k where k: "k \<le> n" "tk_catalogue t' = tk_catalogue t + of_nat k" "k = 0 \<longrightarrow> same_catalogue t t'"
    unfolding catalogue_grows_def by blast
  then have "(of_nat k :: u64) = 0" using assms(3) by simp
  then have "k mod 18446744073709551616 = 0" by (simp add: of_nat_eq_0_iff take_bit_eq_mod word_of_nat_eq_0_iff)
  with k(1) assms(2) have "k = 0" by simp
  with k(3) show ?thesis by simp
qed

lemma same_catalogue_retention:
  "same_catalogue t t' \<Longrightarrow> tk_cfg t' = tk_cfg t \<Longrightarrow> retention_of t' = retention_of t"
  by (simp add: same_catalogue_def retention_of_def Let_def)

end
