(* ===== verification/Rounds_View.thy ===== *)
theory Rounds_View
  imports Catalogue Text Dash_State
begin

text \<open>
  The round reports of the web server: \<open>internal/web/rounds_compact.go\<close>, the request and response of
  \<open>internal/web/rounds.go\<close>, and from \<open>rounds_cache.go\<close> the cached entry, the test that lets an entry
  answer a request, and \<open>withCatalogue\<close>.  JSON encoding is a parameter.
\<close>

section \<open>Summaries\<close>

record group_summary =
  gs_hash :: string
  gs_power :: string
  gs_count :: int
  gs_canonical :: bool

record phase_summary =
  ps_groups :: "group_summary list"
  ps_observed :: string
  ps_count :: int
  ps_absent :: string
  ps_absent_count :: int
  ps_conflicting_count :: int

record round_summary =
  sm_round :: int
  sm_proposer :: string
  sm_first :: gtime
  sm_last :: gtime
  sm_complete :: bool
  sm_total :: string
  sm_truncated :: bool
  sm_prevotes :: phase_summary
  sm_precommits :: phase_summary

definition summarize_phase :: "inv_phase \<Rightarrow> phase_summary" where
  "summarize_phase p =
     \<lparr>ps_groups = map (\<lambda>g. \<lparr>gs_hash = pg_hash g, gs_power = pg_power g, gs_count = pg_count g,
                            gs_canonical = pg_canonical g\<rparr>) (ph_groups p),
      ps_observed = ph_observed p, ps_count = ph_count p, ps_absent = ph_absent p,
      ps_absent_count = int (length (ph_not_observed p)),
      ps_conflicting_count = int (length (ph_conflicting p))\<rparr>"

definition summarize_rounds :: "inv_round list \<Rightarrow> round_summary list" where
  "summarize_rounds rs =
     map (\<lambda>r. \<lparr>sm_round = vr_round r, sm_proposer = vr_proposer r, sm_first = vr_first r, sm_last = vr_last r,
               sm_complete = vr_complete r, sm_total = vr_total r, sm_truncated = vr_truncated r,
               sm_prevotes = summarize_phase (vr_prevotes r), sm_precommits = summarize_phase (vr_precommits r)\<rparr>) rs"

section \<open>The selection of rounds\<close>

text \<open>A parsed query: every key that is present has a first value and perhaps more.\<close>

type_synonym url_values = "(string, string \<times> string list) gomap"

definition q_get :: "url_values \<Rightarrow> string \<Rightarrow> string" where
  "q_get q k = (case map_of q k of Some (v, vs) \<Rightarrow> v | None \<Rightarrow> '''')"

definition q_has :: "url_values \<Rightarrow> string \<Rightarrow> bool" where
  "q_has q k \<longleftrightarrow> map_of q k \<noteq> None"

definition q_repeated :: "url_values \<Rightarrow> string \<Rightarrow> bool" where
  "q_repeated q k \<longleftrightarrow> (case map_of q k of Some (v, vs) \<Rightarrow> vs \<noteq> [] | None \<Rightarrow> False)"

record round_selection =
  sl_latest :: bool
  sl_round :: int
  sl_comparison :: "int option"

definition round_error :: string where
  "round_error = ''round must be a nonnegative decimal integer no greater than 2147483647''"

definition parse_round :: "string \<Rightarrow> string + int" where
  "parse_round raw =
     (case parse_int64 raw of
        None \<Rightarrow> Inl round_error
      | Some n \<Rightarrow> if n < 0 \<or> n > 2147483647 \<or> format_int n \<noteq> raw then Inl round_error else Inr n)"

definition parse_comparison :: "url_values \<Rightarrow> round_selection \<Rightarrow> string + round_selection" where
  "parse_comparison q sel =
     (case map_of q ''compare'' of
        None \<Rightarrow> Inr sel
      | Some (raw, vs) \<Rightarrow>
          (case parse_round raw of Inl err \<Rightarrow> Inl err | Inr n \<Rightarrow> Inr (sel\<lparr>sl_comparison := Some n\<rparr>)))"

definition parse_round_selection :: "url_values \<Rightarrow> string + round_selection" where
  "parse_round_selection q =
     (let result = \<lparr>sl_latest = True, sl_round = 0, sl_comparison = None\<rparr>
      in case find (q_repeated q) [''view'', ''round'', ''compare'', ''capture''] of
           Some key \<Rightarrow> Inl (''duplicate '' @ key @ '' parameter'')
         | None \<Rightarrow>
             if q_has q ''round'' \<and> q_get q ''round'' = ''''
             then Inl ''round must be latest or a nonnegative decimal integer''
             else if q_get q ''round'' \<noteq> '''' \<and> q_get q ''round'' \<noteq> ''latest''
             then (case parse_round (q_get q ''round'') of
                     Inl err \<Rightarrow> Inl err
                   | Inr n \<Rightarrow> parse_comparison q (result\<lparr>sl_latest := False, sl_round := n\<rparr>))
             else parse_comparison q result)"

section \<open>Entries\<close>

record encoded =
  ec_body :: string
  ec_etag :: string

record rounds_entry =
  rn_report :: investigation
  rn_evidence :: u64
  rn_captured :: gtime
  rn_built :: gtime
  rn_used :: gtime
  rn_full :: string
  rn_summaries :: "round_summary list"
  rn_variants :: "(string, encoded) gomap"
  rn_flights :: "string list"
  rn_size :: int

definition built_entry :: "(investigation \<Rightarrow> string) \<Rightarrow> capture \<Rightarrow> gtime \<Rightarrow> gtime \<Rightarrow> rounds_entry" where
  "built_entry marshal c built used =
     (let report = build c; full = marshal report
      in \<lparr>rn_report = report, rn_evidence = av_evidence (ca_version c), rn_captured = ca_captured_at c,
          rn_built = built, rn_used = used, rn_full = full, rn_summaries = summarize_rounds (bi_rounds report),
          rn_variants = [], rn_flights = [], rn_size = 3 * int (length full)\<rparr>)"

definition rounds_coalesce :: duration where
  "rounds_coalesce = 250 * millisecond"

definition can_coalesce :: "gtime \<Rightarrow> rounds_entry \<Rightarrow> archive_version \<Rightarrow> bool" where
  "can_coalesce now e v \<longleftrightarrow>
     bi_found (av_header v) \<and> bi_committed (rn_report e) = bi_committed (av_header v)
     \<and> bi_canonical (rn_report e) = bi_canonical (av_header v)
     \<and> co_evicted (bi_coverage (rn_report e)) = co_evicted (bi_coverage (av_header v))
     \<and> time_sub now (rn_built e) < rounds_coalesce"

text \<open>Whether the entry of a height answers a request for which the tracker reports this version.\<close>

definition serves :: "bool \<Rightarrow> gtime \<Rightarrow> rounds_entry \<Rightarrow> archive_version \<Rightarrow> bool" where
  "serves coalesce now e v \<longleftrightarrow> rn_evidence e = av_evidence v \<or> coalesce \<and> can_coalesce now e v"

definition with_catalogue :: "rounds_entry \<Rightarrow> archive_version \<Rightarrow> investigation" where
  "with_catalogue e v =
     (rn_report e)\<lparr>bi_retention := bi_retention (av_header v), bi_status := bi_status (av_header v)\<rparr>"

section \<open>The compact report\<close>

record compact_investigation =
  ci_report :: investigation
  ci_schema :: int
  ci_epoch :: string
  ci_revision :: string
  ci_rounds :: "round_summary list"
  ci_details :: "inv_round list"
  ci_selected :: "int option"
  ci_comparison :: "int option"
  ci_selection_status :: string
  ci_comparison_status :: string

definition report_revision :: "rounds_entry \<Rightarrow> archive_version \<Rightarrow> string" where
  "report_revision e v = dec_nat (unat (rn_evidence e)) @ '':'' @ dec_nat (unat (av_catalogue v))"

text \<open>The closure \<open>pick\<close>: the details so far, and the round with its status.\<close>

definition pick :: "investigation \<Rightarrow> int \<Rightarrow> inv_round list \<Rightarrow> inv_round list \<times> int option \<times> string" where
  "pick r n details =
     (case find (\<lambda>rd. vr_round rd = n) (bi_rounds r) of
        Some rd \<Rightarrow>
          (if list_ex (\<lambda>d. vr_round d = n) details then details else details @ [rd], Some n, ''available'')
      | None \<Rightarrow>
          (details, None,
           if bi_status r = ''evicted''
              \<or> co_evicted (bi_coverage r) > 0 \<and> bi_rounds r \<noteq> [] \<and> n < vr_round (hd (bi_rounds r))
           then ''evicted'' else ''not_observed''))"

definition pick_selected :: "investigation \<Rightarrow> round_selection \<Rightarrow> inv_round list \<times> int option \<times> string" where
  "pick_selected r sel =
     (if sl_latest sel
      then if bi_rounds r \<noteq> [] then pick r (vr_round (last (bi_rounds r))) []
           else ([], None, if bi_status r = ''evicted'' then ''evicted'' else ''not_observed'')
      else pick r (sl_round sel) [])"

definition compact_report ::
  "rounds_entry \<Rightarrow> archive_version \<Rightarrow> string \<Rightarrow> round_selection \<Rightarrow> compact_investigation" where
  "compact_report e v epoch sel =
     (let r = with_catalogue e v;
          (d1, selected, status) = pick_selected r sel;
          (d2, compared, cstatus) =
            (case sl_comparison sel of None \<Rightarrow> (d1, None, ''none'') | Some n \<Rightarrow> pick r n d1)
      in \<lparr>ci_report = r\<lparr>bi_rounds := []\<rparr>, ci_schema = 1, ci_epoch = epoch, ci_revision = report_revision e v,
          ci_rounds = rn_summaries e, ci_details = d2, ci_selected = selected, ci_comparison = compared,
          ci_selection_status = status, ci_comparison_status = cstatus\<rparr>)"

definition bool_text :: "bool \<Rightarrow> string" where
  "bool_text b = (if b then ''true'' else ''false'')"

definition compact_key :: "string \<Rightarrow> rounds_entry \<Rightarrow> archive_version \<Rightarrow> round_selection \<Rightarrow> string" where
  "compact_key epoch e v sel =
     epoch @ '':'' @ dec_nat (unat (rn_evidence e)) @ '':'' @ dec_nat (unat (av_catalogue v)) @ '':''
     @ bool_text (sl_latest sel) @ '':'' @ format_int (sl_round sel) @ '':''
     @ (case sl_comparison sel of None \<Rightarrow> ''none'' | Some n \<Rightarrow> format_int n)"

definition full_key :: "rounds_entry \<Rightarrow> archive_version \<Rightarrow> string" where
  "full_key e v = ''full:'' @ dec_nat (unat (rn_evidence e)) @ '':'' @ dec_nat (unat (av_catalogue v))"

text \<open>\<open>If-None-Match\<close>.\<close>

definition trim_prefix :: "string \<Rightarrow> string \<Rightarrow> string" where
  "trim_prefix p s = (if take (length p) s = p then drop (length p) s else s)"

definition matches_etag :: "string \<Rightarrow> string \<Rightarrow> bool" where
  "matches_etag header etag \<longleftrightarrow>
     list_ex (\<lambda>part. let tag = trim_space part in tag = ''*'' \<or> trim_prefix ''W/'' tag = etag)
       (split_on CHR '','' header)"

section \<open>Requests and responses\<close>

definition max_browser_height :: int where
  "max_browser_height = 9007199254740991"

record round_request =
  rq_height :: int
  rq_view :: string
  rq_selection :: round_selection
  rq_capture :: bool

text \<open>The checks of \<open>handleBlockRounds\<close>, up to the cache: the status and message, or the request.\<close>

definition block_rounds_request :: "string \<Rightarrow> bool \<Rightarrow> url_values \<Rightarrow> (int \<times> string) + round_request" where
  "block_rounds_request raw available q =
     (let bad = Inl (400, ''height must be a positive decimal integer no greater than 9007199254740991'')
      in case parse_int64 raw of
           None \<Rightarrow> bad
         | Some height \<Rightarrow>
             if height \<le> 0 \<or> height > max_browser_height \<or> format_int height \<noteq> raw then bad
             else if \<not> available then Inl (503, ''round observations are unavailable'')
             else
               let view = q_get q ''view''
               in if view \<noteq> '''' \<and> view \<noteq> ''full'' \<and> view \<noteq> ''compact''
                  then Inl (400, ''view must be full or compact'')
                  else (case parse_round_selection q of
                          Inl err \<Rightarrow> Inl (400, err)
                        | Inr sel \<Rightarrow>
                            let capture = (q_get q ''capture'' = ''1'')
                            in if q_has q ''capture'' \<and> (\<not> capture \<or> view \<noteq> ''full'')
                               then Inl (400, ''capture requires view=full&capture=1'')
                               else Inr \<lparr>rq_height = height, rq_view = view, rq_selection = sel,
                                         rq_capture = capture\<rparr>))"

datatype lane = Readers | Captures | LegacyLane

definition lane_of :: "round_request \<Rightarrow> lane" where
  "lane_of rq =
     (if rq_capture rq then Captures else if rq_view rq \<noteq> ''compact'' then LegacyLane else Readers)"

definition lane_cap :: "lane \<Rightarrow> nat" where
  "lane_cap l = (case l of Readers \<Rightarrow> 256 | Captures \<Rightarrow> 2 | LegacyLane \<Rightarrow> 8)"

definition compact_response :: "string \<Rightarrow> encoded \<Rightarrow> int \<times> string" where
  "compact_response if_none_match ec =
     (if matches_etag if_none_match (ec_etag ec) then (304, '''') else (200, ec_body ec))"

record context_view =
  ic_chain :: string
  ic_height :: int
  ic_round :: int
  ic_committed :: int
  ic_health :: health
  ic_upgrade :: "upgrade option"
  ic_generated :: gtime
  ic_source :: string

definition investigation_context :: "state_data \<Rightarrow> gtime \<Rightarrow> gtime \<Rightarrow> context_view" where
  "investigation_context s now generated =
     (let snap = snapshot s now
      in \<lparr>ic_chain = (case sd_node_status snap of None \<Rightarrow> '''' | Some ns \<Rightarrow> ns_network ns),
          ic_height = sd_height snap, ic_round = sd_round snap, ic_committed = sd_committed snap,
          ic_health = sd_health snap, ic_upgrade = sd_upgrade snap, ic_generated = generated,
          ic_source = ''Observed votes from the configured RPC; not a complete network record.''\<rparr>)"

text \<open>The body of the full view: the shared evidence with the encoded context spliced in.\<close>

definition full_response :: "string \<Rightarrow> string \<Rightarrow> string" where
  "full_response body extra = butlast body @ '','' @ tl extra"

section \<open>Cached views are current\<close>

lemma version_header:
  assumes "block_at t h = Some b"
  shows "investigation_header t h =
     (not_observed_header t h)\<lparr>bi_found := True,
        bi_status := (if ah_committed b then ''committed''
                      else if h < tk_latest t \<or> h \<le> tk_committed t then ''passed'' else ''live''),
        bi_committed := ah_committed b, bi_canonical := ah_canonical b, bi_first := Some (ah_first b),
        bi_last := Some (ah_last b), bi_coverage := coverage_of b, bi_truncated := ah_evicted b > 0\<rparr>"
  using assms by (simp add: investigation_header_def Let_def)

lemma header_found: "bi_found (investigation_header t h) \<longleftrightarrow> block_at t h \<noteq> None"
  by (auto simp: investigation_header_def not_observed_header_def Let_def split: option.split)

lemma with_catalogue_same_block:
  assumes "block_at t h = Some b" and "block_at t' h = Some b"
  shows "with_catalogue (built_entry marshal (capture_investigation t h n d) n1 n2) (investigation_version t' h)
         = block_investigation t' h n' d'"
  using assms
  by (simp add: with_catalogue_def built_entry_def block_investigation_def build_def capture_investigation_def
      investigation_version_def version_header not_observed_header_def Let_def)

lemma with_catalogue_cong:
  "bi_retention (av_header v) = bi_retention (av_header v') \<Longrightarrow> bi_status (av_header v) = bi_status (av_header v') \<Longrightarrow>
     with_catalogue e v = with_catalogue e v'"
  by (simp add: with_catalogue_def)

text \<open>Keys: no number contains a colon, so equal keys have equal parts.\<close>

lemma dec_nat_no_colon: "CHR '':'' \<notin> set (dec_nat n)"
  by (rule dec_nat_free) (simp add: is_digit_def less_eq_char_def of_char_def)

lemma format_int_no_colon: "CHR '':'' \<notin> set (format_int i)"
  using dec_nat_no_colon by (simp add: format_int_def)

lemma split_at_sep:
  "a @ sep # x = b @ sep # y \<Longrightarrow> sep \<notin> set a \<Longrightarrow> sep \<notin> set b \<Longrightarrow> a = b \<and> x = y"
proof (induction a arbitrary: b)
  case Nil
  then show ?case by (cases b) auto
next
  case (Cons c a)
  then show ?case by (cases b) auto
qed

lemma format_int_not_none: "format_int n \<noteq> ''none''"
proof
  assume "format_int n = ''none''"
  then have "big_set_string ''none'' = Some n" using big_set_format [of n] by simp
  then show False by (simp add: parse_nat_def is_digit_def less_eq_char_def of_char_def)
qed

lemma compact_key_inject:
  assumes "compact_key epoch e v sel = compact_key epoch e v' sel'"
  shows "av_catalogue v = av_catalogue v' \<and> sel = sel'"
proof -
  let ?c = "\<lambda>s :: round_selection. case sl_comparison s of None \<Rightarrow> ''none'' | Some n \<Rightarrow> format_int n"
  have "dec_nat (unat (av_catalogue v)) @ CHR '':'' # bool_text (sl_latest sel) @ CHR '':''
          # format_int (sl_round sel) @ CHR '':'' # ?c sel
      = dec_nat (unat (av_catalogue v')) @ CHR '':'' # bool_text (sl_latest sel') @ CHR '':''
          # format_int (sl_round sel') @ CHR '':'' # ?c sel'"
    using assms by (simp add: compact_key_def)
  note 1 = split_at_sep [OF this dec_nat_no_colon dec_nat_no_colon]
  have nb: "CHR '':'' \<notin> set (bool_text b)" for b by (simp add: bool_text_def)
  note 2 = split_at_sep [OF conjunct2 [OF 1] nb nb]
  note 3 = split_at_sep [OF conjunct2 [OF 2] format_int_no_colon format_int_no_colon]
  have "sl_latest sel = sl_latest sel'" using 2 by (auto simp: bool_text_def split: if_splits)
  moreover have "sl_round sel = sl_round sel'" using 3 by simp
  moreover have "sl_comparison sel = sl_comparison sel'"
    using 3 format_int_not_none by (auto split: option.splits dest: sym)
  moreover have "av_catalogue v = av_catalogue v'" using 1 by (simp add: dec_nat_inject word_unat_eq_iff)
  ultimately show ?thesis by simp
qed

end
