(* ===== verification/Rounds_Cache.thy ===== *)
theory Rounds_Cache
  imports Rounds_View
begin

text \<open>
  The cache of round reports (\<open>internal/web/rounds_cache.go\<close> and \<open>encoded\<close> of
  \<open>rounds_compact.go\<close>).  Readers hold pointers to entries while the cache changes or drops them, so
  the entries live in an explicit store, \<open>rc_heap\<close>, and the map from heights holds their addresses.
  Every critical section under the cache's mutex is one atomic step; a build happens between two of
  them, guarded by a flight.  The tracker is read at the moments \<open>trk k\<close> of its run.  Sizes are
  unbounded integers: they are bounded by the lengths of byte slices in memory.
\<close>

section \<open>State\<close>

record rounds_cache =
  rc_heap :: "(nat, rounds_entry) gomap"
  rc_next :: nat
  rc_entries :: "(int, nat) gomap"
  rc_flights :: "int list"
  rc_bytes :: int
  rc_lanes :: "lane list"

definition rounds_cache_bytes :: int where
  "rounds_cache_bytes = 67108864"

definition rounds_cache_entries :: nat where
  "rounds_cache_entries = 32"

definition rounds_cache_variants :: nat where
  "rounds_cache_variants = 8"

definition new_rounds_cache :: rounds_cache where
  "new_rounds_cache = \<lparr>rc_heap = [], rc_next = 0, rc_entries = [], rc_flights = [], rc_bytes = 0, rc_lanes = []\<rparr>"

definition size_at :: "rounds_cache \<Rightarrow> nat \<Rightarrow> int" where
  "size_at c i = (case map_of (rc_heap c) i of Some e \<Rightarrow> rn_size e | None \<Rightarrow> 0)"

definition used_at :: "rounds_cache \<Rightarrow> nat \<Rightarrow> gtime" where
  "used_at c i = (case map_of (rc_heap c) i of Some e \<Rightarrow> rn_used e | None \<Rightarrow> 0)"

definition admit :: "lane \<Rightarrow> rounds_cache \<Rightarrow> rounds_cache \<times> bool" where
  "admit l c =
     (if count_list (rc_lanes c) l < lane_cap l then (c\<lparr>rc_lanes := l # rc_lanes c\<rparr>, True) else (c, False))"

definition release :: "lane \<Rightarrow> rounds_cache \<Rightarrow> rounds_cache" where
  "release l c = c\<lparr>rc_lanes := remove1 l (rc_lanes c)\<rparr>"

section \<open>Eviction\<close>

definition remove_locked :: "int \<Rightarrow> rounds_cache \<Rightarrow> rounds_cache" where
  "remove_locked height c =
     (case map_of (rc_entries c) height of
        None \<Rightarrow> c
      | Some i \<Rightarrow> c\<lparr>rc_entries := gdel height (rc_entries c), rc_bytes := rc_bytes c - size_at c i\<rparr>)"

definition oldest_entry :: "rounds_cache \<Rightarrow> int" where
  "oldest_entry c =
     fst (fold (\<lambda>(height, i) (oldest, stamp). if stamp = 0 \<or> used_at c i < stamp then (height, used_at c i) else (oldest, stamp))
            (rc_entries c) (0, 0))"

text \<open>The loop of \<open>trimLocked\<close>; \<open>None\<close> would be a loop that never ends.\<close>

partial_function (option) trim_locked :: "rounds_cache \<Rightarrow> rounds_cache option" where
  "trim_locked c =
     (if rc_bytes c > rounds_cache_bytes \<or> length (rc_entries c) > rounds_cache_entries
      then trim_locked (remove_locked (oldest_entry c) c)
      else Some c)"

section \<open>Reports\<close>

text \<open>The entry of a height that is not in the archive: answered, never cached.\<close>

definition missing_entry :: "(investigation \<Rightarrow> string) \<Rightarrow> archive_version \<Rightarrow> rounds_entry" where
  "missing_entry marshal v =
     \<lparr>rn_report = av_header v, rn_evidence = av_evidence v, rn_captured = 0, rn_built = 0, rn_used = 0,
      rn_full = marshal (av_header v), rn_summaries = [], rn_variants = [], rn_flights = [], rn_size = 0\<rparr>"

definition allocate :: "rounds_entry \<Rightarrow> rounds_cache \<Rightarrow> rounds_cache" where
  "allocate e c = c\<lparr>rc_heap := gput (rc_next c) e (rc_heap c), rc_next := rc_next c + 1\<rparr>"

text \<open>The first critical section of \<open>get\<close>: a hit, a wait for the build under way, or a new flight.\<close>

definition get_start ::
  "(investigation \<Rightarrow> string) \<Rightarrow> int \<Rightarrow> archive_version \<Rightarrow> bool \<Rightarrow> gtime \<Rightarrow> rounds_cache \<Rightarrow> rounds_cache" where
  "get_start marshal height v coalesce now c =
     (if \<not> bi_found (av_header v) then allocate (missing_entry marshal v) (remove_locked height c)
      else
        case Option.bind (map_of (rc_entries c) height)
               (\<lambda>i. map_option (\<lambda>e. (i, e)) (map_of (rc_heap c) i)) of
          Some (i, e) \<Rightarrow>
            if serves coalesce now e v then c\<lparr>rc_heap := gput i (e\<lparr>rn_used := now\<rparr>) (rc_heap c)\<rparr>
            else if height \<in> set (rc_flights c) then c else c\<lparr>rc_flights := height # rc_flights c\<rparr>
        | None \<Rightarrow> if height \<in> set (rc_flights c) then c else c\<lparr>rc_flights := height # rc_flights c\<rparr>)"

definition publish :: "int \<Rightarrow> rounds_entry \<Rightarrow> archive_version \<Rightarrow> rounds_cache \<Rightarrow> rounds_cache option" where
  "publish height e latest c =
     map_option (\<lambda>c. c\<lparr>rc_flights := removeAll height (rc_flights c)\<rparr>)
       (if bi_found (av_header latest) \<and> bi_found (rn_report e) \<and> rn_size e \<le> rounds_cache_bytes
        then let i = rc_next c; c1 = remove_locked height (allocate e c)
             in trim_locked (c1\<lparr>rc_entries := gput height i (rc_entries c1), rc_bytes := rc_bytes c1 + rn_size e\<rparr>)
        else Some (allocate e c))"

section \<open>Encoded variants\<close>

datatype view_kind = CompactView round_selection | FullView

definition view_key :: "string \<Rightarrow> rounds_entry \<Rightarrow> archive_version \<Rightarrow> view_kind \<Rightarrow> string" where
  "view_key epoch e v kind =
     (case kind of CompactView sel \<Rightarrow> compact_key epoch e v sel | FullView \<Rightarrow> full_key e v)"

definition view_body ::
  "(investigation \<Rightarrow> string) \<Rightarrow> (compact_investigation \<Rightarrow> string) \<Rightarrow> string \<Rightarrow> rounds_entry \<Rightarrow> archive_version
     \<Rightarrow> view_kind \<Rightarrow> string" where
  "view_body marshal marshal_compact epoch e v kind =
     (case kind of
        CompactView sel \<Rightarrow> marshal_compact (compact_report e v epoch sel)
      | FullView \<Rightarrow> marshal (with_catalogue e v))"

definition quoted_tag :: "(string \<Rightarrow> string) \<Rightarrow> string \<Rightarrow> encoded" where
  "quoted_tag sha256 body =
     \<lparr>ec_body = body, ec_etag = char_of (34 :: nat) # hex_encode (sha256 body) @ [char_of (34 :: nat)]\<rparr>"

definition variant_bytes :: "rounds_entry \<Rightarrow> int" where
  "variant_bytes e = (\<Sum>(k, ec) \<leftarrow> rn_variants e. int (length (ec_body ec)))"

text \<open>The last critical section of \<open>encoded\<close>: the variants are emptied when there are eight.\<close>

definition clear_variants :: "nat \<Rightarrow> rounds_entry \<Rightarrow> rounds_cache \<Rightarrow> rounds_cache" where
  "clear_variants i e c =
     (if length (rn_variants e) \<ge> rounds_cache_variants
      then c\<lparr>rc_heap := gput i (e\<lparr>rn_variants := [], rn_size := rn_size e - variant_bytes e\<rparr>) (rc_heap c),
             rc_bytes := rc_bytes c - variant_bytes e\<rparr>
      else c)"

definition add_variant :: "nat \<Rightarrow> string \<Rightarrow> encoded \<Rightarrow> rounds_cache \<Rightarrow> rounds_cache" where
  "add_variant i key ec c =
     (case map_of (rc_heap c) i of
        None \<Rightarrow> c
      | Some e \<Rightarrow>
          c\<lparr>rc_heap := gput i (e\<lparr>rn_variants := gput key ec (rn_variants e),
                                rn_size := rn_size e + int (length (ec_body ec))\<rparr>) (rc_heap c),
            rc_bytes := rc_bytes c + int (length (ec_body ec))\<rparr>)"

definition end_flight :: "nat \<Rightarrow> string \<Rightarrow> rounds_cache \<Rightarrow> rounds_cache" where
  "end_flight i key c =
     (case map_of (rc_heap c) i of
        None \<Rightarrow> c
      | Some e \<Rightarrow> c\<lparr>rc_heap := gput i (e\<lparr>rn_flights := removeAll key (rn_flights e)\<rparr>) (rc_heap c)\<rparr>)"

definition store_variant :: "nat \<Rightarrow> string \<Rightarrow> encoded \<Rightarrow> rounds_cache \<Rightarrow> rounds_cache option" where
  "store_variant i key ec c =
     (case map_of (rc_heap c) i of
        None \<Rightarrow> Some c
      | Some e \<Rightarrow>
          map_option (end_flight i key)
            (if map_of (rc_entries c) (bi_height (rn_report e)) = Some i
             then trim_locked (add_variant i key ec (clear_variants i e c))
             else Some c))"

section \<open>Steps\<close>

datatype cache_op =
  GetStart int nat bool gtime
| GetDone int nat gtime duration gtime gtime nat
| GetFailed int
| EncodeStart nat nat gtime view_kind
| EncodeDone nat nat gtime view_kind
| EncodeFailed nat nat gtime view_kind
| Admit lane
| Release lane

text \<open>
  Whether a request may hold this entry with the version of moment \<open>k\<close>: \<open>get\<close> hands out a cached entry
  only with a version it serves, and the entry of a height that is not retained with its own version.
\<close>

definition granted :: "(nat \<Rightarrow> tracker) \<Rightarrow> rounds_entry \<Rightarrow> nat \<Rightarrow> gtime \<Rightarrow> bool" where
  "granted trk e k now \<longleftrightarrow>
     (let v = investigation_version (trk k) (bi_height (rn_report e))
      in bi_found (rn_report e) \<longrightarrow> bi_found (av_header v) \<and> serves True now e v)"

text \<open>
  A step gives the cache and the bodies of the responses it makes, each beside the body of the report
  for the request's entry and version.
\<close>

type_synonym responses = "(string \<times> string) list"

fun cache_step ::
  "(investigation \<Rightarrow> string) \<Rightarrow> (compact_investigation \<Rightarrow> string) \<Rightarrow> (string \<Rightarrow> string) \<Rightarrow> string
     \<Rightarrow> (nat \<Rightarrow> tracker) \<Rightarrow> cache_op \<Rightarrow> rounds_cache \<Rightarrow> (rounds_cache \<times> responses) option" where
  "cache_step mj mc sha epoch trk (GetStart height k coalesce now) c =
     Some (get_start mj height (investigation_version (trk k) height) coalesce now c, [])"
| "cache_step mj mc sha epoch trk (GetDone height k now lock built used m) c =
     (if height \<in> set (rc_flights c)
      then map_option (\<lambda>c1. (c1, []))
             (publish height (built_entry mj (capture_investigation (trk k) height now lock) built used)
               (investigation_version (trk m) height) c)
      else Some (c, []))"
| "cache_step mj mc sha epoch trk (GetFailed height) c =
     Some (c\<lparr>rc_flights := removeAll height (rc_flights c)\<rparr>, [])"
| "cache_step mj mc sha epoch trk (EncodeStart i k now kind) c =
     (case map_of (rc_heap c) i of
        None \<Rightarrow> Some (c, [])
      | Some e \<Rightarrow>
          let v = investigation_version (trk k) (bi_height (rn_report e)); key = view_key epoch e v kind
          in if \<not> granted trk e k now then Some (c, [])
             else case map_of (rn_variants e) key of
               Some hit \<Rightarrow> Some (c, [(ec_body hit, view_body mj mc epoch e v kind)])
             | None \<Rightarrow>
                 if key \<in> set (rn_flights e) then Some (c, [])
                 else Some (c\<lparr>rc_heap := gput i (e\<lparr>rn_flights := key # rn_flights e\<rparr>) (rc_heap c)\<rparr>, []))"
| "cache_step mj mc sha epoch trk (EncodeDone i k now kind) c =
     (case map_of (rc_heap c) i of
        None \<Rightarrow> Some (c, [])
      | Some e \<Rightarrow>
          let v = investigation_version (trk k) (bi_height (rn_report e)); key = view_key epoch e v kind;
              body = view_body mj mc epoch e v kind
          in if \<not> granted trk e k now \<or> key \<notin> set (rn_flights e) then Some (c, [])
             else map_option (\<lambda>c1. (c1, [(body, view_body mj mc epoch e v kind)]))
                    (store_variant i key (quoted_tag sha body) c))"
| "cache_step mj mc sha epoch trk (EncodeFailed i k now kind) c =
     (case map_of (rc_heap c) i of
        None \<Rightarrow> Some (c, [])
      | Some e \<Rightarrow>
          Some (end_flight i (view_key epoch e (investigation_version (trk k) (bi_height (rn_report e))) kind) c, []))"
| "cache_step mj mc sha epoch trk (Admit l) c = Some (fst (admit l c), [])"
| "cache_step mj mc sha epoch trk (Release l) c = Some (release l c, [])"

fun run_cache ::
  "(investigation \<Rightarrow> string) \<Rightarrow> (compact_investigation \<Rightarrow> string) \<Rightarrow> (string \<Rightarrow> string) \<Rightarrow> string
     \<Rightarrow> (nat \<Rightarrow> tracker) \<Rightarrow> cache_op list \<Rightarrow> rounds_cache \<Rightarrow> (rounds_cache \<times> responses) option" where
  "run_cache mj mc sha epoch trk [] c = Some (c, [])"
| "run_cache mj mc sha epoch trk (op # ops) c =
     (case cache_step mj mc sha epoch trk op c of
        None \<Rightarrow> None
      | Some (c1, rs) \<Rightarrow> map_option (\<lambda>(c2, rs'). (c2, rs @ rs')) (run_cache mj mc sha epoch trk ops c1))"

end
