(* ===== verification/Rounds_Props.thy ===== *)
theory Rounds_Props
  imports Rounds_View Tracker_Props
begin

text \<open>
  The round reports of the web server against the tracker: a cached entry that the cache serves gives the
  report a fresh build would give, and a cached response is the response to every request with its key.
\<close>

section \<open>Runs after an entry was built\<close>

definition demo_later :: tracker where
  "demo_later = fst (the (run_ops [ResolveCommit 7 ''z'' 9] (demo_tracker True)))"

lemma demo_later_run: "run_ops [ResolveCommit 7 ''z'' 9] (demo_tracker True) = Some (demo_later, [])"
  by code_simp

lemma demo_later_block: "block_at demo_later 5 = Some (demo_block True)"
  by code_simp

lemma evidence_block:
  assumes "reachable cfg t" and "run_ops ops t = Some (t', ks)" and "length ops < 144115188075855872"
    and "bi_found (investigation_header t h)" and "bi_found (investigation_header t' h)"
    and "av_evidence (investigation_version t' h) = av_evidence (investigation_version t h)"
  shows "\<exists>b. block_at t h = Some b \<and> block_at t' h = Some b"
proof -
  from assms(4,5) obtain b b' where b: "block_at t h = Some b" "block_at t' h = Some b'"
    by (auto simp: header_found)
  with assms(6) have "ah_revision b' = ah_revision b" by (simp add: investigation_version_def)
  from revision_same_block [OF reachable_inv [OF assms(1)] assms(2,3) b this] b show ?thesis by simp
qed

text \<open>What of an entry does not change while it is cached.\<close>

definition built_from :: "tracker \<Rightarrow> int \<Rightarrow> rounds_entry \<Rightarrow> bool" where
  "built_from t h e \<longleftrightarrow>
     rn_report e = block_investigation t h 0 0 \<and> rn_evidence e = av_evidence (investigation_version t h)
     \<and> rn_summaries e = summarize_rounds (bi_rounds (rn_report e))"

lemma built_from_entry: "built_from t h (built_entry marshal (capture_investigation t h n d) built used)"
  by (simp add: built_from_def built_entry_def block_investigation_def build_def capture_investigation_def Let_def)

lemma built_from_found: "built_from t h e \<Longrightarrow> bi_found (rn_report e) = bi_found (investigation_header t h)"
  by (auto simp: built_from_def block_investigation_def build_def capture_investigation_def
      investigation_version_def Let_def split: option.splits)

section \<open>The moments of a run\<close>

definition tracker_at :: "config \<Rightarrow> tracker_op list \<Rightarrow> nat \<Rightarrow> tracker" where
  "tracker_at cfg ops k =
     (case run_ops (take k ops) (new_tracker cfg) of Some (t, ks) \<Rightarrow> t | None \<Rightarrow> new_tracker cfg)"

definition short_run :: "config \<Rightarrow> tracker_op list \<Rightarrow> bool" where
  "short_run cfg ops \<longleftrightarrow> run_ops ops (new_tracker cfg) \<noteq> None \<and> length ops < 144115188075855872"

lemma run_ops_take:
  assumes "short_run cfg ops"
  shows "\<exists>ks. run_ops (take k ops) (new_tracker cfg) = Some (tracker_at cfg ops k, ks)"
proof -
  have "run_ops (take k ops @ drop k ops) (new_tracker cfg) \<noteq> None" using assms by (simp add: short_run_def)
  then show ?thesis
    unfolding run_ops_append tracker_at_def by (auto split: option.splits)
qed

lemma tracker_at_reachable: "short_run cfg ops \<Longrightarrow> reachable cfg (tracker_at cfg ops k)"
  using run_ops_take [of cfg ops k] run_ops_new by blast

lemma tracker_at_run:
  assumes "short_run cfg ops" and "j \<le> k"
  shows "\<exists>ops' ks. run_ops ops' (tracker_at cfg ops j) = Some (tracker_at cfg ops k, ks)
           \<and> length ops' < 144115188075855872"
proof -
  obtain k1 where 1: "run_ops (take j ops) (new_tracker cfg) = Some (tracker_at cfg ops j, k1)"
    using run_ops_take [OF assms(1)] by blast
  obtain k2 where 2: "run_ops (take k ops) (new_tracker cfg) = Some (tracker_at cfg ops k, k2)"
    using run_ops_take [OF assms(1)] by blast
  have "take k ops = take j ops @ drop j (take k ops)"
    using assms(2) by (metis append_take_drop_id min.absorb1 take_take)
  with 2 have "run_ops (take j ops @ drop j (take k ops)) (new_tracker cfg) = Some (tracker_at cfg ops k, k2)" by simp
  with 1 obtain ks where "run_ops (drop j (take k ops)) (tracker_at cfg ops j) = Some (tracker_at cfg ops k, ks)"
    by (auto simp: run_ops_append)
  moreover have "length (drop j (take k ops)) < 144115188075855872"
    using assms(1) by (auto simp: short_run_def intro: le_less_trans [rotated])
  ultimately show ?thesis by blast
qed

text \<open>An equal revision is an equal block, an equal catalogue revision an equal catalogue.\<close>

lemma same_evidence:
  assumes run: "short_run cfg ops" and j: "bi_found (investigation_header (tracker_at cfg ops j) h)"
    and k: "bi_found (investigation_header (tracker_at cfg ops k) h)"
    and ev: "av_evidence (investigation_version (tracker_at cfg ops j) h)
             = av_evidence (investigation_version (tracker_at cfg ops k) h)"
  shows "\<exists>b. block_at (tracker_at cfg ops j) h = Some b \<and> block_at (tracker_at cfg ops k) h = Some b"
proof (cases "j \<le> k")
  case True
  obtain ops' ks where r: "run_ops ops' (tracker_at cfg ops j) = Some (tracker_at cfg ops k, ks)"
      "length ops' < 144115188075855872"
    using tracker_at_run [OF run True] by blast
  from evidence_block [OF tracker_at_reachable [OF run] r j k ev [symmetric]] show ?thesis .
next
  case False
  then have "k \<le> j" by simp
  obtain ops' ks where r: "run_ops ops' (tracker_at cfg ops k) = Some (tracker_at cfg ops j, ks)"
      "length ops' < 144115188075855872"
    using tracker_at_run [OF run \<open>k \<le> j\<close>] by blast
  from evidence_block [OF tracker_at_reachable [OF run] r k j ev]
  show ?thesis by blast
qed

lemma same_catalogue_at:
  assumes run: "short_run cfg ops" and c: "tk_catalogue (tracker_at cfg ops j) = tk_catalogue (tracker_at cfg ops k)"
  shows "same_catalogue (tracker_at cfg ops j) (tracker_at cfg ops k)
         \<and> tk_cfg (tracker_at cfg ops k) = tk_cfg (tracker_at cfg ops j)"
proof -
  have step: "same_catalogue (tracker_at cfg ops i) (tracker_at cfg ops m)
      \<and> tk_cfg (tracker_at cfg ops m) = tk_cfg (tracker_at cfg ops i)"
    if im: "i \<le> m" and eq: "tk_catalogue (tracker_at cfg ops i) = tk_catalogue (tracker_at cfg ops m)" for i m
  proof -
    obtain ops' ks where r: "run_ops ops' (tracker_at cfg ops i) = Some (tracker_at cfg ops m, ks)"
        "length ops' < 144115188075855872"
      using tracker_at_run [OF run im] by blast
    note g = catalogue_run [OF reachable_inv [OF tracker_at_reachable [OF run]] r(1)]
    have "same_catalogue (tracker_at cfg ops i) (tracker_at cfg ops m)"
      by (rule catalogue_identifies [OF g]) (use r(2) eq in simp_all)
    with g show ?thesis by (simp add: catalogue_grows_def)
  qed
  show ?thesis
  proof (cases "j \<le> k")
    case True
    from step [OF this c] show ?thesis .
  next
    case False
    then have "k \<le> j" by simp
    from step [OF this c [symmetric]] show ?thesis by (simp add: same_catalogue_def)
  qed
qed

text \<open>A version that the entry serves shows the same commitment, so with an equal catalogue the same view.\<close>

lemma served_committed:
  assumes run: "short_run cfg ops" and b: "built_from (tracker_at cfg ops j) h e" and f: "bi_found (rn_report e)"
    and k: "bi_found (investigation_header (tracker_at cfg ops k) h)"
    and s: "serves c now e (investigation_version (tracker_at cfg ops k) h)"
  shows "bi_committed (investigation_header (tracker_at cfg ops k) h) = bi_committed (rn_report e)"
proof (cases "can_coalesce now e (investigation_version (tracker_at cfg ops k) h)")
  case True
  then show ?thesis by (simp add: can_coalesce_def investigation_version_def)
next
  case False
  with b s have "av_evidence (investigation_version (tracker_at cfg ops j) h)
      = av_evidence (investigation_version (tracker_at cfg ops k) h)"
    by (simp add: serves_def built_from_def)
  with same_evidence [OF run _ k] built_from_found [OF b] f
  obtain b where "block_at (tracker_at cfg ops j) h = Some b" "block_at (tracker_at cfg ops k) h = Some b" by blast
  with assms(2) show ?thesis
    by (simp add: built_from_def block_investigation_def build_def capture_investigation_def
        investigation_version_def version_header Let_def)
qed

lemma served_views_agree:
  assumes run: "short_run cfg ops" and b: "built_from (tracker_at cfg ops j) h e" and f: "bi_found (rn_report e)"
    and k: "bi_found (investigation_header (tracker_at cfg ops k) h)" "serves c now e (investigation_version (tracker_at cfg ops k) h)"
    and m: "bi_found (investigation_header (tracker_at cfg ops m) h)" "serves c' now' e (investigation_version (tracker_at cfg ops m) h)"
    and cat: "tk_catalogue (tracker_at cfg ops k) = tk_catalogue (tracker_at cfg ops m)"
  shows "with_catalogue e (investigation_version (tracker_at cfg ops k) h)
         = with_catalogue e (investigation_version (tracker_at cfg ops m) h)"
proof -
  note same = same_catalogue_at [OF run cat]
  have "bi_committed (investigation_header (tracker_at cfg ops k) h)
      = bi_committed (investigation_header (tracker_at cfg ops m) h)"
    using served_committed [OF run b f k] served_committed [OF run b f m] by simp
  moreover obtain b1 b2 where "block_at (tracker_at cfg ops k) h = Some b1" "block_at (tracker_at cfg ops m) h = Some b2"
    using k(1) m(1) by (auto simp: header_found)
  ultimately show ?thesis
    using same same_catalogue_retention [OF conjunct1 [OF same] conjunct2 [OF same]]
    by (intro with_catalogue_cong)
      (auto simp: investigation_version_def version_header not_observed_header_def same_catalogue_def)
qed

section \<open>Properties\<close>

text \<open>A cached report is a fresh one.  When the cache answers a request from an entry it built
  earlier, because the tracker still reports the entry's revision for the height, the report it serves
  (the entry's evidence with the present retention and status) is exactly the one a build of this moment
  would give, whatever the tracker did in between.\<close>

theorem cached_report_is_fresh:
  assumes "reachable cfg t" and "run_ops ops t = Some (t', ks)" and "length ops < 144115188075855872"
    and "e = built_entry marshal (capture_investigation t h n d) built used"
    and "v = investigation_version t' h" and "bi_found (rn_report e)" and "bi_found (av_header v)"
    and "rn_evidence e = av_evidence v"
  shows "with_catalogue e v = block_investigation t' h n' d'"
proof -
  have "bi_found (investigation_header t h)"
    using assms(4,6)
    by (auto simp: built_entry_def build_def capture_investigation_def investigation_version_def Let_def
        split: option.splits)
  moreover have "bi_found (investigation_header t' h)" using assms(5,7) by (simp add: investigation_version_def)
  moreover have "av_evidence (investigation_version t' h) = av_evidence (investigation_version t h)"
    using assms(4,5,8) by (simp add: built_entry_def capture_investigation_def Let_def)
  ultimately obtain b where "block_at t h = Some b" "block_at t' h = Some b"
    using evidence_block [OF assms(1-3)] by blast
  from with_catalogue_same_block [OF this] assms(4,5) show ?thesis by simp
qed

abbreviation demo_entry :: rounds_entry where
  "demo_entry \<equiv> built_entry (\<lambda>r. ''{}'') (capture_investigation (demo_tracker True) 5 4 0) 4 4"

lemma demo_entry_found: "bi_found (rn_report demo_entry)" "rn_evidence demo_entry = 5"
  using demo_block_at [of True]
  by (simp_all add: built_entry_def build_def capture_investigation_def investigation_version_def version_header
      demo_block_def Let_def)

abbreviation demo_version :: archive_version where
  "demo_version \<equiv> investigation_version demo_later 5"

lemma demo_version_found: "bi_found (av_header demo_version)" "av_evidence demo_version = 5"
  using demo_later_block by (simp_all add: investigation_version_def version_header demo_block_def)

lemma demo_version_status: "bi_status (av_header demo_version) = ''passed''"
  by code_simp

theorem cached_report_is_fresh_witness:
  "with_catalogue demo_entry demo_version = block_investigation demo_later 5 10 1
     \<and> bi_status (block_investigation demo_later 5 10 1) = ''passed''"
proof -
  have w: "with_catalogue demo_entry demo_version = block_investigation demo_later 5 10 1"
    by (rule cached_report_is_fresh [OF demo_reachable demo_later_run _ refl refl])
      (simp_all add: demo_entry_found demo_version_found)
  moreover have "bi_status (with_catalogue demo_entry demo_version) = ''passed''"
    by (simp add: with_catalogue_def demo_version_status)
  ultimately show ?thesis by simp
qed

text \<open>Round selections are canonical.  A query is accepted exactly when no parameter is repeated, its
  round is absent, \<open>latest\<close> or the canonical decimal text of a round up to the 32-bit limit, and its
  comparison is absent or such a text; the selection is then the one these texts denote.\<close>

theorem round_selection_canonical:
  "parse_round_selection q = Inr sel \<longleftrightarrow>
     list_all (\<lambda>k. \<not> q_repeated q k) [''view'', ''round'', ''compare'', ''capture'']
     \<and> (case map_of q ''round'' of
          None \<Rightarrow> sl_latest sel \<and> sl_round sel = 0
        | Some (raw, vs) \<Rightarrow>
            if raw = ''latest'' then sl_latest sel \<and> sl_round sel = 0
            else \<not> sl_latest sel \<and> 0 \<le> sl_round sel \<and> sl_round sel \<le> 2147483647
                 \<and> raw = format_int (sl_round sel))
     \<and> (case map_of q ''compare'' of
          None \<Rightarrow> sl_comparison sel = None
        | Some (raw, vs) \<Rightarrow>
            (case sl_comparison sel of None \<Rightarrow> False
             | Some n \<Rightarrow> 0 \<le> n \<and> n \<le> 2147483647 \<and> raw = format_int n))"
proof -
  have "format_int n \<noteq> ''''" for n using dec_nat_digits by (simp add: format_int_def)
  then have nonempty: "format_int n \<noteq> ''''" "'''' \<noteq> format_int n" for n by metis+
  have round: "parse_round raw = Inr n \<longleftrightarrow> 0 \<le> n \<and> n \<le> 2147483647 \<and> raw = format_int n" for raw n
  proof
    assume "parse_round raw = Inr n"
    then show "0 \<le> n \<and> n \<le> 2147483647 \<and> raw = format_int n"
      by (auto simp: parse_round_def split: option.splits if_splits)
  next
    assume n: "0 \<le> n \<and> n \<le> 2147483647 \<and> raw = format_int n"
    then have "parse_int64 raw = Some n" using parse_int64_format [of n] by (simp add: int64_min_def int64_max_def)
    with n show "parse_round raw = Inr n" by (simp add: parse_round_def)
  qed
  have comparison: "parse_comparison q s = Inr sel \<longleftrightarrow> sl_latest sel = sl_latest s \<and> sl_round sel = sl_round s
      \<and> (case map_of q ''compare'' of
          None \<Rightarrow> sl_comparison sel = sl_comparison s
        | Some (raw, vs) \<Rightarrow>
            (case sl_comparison sel of None \<Rightarrow> False
             | Some n \<Rightarrow> 0 \<le> n \<and> n \<le> 2147483647 \<and> raw = format_int n))" for s :: round_selection
  proof (cases "map_of q ''compare''")
    case None
    then show ?thesis by (auto simp: parse_comparison_def)
  next
    case (Some x)
    obtain raw vs where x: "x = (raw, vs)" by fastforce
    show ?thesis
    proof (cases "parse_round raw")
      case (Inl err)
      then have "\<not> (0 \<le> n \<and> n \<le> 2147483647 \<and> raw = format_int n)" for n using round [of raw n] by auto
      with Inl Some x show ?thesis by (auto simp: parse_comparison_def split: option.split)
    next
      case (Inr n)
      with round [of raw n] Some x show ?thesis by (cases sel; cases s) (auto simp: parse_comparison_def split: option.split)
    qed
  qed
  have find: "find (q_repeated q) ks = None \<longleftrightarrow> list_all (\<lambda>k. \<not> q_repeated q k) ks" for ks
    by (auto simp: find_None_iff list_all_iff)
  show ?thesis
  proof (cases "list_all (\<lambda>k. \<not> q_repeated q k) [''view'', ''round'', ''compare'', ''capture'']")
    case False
    then obtain k where "find (q_repeated q) [''view'', ''round'', ''compare'', ''capture''] = Some k"
      unfolding find [symmetric] by blast
    with False show ?thesis by (simp only: parse_round_selection_def Let_def) auto
  next
    case True
    then have found: "find (q_repeated q) [''view'', ''round'', ''compare'', ''capture''] = None"
      unfolding find .
    show ?thesis
    proof (cases "map_of q ''round''")
      case None
      with True found comparison show ?thesis
        by (auto simp: parse_round_selection_def q_get_def q_has_def split: option.splits)
    next
      case (Some x)
      obtain raw vs where x: "x = (raw, vs)" by fastforce
      show ?thesis
      proof (cases "raw = '''' \<or> raw = ''latest''")
        case True': True
        with True found comparison Some x nonempty show ?thesis
          by (auto simp: parse_round_selection_def q_get_def q_has_def split: option.splits)
      next
        case False
        show ?thesis
        proof (cases "parse_round raw")
          case (Inl err)
          then have "\<not> (0 \<le> n \<and> n \<le> 2147483647 \<and> raw = format_int n)" for n using round [of raw n] by auto
          with Inl False True found Some x show ?thesis
            by (auto simp: parse_round_selection_def q_get_def q_has_def)
        next
          case (Inr n)
          with round [of raw n] False True found comparison Some x show ?thesis
            by (auto simp: parse_round_selection_def q_get_def q_has_def split: option.splits)
        qed
      qed
    qed
  qed
qed

end
