(* ===== verification/Rounds_Cache_Props.thy ===== *)
theory Rounds_Cache_Props
  imports Rounds_Cache Rounds_Props
begin

text \<open>
  The cache of round reports: its byte count is exact and bounded over every interleaving, its eviction
  loop ends, and every body it hands out is the report of the request's entry and version.
\<close>

section \<open>Sums over the entries\<close>

lemma gput_twice: "gput i a (gput i b m) = gput i a m"
  by (induction m) auto

lemma gmap_all_single: "gmap_all P [(k, v)] = P k v"
  by (simp add: gmap_all_def)

lemma gput_sum_list:
  "map_of m k = None \<Longrightarrow> (\<Sum>(k, v) \<leftarrow> gput k v m. f v) = (\<Sum>(k, v) \<leftarrow> m. f v) + (f v :: int)"
  by (induction m) (auto split: if_splits)

abbreviation entry_sum :: "('i \<Rightarrow> int) \<Rightarrow> (int, 'i) gomap \<Rightarrow> int" where
  "entry_sum f m \<equiv> (\<Sum>(h, i) \<leftarrow> m. f i)"

lemma gdel_absent: "h \<notin> fst ` set m \<Longrightarrow> gdel h m = m"
  by (induction m) auto

lemma entry_sum_gdel:
  "gmap_ok m \<Longrightarrow> map_of m h = Some i \<Longrightarrow> entry_sum f (gdel h m) = entry_sum f m - f i"
proof (induction m)
  case (Cons x m)
  obtain k j where x: "x = (k, j)" by fastforce
  show ?case
  proof (cases "k = h")
    case True
    with Cons.prems x gdel_absent [of h m] show ?thesis by simp
  next
    case False
    with Cons x show ?thesis by simp
  qed
qed simp

lemma entry_sum_gput: "map_of m h = None \<Longrightarrow> entry_sum f (gput h i m) = entry_sum f m + f i"
  by (rule gput_sum_list)

lemma entry_sum_cong:
  "(\<And>h i. (h, i) \<in> set m \<Longrightarrow> f' i = f i) \<Longrightarrow> entry_sum f' m = entry_sum f m"
  by (rule arg_cong [of _ _ sum_list], rule map_cong) auto

lemma entry_sum_change:
  assumes "gmap_ok m" and "map_of m h = Some i" and "\<And>h' i'. map_of m h' = Some i' \<Longrightarrow> h' \<noteq> h \<Longrightarrow> f' i' = f i'"
  shows "entry_sum f' m = entry_sum f m + (f' i - f i)"
proof -
  have "entry_sum f' (gdel h m) = entry_sum f (gdel h m)"
    by (rule entry_sum_cong) (use assms(1,3) in \<open>auto simp: AList.delete_eq\<close>)
  with entry_sum_gdel [OF assms(1,2), of f'] entry_sum_gdel [OF assms(1,2), of f] show ?thesis by simp
qed

lemma entry_sum_nonneg: "(\<And>h i. (h, i) \<in> set m \<Longrightarrow> 0 \<le> f i) \<Longrightarrow> 0 \<le> entry_sum f m"
  by (rule sum_list_nonneg) auto

section \<open>The invariant\<close>

definition entry_sized :: "rounds_entry \<Rightarrow> bool" where
  "entry_sized e \<longleftrightarrow>
     gmap_ok (rn_variants e) \<and> length (rn_variants e) \<le> 8 \<and> variant_bytes e \<le> rn_size e"

definition cache_inv :: "rounds_cache \<Rightarrow> bool" where
  "cache_inv c \<longleftrightarrow>
     gmap_ok (rc_heap c) \<and> gmap_all (\<lambda>i e. i < rc_next c \<and> entry_sized e) (rc_heap c)
     \<and> gmap_ok (rc_entries c)
     \<and> gmap_all (\<lambda>h i. \<exists>e. map_of (rc_heap c) i = Some e \<and> bi_height (rn_report e) = h \<and> bi_found (rn_report e))
         (rc_entries c)
     \<and> rc_bytes c = entry_sum (size_at c) (rc_entries c)"

definition cache_bounded :: "rounds_cache \<Rightarrow> bool" where
  "cache_bounded c \<longleftrightarrow> rc_bytes c \<le> rounds_cache_bytes \<and> length (rc_entries c) \<le> rounds_cache_entries"

lemma variant_bytes_nonneg: "0 \<le> variant_bytes e"
  unfolding variant_bytes_def by (rule sum_list_nonneg) auto

lemma cache_inv_entry:
  assumes "cache_inv c" and "map_of (rc_entries c) h = Some i"
  shows "\<exists>e. map_of (rc_heap c) i = Some e \<and> bi_height (rn_report e) = h \<and> bi_found (rn_report e) \<and> entry_sized e"
proof -
  from assms obtain e where e: "map_of (rc_heap c) i = Some e" "bi_height (rn_report e) = h" "bi_found (rn_report e)"
    using gmap_all_lookup [of _ "rc_entries c" h i] unfolding cache_inv_def by blast
  with assms gmap_all_lookup [of _ "rc_heap c" i e] show ?thesis unfolding cache_inv_def by blast
qed

lemma cache_inv_heap: "cache_inv c \<Longrightarrow> map_of (rc_heap c) i = Some e \<Longrightarrow> i < rc_next c \<and> entry_sized e"
  unfolding cache_inv_def using gmap_all_lookup [of _ "rc_heap c" i e] by blast

lemma size_at_nonneg: "cache_inv c \<Longrightarrow> 0 \<le> size_at c i"
proof (cases "map_of (rc_heap c) i")
  case (Some e)
  assume "cache_inv c"
  from cache_inv_heap [OF this Some] variant_bytes_nonneg [of e] Some show ?thesis
    by (simp add: size_at_def entry_sized_def)
qed (simp add: size_at_def)

lemma remove_locked_sel [simp]:
  "rc_heap (remove_locked h c) = rc_heap c" "rc_next (remove_locked h c) = rc_next c"
  "rc_flights (remove_locked h c) = rc_flights c" "rc_lanes (remove_locked h c) = rc_lanes c"
  "size_at (remove_locked h c) = size_at c"
  by (auto simp: remove_locked_def size_at_def fun_eq_iff split: option.split)

lemma remove_locked_entries: "rc_entries (remove_locked h c) = gdel h (rc_entries c)"
proof (cases "map_of (rc_entries c) h")
  case None
  then have "h \<notin> fst ` set (rc_entries c)" by (simp add: map_of_eq_None_iff)
  then have "gdel h (rc_entries c) = rc_entries c" by (rule gdel_absent)
  with None show ?thesis by (simp add: remove_locked_def)
qed (simp add: remove_locked_def)

lemma remove_locked_inv:
  assumes inv: "cache_inv c"
  shows "cache_inv (remove_locked h c) \<and> rc_bytes (remove_locked h c) \<le> rc_bytes c"
proof -
  have "rc_bytes (remove_locked h c) = entry_sum (size_at c) (gdel h (rc_entries c)) \<and> rc_bytes (remove_locked h c) \<le> rc_bytes c"
  proof (cases "map_of (rc_entries c) h")
    case None
    then have "h \<notin> fst ` set (rc_entries c)" by (simp add: map_of_eq_None_iff)
    then have "gdel h (rc_entries c) = rc_entries c" by (rule gdel_absent)
    with None inv show ?thesis by (simp add: remove_locked_def cache_inv_def)
  next
    case (Some i)
    with inv size_at_nonneg [OF inv, of i] entry_sum_gdel [of "rc_entries c" h i "size_at c"] show ?thesis
      by (simp add: remove_locked_def cache_inv_def)
  qed
  with inv show ?thesis
    by (auto simp: cache_inv_def remove_locked_entries intro!: inv_intro)
qed

lemma oldest_entry_mem: "rc_entries c \<noteq> [] \<Longrightarrow> oldest_entry c \<in> fst ` set (rc_entries c)"
proof -
  let ?f = "\<lambda>(height, i) (oldest, stamp). if stamp = 0 \<or> used_at c i < stamp then (height, used_at c i) else (oldest, stamp)"
  have keep: "fst (fold ?f m s) \<in> insert (fst s) (fst ` set m)" for m s
  proof (induction m arbitrary: s)
    case (Cons x m)
    have "fst (?f x s) \<in> {fst x, fst s}" by (cases x; cases s) auto
    with Cons.IH [of "?f x s"] show ?case by auto
  qed simp
  assume "rc_entries c \<noteq> []"
  then obtain x m where m: "rc_entries c = x # m" by (cases "rc_entries c") auto
  have "fst (?f x (0, 0)) = fst x" by (cases x) simp
  with keep [of m "?f x (0, 0)"] m show ?thesis by (simp add: oldest_entry_def)
qed

text \<open>The eviction loop ends: an empty cache has no bytes.\<close>

lemma trim_ok:
  "cache_inv c \<Longrightarrow> \<exists>c'. trim_locked c = Some c' \<and> cache_inv c' \<and> cache_bounded c' \<and> rc_heap c' = rc_heap c
     \<and> rc_next c' = rc_next c \<and> rc_flights c' = rc_flights c \<and> rc_lanes c' = rc_lanes c"
proof (induction "length (rc_entries c)" arbitrary: c rule: less_induct)
  case less
  show ?case
  proof (cases "rc_bytes c > rounds_cache_bytes \<or> length (rc_entries c) > rounds_cache_entries")
    case False
    with less.prems show ?thesis by (simp add: trim_locked.simps [of c] cache_bounded_def)
  next
    case True
    have ne: "rc_entries c \<noteq> []"
    proof
      assume "rc_entries c = []"
      then have "rc_bytes c = 0" using less.prems by (simp add: cache_inv_def)
      with True \<open>rc_entries c = []\<close> show False by (simp add: rounds_cache_bytes_def)
    qed
    let ?c = "remove_locked (oldest_entry c) c"
    have "gmap_ok (rc_entries c)" using less.prems by (simp add: cache_inv_def)
    from length_gdel [OF this, of "oldest_entry c"] oldest_entry_mem [OF ne] ne
    have "length (rc_entries ?c) < length (rc_entries c)" by (simp add: remove_locked_entries)
    from less.hyps [OF this conjunct1 [OF remove_locked_inv [OF less.prems]]] True show ?thesis
      by (simp add: trim_locked.simps [of c])
  qed
qed

section \<open>Changing an entry\<close>

lemma put_entry_inv:
  assumes inv: "cache_inv c" and e: "map_of (rc_heap c) i = Some e" and e': "entry_sized e'" "rn_report e' = rn_report e"
    and listed: "rn_size e' \<noteq> rn_size e \<Longrightarrow> map_of (rc_entries c) (bi_height (rn_report e)) = Some i"
    and b: "b = rc_bytes c + (rn_size e' - rn_size e)"
  shows "cache_inv (c\<lparr>rc_heap := gput i e' (rc_heap c), rc_bytes := b\<rparr>)"
proof -
  let ?c = "c\<lparr>rc_heap := gput i e' (rc_heap c), rc_bytes := b\<rparr>"
  have size: "size_at ?c j = (if j = i then rn_size e' else size_at c j)" for j
    by (simp add: size_at_def map_of_gput)
  have ok: "gmap_ok (rc_entries c)" using inv by (simp add: cache_inv_def)
  have "entry_sum (size_at ?c) (rc_entries c) = entry_sum (size_at c) (rc_entries c) + (rn_size e' - rn_size e)"
  proof (cases "rn_size e' = rn_size e")
    case True
    have "size_at ?c = size_at c"
    proof (rule ext)
      fix j
      show "size_at ?c j = size_at c j" unfolding size using e True by (simp add: size_at_def)
    qed
    with True show ?thesis by simp
  next
    case False
    note l = listed [OF this]
    have "size_at ?c i' = size_at c i'" if "map_of (rc_entries c) h' = Some i'" "h' \<noteq> bi_height (rn_report e)" for h' i'
      using cache_inv_entry [OF inv that(1)] that(2) e by (auto simp: size)
    note sum = entry_sum_change [where f' = "size_at ?c" and f = "size_at c", OF ok l this]
    have "size_at ?c i = rn_size e'" unfolding size by simp
    moreover have "size_at c i = rn_size e" using e by (simp add: size_at_def)
    ultimately show ?thesis using sum by simp
  qed
  moreover have "i < rc_next c" using inv e gmap_all_lookup [of _ "rc_heap c" i e] unfolding cache_inv_def by blast
  moreover have "gmap_all (\<lambda>h j. \<exists>x. map_of (gput i e' (rc_heap c)) j = Some x \<and> bi_height (rn_report x) = h
      \<and> bi_found (rn_report x)) (rc_entries c)"
  proof (rule gmap_all_mono)
    show "gmap_all (\<lambda>h j. \<exists>x. map_of (rc_heap c) j = Some x \<and> bi_height (rn_report x) = h \<and> bi_found (rn_report x))
        (rc_entries c)"
      using inv unfolding cache_inv_def by blast
  qed (use e e'(2) in \<open>auto simp: map_of_gput\<close>)
  ultimately show ?thesis
    using inv e'(1) b by (auto simp: cache_inv_def intro!: inv_intro)
qed

lemma touch_entry_inv:
  assumes "cache_inv c" and "map_of (rc_heap c) i = Some e" and "entry_sized e'" and "rn_report e' = rn_report e"
    and "rn_size e' = rn_size e"
  shows "cache_inv (c\<lparr>rc_heap := gput i e' (rc_heap c)\<rparr>)"
  using put_entry_inv [OF assms(1-4), of "rc_bytes c"] assms(5) by simp

lemma allocate_inv:
  assumes inv: "cache_inv c" and e: "entry_sized e"
  shows "cache_inv (allocate e c)"
proof -
  have fresh: "map_of (rc_heap c) (rc_next c) = None"
  proof (cases "map_of (rc_heap c) (rc_next c)")
    case (Some x)
    with cache_inv_heap [OF inv Some] show ?thesis by simp
  qed simp
  have other: "j \<noteq> rc_next c" if "map_of (rc_entries c) h = Some j" for h j
    using cache_inv_entry [OF inv that] fresh by auto
  have ok: "gmap_ok (rc_entries c)" using inv by (simp add: cache_inv_def)
  have "entry_sum (size_at (allocate e c)) (rc_entries c) = entry_sum (size_at c) (rc_entries c)"
    by (rule entry_sum_cong) (use other ok in \<open>auto simp: size_at_def allocate_def map_of_gput\<close>)
  moreover have "gmap_all (\<lambda>h j. \<exists>x. map_of (gput (rc_next c) e (rc_heap c)) j = Some x \<and> bi_height (rn_report x) = h
      \<and> bi_found (rn_report x)) (rc_entries c)"
    unfolding gmap_all_iff [OF ok] using cache_inv_entry [OF inv] other by (fastforce simp: map_of_gput)
  ultimately show ?thesis
    using inv e by (auto simp: cache_inv_def allocate_def intro!: inv_intro intro: less_SucI elim: gmap_all_mono)
qed

lemma allocate_fresh: "cache_inv c \<Longrightarrow> map_of (rc_entries c) h \<noteq> Some (rc_next c)"
proof
  assume "cache_inv c" "map_of (rc_entries c) h = Some (rc_next c)"
  from cache_inv_entry [OF this] obtain e where "map_of (rc_heap c) (rc_next c) = Some e" by blast
  from cache_inv_heap [OF \<open>cache_inv c\<close> this] show False by simp
qed

section \<open>Flights and exactness\<close>

text \<open>A variant that is being built is not there yet.\<close>

definition flights_apart :: "rounds_entry \<Rightarrow> bool" where
  "flights_apart e \<longleftrightarrow> list_all (\<lambda>k. map_of (rn_variants e) k = None) (rn_flights e)"

lemma core_update [simp]:
  "granted trk (e\<lparr>rn_used := u\<rparr>) = granted trk e"
  "granted trk (e\<lparr>rn_variants := vs\<rparr>) = granted trk e"
  "granted trk (e\<lparr>rn_flights := fs\<rparr>) = granted trk e"
  "granted trk (e\<lparr>rn_size := n\<rparr>) = granted trk e"
  "view_key epoch (e\<lparr>rn_used := u\<rparr>) = view_key epoch e"
  "view_key epoch (e\<lparr>rn_variants := vs\<rparr>) = view_key epoch e"
  "view_key epoch (e\<lparr>rn_flights := fs\<rparr>) = view_key epoch e"
  "view_key epoch (e\<lparr>rn_size := n\<rparr>) = view_key epoch e"
  "view_body mj mc epoch (e\<lparr>rn_used := u\<rparr>) = view_body mj mc epoch e"
  "view_body mj mc epoch (e\<lparr>rn_variants := vs\<rparr>) = view_body mj mc epoch e"
  "view_body mj mc epoch (e\<lparr>rn_flights := fs\<rparr>) = view_body mj mc epoch e"
  "view_body mj mc epoch (e\<lparr>rn_size := n\<rparr>) = view_body mj mc epoch e"
  "built_from t h (e\<lparr>rn_used := u\<rparr>) = built_from t h e"
  "built_from t h (e\<lparr>rn_variants := vs\<rparr>) = built_from t h e"
  "built_from t h (e\<lparr>rn_flights := fs\<rparr>) = built_from t h e"
  "built_from t h (e\<lparr>rn_size := n\<rparr>) = built_from t h e"
  by (simp_all add: fun_eq_iff granted_def serves_def can_coalesce_def view_key_def compact_key_def full_key_def
      view_body_def compact_report_def with_catalogue_def report_revision_def built_from_def Let_def
      split: view_kind.split)

definition variant_exact ::
  "(investigation \<Rightarrow> string) \<Rightarrow> (compact_investigation \<Rightarrow> string) \<Rightarrow> string \<Rightarrow> (nat \<Rightarrow> tracker) \<Rightarrow> rounds_entry
     \<Rightarrow> string \<Rightarrow> encoded \<Rightarrow> bool" where
  "variant_exact mj mc epoch trk e key ec \<longleftrightarrow>
     bi_found (rn_report e)
     \<and> (\<exists>k now kind. granted trk e k now
          \<and> key = view_key epoch e (investigation_version (trk k) (bi_height (rn_report e))) kind
          \<and> ec_body ec = view_body mj mc epoch e (investigation_version (trk k) (bi_height (rn_report e))) kind)"

definition entry_exact ::
  "(investigation \<Rightarrow> string) \<Rightarrow> (compact_investigation \<Rightarrow> string) \<Rightarrow> string \<Rightarrow> (nat \<Rightarrow> tracker) \<Rightarrow> rounds_entry \<Rightarrow> bool"
  where
  "entry_exact mj mc epoch trk e \<longleftrightarrow>
     flights_apart e \<and> (bi_found (rn_report e) \<longrightarrow> (\<exists>j. built_from (trk j) (bi_height (rn_report e)) e))
     \<and> gmap_all (variant_exact mj mc epoch trk e) (rn_variants e)"

lemma variant_exact_update [simp]:
  "variant_exact mj mc epoch trk (e\<lparr>rn_used := u\<rparr>) = variant_exact mj mc epoch trk e"
  "variant_exact mj mc epoch trk (e\<lparr>rn_variants := vs\<rparr>) = variant_exact mj mc epoch trk e"
  "variant_exact mj mc epoch trk (e\<lparr>rn_flights := fs\<rparr>) = variant_exact mj mc epoch trk e"
  "variant_exact mj mc epoch trk (e\<lparr>rn_size := n\<rparr>) = variant_exact mj mc epoch trk e"
  by (simp_all add: fun_eq_iff variant_exact_def)

text \<open>The two keys of a full and a compact view differ in their number of colons.\<close>

lemma count_colon_free: "CHR '':'' \<notin> set s \<Longrightarrow> count_list s (CHR '':'') = 0"
  by (rule count_notin)

lemma full_key_not_compact: "full_key e v \<noteq> compact_key epoch e' v' sel"
proof
  assume "full_key e v = compact_key epoch e' v' sel"
  then have "count_list (full_key e v) (CHR '':'') = count_list (compact_key epoch e' v' sel) (CHR '':'')" by simp
  moreover have "count_list (full_key e v) (CHR '':'') = 2"
    by (simp add: full_key_def count_colon_free dec_nat_no_colon)
  moreover have "count_list (compact_key epoch e' v' sel) (CHR '':'') \<ge> 5"
    by (simp add: compact_key_def)
  ultimately show False by simp
qed

lemma full_key_inject: "full_key e v = full_key e v' \<Longrightarrow> av_catalogue v = av_catalogue v'"
  by (simp add: full_key_def dec_nat_inject word_unat_eq_iff)

lemma view_key_catalogue:
  "view_key epoch e v kind = view_key epoch e v' kind' \<Longrightarrow> av_catalogue v = av_catalogue v' \<and> kind = kind'"
  by (cases kind; cases kind')
    (auto simp: view_key_def full_key_not_compact full_key_not_compact [symmetric] dest: compact_key_inject full_key_inject)

lemma same_key_same_body:
  assumes run: "short_run cfg ops" and b: "built_from (tracker_at cfg ops j) (bi_height (rn_report e)) e"
    and f: "bi_found (rn_report e)" and g: "granted (tracker_at cfg ops) e k now" "granted (tracker_at cfg ops) e m now'"
    and key: "view_key epoch e (investigation_version (tracker_at cfg ops k) (bi_height (rn_report e))) kind
            = view_key epoch e (investigation_version (tracker_at cfg ops m) (bi_height (rn_report e))) kind'"
  shows "view_body mj mc epoch e (investigation_version (tracker_at cfg ops k) (bi_height (rn_report e))) kind
       = view_body mj mc epoch e (investigation_version (tracker_at cfg ops m) (bi_height (rn_report e))) kind'"
proof -
  let ?h = "bi_height (rn_report e)"
  from view_key_catalogue [OF key]
  have cat: "tk_catalogue (tracker_at cfg ops k) = tk_catalogue (tracker_at cfg ops m)" and kind: "kind = kind'"
    by (simp_all add: investigation_version_def)
  have "bi_found (investigation_header (tracker_at cfg ops k) ?h)" "serves True now e (investigation_version (tracker_at cfg ops k) ?h)"
    "bi_found (investigation_header (tracker_at cfg ops m) ?h)" "serves True now' e (investigation_version (tracker_at cfg ops m) ?h)"
    using g f by (simp_all add: granted_def Let_def investigation_version_def)
  from served_views_agree [OF run b f this cat]
  have "with_catalogue e (investigation_version (tracker_at cfg ops k) ?h)
      = with_catalogue e (investigation_version (tracker_at cfg ops m) ?h)" .
  then show ?thesis
    using kind cat
    by (simp add: view_body_def compact_report_def report_revision_def investigation_version_def split: view_kind.split)
qed

section \<open>The steps keep the invariant\<close>

definition cache_good ::
  "(investigation \<Rightarrow> string) \<Rightarrow> (compact_investigation \<Rightarrow> string) \<Rightarrow> string \<Rightarrow> (nat \<Rightarrow> tracker) \<Rightarrow> rounds_cache \<Rightarrow> bool"
  where
  "cache_good mj mc epoch trk c \<longleftrightarrow>
     cache_inv c \<and> cache_bounded c \<and> gmap_all (\<lambda>i. entry_exact mj mc epoch trk) (rc_heap c)"

lemma good_entry:
  "cache_good mj mc epoch trk c \<Longrightarrow> map_of (rc_heap c) i = Some e \<Longrightarrow> entry_exact mj mc epoch trk e \<and> entry_sized e"
  unfolding cache_good_def using gmap_all_lookup [of _ "rc_heap c" i e] cache_inv_heap by blast

lemma good_touch:
  assumes "cache_good mj mc epoch trk c" and "map_of (rc_heap c) i = Some e" and "entry_sized e'"
    and "rn_report e' = rn_report e" and "rn_size e' = rn_size e" and "entry_exact mj mc epoch trk e'"
  shows "cache_good mj mc epoch trk (c\<lparr>rc_heap := gput i e' (rc_heap c)\<rparr>)"
  using assms touch_entry_inv [of c i e e']
  by (auto simp: cache_good_def cache_bounded_def intro!: inv_intro)

lemma good_trim:
  assumes "cache_inv c" and "gmap_all (\<lambda>i. entry_exact mj mc epoch trk) (rc_heap c)"
  shows "\<exists>c'. trim_locked c = Some c' \<and> cache_good mj mc epoch trk c' \<and> rc_heap c' = rc_heap c"
  using trim_ok [OF assms(1)] assms(2) by (auto simp: cache_good_def)

lemma good_frame:
  "cache_good mj mc epoch trk (c\<lparr>rc_flights := fs\<rparr>) = cache_good mj mc epoch trk c"
  "cache_good mj mc epoch trk (c\<lparr>rc_lanes := ls\<rparr>) = cache_good mj mc epoch trk c"
proof -
  have "size_at (c\<lparr>rc_flights := fs\<rparr>) = size_at c" "size_at (c\<lparr>rc_lanes := ls\<rparr>) = size_at c"
    by (simp_all add: size_at_def fun_eq_iff)
  then show "cache_good mj mc epoch trk (c\<lparr>rc_flights := fs\<rparr>) = cache_good mj mc epoch trk c"
    "cache_good mj mc epoch trk (c\<lparr>rc_lanes := ls\<rparr>) = cache_good mj mc epoch trk c"
    by (simp_all add: cache_good_def cache_inv_def cache_bounded_def)
qed

lemma good_remove:
  assumes "cache_good mj mc epoch trk c"
  shows "cache_good mj mc epoch trk (remove_locked h c)"
  using assms remove_locked_inv [of c h] length_gdel_le [of h "rc_entries c"]
  by (auto simp: cache_good_def cache_bounded_def remove_locked_entries)

lemma good_allocate:
  assumes "cache_good mj mc epoch trk c" and "entry_sized e" and "entry_exact mj mc epoch trk e"
  shows "cache_good mj mc epoch trk (allocate e c)"
  using assms allocate_inv [of c e]
  by (auto simp: cache_good_def cache_bounded_def allocate_def intro!: inv_intro)

lemma fresh_entry_sized: "rn_variants e = [] \<Longrightarrow> 0 \<le> rn_size e \<Longrightarrow> entry_sized e"
  by (simp add: entry_sized_def variant_bytes_def)

lemma get_start_good:
  assumes good: "cache_good mj mc epoch trk c"
  shows "cache_good mj mc epoch trk (get_start marshal h v co now c)"
proof (cases "bi_found (av_header v)")
  case False
  have "entry_exact mj mc epoch trk (missing_entry marshal v)" "entry_sized (missing_entry marshal v)"
    using False by (simp_all add: entry_exact_def flights_apart_def missing_entry_def fresh_entry_sized)
  with good_allocate [OF good_remove [OF good]] False show ?thesis by (simp add: get_start_def)
next
  case True
  have hit: "cache_good mj mc epoch trk (c\<lparr>rc_heap := gput i (e\<lparr>rn_used := now\<rparr>) (rc_heap c)\<rparr>)"
    if "map_of (rc_heap c) i = Some e" for i e
    by (rule good_touch [OF good that])
      (use good_entry [OF good that] in \<open>simp_all add: entry_sized_def variant_bytes_def entry_exact_def flights_apart_def\<close>)
  with True good show ?thesis
    by (auto simp: get_start_def good_frame split: option.split bind_split)
qed

text \<open>A built entry takes the place of the height's previous one.\<close>

lemma add_entry_inv:
  assumes inv: "cache_inv c" and new: "map_of (rc_entries c) h = None" and e: "map_of (rc_heap c) i = Some e"
    and f: "bi_height (rn_report e) = h" "bi_found (rn_report e)"
  shows "cache_inv (c\<lparr>rc_entries := gput h i (rc_entries c), rc_bytes := rc_bytes c + rn_size e\<rparr>)"
proof -
  have size: "size_at (c\<lparr>rc_entries := m, rc_bytes := b\<rparr>) = size_at c" for m b
    by (simp add: size_at_def fun_eq_iff)
  have "entry_sum (size_at c) (gput h i (rc_entries c)) = rc_bytes c + rn_size e"
    using inv entry_sum_gput [OF new, of "size_at c" i] e by (simp add: cache_inv_def size_at_def)
  moreover have "gmap_all (\<lambda>h i. \<exists>e. map_of (rc_heap c) i = Some e \<and> bi_height (rn_report e) = h \<and> bi_found (rn_report e))
      (gput h i (rc_entries c))"
    by (rule gmap_all_gput) (use inv e f in \<open>unfold cache_inv_def, blast+\<close>)
  ultimately show ?thesis
    using inv unfolding cache_inv_def by (simp add: size)
qed

lemma built_entry_props:
  "rn_variants (built_entry mj c b u) = []" "rn_flights (built_entry mj c b u) = []"
  "0 \<le> rn_size (built_entry mj c b u)"
  by (simp_all add: built_entry_def Let_def)

lemma built_entry_height: "bi_height (rn_report (built_entry mj (capture_investigation t h n d) b u)) = h"
  by (auto simp: built_entry_def build_def capture_investigation_def investigation_version_def investigation_header_def
      not_observed_header_def Let_def split: option.split)

lemma publish_good:
  assumes good: "cache_good mj mc epoch trk c"
    and e: "e = built_entry mj (capture_investigation (trk k) h n d) b u"
  shows "\<exists>c'. publish h e latest c = Some c' \<and> cache_good mj mc epoch trk c'"
proof -
  have ex: "entry_exact mj mc epoch trk e" and sized: "entry_sized e"
    unfolding e using built_from_entry [of "trk k" h mj n d b u]
    by (auto simp: entry_exact_def flights_apart_def built_entry_props fresh_entry_sized built_entry_height)
  note alloc = good_allocate [OF good sized ex]
  let ?a = "allocate e c"
  let ?c1 = "remove_locked h ?a"
  have good1: "cache_good mj mc epoch trk ?c1" by (rule good_remove [OF alloc])
  have "\<exists>c'. trim_locked (?c1\<lparr>rc_entries := gput h (rc_next c) (rc_entries ?c1), rc_bytes := rc_bytes ?c1 + rn_size e\<rparr>) = Some c'
      \<and> cache_good mj mc epoch trk c'" if found: "bi_found (rn_report e)"
  proof -
    have "map_of (rc_entries ?c1) h = None" by (simp add: remove_locked_entries map_of_gdel)
    moreover have "map_of (rc_heap ?c1) (rc_next c) = Some e" by (simp add: allocate_def map_of_gput)
    moreover have "bi_height (rn_report e) = h" unfolding e by (rule built_entry_height)
    ultimately have "cache_inv (?c1\<lparr>rc_entries := gput h (rc_next c) (rc_entries ?c1), rc_bytes := rc_bytes ?c1 + rn_size e\<rparr>)"
      using add_entry_inv good1 found by (simp add: cache_good_def)
    from good_trim [OF this, of mj mc epoch trk] good1 show ?thesis by (auto simp: cache_good_def)
  qed
  with alloc show ?thesis by (auto simp: publish_def Let_def good_frame)
qed

lemma end_flight_good:
  assumes good: "cache_good mj mc epoch trk c"
  shows "cache_good mj mc epoch trk (end_flight i key c)"
proof (cases "map_of (rc_heap c) i")
  case None
  with good show ?thesis by (simp add: end_flight_def)
next
  case (Some e)
  have "cache_good mj mc epoch trk (c\<lparr>rc_heap := gput i (e\<lparr>rn_flights := removeAll key (rn_flights e)\<rparr>) (rc_heap c)\<rparr>)"
    by (rule good_touch [OF good Some])
      (use good_entry [OF good Some] in
        \<open>auto simp: entry_sized_def variant_bytes_def entry_exact_def flights_apart_def list_all_iff\<close>)
  with Some show ?thesis by (simp add: end_flight_def)
qed

text \<open>Storing a variant: the entry cleared if it is full, with the variant added, and its flight ended.\<close>

abbreviation cleared :: "rounds_entry \<Rightarrow> rounds_entry" where
  "cleared e \<equiv>
     (if length (rn_variants e) \<ge> rounds_cache_variants
      then e\<lparr>rn_variants := [], rn_size := rn_size e - variant_bytes e\<rparr> else e)"

abbreviation with_variant :: "string \<Rightarrow> encoded \<Rightarrow> rounds_entry \<Rightarrow> rounds_entry" where
  "with_variant key ec e \<equiv>
     e\<lparr>rn_variants := gput key ec (rn_variants e), rn_size := rn_size e + int (length (ec_body ec))\<rparr>"

lemma variant_bytes_gput:
  "map_of (rn_variants e) key = None \<Longrightarrow>
     variant_bytes (with_variant key ec e) = variant_bytes e + int (length (ec_body ec))"
  using gput_sum_list [of "rn_variants e" key "\<lambda>ec. int (length (ec_body ec))" ec] by (simp add: variant_bytes_def)

lemma cleared_sized: "entry_sized e \<Longrightarrow> entry_sized (cleared e) \<and> length (rn_variants (cleared e)) < 8"
  by (auto simp: entry_sized_def variant_bytes_def rounds_cache_variants_def)

lemma with_variant_sized:
  assumes "entry_sized e" and "length (rn_variants e) < 8" and "map_of (rn_variants e) key = None"
  shows "entry_sized (with_variant key ec e)"
  using assms variant_bytes_gput [OF assms(3), of ec] by (auto simp: entry_sized_def length_gput)

lemma store_variant_good:
  assumes good: "cache_good mj mc epoch trk c" and e: "map_of (rc_heap c) i = Some e"
    and key: "key \<in> set (rn_flights e)"
    and ec: "bi_found (rn_report e) \<Longrightarrow> variant_exact mj mc epoch trk e key ec"
  shows "\<exists>c'. store_variant i key ec c = Some c' \<and> cache_good mj mc epoch trk c'"
proof (cases "map_of (rc_entries c) (bi_height (rn_report e)) = Some i")
  case False
  with e end_flight_good [OF good] show ?thesis by (simp add: store_variant_def)
next
  case True
  have inv: "cache_inv c" and sized: "entry_sized e" and ex: "entry_exact mj mc epoch trk e"
    using good good_entry [OF good e] by (simp_all add: cache_good_def)
  have found: "bi_found (rn_report e)" using cache_inv_entry [OF inv True] e by auto
  have absent: "map_of (rn_variants (cleared e)) key = None"
    using ex key by (auto simp: entry_exact_def flights_apart_def list_all_iff)
  let ?e2 = "with_variant key ec (cleared e)"
  have sized2: "entry_sized ?e2"
    using cleared_sized [OF sized] absent by (intro with_variant_sized) simp_all
  let ?b = "rc_bytes c + (rn_size ?e2 - rn_size e)"
  have c2: "add_variant i key ec (clear_variants i e c) = c\<lparr>rc_heap := gput i ?e2 (rc_heap c), rc_bytes := ?b\<rparr>"
    using e by (simp add: add_variant_def clear_variants_def map_of_gput gput_twice)
  have "cache_inv (c\<lparr>rc_heap := gput i ?e2 (rc_heap c), rc_bytes := ?b\<rparr>)"
    by (rule put_entry_inv [OF inv e sized2]) (use True in simp_all)
  from trim_ok [OF this] obtain c3 where
    c3: "trim_locked (c\<lparr>rc_heap := gput i ?e2 (rc_heap c), rc_bytes := ?b\<rparr>) = Some c3" "cache_inv c3" "cache_bounded c3"
      "rc_heap c3 = gput i ?e2 (rc_heap c)"
    by auto
  let ?e3 = "?e2\<lparr>rn_flights := removeAll key (rn_flights e)\<rparr>"
  have at3: "map_of (rc_heap c3) i = Some ?e2" by (simp add: c3(4) map_of_gput)
  have f3: "end_flight i key c3 = c3\<lparr>rc_heap := gput i ?e3 (rc_heap c3)\<rparr>"
    using at3 by (simp add: end_flight_def)
  have "cache_inv (c3\<lparr>rc_heap := gput i ?e3 (rc_heap c3)\<rparr>)"
    by (rule touch_entry_inv [OF c3(2) at3]) (use sized2 in \<open>auto simp: entry_sized_def variant_bytes_def\<close>)
  moreover have "entry_exact mj mc epoch trk ?e3"
    using ex ec [OF found] found
    by (auto simp: gmap_all_single entry_exact_def flights_apart_def list_all_iff map_of_gput intro!: inv_intro)
  then have "gmap_all (\<lambda>i. entry_exact mj mc epoch trk) (gput i ?e3 (rc_heap c3))"
    using good unfolding c3(4) gput_twice by (auto simp: cache_good_def intro!: inv_intro)
  ultimately have "cache_good mj mc epoch trk (end_flight i key c3)"
    using c3(3) unfolding f3 by (simp add: cache_good_def cache_bounded_def)
  with c3(1) e True show ?thesis by (simp add: store_variant_def c2)
qed

definition exact_responses :: "responses \<Rightarrow> bool" where
  "exact_responses rs \<longleftrightarrow> list_all (\<lambda>(body, report). body = report) rs"

lemma cache_step_good:
  assumes run: "short_run cfg ops" and good: "cache_good mj mc epoch (tracker_at cfg ops) c"
  shows "\<exists>c' rs. cache_step mj mc sha epoch (tracker_at cfg ops) op c = Some (c', rs)
           \<and> cache_good mj mc epoch (tracker_at cfg ops) c' \<and> exact_responses rs"
proof (cases op)
  case (GetStart h k co now)
  then show ?thesis using get_start_good [OF good] by (simp add: exact_responses_def)
next
  case (GetDone h k n d b u m)
  then show ?thesis
    using publish_good [OF good refl, of h k n d b u "investigation_version (tracker_at cfg ops m) h"] good
    by (auto simp: exact_responses_def)
next
  case (GetFailed h)
  then show ?thesis using good by (simp add: exact_responses_def good_frame)
next
  case (EncodeStart i k now kind)
  show ?thesis
  proof (cases "map_of (rc_heap c) i")
    case None
    with EncodeStart good show ?thesis by (simp add: exact_responses_def)
  next
    case (Some e)
    let ?v = "investigation_version (tracker_at cfg ops k) (bi_height (rn_report e))"
    note ex = good_entry [OF good Some]
    show ?thesis
    proof (cases "granted (tracker_at cfg ops) e k now")
      case False
      with Some EncodeStart good show ?thesis by (simp add: exact_responses_def)
    next
      case granted: True
      show ?thesis
      proof (cases "map_of (rn_variants e) (view_key epoch e ?v kind)")
        case None
        have "cache_good mj mc epoch (tracker_at cfg ops)
            (c\<lparr>rc_heap := gput i (e\<lparr>rn_flights := view_key epoch e ?v kind # rn_flights e\<rparr>) (rc_heap c)\<rparr>)"
          by (rule good_touch [OF good Some])
            (use ex None in \<open>auto simp: entry_sized_def variant_bytes_def entry_exact_def flights_apart_def\<close>)
        with None granted Some EncodeStart good show ?thesis by (simp add: exact_responses_def Let_def)
      next
        case (Some hit)
        then have "variant_exact mj mc epoch (tracker_at cfg ops) e (view_key epoch e ?v kind) hit"
          using ex gmap_all_lookup [OF _ Some] by (auto simp: entry_exact_def)
        then obtain m now' kind' where f: "bi_found (rn_report e)"
          and m: "granted (tracker_at cfg ops) e m now'"
            "view_key epoch e ?v kind
             = view_key epoch e (investigation_version (tracker_at cfg ops m) (bi_height (rn_report e))) kind'"
            "ec_body hit
             = view_body mj mc epoch e (investigation_version (tracker_at cfg ops m) (bi_height (rn_report e))) kind'"
          unfolding variant_exact_def by blast
        obtain j where "built_from (tracker_at cfg ops j) (bi_height (rn_report e)) e"
          using ex f by (auto simp: entry_exact_def)
        from same_key_same_body [OF run this f granted m(1,2)] m(3)
        have "ec_body hit = view_body mj mc epoch e ?v kind" by simp
        with Some granted \<open>map_of (rc_heap c) i = Some e\<close> EncodeStart good show ?thesis
          by (simp add: exact_responses_def Let_def)
      qed
    qed
  qed
next
  case (EncodeDone i k now kind)
  show ?thesis
  proof (cases "map_of (rc_heap c) i")
    case None
    with EncodeDone good show ?thesis by (simp add: exact_responses_def)
  next
    case (Some e)
    let ?v = "investigation_version (tracker_at cfg ops k) (bi_height (rn_report e))"
    let ?key = "view_key epoch e ?v kind"
    show ?thesis
    proof (cases "granted (tracker_at cfg ops) e k now \<and> ?key \<in> set (rn_flights e)")
      case False
      with Some EncodeDone good show ?thesis by (auto simp: exact_responses_def Let_def)
    next
      case True
      have "variant_exact mj mc epoch (tracker_at cfg ops) e ?key (quoted_tag sha (view_body mj mc epoch e ?v kind))"
        if "bi_found (rn_report e)"
        unfolding variant_exact_def using that True by (auto simp: quoted_tag_def)
      from store_variant_good [OF good Some conjunct2 [OF True] this] True Some EncodeDone
      show ?thesis by (auto simp: exact_responses_def Let_def)
    qed
  qed
next
  case (EncodeFailed i k now kind)
  then show ?thesis using good end_flight_good [OF good] by (auto simp: exact_responses_def split: option.split)
next
  case (Admit l)
  then show ?thesis using good by (simp add: exact_responses_def admit_def good_frame)
next
  case (Release l)
  then show ?thesis using good by (simp add: exact_responses_def release_def good_frame)
qed

lemma new_cache_good: "cache_good mj mc epoch trk new_rounds_cache"
  by (simp add: cache_good_def cache_inv_def cache_bounded_def new_rounds_cache_def rounds_cache_bytes_def)

lemma run_cache_good:
  "short_run cfg tops \<Longrightarrow> cache_good mj mc epoch (tracker_at cfg tops) c \<Longrightarrow>
     \<exists>c' rs. run_cache mj mc sha epoch (tracker_at cfg tops) ops c = Some (c', rs)
       \<and> cache_good mj mc epoch (tracker_at cfg tops) c' \<and> exact_responses rs"
proof (induction ops arbitrary: c)
  case (Cons op ops)
  obtain c1 rs1 where 1: "cache_step mj mc sha epoch (tracker_at cfg tops) op c = Some (c1, rs1)"
      "cache_good mj mc epoch (tracker_at cfg tops) c1" "exact_responses rs1"
    using cache_step_good [OF Cons.prems, of sha op] by blast
  from Cons.IH [OF Cons.prems(1) 1(2)] 1 show ?case by (auto simp: exact_responses_def)
qed (simp add: exact_responses_def)

section \<open>Properties\<close>

text \<open>C24: the cache answers exactly.  For every run of the tracker and every interleaving of lookups,
  builds, encodings, failures and admissions that reads it, at any times, each body the cache hands out,
  fresh or cached, full or compact, is the encoding of the report for the request's entry, version and
  selection.\<close>

theorem cached_responses_exact:
  assumes "run_ops tops (new_tracker cfg) = Some (t, ks)" and "length tops < 144115188075855872"
  shows "\<exists>c rs. run_cache mj mc sha epoch (tracker_at cfg tops) ops new_rounds_cache = Some (c, rs)
           \<and> list_all (\<lambda>(body, report). body = report) rs"
proof -
  have "short_run cfg tops" using assms by (simp add: short_run_def)
  from run_cache_good [where mj = mj and mc = mc and epoch = epoch and sha = sha and ops = ops, OF this new_cache_good] show ?thesis
    by (auto simp: exact_responses_def)
qed

definition demo_cache_ops :: "cache_op list" where
  "demo_cache_ops =
     [GetStart 5 4 True 10, GetDone 5 4 10 0 11 11 4,
      EncodeStart 0 4 12 (CompactView \<lparr>sl_latest = True, sl_round = 0, sl_comparison = None\<rparr>),
      EncodeDone 0 4 12 (CompactView \<lparr>sl_latest = True, sl_round = 0, sl_comparison = None\<rparr>),
      EncodeStart 0 4 13 (CompactView \<lparr>sl_latest = True, sl_round = 0, sl_comparison = None\<rparr>),
      GetStart 6 4 False 14]"

theorem cached_responses_exact_witness:
  "\<exists>c rs. run_cache (\<lambda>r. bi_status r) ci_revision (\<lambda>b. b) ''e'' (tracker_at default_config demo_ops) demo_cache_ops
       new_rounds_cache = Some (c, rs) \<and> list_all (\<lambda>(body, report). body = report) rs"
  using cached_responses_exact [OF demo_run] by (simp add: demo_ops_def demo_prefix_def)

text \<open>C25: the cache is bounded and its eviction always ends.  Over the same interleavings its byte count
  is the sum of the sizes of the entries it lists, at most 64 mebibytes in at most 32 entries, each with
  at most eight encoded variants.\<close>

theorem cache_accounted:
  assumes "run_ops tops (new_tracker cfg) = Some (t, ks)" and "length tops < 144115188075855872"
  shows "\<exists>c rs. run_cache mj mc sha epoch (tracker_at cfg tops) ops new_rounds_cache = Some (c, rs)
           \<and> rc_bytes c = (\<Sum>(h, i) \<leftarrow> rc_entries c. size_at c i) \<and> rc_bytes c \<le> 67108864
           \<and> length (rc_entries c) \<le> 32 \<and> list_all (\<lambda>(i, e). length (rn_variants e) \<le> 8) (rc_heap c)"
proof -
  have "short_run cfg tops" using assms by (simp add: short_run_def)
  from run_cache_good [where mj = mj and mc = mc and epoch = epoch and sha = sha and ops = ops, OF this new_cache_good]
  obtain c rs where c: "run_cache mj mc sha epoch (tracker_at cfg tops) ops new_rounds_cache = Some (c, rs)"
      "cache_inv c" "cache_bounded c"
    by (auto simp: cache_good_def)
  have "gmap_all (\<lambda>i e. length (rn_variants e) \<le> 8) (rc_heap c)"
    by (rule gmap_all_mono [where P = "\<lambda>i e. i < rc_next c \<and> entry_sized e"])
      (use c(2) in \<open>auto simp: cache_inv_def entry_sized_def\<close>)
  with c show ?thesis
    by (auto simp: cache_inv_def cache_bounded_def rounds_cache_bytes_def rounds_cache_entries_def gmap_all_def)
qed

theorem cache_accounted_witness:
  "\<exists>c rs. run_cache (\<lambda>r. bi_status r) ci_revision (\<lambda>b. b) ''e'' (tracker_at default_config demo_ops) demo_cache_ops
       new_rounds_cache = Some (c, rs) \<and> rc_bytes c \<le> 67108864"
  using cache_accounted [OF demo_run, of "\<lambda>r. bi_status r" ci_revision "\<lambda>b. b" "''e''" demo_cache_ops]
  by (auto simp: demo_ops_def demo_prefix_def)

end
