(* ===== verification/Json.thy ===== *)
theory Json
  imports Text
begin

text \<open>
  JSON as \<open>encoding/json\<close> writes and reads it: the values the server encodes and the programs decode,
  numbers as their literal text.  Text is UTF-8 without the line separators U+2028 and U+2029, which the
  encoder escapes; a character of the model is a byte.  The reader has the two layers of the library's
  scanner: a byte automaton for the tokens, and an automaton with a stack of open arrays and objects for
  their nesting, at most 10000 deep.
\<close>

datatype json = JsNull | JsTrue | JsFalse | JsNumber string | JsString string | JsArray "json list" | JsObject "(string \<times> json) list"

section \<open>Writing\<close>

definition escape_char :: "char \<Rightarrow> string" where
  "escape_char c =
     (let n = of_char c :: nat
      in if n = 34 \<or> n = 92 then [CHR 0x5C, c]
         else if n = 8 then [CHR 0x5C, CHR ''b'']
         else if n = 12 then [CHR 0x5C, CHR ''f'']
         else if n = 10 then [CHR 0x5C, CHR ''n'']
         else if n = 13 then [CHR 0x5C, CHR ''r'']
         else if n = 9 then [CHR 0x5C, CHR ''t'']
         else if n < 32 \<or> n = 60 \<or> n = 62 \<or> n = 38 then [CHR 0x5C, CHR ''u'', CHR ''0'', CHR ''0''] @ hex_byte c
         else [c])"

definition json_string :: "string \<Rightarrow> string" where
  "json_string s = CHR 0x22 # concat (map escape_char s) @ [CHR 0x22]"

fun json_text :: "json \<Rightarrow> string" where
  "json_text JsNull = ''null''"
| "json_text JsTrue = ''true''"
| "json_text JsFalse = ''false''"
| "json_text (JsNumber n) = n"
| "json_text (JsString s) = json_string s"
| "json_text (JsArray vs) = CHR ''['' # join_on (CHR '','') (map json_text vs) @ '']''"
| "json_text (JsObject kvs) =
     CHR ''{'' # join_on (CHR '','') (map (\<lambda>(k, v). json_string k @ CHR '':'' # json_text v) kvs) @ ''}''"

section \<open>Numbers\<close>

definition exponent_ok :: "string \<Rightarrow> bool" where
  "exponent_ok r =
     (case r of [] \<Rightarrow> True
      | c # s \<Rightarrow>
          (c = CHR ''e'' \<or> c = CHR ''E'')
          \<and> (let t = (case s of [] \<Rightarrow> [] | d # q \<Rightarrow> if d = CHR ''+'' \<or> d = CHR ''-'' then q else s)
             in t \<noteq> [] \<and> list_all is_digit t))"

definition fraction_ok :: "string \<Rightarrow> bool" where
  "fraction_ok r =
     (case r of [] \<Rightarrow> True
      | c # s \<Rightarrow>
          if c = CHR ''.'' then takeWhile is_digit s \<noteq> [] \<and> exponent_ok (dropWhile is_digit s) else exponent_ok r)"

definition is_json_number :: "string \<Rightarrow> bool" where
  "is_json_number w =
     (let u = (case w of [] \<Rightarrow> [] | c # s \<Rightarrow> if c = CHR ''-'' then s else w); i = takeWhile is_digit u
      in i \<noteq> [] \<and> (hd i = CHR ''0'' \<longrightarrow> length i = 1) \<and> fraction_ok (dropWhile is_digit u))"

section \<open>Tokens\<close>

datatype token = TNull | TTrue | TFalse | TNumber string | TString string
  | TOpenArray | TCloseArray | TOpenObject | TCloseObject | TComma | TColon

definition hex_val :: "char \<Rightarrow> nat option" where
  "hex_val c =
     (let n = of_char c :: nat
      in if 48 \<le> n \<and> n \<le> 57 then Some (n - 48)
         else if 97 \<le> n \<and> n \<le> 102 then Some (n - 87)
         else if 65 \<le> n \<and> n \<le> 70 then Some (n - 55) else None)"

definition utf8 :: "nat \<Rightarrow> string" where
  "utf8 r =
     map char_of
       (if r < 128 then [r]
        else if r < 2048 then [192 + r div 64, 128 + r mod 64]
        else if r < 65536 then [224 + r div 4096, 128 + r div 64 mod 64, 128 + r mod 64]
        else [240 + r div 262144, 128 + r div 4096 mod 64, 128 + r div 64 mod 64, 128 + r mod 64])"

text \<open>\<open>getu4\<close>: the code of \<open>\uXXXX\<close> at the head.\<close>

fun getu4 :: "string \<Rightarrow> nat option" where
  "getu4 (b # u # c1 # c2 # c3 # c4 # s) =
     (if b = CHR 0x5C \<and> u = CHR ''u''
      then (case (hex_val c1, hex_val c2, hex_val c3, hex_val c4) of
              (Some x1, Some x2, Some x3, Some x4) \<Rightarrow> Some (((x1 * 16 + x2) * 16 + x3) * 16 + x4)
            | _ \<Rightarrow> None)
      else None)"
| "getu4 _ = None"

text \<open>The escape of one character, and the rune of a pair of surrogates.\<close>

definition plain_escape :: "char \<Rightarrow> string" where
  "plain_escape c =
     (if c = CHR ''b'' then [CHR 0x08] else if c = CHR ''f'' then [CHR 0x0C] else if c = CHR ''n'' then [CHR 0x0A]
      else if c = CHR ''r'' then [CHR 0x0D] else if c = CHR ''t'' then [CHR 0x09] else [c])"

definition surrogate_pair :: "nat \<Rightarrow> nat \<Rightarrow> nat option" where
  "surrogate_pair r1 r2 =
     (if 0xD800 \<le> r1 \<and> r1 < 0xDC00 \<and> 0xDC00 \<le> r2 \<and> r2 < 0xE000
      then Some (0x10000 + (r1 - 0xD800) * 1024 + (r2 - 0xDC00)) else None)"

text \<open>\<open>unquote\<close>: the text of a scanned literal.\<close>

function unquote :: "string \<Rightarrow> string" where
  "unquote [] = []"
| "unquote (c # s) =
     (if c \<noteq> CHR 0x5C then c # unquote s
      else case getu4 (c # s) of
             Some r \<Rightarrow>
               (if r < 0xD800 \<or> 0xE000 \<le> r then utf8 r @ unquote (drop 5 s)
                else case Option.bind (getu4 (drop 5 s)) (surrogate_pair r) of
                       Some p \<Rightarrow> utf8 p @ unquote (drop 11 s)
                     | None \<Rightarrow> utf8 0xFFFD @ unquote (drop 5 s))
           | None \<Rightarrow> (case s of [] \<Rightarrow> [] | e # t \<Rightarrow> plain_escape e @ unquote t))"
  by pat_completeness auto
termination by (relation "measure length") auto

datatype lex_mode = Between | InWord string | InString string | InEscape string | InHex nat string

definition word_token :: "string \<Rightarrow> token option" where
  "word_token w =
     (if w = ''null'' then Some TNull else if w = ''true'' then Some TTrue else if w = ''false'' then Some TFalse
      else if is_json_number w then Some (TNumber w) else None)"

definition json_space :: "char \<Rightarrow> bool" where
  "json_space c \<longleftrightarrow> c \<in> {CHR 0x20, CHR 0x09, CHR 0x0A, CHR 0x0D}"

definition punctuation :: "char \<Rightarrow> token option" where
  "punctuation c =
     (if c = CHR ''['' then Some TOpenArray else if c = CHR '']'' then Some TCloseArray
      else if c = CHR ''{'' then Some TOpenObject else if c = CHR ''}'' then Some TCloseObject
      else if c = CHR '','' then Some TComma else if c = CHR '':'' then Some TColon else None)"

definition ends_word :: "char \<Rightarrow> bool" where
  "ends_word c \<longleftrightarrow> json_space c \<or> c = CHR 0x22 \<or> punctuation c \<noteq> None"

definition start_token :: "char \<Rightarrow> token list \<times> lex_mode" where
  "start_token c =
     (if json_space c then ([], Between)
      else if c = CHR 0x22 then ([], InString [])
      else case punctuation c of Some t \<Rightarrow> ([t], Between) | None \<Rightarrow> ([], InWord [c]))"

fun lex_step :: "lex_mode \<Rightarrow> char \<Rightarrow> (token list \<times> lex_mode) option" where
  "lex_step Between c = Some (start_token c)"
| "lex_step (InWord w) c =
     (if ends_word c
      then (case word_token w of None \<Rightarrow> None | Some t \<Rightarrow> let (ts, m) = start_token c in Some (t # ts, m))
      else Some ([], InWord (w @ [c])))"
| "lex_step (InString a) c =
     (if c = CHR 0x22 then Some ([TString (unquote a)], Between)
      else if c = CHR 0x5C then Some ([], InEscape a)
      else if of_char c < (32 :: nat) then None else Some ([], InString (a @ [c])))"
| "lex_step (InEscape a) c =
     (if c = CHR ''u'' then Some ([], InHex 4 (a @ [CHR 0x5C, c]))
      else if c \<in> {CHR 0x22, CHR 0x5C, CHR ''/'', CHR ''b'', CHR ''f'', CHR ''n'', CHR ''r'', CHR ''t''}
      then Some ([], InString (a @ [CHR 0x5C, c])) else None)"
| "lex_step (InHex k a) c =
     (if hex_val c = None then None
      else Some ([], if k \<le> 1 then InString (a @ [c]) else InHex (k - 1) (a @ [c])))"

fun lex_end :: "lex_mode \<Rightarrow> token list option" where
  "lex_end Between = Some []"
| "lex_end (InWord w) = map_option (\<lambda>t. [t]) (word_token w)"
| "lex_end m = None"

primrec scan :: "string \<Rightarrow> lex_mode \<Rightarrow> token list option" where
  "scan [] m = lex_end m"
| "scan (c # s) m = (case lex_step m c of None \<Rightarrow> None | Some (ts, m1) \<Rightarrow> map_option ((@) ts) (scan s m1))"

section \<open>Nesting\<close>

datatype frame = FArray "json list" | FObject "(string \<times> json) list" string

datatype expects = Value | Element | Key | Member | Colon | After json

definition max_depth :: nat where
  "max_depth = 10000"

type_synonym parser = "expects \<times> frame list"

fun start_value :: "frame list \<Rightarrow> token \<Rightarrow> parser option" where
  "start_value fs TNull = Some (After JsNull, fs)"
| "start_value fs TTrue = Some (After JsTrue, fs)"
| "start_value fs TFalse = Some (After JsFalse, fs)"
| "start_value fs (TNumber n) = Some (After (JsNumber n), fs)"
| "start_value fs (TString s) = Some (After (JsString s), fs)"
| "start_value fs TOpenArray = (if length fs < max_depth then Some (Element, FArray [] # fs) else None)"
| "start_value fs TOpenObject = (if length fs < max_depth then Some (Member, FObject [] [] # fs) else None)"
| "start_value fs _ = None"

fun key_token :: "frame list \<Rightarrow> token \<Rightarrow> parser option" where
  "key_token (FObject kvs k0 # fs) (TString k) = Some (Colon, FObject kvs k # fs)"
| "key_token _ _ = None"

fun after_value :: "json \<Rightarrow> frame list \<Rightarrow> token \<Rightarrow> parser option" where
  "after_value v (FArray vs # fs) TComma = Some (Value, FArray (vs @ [v]) # fs)"
| "after_value v (FArray vs # fs) TCloseArray = Some (After (JsArray (vs @ [v])), fs)"
| "after_value v (FObject kvs k # fs) TComma = Some (Key, FObject (kvs @ [(k, v)]) k # fs)"
| "after_value v (FObject kvs k # fs) TCloseObject = Some (After (JsObject (kvs @ [(k, v)])), fs)"
| "after_value _ _ _ = None"

fun parse_step :: "parser \<Rightarrow> token \<Rightarrow> parser option" where
  "parse_step (Value, fs) t = start_value fs t"
| "parse_step (Element, fs) t =
     (if t = TCloseArray then Some (After (JsArray []), tl fs) else start_value fs t)"
| "parse_step (Member, fs) t =
     (if t = TCloseObject then Some (After (JsObject []), tl fs) else key_token fs t)"
| "parse_step (Key, fs) t = key_token fs t"
| "parse_step (Colon, fs) t = (if t = TColon then Some (Value, fs) else None)"
| "parse_step (After v, fs) t = after_value v fs t"

fun parse_tokens :: "token list \<Rightarrow> parser \<Rightarrow> json option" where
  "parse_tokens [] (After v, []) = Some v"
| "parse_tokens [] _ = None"
| "parse_tokens (t # ts) p = (case parse_step p t of None \<Rightarrow> None | Some p1 \<Rightarrow> parse_tokens ts p1)"

definition parse_json :: "string \<Rightarrow> json option" where
  "parse_json s = (case scan s Between of None \<Rightarrow> None | Some ts \<Rightarrow> parse_tokens ts (Value, []))"

section \<open>Reading back what was written\<close>

text \<open>Values with well-formed numbers that nest at most this deep.\<close>

fun json_ok :: "nat \<Rightarrow> json \<Rightarrow> bool" where
  "json_ok d (JsNumber n) \<longleftrightarrow> is_json_number n"
| "json_ok d (JsArray vs) \<longleftrightarrow> 0 < d \<and> list_all (json_ok (d - 1)) vs"
| "json_ok d (JsObject kvs) \<longleftrightarrow> 0 < d \<and> list_all (\<lambda>(k, v). json_ok (d - 1) v) kvs"
| "json_ok d v \<longleftrightarrow> True"

fun commas :: "token list list \<Rightarrow> token list" where
  "commas [] = []"
| "commas [p] = p"
| "commas (p # q # ps) = p @ TComma # commas (q # ps)"

fun tokens :: "json \<Rightarrow> token list" where
  "tokens JsNull = [TNull]"
| "tokens JsTrue = [TTrue]"
| "tokens JsFalse = [TFalse]"
| "tokens (JsNumber n) = [TNumber n]"
| "tokens (JsString s) = [TString s]"
| "tokens (JsArray vs) = TOpenArray # commas (map tokens vs) @ [TCloseArray]"
| "tokens (JsObject kvs) = TOpenObject # commas (map (\<lambda>(k, v). TString k # TColon # tokens v) kvs) @ [TCloseObject]"

lemma hex_val_digit: "d < 16 \<Longrightarrow> hex_val (hex_digit d) = Some d"
  by (auto simp: hex_val_def hex_digit_def Let_def)

lemma byte_halves: "of_char (c :: char) div 16 < (16 :: nat)" "of_char c mod 16 < (16 :: nat)"
  using nat_of_char_less_256 [of c] by (simp_all add: less_mult_imp_div_less)

lemma hex_val_byte:
  "hex_val (hex_digit (of_char c div 16)) = Some (of_char c div 16)"
  "hex_val (hex_digit (of_char c mod 16)) = Some (of_char c mod 16)"
  by (simp_all add: hex_val_digit byte_halves)

lemma char_code_inject: "(of_char c :: nat) = of_char d \<longleftrightarrow> c = d"
  by simp

lemma escape_char_cases:
  obtains (code) "escape_char c = [CHR 0x5C, CHR ''u'', CHR ''0'', CHR ''0''] @ hex_byte c" "of_char c < (128 :: nat)"
  | (short) e where "escape_char c = [CHR 0x5C, e]" "plain_escape e = [c]"
      "e \<in> {CHR 0x22, CHR 0x5C, CHR ''b'', CHR ''f'', CHR ''n'', CHR ''r'', CHR ''t''}"
  | (plain) "escape_char c = [c]" "c \<noteq> CHR 0x22" "c \<noteq> CHR 0x5C" "\<not> of_char c < (32 :: nat)"
proof -
  let ?n = "of_char c :: nat"
  have q: "?n = of_char d \<longleftrightarrow> c = d" for d by simp
  note q [of "CHR 0x22", simplified] q [of "CHR 0x5C", simplified] q [of "CHR 0x08", simplified] q [of "CHR 0x09", simplified]
    q [of "CHR 0x0A", simplified] q [of "CHR 0x0C", simplified] q [of "CHR 0x0D", simplified]
  note codes = this
  consider "?n \<in> {34, 92}" | "?n \<in> {8, 9, 10, 12, 13}" | "?n \<notin> {34, 92, 8, 9, 10, 12, 13}" "?n < 32 \<or> ?n \<in> {60, 62, 38}"
    | "?n \<notin> {34, 92}" "\<not> ?n < 32" "?n \<notin> {60, 62, 38}" by fastforce
  then show thesis
  proof cases
    case 1
    then have "c = CHR 0x22 \<or> c = CHR 0x5C" by (auto simp: codes)
    then show thesis by (elim disjE; intro short) (auto simp: escape_char_def plain_escape_def Let_def)
  next
    case 2
    then have "c = CHR 0x08 \<or> c = CHR 0x09 \<or> c = CHR 0x0A \<or> c = CHR 0x0C \<or> c = CHR 0x0D" by (auto simp: codes)
    then show thesis
      by (elim disjE; intro short [of "if c = CHR 0x08 then CHR ''b'' else if c = CHR 0x09 then CHR ''t''
            else if c = CHR 0x0A then CHR ''n'' else if c = CHR 0x0C then CHR ''f'' else CHR ''r''"])
        (simp_all add: escape_char_def plain_escape_def Let_def)
  next
    case 3
    then show thesis by (intro code) (auto simp: escape_char_def Let_def)
  next
    case 4
    then show thesis by (intro plain) (auto simp: escape_char_def Let_def)
  qed
qed

lemma unquote_plain: "c \<noteq> CHR 0x5C \<Longrightarrow> unquote (c # s) = c # unquote s"
  by simp

lemma unquote_short:
  "e \<noteq> CHR ''u'' \<Longrightarrow> unquote (CHR 0x5C # e # s) = plain_escape e @ unquote s"
proof -
  assume "e \<noteq> CHR ''u''"
  then have "getu4 (CHR 0x5C # e # s) = None"
    by (cases "CHR 0x5C # e # s" rule: getu4.cases) auto
  then show ?thesis by simp
qed

lemma unquote_code:
  assumes "of_char c < (128 :: nat)"
  shows "unquote ([CHR 0x5C, CHR ''u'', CHR ''0'', CHR ''0''] @ hex_byte c @ s) = c # unquote s"
proof -
  have z: "hex_val (CHR ''0'') = Some 0" by (simp add: hex_val_def Let_def)
  have "getu4 ([CHR 0x5C, CHR ''u'', CHR ''0'', CHR ''0''] @ hex_byte c @ s) = Some (of_char c)"
    by (simp add: hex_byte_def hex_val_byte z)
  moreover have "drop 5 ([CHR ''u'', CHR ''0'', CHR ''0''] @ hex_byte c @ s) = s" by (simp add: hex_byte_def)
  moreover have "utf8 (of_char c) = [c]" using assms by (simp add: utf8_def)
  ultimately show ?thesis using assms by simp
qed

lemma unquote_escape: "unquote (escape_char c @ s) = c # unquote s"
proof (cases c rule: escape_char_cases)
  case code
  then show ?thesis using unquote_code [of c s] by simp
next
  case (short e)
  then show ?thesis using unquote_short [of e s] by auto
qed (simp del: unquote.simps add: unquote_plain)

lemma unquote_escapes: "unquote (concat (map escape_char s)) = s"
  by (induction s) (simp_all add: unquote_escape)

lemma prepend_none [simp]: "map_option ((@) []) x = x"
  by (cases x) auto

lemma prepend_one: "(@) [t] = Cons t"
  by (simp add: fun_eq_iff)

lemma prepend_more:
  "(@) (t # xs) = (\<lambda>ys. t # xs @ ys)" "(@) (xs @ zs) = (\<lambda>ys. xs @ zs @ ys)"
  by (simp_all add: fun_eq_iff)

lemma lex_escape: "scan (escape_char c @ s) (InString a) = scan s (InString (a @ escape_char c))"
proof (cases c rule: escape_char_cases)
  case code
  have z: "hex_val (CHR ''0'') = Some 0" by (simp add: hex_val_def Let_def)
  from code show ?thesis by (simp add: hex_byte_def z hex_val_byte)
next
  case (short e)
  from short show ?thesis by auto
next
  case plain
  from plain show ?thesis by simp
qed

lemma lex_escapes: "scan (concat (map escape_char t) @ s) (InString a) = scan s (InString (a @ concat (map escape_char t)))"
  by (induction t arbitrary: a) (simp_all add: lex_escape)

lemma lex_string: "scan (json_string t @ s) Between = map_option (Cons (TString t)) (scan s Between)"
  by (simp add: json_string_def start_token_def json_space_def lex_escapes unquote_escapes prepend_one)

text \<open>A word is read up to the first byte that ends it.\<close>

lemma lex_word_run:
  "list_all (\<lambda>c. \<not> ends_word c) w \<Longrightarrow> scan (w @ s) (InWord a) = scan s (InWord (a @ w))"
  by (induction w arbitrary: a) auto

lemma lex_word:
  assumes "word_token w = Some t" and "w \<noteq> []" and "list_all (\<lambda>c. \<not> ends_word c) w"
    and "s = [] \<or> ends_word (hd s)"
  shows "scan (w @ s) Between = map_option (Cons t) (scan s Between)"
proof -
  obtain c v where w: "w = c # v" using assms(2) by (cases w) auto
  with assms(3) have c: "start_token c = ([], InWord [c])"
    by (auto simp: start_token_def ends_word_def split: option.split)
  have "scan (w @ s) Between = scan s (InWord w)"
    using assms(3) lex_word_run [of v s "[c]"] by (simp add: w c)
  also have "\<dots> = map_option (Cons t) (scan s Between)"
  proof (cases s)
    case Nil
    then show ?thesis using assms(1) by simp
  next
    case (Cons d r)
    then show ?thesis
      using assms by (cases "start_token d"; cases "scan r (snd (start_token d))") auto
  qed
  finally show ?thesis .
qed

lemma ends_word_iff:
  "ends_word c \<longleftrightarrow>
     c \<in> {CHR 0x20, CHR 0x09, CHR 0x0A, CHR 0x0D, CHR 0x22, CHR ''['', CHR '']'', CHR ''{'', CHR ''}'', CHR '','', CHR '':''}"
  by (simp add: ends_word_def json_space_def punctuation_def)

lemma digit_in_word: "is_digit c \<Longrightarrow> \<not> ends_word c"
proof
  assume d: "is_digit c" and "ends_word c"
  then show False
    unfolding ends_word_iff by (elim insertE) (simp_all add: is_digit_def less_eq_char_def of_char_def)
qed

lemma digits_in_word: "list_all is_digit s \<Longrightarrow> list_all (\<lambda>c. \<not> ends_word c) s"
  by (auto simp: list_all_iff digit_in_word)

lemma letters_in_word:
  "\<not> ends_word (CHR ''-'')" "\<not> ends_word (CHR ''+'')" "\<not> ends_word (CHR ''.'')" "\<not> ends_word (CHR ''e'')"
  "\<not> ends_word (CHR ''E'')"
  by (simp_all add: ends_word_def json_space_def punctuation_def)

lemma exponent_in_word:
  assumes "exponent_ok r"
  shows "list_all (\<lambda>c. \<not> ends_word c) r"
proof (cases r)
  case (Cons c s)
  then have "c = CHR ''e'' \<or> c = CHR ''E''" using assms by (simp add: exponent_ok_def)
  then have c: "\<not> ends_word c" using letters_in_word by auto
  show ?thesis
  proof (cases s)
    case (Cons d q)
    then have "list_all is_digit q" "is_digit d \<or> d = CHR ''+'' \<or> d = CHR ''-''"
      using assms \<open>r = c # s\<close> by (auto simp: exponent_ok_def Let_def split: if_splits)
    then show ?thesis
      using c digits_in_word [of q] digit_in_word [of d] letters_in_word \<open>r = c # s\<close> Cons by auto
  qed (simp add: Cons c)
qed simp

lemma in_word_split:
  "list_all (\<lambda>c. \<not> ends_word c) (dropWhile is_digit s) \<Longrightarrow> list_all (\<lambda>c. \<not> ends_word c) s"
  by (induction s) (auto split: if_splits simp: digit_in_word)

lemma fraction_in_word:
  assumes "fraction_ok r"
  shows "list_all (\<lambda>c. \<not> ends_word c) r"
proof (cases r)
  case (Cons c s)
  show ?thesis
  proof (cases "c = CHR ''.''")
    case True
    then have "exponent_ok (dropWhile is_digit s)" using assms Cons by (simp add: fraction_ok_def)
    then have "list_all (\<lambda>c. \<not> ends_word c) s" by (rule in_word_split [OF exponent_in_word])
    then show ?thesis using True Cons letters_in_word by simp
  next
    case False
    then have "exponent_ok r" using assms Cons by (simp add: fraction_ok_def)
    then show ?thesis by (rule exponent_in_word)
  qed
qed simp

lemma number_in_word:
  assumes "is_json_number w"
  shows "list_all (\<lambda>c. \<not> ends_word c) w" "w \<noteq> []" "word_token w = Some (TNumber w)"
proof -
  define u where "u = (case w of [] \<Rightarrow> [] | c # s \<Rightarrow> if c = CHR ''-'' then s else w)"
  have u: "takeWhile is_digit u \<noteq> []" "fraction_ok (dropWhile is_digit u)"
    using assms by (simp_all add: is_json_number_def Let_def u_def)
  from u(2) have "list_all (\<lambda>c. \<not> ends_word c) u" by (rule in_word_split [OF fraction_in_word])
  then show "list_all (\<lambda>c. \<not> ends_word c) w"
    using letters_in_word(1) by (cases w) (auto simp: u_def split: if_splits)
  show "w \<noteq> []" using u(1) by (auto simp: u_def)
  have "is_json_number ''null'' = False" "is_json_number ''true'' = False" "is_json_number ''false'' = False"
    by (simp_all add: is_json_number_def is_digit_def less_eq_char_def of_char_def)
  with assms show "word_token w = Some (TNumber w)" by (auto simp: word_token_def)
qed

text \<open>The tokens of a written value, up to a byte that ends a word.\<close>

definition word_end :: "string \<Rightarrow> bool" where
  "word_end s \<longleftrightarrow> s = [] \<or> ends_word (hd s)"

lemma word_end_simps [simp]:
  "word_end (CHR '','' # s)" "word_end (CHR '']'' # s)" "word_end (CHR ''}'' # s)" "word_end []"
  by (simp_all add: word_end_def ends_word_iff)

lemma start_punctuation [simp]:
  "start_token (CHR ''['') = ([TOpenArray], Between)" "start_token (CHR '']'') = ([TCloseArray], Between)"
  "start_token (CHR ''{'') = ([TOpenObject], Between)" "start_token (CHR ''}'') = ([TCloseObject], Between)"
  "start_token (CHR '','') = ([TComma], Between)" "start_token (CHR '':'') = ([TColon], Between)"
  by (simp_all add: start_token_def json_space_def punctuation_def)

lemma lex_join:
  assumes "\<And>p s. p \<in> set ps \<Longrightarrow> word_end s \<Longrightarrow> scan (f p @ s) Between = map_option ((@) (g p)) (scan s Between)"
    and "word_end s"
  shows "scan (join_on (CHR '','') (map f ps) @ s) Between = map_option ((@) (commas (map g ps))) (scan s Between)"
  using assms(1)
proof (induction ps)
  case Nil
  then show ?case by (simp add: option.map_ident)
next
  case (Cons p ps)
  show ?case
  proof (cases ps)
    case Nil
    then show ?thesis using Cons.prems [of p s] assms(2) by (simp add: option.map_ident)
  next
    case (Cons q qs)
    have "scan (join_on (CHR '','') (map f (p # ps)) @ s) Between
          = map_option ((@) (g p)) (scan (CHR '','' # join_on (CHR '','') (map f ps) @ s) Between)"
      using Cons.prems [of p "CHR '','' # join_on (CHR '','') (map f ps) @ s"] by (simp add: Cons)
    also have "\<dots> = map_option ((@) (g p @ TComma # commas (map g ps))) (scan s Between)"
      using Cons.IH Cons.prems
      by (simp add: prepend_one option.map_comp comp_def prepend_more)
    finally show ?thesis by (simp add: Cons option.map_comp comp_def prepend_more)
  qed
qed

lemma constants:
  "word_token ''null'' = Some TNull" "word_token ''true'' = Some TTrue" "word_token ''false'' = Some TFalse"
  by (simp_all add: word_token_def)

lemma lex_json:
  assumes "json_ok d v" and "word_end s"
  shows "scan (json_text v @ s) Between = map_option ((@) (tokens v)) (scan s Between)"
  using assms
proof (induction v arbitrary: d s)
  case (JsNumber n)
  then show ?case using lex_word [of n "TNumber n" s] number_in_word [of n] by (simp add: word_end_def prepend_one)
next
  case (JsArray vs)
  have "scan (join_on (CHR '','') (map json_text vs) @ CHR '']'' # s) Between
        = map_option ((@) (commas (map tokens vs))) (scan (CHR '']'' # s) Between)"
    using JsArray by (intro lex_join) (auto simp: list_all_iff)
  then show ?case by (simp add: prepend_one option.map_comp comp_def prepend_more)
next
  case (JsObject kvs)
  have "scan (join_on (CHR '','') (map (\<lambda>(k, v). json_string k @ CHR '':'' # json_text v) kvs) @ CHR ''}'' # s) Between
        = map_option ((@) (commas (map (\<lambda>(k, v). TString k # TColon # tokens v) kvs))) (scan (CHR ''}'' # s) Between)"
  proof (intro lex_join, goal_cases)
    case (1 p s)
    obtain k v where p: "p = (k, v)" by fastforce
    with 1 JsObject have "scan (json_text v @ s) Between = map_option ((@) (tokens v)) (scan s Between)"
      by (fastforce simp: list_all_iff)
    then show ?case by (simp add: p lex_string prepend_one option.map_comp comp_def prepend_more)
  qed simp
  then show ?case by (simp add: prepend_one option.map_comp comp_def prepend_more)
next
  case (JsString t)
  then show ?case by (simp add: lex_string prepend_one)
next
  case JsNull
  then show ?case unfolding json_text.simps tokens.simps prepend_one by (intro lex_word) (simp_all add: word_end_def constants ends_word_iff)
next
  case JsTrue
  then show ?case unfolding json_text.simps tokens.simps prepend_one by (intro lex_word) (simp_all add: word_end_def constants ends_word_iff)
next
  case JsFalse
  then show ?case unfolding json_text.simps tokens.simps prepend_one by (intro lex_word) (simp_all add: word_end_def constants ends_word_iff)
qed

text \<open>The parser rebuilds the value from its tokens, at any depth that leaves room for it.\<close>

lemma first_token: "tokens v \<noteq> [] \<and> hd (tokens v) \<noteq> TCloseArray"
  by (cases v) auto

lemma parse_element:
  "parse_tokens (tokens v @ ts) (Element, fs) = parse_tokens (tokens v @ ts) (Value, fs)"
  using first_token [of v] by (cases "tokens v") auto

text \<open>The elements of an open array, and the members of an open object, up to its end.\<close>

lemma parse_elements:
  assumes "\<And>v ts us. v \<in> set vs \<Longrightarrow> parse_tokens (tokens v @ ts) (Value, FArray us # fs) = parse_tokens ts (After v, FArray us # fs)"
    and "vs \<noteq> []"
  shows "parse_tokens (commas (map tokens vs) @ TCloseArray # ts) (Value, FArray us # fs)
         = parse_tokens ts (After (JsArray (us @ vs)), fs)"
  using assms
proof (induction vs arbitrary: us)
  case (Cons v vs)
  show ?case
  proof (cases vs)
    case Nil
    then show ?thesis using Cons.prems(1) [of v] by simp
  next
    case (Cons w ws)
    have "parse_tokens (commas (map tokens (v # vs)) @ TCloseArray # ts) (Value, FArray us # fs)
          = parse_tokens (TComma # commas (map tokens vs) @ TCloseArray # ts) (After v, FArray us # fs)"
      using Cons.prems(1) [of v] by (simp add: Cons)
    then show ?thesis using Cons.IH [of "us @ [v]"] Cons.prems by (simp add: Cons)
  qed
qed simp

lemma parse_members:
  assumes "\<And>k v ts us l. (k, v) \<in> set kvs \<Longrightarrow>
      parse_tokens (tokens v @ ts) (Value, FObject us l # fs) = parse_tokens ts (After v, FObject us l # fs)"
    and "kvs \<noteq> []"
  shows "parse_tokens (commas (map (\<lambda>(k, v). TString k # TColon # tokens v) kvs) @ TCloseObject # ts) (Key, FObject us l # fs)
         = parse_tokens ts (After (JsObject (us @ kvs)), fs)"
  using assms
proof (induction kvs arbitrary: us l)
  case (Cons p kvs)
  obtain k v where p: "p = (k, v)" by fastforce
  show ?case
  proof (cases kvs)
    case Nil
    then show ?thesis using Cons.prems(1) [of k v] by (simp add: p)
  next
    case (Cons w ws)
    have "parse_tokens (commas (map (\<lambda>(k, v). TString k # TColon # tokens v) (p # kvs)) @ TCloseObject # ts) (Key, FObject us l # fs)
          = parse_tokens (TComma # commas (map (\<lambda>(k, v). TString k # TColon # tokens v) kvs) @ TCloseObject # ts) (After v, FObject us k # fs)"
      using Cons.prems(1) [of k v] by (simp add: Cons p)
    moreover have "parse_tokens (commas (map (\<lambda>(k, v). TString k # TColon # tokens v) kvs) @ TCloseObject # ts) (Key, FObject (us @ [(k, v)]) k # fs)
          = parse_tokens ts (After (JsObject ((us @ [(k, v)]) @ kvs)), fs)"
      by (rule Cons.IH) (erule Cons.prems(1) [OF list.set_intros(2)], simp add: Cons)
    ultimately show ?thesis by (simp add: p)
  qed
qed simp

lemma parse_value:
  assumes "json_ok d v" and "d + length fs \<le> max_depth"
  shows "parse_tokens (tokens v @ ts) (Value, fs) = parse_tokens ts (After v, fs)"
  using assms
proof (induction v arbitrary: d fs ts)
  case (JsArray vs)
  have f: "length fs < max_depth" using JsArray.prems by simp
  have e: "parse_tokens (tokens v @ ts) (Value, FArray us # fs) = parse_tokens ts (After v, FArray us # fs)"
    if "v \<in> set vs" for v ts us
    using that JsArray by (intro JsArray.IH [of v "d - 1"]) (auto simp: list_all_iff)
  show ?case
  proof (cases vs)
    case Nil
    then show ?thesis using f by simp
  next
    case (Cons w ws)
    have "parse_tokens (tokens (JsArray vs) @ ts) (Value, fs)
          = parse_tokens (commas (map tokens vs) @ TCloseArray # ts) (Element, FArray [] # fs)"
      using f by simp
    also have "\<dots> = parse_tokens (commas (map tokens vs) @ TCloseArray # ts) (Value, FArray [] # fs)"
      using parse_element [of w] by (cases ws) (simp_all add: Cons)
    also have "\<dots> = parse_tokens ts (After (JsArray vs), fs)"
      using parse_elements [where vs = vs and us = "[]" and fs = fs and ts = ts] e by (simp add: Cons)
    finally show ?thesis .
  qed
next
  case (JsObject kvs)
  have f: "length fs < max_depth" using JsObject.prems by simp
  have e: "parse_tokens (tokens v @ ts) (Value, FObject us l # fs) = parse_tokens ts (After v, FObject us l # fs)"
    if "(k, v) \<in> set kvs" for k v ts us l
    using that JsObject.prems by (intro JsObject.IH [of "(k, v)" v "d - 1"]) (auto simp: list_all_iff)
  show ?case
  proof (cases kvs)
    case Nil
    then show ?thesis using f by simp
  next
    case (Cons w ws)
    have "parse_tokens (tokens (JsObject kvs) @ ts) (Value, fs)
          = parse_tokens (commas (map (\<lambda>(k, v). TString k # TColon # tokens v) kvs) @ TCloseObject # ts) (Member, FObject [] [] # fs)"
      using f by simp
    also have "\<dots> = parse_tokens (commas (map (\<lambda>(k, v). TString k # TColon # tokens v) kvs) @ TCloseObject # ts) (Key, FObject [] [] # fs)"
      by (cases w; cases ws) (simp_all add: Cons)
    also have "\<dots> = parse_tokens ts (After (JsObject kvs), fs)"
      using parse_members [where kvs = kvs and us = "[]" and l = "[]" and fs = fs and ts = ts] e by (simp add: Cons)
    finally show ?thesis .
  qed
qed simp_all

theorem json_round_trip:
  assumes "json_ok max_depth v"
  shows "parse_json (json_text v) = Some v"
proof -
  have "scan (json_text v) Between = Some (tokens v)"
    using lex_json [OF assms, of "[]"] by simp
  then show ?thesis using parse_value [OF assms, of "[]" "[]"] by (simp add: parse_json_def)
qed

end
