(* ===== verification/Json_Struct.thy ===== *)
theory Json_Struct
  imports Json
begin

text \<open>
  Values of Go as JSON and back: what \<open>encoding/json\<close> writes for integers, booleans and pointers, and how it
  stores a value into the fields of a struct, with its first error.
\<close>

section \<open>Scalars\<close>

definition js_int :: "int \<Rightarrow> json" where
  "js_int n = JsNumber (format_int n)"

definition js_bool :: "bool \<Rightarrow> json" where
  "js_bool b = (if b then JsTrue else JsFalse)"

text \<open>A pointer.\<close>

definition js_pointer :: "int option \<Rightarrow> json" where
  "js_pointer x = (case x of None \<Rightarrow> JsNull | Some n \<Rightarrow> js_int n)"

section \<open>Decoding into structs\<close>

text \<open>A member is stored into the field its name folds to; a null leaves a string or an integer alone and
  clears a pointer; a raw message is the value itself.\<close>

definition into_pointer :: "json \<Rightarrow> string + int option" where
  "into_pointer v =
     (case v of
        JsNull \<Rightarrow> Inr None
      | JsNumber t \<Rightarrow> (case parse_int64 t of None \<Rightarrow> Inl ''cannot unmarshal number'' | Some n \<Rightarrow> Inr (Some n))
      | _ \<Rightarrow> Inl ''cannot unmarshal into int64'')"

definition into_bool_pointer :: "json \<Rightarrow> string + bool option" where
  "into_bool_pointer v =
     (case v of JsNull \<Rightarrow> Inr None | JsTrue \<Rightarrow> Inr (Some True) | JsFalse \<Rightarrow> Inr (Some False)
      | _ \<Rightarrow> Inl ''cannot unmarshal into bool'')"

definition into_string :: "string \<Rightarrow> json \<Rightarrow> string + string" where
  "into_string old v = (case v of JsNull \<Rightarrow> Inr old | JsString s \<Rightarrow> Inr s | _ \<Rightarrow> Inl ''cannot unmarshal into string'')"

definition into_int :: "int \<Rightarrow> json \<Rightarrow> string + int" where
  "into_int old v =
     (case into_pointer v of Inl err \<Rightarrow> Inl err | Inr None \<Rightarrow> Inr old | Inr (Some n) \<Rightarrow> Inr n)"

definition store :: "('a \<Rightarrow> 's) \<Rightarrow> string + 'a \<Rightarrow> string + 's" where
  "store f r = (case r of Inl err \<Rightarrow> Inl err | Inr a \<Rightarrow> Inr (f a))"

fun store_members :: "(string \<Rightarrow> json \<Rightarrow> 's \<Rightarrow> string + 's) \<Rightarrow> (string \<times> json) list \<Rightarrow> 's \<Rightarrow> string + 's" where
  "store_members field [] s = Inr s"
| "store_members field ((k, v) # kvs) s =
     (case field (to_lower k) v s of Inl err \<Rightarrow> Inl err | Inr s1 \<Rightarrow> store_members field kvs s1)"

definition into_struct :: "(string \<Rightarrow> json \<Rightarrow> 's \<Rightarrow> string + 's) \<Rightarrow> 's \<Rightarrow> json \<Rightarrow> string + 's" where
  "into_struct field s v =
     (case v of JsNull \<Rightarrow> Inr s | JsObject kvs \<Rightarrow> store_members field kvs s | _ \<Rightarrow> Inl ''cannot unmarshal into struct'')"

fun into_list :: "(json \<Rightarrow> string + 'a) \<Rightarrow> json list \<Rightarrow> string + 'a list" where
  "into_list f [] = Inr []"
| "into_list f (v # vs) =
     (case f v of Inl err \<Rightarrow> Inl err | Inr a \<Rightarrow> (case into_list f vs of Inl err \<Rightarrow> Inl err | Inr xs \<Rightarrow> Inr (a # xs)))"

section \<open>What was written is stored again\<close>

lemma dec_nat_number: "takeWhile is_digit (dec_nat n) = dec_nat n" "dropWhile is_digit (dec_nat n) = []"
  using dec_nat_digits [of n] by (auto simp: takeWhile_eq_all_conv list_all_iff)

lemma digit_zero: "d < 10 \<Longrightarrow> digit d = CHR ''0'' \<longleftrightarrow> d = 0"
proof -
  assume d: "d < 10"
  have "digit_val (CHR ''0'') = 0" by (simp add: digit_val_def)
  then have "digit d = CHR ''0'' \<Longrightarrow> d = 0" using digit_props(2) [OF d] by simp
  moreover have "digit 0 = CHR ''0''" using char_of_char [of "CHR ''0''", where 'a = nat] by (simp add: digit_def)
  ultimately show ?thesis by blast
qed

lemma dec_nat_zero: "hd (dec_nat n) = CHR ''0'' \<longleftrightarrow> n = 0"
proof (induction n rule: dec_nat.induct)
  case (1 n)
  have ne: "dec_nat (n div 10) \<noteq> []" using dec_nat_digits by blast
  show ?case
  proof (cases "n < 10")
    case True
    then have "dec_nat n = [digit n]" by (subst dec_nat.simps) simp
    then show ?thesis using True by (simp add: digit_zero)
  next
    case False
    then have "dec_nat n = dec_nat (n div 10) @ [digit (n mod 10)]" by (subst dec_nat.simps) simp
    then have "hd (dec_nat n) = hd (dec_nat (n div 10))" using ne by simp
    then show ?thesis using 1 False by (simp del: dec_nat.simps)
  qed
qed

lemma format_int_number [simp]: "is_json_number (format_int i)"
proof -
  have m: "is_json_number (dec_nat n)" for n
  proof -
    obtain c s where cs: "dec_nat n = c # s" "c \<noteq> CHR ''-''" using dec_nat_head [of n] by auto
    then have "(case dec_nat n of [] \<Rightarrow> [] | c # s \<Rightarrow> if c = CHR ''-'' then s else dec_nat n) = dec_nat n" by simp
    moreover have "hd (dec_nat n) = CHR ''0'' \<longrightarrow> length (dec_nat n) = 1"
      by (simp add: dec_nat_zero) (simp add: dec_nat.simps [of 0])
    ultimately show ?thesis
      using dec_nat_digits [of n] by (simp only: is_json_number_def Let_def dec_nat_number) (simp add: fraction_ok_def)
  qed
  have "is_json_number (CHR ''-'' # dec_nat n)" if "n \<noteq> 0" for n
    using that dec_nat_digits [of n] dec_nat_zero [of n]
    by (simp add: is_json_number_def Let_def dec_nat_number fraction_ok_def)
  then show ?thesis using m [of "nat i"] by (auto simp: format_int_def)
qed

lemma json_ok_scalar [simp]:
  "json_ok d (js_int n)" "json_ok d (js_bool b)" "json_ok d (js_pointer p)"
  by (auto simp: js_int_def js_bool_def js_pointer_def split: option.split)

lemma store_members_append:
  "store_members f (xs @ ys) s = (case store_members f xs s of Inl err \<Rightarrow> Inl err | Inr s1 \<Rightarrow> store_members f ys s1)"
  by (induction xs arbitrary: s) (auto split: sum.split)

lemma into_scalars [simp]:
  "is_i64 n \<Longrightarrow> into_pointer (js_int n) = Inr (Some n)"
  "into_bool_pointer (js_bool b) = Inr (Some b)"
  "into_string old (JsString s) = Inr s"
  "is_i64 n \<Longrightarrow> into_int k (js_int n) = Inr n"
  by (simp_all add: into_pointer_def into_bool_pointer_def into_string_def into_int_def js_int_def js_bool_def
      parse_int64_format)

lemma into_js_pointer [simp]: "(case p of None \<Rightarrow> True | Some n \<Rightarrow> is_i64 n) \<Longrightarrow> into_pointer (js_pointer p) = Inr p"
  by (cases p) (simp_all add: js_pointer_def into_pointer_def js_int_def parse_int64_format)

lemma store_right [simp]: "store f (Inr a) = Inr (f a)"
  by (simp add: store_def)

end
