(* ===== verification/Report_Json.thy ===== *)
theory Report_Json
  imports Json_Struct Rounds_View
begin

text \<open>
  The JSON of the round reports, by the struct tags of \<open>internal/divergence/archive.go\<close> and
  \<open>internal/web/rounds_compact.go\<close>: the full report with its context spliced in, and the compact report.
  The slices of a report are never nil, so each is an array.  The text of a time is a parameter.
\<close>

definition js_strings :: "string list \<Rightarrow> json" where
  "js_strings xs = JsArray (map JsString xs)"

text \<open>A pointer with \<open>omitempty\<close>, and a time with \<open>omitzero\<close>.\<close>

definition omit_none :: "string \<Rightarrow> ('a \<Rightarrow> json) \<Rightarrow> 'a option \<Rightarrow> (string \<times> json) list" where
  "omit_none key f x = (case x of None \<Rightarrow> [] | Some a \<Rightarrow> [(key, f a)])"

definition omit_zero :: "string \<Rightarrow> (gtime \<Rightarrow> json) \<Rightarrow> gtime \<Rightarrow> (string \<times> json) list" where
  "omit_zero key f t = (if t = 0 then [] else [(key, f t)])"

section \<open>The evidence\<close>

definition hash_json :: "(gtime \<Rightarrow> string) \<Rightarrow> inv_hash \<Rightarrow> json" where
  "hash_json tm h =
     JsObject ([(''hash'', JsString (ih_hash h)), (''firstSeenAt'', JsString (tm (ih_first h))),
                (''lastSeenAt'', JsString (tm (ih_last h)))]
               @ omit_none ''voteTimestamp'' (\<lambda>t. JsString (tm t)) (ih_signed h))"

definition vote_json :: "(gtime \<Rightarrow> string) \<Rightarrow> inv_vote \<Rightarrow> json" where
  "vote_json tm v =
     JsObject [(''observed'', js_bool (iv_observed v)), (''hashes'', JsArray (map (hash_json tm) (iv_hashes v))),
               (''conflicting'', js_bool (iv_conflicting v)), (''truncated'', js_bool (iv_truncated v))]"

definition validator_json :: "(gtime \<Rightarrow> string) \<Rightarrow> inv_validator \<Rightarrow> json" where
  "validator_json tm v =
     JsObject [(''address'', JsString (vv_address v)), (''moniker'', JsString (vv_moniker v)),
               (''votingPower'', JsString (vv_power v)), (''knownToRoster'', js_bool (vv_known v)),
               (''prevote'', vote_json tm (vv_prevote v)), (''precommit'', vote_json tm (vv_precommit v))]"

definition group_json :: "inv_group \<Rightarrow> json" where
  "group_json g =
     JsObject [(''hash'', JsString (pg_hash g)), (''votingPower'', JsString (pg_power g)),
               (''validatorCount'', js_int (pg_count g)), (''validators'', js_strings (pg_validators g)),
               (''isCanonical'', js_bool (pg_canonical g))]"

definition phase_json :: "inv_phase \<Rightarrow> json" where
  "phase_json p =
     JsObject [(''groups'', JsArray (map group_json (ph_groups p))), (''observedVotingPower'', JsString (ph_observed p)),
               (''observedValidatorCount'', js_int (ph_count p)), (''notObservedVotingPower'', JsString (ph_absent p)),
               (''notObservedValidators'', js_strings (ph_not_observed p)),
               (''conflictingValidators'', js_strings (ph_conflicting p))]"

definition round_json :: "(gtime \<Rightarrow> string) \<Rightarrow> inv_round \<Rightarrow> json" where
  "round_json tm r =
     JsObject [(''round'', js_int (vr_round r)), (''proposer'', JsString (vr_proposer r)),
               (''firstSeenAt'', JsString (tm (vr_first r))), (''lastSeenAt'', JsString (tm (vr_last r))),
               (''validatorRosterComplete'', js_bool (vr_complete r)), (''totalVotingPower'', JsString (vr_total r)),
               (''validators'', JsArray (map (validator_json tm) (vr_validators r))),
               (''prevotes'', phase_json (vr_prevotes r)), (''precommits'', phase_json (vr_precommits r)),
               (''truncated'', js_bool (vr_truncated r))]"

definition coverage_json :: "inv_coverage \<Rightarrow> json" where
  "coverage_json c =
     JsObject (omit_none ''firstObservedRound'' js_int (co_first c) @ omit_none ''lastObservedRound'' js_int (co_last c)
               @ [(''roundsObserved'', js_int (co_observed c)), (''missingRounds'', js_int (co_missing c)),
                  (''roundsEvicted'', js_int (co_evicted c)), (''validatorRosterComplete'', js_bool (co_complete c))])"

definition retention_json :: "inv_retention \<Rightarrow> json" where
  "retention_json r =
     JsObject [(''heightLimit'', js_int (re_height_limit r)), (''roundLimit'', js_int (re_round_limit r)),
               (''hashesPerValidatorLimit'', js_int (re_hash_limit r)),
               (''unknownValidatorLimit'', js_int (re_unknown_limit r)), (''earliestHeight'', js_int (re_earliest r)),
               (''latestHeight'', js_int (re_latest r)), (''retainedHeights'', JsArray (map js_int (re_heights r)))]"

text \<open>The fields of \<open>BlockInvestigation\<close> before and after its rounds.\<close>

definition report_head :: "(gtime \<Rightarrow> string) \<Rightarrow> investigation \<Rightarrow> (string \<times> json) list" where
  "report_head tm b =
     [(''height'', js_int (bi_height b)), (''found'', js_bool (bi_found b)), (''status'', JsString (bi_status b)),
      (''committed'', js_bool (bi_committed b)), (''canonicalHash'', JsString (bi_canonical b))]
     @ omit_none ''firstSeenAt'' (\<lambda>t. JsString (tm t)) (bi_first b)
     @ omit_none ''lastSeenAt'' (\<lambda>t. JsString (tm t)) (bi_last b)"

definition report_tail :: "investigation \<Rightarrow> (string \<times> json) list" where
  "report_tail b =
     [(''truncated'', js_bool (bi_truncated b)), (''coverage'', coverage_json (bi_coverage b)),
      (''retention'', retention_json (bi_retention b))]"

definition investigation_json :: "(gtime \<Rightarrow> string) \<Rightarrow> investigation \<Rightarrow> json" where
  "investigation_json tm b =
     JsObject (report_head tm b @ [(''rounds'', JsArray (map (round_json tm) (bi_rounds b)))] @ report_tail b)"

section \<open>The compact report\<close>

definition summary_group_json :: "group_summary \<Rightarrow> json" where
  "summary_group_json g =
     JsObject [(''hash'', JsString (gs_hash g)), (''votingPower'', JsString (gs_power g)),
               (''validatorCount'', js_int (gs_count g)), (''isCanonical'', js_bool (gs_canonical g))]"

definition summary_phase_json :: "phase_summary \<Rightarrow> json" where
  "summary_phase_json p =
     JsObject [(''groups'', JsArray (map summary_group_json (ps_groups p))),
               (''observedVotingPower'', JsString (ps_observed p)), (''observedValidatorCount'', js_int (ps_count p)),
               (''notObservedVotingPower'', JsString (ps_absent p)),
               (''notObservedValidatorCount'', js_int (ps_absent_count p)),
               (''conflictingValidatorCount'', js_int (ps_conflicting_count p))]"

definition summary_json :: "(gtime \<Rightarrow> string) \<Rightarrow> round_summary \<Rightarrow> json" where
  "summary_json tm r =
     JsObject [(''round'', js_int (sm_round r)), (''proposer'', JsString (sm_proposer r)),
               (''firstSeenAt'', JsString (tm (sm_first r))), (''lastSeenAt'', JsString (tm (sm_last r))),
               (''validatorRosterComplete'', js_bool (sm_complete r)), (''totalVotingPower'', JsString (sm_total r)),
               (''truncated'', js_bool (sm_truncated r)), (''prevotes'', summary_phase_json (sm_prevotes r)),
               (''precommits'', summary_phase_json (sm_precommits r))]"

text \<open>The \<open>Rounds\<close> of the outer struct hide those of the embedded report, and come in its own order.\<close>

definition compact_json :: "(gtime \<Rightarrow> string) \<Rightarrow> compact_investigation \<Rightarrow> json" where
  "compact_json tm c =
     JsObject (report_head tm (ci_report c) @ report_tail (ci_report c)
       @ [(''schemaVersion'', js_int (ci_schema c)), (''serverEpoch'', JsString (ci_epoch c)),
          (''revision'', JsString (ci_revision c)), (''rounds'', JsArray (map (summary_json tm) (ci_rounds c))),
          (''details'', JsArray (map (round_json tm) (ci_details c))), (''selectedRound'', js_pointer (ci_selected c)),
          (''comparisonRound'', js_pointer (ci_comparison c)), (''selectionStatus'', JsString (ci_selection_status c)),
          (''comparisonStatus'', JsString (ci_comparison_status c))])"

section \<open>The context of a full report\<close>

definition health_json :: "(gtime \<Rightarrow> string) \<Rightarrow> health \<Rightarrow> json" where
  "health_json tm h =
     JsObject ([(''mode'', JsString (he_mode h)), (''wsConnected'', js_bool (he_ws h)),
                (''wsEndpoint'', JsString (he_ws_endpoint h)), (''httpEndpoint'', JsString (he_http_endpoint h))]
       @ omit_zero ''lastEventAt'' (\<lambda>t. JsString (tm t)) (he_event_at h)
       @ omit_zero ''lastHTTPAt'' (\<lambda>t. JsString (tm t)) (he_http_at h)
       @ omit_zero ''lastSuccessAt'' (\<lambda>t. JsString (tm t)) (he_success_at h)
       @ (if he_error h = [] then [] else [(''lastError'', JsString (he_error h))])
       @ [(''staleAfterMs'', js_int (he_stale_ms h))])"

definition upgrade_json :: "upgrade option \<Rightarrow> json" where
  "upgrade_json u =
     (case u of None \<Rightarrow> JsNull
      | Some p \<Rightarrow> JsObject [(''height'', js_int (up_height p)), (''name'', JsString (up_name p))])"

definition context_json :: "(gtime \<Rightarrow> string) \<Rightarrow> context_view \<Rightarrow> json" where
  "context_json tm c =
     JsObject [(''chainId'', JsString (ic_chain c)), (''activeHeight'', js_int (ic_height c)),
               (''activeRound'', js_int (ic_round c)), (''committedHeight'', js_int (ic_committed c)),
               (''health'', health_json tm (ic_health c)), (''upgrade'', upgrade_json (ic_upgrade c)),
               (''generatedAt'', JsString (tm (ic_generated c))), (''source'', JsString (ic_source c))]"

text \<open>The map spliced into the shared body, its keys in order.\<close>

definition extra_json :: "(gtime \<Rightarrow> string) \<Rightarrow> context_view \<Rightarrow> (string \<times> string \<times> gtime) option \<Rightarrow> json" where
  "extra_json tm c captured =
     JsObject
       (case captured of
          None \<Rightarrow> [(''context'', context_json tm c)]
        | Some (epoch, revision, at_time) \<Rightarrow>
            [(''capturedAt'', JsString (tm at_time)), (''context'', context_json tm c), (''revision'', JsString revision),
             (''schemaVersion'', js_int 1), (''serverEpoch'', JsString epoch)])"

end
