(* ===== verification/Text_Search.thy ===== *)
theory Text_Search
  imports Text "HOL-Library.Sublist"
begin

text \<open>
  Searching in text: \<open>strings.HasPrefix\<close> is \<open>prefix\<close> of the library, \<open>strings.Contains\<close> is
  \<open>contains_text\<close>, and \<open>strings.Fields\<close> is \<open>fields\<close>.
\<close>

fun contains_text :: "string \<Rightarrow> string \<Rightarrow> bool" where
  "contains_text t [] \<longleftrightarrow> t = ''''"
| "contains_text t (c # s) \<longleftrightarrow> prefix t (c # s) \<or> contains_text t s"

lemma contains_text_iff: "contains_text t s \<longleftrightarrow> (\<exists>a b. s = a @ t @ b)"
proof (induction s)
  case (Cons c s)
  have "(\<exists>a b. c # s = a @ t @ b) \<longleftrightarrow> prefix t (c # s) \<or> (\<exists>a b. s = a @ t @ b)"
    by (auto simp: prefix_def Cons_eq_append_conv)
  with Cons show ?case by simp
qed auto

lemma contains_text_refl [simp]: "contains_text s s"
  by (simp add: contains_text_iff) (metis append_Nil append_Nil2)

text \<open>\<open>strings.Fields\<close>: the maximal runs of characters that are not spaces.\<close>

fun fields_from :: "string \<Rightarrow> string \<Rightarrow> string list" where
  "fields_from word [] = (if word = '''' then [] else [word])"
| "fields_from word (c # s) =
     (if is_space c then (if word = '''' then fields_from '''' s else word # fields_from '''' s)
      else fields_from (word @ [c]) s)"

definition fields :: "string \<Rightarrow> string list" where
  "fields s = fields_from '''' s"

lemma upper_char_idem: "lower_char (upper_char c) = lower_char c"
proof -
  define n where "n = (of_char c :: nat)"
  have n: "n < 256" "c = char_of n" by (simp_all add: n_def nat_of_char_less_256)
  have le: "CHR ''a'' \<le> char_of m \<longleftrightarrow> 97 \<le> m" "char_of m \<le> CHR ''z'' \<longleftrightarrow> m \<le> 122"
      "CHR ''A'' \<le> char_of m \<longleftrightarrow> 65 \<le> m" "char_of m \<le> CHR ''Z'' \<longleftrightarrow> m \<le> 90" if "m < 256" for m :: nat
    using that by (simp_all add: less_eq_char_def of_char_def [of "CHR ''a''"])
  show ?thesis using n(1) unfolding n(2) by (auto simp: lower_char_def upper_char_def le)
qed

lemma to_lower_upper: "to_lower (to_upper s) = to_lower s"
  by (simp add: to_lower_def to_upper_def upper_char_idem comp_def)

end
