(* ===== verification/Web_Api.thy ===== *)
theory Web_Api
  imports Text_Search Rounds_View Comparison
begin

text \<open>
  The HTTP surface (\<open>internal/web/server.go\<close> and \<open>session.go\<close>): options, the access middleware, the
  handlers and the static files.  A handler's \<open>any\<close> value is kept as the tree the code builds, with the
  records that \<open>encoding/json\<close> writes by their tags as leaves.  Chi's routing and the encoder itself are
  not part of the model.
\<close>

section \<open>Values, requests and responses\<close>

datatype any =
  JNull | JBool bool | JInt int | JStr string | JFloat rat | JTime gtime
| JList "any list" | JObj "(string \<times> any) list"
| JHealth health | JComparison rpc_comparison | JReports "round_report list" | JBlocks "block_sample list"

datatype body = NoBody | Text string | Json any

record response =
  rs_code :: int
  rs_headers :: "(string, string) gomap"
  rs_body :: body

record request =
  rq_method :: string
  rq_path :: string
  rq_authorization :: string
  rq_query :: url_values

record web_options =
  wo_max_clients :: int
  wo_rate_limit :: int
  wo_token :: string
  wo_cors :: string
  wo_name :: string
  wo_explorer :: string
  wo_version :: string

text \<open>The defaults of \<open>New\<close>.\<close>

definition effective_options :: "web_options \<Rightarrow> web_options" where
  "effective_options opts =
     opts\<lparr>wo_max_clients := (if wo_max_clients opts \<le> 0 then 256 else wo_max_clients opts),
       wo_rate_limit := (if wo_rate_limit opts \<le> 0 then 600 else wo_rate_limit opts)\<rparr>"

definition capabilities :: "string list" where
  "capabilities = [''context-v1'', ''rounds-compact-v1'', ''rounds-capture-v1'']"

definition write_json :: "int \<Rightarrow> any \<Rightarrow> response" where
  "write_json code v = \<lparr>rs_code = code, rs_headers = [(''Content-Type'', ''application/json'')], rs_body = Json v\<rparr>"

definition write_error :: "(int \<Rightarrow> string) \<Rightarrow> int \<Rightarrow> string \<Rightarrow> response" where
  "write_error status_text code msg =
     write_json code (JObj [(''error'', JObj [(''code'', JStr (status_text code)), (''message'', JStr msg)])])"

definition http_error :: "int \<Rightarrow> string \<Rightarrow> response" where
  "http_error code msg =
     \<lparr>rs_code = code, rs_headers = [(''Content-Type'', ''text/plain; charset=utf-8'')],
      rs_body = Text (msg @ [char_of (10 :: nat)])\<rparr>"

section \<open>Access\<close>

definition bearer_or_query :: "request \<Rightarrow> string" where
  "bearer_or_query rq =
     (if prefix ''Bearer '' (rq_authorization rq) then trim_prefix ''Bearer '' (rq_authorization rq)
      else q_get (rq_query rq) ''token'')"

definition gated :: "string \<Rightarrow> bool" where
  "gated path \<longleftrightarrow> prefix ''/api/'' path \<or> path = ''/ws''"

definition add_headers :: "(string \<times> string) list \<Rightarrow> response \<Rightarrow> response" where
  "add_headers hs r = r\<lparr>rs_headers := hs @ rs_headers r\<rparr>"

definition common_headers :: "string \<Rightarrow> (string \<times> string) list" where
  "common_headers path =
     [(''Referrer-Policy'', ''no-referrer''), (''X-Content-Type-Options'', ''nosniff'')]
       @ (if prefix ''/api/'' path then [(''Cache-Control'', ''no-store'')] else [])"

definition cors_headers :: "web_options \<Rightarrow> (string \<times> string) list" where
  "cors_headers opts =
     [(''Access-Control-Allow-Origin'', wo_cors opts), (''Access-Control-Allow-Credentials'', ''true''),
      (''Access-Control-Expose-Headers'', ''ETag, Retry-After'')]"

definition preflight :: response where
  "preflight =
     \<lparr>rs_code = 204, rs_headers = [(''Access-Control-Allow-Methods'', ''GET, OPTIONS''),
        (''Access-Control-Allow-Headers'', ''Authorization, Content-Type, If-None-Match'')], rs_body = NoBody\<rparr>"

text \<open>
  \<open>next\<close> is the rest of the server.  The constant-time comparison of equal lengths is equality.  A handler
  that sets a header of the same name replaces it; the list keeps the later one last.
\<close>

definition authorized :: "web_options \<Rightarrow> (request \<Rightarrow> response) \<Rightarrow> request \<Rightarrow> response" where
  "authorized opts next rq =
     (if wo_token opts \<noteq> '''' \<and> gated (rq_path rq)
      then if bearer_or_query rq \<noteq> wo_token opts then http_error 401 ''unauthorized''
           else next (if q_has (rq_query rq) ''token''
                      then rq\<lparr>rq_query := gdel ''token'' (rq_query rq)\<rparr> else rq)
      else next rq)"

definition middleware :: "web_options \<Rightarrow> (request \<Rightarrow> response) \<Rightarrow> request \<Rightarrow> response" where
  "middleware opts next rq =
     add_headers (common_headers (rq_path rq))
       (if gated (rq_path rq) \<and> wo_cors opts \<noteq> ''''
        then add_headers (cors_headers opts)
               (if rq_method rq = ''OPTIONS'' then preflight else authorized opts next rq)
        else authorized opts next rq)"

section \<open>Shared JSON shapes\<close>

definition vote_json :: "vote \<Rightarrow> any" where
  "vote_json v = JObj [(''kind'', JStr (vote_kind_string (vo_kind v))), (''blockIDHash'', JStr (vo_hash v))]"

definition validator_json :: "validator_with_vote \<Rightarrow> any" where
  "validator_json v =
     JObj
       ([(''address'', JStr (va_address (row_validator v))), (''index'', JInt (va_index (row_validator v))),
         (''votingPower'', JStr (format_int (va_power (row_validator v)))),
         (''votingPowerPercent'', JFloat (va_pct (row_validator v))),
         (''prevote'', vote_json (rv_prevote (row_vote v))), (''precommit'', vote_json (rv_precommit (row_vote v))),
         (''isProposer'', JBool (rv_proposer (row_vote v)))]
        @ (case row_chain v of
             None \<Rightarrow> []
           | Some c \<Rightarrow>
               [(''operatorAddress'', JStr (cv_operator c)), (''moniker'', JStr (cv_moniker c)),
                (''jailed'', JBool (cv_jailed c)), (''active'', JBool (cv_active c)),
                (''commissionRate'', JStr (cv_commission c))]))"

definition upgrade_json :: "upgrade option \<Rightarrow> any" where
  "upgrade_json u =
     (case u of None \<Rightarrow> JNull | Some p \<Rightarrow> JObj [(''name'', JStr (up_name p)), (''height'', JInt (up_height p))])"

definition error_map :: "state_data \<Rightarrow> (string \<times> any) list" where
  "error_map s =
     List.map_filter (\<lambda>(k, e). map_option (\<lambda>m. (k, JStr m)) e)
       [(''consensus'', sd_consensus_error s), (''validators'', sd_validators_error s),
        (''status'', sd_status_error s), (''upgrade'', sd_upgrade_error s)]"

definition snapshot_json :: "state_data \<Rightarrow> tracker option \<Rightarrow> (string \<times> any) list" where
  "snapshot_json snap tr =
       [(''height'', JInt (sd_height snap)), (''round'', JInt (sd_round snap)), (''step'', JInt (sd_step snap)),
         (''startTime'', JTime (sd_start snap)), (''blockTime'', JInt (go_div (sd_block_time snap) millisecond)),
         (''activeRPC'', JStr (sd_active_rpc snap)),
         (''validators'', JList (case sd_last_round snap of None \<Rightarrow> [] | Some vw \<Rightarrow> map validator_json (vw_rows vw))),
         (''committedHeight'', JInt (sd_committed snap)), (''health'', JHealth (sd_health snap)),
         (''blocks'', JBlocks (sd_blocks snap)), (''rpcComparison'', JComparison (sd_comparison snap)),
         (''upgrade'', upgrade_json (sd_upgrade snap))]
        @ (case sd_node_status snap of
             None \<Rightarrow> []
           | Some ns \<Rightarrow>
               [(''chain'', JObj [(''network'', JStr (ns_network ns)), (''cometVersion'', JStr (ns_version ns)),
                                  (''ourValidator'', JStr (ns_our ns)), (''catchingUp'', JBool (ns_catching_up ns))])])
        @ (case tr of
             None \<Rightarrow> []
           | Some t \<Rightarrow>
               (let rep = current_report t
                in [(''divergence'', JObj [(''live'', JReports (rp_live rep)), (''history'', JReports (rp_history rep))])]))
        @ [(''errors'', JObj (error_map snap))]"

section \<open>Handlers\<close>

definition handle_healthz :: response where
  "handle_healthz = \<lparr>rs_code = 200, rs_headers = [], rs_body = Text ''ok''\<rparr>"

definition handle_readyz :: "bool option \<Rightarrow> response" where
  "handle_readyz ready =
     (if ready = Some False then http_error 503 ''not ready''
      else \<lparr>rs_code = 200, rs_headers = [], rs_body = Text ''ready''\<rparr>)"

definition handle_version :: "web_options \<Rightarrow> response" where
  "handle_version opts = write_json 200 (JObj [(''version'', JStr (wo_version opts))])"

definition handle_session :: "string \<Rightarrow> response" where
  "handle_session epoch =
     write_json 200
       (JObj [(''schemaVersion'', JInt 1), (''serverEpoch'', JStr epoch), (''capabilities'', JList (map JStr capabilities)),
              (''cadence'', JObj [(''snapshotMs'', JInt 1000), (''activePollMs'', JInt 1000), (''settledPollMs'', JInt 5000)])])"

definition handle_state :: "web_options \<Rightarrow> state_data \<Rightarrow> gtime \<Rightarrow> tracker option \<Rightarrow> response" where
  "handle_state opts s now tr =
     write_json 200
       (JObj (snapshot_json (snapshot s now) tr
                @ [(''explorerURL'', JStr (wo_explorer opts)), (''displayName'', JStr (wo_name opts))]))"

definition handle_chain :: "state_data \<Rightarrow> gtime \<Rightarrow> response" where
  "handle_chain s now =
     (let snap = snapshot s now
      in write_json 200
           (JObj
             ([(''height'', JInt (sd_height snap)), (''round'', JInt (sd_round snap)), (''step'', JInt (sd_step snap)),
               (''blockTime'', JInt (go_div (sd_block_time snap) millisecond)),
               (''activeRPC'', JStr (sd_active_rpc snap)), (''committedHeight'', JInt (sd_committed snap)),
               (''health'', JHealth (sd_health snap)), (''rpcComparison'', JComparison (sd_comparison snap)),
               (''upgrade'', upgrade_json (sd_upgrade snap))]
              @ (case sd_node_status snap of
                   None \<Rightarrow> []
                 | Some ns \<Rightarrow>
                     [(''network'', JStr (ns_network ns)), (''cometVersion'', JStr (ns_version ns)),
                      (''catchingUp'', JBool (ns_catching_up ns)), (''ourValidator'', JStr (ns_our ns))]))))"

definition search_row :: "string \<Rightarrow> validator_with_vote \<Rightarrow> bool" where
  "search_row search v =
     (let mon = (case row_chain v of None \<Rightarrow> '''' | Some c \<Rightarrow> to_lower (cv_moniker c));
          operator = (case row_chain v of None \<Rightarrow> '''' | Some c \<Rightarrow> to_lower (cv_operator c))
      in contains_text search mon \<or> contains_text search (to_lower (va_address (row_validator v)))
         \<or> contains_text search operator)"

definition handle_validators :: "state_data \<Rightarrow> gtime \<Rightarrow> url_values \<Rightarrow> response" where
  "handle_validators s now q =
     (case sd_last_round (snapshot s now) of
        None \<Rightarrow> write_json 200 (JObj [(''total'', JInt 0), (''items'', JList [])])
      | Some vw \<Rightarrow>
          let search = to_lower (q_get q ''search'');
              rows = (if search \<noteq> '''' then filter (search_row search) (vw_rows vw) else vw_rows vw);
              out = map validator_json rows
          in write_json 200 (JObj [(''total'', JInt (int (length out))), (''items'', JList out)]))"

definition handle_validator :: "(int \<Rightarrow> string) \<Rightarrow> state_data \<Rightarrow> gtime \<Rightarrow> string \<Rightarrow> response" where
  "handle_validator status_text s now address =
     (let addr = to_upper address
      in case sd_last_round (snapshot s now) of
           None \<Rightarrow> write_error status_text 404 ''not found''
         | Some vw \<Rightarrow>
             (case find (\<lambda>v. va_address (row_validator v) = addr) (vw_rows vw) of
                None \<Rightarrow> write_error status_text 404 ''not found''
              | Some v \<Rightarrow> write_json 200 (validator_json v)))"

definition handle_divergence :: "tracker \<Rightarrow> url_values \<Rightarrow> response" where
  "handle_divergence t q =
     (let rep = current_report t; h = q_get q ''height'';
          live = (if h \<noteq> '''' then filter (\<lambda>rd. format_int (rr_height rd) = h) (rp_live rep) else rp_live rep)
      in write_json 200 (JObj [(''live'', JReports live)]))"

definition handle_divergence_history :: "tracker \<Rightarrow> response" where
  "handle_divergence_history t = write_json 200 (JObj [(''history'', JReports (rp_history (current_report t)))])"

definition handle_blocks :: "state_data \<Rightarrow> gtime \<Rightarrow> response" where
  "handle_blocks s now = write_json 200 (JObj [(''items'', JBlocks (sd_blocks (snapshot s now)))])"

definition api_not_found :: "(int \<Rightarrow> string) \<Rightarrow> response" where
  "api_not_found status_text = write_error status_text 404 ''API route not found''"

text \<open>The route label and status that the metrics see.\<close>

definition observed_status :: "string \<Rightarrow> int \<Rightarrow> int" where
  "observed_status route status = (if status = 0 then (if route = ''/ws'' then 101 else 200) else status)"

text \<open>The static files; \<open>files\<close> are those embedded in the program and \<open>serve\<close> the file server.\<close>

definition spa :: "(string \<Rightarrow> string option) \<Rightarrow> (request \<Rightarrow> response) \<Rightarrow> request \<Rightarrow> response" where
  "spa files serve rq =
     (let path = (let p = trim_prefix ''/'' (rq_path rq) in if p = '''' then ''index.html'' else p);
          html = [(''Content-Type'', ''text/html; charset=utf-8'')]
      in if files path \<noteq> None then serve rq
         else case files ''index.html'' of
           Some data \<Rightarrow> \<lparr>rs_code = 200, rs_headers = html, rs_body = Text data\<rparr>
         | None \<Rightarrow>
             (case files ''stub.html'' of
                Some data \<Rightarrow> \<lparr>rs_code = 503, rs_headers = html, rs_body = Text data\<rparr>
              | None \<Rightarrow> http_error 503 ''web UI not built (run `make web`)''))"

section \<open>Properties\<close>

definition without_token :: "request \<Rightarrow> request" where
  "without_token rq = rq\<lparr>rq_query := gdel ''token'' (rq_query rq)\<rparr>"

lemma authorized_token:
  assumes "wo_token opts \<noteq> ''''" and "gated (rq_path rq)"
  shows "authorized opts nxt rq =
    (if bearer_or_query rq \<noteq> wo_token opts then http_error 401 ''unauthorized'' else nxt (without_token rq))"
proof -
  have "gdel ''token'' (rq_query rq) = rq_query rq" if "\<not> q_has (rq_query rq) ''token''"
    using that by (intro delete_id) (auto simp: q_has_def map_of_eq_None_iff)
  with assms show ?thesis by (simp add: authorized_def without_token_def)
qed


definition demo_request :: "string \<Rightarrow> request" where
  "demo_request tok =
     \<lparr>rq_method = ''GET'', rq_path = ''/api/state'', rq_authorization = '''',
      rq_query = [(''token'', (tok, [])), (''height'', (''5'', []))]\<rparr>"

definition demo_web :: web_options where
  "demo_web =
     \<lparr>wo_max_clients = 0, wo_rate_limit = 0, wo_token = ''secret'', wo_cors = '''', wo_name = '''',
      wo_explorer = '''', wo_version = ''1''\<rparr>"


text \<open>The single-validator endpoint and the search agree.  When \<open>/api/validators/{address}\<close> finds a
  validator, it is the one with that address whatever the letter case, and searching for the same text
  in \<open>/api/validators\<close> lists it, among exactly as many items as the total says.\<close>

theorem found_validator_listed:
  assumes "rs_code (handle_validator status_text s now a) = 200" and "q_get q ''search'' = a"
  shows "\<exists>v xs. handle_validator status_text s now a = write_json 200 (validator_json v)
           \<and> va_address (row_validator v) = to_upper a
           \<and> handle_validators s now q = write_json 200 (JObj [(''total'', JInt (int (length xs))), (''items'', JList xs)])
           \<and> validator_json v \<in> set xs"
proof -
  obtain vw v where v: "sd_last_round (snapshot s now) = Some vw"
      "find (\<lambda>v. va_address (row_validator v) = to_upper a) (vw_rows vw) = Some v"
      "handle_validator status_text s now a = write_json 200 (validator_json v)"
    using assms(1) by (auto simp: handle_validator_def write_error_def write_json_def Let_def split: option.splits)
  from v(2) have row: "v \<in> set (vw_rows vw)" "va_address (row_validator v) = to_upper a"
    by (auto simp: find_Some_iff)
  have "search_row (to_lower a) v" by (simp add: search_row_def Let_def row(2) to_lower_upper)
  with row(1) v(1) assms(2) show ?thesis
    by (intro exI [of _ v] exI [of _ "map validator_json
        (if to_lower a \<noteq> '''' then filter (search_row (to_lower a)) (vw_rows vw) else vw_rows vw)"])
      (auto simp: v(3) row(2) handle_validators_def Let_def)
qed

definition demo_row :: "string \<Rightarrow> string \<Rightarrow> validator_with_vote" where
  "demo_row address moniker =
     \<lparr>row_validator = \<lparr>va_address = address, va_index = 0, va_power = 10, va_pct = 50\<rparr>, row_vote = zero_round_vote,
      row_chain = Some \<lparr>cv_operator = ''op'', cv_cons_addr = '''', cv_raw = '''', cv_moniker = moniker, cv_jailed = False,
                        cv_active = True, cv_commission = '''', cv_assigned = ''''\<rparr>\<rparr>"

definition demo_dash :: state_data where
  "demo_dash =
     (new_state 0 0)\<lparr>sd_last_round :=
        Some \<lparr>vw_round = 0, vw_rows = [demo_row ''AA01'' ''one'', demo_row ''AB02'' ''two''], vw_total = 20\<rparr>\<rparr>"

theorem found_validator_listed_witness:
  "\<exists>v xs. handle_validator (\<lambda>c. ''Not Found'') demo_dash 0 ''ab02'' = write_json 200 (validator_json v)
     \<and> va_address (row_validator v) = ''AB02''
     \<and> handle_validators demo_dash 0 [(''search'', (''ab02'', []))]
         = write_json 200 (JObj [(''total'', JInt (int (length xs))), (''items'', JList xs)])"
proof -
  have "rs_code (handle_validator (\<lambda>c. ''Not Found'') demo_dash 0 ''ab02'') = 200"
    and "to_upper ''ab02'' = ''AB02''" by code_simp+
  with found_validator_listed [of "\<lambda>c. ''Not Found''" demo_dash 0 "''ab02''" "[(''search'', (''ab02'', []))]"]
  show ?thesis by (auto simp: q_get_def)
qed

end
