(* ===== verification/Rounds_Handler.thy ===== *)
theory Rounds_Handler
  imports Rounds_Cache_Props Report_Json Web_Api Machines
begin

text \<open>
  The handler of block investigations (\<open>handleBlockRounds\<close> of \<open>internal/web/rounds.go\<close>) around the cache:
  what it answers for each outcome, and the requests that are in flight between their admission and their
  answer.  What the cache gives a request is the outcome of the operations of \<open>Rounds_Cache\<close>; times are
  written by \<open>tm\<close>.
\<close>

section \<open>Answers\<close>

text \<open>
  The outcome of \<open>get\<close> or \<open>build\<close> and of the encoding; \<open>None\<close> is an error.  \<open>oc_gone\<close> says that the
  client has left, so nothing is written.
\<close>

record outcome =
  oc_gone :: bool
  oc_got :: "(rounds_entry \<times> archive_version) option"
  oc_encoded :: "encoded option"

definition set_header :: "string \<Rightarrow> string \<Rightarrow> response \<Rightarrow> response" where
  "set_header k v r = r\<lparr>rs_headers := (k, v) # rs_headers r\<rparr>"

definition busy :: "(int \<Rightarrow> string) \<Rightarrow> response" where
  "busy status_text =
     set_header ''Retry-After'' ''1'' (write_error status_text 503 ''round report capacity is busy; retry shortly'')"

definition unavailable :: "(int \<Rightarrow> string) \<Rightarrow> bool \<Rightarrow> response option" where
  "unavailable status_text left =
     (if left then None else Some (write_error status_text 503 ''round observations are temporarily unavailable''))"

definition compact_answer :: "string \<Rightarrow> encoded \<Rightarrow> response" where
  "compact_answer if_none_match ec =
     set_header ''Cache-Control'' ''private, max-age=0, must-revalidate''
       (set_header ''ETag'' (ec_etag ec)
         (case compact_response if_none_match ec of
            (code, text) \<Rightarrow>
              if code = 304 then \<lparr>rs_code = 304, rs_headers = [], rs_body = NoBody\<rparr>
              else \<lparr>rs_code = code, rs_headers = [(''Content-Type'', ''application/json'')], rs_body = Text text\<rparr>))"

definition full_answer ::
  "(gtime \<Rightarrow> string) \<Rightarrow> string \<Rightarrow> context_view \<Rightarrow> bool \<Rightarrow> rounds_entry \<Rightarrow> archive_version \<Rightarrow> string \<Rightarrow> response" where
  "full_answer tm epoch ctx capture e v body =
     \<lparr>rs_code = 200, rs_headers = [(''Content-Type'', ''application/json'')],
      rs_body = Text (full_response body
        (json_text (extra_json tm ctx
          (if capture then Some (epoch, report_revision e v, rn_captured e) else None))))\<rparr>"

text \<open>The handler after admission; \<open>None\<close> writes nothing.\<close>

definition answer ::
  "(int \<Rightarrow> string) \<Rightarrow> (gtime \<Rightarrow> string) \<Rightarrow> string \<Rightarrow> context_view \<Rightarrow> string \<Rightarrow> round_request \<Rightarrow> outcome \<Rightarrow> response option" where
  "answer status_text tm epoch ctx if_none_match rq out =
     (case oc_got out of
        None \<Rightarrow> unavailable status_text (oc_gone out)
      | Some (e, v) \<Rightarrow>
          if rq_view rq = ''compact'' then
            (case oc_encoded out of
               None \<Rightarrow> unavailable status_text (oc_gone out)
             | Some ec \<Rightarrow> Some (compact_answer if_none_match ec))
          else if rq_capture rq then Some (full_answer tm epoch ctx True e v (rn_full e))
          else
            (case oc_encoded out of
               None \<Rightarrow> unavailable status_text (oc_gone out)
             | Some ec \<Rightarrow> Some (full_answer tm epoch ctx False e v (ec_body ec))))"

section \<open>Requests in flight\<close>

record rounds_server =
  rv_cache :: rounds_cache
  rv_inflight :: "(nat \<times> round_request \<times> string) list"
  rv_replies :: "(nat \<times> response option) list"

text \<open>
  A request arrives with its height, whether tracker and state are set, its query and its \<open>If-None-Match\<close>;
  the cache works for the requests in flight; a request is answered and leaves its lane.
\<close>

datatype rounds_op =
  Arrive nat string bool url_values string
| Work cache_op
| Answer nat context_view outcome

definition arrive ::
  "(int \<Rightarrow> string) \<Rightarrow> nat \<Rightarrow> string \<Rightarrow> bool \<Rightarrow> url_values \<Rightarrow> string \<Rightarrow> rounds_server \<Rightarrow> rounds_server" where
  "arrive status_text i raw available q if_none_match s =
     (case block_rounds_request raw available q of
        Inl (code, msg) \<Rightarrow> s\<lparr>rv_replies := (i, Some (write_error status_text code msg)) # rv_replies s\<rparr>
      | Inr rq \<Rightarrow>
          (case admit (lane_of rq) (rv_cache s) of
             (c, True) \<Rightarrow> s\<lparr>rv_cache := c, rv_inflight := (i, rq, if_none_match) # rv_inflight s\<rparr>
           | (c, False) \<Rightarrow> s\<lparr>rv_replies := (i, Some (busy status_text)) # rv_replies s\<rparr>))"

definition leave ::
  "(int \<Rightarrow> string) \<Rightarrow> (gtime \<Rightarrow> string) \<Rightarrow> string \<Rightarrow> nat \<Rightarrow> context_view \<Rightarrow> outcome \<Rightarrow> rounds_server \<Rightarrow> rounds_server" where
  "leave status_text tm epoch i ctx out s =
     (case map_of (rv_inflight s) i of
        None \<Rightarrow> s
      | Some (rq, inm) \<Rightarrow>
          s\<lparr>rv_cache := release (lane_of rq) (rv_cache s), rv_inflight := remove1 (i, rq, inm) (rv_inflight s),
            rv_replies := (i, answer status_text tm epoch ctx inm rq out) # rv_replies s\<rparr>)"

definition is_admission :: "cache_op \<Rightarrow> bool" where
  "is_admission x = (case x of Admit l \<Rightarrow> True | Release l \<Rightarrow> True | _ \<Rightarrow> False)"

text \<open>The encoders, the digest, the server's epoch and the tracker's moments are those of \<open>cache_step\<close>.\<close>

fun rounds_step ::
  "(investigation \<Rightarrow> string) \<Rightarrow> (compact_investigation \<Rightarrow> string) \<Rightarrow> (string \<Rightarrow> string) \<Rightarrow> string \<Rightarrow> (nat \<Rightarrow> tracker)
     \<Rightarrow> (int \<Rightarrow> string) \<Rightarrow> (gtime \<Rightarrow> string) \<Rightarrow> rounds_op \<Rightarrow> rounds_server \<Rightarrow> rounds_server option" where
  "rounds_step mj mc sha epoch trk st tm (Arrive i raw available q inm) s = Some (arrive st i raw available q inm s)"
| "rounds_step mj mc sha epoch trk st tm (Work x) s =
     (if is_admission x then Some s
      else map_option (\<lambda>(c, _). s\<lparr>rv_cache := c\<rparr>) (cache_step mj mc sha epoch trk x (rv_cache s)))"
| "rounds_step mj mc sha epoch trk st tm (Answer i ctx out) s = Some (leave st tm epoch i ctx out s)"

fun run_rounds ::
  "(investigation \<Rightarrow> string) \<Rightarrow> (compact_investigation \<Rightarrow> string) \<Rightarrow> (string \<Rightarrow> string) \<Rightarrow> string \<Rightarrow> (nat \<Rightarrow> tracker)
     \<Rightarrow> (int \<Rightarrow> string) \<Rightarrow> (gtime \<Rightarrow> string) \<Rightarrow> rounds_op list \<Rightarrow> rounds_server \<Rightarrow> rounds_server option" where
  "run_rounds mj mc sha epoch trk st tm [] s = Some s"
| "run_rounds mj mc sha epoch trk st tm (x # xs) s =
     Option.bind (rounds_step mj mc sha epoch trk st tm x s) (run_rounds mj mc sha epoch trk st tm xs)"

definition new_rounds_server :: rounds_server where
  "new_rounds_server = \<lparr>rv_cache = new_rounds_cache, rv_inflight = [], rv_replies = []\<rparr>"

section \<open>Every admitted request leaves its lane\<close>

lemma trim_lanes: "trim_locked c = Some c' \<Longrightarrow> rc_lanes c' = rc_lanes c"
proof (rule trim_locked.raw_induct [where P = "\<lambda>c c'. rc_lanes c' = rc_lanes c"])
  fix f c c'
  assume "\<And>c c'. f c = Some c' \<Longrightarrow> rc_lanes c' = rc_lanes c"
    and "(if rc_bytes c > rounds_cache_bytes \<or> length (rc_entries c) > rounds_cache_entries
          then f (remove_locked (oldest_entry c) c) else Some c) = Some c'"
  then show "rc_lanes c' = rc_lanes c" by (auto split: if_splits)
qed

lemma publish_lanes: "Rounds_Cache.publish h e v c = Some c' \<Longrightarrow> rc_lanes c' = rc_lanes c"
  by (auto simp: Rounds_Cache.publish_def Let_def allocate_def dest!: trim_lanes split: if_splits)

lemma store_lanes: "store_variant i key ec c = Some c' \<Longrightarrow> rc_lanes c' = rc_lanes c"
  by (auto simp: store_variant_def end_flight_def add_variant_def clear_variants_def dest!: trim_lanes
      split: option.splits if_splits)

lemma cache_step_lanes:
  assumes "cache_step mj mc sha epoch trk x c = Some (c', rs)" and "\<not> is_admission x"
  shows "rc_lanes c' = rc_lanes c"
  using assms
  by (cases x) (auto simp: is_admission_def get_start_def allocate_def end_flight_def Let_def
      dest: publish_lanes store_lanes split: option.splits if_splits)

text \<open>The places taken in the lanes are those of the requests in flight, within each lane's capacity.\<close>

definition lanes_inv :: "rounds_server \<Rightarrow> bool" where
  "lanes_inv s \<longleftrightarrow>
     mset (rc_lanes (rv_cache s)) = mset (map (\<lambda>(i, rq, inm). lane_of rq) (rv_inflight s))
     \<and> (\<forall>l. count_list (rc_lanes (rv_cache s)) l \<le> lane_cap l)"

lemma count_list_remove1: "count_list (remove1 x xs) l \<le> count_list xs l"
  by (induction xs) auto

lemma arrive_inv: "lanes_inv s \<Longrightarrow> lanes_inv (arrive st i raw available q inm s)"
  by (auto simp: arrive_def lanes_inv_def admit_def split: sum.split prod.split)

lemma leave_inv:
  assumes "lanes_inv s"
  shows "lanes_inv (leave st tm epoch i ctx out s)"
proof (cases "map_of (rv_inflight s) i")
  case (Some x)
  obtain rq inm where x: "x = (rq, inm)" by (cases x)
  with Some have mem: "(i, rq, inm) \<in> set (rv_inflight s)" by (auto dest: map_of_SomeD)
  have "mset (map (\<lambda>(i, rq, inm). lane_of rq) (remove1 (i, rq, inm) (rv_inflight s)))
      = mset (map (\<lambda>(i, rq, inm). lane_of rq) (rv_inflight s)) - {#lane_of rq#}"
    using mem by (simp add: image_mset_Diff)
  with assms Some x show ?thesis
    by (auto simp: leave_def lanes_inv_def release_def intro: le_trans [OF count_list_remove1] le_trans [OF diff_le_self])
qed (use assms in \<open>simp add: leave_def\<close>)

lemma rounds_step_inv:
  assumes "rounds_step mj mc sha epoch trk st tm x s = Some s'" and "lanes_inv s"
  shows "lanes_inv s'"
proof (cases x)
  case (Work y)
  with assms show ?thesis by (auto simp: lanes_inv_def dest!: cache_step_lanes split: if_splits)
qed (use assms arrive_inv leave_inv in auto)

interpretation rounds_lanes:
  machine "rounds_step mj mc sha epoch trk st tm" "run_rounds mj mc sha epoch trk st tm" "\<lambda>_. True" lanes_inv
  for mj mc sha epoch trk st tm
  by unfold_locales (auto intro: rounds_step_inv split: option.split)

lemma count_list_mset: "count_list xs x = count (mset xs) x"
  by (induction xs) auto

text \<open>
  However requests, the cache's work and answers interleave, the requests in flight in a lane are exactly those
  that hold a place in it, so at most 256 compact, 8 full and 2 capturing ones work at a time.
\<close>

theorem requests_in_flight:
  assumes "run_rounds mj mc sha epoch trk st tm xs new_rounds_server = Some s"
  shows "length (filter (\<lambda>(i, rq, inm). lane_of rq = l) (rv_inflight s)) = count_list (rc_lanes (rv_cache s)) l
    \<and> length (filter (\<lambda>(i, rq, inm). lane_of rq = l) (rv_inflight s)) \<le> lane_cap l"
proof -
  have "lanes_inv s"
    by (rule rounds_lanes.run_inv [OF assms])
      (simp_all add: list.pred_True lanes_inv_def new_rounds_server_def new_rounds_cache_def)
  then have lanes: "mset (rc_lanes (rv_cache s)) = mset (map (\<lambda>(i, rq, inm). lane_of rq) (rv_inflight s))"
      and cap: "count_list (rc_lanes (rv_cache s)) l \<le> lane_cap l"
    unfolding lanes_inv_def by blast+
  from lanes have "count_list (rc_lanes (rv_cache s)) l = count_list (map (\<lambda>(i, rq, inm). lane_of rq) (rv_inflight s)) l"
    by (simp only: count_list_mset)
  moreover have "count_list (map (\<lambda>(i, rq, inm). lane_of rq) rs) l = length (filter (\<lambda>(i, rq, inm). lane_of rq = l) rs)"
    for rs :: "(nat \<times> round_request \<times> string) list"
    by (induction rs) auto
  ultimately show ?thesis using cap by simp
qed

end
