(* ===== verification/Config_Check.thy ===== *)
theory Config_Check
  imports Text Tracker_State
begin

text \<open>
  The configuration (\<open>internal/config/config.go\<close>): defaults, environment, the primary endpoint and
  \<open>Validate\<close>.  \<open>env\<close> is the environment, with the empty string for a variable that is not set.  The
  parsers of URLs, addresses and prefixes in \<open>text_parsers\<close> stand for \<open>url.Parse\<close>, \<open>net.SplitHostPort\<close> and
  \<open>netip.ParsePrefix\<close>; reading the TOML file is library code.
\<close>

section \<open>The schema\<close>

record rpc_entry =
  rpc_url :: string
  rpc_primary :: bool

record chain_config =
  ch_name :: string
  ch_prefix :: string
  ch_rpcs :: "rpc_entry list"
  ch_lcd :: string
  ch_monitored :: "string list"
  ch_explorer :: string

record refresh_config =
  rf_validators :: duration
  rf_upgrade :: duration
  rf_status :: duration
  rf_block_time :: duration
  rf_consensus :: duration

text \<open>A 64-bit float as the checks see it.\<close>

datatype float_value = NaN | Infinite | Finite rat

record divergence_config =
  dc_threshold :: float_value
  dc_history :: int
  dc_prevotes :: bool

record web_config =
  we_listen :: string
  we_token :: string
  we_cors :: string
  we_disabled :: bool
  we_max_clients :: int
  we_rate_limit :: int
  we_proxies :: "string list"

record ui_config =
  ui_mode :: string
  ui_timezone :: string
  ui_no_emojis :: bool
  ui_web :: web_config

record obs_config =
  ob_listen :: string
  ob_level :: string
  ob_format :: string

record app_config =
  ac_chain :: chain_config
  ac_refresh :: refresh_config
  ac_divergence :: divergence_config
  ac_ui :: ui_config
  ac_obs :: obs_config

definition config_defaults :: app_config where
  "config_defaults =
     \<lparr>ac_chain = \<lparr>ch_name = '''', ch_prefix = ''inj'',
        ch_rpcs = [\<lparr>rpc_url = ''https://tm.injective.network'', rpc_primary = True\<rparr>,
                   \<lparr>rpc_url = ''https://injective-rpc.publicnode.com:443'', rpc_primary = False\<rparr>],
        ch_lcd = ''https://lcd.injective.network'', ch_monitored = [],
        ch_explorer = ''https://explorer.injective.network/validator/{address}''\<rparr>,
      ac_refresh = \<lparr>rf_validators = 30 * second, rf_upgrade = 300 * second, rf_status = 5 * second,
        rf_block_time = 30 * second, rf_consensus = second\<rparr>,
      ac_divergence = \<lparr>dc_threshold = Finite 5, dc_history = 32, dc_prevotes = False\<rparr>,
      ac_ui = \<lparr>ui_mode = ''tui'', ui_timezone = ''UTC'', ui_no_emojis = False,
        ui_web = \<lparr>we_listen = ''127.0.0.1:8080'', we_token = '''', we_cors = '''', we_disabled = False,
                  we_max_clients = 256, we_rate_limit = 600, we_proxies = []\<rparr>\<rparr>,
      ac_obs = \<lparr>ob_listen = ''127.0.0.1:9091'', ob_level = ''info'', ob_format = ''text''\<rparr>\<rparr>"

section \<open>The environment\<close>

definition split_csv :: "string \<Rightarrow> string list" where
  "split_csv s = filter (\<lambda>t. t \<noteq> '''') (map trim_space (split_on CHR '','' s))"

text \<open>The two numbers; the code ranges over a map of them, so the order is not fixed.\<close>

definition positive_env :: "(string \<Rightarrow> string) \<Rightarrow> string \<Rightarrow> int \<Rightarrow> string + int" where
  "positive_env env name n0 =
     (if env name = '''' then Inr n0
      else case parse_int64 (env name) of
             None \<Rightarrow> Inl (name @ '' must be a positive integer'')
           | Some n \<Rightarrow> if n \<le> 0 then Inl (name @ '' must be a positive integer'') else Inr n)"

definition set_env :: "(string \<Rightarrow> string) \<Rightarrow> string \<Rightarrow> (string \<Rightarrow> app_config \<Rightarrow> app_config) \<Rightarrow> app_config \<Rightarrow> app_config" where
  "set_env env name f c = (if env name = '''' then c else f (env name) c)"

definition on_web :: "(web_config \<Rightarrow> web_config) \<Rightarrow> app_config \<Rightarrow> app_config" where
  "on_web f c = c\<lparr>ac_ui := (ac_ui c)\<lparr>ui_web := f (ui_web (ac_ui c))\<rparr>\<rparr>"

definition on_chain :: "(chain_config \<Rightarrow> chain_config) \<Rightarrow> app_config \<Rightarrow> app_config" where
  "on_chain f c = c\<lparr>ac_chain := f (ac_chain c)\<rparr>"

definition apply_env :: "(string \<Rightarrow> string) \<Rightarrow> app_config \<Rightarrow> string + app_config" where
  "apply_env env c =
     (case positive_env env ''CMTOP_WEB_MAX_CLIENTS'' (we_max_clients (ui_web (ac_ui c))) of
        Inl err \<Rightarrow> Inl err
      | Inr clients \<Rightarrow>
          (case positive_env env ''CMTOP_WEB_API_RATE_LIMIT'' (we_rate_limit (ui_web (ac_ui c))) of
             Inl err \<Rightarrow> Inl err
           | Inr rate \<Rightarrow>
               Inr (set_env env ''CMTOP_METRICS_LISTEN'' (\<lambda>v c. c\<lparr>ac_obs := (ac_obs c)\<lparr>ob_listen := v\<rparr>\<rparr>)
                   (set_env env ''CMTOP_MONITORED_RPCS'' (\<lambda>v. on_chain (\<lambda>h. h\<lparr>ch_monitored := split_csv v\<rparr>))
                   (set_env env ''CMTOP_LCD'' (\<lambda>v. on_chain (\<lambda>h. h\<lparr>ch_lcd := v\<rparr>))
                   (set_env env ''CMTOP_BECH32_PREFIX'' (\<lambda>v. on_chain (\<lambda>h. h\<lparr>ch_prefix := v\<rparr>))
                   (set_env env ''CMTOP_LOG_LEVEL'' (\<lambda>v c. c\<lparr>ac_obs := (ac_obs c)\<lparr>ob_level := v\<rparr>\<rparr>)
                   (set_env env ''CMTOP_WEB_TOKEN'' (\<lambda>v. on_web (\<lambda>w. w\<lparr>we_token := v\<rparr>))
                   (set_env env ''CMTOP_WEB_LISTEN'' (\<lambda>v. on_web (\<lambda>w. w\<lparr>we_listen := v\<rparr>))
                   (set_env env ''CMTOP_MODE'' (\<lambda>v c. c\<lparr>ac_ui := (ac_ui c)\<lparr>ui_mode := v\<rparr>\<rparr>)
                   (set_env env ''CMTOP_RPC'' (\<lambda>v. on_chain (\<lambda>h. h\<lparr>ch_rpcs := [\<lparr>rpc_url = v, rpc_primary = True\<rparr>]\<rparr>))
                   (set_env env ''CMTOP_WEB_TRUSTED_PROXIES'' (\<lambda>v. on_web (\<lambda>w. w\<lparr>we_proxies := split_csv v\<rparr>))
                   (on_web (\<lambda>w. w\<lparr>we_max_clients := clients, we_rate_limit := rate\<rparr>) c)))))))))))))"

section \<open>Validation\<close>

definition primary_rpc :: "app_config \<Rightarrow> string" where
  "primary_rpc c =
     (case find rpc_primary (ch_rpcs (ac_chain c)) of
        Some r \<Rightarrow> rpc_url r
      | None \<Rightarrow> (case ch_rpcs (ac_chain c) of [] \<Rightarrow> '''' | r # rs \<Rightarrow> rpc_url r))"

record text_parsers =
  tp_url :: "string \<Rightarrow> (string \<times> string) option"
  tp_host_port :: "string \<Rightarrow> string option"
  tp_prefix :: "string \<Rightarrow> bool"

text \<open>\<open>tp_url\<close> gives scheme and host, \<open>tp_host_port\<close> an error, if there is one.\<close>

definition validate_url :: "text_parsers \<Rightarrow> string \<Rightarrow> string option" where
  "validate_url tp endpoint =
     (case tp_url tp endpoint of
        None \<Rightarrow> Some (''invalid HTTP endpoint '' @ go_quote endpoint)
      | Some (scheme, host) \<Rightarrow>
          if host = '''' \<or> scheme \<noteq> ''http'' \<and> scheme \<noteq> ''https''
          then Some (''invalid HTTP endpoint '' @ go_quote endpoint) else None)"

fun first_error :: "('a \<Rightarrow> string option) \<Rightarrow> 'a list \<Rightarrow> string option" where
  "first_error f [] = None"
| "first_error f (x # xs) = (case f x of Some err \<Rightarrow> Some err | None \<Rightarrow> first_error f xs)"

text \<open>\<open>strings.ReplaceAll\<close> of the placeholder.\<close>

fun replace_all :: "string \<Rightarrow> string \<Rightarrow> string \<Rightarrow> string" where
  "replace_all old new [] = ''''"
| "replace_all old new (c # s) =
     (if old \<noteq> '''' \<and> take (length old) (c # s) = old
      then new @ replace_all old new (drop (length old - 1) s)
      else c # replace_all old new s)"

definition check_listen :: "text_parsers \<Rightarrow> string \<Rightarrow> string \<Rightarrow> string option" where
  "check_listen tp name addr =
     (if addr = '''' then None else map_option (\<lambda>err. name @ '': '' @ err) (tp_host_port tp addr))"

definition threshold_bad :: "float_value \<Rightarrow> bool" where
  "threshold_bad f = (case f of NaN \<Rightarrow> True | Infinite \<Rightarrow> True | Finite q \<Rightarrow> q < 0 \<or> q > 100)"

definition intervals :: "refresh_config \<Rightarrow> (string \<times> duration) list" where
  "intervals r = [(''validators'', rf_validators r), (''upgrade_plan'', rf_upgrade r), (''status'', rf_status r),
                  (''block_time'', rf_block_time r), (''consensus'', rf_consensus r)]"

text \<open>The checks in the order of the code, the first error that applies.\<close>

definition checks :: "text_parsers \<Rightarrow> app_config \<Rightarrow> string option list" where
  "checks tp c =
     (let web = ui_web (ac_ui c); mode = ui_mode (ac_ui c); dv = ac_divergence c; chain = ac_chain c
      in [if we_max_clients web \<le> 0 then Some ''ui.web.max_clients must be positive'' else None,
          if we_rate_limit web \<le> 0 then Some ''ui.web.api_rate_limit must be positive'' else None,
          first_error (\<lambda>cidr. if tp_prefix tp cidr then None
                              else Some (''ui.web.trusted_proxies: invalid CIDR '' @ go_quote cidr)) (we_proxies web),
          if primary_rpc c = '''' then Some ''at least one [[chain.rpc]] entry is required'' else None,
          if to_lower mode \<in> {''tui'', ''web'', ''both'', ''headless''} then None
          else Some (''ui.mode must be one of tui|web|both|headless (got '' @ go_quote mode @ '')''),
          if threshold_bad (dc_threshold dv) then Some ''divergence.threshold_pct out of range'' else None,
          first_error (\<lambda>(name, d). if d \<le> 0 then Some (''refresh.'' @ name @ '' must be positive'') else None)
            (intervals (ac_refresh c)),
          if dc_history dv < 1 then Some ''divergence.history_size must be positive'' else None,
          if we_disabled web \<and> to_lower mode = ''web''
          then Some ''ui.web.disabled is incompatible with web mode; use headless for metrics only'' else None,
          first_error (validate_url tp) (ch_monitored chain @ [primary_rpc c]),
          first_error (\<lambda>r. validate_url tp (rpc_url r)) (ch_rpcs chain),
          if ch_lcd chain \<noteq> '''' then validate_url tp (ch_lcd chain) else None,
          if ch_explorer chain \<noteq> ''''
          then validate_url tp (replace_all ''{address}'' ''validator'' (ch_explorer chain)) else None,
          check_listen tp ''ui.web.listen'' (we_listen web),
          check_listen tp ''obs.metrics_listen'' (ob_listen (ac_obs c))])"

definition validate :: "text_parsers \<Rightarrow> app_config \<Rightarrow> string option" where
  "validate tp c = first_error (\<lambda>r. r) (checks tp c)"

section \<open>What a valid configuration promises\<close>

lemma first_error_None: "first_error f xs = None \<longleftrightarrow> list_all (\<lambda>x. f x = None) xs"
  by (induction xs) (auto split: option.split)

lemma first_error_mem: "first_error f xs = None \<Longrightarrow> x \<in> set xs \<Longrightarrow> f x = None"
  by (simp add: first_error_None list_all_iff)

definition tracker_config :: "app_config \<Rightarrow> config" where
  "tracker_config c =
     \<lparr>cf_threshold = (case dc_threshold (ac_divergence c) of Finite q \<Rightarrow> q | _ \<Rightarrow> 0),
      cf_history = dc_history (ac_divergence c), cf_prevotes = dc_prevotes (ac_divergence c)\<rparr>"

lemma valid_config:
  assumes "validate tp c = None"
  shows "1 \<le> cf_history (tracker_config c)" "0 \<le> cf_threshold (tracker_config c)" "cf_threshold (tracker_config c) \<le> 100"
    "0 < we_max_clients (ui_web (ac_ui c))" "primary_rpc c \<noteq> ''''"
    "list_all (\<lambda>(name, d). 0 < d) (intervals (ac_refresh c))"
proof -
  have ok: "first_error (\<lambda>r. r) (checks tp c) = None" using assms by (simp add: validate_def)
  note c = ok [unfolded first_error_None checks_def Let_def list.pred_inject]
  show "1 \<le> cf_history (tracker_config c)" "0 < we_max_clients (ui_web (ac_ui c))" "primary_rpc c \<noteq> ''''"
    using c by (auto simp: tracker_config_def split: if_splits)
  show "0 \<le> cf_threshold (tracker_config c)" "cf_threshold (tracker_config c) \<le> 100"
    using c by (auto simp: tracker_config_def threshold_bad_def split: if_splits float_value.splits)
  show "list_all (\<lambda>(name, d). 0 < d) (intervals (ac_refresh c))"
    using c by (auto simp: intervals_def first_error_None split: if_splits)
qed

end
