(* ===== verification/Config_Props.thy ===== *)
theory Config_Props
  imports Config_Check Tracker_Props Catalogue
begin

text \<open>What the checks of the configuration guarantee to the divergence tracker, and what they do not.\<close>

definition lenient_parsers :: text_parsers where
  "lenient_parsers =
     \<lparr>tp_url = (\<lambda>s. if take 8 s = ''https://'' then Some (''https'', drop 8 s) else None),
      tp_host_port = (\<lambda>s. if CHR '':'' \<in> set s then None else Some ''missing port in address''),
      tp_prefix = (\<lambda>s. CHR ''/'' \<in> set s)\<rparr>"

lemma defaults_valid: "validate lenient_parsers config_defaults = None"
  by code_simp

text \<open>C16: a configuration that passes \<open>Validate\<close> and keeps at most \<open>2^54\<close> heights is safe to run: no
  sequence of tracker calls panics, the archive holds at most the configured number of heights, and the
  detection threshold is a percentage.\<close>

theorem validated_config_safe:
  assumes "validate tp c = None" and "dc_history (ac_divergence c) \<le> 18014398509481984"
  shows "\<exists>t ks. run_ops ops (new_tracker (tracker_config c)) = Some (t, ks)
           \<and> int (length (tk_archive t)) \<le> dc_history (ac_divergence c)
           \<and> 0 \<le> cf_threshold (tk_cfg t) \<and> cf_threshold (tk_cfg t) \<le> 100"
proof -
  note v = valid_config [OF assms(1)]
  let ?cfg = "tracker_config c"
  have "history_ok (new_tracker ?cfg)" using v(1) assms(2) by (simp add: history_ok_def new_tracker_def tracker_config_def)
  from run_ops_returns [OF new_tracker_inv this]
  obtain t ks where r: "run_ops ops (new_tracker ?cfg) = Some (t, ks)" by blast
  have inv: "tracker_inv t" by (rule run_ops_inv [OF new_tracker_inv r])
  have cfg: "tk_cfg t = ?cfg"
    using catalogue_run [OF new_tracker_inv r] v(1) by (simp add: catalogue_grows_def new_tracker_def)
  have "int (length (tk_archive t)) \<le> cf_history (tk_cfg t)"
    using inv v(1) by (simp add: tracker_inv_def archive_inv_def cfg)
  with r v cfg show ?thesis by (auto simp: tracker_config_def)
qed

theorem validated_config_safe_witness:
  "\<exists>t ks. run_ops demo_ops (new_tracker (tracker_config config_defaults)) = Some (t, ks) \<and> int (length (tk_archive t)) \<le> 32"
  using validated_config_safe [OF defaults_valid, of demo_ops] by (auto simp: config_defaults_def)

text \<open>C15: \<open>Validate\<close> does not bound the history size.  Any configuration it accepts is still accepted with
  a history size of \<open>2^61\<close>, and with that the tracker's first commit panics: \<open>HistorySize*4\<close> wraps to a
  negative limit and the history is sliced out of range.\<close>

theorem accepted_history_panics:
  assumes "validate tp c = None" and "c' = c\<lparr>ac_divergence := (ac_divergence c)\<lparr>dc_history := 2305843009213693952\<rparr>\<rparr>"
  shows "validate tp c' = None \<and> resolve_commit (new_tracker (tracker_config c')) h hash now = None"
proof -
  have sel: "ac_chain c' = ac_chain c" "ac_ui c' = ac_ui c" "ac_refresh c' = ac_refresh c" "ac_obs c' = ac_obs c"
      "dc_threshold (ac_divergence c') = dc_threshold (ac_divergence c)"
      "dc_history (ac_divergence c') = 2305843009213693952"
    by (simp_all add: assms(2))
  have "primary_rpc c' = primary_rpc c" unfolding primary_rpc_def sel ..
  moreover have "1 \<le> dc_history (ac_divergence c)" using valid_config(1) [OF assms(1)] by (simp add: tracker_config_def)
  ultimately have "checks tp c' = checks tp c" unfolding checks_def Let_def sel by simp
  with assms(1) have "validate tp c' = None" by (simp add: validate_def)
  moreover have "resolve_commit (new_tracker (tracker_config c')) h hash now = None"
    unfolding assms(2) tracker_config_def using huge_history by simp
  ultimately show ?thesis ..
qed

theorem accepted_history_panics_witness:
  "resolve_commit (new_tracker (tracker_config
     (config_defaults\<lparr>ac_divergence := (ac_divergence config_defaults)\<lparr>dc_history := 2305843009213693952\<rparr>\<rparr>))) 7 ''x'' 9 = None"
  using accepted_history_panics [OF defaults_valid refl] by blast

end
