(* ===== verification/Metrics.thy ===== *)
theory Metrics
  imports Ws_Wire Dash_State Event_Bus Tracker_Demo
begin

text \<open>
  The Prometheus collectors (\<open>internal/metrics/metrics.go\<close>) and the capacity instruments of the
  web server (\<open>capacity.go\<close>).  A gauge or counter is its value, a labelled vector the map of its series;
  of a histogram the model keeps the labels it has seen.  Values are float64, so integers are rounded as
  the conversion rounds them.
\<close>

section \<open>Collectors\<close>

record collectors =
  mc_height :: rat
  mc_round :: rat
  mc_block_time :: rat
  mc_divergent_rounds :: rat
  mc_divergence_pct :: "(string, rat) gomap"
  mc_ws_connected :: rat
  mc_votes :: "(string, rat) gomap"
  mc_bus_dropped :: "(string, rat) gomap"
  mc_data_age :: rat

definition register_collectors :: collectors where
  "register_collectors =
     \<lparr>mc_height = 0, mc_round = 0, mc_block_time = 0, mc_divergent_rounds = 0, mc_divergence_pct = [],
      mc_ws_connected = 0, mc_votes = [], mc_bus_dropped = [], mc_data_age = - 1\<rparr>"

text \<open>The largest share of a non-nil hash besides the leading one.\<close>

fun max_other :: "bool \<Rightarrow> rat \<Rightarrow> group list \<Rightarrow> rat" where
  "max_other leader best [] = best"
| "max_other leader best (g # gs) =
     (if gr_hash g = '''' then max_other leader best gs
      else if \<not> leader then max_other True best gs
      else max_other leader (if gr_pct g > best then gr_pct g else best) gs)"

definition set_divergence_power :: "round_report \<Rightarrow> collectors \<Rightarrow> collectors" where
  "set_divergence_power r c =
     c\<lparr>mc_divergence_pct := gput (vote_type_string (rr_type r)) (max_other False 0 (rr_groups r)) (mc_divergence_pct c)\<rparr>"

definition inc_label :: "string \<Rightarrow> rat \<Rightarrow> (string, rat) gomap \<Rightarrow> (string, rat) gomap" where
  "inc_label l v m = gput l (f64_add (case map_of m l of Some x \<Rightarrow> x | None \<Rightarrow> 0) v) m"

text \<open>\<open>type_text\<close> names a vote type on the wire, a method of the node's protocol package.\<close>

fun handle_event :: "(int \<Rightarrow> string) \<Rightarrow> event \<Rightarrow> collectors \<Rightarrow> collectors" where
  "handle_event type_text (EvNewBlock e) c = c\<lparr>mc_height := f64_of_int (nb_height e)\<rparr>"
| "handle_event type_text (EvRoundChanged e) c = c\<lparr>mc_round := f64_of_int (rc_round e)\<rparr>"
| "handle_event type_text (EvBlockTimeUpdated d) c = c\<lparr>mc_block_time := duration_seconds d\<rparr>"
| "handle_event type_text (EvDivergenceDetected r) c =
     (if \<not> rr_divergent r then c
      else set_divergence_power r (c\<lparr>mc_divergent_rounds := f64_add (mc_divergent_rounds c) 1\<rparr>))"
| "handle_event type_text (EvDivergenceResolved r) c =
     c\<lparr>mc_divergence_pct := gput (vote_type_string (rr_type r)) 0 (mc_divergence_pct c)\<rparr>"
| "handle_event type_text (EvVoteReceived e) c = c\<lparr>mc_votes := inc_label (type_text (vc_type e)) 1 (mc_votes c)\<rparr>"
| "handle_event type_text (EvConnectionLost e x) c = c\<lparr>mc_ws_connected := 0\<rparr>"
| "handle_event type_text (EvConnectionRestored e) c = c\<lparr>mc_ws_connected := 1\<rparr>"
| "handle_event type_text ev c = c"

text \<open>One tick: the bus statistics, the live splits of the tracker and the state.\<close>

definition reconcile_divergence :: "report \<Rightarrow> collectors \<Rightarrow> collectors" where
  "reconcile_divergence rep c =
     fold (\<lambda>r c. if rr_divergent r then set_divergence_power r c else c) (rp_live rep)
       (c\<lparr>mc_divergence_pct :=
            gput (vote_type_string Precommit) 0 (gput (vote_type_string Prevote) 0 (mc_divergence_pct c))\<rparr>)"

definition tick_collectors :: "(string, u64) gomap \<Rightarrow> report \<Rightarrow> state_data \<Rightarrow> gtime \<Rightarrow> collectors \<Rightarrow> collectors" where
  "tick_collectors stats rep s now c =
     (let c1 = c\<lparr>mc_bus_dropped := fold (\<lambda>(name, n) m. gput name (f64_of_int (uint n)) m) stats (mc_bus_dropped c)\<rparr>;
          c2 = reconcile_divergence rep c1;
          c3 = c2\<lparr>mc_height := f64_of_int (sd_committed s), mc_round := f64_of_int (sd_round s)\<rparr>;
          c4 = (if he_success_at (sd_health s) \<noteq> 0
                then c3\<lparr>mc_data_age := duration_seconds (time_sub now (he_success_at (sd_health s)))\<rparr> else c3)
      in c4\<lparr>mc_ws_connected := (if he_ws (sd_health s) then 1 else 0)\<rparr>)"

text \<open>\<open>itoa64\<close>: the digits are written from the right, while the value is positive.\<close>

function itoa_digits :: "int \<Rightarrow> string \<Rightarrow> string" where
  "itoa_digits i acc = (if i > 0 then itoa_digits (i div 10) (digit (nat (i mod 10)) # acc) else acc)"
  by pat_completeness auto
termination
  by (relation "measure (\<lambda>(i, acc). nat i)") auto

declare itoa_digits.simps [simp del]

definition itoa64 :: "int \<Rightarrow> string" where
  "itoa64 i =
     (if i = 0 then ''0''
      else if i < 0 then CHR ''-'' # itoa_digits (i64 (- i)) ''''
      else itoa_digits i '''')"

section \<open>Capacity\<close>

record capacity =
  cp_active :: rat
  cp_pending :: rat
  cp_queued :: rat
  cp_cache_bytes :: rat
  cp_ws_events :: "(string, rat) gomap"
  cp_messages :: "(string, rat) gomap"
  cp_bytes :: "(string, rat) gomap"
  cp_encoded :: "(string, rat) gomap"
  cp_report_events :: "(string, rat) gomap"
  cp_work :: "string list"
  cp_http :: "(string \<times> string) list"

definition new_capacity :: capacity where
  "new_capacity =
     \<lparr>cp_active = 0, cp_pending = 0, cp_queued = 0, cp_cache_bytes = 0, cp_ws_events = [], cp_messages = [],
      cp_bytes = [], cp_encoded = [], cp_report_events = [], cp_work = [], cp_http = []\<rparr>"

definition message_kinds :: "string list" where
  "message_kinds =
     [''state.snapshot'', ''context.snapshot'', ''vote.received'', ''block.committed'', ''round.changed'',
      ''rpc_comparison.updated'', ''status.updated'', ''upgrade.changed'', ''block_time.updated'',
      ''validators.changed'', ''divergence.snapshot'', ''divergence.detected'', ''divergence.resolved'',
      ''connection.lost'', ''connection.restored'', ''pong'']"

definition message_kind :: "string \<Rightarrow> string" where
  "message_kind k = (if k \<in> set message_kinds then k else ''other'')"

text \<open>\<open>strings.Cut\<close> at the first slash.\<close>

definition cut_slash :: "string \<Rightarrow> string \<times> string" where
  "cut_slash s = (takeWhile (\<lambda>c. c \<noteq> CHR ''/'') s, drop 1 (dropWhile (\<lambda>c. c \<noteq> CHR ''/'') s))"

definition ws_event_names :: "string list" where
  "ws_event_names = [''rejected'', ''dropped'', ''resync'', ''resync_coalesced'', ''slow_client'', ''command_limited'']"

definition observe_ws :: "string \<Rightarrow> rat \<Rightarrow> capacity \<Rightarrow> capacity" where
  "observe_ws event value c =
     (let (name, kind) = cut_slash event
      in if name = ''active_delta'' then c\<lparr>cp_active := f64_add (cp_active c) value\<rparr>
         else if name = ''pending_delta'' then c\<lparr>cp_pending := f64_add (cp_pending c) value\<rparr>
         else if name = ''queue_bytes_delta'' then c\<lparr>cp_queued := f64_add (cp_queued c) value\<rparr>
         else if name = ''sent_bytes'' then c\<lparr>cp_bytes := inc_label (message_kind kind) value (cp_bytes c)\<rparr>
         else if name = ''sent_messages'' then c\<lparr>cp_messages := inc_label (message_kind kind) value (cp_messages c)\<rparr>
         else if name = ''payload_encoded_bytes''
         then c\<lparr>cp_encoded := inc_label (message_kind kind) value (cp_encoded c)\<rparr>
         else if name \<in> {''snapshot_seconds'', ''encode_seconds'', ''queue_age_seconds''}
         then c\<lparr>cp_work := List.insert name (cp_work c)\<rparr>
         else if name \<in> set ws_event_names then c\<lparr>cp_ws_events := inc_label name value (cp_ws_events c)\<rparr>
         else c)"

definition report_event_names :: "string list" where
  "report_event_names =
     [''hit'', ''miss'', ''build'', ''coalesced'', ''evicted'', ''rejected'', ''capture'', ''not_modified'']"

definition observe_report :: "string \<Rightarrow> rat \<Rightarrow> capacity \<Rightarrow> capacity" where
  "observe_report event value c =
     (if event = ''cache_bytes'' then c\<lparr>cp_cache_bytes := value\<rparr>
      else if event \<in> {''build_seconds'', ''capture_seconds'', ''archive_lock_seconds''}
      then c\<lparr>cp_work := List.insert event (cp_work c)\<rparr>
      else if event \<in> set report_event_names
      then c\<lparr>cp_report_events := inc_label event value (cp_report_events c)\<rparr>
      else c)"

definition http_routes :: "string list" where
  "http_routes =
     [''/api/session'', ''/api/state'', ''/api/validators'', ''/api/validators/{address}'', ''/api/divergence'',
      ''/api/divergence/history'', ''/api/blocks'', ''/api/blocks/{height}/rounds'', ''/api/chain'', ''/api/version'',
      ''/ws'', ''/healthz'', ''/readyz'']"

definition observe_http :: "string \<Rightarrow> int \<Rightarrow> capacity \<Rightarrow> capacity" where
  "observe_http route status c =
     (let r = (if route \<in> set http_routes then route else ''other'');
          st = (if status < 100 \<or> status > 599 then 200 else status)
      in c\<lparr>cp_http := List.insert (r, format_int st) (cp_http c)\<rparr>)"

section \<open>Facts\<close>

text \<open>The share reported is the largest one beside the leader's.\<close>

definition others :: "group list \<Rightarrow> group list" where
  "others gs = drop 1 (filter (\<lambda>g. gr_hash g \<noteq> '''') gs)"

lemma max_other_leader:
  "max_other True best gs = fold (\<lambda>g b. if gr_pct g > b then gr_pct g else b) (filter (\<lambda>g. gr_hash g \<noteq> '''') gs) best"
  by (induction gs arbitrary: best) auto

lemma max_other_others: "max_other False best gs = fold (\<lambda>g b. if gr_pct g > b then gr_pct g else b) (others gs) best"
  by (induction gs arbitrary: best) (auto simp: others_def max_other_leader)

lemma divergent_scan_leader:
  "divergent_scan thr True gs \<longleftrightarrow> list_ex (\<lambda>g. gr_pct g \<ge> thr \<and> gr_power g > 0) (filter (\<lambda>g. gr_hash g \<noteq> '''') gs)"
  by (induction gs) auto

lemma divergent_scan_others:
  "divergent_scan thr False gs \<longleftrightarrow> list_ex (\<lambda>g. gr_pct g \<ge> thr \<and> gr_power g > 0) (others gs)"
  by (induction gs) (auto simp: others_def divergent_scan_leader)

lemma fold_max_ge:
  "thr \<le> fold (\<lambda>g b. if gr_pct g > b then gr_pct g else b) gs best \<longleftrightarrow> thr \<le> best \<or> list_ex (\<lambda>g. thr \<le> gr_pct g) gs"
  for thr best :: rat
proof (induction gs arbitrary: best)
  case (Cons g gs)
  show ?case
  proof (cases "gr_pct g > best")
    case True
    with Cons.IH [of "gr_pct g"] show ?thesis by auto
  next
    case False
    with Cons.IH [of best] show ?thesis by auto
  qed
qed simp

lemma digit_0: "digit 0 = CHR ''0''"
  by code_simp

lemma itoa_digits_dec: "0 \<le> i \<Longrightarrow> itoa_digits i acc = (if i = 0 then acc else dec_nat (nat i) @ acc)"
proof (induction i acc rule: itoa_digits.induct)
  case (1 i acc)
  show ?case
  proof (cases "i > 0")
    case True
    then have "0 \<le> i div 10" by simp
    note ih = "1.IH" [OF True this]
    have n: "nat i div 10 = nat (i div 10)" "nat i mod 10 = nat (i mod 10)"
      using True by (simp_all add: nat_div_distrib nat_mod_distrib)
    show ?thesis
    proof (cases "i < 10")
      case True
      moreover from this \<open>i > 0\<close> have "nat i < 10" "nat i mod 10 = nat i" by simp_all
      ultimately show ?thesis using \<open>i > 0\<close> ih by (simp add: itoa_digits.simps [of i] dec_nat.simps [of "nat i"])
    next
      case False
      then have "i div 10 \<noteq> 0" by (simp add: pos_imp_zdiv_pos_iff)
      moreover have "\<not> nat i < 10" using False by simp
      ultimately show ?thesis using ih False True n by (simp add: itoa_digits.simps [of i] dec_nat.simps [of "nat i"])
    qed
  next
    case False
    with 1 show ?thesis by (simp add: itoa_digits.simps [of 0])
  qed
qed

lemma fl_nonpos: "x \<le> 0 \<Longrightarrow> fl prec x \<le> 0"
proof -
  assume "x \<le> 0"
  then have "rne (x / 2 powi e) \<le> 0" for e
    by (intro rne_le_int) (simp add: divide_nonpos_pos)
  then show ?thesis by (auto simp: fl_def Let_def intro!: mult_nonpos_nonneg)
qed

lemma pct_power: "0 < voting_pct tot pw \<Longrightarrow> 0 < pw"
proof (rule ccontr)
  assume pct: "0 < voting_pct tot pw" and "\<not> 0 < pw"
  then have "f64_of_int pw \<le> 0" unfolding f64_of_int_def by (intro fl_nonpos) simp
  then have "f64_mul 100 (f64_of_int pw) \<le> 0" unfolding f64_mul_def by (intro fl_nonpos) simp
  moreover have "0 \<le> f64_of_int tot" if "0 < tot" using that by (intro f64_of_int_nonneg) simp
  ultimately have "voting_pct tot pw \<le> 0"
    unfolding voting_pct_def f64_div_def by (auto intro!: fl_nonpos divide_nonpos_nonneg)
  with pct show False by simp
qed

section \<open>Properties\<close>

text \<open>C26: the divergence gauge explains the detector.  For the report of any round and a positive
  threshold, the round counts as divergent exactly when the share the gauge is set to reaches the
  threshold: no group besides the leading one can hide behind the gauge.\<close>

theorem gauge_explains_divergence:
  assumes "0 < cf_threshold cfg"
  shows "rr_divergent (report_round cfg rd) \<longleftrightarrow>
     cf_threshold cfg \<le> the (map_of (mc_divergence_pct (set_divergence_power (report_round cfg rd) c))
                              (vote_type_string (rr_type (report_round cfg rd))))"
proof -
  have "0 < gr_power g" if "g \<in> set (round_groups rd)" "0 < gr_pct g" for g
    using that pct_power by (auto simp: round_groups_def group_list_def make_group_def)
  then have "0 < gr_power g" if "g \<in> set (others (round_groups rd))" "0 < gr_pct g" for g
    using that by (auto simp: others_def dest!: in_set_dropD)
  then have "list_ex (\<lambda>g. gr_pct g \<ge> cf_threshold cfg \<and> gr_power g > 0) (others (round_groups rd))
      \<longleftrightarrow> list_ex (\<lambda>g. cf_threshold cfg \<le> gr_pct g) (others (round_groups rd))"
    using assms by (fastforce simp: list_ex_iff)
  with assms show ?thesis
    by (simp add: report_round_def set_divergence_power_def map_of_gput divergent_scan_others max_other_others fold_max_ge)
qed

lemma demo_divergent: "rr_divergent (report_round default_config (demo_rd True))"
  by code_simp

theorem gauge_explains_divergence_witness:
  "5 \<le> the (map_of (mc_divergence_pct (set_divergence_power (report_round default_config (demo_rd True)) register_collectors))
              (vote_type_string (rr_type (report_round default_config (demo_rd True)))))"
  using gauge_explains_divergence [of default_config "demo_rd True" register_collectors] demo_divergent
  by (simp add: default_config_def)

text \<open>\<open>itoa64\<close> writes the decimal text of every 64-bit integer except the smallest, for which negation
  wraps and only the sign is written.\<close>

theorem itoa64_exact:
  "itoa64 (i64 n) = (if i64 n = int64_min then ''-'' else format_int (i64 n))"
proof (cases "i64 n = int64_min")
  case True
  then show ?thesis
    by (simp add: itoa64_def int64_min_def i64_def itoa_digits.simps)
next
  case False
  have "i64 (- i64 n) = - i64 n" if "i64 n < 0"
    using that False i64_range [of n] by (intro i64_id) (auto simp: int64_min_def int64_max_def)
  with False show ?thesis
    by (auto simp: itoa64_def format_int_def itoa_digits_dec dec_nat.simps [of 0] digit_0)
qed

datatype observation = ObserveWS string rat | ObserveReport string rat | ObserveHTTP string int

fun observe :: "observation \<Rightarrow> capacity \<Rightarrow> capacity" where
  "observe (ObserveWS event value) = observe_ws event value"
| "observe (ObserveReport event value) = observe_report event value"
| "observe (ObserveHTTP route status) = observe_http route status"

abbreviation message_labels :: "string set" where
  "message_labels \<equiv> set (''other'' # message_kinds)"

definition fixed_series :: "capacity \<Rightarrow> bool" where
  "fixed_series c \<longleftrightarrow>
     fst ` set (cp_messages c) \<subseteq> message_labels \<and> fst ` set (cp_bytes c) \<subseteq> message_labels
     \<and> fst ` set (cp_encoded c) \<subseteq> message_labels \<and> fst ` set (cp_ws_events c) \<subseteq> set ws_event_names
     \<and> fst ` set (cp_report_events c) \<subseteq> set report_event_names
     \<and> set (cp_http c) \<subseteq> set (''other'' # http_routes) \<times> format_int ` {100..599} \<and> distinct (cp_http c)"

lemma inc_label_keys: "fst ` set (inc_label l v m) = insert l (fst ` set m)"
  by (simp add: inc_label_def gkeys_gput)

lemma message_kind_mem: "message_kind k \<in> message_labels"
  by (simp add: message_kind_def)

lemma observe_fixed: "fixed_series c \<Longrightarrow> fixed_series (observe obs c)"
proof (cases obs)
  case (ObserveWS a b)
  assume "fixed_series c"
  with ObserveWS message_kind_mem show ?thesis
    by (auto simp: observe_ws_def fixed_series_def inc_label_keys split: prod.split simp del: list.set)
next
  case (ObserveReport a b)
  assume "fixed_series c"
  with ObserveReport show ?thesis
    by (auto simp: observe_report_def fixed_series_def inc_label_keys simp del: list.set)
next
  case (ObserveHTTP a b)
  assume "fixed_series c"
  with ObserveHTTP show ?thesis
    by (auto simp: observe_http_def fixed_series_def Let_def)
qed

text \<open>The capacity metrics have finitely many series.  Whatever event names, message types, routes and
  status codes are observed, every label comes from a fixed vocabulary, and there are at most 7000 pairs
  of route and status.\<close>

theorem capacity_series_bounded:
  "fixed_series (fold observe os new_capacity) \<and> length (cp_http (fold observe os new_capacity)) \<le> 7000"
proof -
  have "fixed_series new_capacity" by (simp add: fixed_series_def new_capacity_def)
  then have f: "fixed_series (fold observe os new_capacity)"
    by (induction os rule: rev_induct) (simp_all add: observe_fixed)
  let ?H = "cp_http (fold observe os new_capacity)"
  let ?S = "set (''other'' # http_routes) \<times> format_int ` {100..599 :: int}"
  have "card ?S \<le> 14 * 500"
  proof -
    have "card (set (''other'' # http_routes)) \<le> 14" by (rule order_trans [OF card_length]) (simp add: http_routes_def)
    moreover have "card (format_int ` {100..599 :: int}) \<le> 500" by (rule order_trans [OF card_image_le]) simp_all
    ultimately show ?thesis unfolding card_cartesian_product by (rule mult_le_mono)
  qed
  moreover have "card (set ?H) \<le> card ?S" by (rule card_mono) (use f in \<open>auto simp: fixed_series_def\<close>)
  moreover have "card (set ?H) = length ?H" using f by (simp add: fixed_series_def distinct_card)
  ultimately show ?thesis using f by simp
qed

end
