(* ===== verification/Client_Ip.thy ===== *)
theory Client_Ip
  imports Text Decimal
begin

text \<open>
  Who a request is charged to (\<open>internal/web/budget.go\<close>): the trusted proxies, the address behind them
  and its budget key.  Addresses are those of \<open>net/netip\<close>: an IPv4 address, or an IPv6 address with its
  zone.  The parsers of that package and of \<open>net.SplitHostPort\<close> are parameters; what the code does with
  their results (unmapping, prefix tests, masking, printing) is written out.
\<close>

section \<open>Addresses\<close>

datatype addr = V4 "32 word" | V6 "128 word" string

type_synonym prefix = "addr \<times> nat"

record ip_parsers =
  ip_split :: "string \<Rightarrow> string option"
  ip_addr :: "string \<Rightarrow> addr option"
  ip_prefix :: "string \<Rightarrow> prefix option"

text \<open>\<open>Addr.Unmap\<close>: the IPv4 address inside \<open>::ffff:0:0/96\<close>.\<close>

fun unmap :: "addr \<Rightarrow> addr" where
  "unmap (V4 w) = V4 w"
| "unmap (V6 w zone) = (if drop_bit 32 w = 65535 then V4 (ucast w) else V6 w zone)"

text \<open>\<open>Prefix.Contains\<close> and \<open>Prefix.Masked\<close>.\<close>

fun contains :: "prefix \<Rightarrow> addr \<Rightarrow> bool" where
  "contains (V4 p, n) (V4 a) \<longleftrightarrow> drop_bit (32 - n) a = drop_bit (32 - n) p"
| "contains (V6 p pz, n) (V6 a zone) \<longleftrightarrow> zone = '''' \<and> drop_bit (128 - n) a = drop_bit (128 - n) p"
| "contains _ _ \<longleftrightarrow> False"

fun masked :: "prefix \<Rightarrow> prefix" where
  "masked (V4 p, n) = (V4 (push_bit (32 - n) (drop_bit (32 - n) p)), n)"
| "masked (V6 p zone, n) = (V6 (push_bit (128 - n) (drop_bit (128 - n) p)) '''', n)"

section \<open>Printing\<close>

definition byte_at :: "32 word \<Rightarrow> nat \<Rightarrow> nat" where
  "byte_at w i = unat (ucast (drop_bit (8 * i) w) :: 8 word)"

definition v4_text :: "32 word \<Rightarrow> string" where
  "v4_text w = join_on CHR ''.'' (map (\<lambda>i. dec_nat (byte_at w i)) [3, 2, 1, 0])"

definition word_at :: "128 word \<Rightarrow> nat \<Rightarrow> nat" where
  "word_at w i = unat (ucast (drop_bit (16 * i) w) :: 16 word)"

definition v6_words :: "128 word \<Rightarrow> nat list" where
  "v6_words w = map (word_at w) [7, 6, 5, 4, 3, 2, 1, 0]"

fun hex_nat :: "nat \<Rightarrow> string" where
  "hex_nat n = (if n < 16 then [hex_digit n] else hex_nat (n div 16) @ [hex_digit (n mod 16)])"

declare hex_nat.simps [simp del]

text \<open>The first longest run of at least two zero words, as its start and end.\<close>

definition longer_run :: "nat list \<Rightarrow> nat \<Rightarrow> (nat \<times> nat) option \<Rightarrow> (nat \<times> nat) option" where
  "longer_run ws i best =
     (let l = length (takeWhile (\<lambda>w. w = 0) (drop i ws))
      in if l \<ge> 2 \<and> (case best of None \<Rightarrow> True | Some (s, e) \<Rightarrow> l > e - s) then Some (i, i + l) else best)"

definition zero_run :: "nat list \<Rightarrow> (nat \<times> nat) option" where
  "zero_run ws = fold (longer_run ws) [0..<length ws] None"

definition v6_text :: "128 word \<Rightarrow> string" where
  "v6_text w =
     (let ws = v6_words w
      in case zero_run ws of
           None \<Rightarrow> join_on CHR '':'' (map hex_nat ws)
         | Some (s, e) \<Rightarrow>
             join_on CHR '':'' (map hex_nat (take s ws)) @ ''::''
               @ join_on CHR '':'' (map hex_nat (drop e ws)))"

section \<open>The identity of a request\<close>

text \<open>\<open>quotaIP\<close>: an IPv6 client owns its \<open>/64\<close>.\<close>

fun quota_ip :: "addr \<Rightarrow> string" where
  "quota_ip (V4 w) = v4_text w"
| "quota_ip (V6 w zone) = v6_text (push_bit 64 (drop_bit 64 w)) @ ''/64''"

definition is_trusted :: "prefix list \<Rightarrow> addr \<Rightarrow> bool" where
  "is_trusted trusted a \<longleftrightarrow> list_ex (\<lambda>p. contains p a) trusted"

definition trusted_prefixes :: "ip_parsers \<Rightarrow> string list \<Rightarrow> prefix list" where
  "trusted_prefixes ip cidrs = map masked (List.map_filter (ip_prefix ip) cidrs)"

text \<open>The walk from the nearest hop outwards.\<close>

fun walk_hops :: "ip_parsers \<Rightarrow> prefix list \<Rightarrow> addr \<Rightarrow> string list \<Rightarrow> addr \<Rightarrow> string" where
  "walk_hops ip trusted peer [] cur = quota_ip cur"
| "walk_hops ip trusted peer (h # hs) cur =
     (if \<not> is_trusted trusted cur then quota_ip cur
      else case ip_addr ip (trim_space h) of
             None \<Rightarrow> quota_ip peer
           | Some a \<Rightarrow> walk_hops ip trusted peer hs (unmap a))"

definition client_ip :: "ip_parsers \<Rightarrow> string \<Rightarrow> string \<Rightarrow> prefix list \<Rightarrow> string" where
  "client_ip ip remote forwarded trusted =
     (let host = (case ip_split ip remote of None \<Rightarrow> remote | Some h \<Rightarrow> h)
      in case ip_addr ip host of
           None \<Rightarrow> ''unknown''
         | Some a \<Rightarrow>
             let peer = unmap a; hops = split_on CHR '','' forwarded
             in if \<not> is_trusted trusted peer then quota_ip peer
                else if forwarded = '''' \<or> length forwarded > 2048 then quota_ip peer
                else if length hops > 32 then quota_ip peer
                else walk_hops ip trusted peer (rev hops) peer)"

text \<open>The key functions of the request limiters; session probes have a budget of their own.\<close>

datatype budget = NormalBudget | ProbeBudget

definition budget_of :: "string \<Rightarrow> budget" where
  "budget_of path = (if path = ''/api/session'' then ProbeBudget else NormalBudget)"

section \<open>Printing loses nothing\<close>

lemma hex_digit_code: "n < 16 \<Longrightarrow> of_char (hex_digit n) = (if n < 10 then 48 + n else 87 + n :: nat)"
  by (simp add: hex_digit_def)

lemma hex_digit_free: "n < 16 \<Longrightarrow> hex_digit n \<noteq> CHR '':''" "n < 16 \<Longrightarrow> hex_digit n \<noteq> CHR ''/''"
  using hex_digit_code [of n] by (auto simp: of_char_def split: if_splits)

lemma hex_nat_nonempty: "hex_nat n \<noteq> ''''"
  by (subst hex_nat.simps) simp

lemma hex_nat_free: "CHR '':'' \<notin> set (hex_nat n) \<and> CHR ''/'' \<notin> set (hex_nat n)"
proof (induction n rule: hex_nat.induct)
  case (1 n)
  have "n mod 16 < 16" by simp
  note d = hex_digit_free [OF this]
  show ?case using 1 d d [symmetric] hex_digit_free [of n] hex_digit_free [of n, symmetric]
    by (subst (1 2) hex_nat.simps) (simp del: mod_less_divisor)
qed

lemma hex_nat_inject: "hex_nat m = hex_nat n \<Longrightarrow> m = n"
proof (induction m arbitrary: n rule: hex_nat.induct)
  case (1 m)
  have last: "hex_digit (m mod 16) = hex_digit (n mod 16)"
    using arg_cong [OF "1.prems", of last] by (subst (asm) (1 2) hex_nat.simps) (auto split: if_splits)
  then have digits: "m mod 16 = n mod 16" by (rule hex_digit_inject [rotated 2]) simp_all
  show ?case
  proof (cases "m < 16 \<or> n < 16")
    case True
    have "length (hex_nat k) = 1 \<longleftrightarrow> k < 16" for k
      using hex_nat_nonempty by (subst hex_nat.simps) auto
    with "1.prems" have "m < 16 \<longleftrightarrow> n < 16" by metis
    with True digits show ?thesis by simp
  next
    case False
    with "1.prems" have "hex_nat (m div 16) = hex_nat (n div 16)"
      by (subst (asm) (1 2) hex_nat.simps) simp
    with "1.IH" False have "m div 16 = n div 16" by simp
    with digits show ?thesis by (metis div_mult_mod_eq)
  qed
qed

lemma byte_parts:
  assumes "map (byte_at a) [3, 2, 1, 0] = map (byte_at b) [3, 2, 1, 0]"
  shows "a = b"
proof (rule bit_word_eqI)
  fix n assume "n < LENGTH(32)"
  then have "n div 8 \<in> set [3, 2, 1, 0]" by auto
  with assms have "byte_at a (n div 8) = byte_at b (n div 8)" by auto
  then have "(ucast (drop_bit (8 * (n div 8)) a) :: 8 word) = ucast (drop_bit (8 * (n div 8)) b)"
    by (simp add: byte_at_def word_unat_eq_iff)
  then have "bit (ucast (drop_bit (8 * (n div 8)) a) :: 8 word) (n mod 8)
      = bit (ucast (drop_bit (8 * (n div 8)) b) :: 8 word) (n mod 8)" by simp
  then show "bit a n = bit b n" by (simp add: bit_ucast_iff bit_drop_bit_eq)
qed

lemma word_parts:
  assumes "v6_words a = v6_words b"
  shows "a = b"
proof (rule bit_word_eqI)
  fix n assume "n < LENGTH(128)"
  then have "n div 16 \<in> set [7, 6, 5, 4, 3, 2, 1, 0]" by auto
  with assms have "word_at a (n div 16) = word_at b (n div 16)" by (auto simp: v6_words_def)
  then have "(ucast (drop_bit (16 * (n div 16)) a) :: 16 word) = ucast (drop_bit (16 * (n div 16)) b)"
    by (simp add: word_at_def word_unat_eq_iff)
  then have "bit (ucast (drop_bit (16 * (n div 16)) a) :: 16 word) (n mod 16)
      = bit (ucast (drop_bit (16 * (n div 16)) b) :: 16 word) (n mod 16)" by simp
  then show "bit a n = bit b n" by (simp add: bit_ucast_iff bit_drop_bit_eq)
qed

lemma v4_text_inject: "v4_text a = v4_text b \<longleftrightarrow> a = b"
proof
  have dot: "CHR ''.'' \<notin> set (dec_nat n)" for n
    by (rule dec_nat_free) (simp add: is_digit_def less_eq_char_def of_char_def)
  assume "v4_text a = v4_text b"
  then have "split_on CHR ''.'' (v4_text a) = split_on CHR ''.'' (v4_text b)" by simp
  then have "map (\<lambda>i. dec_nat (byte_at a i)) [3, 2, 1, 0] = map (\<lambda>i. dec_nat (byte_at b i)) [3, 2, 1, 0]"
    unfolding v4_text_def by (subst (asm) (1 2) split_join) (simp_all add: dot)
  then show "a = b" by (intro byte_parts) (simp add: dec_nat_inject)
qed simp

section \<open>The compressed form\<close>

definition run_ok :: "nat list \<Rightarrow> (nat \<times> nat) option \<Rightarrow> bool" where
  "run_ok ws r =
     (case r of None \<Rightarrow> True
      | Some (s, e) \<Rightarrow> s \<le> e \<and> e \<le> length ws \<and> ws = take s ws @ replicate (e - s) 0 @ drop e ws)"

lemma longer_run_ok: "run_ok ws r \<Longrightarrow> i < length ws \<Longrightarrow> run_ok ws (longer_run ws i r)"
proof -
  assume r: "run_ok ws r" and i: "i < length ws"
  define l where "l = length (takeWhile (\<lambda>w. w = 0) (drop i ws))"
  have "l \<le> length ws - i" using length_takeWhile_le [of "\<lambda>w. w = 0" "drop i ws"] by (simp add: l_def)
  have "take l (drop i ws) = takeWhile (\<lambda>w. w = 0) (drop i ws)" by (simp add: l_def takeWhile_eq_take [symmetric])
  also have "\<dots> = replicate l 0"
    by (rule replicate_eqI) (auto simp: l_def dest: set_takeWhileD)
  finally have "ws = take i ws @ replicate l 0 @ drop (i + l) ws"
    by (metis append_take_drop_id drop_drop add.commute)
  with r i \<open>l \<le> length ws - i\<close> show "run_ok ws (longer_run ws i r)"
    by (auto simp: longer_run_def run_ok_def Let_def l_def [symmetric])
qed

lemma zero_run_ok: "run_ok ws (zero_run ws)"
proof -
  have "run_ok ws r \<Longrightarrow> list_all (\<lambda>i. i < length ws) is \<Longrightarrow> run_ok ws (fold (longer_run ws) is r)" for r "is"
    by (induction "is" arbitrary: r) (simp_all add: longer_run_ok)
  then show ?thesis by (simp add: zero_run_def run_ok_def [of _ None] list_all_iff)
qed

text \<open>Reading a compressed text back, given the number of words.\<close>

definition expand :: "nat \<Rightarrow> string list \<Rightarrow> string list" where
  "expand n ps =
     (if '''' \<in> set ps
      then let front = takeWhile (\<lambda>p. p \<noteq> '''') ps; back = rev (takeWhile (\<lambda>p. p \<noteq> '''') (rev ps))
           in front @ replicate (n - length front - length back) (hex_nat 0) @ back
      else ps)"

lemma expand_gap:
  assumes "'''' \<notin> set front" and "'''' \<notin> set back"
  shows "expand n ((if front = [] then [''''] else front) @ '''' # (if back = [] then [''''] else back))
    = front @ replicate (n - length front - length back) (hex_nat 0) @ back"
proof -
  have f: "takeWhile (\<lambda>p. p \<noteq> '''') ((if front = [] then [''''] else front) @ '''' # xs) = front" for xs
    using assms(1) by (auto simp: takeWhile_append)
  have b: "takeWhile (\<lambda>p. p \<noteq> '''') (rev (if back = [] then [''''] else back) @ '''' # xs) = rev back" for xs
    using assms(2) by (auto simp: takeWhile_append)
  show ?thesis unfolding expand_def by (simp add: f b)
qed

lemma split_compressed:
  assumes "list_all (\<lambda>p. CHR '':'' \<notin> set p) front" and "list_all (\<lambda>p. CHR '':'' \<notin> set p) back"
  shows "split_on CHR '':'' (join_on CHR '':'' front @ ''::'' @ join_on CHR '':'' back)
    = (if front = [] then [''''] else front) @ '''' # (if back = [] then [''''] else back)"
proof -
  have j: "split_on CHR '':'' (join_on CHR '':'' ps) = (if ps = [] then [''''] else ps)"
    if "list_all (\<lambda>p. CHR '':'' \<notin> set p) ps" for ps
    using that split_join by auto
  have "split_on CHR '':'' (x @ ''::'' @ y) = split_on CHR '':'' x @ '''' # split_on CHR '':'' y" for x y
    by (simp add: split_on_append)
  then show ?thesis by (simp only: j [OF assms(1)] j [OF assms(2)])
qed

lemma v6_text_words: "expand 8 (split_on CHR '':'' (v6_text w)) = map hex_nat (v6_words w)"
proof -
  let ?ws = "v6_words w"
  have free: "list_all (\<lambda>p. CHR '':'' \<notin> set p) (map hex_nat ns)" "'''' \<notin> set (map hex_nat ns)" for ns
    using hex_nat_free hex_nat_nonempty [symmetric] by (simp_all add: list_all_iff image_iff)
  have n: "length ?ws = 8" by (simp add: v6_words_def)
  show ?thesis
  proof (cases "zero_run ?ws")
    case None
    have "?ws \<noteq> []" using n by auto
    then have "split_on CHR '':'' (join_on CHR '':'' (map hex_nat ?ws)) = map hex_nat ?ws"
      by (intro split_join [OF _ free(1)]) simp
    with None show ?thesis using free(2) [of ?ws] by (simp add: v6_text_def expand_def)
  next
    case (Some r)
    obtain s e where r: "r = (s, e)" by (cases r)
    from zero_run_ok [of ?ws] Some r have ok: "s \<le> e" "e \<le> 8" "?ws = take s ?ws @ replicate (e - s) 0 @ drop e ?ws"
      by (simp_all add: run_ok_def n)
    from Some r have "expand 8 (split_on CHR '':'' (v6_text w))
        = map hex_nat (take s ?ws) @ replicate (e - s) (hex_nat 0) @ map hex_nat (drop e ?ws)"
      using ok(1,2) n by (simp only: v6_text_def Let_def option.case prod.case split_compressed [OF free(1) free(1)]
        expand_gap [OF free(2) free(2)]) simp
    also have "\<dots> = map hex_nat (take s ?ws @ replicate (e - s) 0 @ drop e ?ws)" by simp
    finally show ?thesis using ok(3) by simp
  qed
qed

lemma v6_text_inject: "v6_text a = v6_text b \<longleftrightarrow> a = b"
proof
  assume "v6_text a = v6_text b"
  then have "map hex_nat (v6_words a) = map hex_nat (v6_words b)" by (metis v6_text_words)
  moreover have "inj hex_nat" by (rule injI) (rule hex_nat_inject)
  ultimately show "a = b" by (intro word_parts) (simp add: inj_map_eq_map)
qed simp

section \<open>Properties\<close>

text \<open>Two addresses of one client: the same IPv4 address, or the same upper half of an IPv6 address.\<close>

fun same_client :: "addr \<Rightarrow> addr \<Rightarrow> bool" where
  "same_client (V4 a) (V4 b) \<longleftrightarrow> a = b"
| "same_client (V6 a za) (V6 b zb) \<longleftrightarrow> drop_bit 64 a = drop_bit 64 b"
| "same_client _ _ \<longleftrightarrow> False"

lemma join_on_free: "c \<noteq> sep \<Longrightarrow> list_all (\<lambda>p. c \<notin> set p) ps \<Longrightarrow> c \<notin> set (join_on sep ps)"
  by (induction sep ps rule: join_on.induct) auto

lemma v4_no_slash: "CHR ''/'' \<notin> set (v4_text w)"
proof -
  have "CHR ''/'' \<notin> set (dec_nat n)" for n
    by (rule dec_nat_free) (simp add: is_digit_def less_eq_char_def of_char_def)
  then show ?thesis unfolding v4_text_def by (intro join_on_free) (simp_all add: list_all_iff)
qed

lemma v4_not_v6: "v4_text a \<noteq> w @ ''/64''" "w @ ''/64'' \<noteq> v4_text a"
proof -
  show "v4_text a \<noteq> w @ ''/64''"
  proof
    assume "v4_text a = w @ ''/64''"
    with v4_no_slash [of a] show False by simp
  qed
  then show "w @ ''/64'' \<noteq> v4_text a" by metis
qed

lemma upper_half: "push_bit 64 (drop_bit 64 a) = push_bit 64 (drop_bit 64 (b :: 128 word)) \<longleftrightarrow> drop_bit 64 a = drop_bit 64 b"
proof
  assume "push_bit 64 (drop_bit 64 a) = push_bit 64 (drop_bit 64 b)"
  then have "drop_bit 64 (push_bit 64 (drop_bit 64 a)) = drop_bit 64 (push_bit 64 (drop_bit 64 b))" by simp
  moreover have "drop_bit 64 (push_bit 64 (drop_bit 64 w)) = drop_bit 64 w" for w :: "128 word"
    by (rule bit_word_eqI) (auto simp: bit_drop_bit_eq bit_push_bit_iff dest: bit_imp_le_length)
  ultimately show "drop_bit 64 a = drop_bit 64 b" by simp
qed simp


lemma split_join_tail:
  "ys \<noteq> [] \<Longrightarrow> list_all (\<lambda>p. c \<notin> set p) ys \<Longrightarrow> \<exists>zs. split_on c (join_on c (xs @ ys)) = zs @ ys"
proof (induction xs)
  case Nil
  then show ?case using split_join by auto
next
  case (Cons x xs)
  then obtain zs where zs: "split_on c (join_on c (xs @ ys)) = zs @ ys" by auto
  from Cons.prems(1) obtain q qs where "xs @ ys = q # qs" by (cases "xs @ ys") auto
  then have "join_on c ((x # xs) @ ys) = x @ c # join_on c (xs @ ys)" by simp
  with zs have "split_on c (join_on c ((x # xs) @ ys)) = (split_on c x @ zs) @ ys" by (simp add: split_on_append)
  then show ?case by blast
qed

definition trusted_hop :: "ip_parsers \<Rightarrow> prefix list \<Rightarrow> string \<Rightarrow> bool" where
  "trusted_hop ip trusted h \<longleftrightarrow>
     (case ip_addr ip (trim_space h) of None \<Rightarrow> False | Some a \<Rightarrow> is_trusted trusted (unmap a))"

lemma walk_proxies:
  assumes "list_all (trusted_hop ip trusted) ps" and "is_trusted trusted cur"
    and "ip_addr ip (trim_space h) = Some a" and "\<not> is_trusted trusted (unmap a)"
  shows "walk_hops ip trusted peer (ps @ h # hs) cur = quota_ip (unmap a)"
  using assms
proof (induction ps arbitrary: cur)
  case Nil
  then show ?case by (cases hs) simp_all
next
  case (Cons p ps)
  then show ?case by (auto simp: trusted_hop_def split: option.splits)
qed


definition demo_ip :: ip_parsers where
  "demo_ip =
     \<lparr>ip_split = map_of [(''10.0.0.1:4000'', ''10.0.0.1'')],
      ip_addr = map_of [(''10.0.0.1'', V4 167772161), (''10.0.0.2'', V4 167772162), (''203.0.113.9'', V4 3405803785)],
      ip_prefix = map_of [(''10.0.0.0/8'', (V4 167772160, 8))]\<rparr>"

lemma demo_trusted: "is_trusted (trusted_prefixes demo_ip [''10.0.0.0/8'']) (V4 167772161)"
    "is_trusted (trusted_prefixes demo_ip [''10.0.0.0/8'']) (V4 167772162)"
    "\<not> is_trusted (trusted_prefixes demo_ip [''10.0.0.0/8'']) (V4 3405803785)"
  by code_simp+


end
