(* ===== verification/Ingest.thy ===== *)
theory Ingest
  imports Orchestrator_Props Ws_Client Rpc_Pool Config_Check Comparison Text_Search
begin

text \<open>
  How the orchestrator is wired (\<open>New\<close>, \<open>Run\<close> and \<open>pollLoop\<close> of \<open>internal/core/orchestrator.go\<close>): what it
  builds from the configuration, the handler and the lifecycle hook it gives to the WebSocket client,
  the bounded channel between that client and the event loop, and the pollers beside it.
\<close>

section \<open>Construction\<close>

definition lcd_guess :: "app_config \<Rightarrow> string" where
  "lcd_guess cfg =
     (let primary = primary_rpc cfg
      in if contains_text ''tm.injective.network'' primary \<or> contains_text ''rpc.injective'' primary
         then ''https://lcd.injective.network'' else '''')"

definition lcd_url :: "app_config \<Rightarrow> string" where
  "lcd_url cfg = (if ch_lcd (ac_chain cfg) = '''' then lcd_guess cfg else ch_lcd (ac_chain cfg))"

definition endpoints_of :: "app_config \<Rightarrow> endpoint list" where
  "endpoints_of cfg = map (\<lambda>r. \<lparr>ep_url = rpc_url r, ep_primary = rpc_primary r\<rparr>) (ch_rpcs (ac_chain cfg))"

definition subscriptions :: "string list" where
  "subscriptions =
     map (\<lambda>k. ''tm.event='' @ [char_of (39 :: nat)] @ k @ [char_of (39 :: nat)])
       [''NewBlock'', ''NewRound'', ''Vote'', ''ValidatorSetUpdates'']"

text \<open>One pool for each endpoint of the comparison.\<close>

fun comparison_pools ::
  "(string \<Rightarrow> string + 'b) \<Rightarrow> string list \<Rightarrow> (string, 'b pool) gomap \<Rightarrow> string + (string, 'b pool) gomap" where
  "comparison_pools init [] pools = Inr pools"
| "comparison_pools init (e # es) pools =
     (if map_of pools e \<noteq> None then comparison_pools init es pools
      else case new_pool init [\<lparr>ep_url = e, ep_primary = True\<rparr>] of
             Inl err \<Rightarrow> Inl (''monitored RPC '' @ e @ '': '' @ err)
           | Inr p \<Rightarrow> comparison_pools init es (gput e p pools))"

text \<open>
  The sender's place in the handler: between events, after the first \<open>select\<close> found the channel full, and
  after the second one made room.
\<close>

datatype sender = Idle | Evict ws_event | Retry ws_event

text \<open>
  \<open>mo_calls\<close>, \<open>mo_offered\<close> and \<open>mo_handled\<close> are ghosts: the calls of the client, the events it delivered
  and those the loop took.
\<close>

record 'b monitor =
  mo_orch :: orchestrator
  mo_pool :: "'b pool"
  mo_queue :: "ws_event list"
  mo_sender :: sender
  mo_drops :: u64
  mo_calls :: "ws_event call list"
  mo_offered :: "ws_event list"
  mo_handled :: "ws_event list"

record 'b started =
  sr_monitor :: "'b monitor"
  sr_client :: "ws_event client"
  sr_comparison :: "(string, 'b pool) gomap"
  sr_lcd :: string

definition incomplete_comparison :: "state_data \<Rightarrow> state_data" where
  "incomplete_comparison s = s\<lparr>sd_comparison := (sd_comparison s)\<lparr>cmp_status := ''incomplete''\<rparr>\<rparr>"

definition start ::
  "(string \<Rightarrow> string + 'b) \<Rightarrow> app_config \<Rightarrow> bus \<Rightarrow> state_data \<Rightarrow> gtime \<Rightarrow> string + 'b started" where
  "start init cfg b st now =
     (case new_pool init (endpoints_of cfg) of
        Inl err \<Rightarrow> Inl err
      | Inr pool \<Rightarrow>
          (case new_client (map ep_url (endpoints_of cfg)) subscriptions True 0 0 of
             Inl err \<Rightarrow> Inl err
           | Inr client \<Rightarrow>
               let monitored = ch_monitored (ac_chain cfg)
               in case (if monitored = [] then Inr []
                        else comparison_pools init (primary_rpc cfg # monitored) []) of
                    Inl err \<Rightarrow> Inl err
                  | Inr pools \<Rightarrow>
                      Inr \<lparr>sr_monitor =
                             \<lparr>mo_orch =
                                \<lparr>oc_state = (if monitored = [] then st else mutate incomplete_comparison now st),
                                 oc_tracker = new_tracker (tracker_config cfg), oc_bus = b, oc_refresh = False,
                                 oc_published = []\<rparr>,
                              mo_pool = pool, mo_queue = [], mo_sender = Idle, mo_drops = 0, mo_calls = [],
                              mo_offered = [], mo_handled = []\<rparr>,
                           sr_client = client, sr_comparison = pools, sr_lcd = lcd_url cfg\<rparr>))"

section \<open>The client's calls\<close>

definition note_lifecycle :: "ws_state \<Rightarrow> string \<Rightarrow> string option \<Rightarrow> state_data \<Rightarrow> state_data" where
  "note_lifecycle s ep err d =
     (let up = (s = Live);
          h = (sd_health d)\<lparr>he_ws := up, he_ws_endpoint := ep\<rparr>;
          h1 = (case err of None \<Rightarrow> h | Some e \<Rightarrow> h\<lparr>he_error := e\<rparr>);
          h2 = (if up then h1\<lparr>he_error := ''''\<rparr> else h1)
      in d\<lparr>sd_ws_connected := up, sd_health := h2\<rparr>)"

definition on_lifecycle ::
  "ws_state \<Rightarrow> string \<Rightarrow> string option \<Rightarrow> gtime \<Rightarrow> 'b monitor \<Rightarrow> 'b monitor" where
  "on_lifecycle s ep err now m =
     (let m1 = m\<lparr>mo_orch := on_state (note_lifecycle s ep err) now (mo_orch m)\<rparr>
      in case s of
           Live \<Rightarrow> m1\<lparr>mo_pool := set_active ep (mo_pool m1), mo_orch := emit (EvConnectionRestored ep) (mo_orch m1)\<rparr>
         | Reconnecting \<Rightarrow> m1\<lparr>mo_orch := emit (EvConnectionLost ep err) (mo_orch m1)\<rparr>
         | _ \<Rightarrow> m1)"

definition ws_capacity :: nat where
  "ws_capacity = 1024"

text \<open>
  The three \<open>select\<close> statements of the handler; the loop may take events between them.
\<close>

definition send_event :: "ws_event \<Rightarrow> 'b monitor \<Rightarrow> 'b monitor" where
  "send_event ev m =
     (case chan_send ws_capacity ev (mo_queue m) of
        Some q \<Rightarrow> m\<lparr>mo_queue := q\<rparr>
      | None \<Rightarrow> m\<lparr>mo_sender := Evict ev\<rparr>)"

definition sender_step :: "'b monitor \<Rightarrow> 'b monitor" where
  "sender_step m =
     (case mo_sender m of
        Idle \<Rightarrow> m
      | Evict ev \<Rightarrow>
          (case chan_recv (mo_queue m) of
             Some (old, q) \<Rightarrow> m\<lparr>mo_queue := q, mo_drops := mo_drops m + 1, mo_sender := Retry ev\<rparr>
           | None \<Rightarrow> m\<lparr>mo_sender := Retry ev\<rparr>)
      | Retry ev \<Rightarrow>
          (case chan_send ws_capacity ev (mo_queue m) of
             Some q \<Rightarrow> m\<lparr>mo_queue := q, mo_sender := Idle\<rparr>
           | None \<Rightarrow> m\<lparr>mo_drops := mo_drops m + 1, mo_sender := Idle\<rparr>))"

section \<open>The loop and the pollers\<close>

definition consume :: "gtime \<Rightarrow> 'b monitor \<Rightarrow> 'b monitor option" where
  "consume now m =
     (case chan_recv (mo_queue m) of
        None \<Rightarrow> Some m
      | Some (ev, q) \<Rightarrow>
          map_option (\<lambda>oc. m\<lparr>mo_orch := oc, mo_queue := q, mo_handled := mo_handled m @ [ev]\<rparr>)
            (handle_ws_event ev now (mo_orch m)))"

definition poll_interval :: "duration \<Rightarrow> duration" where
  "poll_interval every = (if every \<le> 0 then 30 * second else every)"

text \<open>The HTTP fallback polls consensus only while the stream does not deliver.\<close>

definition consensus_poll_due :: "ws_state \<Rightarrow> gtime \<Rightarrow> state_data \<Rightarrow> bool" where
  "consensus_poll_due ws now s \<longleftrightarrow> ws \<noteq> Live \<or> he_mode (sd_health (snapshot s now)) \<noteq> ''streaming''"

definition is_poll :: "orch_input \<Rightarrow> bool" where
  "is_poll i = (case i of InWs ev now \<Rightarrow> False | _ \<Rightarrow> True)"

definition poll :: "orch_input \<Rightarrow> 'b monitor \<Rightarrow> 'b monitor option" where
  "poll i m = (if is_poll i then map_option (\<lambda>oc. m\<lparr>mo_orch := oc\<rparr>) (apply_input i (mo_orch m)) else Some m)"

text \<open>A call of the client waits until the handler has returned.\<close>

datatype monitor_op =
  MCall "ws_event call" gtime
| MSender
| MConsume gtime
| MPoll orch_input

fun client_call :: "ws_event call \<Rightarrow> gtime \<Rightarrow> 'b monitor \<Rightarrow> 'b monitor" where
  "client_call (Lifecycle s ep err) now m = on_lifecycle s ep err now m"
| "client_call (Deliver ev) now m = (send_event ev m)\<lparr>mo_offered := mo_offered m @ [ev]\<rparr>"

fun monitor_step :: "monitor_op \<Rightarrow> 'b monitor \<Rightarrow> 'b monitor option" where
  "monitor_step (MCall c now) m =
     Some (if mo_sender m = Idle then (client_call c now m)\<lparr>mo_calls := mo_calls m @ [c]\<rparr> else m)"
| "monitor_step MSender m = Some (sender_step m)"
| "monitor_step (MConsume now) m = consume now m"
| "monitor_step (MPoll i) m = poll i m"

fun run_monitor :: "monitor_op list \<Rightarrow> 'b monitor \<Rightarrow> 'b monitor option" where
  "run_monitor [] m = Some m"
| "run_monitor (s # ss) m = (case monitor_step s m of None \<Rightarrow> None | Some m1 \<Rightarrow> run_monitor ss m1)"

text \<open>\<open>parseI64\<close>: the leading digits, wrapping (the function is unused).\<close>

fun parse_i64 :: "int \<Rightarrow> string \<Rightarrow> int" where
  "parse_i64 x [] = x"
| "parse_i64 x (c # s) =
     (if is_digit c then parse_i64 (i64 (i64 (x * 10) + int (digit_val c))) s else x)"

end
