(* ===== verification/Ingest_Props.thy ===== *)
theory Ingest_Props
  imports Ingest Config_Props
begin

text \<open>
  What the wiring guarantees: the channel between the client and the loop loses nothing that it does not
  count, the dashboard's connection flag and the published connection events are those of the client's
  lifecycle, and a validated configuration starts whenever its endpoints can be dialled.
\<close>

section \<open>The channel\<close>

fun pending :: "sender \<Rightarrow> ws_event list" where
  "pending Idle = []"
| "pending (Evict ev) = [ev]"
| "pending (Retry ev) = [ev]"

text \<open>Between the second and the third \<open>select\<close> there is room.\<close>

fun retry_room :: "sender \<Rightarrow> nat \<Rightarrow> bool" where
  "retry_room (Retry ev) n \<longleftrightarrow> n < ws_capacity"
| "retry_room _ n \<longleftrightarrow> True"

lemma retry_room_less: "retry_room s n \<Longrightarrow> k \<le> n \<Longrightarrow> retry_room s k"
  by (cases s) simp_all

definition in_flight :: "'b monitor \<Rightarrow> ws_event list" where
  "in_flight m = mo_handled m @ mo_queue m @ pending (mo_sender m)"

definition ingest_inv :: "'b monitor \<Rightarrow> bool" where
  "ingest_inv m \<longleftrightarrow>
     length (mo_queue m) \<le> ws_capacity
     \<and> retry_room (mo_sender m) (length (mo_queue m))
     \<and> subseq (in_flight m) (mo_offered m)
     \<and> (\<exists>n. mo_drops m = of_nat n \<and> length (mo_offered m) = length (in_flight m) + n)
     \<and> (mo_offered m \<noteq> [] \<longrightarrow> in_flight m \<noteq> [] \<and> last (in_flight m) = last (mo_offered m))"

lemma on_lifecycle_frame [simp]:
  "mo_queue (on_lifecycle s ep err now m) = mo_queue m" "mo_sender (on_lifecycle s ep err now m) = mo_sender m"
  "mo_drops (on_lifecycle s ep err now m) = mo_drops m" "mo_offered (on_lifecycle s ep err now m) = mo_offered m"
  "mo_handled (on_lifecycle s ep err now m) = mo_handled m" "mo_calls (on_lifecycle s ep err now m) = mo_calls m"
  by (simp_all add: on_lifecycle_def Let_def split: ws_state.split)

lemma ingest_inv_cong:
  "ingest_inv m \<Longrightarrow> mo_queue m' = mo_queue m \<Longrightarrow> mo_sender m' = mo_sender m \<Longrightarrow> mo_drops m' = mo_drops m
     \<Longrightarrow> mo_offered m' = mo_offered m \<Longrightarrow> mo_handled m' = mo_handled m \<Longrightarrow> ingest_inv m'"
  by (simp add: ingest_inv_def in_flight_def)

lemma send_inv:
  assumes "ingest_inv m" and "mo_sender m = Idle"
  shows "ingest_inv ((send_event ev m)\<lparr>mo_offered := mo_offered m @ [ev]\<rparr>)"
proof -
  let ?m = "(send_event ev m)\<lparr>mo_offered := mo_offered m @ [ev]\<rparr>"
  have "in_flight ?m = in_flight m @ [ev]"
    using assms(2) by (simp add: in_flight_def send_event_def chan_send_def)
  moreover have "length (mo_queue ?m) \<le> ws_capacity" "mo_sender ?m = Idle \<or> mo_sender ?m = Evict ev"
    "mo_drops ?m = mo_drops m"
    using assms by (auto simp: send_event_def chan_send_def ingest_inv_def)
  ultimately show ?thesis
    using assms(1) by (auto simp: ingest_inv_def subseq_append')
qed

lemma sender_inv: "ingest_inv m \<Longrightarrow> ingest_inv (sender_step m)"
proof (cases "mo_sender m")
  case Idle
  then show "ingest_inv m \<Longrightarrow> ?thesis" by (simp add: sender_step_def)
next
  case (Evict ev)
  assume inv: "ingest_inv m"
  show ?thesis
  proof (cases "mo_queue m")
    case Nil
    with Evict inv show ?thesis
      by (simp add: sender_step_def chan_recv_def ingest_inv_def in_flight_def ws_capacity_def)
  next
    case (Cons x q)
    let ?m = "m\<lparr>mo_queue := q, mo_drops := mo_drops m + 1, mo_sender := Retry ev\<rparr>"
    have step: "sender_step m = ?m" using Evict Cons by (simp add: sender_step_def chan_recv_def)
    have "in_flight m = mo_handled m @ x # q @ [ev]" "in_flight ?m = mo_handled m @ q @ [ev]"
      using Evict Cons by (simp_all add: in_flight_def)
    moreover have "subseq (mo_handled m @ q @ [ev]) (mo_handled m @ x # q @ [ev])"
      by (intro list_emb_append_mono subseq_order.refl) auto
    moreover obtain n where "mo_drops m = of_nat n" "length (mo_offered m) = length (in_flight m) + n"
      using inv by (auto simp: ingest_inv_def)
    then have "mo_drops ?m = of_nat (Suc n)" "length (mo_offered m) = length (in_flight m) + n" by simp_all
    ultimately show ?thesis
      using inv Cons unfolding step ingest_inv_def
      by (auto intro: subseq_order.order_trans exI [of _ "Suc n"])
  qed
next
  case (Retry ev)
  assume "ingest_inv m"
  with Retry show ?thesis
    by (simp add: sender_step_def chan_send_def ingest_inv_def in_flight_def)
qed

lemma consume_inv: "consume now m = Some m' \<Longrightarrow> ingest_inv m \<Longrightarrow> ingest_inv m'"
  by (cases "mo_queue m") (auto simp: consume_def chan_recv_def ingest_inv_def in_flight_def intro: retry_room_less)

lemma monitor_step_ingest: "monitor_step s m = Some m' \<Longrightarrow> ingest_inv m \<Longrightarrow> ingest_inv m'"
proof (induction s m rule: monitor_step.induct)
  case (1 c now m)
  then show ?case
    by (cases c) (auto intro: ingest_inv_cong send_inv [THEN ingest_inv_cong] split: if_splits)
next
  case (2 m)
  then show ?case by (auto intro: sender_inv)
next
  case (3 now m)
  then show ?case by (auto intro: consume_inv)
next
  case (4 i m)
  then show ?case by (auto simp: poll_def intro: ingest_inv_cong split: if_splits)
qed

interpretation ingest: machine monitor_step run_monitor "\<lambda>_. True" ingest_inv
  by unfold_locales (auto intro: monitor_step_ingest)

lemma start_monitor:
  assumes "start init cfg b st now = Inr s"
  shows "mo_queue (sr_monitor s) = []" "mo_sender (sr_monitor s) = Idle" "mo_drops (sr_monitor s) = 0"
    "mo_calls (sr_monitor s) = []" "mo_offered (sr_monitor s) = []" "mo_handled (sr_monitor s) = []"
    "oc_published (mo_orch (sr_monitor s)) = []"
    "sd_ws_connected (oc_state (mo_orch (sr_monitor s))) = sd_ws_connected st"
    "sd_health (oc_state (mo_orch (sr_monitor s))) = sd_health st"
    "new_client (map ep_url (endpoints_of cfg)) subscriptions True 0 0 = Inr (sr_client s)"
  using assms by (auto simp: start_def Let_def mutate_def incomplete_comparison_def split: sum.splits if_splits)

section \<open>The connection as the dashboard sees it\<close>

definition is_connection :: "event \<Rightarrow> bool" where
  "is_connection ev \<longleftrightarrow> event_kind ev \<in> {KindConnectionLost, KindConnectionRestored}"

definition connection_events :: "orchestrator \<Rightarrow> event list" where
  "connection_events oc = filter is_connection (oc_published oc)"

definition link_flags :: "state_data \<Rightarrow> bool \<times> bool" where
  "link_flags s = (sd_ws_connected s, he_ws (sd_health s))"

text \<open>What every handler and poller leaves alone.\<close>

definition same_link :: "orchestrator \<Rightarrow> orchestrator \<Rightarrow> bool" where
  "same_link oc oc' \<longleftrightarrow>
     link_flags (oc_state oc') = link_flags (oc_state oc) \<and> connection_events oc' = connection_events oc"

lemma same_link_refl [simp]: "same_link oc oc"
  by (simp add: same_link_def)

lemma same_link_trans: "same_link a b \<Longrightarrow> same_link b c \<Longrightarrow> same_link a c"
  by (simp add: same_link_def)

lemma same_link_emit [simp]: "same_link oc (emit ev oc') \<longleftrightarrow> same_link oc oc'" if "\<not> is_connection ev"
  using that by (simp add: same_link_def emit_def connection_events_def)

lemma same_link_fields [simp]:
  "same_link oc (oc'\<lparr>oc_tracker := t\<rparr>) \<longleftrightarrow> same_link oc oc'"
  "same_link oc (oc'\<lparr>oc_refresh := r\<rparr>) \<longleftrightarrow> same_link oc oc'"
  "same_link oc (oc'\<lparr>oc_state := s\<rparr>) \<longleftrightarrow> link_flags s = link_flags (oc_state oc) \<and> connection_events oc' = connection_events oc"
  by (simp_all add: same_link_def connection_events_def)

lemma same_link_resolved: "same_link oc oc' \<Longrightarrow> same_link oc (publish_resolved rs oc')"
  unfolding publish_resolved_def
  by (induction rs arbitrary: oc') (simp_all add: is_connection_def)

lemma same_link_on_state:
  "(\<And>s. link_flags (f s) = link_flags s) \<Longrightarrow> same_link oc (on_state f now oc)"
  by (simp add: on_state_def mutate_def link_flags_def)

lemma same_link_on_state_with:
  "on_state_with f now oc = (oc', r) \<Longrightarrow> (\<And>s. link_flags (fst (f s)) = link_flags s) \<Longrightarrow> same_link oc oc'"
  by (auto simp: on_state_with_def link_flags_def split: prod.splits) (metis fst_conv)+

lemma link_flags_advance [simp]: "link_flags (fst (advance_round s h r st now)) = link_flags s"
  by (simp add: advance_round_def link_flags_def Let_def)

lemma link_flags_append [simp]: "link_flags (append_block s b) = link_flags s"
  by (simp add: append_block_def link_flags_def Let_def split: option.split)

lemma link_flags_http [simp]: "link_flags (record_http_success s e now) = link_flags s"
  by (simp add: record_http_success_def link_flags_def Let_def)

lemma link_flags_merge [simp]: "link_flags (fst (merge_validator_round s rows tot h)) = link_flags s"
  by (simp add: merge_validator_round_def link_flags_def Let_def)

lemma link_flags_advance_eq: "advance_round s h r st now = (s', ok) \<Longrightarrow> link_flags s' = link_flags s"
  using link_flags_advance [of s h r st now] by simp

lemma link_flags_merge_eq: "merge_validator_round s rows tot h = (s', ok) \<Longrightarrow> link_flags s' = link_flags s"
  using link_flags_merge [of s rows tot h] by simp

lemma link_flags_fields [simp]:
  "link_flags (s\<lparr>sd_last_round := x1\<rparr>) = link_flags s" "link_flags (s\<lparr>sd_committed := x2\<rparr>) = link_flags s"
  "link_flags (s\<lparr>sd_consensus_error := x3\<rparr>) = link_flags s" "link_flags (s\<lparr>sd_validators_error := x4\<rparr>) = link_flags s"
  "link_flags (s\<lparr>sd_chain_validators := x5\<rparr>) = link_flags s"
  by (simp_all add: link_flags_def)

lemma accept_block_link: "link_flags (fst (accept_block h b now s)) = link_flags s"
  by (simp add: accept_block_def Let_def)

lemma enter_new_round_link: "link_flags (fst (enter_new_round h r st p now s)) = link_flags s"
  by (auto simp: enter_new_round_def split: prod.split bool.split dest: link_flags_advance_eq)

lemma accept_vote_link: "link_flags (fst (accept_vote h r st a vt cell now s)) = link_flags s"
  by (auto simp: accept_vote_def Let_def split: prod.split bool.split option.split dest: link_flags_advance_eq)

lemma apply_status_link: "link_flags (apply_status ns e now s) = link_flags s"
  by (simp add: apply_status_def Let_def record_http_success_def link_flags_def)

lemma apply_validators_link: "link_flags (fst (apply_validators rows tot h cvs s)) = link_flags s"
  by (auto simp: apply_validators_def split: prod.split bool.split dest: link_flags_merge_eq)

lemma apply_consensus_link: "link_flags (fst (apply_consensus h r st e now s)) = link_flags s"
  by (auto simp: apply_consensus_def Let_def split: prod.split bool.split dest: link_flags_advance_eq)

lemma plain_events [simp]:
  "\<not> is_connection (EvNewBlock a)" "\<not> is_connection (EvRoundChanged b)" "\<not> is_connection (EvVoteReceived c)"
  "\<not> is_connection (EvValidatorSetUpdated d)" "\<not> is_connection (EvStatusUpdated e)"
  "\<not> is_connection (EvUpgradePlanUpdated f g)" "\<not> is_connection (EvBlockTimeUpdated i)"
  "\<not> is_connection (EvDivergenceDetected j)" "\<not> is_connection (EvDivergenceResolved k)"
  by (simp_all add: is_connection_def)

lemma handle_new_block_link:
  assumes "handle_new_block d now oc = Some oc'"
  shows "same_link oc oc'"
proof -
  have b: "same_link oc oc1" if "on_state_with (accept_block h s now) now oc = (oc1, r)" for h s oc1 r
    by (rule same_link_on_state_with [OF that accept_block_link])
  from assms show ?thesis
    by (auto simp: handle_new_block_def Let_def split: if_splits prod.splits option.splits
        intro: same_link_resolved dest!: b)
qed

lemma handle_new_round_link: "same_link oc (handle_new_round d now oc)"
proof -
  have b: "same_link oc oc1" if "on_state_with (enter_new_round h r st p now) now oc = (oc1, x)" for h r st p oc1 x
    by (rule same_link_on_state_with [OF that enter_new_round_link])
  show ?thesis
    by (auto simp: handle_new_round_def Let_def split: prod.split option.split dest!: b)
qed

lemma handle_vote_link: "same_link oc (handle_vote w now oc)"
proof -
  have b: "same_link oc oc1"
    if "on_state_with (accept_vote h r st a vt cell now) now (oc\<lparr>oc_tracker := t\<rparr>) = (oc1, x)"
    for h r st a vt cell oc1 x t
    using same_link_on_state_with [OF that accept_vote_link] by (simp add: same_link_def connection_events_def)
  have c: "same_link oc (count_live_vote v wire now oc1) \<longleftrightarrow> same_link oc oc1" for v wire oc1
    by (simp add: count_live_vote_def Let_def split: prod.split)
  show ?thesis
    by (auto simp: handle_vote_def Let_def c split: prod.split dest!: b)
qed

lemma handle_ws_event_link:
  assumes "handle_ws_event ev now oc = Some oc'"
  shows "same_link oc oc'"
proof -
  let ?oc1 = "on_state (note_ws_event now) now oc"
  have 1: "same_link oc ?oc1" by (rule same_link_on_state) (simp add: note_ws_event_def link_flags_def)
  have "same_link ?oc1 oc'"
    using assms handle_new_round_link handle_vote_link
    by (auto simp: handle_ws_event_def Let_def split: ws_event.splits dest: handle_new_block_link)
  with 1 show ?thesis by (rule same_link_trans)
qed

lemma refresh_latest_block_link:
  assumes "refresh_latest_block fetch h now oc = Some (oc', err)"
  shows "same_link oc oc'"
proof -
  have b: "same_link oc (on_state (\<lambda>s. record_http_success (append_block s x) e now) now oc)" for x e
    by (rule same_link_on_state) simp
  from assms show ?thesis
    by (auto simp: refresh_latest_block_def Let_def b split: if_splits sum.splits option.splits prod.splits
        intro!: same_link_resolved)
qed

lemma refresh_status_link:
  assumes "refresh_status answer fetch now oc = Some (oc', err)"
  shows "same_link oc oc'"
proof -
  have f: "same_link oc (on_state (status_failed e) now oc)" for e
    by (rule same_link_on_state) (simp add: status_failed_def link_flags_def)
  have a: "same_link oc (on_state (apply_status ns e now) now oc)" for ns e
    by (rule same_link_on_state) (rule apply_status_link)
  have t: "same_link oc oc3" if "refresh_latest_block fetch h now (emit (EvStatusUpdated u) (on_state (apply_status ns e now) now oc)) = Some (oc3, x)"
    for h u ns e oc3 x
    using same_link_trans [OF _ refresh_latest_block_link [OF that]] a by simp
  from assms show ?thesis
    by (auto simp: refresh_status_def Let_def f a split: if_splits sum.splits option.splits prod.splits dest!: t)
qed

lemma refresh_validators_link: "same_link oc (fst (refresh_validators answer chain now oc))"
proof -
  have f: "same_link oc (on_state (validators_failed e) now oc)" for e
    by (rule same_link_on_state) (simp add: validators_failed_def)
  have b: "same_link oc oc1" if "on_state_with (apply_validators rows tot h cvs) now oc = (oc1, x)" for rows tot h cvs oc1 x
    by (rule same_link_on_state_with [OF that apply_validators_link])
  show ?thesis
    by (auto simp: refresh_validators_def Let_def f split: if_splits sum.splits prod.splits dest!: b)
qed

lemma poll_link:
  assumes "apply_input i oc = Some oc'"
  shows "same_link oc oc'"
proof (cases i)
  case (InUpgrade a now)
  have u: "same_link oc (on_state (\<lambda>s. s\<lparr>sd_upgrade_error := e, sd_upgrade := p s\<rparr>) now oc)"
      "same_link oc (on_state (\<lambda>s. s\<lparr>sd_upgrade_error := e\<rparr>) now oc)" for e p
    by (rule same_link_on_state; simp add: link_flags_def)+
  from assms show ?thesis
    by (auto simp: InUpgrade refresh_upgrade_def u split: sum.splits option.splits)
next
  case (InBlockTime a f now)
  have t: "same_link oc (on_state (\<lambda>s. s\<lparr>sd_block_time := d\<rparr>) now oc)" for d
    by (rule same_link_on_state) (simp add: link_flags_def)
  from assms show ?thesis
    by (auto simp: InBlockTime refresh_block_time_def Let_def t split: sum.splits option.splits if_splits prod.splits)
next
  case (InConsensus a now)
  have f: "same_link oc (on_state (consensus_failed e now) now oc)" for e
    by (rule same_link_on_state) (simp add: consensus_failed_def link_flags_def)
  have b: "same_link oc oc1" if "on_state_with (apply_consensus h r st e now) now oc = (oc1, x)" for h r st e oc1 x
    by (rule same_link_on_state_with [OF that apply_consensus_link])
  from assms show ?thesis
    by (auto simp: InConsensus refresh_consensus_def f split: sum.splits option.splits prod.splits dest!: b)
qed (use assms handle_ws_event_link refresh_status_link refresh_validators_link in \<open>auto\<close>)

section \<open>The lifecycle\<close>

fun connection_event :: "ws_event call \<Rightarrow> event list" where
  "connection_event (Lifecycle Live ep err) = [EvConnectionRestored ep]"
| "connection_event (Lifecycle Reconnecting ep err) = [EvConnectionLost ep err]"
| "connection_event _ = []"

fun last_state :: "ws_state \<Rightarrow> 'ev call list \<Rightarrow> ws_state" where
  "last_state s [] = s"
| "last_state s (Lifecycle s' ep err # cs) = last_state s' cs"
| "last_state s (Deliver ev # cs) = last_state s cs"

fun delivered :: "'ev call list \<Rightarrow> 'ev list" where
  "delivered [] = []"
| "delivered (Lifecycle s ep err # cs) = delivered cs"
| "delivered (Deliver ev # cs) = ev # delivered cs"

lemma last_state_append [simp]: "last_state s (xs @ ys) = last_state (last_state s xs) ys"
  by (induction s xs rule: last_state.induct) simp_all

lemma delivered_append [simp]: "delivered (xs @ ys) = delivered xs @ delivered ys"
  by (induction xs rule: delivered.induct) simp_all

lemma protocol_last: "protocol s cs = Some s' \<Longrightarrow> last_state s cs = s'"
  by (induction s cs rule: protocol.induct) (simp_all split: if_splits)

text \<open>Up and down in turn: no connection is restored twice without being lost in between.\<close>

fun alternates :: "bool \<Rightarrow> event list \<Rightarrow> bool" where
  "alternates up [] = True"
| "alternates up (EvConnectionRestored ep # es) = (\<not> up \<and> alternates True es)"
| "alternates up (EvConnectionLost ep err # es) = alternates False es"
| "alternates up (ev # es) = False"

lemma protocol_alternates:
  "protocol s cs = Some s' \<Longrightarrow> alternates (s = Live) (concat (map connection_event cs))"
proof (induction s cs rule: protocol.induct)
  case (2 s s' ep err cs)
  then show ?case by (cases s') (auto simp: may_follow_def split: if_splits ws_state.splits)
qed (auto split: if_splits)

definition link_inv :: "'b monitor \<Rightarrow> bool" where
  "link_inv m \<longleftrightarrow>
     (let up = (last_state Disconnected (mo_calls m) = Live)
      in link_flags (oc_state (mo_orch m)) = (up, up))
     \<and> connection_events (mo_orch m) = concat (map connection_event (mo_calls m))
     \<and> mo_offered m = delivered (mo_calls m)"

lemma link_inv_orch:
  "link_inv m \<Longrightarrow> same_link (mo_orch m) oc \<Longrightarrow> mo_orch m' = oc \<Longrightarrow> mo_calls m' = mo_calls m
     \<Longrightarrow> mo_offered m' = mo_offered m \<Longrightarrow> link_inv m'"
  by (simp add: link_inv_def same_link_def)

lemma lifecycle_link:
  "link_flags (oc_state (mo_orch (on_lifecycle s ep err now m))) = (s = Live, s = Live)"
  "connection_events (mo_orch (on_lifecycle s ep err now m))
     = connection_events (mo_orch m) @ connection_event (Lifecycle s ep err)"
  by (cases s; cases err; simp add: on_lifecycle_def Let_def emit_def on_state_def mutate_def note_lifecycle_def
      link_flags_def connection_events_def is_connection_def)+

lemma send_frame [simp]:
  "mo_orch (send_event ev m) = mo_orch m" "mo_calls (send_event ev m) = mo_calls m"
  by (simp_all add: send_event_def split: option.split)

lemma sender_frame [simp]:
  "mo_orch (sender_step m) = mo_orch m" "mo_calls (sender_step m) = mo_calls m" "mo_offered (sender_step m) = mo_offered m"
  by (simp_all add: sender_step_def split: option.split sender.split prod.split)

lemma monitor_step_link: "monitor_step s m = Some m' \<Longrightarrow> link_inv m \<Longrightarrow> link_inv m'"
proof (induction s m rule: monitor_step.induct)
  case (1 c now m)
  then show ?case
    by (cases c) (auto simp: link_inv_def lifecycle_link Let_def split: if_splits)
next
  case (2 m)
  then show ?case by (auto intro: link_inv_orch [OF _ same_link_refl])
next
  case (3 now m)
  then show ?case
    by (auto simp: consume_def intro: link_inv_orch dest: handle_ws_event_link split: option.splits)
next
  case (4 i m)
  then show ?case
    by (auto simp: poll_def intro: link_inv_orch [OF _ same_link_refl] link_inv_orch dest: poll_link split: if_splits)
qed

interpretation link: machine monitor_step run_monitor "\<lambda>_. True" link_inv
  by unfold_locales (auto intro: monitor_step_link)

section \<open>Properties\<close>

text \<open>C30: nothing is lost silently on the way from the node to the loop.  However the client's handler, the
  event loop and the pollers interleave, the events handled, queued and in the handler's hands are events
  the client delivered, in their order; every other one is counted as dropped, the newest never is; and
  at most 1024 wait.\<close>

theorem ingest_accounted:
  assumes "start init cfg b st now = Inr s" and "run_monitor ss (sr_monitor s) = Some m"
  shows "subseq (in_flight m) (mo_offered m)
    \<and> mo_drops m = of_nat (length (mo_offered m) - length (in_flight m))
    \<and> (mo_offered m = [] \<or> in_flight m \<noteq> [] \<and> last (in_flight m) = last (mo_offered m))
    \<and> length (mo_queue m) \<le> 1024"
proof -
  have "ingest_inv (sr_monitor s)"
    by (simp add: ingest_inv_def in_flight_def start_monitor [OF assms(1)])
  with ingest.run_inv [OF assms(2)] have "ingest_inv m" by (simp add: list.pred_True)
  then show ?thesis by (auto simp: ingest_inv_def ws_capacity_def)
qed


section \<open>Starting\<close>

lemma build_backends_total: "(\<And>u. \<exists>b. init u = Inr b) \<Longrightarrow> \<exists>bs. build_backends init es = Inr bs"
proof (induction es)
  case (Cons e es)
  then obtain b bs where "init (ep_url e) = Inr b" "build_backends init es = Inr bs" by blast
  then show ?case by simp
qed simp

lemma new_pool_total:
  assumes "\<And>u. \<exists>b. init u = Inr b" and "eps \<noteq> []"
  shows "\<exists>p. new_pool init eps = Inr p"
  using build_backends_total [where init = init and es = "primary_first eps", OF assms(1)] assms(2)
  by (auto simp: new_pool_def)

lemma comparison_pools_total:
  assumes "\<And>u. \<exists>b. init u = Inr b"
  shows "\<exists>ps'. comparison_pools init es ps = Inr ps' \<and> fst ` set ps' = fst ` set ps \<union> set es"
proof (induction es arbitrary: ps)
  case (Cons e es)
  show ?case
  proof (cases "map_of ps e")
    case None
    obtain p where "new_pool init [\<lparr>ep_url = e, ep_primary = True\<rparr>] = Inr p"
      using new_pool_total [where init = init, OF assms] by blast
    with None Cons [of "gput e p ps"] show ?thesis by (auto simp: gkeys_gput)
  next
    case (Some p)
    then have "e \<in> fst ` set ps" by (metis map_of_SomeD image_eqI fst_conv)
    with Some obtain ps' where "comparison_pools init (e # es) ps = Inr ps'" "fst ` set ps' = fst ` set ps \<union> set es"
      using Cons [of ps] by auto
    with \<open>e \<in> fst ` set ps\<close> show ?thesis by (simp add: insert_absorb)
  qed
qed simp

lemma primary_active:
  assumes "new_pool init (endpoints_of cfg) = Inr p"
  shows "active_url p = primary_rpc cfg"
proof -
  let ?e = "\<lambda>r. \<lparr>ep_url = rpc_url r, ep_primary = rpc_primary r\<rparr>"
  note p = new_pool_ok [OF assms]
  have "pool_urls p = map ep_url (primary_first (endpoints_of cfg))" by (simp add: p [THEN conjunct2, symmetric] comp_def)
  moreover have "po_active p = 0" using assms by (auto simp: new_pool_def split: if_splits sum.splits)
  moreover have "po_endpoints p \<noteq> []" using p by (auto simp: pool_ok_def)
  ultimately have "active_url p = hd (map ep_url (primary_first (endpoints_of cfg)))"
    by (cases "po_endpoints p") (auto simp: active_url_def)
  moreover have hdp: "hd (map ep_url (primary_first (map ?e rs))) = (case find rpc_primary rs of Some r \<Rightarrow> rpc_url r | None \<Rightarrow> rpc_url (hd rs))"
    if "rs \<noteq> []" for rs
  proof (cases "find rpc_primary rs")
    case None
    then have "filter rpc_primary rs = []" by (simp add: find_None_iff filter_empty_conv)
    then have "filter (\<lambda>r. \<not> rpc_primary r) rs = rs" by (simp add: filter_empty_conv)
    with None \<open>filter rpc_primary rs = []\<close> that show ?thesis
      by (cases rs) (auto simp: primary_first_def filter_map comp_def)
  next
    case (Some r)
    then have "\<exists>xs. filter rpc_primary rs = r # xs"
      by (induction rs) (auto split: if_splits)
    with Some show ?thesis by (auto simp: primary_first_def filter_map comp_def)
  qed
  moreover have ne: "ch_rpcs (ac_chain cfg) \<noteq> []"
    using assms by (auto simp: new_pool_def endpoints_of_def)
  ultimately have "active_url p = (case find rpc_primary (ch_rpcs (ac_chain cfg)) of
      Some r \<Rightarrow> rpc_url r | None \<Rightarrow> rpc_url (hd (ch_rpcs (ac_chain cfg))))"
    by (simp only: endpoints_of_def)
  moreover have "(case ch_rpcs (ac_chain cfg) of [] \<Rightarrow> '''' | r # rs \<Rightarrow> rpc_url r) = rpc_url (hd (ch_rpcs (ac_chain cfg)))"
    using ne by (cases "ch_rpcs (ac_chain cfg)") simp_all
  ultimately show ?thesis by (simp only: primary_rpc_def)
qed

text \<open>A valid configuration starts.  When \<open>Validate\<close> accepts the configuration and every endpoint's client
  can be made, \<open>New\<close> succeeds; HTTP calls go to the primary endpoint first, and there is a pool for each
  endpoint the application-hash comparison asks, so the comparison never looks up a missing one.\<close>

theorem valid_config_starts:
  assumes "validate tp cfg = None" and "\<forall>u. \<exists>b. init u = Inr b"
  shows "\<exists>s. start init cfg b st now = Inr s \<and> active_url (mo_pool (sr_monitor s)) = primary_rpc cfg
    \<and> (ch_monitored (ac_chain cfg) = []
       \<or> list_all (\<lambda>e. map_of (sr_comparison s) e \<noteq> None) (add_unseen [primary_rpc cfg] (ch_monitored (ac_chain cfg))))"
proof -
  have total: "\<And>u. \<exists>b. init u = Inr b" using assms(2) by blast
  have ne: "endpoints_of cfg \<noteq> []"
    using valid_config(5) [OF assms(1)] by (auto simp: endpoints_of_def primary_rpc_def)
  obtain p where p: "new_pool init (endpoints_of cfg) = Inr p"
    using new_pool_total [where init = init, OF total ne] by blast
  obtain c where c: "new_client (map ep_url (endpoints_of cfg)) subscriptions True 0 0 = Inr (c :: ws_event client)"
    using ne by (auto simp: new_client_def)
  obtain ps where ps: "comparison_pools init (primary_rpc cfg # ch_monitored (ac_chain cfg)) [] = Inr ps"
      "fst ` set ps = set (primary_rpc cfg # ch_monitored (ac_chain cfg))"
    using comparison_pools_total [where init = init and ps = "[]" and es = "primary_rpc cfg # ch_monitored (ac_chain cfg)", OF total]
    by auto
  have "list_all (\<lambda>e. map_of ps e \<noteq> None) (add_unseen [primary_rpc cfg] (ch_monitored (ac_chain cfg)))"
    using add_unseen_props [of "[primary_rpc cfg]" "ch_monitored (ac_chain cfg)"] ps(2)
    by (auto simp: list_all_iff map_of_eq_None_iff)
  with p c ps(1) primary_active [OF p] show ?thesis by (simp add: start_def Let_def)
qed

section \<open>A concrete run\<close>

definition demo_init :: "string \<Rightarrow> string + nat" where
  "demo_init url = Inr 0"

definition demo_start :: "nat started" where
  "demo_start = projr (start demo_init config_defaults (new_bus 0) (new_state 0 0) 0)"

theorem valid_config_starts_witness:
  "\<exists>s. start demo_init config_defaults (new_bus 0) (new_state 0 0) 0 = Inr s
     \<and> active_url (mo_pool (sr_monitor s)) = ''https://tm.injective.network''"
proof -
  have "primary_rpc config_defaults = ''https://tm.injective.network''" by code_simp
  with valid_config_starts [OF defaults_valid, of demo_init "new_bus 0" "new_state 0 0" 0] show ?thesis
    by (auto simp: demo_init_def)
qed

lemma demo_start: "start demo_init config_defaults (new_bus 0) (new_state 0 0) 0 = Inr demo_start"
proof -
  have "isl (start demo_init config_defaults (new_bus 0) (new_state 0 0) 0) = False" by code_simp
  then show ?thesis unfolding demo_start_def by (metis sum.collapse(2))
qed

definition demo_steps :: "monitor_op list" where
  "demo_steps =
     [MCall (Lifecycle Connecting ''https://tm.injective.network'' None) 1,
      MCall (Lifecycle Subscribing ''https://tm.injective.network'' None) 2,
      MCall (Lifecycle Live ''https://tm.injective.network'' None) 3, MCall (Deliver WsValidatorSetUpdates) 4,
      MConsume 5, MPoll (InUpgrade (Inl ''down'') 6), MCall (Deliver WsOther) 7]"

definition demo_attempt :: "ws_event attempt" where
  "demo_attempt =
     \<lparr>at_url = Inr ''wss://tm.injective.network/websocket'', at_dial = None, at_writes = [None, None, None, None],
      at_frames = [EmptyFrame, EventFrame WsValidatorSetUpdates, EventFrame WsOther, EventFrame WsOther],
      at_finish = Failed ''eof''\<rparr>"

definition demo_monitor :: "nat monitor" where
  "demo_monitor = the (run_monitor demo_steps (sr_monitor demo_start))"

lemma demo_monitor_run: "run_monitor demo_steps (sr_monitor demo_start) = Some demo_monitor"
proof -
  have "Option.is_none (run_monitor demo_steps (sr_monitor demo_start)) = False" by code_simp
  then show ?thesis by (auto simp: demo_monitor_def Option.is_none_def)
qed

theorem ingest_accounted_witness:
  "subseq (in_flight demo_monitor) (mo_offered demo_monitor) \<and> length (mo_queue demo_monitor) \<le> 1024
     \<and> mo_offered demo_monitor = [WsValidatorSetUpdates, WsOther]"
proof -
  have "mo_offered demo_monitor = [WsValidatorSetUpdates, WsOther]" by code_simp
  with ingest_accounted [OF demo_start demo_monitor_run] show ?thesis by simp
qed


end
