(* ===== verification/Lcd_Querier.thy ===== *)
theory Lcd_Querier
  imports Orchestrator
begin

text \<open>
  The client of the chain's REST interface (\<open>internal/cosmos/querier.go\<close>): the staking module's
  validators, page by page, and the upgrade plan.  The network answers call \<open>n\<close> for a URL; base64 and
  SHA-256 are parameters.  The loop over the pages may never end, so it is a partial function.
\<close>

section \<open>Answers\<close>

record lcd_validator =
  lv_operator :: string
  lv_key :: string
  lv_jailed :: bool
  lv_status :: string
  lv_moniker :: string
  lv_rate :: string

record lcd_page =
  lp_validators :: "lcd_validator list"
  lp_next :: string

text \<open>No response, or a status code with its text and the decoded body.\<close>

datatype 'v answer = NoResponse string | Response int string "string + 'v"

record querier =
  qr_url :: string
  qr_prefix :: string

definition trim_slashes :: "string \<Rightarrow> string" where
  "trim_slashes s = rev (dropWhile (\<lambda>c. c = CHR ''/'') (rev s))"

definition new_querier :: "string \<Rightarrow> string \<Rightarrow> querier" where
  "new_querier url pre = \<lparr>qr_url = trim_slashes url, qr_prefix = pre\<rparr>"

text \<open>\<open>url.QueryEscape\<close>.\<close>

definition hex_upper :: "nat \<Rightarrow> char" where
  "hex_upper d = (if d < 10 then char_of (48 + d) else char_of (55 + d))"

definition escape_char :: "char \<Rightarrow> string" where
  "escape_char c =
     (let n = of_char c :: nat
      in if 48 \<le> n \<and> n \<le> 57 \<or> 65 \<le> n \<and> n \<le> 90 \<or> 97 \<le> n \<and> n \<le> 122 \<or> c \<in> set ''-_.~'' then [c]
         else if n = 32 then ''+''
         else [CHR ''%'', hex_upper (n div 16), hex_upper (n mod 16)])"

definition query_escape :: "string \<Rightarrow> string" where
  "query_escape s = concat (map escape_char s)"

section \<open>Validators\<close>

definition to_chain_validator ::
  "(string \<Rightarrow> string option) \<Rightarrow> (string \<Rightarrow> string) \<Rightarrow> lcd_validator \<Rightarrow> chain_validator option" where
  "to_chain_validator base64 sha256 v =
     (case base64 (lv_key v) of
        None \<Rightarrow> None
      | Some pubkey \<Rightarrow>
          Some \<lparr>cv_operator = lv_operator v, cv_cons_addr = '''',
                cv_raw = to_upper (hex_encode (take 20 (sha256 pubkey))), cv_moniker = lv_moniker v,
                cv_jailed = lv_jailed v, cv_active = (lv_status v = ''BOND_STATUS_BONDED''),
                cv_commission = lv_rate v, cv_assigned = ''''\<rparr>)"

definition validators_url :: "querier \<Rightarrow> string \<Rightarrow> string" where
  "validators_url q key =
     qr_url q @ ''/cosmos/staking/v1beta1/validators?pagination.limit=200''
       @ (if key = '''' then '''' else ''&pagination.key='' @ query_escape key)"

partial_function (option) collect_validators ::
  "(lcd_validator \<Rightarrow> chain_validator option) \<Rightarrow> (nat \<Rightarrow> string \<Rightarrow> lcd_page answer) \<Rightarrow> querier \<Rightarrow> nat \<Rightarrow> string
     \<Rightarrow> chain_validator list \<Rightarrow> (string + chain_validator list) option" where
  "collect_validators conv net q n key out =
     (let u = validators_url q key
      in case net n u of
           NoResponse err \<Rightarrow> Some (Inl err)
         | Response code status decoded \<Rightarrow>
             if go_div code 100 \<noteq> 2 then Some (Inl (''LCD '' @ u @ '': '' @ status))
             else (case decoded of
                     Inl err \<Rightarrow> Some (Inl (''decode validators: '' @ err))
                   | Inr page \<Rightarrow>
                       let out1 = out @ List.map_filter conv (lp_validators page)
                       in if lp_next page = '''' \<or> lp_validators page = [] then Some (Inr out1)
                          else collect_validators conv net q (n + 1) (lp_next page) out1))"

definition lcd_validators ::
  "(string \<Rightarrow> string option) \<Rightarrow> (string \<Rightarrow> string) \<Rightarrow> (nat \<Rightarrow> string \<Rightarrow> lcd_page answer) \<Rightarrow> querier
     \<Rightarrow> (string + chain_validator list) option" where
  "lcd_validators base64 sha256 net q =
     (if qr_url q = '''' then Some (Inl ''LCD URL not configured'')
      else collect_validators (to_chain_validator base64 sha256) net q 0 '''' [])"

section \<open>The upgrade plan\<close>

fun parse_int_from :: "int \<Rightarrow> string \<Rightarrow> int option" where
  "parse_int_from x [] = Some x"
| "parse_int_from x (c # s) =
     (if is_digit c then parse_int_from (i64 (i64 (x * 10) + int (digit_val c))) s else None)"

definition parse_int :: "string \<Rightarrow> string + int" where
  "parse_int s = (case parse_int_from 0 s of None \<Rightarrow> Inl (''not int: '' @ s) | Some x \<Rightarrow> Inr x)"

text \<open>The plan of the answer is a name and a height text; the error of \<open>parseInt\<close> is ignored.\<close>

definition upgrade_plan ::
  "(string \<Rightarrow> (string \<times> string) option answer) \<Rightarrow> querier \<Rightarrow> string + upgrade option" where
  "upgrade_plan net q =
     (let u = qr_url q @ ''/cosmos/upgrade/v1beta1/current_plan''
      in if qr_url q = '''' then Inl ''LCD URL not configured''
         else case net u of
           NoResponse err \<Rightarrow> Inl err
         | Response code status decoded \<Rightarrow>
             if go_div code 100 \<noteq> 2 then Inl (''LCD '' @ u @ '': '' @ status)
             else (case decoded of
                     Inl err \<Rightarrow> Inl err
                   | Inr None \<Rightarrow> Inr None
                   | Inr (Some (name, text)) \<Rightarrow>
                       Inr (Some \<lparr>up_name = name,
                                  up_height = (case parse_int text of Inl err \<Rightarrow> 0 | Inr h \<Rightarrow> h)\<rparr>)))"

section \<open>Pages\<close>

text \<open>An interface that serves its validators in pages: the first page without a key, the others under theirs.\<close>

fun serves_pages :: "(nat \<Rightarrow> string \<Rightarrow> lcd_page answer) \<Rightarrow> querier \<Rightarrow> nat \<Rightarrow> string \<Rightarrow> lcd_page list \<Rightarrow> bool" where
  "serves_pages net q n key [] = False"
| "serves_pages net q n key [p] = (net n (validators_url q key) = Response 200 ''200 OK'' (Inr p) \<and> lp_next p = '''')"
| "serves_pages net q n key (p # p' # ps) =
     (net n (validators_url q key) = Response 200 ''200 OK'' (Inr p) \<and> lp_next p \<noteq> '''' \<and> lp_validators p \<noteq> []
      \<and> serves_pages net q (n + 1) (lp_next p) (p' # ps))"

lemma collect_pages_all:
  "serves_pages net q n key ps \<Longrightarrow>
     collect_validators conv net q n key out = Some (Inr (out @ List.map_filter conv (concat (map lp_validators ps))))"
proof (induction net q n key ps arbitrary: out rule: serves_pages.induct)
  case (2 net q n key p)
  then show ?case by (subst collect_validators.simps) (simp add: Let_def go_div_def)
next
  case (3 net q n key p p' ps)
  from 3(2) have s: "serves_pages net q (n + 1) (lp_next p) (p' # ps)" by simp
  show ?case
    using 3(2) 3(1) [OF s, of "out @ List.map_filter conv (lp_validators p)"]
    by (subst collect_validators.simps) (simp add: Let_def go_div_def map_filter_def)
qed simp

text \<open>A run that keeps being sent on never returns.\<close>

lemma collect_forever:
  assumes "\<And>m u. \<exists>p. net m u = Response 200 ''200 OK'' (Inr p) \<and> lp_next p \<noteq> '''' \<and> lp_validators p \<noteq> []"
  shows "collect_validators conv net q n key out = None"
proof -
  have "net = net' \<longrightarrow> False" if "collect_validators conv net' q n key out = Some r" for net' r
  proof (rule collect_validators.raw_induct [where P = "\<lambda>c nt qq k ky ot r. net = nt \<longrightarrow> False", OF _ that], rule impI)
    fix f c nt qq k ky ot r
    assume ih: "\<And>c nt qq k ky ot y. f c nt qq k ky ot = Some y \<Longrightarrow> net = nt \<longrightarrow> False"
      and body: "(let u = validators_url qq ky
        in case nt k u of NoResponse err \<Rightarrow> Some (Inl err)
         | Response code status decoded \<Rightarrow>
             if go_div code 100 \<noteq> 2 then Some (Inl (''LCD '' @ u @ '': '' @ status))
             else case decoded of Inl err \<Rightarrow> Some (Inl (''decode validators: '' @ err))
                  | Inr page \<Rightarrow>
                      let out1 = ot @ List.map_filter c (lp_validators page)
                      in if lp_next page = [] \<or> lp_validators page = [] then Some (Inr out1)
                         else f c nt qq (k + 1) (lp_next page) out1) = Some r"
      and nt: "net = nt"
    obtain p where p: "nt k (validators_url qq ky) = Response 200 ''200 OK'' (Inr p)" "lp_next p \<noteq> ''''" "lp_validators p \<noteq> []"
      using assms [of k "validators_url qq ky"] nt by auto
    with body have "f c nt qq (k + 1) (lp_next p) (ot @ List.map_filter c (lp_validators p)) = Some r"
      by (simp add: Let_def go_div_def)
    from ih [OF this] nt show False by simp
  qed
  then show ?thesis by (cases "collect_validators conv net q n key out") auto
qed

section \<open>Properties\<close>

text \<open>C32: the staking validators are complete.  Against an interface that serves its validators in pages, the
  query returns, with exactly the validators of all pages whose consensus key decodes, in order.\<close>

theorem staking_validators_complete:
  assumes "serves_pages net q 0 '''' ps" and "qr_url q \<noteq> ''''"
  shows "lcd_validators base64 sha256 net q
    = Some (Inr (List.map_filter (to_chain_validator base64 sha256) (concat (map lp_validators ps))))"
  using collect_pages_all [OF assms(1), of "to_chain_validator base64 sha256" "[]"] assms(2) by (simp add: lcd_validators_def)

definition demo_lcd :: "string \<Rightarrow> lcd_validator" where
  "demo_lcd key =
     \<lparr>lv_operator = ''op'', lv_key = key, lv_jailed = False, lv_status = ''BOND_STATUS_BONDED'', lv_moniker = ''m'',
      lv_rate = ''0.05''\<rparr>"

definition demo_pages :: "lcd_page list" where
  "demo_pages =
     [\<lparr>lp_validators = [demo_lcd ''k1'', demo_lcd ''bad''], lp_next = ''a=''\<rparr>, \<lparr>lp_validators = [demo_lcd ''k2''], lp_next = ''''\<rparr>]"

definition demo_querier :: querier where
  "demo_querier = new_querier ''http://lcd//'' ''inj''"

definition demo_net :: "nat \<Rightarrow> string \<Rightarrow> lcd_page answer" where
  "demo_net n u =
     (if u = ''http://lcd/cosmos/staking/v1beta1/validators?pagination.limit=200'' then Response 200 ''200 OK'' (Inr (demo_pages ! 0))
      else if u = ''http://lcd/cosmos/staking/v1beta1/validators?pagination.limit=200&pagination.key=a%3D''
      then Response 200 ''200 OK'' (Inr (demo_pages ! 1))
      else Response 404 ''404 Not Found'' (Inl ''''))"

definition demo_base64 :: "string \<Rightarrow> string option" where
  "demo_base64 k = (if k = ''bad'' then None else Some k)"

theorem staking_validators_complete_witness:
  "\<exists>vs. lcd_validators demo_base64 (\<lambda>k. k) demo_net demo_querier = Some (Inr vs) \<and> length vs = 2"
proof -
  have s: "serves_pages demo_net demo_querier 0 '''' demo_pages" by code_simp
  have u: "qr_url demo_querier \<noteq> ''''" by code_simp
  have "length (List.map_filter (to_chain_validator demo_base64 (\<lambda>k. k)) (concat (map lp_validators demo_pages))) = 2"
    by code_simp
  with staking_validators_complete [OF s u] show ?thesis by metis
qed



text \<open>The staking validator whose consensus key hashes to an address of the validator set is joined to it.\<close>

lemma by_cons_addr_get:
  assumes "cv \<in> set cvs" and "\<And>c. c \<in> set cvs \<Longrightarrow> cv_raw c = cv_raw cv \<Longrightarrow> c = cv"
  shows "map_of (by_cons_addr cvs) (cv_raw cv) = Some cv"
proof -
  have "map_of (fold (\<lambda>cv m. gput (cv_raw cv) cv m) cvs m) (cv_raw cv)
      = (if cv \<in> set cvs then Some cv else map_of m (cv_raw cv))" for m
    using assms(2)
    by (induction cvs arbitrary: m) (fastforce simp: map_of_gput)+
  with assms(1) show ?thesis by (simp add: by_cons_addr_def)
qed

lemma enrichment_joined:
  assumes "to_chain_validator base64 sha256 v = Some cv" and "base64 (lv_key v) = Some pubkey"
    and "cv \<in> set cvs" and "\<And>c. c \<in> set cvs \<Longrightarrow> cv_raw c = cv_raw cv \<Longrightarrow> c = cv"
  shows "row_chain (fresh_row (by_cons_addr cvs) tot (i, take 20 (sha256 pubkey), pw)) = Some cv"
proof -
  have "cv_raw cv = address_text (take 20 (sha256 pubkey))"
    using assms(1,2) by (auto simp: to_chain_validator_def address_text_def)
  with by_cons_addr_get [OF assms(3,4)] show ?thesis by (simp add: fresh_row_def Let_def)
qed

end
