(* ===== verification/Oracle.thy ===== *)
theory Oracle
  imports Investigation Json Config_Check
begin

text \<open>
  The reference the load tests compare the program with (\<open>internal/testutil/replay\<close>): the synthetic
  source of \<open>scenario.go\<close> and the oracle of \<open>oracle.go\<close>, which keeps the observed hashes of each validator
  and phase straight from the source's events, independently of the tracker, and checks a served report
  against them.  SHA-256 is a parameter.  A report is the record whose JSON the server sends; the JSON
  value of an event is left out.
\<close>

section \<open>The source\<close>

record source_validator =
  so_address :: string
  so_key :: string
  so_moniker :: string
  so_power :: int

record fixture_event =
  fe_kind :: string
  fe_height :: int
  fe_round :: int
  fe_validator :: nat
  fe_phase :: int
  fe_hash :: string

definition initial_height :: int where
  "initial_height = 1000"

record scenario_options =
  sc_profile :: string
  sc_rounds :: int
  sc_block_interval :: duration
  sc_event_interval :: duration
  sc_history :: int

definition validate_scenario :: "scenario_options \<Rightarrow> string option" where
  "validate_scenario opts =
     (if sc_profile opts \<noteq> ''mainnet45'' \<and> sc_profile opts \<noteq> ''testnet5'' then Some ''profile must be mainnet45 or testnet5''
      else if sc_rounds opts < 1 \<or> sc_rounds opts > 256 then Some ''rounds must be in [1,256]''
      else if sc_block_interval opts \<le> 0 \<or> sc_event_interval opts < 0
      then Some ''block interval must be positive and event interval nonnegative''
      else if sc_history opts < 0 \<or> sc_history opts > 120 then Some ''history blocks must be in [0,120]'' else None)"

text \<open>\<open>%02d\<close> of an index.\<close>

definition two_digits :: "nat \<Rightarrow> string" where
  "two_digits i = (if i < 10 then ''0'' else []) @ format_int (int i)"

definition source_validators ::
  "(string \<Rightarrow> string) \<Rightarrow> (string \<Rightarrow> string) \<Rightarrow> string \<Rightarrow> int \<Rightarrow> source_validator list" where
  "source_validators sha256 base64 profile seed =
     map (\<lambda>i. let key = sha256 (''cmt-top-fixture:'' @ format_int seed @ '':'' @ format_int (int i)); addr = sha256 key
              in \<lparr>so_address = to_upper (hex_encode (take 20 addr)), so_key = base64 key,
                  so_moniker = ''Synthetic validator '' @ two_digits i, so_power = 10 + int i mod 7\<rparr>)
       [0..<(if profile = ''testnet5'' then 5 else 45)]"

text \<open>The signed time of a vote: an offset from the 22nd of September 2026.\<close>

definition source_time :: "gtime \<Rightarrow> int \<Rightarrow> int \<Rightarrow> nat \<Rightarrow> gtime" where
  "source_time day height rnd i =
     day + i64 (i64 (i64 (i64 (height - initial_height) * second) + i64 (rnd * millisecond)) + int i * 1000)"

text \<open>\<open>Hash\<close>: the digest of \<open>height:round:group\<close>.\<close>

definition source_hash :: "(string \<Rightarrow> string) \<Rightarrow> int \<Rightarrow> int \<Rightarrow> string \<Rightarrow> string" where
  "source_hash sha256 height rnd g =
     hex_encode (sha256 (format_int height @ '':'' @ format_int rnd @ '':'' @ g))"

definition round_event :: "int \<Rightarrow> int \<Rightarrow> source_validator list \<Rightarrow> fixture_event" where
  "round_event height rnd vs =
     \<lparr>fe_kind = ''NewRound'', fe_height = height, fe_round = rnd,
      fe_validator = nat ((height + rnd) mod int (length vs)), fe_phase = 0, fe_hash = ''''\<rparr>"

definition vote_event_of :: "int \<Rightarrow> int \<Rightarrow> nat \<Rightarrow> int \<Rightarrow> string \<Rightarrow> fixture_event" where
  "vote_event_of height rnd i phase hash =
     \<lparr>fe_kind = ''Vote'', fe_height = height, fe_round = rnd, fe_validator = i, fe_phase = phase, fe_hash = hash\<rparr>"

definition phase_votes :: "(string \<Rightarrow> string) \<Rightarrow> int \<Rightarrow> int \<Rightarrow> source_validator list \<Rightarrow> int \<Rightarrow> fixture_event list" where
  "phase_votes sha256 height rnd vs phase =
     map (\<lambda>i. let g = (if (int i + phase) mod 3 = 0 then ''b'' else ''a'');
                  hash = (if i = length vs - 2 then '''' else source_hash sha256 height rnd g)
              in vote_event_of height rnd i phase hash)
       [0..<length vs - 1]"

definition round_events :: "(string \<Rightarrow> string) \<Rightarrow> int \<Rightarrow> int \<Rightarrow> source_validator list \<Rightarrow> fixture_event list" where
  "round_events sha256 height rnd vs =
     (let out = round_event height rnd vs # phase_votes sha256 height rnd vs 1 @ phase_votes sha256 height rnd vs 2;
          out1 = out @ [out ! 1, vote_event_of height rnd 0 1 (source_hash sha256 height rnd ''conflict'')]
      in if rnd > 0
         then out1 @ [vote_event_of height (rnd - 1) (length vs - 1) 2 (source_hash sha256 height (rnd - 1) ''late'')]
         else out1)"

definition block_event :: "(string \<Rightarrow> string) \<Rightarrow> int \<Rightarrow> fixture_event" where
  "block_event sha256 height =
     \<lparr>fe_kind = ''NewBlock'', fe_height = height, fe_round = 0, fe_validator = 0, fe_phase = 0,
      fe_hash = source_hash sha256 height 0 ''a''\<rparr>"

section \<open>The oracle\<close>

record expected_round =
  xr_round :: int
  xr_proposer :: string
  xr_votes :: "(string, (int, string list) gomap) gomap"

record expected_height =
  xh_height :: int
  xh_committed :: bool
  xh_canonical :: string
  xh_roster :: "(string, source_validator) gomap"
  xh_rounds :: "(int, expected_round) gomap"

record source_oracle =
  ol_validators :: "source_validator list"
  ol_heights :: "(int, expected_height) gomap"

definition new_oracle :: "source_validator list \<Rightarrow> source_oracle" where
  "new_oracle vs = \<lparr>ol_validators = vs, ol_heights = []\<rparr>"

definition expected_roster :: "source_validator list \<Rightarrow> (string, source_validator) gomap" where
  "expected_roster vs = fold (\<lambda>v m. gput (so_address v) v m) vs []"

definition new_expected :: "source_validator list \<Rightarrow> int \<Rightarrow> expected_height" where
  "new_expected vs h =
     \<lparr>xh_height = h, xh_committed = False, xh_canonical = '''', xh_roster = expected_roster vs, xh_rounds = []\<rparr>"

text \<open>\<open>r.Votes[addr][phase]\<close>, nil maps reading as empty.\<close>

definition wanted :: "expected_round \<Rightarrow> string \<Rightarrow> int \<Rightarrow> string list" where
  "wanted r addr phase =
     (case Option.bind (map_of (xr_votes r) addr) (\<lambda>ps. map_of ps phase) of None \<Rightarrow> [] | Some hs \<Rightarrow> hs)"

definition note_expected_vote :: "string \<Rightarrow> int \<Rightarrow> string \<Rightarrow> expected_round \<Rightarrow> expected_round" where
  "note_expected_vote addr phase hash r =
     (let ps = (case map_of (xr_votes r) addr of None \<Rightarrow> [] | Some ps \<Rightarrow> ps); hs = wanted r addr phase
      in r\<lparr>xr_votes :=
             gput addr (if hash \<in> set hs then ps else gput phase (sort (hs @ [hash])) ps) (xr_votes r)\<rparr>)"

text \<open>\<open>None\<close> where the validator index is out of range.\<close>

definition note_expected_round :: "source_validator list \<Rightarrow> fixture_event \<Rightarrow> expected_round \<Rightarrow> expected_round option" where
  "note_expected_round vs ev r =
     (if fe_kind ev = ''NewRound''
      then if fe_validator ev < length vs then Some (r\<lparr>xr_proposer := so_address (vs ! fe_validator ev)\<rparr>) else None
      else if fe_kind ev = ''Vote''
      then if fe_validator ev < length vs
           then Some (note_expected_vote (so_address (vs ! fe_validator ev)) (fe_phase ev) (fe_hash ev) r) else None
      else Some r)"

definition expected_step :: "source_validator list \<Rightarrow> fixture_event \<Rightarrow> expected_height \<Rightarrow> expected_height option" where
  "expected_step vs ev h =
     (if fe_kind ev = ''NewBlock'' then Some (h\<lparr>xh_committed := True, xh_canonical := fe_hash ev\<rparr>)
      else
        let r = (case map_of (xh_rounds h) (fe_round ev) of Some r \<Rightarrow> r
                 | None \<Rightarrow> \<lparr>xr_round = fe_round ev, xr_proposer = '''', xr_votes = []\<rparr>)
        in map_option (\<lambda>r1. h\<lparr>xh_rounds := gput (fe_round ev) r1 (xh_rounds h)\<rparr>) (note_expected_round vs ev r))"

definition oracle_limit :: nat where
  "oracle_limit = 256"

definition observe_source :: "fixture_event \<Rightarrow> source_oracle \<Rightarrow> source_oracle option" where
  "observe_source ev ol =
     (let h = (case map_of (ol_heights ol) (fe_height ev) of Some h \<Rightarrow> h
               | None \<Rightarrow> new_expected (ol_validators ol) (fe_height ev))
      in case expected_step (ol_validators ol) ev h of
           None \<Rightarrow> None
         | Some h1 \<Rightarrow>
             let hs = gput (fe_height ev) h1 (ol_heights ol)
             in Some (ol\<lparr>ol_heights :=
                  (if length hs > oracle_limit then gdel (oldest_key int64_max (gkeys hs)) hs else hs)\<rparr>))"

fun observe_all :: "fixture_event list \<Rightarrow> source_oracle \<Rightarrow> source_oracle option" where
  "observe_all [] ol = Some ol"
| "observe_all (ev # evs) ol = (case observe_source ev ol of None \<Rightarrow> None | Some ol1 \<Rightarrow> observe_all evs ol1)"

section \<open>Checking a report\<close>

record served_report =
  sv_height :: int
  sv_found :: bool
  sv_committed :: bool
  sv_canonical :: string
  sv_rounds :: "inv_round list"
  sv_details :: "inv_round list option"

definition full_view :: "investigation \<Rightarrow> served_report" where
  "full_view r =
     \<lparr>sv_height = bi_height r, sv_found = bi_found r, sv_committed = bi_committed r, sv_canonical = bi_canonical r,
      sv_rounds = bi_rounds r, sv_details = None\<rparr>"

definition bool_verb :: "bool \<Rightarrow> string" where
  "bool_verb b = (if b then ''true'' else ''false'')"

definition check_phase :: "int \<Rightarrow> string \<Rightarrow> int \<Rightarrow> inv_vote \<Rightarrow> string list \<Rightarrow> string option" where
  "check_phase rnd addr phase vote w =
     (let got = sort (map ih_hash (iv_hashes vote));
          who = ''round '' @ format_int rnd @ '' validator '' @ addr @ '' phase '' @ format_int phase
      in if iv_observed vote \<noteq> (w \<noteq> []) \<or> iv_conflicting vote \<noteq> (length w > 1)
         then Some (who @ '' observation flags mismatch'')
         else if length got \<noteq> length w
         then Some (who @ '' hash count '' @ format_int (int (length got)) @ '' want '' @ format_int (int (length w)))
         else if got \<noteq> w then Some (who @ '' hash mismatch'') else None)"

definition check_validator ::
  "(string, source_validator) gomap \<Rightarrow> expected_round \<Rightarrow> int \<Rightarrow> inv_validator \<Rightarrow> string option" where
  "check_validator roster want rnd v =
     (let meta = (case map_of roster (vv_address v) of
                    None \<Rightarrow> None
                  | Some s \<Rightarrow>
                      if \<not> vv_known v \<or> vv_power v \<noteq> format_int (so_power s) \<or> vv_moniker v \<noteq> so_moniker s
                      then Some (''round '' @ format_int rnd @ '' validator '' @ vv_address v @ '' roster metadata mismatch'')
                      else None)
      in first_error (\<lambda>r. r)
           [meta, check_phase rnd (vv_address v) 1 (vv_prevote v) (wanted want (vv_address v) 1),
            check_phase rnd (vv_address v) 2 (vv_precommit v) (wanted want (vv_address v) 2)])"

definition check_roster :: "(string, source_validator) gomap \<Rightarrow> inv_round \<Rightarrow> string option" where
  "check_roster roster rd =
     (if length roster > 0
         \<and> (length (vr_validators rd) \<noteq> length roster
            \<or> vr_total rd \<noteq> format_int (fold (\<lambda>(a, v) s. i64 (s + so_power v)) roster 0))
      then Some (''round '' @ format_int (vr_round rd) @ '' roster size or total voting power mismatch'') else None)"

definition check_round :: "expected_height \<Rightarrow> inv_round \<Rightarrow> string option" where
  "check_round x rd =
     (case map_of (xh_rounds x) (vr_round rd) of
        None \<Rightarrow> Some (''unexpected round '' @ format_int (vr_round rd))
      | Some want \<Rightarrow>
          if vr_proposer rd \<noteq> xr_proposer want
          then Some (''round '' @ format_int (vr_round rd) @ '' proposer mismatch'')
          else first_error (\<lambda>r. r)
                 [check_roster (xh_roster x) rd,
                  first_error (check_validator (xh_roster x) want (vr_round rd)) (vr_validators rd),
                  first_error (\<lambda>addr. if addr \<in> vv_address ` set (vr_validators rd) then None
                      else Some (''round '' @ format_int (vr_round rd) @ '' missing validator '' @ addr))
                    (gkeys (xr_votes want))])"

definition check_report :: "served_report \<Rightarrow> expected_height option \<Rightarrow> string option" where
  "check_report rep ex =
     (case ex of
        None \<Rightarrow> Some ''oracle height unavailable''
      | Some x \<Rightarrow>
          if sv_height rep \<noteq> xh_height x \<or> \<not> sv_found rep \<or> sv_committed rep \<noteq> xh_committed x
             \<or> sv_canonical rep \<noteq> xh_canonical x
          then Some (''height/commit mismatch: got '' @ format_int (sv_height rep) @ '' found='' @ bool_verb (sv_found rep)
                     @ '' committed='' @ bool_verb (sv_committed rep) @ '' canonical='' @ sv_canonical rep)
          else
            let rounds = (case sv_details rep of Some ds \<Rightarrow> ds | None \<Rightarrow> sv_rounds rep);
                want = min 128 (length (xh_rounds x))
            in if sv_details rep = None \<and> length rounds \<noteq> want
               then Some (''retained round count '' @ format_int (int (length rounds)) @ '' want '' @ format_int (int want))
               else if rounds = [] \<and> xh_rounds x \<noteq> [] then Some ''missing all round detail''
               else first_error (check_round x) rounds)"

section \<open>The semantic digest\<close>

definition volatile_keys :: "string list" where
  "volatile_keys =
     [''firstSeenAt'', ''lastSeenAt'', ''generatedAt'', ''capturedAt'', ''serverEpoch'', ''schemaVersion'', ''revision'',
      ''context'']"

fun normalize :: "json \<Rightarrow> json" where
  "normalize (JsObject kvs) = JsObject (map (\<lambda>(k, v). (k, normalize v)) (filter (\<lambda>(k, v). k \<notin> set volatile_keys) kvs))"
| "normalize (JsArray vs) = JsArray (map normalize vs)"
| "normalize v = v"

definition semantic_digest ::
  "(string \<Rightarrow> string) \<Rightarrow> (json \<Rightarrow> string) \<Rightarrow> (string \<Rightarrow> string + json) \<Rightarrow> string \<Rightarrow> string + string" where
  "semantic_digest sha256 marshal unmarshal body =
     (case unmarshal body of Inl err \<Rightarrow> Inl err | Inr v \<Rightarrow> Inr (hex_encode (sha256 (marshal (normalize v)))))"

end
