(* ===== verification/Oracle_Props.thy ===== *)
theory Oracle_Props
  imports Oracle Tracker_Facts
begin

text \<open>
  The tracker against its independent reference: when a source's events of one height are given to the
  tracker and to the oracle, the report the tracker builds passes the oracle's check, within the archive's
  limits.  The proof is a simulation: each archived round holds what the oracle expects of it.
\<close>

section \<open>Votes\<close>

definition phase_type :: "int \<Rightarrow> vote_type" where
  "phase_type phase = (if phase = 1 then Prevote else Precommit)"

definition seen_hashes :: "archived_round \<Rightarrow> string \<Rightarrow> int \<Rightarrow> string list" where
  "seen_hashes rd a p = (case get_vote rd a (phase_type p) of None \<Rightarrow> [] | Some w \<Rightarrow> map ih_hash (iv_hashes w))"

definition addresses :: "source_validator list \<Rightarrow> string set" where
  "addresses vs = so_address ` set vs"

definition source_roster :: "source_validator list \<Rightarrow> validator_power list" where
  "source_roster vs = map (\<lambda>v. \<lparr>vp_address = so_address v, vp_power = so_power v, vp_moniker = so_moniker v\<rparr>) vs"

definition round_matches :: "source_validator list \<Rightarrow> archived_round \<Rightarrow> expected_round \<Rightarrow> bool" where
  "round_matches vs rd w \<longleftrightarrow>
     ar_proposer rd = xr_proposer w \<and> ar_roster rd = roster_of (source_roster vs)
     \<and> (\<forall>a. \<forall>p \<in> {1, 2}. sort (seen_hashes rd a p) = wanted w a p)
     \<and> fst ` set (ar_votes rd) \<subseteq> addresses vs \<and> fst ` set (xr_votes w) \<subseteq> addresses vs"

definition block_matches :: "source_validator list \<Rightarrow> archived_height \<Rightarrow> expected_height \<Rightarrow> bool" where
  "block_matches vs b x \<longleftrightarrow>
     ah_committed b = xh_committed x \<and> ah_canonical b = xh_canonical x \<and> ah_evicted_through b = -1
     \<and> gmap_ok (xh_rounds x)
     \<and> (\<forall>r. rel_option (round_matches vs) (map_of (ah_rounds b) r) (map_of (xh_rounds x) r))"

lemma fold_gput_fresh:
  "distinct (map fst m @ map k vs) \<Longrightarrow> fold (\<lambda>v m. gput (k v) (f v) m) vs m = m @ map (\<lambda>v. (k v, f v)) vs"
proof (induction vs arbitrary: m)
  case (Cons v vs)
  have "gput (k v) (f v) m = m @ [(k v, f v)]" if "k v \<notin> fst ` set m"
    using that by (induction m) auto
  with Cons show ?case by auto
qed simp

lemma roster_of_source:
  "distinct (map so_address vs) \<Longrightarrow> roster_of (source_roster vs)
     = map (\<lambda>v. (so_address v, \<lparr>vp_address = so_address v, vp_power = so_power v, vp_moniker = so_moniker v\<rparr>)) vs"
  using fold_gput_fresh [of "[]" vp_address "source_roster vs" "\<lambda>v. v"]
  by (simp add: roster_of_def source_roster_def comp_def)

lemma expected_roster_source:
  "distinct (map so_address vs) \<Longrightarrow> expected_roster vs = map (\<lambda>v. (so_address v, v)) vs"
  using fold_gput_fresh [of "[]" so_address vs "\<lambda>v. v"] by (simp add: expected_roster_def)

lemma roster_knows:
  assumes "distinct (map so_address vs)"
  shows "map_of (roster_of (source_roster vs)) a \<noteq> None \<longleftrightarrow> a \<in> addresses vs"
  unfolding roster_of_source [OF assms] map_of_eq_None_iff by (force simp: addresses_def)

lemma wanted_note:
  "wanted (note_expected_vote a p h w) a' p' =
     (if a' = a \<and> p' = p then if h \<in> set (wanted w a p) then wanted w a p else sort (wanted w a p @ [h])
      else wanted w a' p')"
  by (auto simp: note_expected_vote_def wanted_def Let_def map_of_gput split: option.split)

lemma note_expected_proposer [simp]: "xr_proposer (note_expected_vote a p h w) = xr_proposer w"
  by (simp add: note_expected_vote_def Let_def)

lemma seen_set_vote:
  "p \<in> {1, 2} \<Longrightarrow> p' \<in> {1, 2} \<Longrightarrow> seen_hashes (set_vote rd a (phase_type p) w) a' p' =
     (if a' = a \<and> p' = p then map ih_hash (iv_hashes w) else seen_hashes rd a' p')"
  by (auto simp: seen_hashes_def get_vote_set_vote phase_type_def)

lemma seen_update [simp]:
  "seen_hashes (rd\<lparr>ar_last := n\<rparr>) a p = seen_hashes rd a p" "seen_hashes (rd\<lparr>ar_proposer := q\<rparr>) a p = seen_hashes rd a p"
  by (simp_all add: seen_hashes_def)

text \<open>Recording a vote in a matching round.\<close>

lemma note_vote_matches:
  assumes m: "round_matches vs rd w" and d: "distinct (map so_address vs)" and a: "ve_addr v \<in> addresses vs"
    and p: "p \<in> {1, 2}" "ve_type v = phase_type p"
    and few: "length (wanted (note_expected_vote (ve_addr v) p (ve_hash v) w) (ve_addr v) p) \<le> 4"
  shows "\<exists>rd' b'. record_vote b rd v now = put_round rd' b' \<and> ar_round rd' = ar_round rd
           \<and> round_matches vs rd' (note_expected_vote (ve_addr v) p (ve_hash v) w)
           \<and> ah_rounds b' = ah_rounds b \<and> ah_committed b' = ah_committed b \<and> ah_canonical b' = ah_canonical b
           \<and> ah_evicted_through b' = ah_evicted_through b \<and> ah_height b' = ah_height b"
proof -
  let ?a = "ve_addr v" and ?w = "note_expected_vote (ve_addr v) p (ve_hash v) w"
  let ?vote = "case get_vote rd ?a (ve_type v) of None \<Rightarrow> fresh_vote | Some w \<Rightarrow> w"
  obtain y where known: "map_of (ar_roster rd) ?a = Some y"
    using roster_knows [OF d, of ?a] m a by (auto simp: round_matches_def)
  have seen: "map ih_hash (iv_hashes ?vote) = seen_hashes rd ?a p"
    by (auto simp: seen_hashes_def p(2) fresh_vote_def split: option.split)
  have sorted: "sort (seen_hashes rd ?a p) = wanted w ?a p" using m p(1) by (auto simp: round_matches_def)
  then have "set (wanted w ?a p) = ih_hash ` set (iv_hashes ?vote)"
    using seen by (metis list.set_map set_sort)
  then have mem: "list_ex (\<lambda>h. ih_hash h = ve_hash v) (iv_hashes ?vote) \<longleftrightarrow> ve_hash v \<in> set (wanted w ?a p)"
    by (force simp: list_ex_iff)
  have keys: "fst ` set (xr_votes ?w) \<subseteq> addresses vs"
    using m a by (auto simp: round_matches_def note_expected_vote_def Let_def gkeys_gput)
  have votes: "fst ` set (ar_votes (set_vote rd ?a (ve_type v) u)) \<subseteq> addresses vs" for u
    using m a by (auto simp: round_matches_def set_vote_def gkeys_gput)
  have other: "round_matches vs (set_vote rd ?a (ve_type v) u) ?w"
    if u: "sort (map ih_hash (iv_hashes u)) = wanted ?w ?a p" for u
  proof -
    have "sort (seen_hashes (set_vote rd ?a (ve_type v) u) a q) = wanted ?w a q" if q: "q \<in> {1, 2}" for a q
    proof (cases "a = ?a \<and> q = p")
      case True
      with u p(1) show ?thesis by (simp add: p(2) seen_set_vote)
    next
      case False
      have "sort (seen_hashes rd a q) = wanted w a q" using m q unfolding round_matches_def by blast
      with False show ?thesis unfolding p(2) seen_set_vote [OF p(1) q] wanted_note by auto
    qed
    moreover have "ar_proposer (set_vote rd ?a (ve_type v) u) = ar_proposer rd"
      "ar_roster (set_vote rd ?a (ve_type v) u) = ar_roster rd" by (simp_all add: set_vote_def)
    ultimately show ?thesis using m keys votes by (simp add: round_matches_def)
  qed
  show ?thesis
  proof (cases "ve_hash v \<in> set (wanted w ?a p)")
    case True
    then have "record_vote b rd v now = put_round (set_vote rd ?a (ve_type v) ?vote) b"
      using known mem by (simp add: record_vote_def Let_def)
    moreover have "round_matches vs (set_vote rd ?a (ve_type v) ?vote) ?w"
      by (rule other) (simp add: seen sorted wanted_note True)
    ultimately show ?thesis by (metis ar_round_set_vote)
  next
    case False
    let ?ob = "\<lparr>ih_hash = ve_hash v, ih_first = now, ih_last = now,
                ih_signed = (if ve_timestamp v = 0 then None else Some (ve_timestamp v))\<rparr>"
    let ?u = "?vote\<lparr>iv_hashes := iv_hashes ?vote @ [?ob], iv_conflicting := length (iv_hashes ?vote @ [?ob]) > 1\<rparr>"
    have "length (wanted w ?a p) = length (iv_hashes ?vote)"
      using arg_cong [OF sorted, of length] arg_cong [OF seen, of length] by simp
    with few False have "length (iv_hashes ?vote) < hash_limit" by (simp add: wanted_note hash_limit_def)
    then have "record_vote b rd v now
        = put_round ((set_vote rd ?a (ve_type v) ?u)\<lparr>ar_last := now\<rparr>) ((bump b)\<lparr>ah_last := now\<rparr>)"
      using known mem False by (simp add: record_vote_def Let_def put_round_def)
    moreover have "sort (map ih_hash (iv_hashes ?u)) = wanted ?w ?a p"
    proof -
      have "sort (seen_hashes rd ?a p @ [ve_hash v]) = sort (wanted w ?a p @ [ve_hash v])"
        by (rule properties_for_sort) (simp_all add: sorted [symmetric])
      with False show ?thesis by (simp add: seen wanted_note)
    qed
    note other [OF this]
    then have "round_matches vs ((set_vote rd ?a (ve_type v) ?u)\<lparr>ar_last := now\<rparr>) ?w"
      by (simp add: round_matches_def)
    ultimately show ?thesis
      by (intro exI [of _ "(set_vote rd ?a (ve_type v) ?u)\<lparr>ar_last := now\<rparr>"] exI [of _ "(bump b)\<lparr>ah_last := now\<rparr>"])
        (simp add: bump_def)
  qed
qed

section \<open>Rounds\<close>

definition sim :: "source_validator list \<Rightarrow> int \<Rightarrow> tracker \<Rightarrow> expected_height \<Rightarrow> bool" where
  "sim vs h t x \<longleftrightarrow>
     tracker_inv t \<and> tk_validators t = roster_of (source_roster vs)
     \<and> (\<exists>b. block_at t h = Some b \<and> block_matches vs b x)
     \<and> (xh_committed x \<or> tk_committed t < h) \<and> xh_height x = h \<and> xh_roster x = expected_roster vs"

definition blank_round :: "int \<Rightarrow> expected_round" where
  "blank_round r = \<lparr>xr_round = r, xr_proposer = '''', xr_votes = []\<rparr>"

definition ensured :: "expected_height \<Rightarrow> int \<Rightarrow> expected_height" where
  "ensured x r =
     (if map_of (xh_rounds x) r = None then x\<lparr>xh_rounds := gput r (blank_round r) (xh_rounds x)\<rparr> else x)"

lemma ensured_sel [simp]:
  "xh_committed (ensured x r) = xh_committed x" "xh_height (ensured x r) = xh_height x"
  "xh_roster (ensured x r) = xh_roster x" "xh_canonical (ensured x r) = xh_canonical x"
  by (simp_all add: ensured_def)

lemma ensured_put:
  "(ensured x r)\<lparr>xh_rounds := gput r w (xh_rounds (ensured x r))\<rparr> = x\<lparr>xh_rounds := gput r w (xh_rounds x)\<rparr>"
  by (simp add: ensured_def)

lemma block_matches_put:
  assumes "block_matches vs b x" and "round_matches vs rd w"
    and "ah_rounds b' = gput r rd (ah_rounds b)" "ah_committed b' = ah_committed b" "ah_canonical b' = ah_canonical b"
      "ah_evicted_through b' = ah_evicted_through b"
  shows "block_matches vs b' (x\<lparr>xh_rounds := gput r w (xh_rounds x)\<rparr>)"
  using assms by (simp add: block_matches_def map_of_gput)

lemma block_matches_round:
  assumes "block_matches vs b x"
  shows "rel_option (round_matches vs) (map_of (ah_rounds b) r) (map_of (xh_rounds x) r)"
  using assms by (simp add: block_matches_def)

lemma block_matches_known:
  "block_matches vs b x \<Longrightarrow> map_of (ah_rounds b) r = None \<longleftrightarrow> map_of (xh_rounds x) r = None"
  using block_matches_round [of vs b x r] by (auto elim: option.rel_cases)

lemma block_matches_length:
  assumes "block_inv b" and "block_matches vs b x"
  shows "length (ah_rounds b) = length (xh_rounds x)"
proof -
  have "fst ` set (ah_rounds b) = fst ` set (xh_rounds x)"
    unfolding gkeys_dom dom_def block_matches_known [OF assms(2)] ..
  moreover have "gmap_ok (ah_rounds b)" "gmap_ok (xh_rounds x)"
    using assms by (auto simp: block_inv_def block_matches_def)
  ultimately show ?thesis by (metis gmap_ok_card)
qed

lemma enter_round_matches:
  assumes "block_matches vs b x" and "map_of (xh_rounds x) r = None" and "tk_validators t = roster_of (source_roster vs)"
  shows "block_matches vs (enter_round t b r now) (ensured x r)"
proof -
  have "round_matches vs (new_round t r now) (blank_round r)"
    by (simp add: round_matches_def new_round_def blank_round_def assms(3) seen_hashes_def get_vote_def wanted_def)
  then show ?thesis
    using block_matches_put [OF assms(1), of "new_round t r now" "blank_round r" "enter_round t b r now" r] assms(2)
    by (simp add: ensured_def enter_round_def put_round_def new_round_def)
qed

text \<open>Admission of a round: it is already archived, or enters an uncommitted height with room.\<close>

lemma archive_round_ensured:
  assumes s: "sim vs h t x" and b: "block_at t h = Some b" "block_matches vs b x" and r: "0 \<le> r" "r \<le> max_int32"
    and known: "map_of (xh_rounds x) r = None \<longrightarrow> \<not> xh_committed x" and room: "length (xh_rounds (ensured x r)) \<le> 128"
  shows "\<exists>t2 b2 rd. archive_round t b r now = (t2, b2, Some rd) \<and> block_at t2 h = Some b2
           \<and> block_matches vs b2 (ensured x r) \<and> map_of (ah_rounds b2) r = Some rd \<and> ar_round rd = r
           \<and> ah_height b2 = h \<and> tk_validators t2 = tk_validators t \<and> tk_committed t2 = tk_committed t"
proof -
  have inv: "archive_inv t" "detector_bounded t" using s by (simp_all add: sim_def tracker_inv_def)
  note bi = archive_block [OF inv(1) b(1)]
  show ?thesis
  proof (cases "map_of (xh_rounds x) r")
    case (Some w)
    then obtain rd where rd: "map_of (ah_rounds b) r = Some rd"
      using block_matches_known [OF b(2), of r] by auto
    with archive_round_present [OF bi(4) this, of t now] block_inv_round [OF bi(4) rd] Some b bi(1) show ?thesis
      by (auto simp: ensured_def)
  next
    case None
    then have none: "map_of (ah_rounds b) r = None"
      using block_matches_known [OF b(2), of r] by simp
    let ?b1 = "enter_round t b r now"
    have m1: "block_matches vs ?b1 (ensured x r)"
      using enter_round_matches [OF b(2) None] s by (simp add: sim_def)
    have "length (ah_rounds ?b1) = length (xh_rounds (ensured x r))"
      using block_matches_length [OF bi(4) b(2)] none None
      by (simp add: enter_round_def put_round_def new_round_def ensured_def length_gput gkeys_dom domIff)
    with room have len: "\<not> int (length (ah_rounds ?b1)) > round_limit" by (simp add: round_limit_def)
    have "ah_evicted_through b = -1" "\<not> ah_committed b" "tk_committed t < h"
      using b(2) s known None by (auto simp: block_matches_def sim_def)
    then have step: "archive_round t b r now = (put_block ?b1 t, ?b1, map_of (ah_rounds ?b1) r)"
      using r(1) none len bi(1) by (simp add: archive_round_def Let_def)
    have at: "map_of (ah_rounds ?b1) r = Some (new_round t r now)" "ah_height ?b1 = h" "ar_round (new_round t r now) = r"
      using bi(1) by (simp_all add: enter_round_def put_round_def new_round_def map_of_gput)
    with step m1 show ?thesis by (auto simp: block_at_put_block)
  qed
qed

section \<open>The operations\<close>

text \<open>What the oracle expects after an event about round \<open>r\<close>.\<close>

definition expectation :: "expected_height \<Rightarrow> int \<Rightarrow> expected_round" where
  "expectation x r = (case map_of (xh_rounds x) r of None \<Rightarrow> blank_round r | Some w \<Rightarrow> w)"

definition with_round :: "expected_height \<Rightarrow> int \<Rightarrow> (expected_round \<Rightarrow> expected_round) \<Rightarrow> expected_height" where
  "with_round x r f =
     x\<lparr>xh_rounds := gput r (f (expectation x r)) (xh_rounds x)\<rparr>"

lemma with_round_sel [simp]:
  "xh_committed (with_round x r f) = xh_committed x" "xh_height (with_round x r f) = xh_height x"
  "xh_roster (with_round x r f) = xh_roster x" "xh_canonical (with_round x r f) = xh_canonical x"
  by (simp_all add: with_round_def)

lemma with_round_length: "length (xh_rounds (with_round x r f)) = length (xh_rounds (ensured x r))"
  by (simp add: with_round_def ensured_def length_gput gkeys_dom domIff)

lemma ensured_round: "map_of (xh_rounds (ensured x r)) r = Some (expectation x r)"
  by (auto simp: ensured_def expectation_def map_of_gput)

definition in_limits :: "expected_height \<Rightarrow> int \<Rightarrow> bool" where
  "in_limits x r \<longleftrightarrow> 0 \<le> r \<and> r \<le> max_int32 \<and> (map_of (xh_rounds x) r = None \<longrightarrow> \<not> xh_committed x)
     \<and> length (xh_rounds (ensured x r)) \<le> 128"

lemma archive_round_with:
  assumes "sim vs h t x" and "in_limits x r"
  obtains b t2 b2 rd where "archive_height t h now = (t, Some b)" "archive_round t b r now = (t2, b2, Some rd)"
    "block_at t2 h = Some b2" "block_matches vs b2 (ensured x r)" "ar_round rd = r"
    "ah_height b2 = h" "tk_validators t2 = tk_validators t" "tk_committed t2 = tk_committed t"
    "round_matches vs rd (expectation x r)"
proof -
  obtain b where b: "block_at t h = Some b" "block_matches vs b x" using assms(1) by (auto simp: sim_def)
  have inv: "archive_inv t" using assms(1) by (simp add: sim_def tracker_inv_def)
  have l: "0 \<le> r" "r \<le> max_int32" "map_of (xh_rounds x) r = None \<longrightarrow> \<not> xh_committed x"
    "length (xh_rounds (ensured x r)) \<le> 128"
    using assms(2) by (simp_all add: in_limits_def)
  obtain t2 b2 rd where a: "archive_round t b r now = (t2, b2, Some rd)" "block_at t2 h = Some b2"
    "block_matches vs b2 (ensured x r)" "map_of (ah_rounds b2) r = Some rd" "ar_round rd = r" "ah_height b2 = h"
    "tk_validators t2 = tk_validators t" "tk_committed t2 = tk_committed t"
    using archive_round_ensured [OF assms(1) b l, of now] by blast
  have "round_matches vs rd (expectation x r)"
    using block_matches_round [OF a(3), of r] by (simp add: a(4) ensured_round)
  then show thesis by (rule that [OF archive_height_present [OF inv b(1)] a(1-3,5-8)])
qed

lemma with_round_ensured: "with_round x r f = (ensured x r)\<lparr>xh_rounds := gput r (f (expectation x r)) (xh_rounds (ensured x r))\<rparr>"
  by (simp add: with_round_def ensured_put)

lemma with_round_same:
  "gmap_ok (xh_rounds (ensured x r)) \<Longrightarrow> f (expectation x r) = expectation x r \<Longrightarrow> with_round x r f = ensured x r"
  using gput_present [OF _ ensured_round [of x r]] by (simp add: with_round_ensured)

lemma block_matches_with:
  assumes "block_matches vs b (ensured x r)" and "round_matches vs rd (f (expectation x r))"
    and "ah_rounds b' = gput r rd (ah_rounds b)" "ah_committed b' = ah_committed b" "ah_canonical b' = ah_canonical b"
      "ah_evicted_through b' = ah_evicted_through b"
  shows "block_matches vs b' (with_round x r f)"
  unfolding with_round_ensured by (rule block_matches_put [OF assms])

text \<open>Storing a changed round back keeps the simulation.\<close>

lemma sim_put:
  assumes s: "sim vs h t x" and "tracker_inv t3"
    and t3: "t3 = put_block b3 t2" "tk_validators t2 = tk_validators t" "tk_committed t2 = tk_committed t" "ah_height b3 = h"
    and m: "block_matches vs b3 (with_round x r f)"
  shows "sim vs h t3 (with_round x r f)"
  using assms by (simp add: sim_def block_at_put_block)

lemma observe_round_sim:
  assumes s: "sim vs h t x" and l: "in_limits x r" and p: "p \<noteq> []" "length p \<le> identity_limit" and h: "0 < h"
  shows "sim vs h (observe_round t h r p now) (with_round x r (\<lambda>w. w\<lparr>xr_proposer := p\<rparr>))"
proof -
  let ?f = "\<lambda>w. w\<lparr>xr_proposer := p\<rparr>"
  from archive_round_with [OF s l, of now] obtain b t2 b2 rd where
    a: "archive_height t h now = (t, Some b)" "archive_round t b r now = (t2, b2, Some rd)"
    "block_at t2 h = Some b2" "block_matches vs b2 (ensured x r)" "ar_round rd = r"
    "ah_height b2 = h" "tk_validators t2 = tk_validators t" "tk_committed t2 = tk_committed t"
    "round_matches vs rd (expectation x r)" by metis
  have inv: "tracker_inv (observe_round t h r p now)" using s by (simp add: sim_def observe_round_tracker)
  have guard: "\<not> (h \<le> 0 \<or> r < 0 \<or> r > max_int32 \<or> length p > identity_limit)"
    using h l p by (auto simp: in_limits_def)
  show ?thesis
  proof (cases "ar_proposer rd = p")
    case True
    with a(9) have "xr_proposer (expectation x r) = p" by (simp add: round_matches_def)
    then have "with_round x r ?f = ensured x r"
      using a(4) by (intro with_round_same) (auto simp: block_matches_def)
    moreover have "observe_round t h r p now = t2" using guard True a(1,2) p by (simp add: observe_round_def)
    ultimately show ?thesis using inv a(3,4,7,8) s by (simp add: sim_def)
  next
    case False
    let ?rd = "rd\<lparr>ar_proposer := p, ar_last := now\<rparr>"
    let ?b3 = "(put_round ?rd b2)\<lparr>ah_last := now, ah_revision := ah_revision b2 + 1\<rparr>"
    have step: "observe_round t h r p now = put_block ?b3 t2"
      using guard False a(1,2) p by (simp add: observe_round_def)
    have "round_matches vs ?rd (?f (expectation x r))"
      using a(9) by (simp add: round_matches_def seen_hashes_def get_vote_def wanted_def)
    then have "block_matches vs ?b3 (with_round x r ?f)"
      by (rule block_matches_with [OF a(4)]) (simp_all add: put_round_def a(5))
    from sim_put [OF s inv step a(7,8) _ this] show ?thesis using a(6) by simp
  qed
qed

lemma observe_vote_sim:
  assumes s: "sim vs h t x" and l: "in_limits x (ve_round v)" and d: "distinct (map so_address vs)"
    and v: "well_formed_vote v" "ve_height v = h" "ve_addr v \<in> addresses vs" "p \<in> {1, 2}" "ve_type v = phase_type p"
    and few: "length (wanted (note_expected_vote (ve_addr v) p (ve_hash v) (expectation x (ve_round v))) (ve_addr v) p) \<le> 4"
  shows "sim vs h (observe_vote t v now) (with_round x (ve_round v) (note_expected_vote (ve_addr v) p (ve_hash v)))"
proof -
  let ?r = "ve_round v" and ?f = "note_expected_vote (ve_addr v) p (ve_hash v)"
  from archive_round_with [OF s l, of now] obtain b t2 b2 rd where
    a: "archive_height t h now = (t, Some b)" "archive_round t b ?r now = (t2, b2, Some rd)"
    "block_at t2 h = Some b2" "block_matches vs b2 (ensured x ?r)" "ar_round rd = ?r"
    "ah_height b2 = h" "tk_validators t2 = tk_validators t" "tk_committed t2 = tk_committed t"
    "round_matches vs rd (expectation x ?r)" by metis
  from note_vote_matches [OF a(9) d v(3-5) few, of b2 now] obtain rd' b' where
    n: "record_vote b2 rd v now = put_round rd' b'" "ar_round rd' = ar_round rd"
    "round_matches vs rd' (?f (expectation x ?r))" "ah_rounds b' = ah_rounds b2" "ah_committed b' = ah_committed b2"
    "ah_canonical b' = ah_canonical b2" "ah_evicted_through b' = ah_evicted_through b2" "ah_height b' = ah_height b2"
    by blast
  have inv: "tracker_inv (observe_vote t v now)" using s by (simp add: sim_def observe_vote_tracker)
  have step: "observe_vote t v now = put_block (put_round rd' b') t2"
    using v(1,2) a(1,2) n(1) by (simp add: observe_vote_def)
  have "block_matches vs (put_round rd' b') (with_round x ?r ?f)"
    by (rule block_matches_with [where f = ?f, OF a(4) n(3)]) (simp_all add: put_round_def n a(5))
  from sim_put [OF s inv step a(7,8) _ this] show ?thesis using a(6) n(8) by simp
qed

definition with_commit :: "expected_height \<Rightarrow> string \<Rightarrow> expected_height" where
  "with_commit x hash = x\<lparr>xh_committed := True, xh_canonical := hash\<rparr>"

lemma archive_commit_sim:
  assumes s: "sim vs h t x" and hash: "length hash \<le> identity_limit" "xh_committed x \<longrightarrow> xh_canonical x = hash"
  shows "sim vs h (archive_commit t h hash now) (with_commit x hash)"
proof -
  have inv: "archive_inv t" "detector_bounded t" "live_inv t" using s by (simp_all add: sim_def tracker_inv_def)
  have inv': "tracker_inv (archive_commit t h hash now)"
    using inv archive_commit_inv live_inv_frame [OF archive_commit_frame] by (auto simp: tracker_inv_def)
  obtain b where b: "block_at t h = Some b" "block_matches vs b x" using s by (auto simp: sim_def)
  note bi = archive_block [OF inv(1) b(1)]
  have c: "create_archive_height t h now = (t, Some b)" using bi b(1) by (simp add: create_archive_height_def)
  show ?thesis
  proof (cases "xh_committed x")
    case True
    with hash b(2) have "ah_committed b" "ah_canonical b = hash" by (simp_all add: block_matches_def)
    then have "archive_commit t h hash now = t" using hash(1) c by (auto simp: archive_commit_def)
    moreover have "with_commit x hash = x" using True hash(2) by (simp add: with_commit_def)
    ultimately show ?thesis using s by simp
  next
    case False
    with b(2) have "\<not> ah_committed b" by (simp add: block_matches_def)
    then have "archive_commit t h hash now
        = put_block (b\<lparr>ah_committed := True, ah_canonical := hash, ah_last := now, ah_revision := ah_revision b + 1\<rparr>) t"
      using hash(1) c by (simp add: archive_commit_def)
    with s inv' b(2) bi(1) show ?thesis
      by (simp add: sim_def with_commit_def block_at_put_block block_matches_def)
  qed
qed

text \<open>Only the archive, the roster and the committed height count.\<close>

lemma sim_cong:
  assumes "sim vs h t x" and "tracker_inv t'" and "tk_archive t' = tk_archive t" "tk_validators t' = tk_validators t"
    and "xh_committed x \<or> tk_committed t' = tk_committed t"
  shows "sim vs h t' x"
  using assms by (auto simp: sim_def)

lemma ingest_vote_sim:
  assumes s: "sim vs h t0 x0" and "t = observe_vote t0 v n1" and "sim vs h t x" and step: "ingest_vote t v now = (t', res)"
  shows "sim vs h t' x"
proof (rule sim_cong [OF assms(3)])
  have inv: "archive_inv t0" "detector_bounded t0" using s by (simp_all add: sim_def tracker_inv_def)
  have again: "observe_vote t v now = t" using observe_vote_again [OF inv, of v n1 now] assms(2) by simp
  show "tracker_inv t'" using ingest_vote_tracker [of t v now] assms(3) step by (simp add: sim_def)
  show "tk_archive t' = tk_archive t" using ingest_vote_archive [OF step] again by simp
  show "tk_validators t' = tk_validators t" "xh_committed x \<or> tk_committed t' = tk_committed t"
    using step again by (auto simp: ingest_vote_eq Let_def split: if_splits)
qed

lemma resolve_commit_sim:
  assumes s: "sim vs h t x" and hash: "length hash \<le> identity_limit" "xh_committed x \<longrightarrow> xh_canonical x = hash"
    and step: "resolve_commit t h hash now = Some (t', rs)"
  shows "sim vs h t' (with_commit x hash)"
proof (rule sim_cong [OF archive_commit_sim [OF s hash, of now]])
  show "tracker_inv t'" using resolve_commit_tracker [OF _ step] s by (simp add: sim_def)
  show "tk_archive t' = tk_archive (archive_commit t h hash now)" using resolve_commit_archive [OF step] by simp
  show "tk_validators t' = tk_validators (archive_commit t h hash now)"
    using step by (auto simp: resolve_commit_def Let_def split: option.splits)
qed (simp add: with_commit_def)

lemma mark_round_advanced_sim:
  assumes "sim vs h t x"
  shows "sim vs h (mark_round_advanced t h' r) x"
proof -
  obtain rs where m: "mark_round_advanced t h' r = t\<lparr>tk_rounds := rs\<rparr>" by (metis mark_round_advanced_rounds)
  have "tracker_inv (mark_round_advanced t h' r)" using assms by (simp add: sim_def mark_round_advanced_tracker)
  then show ?thesis unfolding m by (rule sim_cong [OF assms]) simp_all
qed

section \<open>A height from its first event\<close>

lemma archive_height_fresh:
  assumes inv: "tracker_inv t" and "tk_validators t = roster_of (source_roster vs)"
    and h: "0 < h" "tk_committed t < h" "tk_evicted_through t < h" "\<forall>k \<in> set (gkeys (tk_archive t)). k < h"
  obtains t1 where "archive_height t h now = (t1, Some (new_block h now))" "sim vs h t1 (new_expected vs h)"
    "block_at t h = None"
proof -
  have none: "block_at t h = None" using h(4) by (auto simp: map_of_eq_None_iff)
  let ?t1 = "enter_height t h now"
  have at: "block_at ?t1 h = Some (new_block h now)" by (simp add: enter_height_def map_of_gput)
  have ne: "oldest_key h (gkeys (tk_archive ?t1)) \<noteq> h" if many: "int (length (tk_archive ?t1)) > cf_history (tk_cfg ?t1)"
  proof -
    have "0 < cf_history (tk_cfg t)" using inv by (simp add: tracker_inv_def archive_inv_def)
    with many obtain k v where "(k, v) \<in> set (tk_archive t)"
      by (cases "tk_archive t") (auto simp: enter_height_def)
    then have "k \<in> set (gkeys (tk_archive ?t1))" "k < h" using h(4) by (force simp: enter_height_def gkeys_gput)+
    then show ?thesis using oldest_key_le [of k "gkeys (tk_archive ?t1)" h] by simp
  qed
  have step: "create_archive_height t h now
      = ((if int (length (tk_archive ?t1)) > cf_history (tk_cfg ?t1) then evict_height ?t1 h else ?t1), Some (new_block h now))"
    using h none ne at by (auto simp: create_archive_height_def Let_def evict_height_def map_of_gdel)
  then obtain t1 where a: "archive_height t h now = (t1, Some (new_block h now))"
    using h none by (simp add: archive_height_def)
  have a0: "archive_inv t" "detector_bounded t" "live_inv t" using inv by (simp_all add: tracker_inv_def)
  have f: "archive_frame t t1" by (rule archive_height_frame [OF a0(1,2) a])
  have "tracker_inv t1"
    using archive_height_inv [OF a0(1,2) a] live_inv_frame [OF f a0(3)] by (simp add: tracker_inv_def)
  moreover have "block_matches vs (new_block h now) (new_expected vs h)"
    by (simp add: block_matches_def new_block_def new_expected_def)
  ultimately have "sim vs h t1 (new_expected vs h)"
    using assms(2) f h(2) archive_height_block [OF a] by (simp add: sim_def archive_frame_def new_expected_def)
  with a none that show thesis by blast
qed

text \<open>The first operation works as if the height had been entered before it.\<close>

lemma entered_first:
  assumes inv: "tracker_inv t" and a: "archive_height t h now = (t1, Some b)" and h: "tk_committed t < h" "block_at t h = None" "0 < h"
  shows "0 \<le> r \<Longrightarrow> r \<le> max_int32 \<Longrightarrow> length p \<le> identity_limit \<Longrightarrow> observe_round t h r p now = observe_round t1 h r p now"
    and "ve_height v = h \<Longrightarrow> well_formed_vote v \<Longrightarrow> observe_vote t v now = observe_vote t1 v now"
    and "length hash \<le> identity_limit \<Longrightarrow> archive_commit t h hash now = archive_commit t1 h hash now"
proof -
  have a0: "archive_inv t" "detector_bounded t" using inv by (simp_all add: tracker_inv_def)
  note again = archive_height_again [OF a0 a, of now]
  show "observe_round t h r p now = observe_round t1 h r p now"
    if "0 \<le> r" "r \<le> max_int32" "length p \<le> identity_limit"
    using that h(3) by (simp add: observe_round_def a again)
  show "observe_vote t v now = observe_vote t1 v now" if "ve_height v = h" "well_formed_vote v"
    using that by (simp add: observe_vote_def a again)
  have c: "create_archive_height t h now = (t1, Some b)"
    using a h by (auto simp: archive_height_def split: if_splits)
  note b = archive_height_block [OF a]
  have "create_archive_height t1 h now = (t1, Some b)"
    using archive_block [OF archive_height_inv(1) [OF a0 a] b] b by (simp add: create_archive_height_def)
  with c show "archive_commit t h hash now = archive_commit t1 h hash now" if "length hash \<le> identity_limit"
    using that by (simp add: archive_commit_def)
qed

section \<open>Replaying a height\<close>

text \<open>The tracker calls for an event of the source, as the orchestrator makes them for an event it accepts
  (\<open>handleNewBlock\<close>, \<open>handleNewRound\<close>, \<open>handleVote\<close>); \<open>ts\<close> gives the signed times.\<close>

definition source_vote :: "source_validator list \<Rightarrow> (fixture_event \<Rightarrow> gtime) \<Rightarrow> fixture_event \<Rightarrow> vote_event" where
  "source_vote vs ts ev =
     \<lparr>ve_height = fe_height ev, ve_round = fe_round ev, ve_type = phase_type (fe_phase ev),
      ve_addr = to_upper (so_address (vs ! fe_validator ev)), ve_hash = to_lower (fe_hash ev), ve_timestamp = ts ev\<rparr>"

definition source_ops ::
  "source_validator list \<Rightarrow> (fixture_event \<Rightarrow> gtime) \<Rightarrow> fixture_event \<times> gtime \<Rightarrow> tracker_op list" where
  "source_ops vs ts evt =
     (case evt of (ev, now) \<Rightarrow>
        if fe_kind ev = ''NewBlock'' then [ResolveCommit (fe_height ev) (to_lower (fe_hash ev)) now]
        else if fe_kind ev = ''NewRound''
        then ObserveRound (fe_height ev) (fe_round ev) (to_upper (so_address (vs ! fe_validator ev))) now
               # (if fe_round ev > 0 then [MarkRoundAdvanced (fe_height ev) (fe_round ev - 1)] else [])
        else if fe_kind ev = ''Vote''
        then [ObserveVote (source_vote vs ts ev) now, IngestVote (source_vote vs ts ev) now] else [])"

definition good_validators :: "source_validator list \<Rightarrow> bool" where
  "good_validators vs \<longleftrightarrow>
     vs \<noteq> [] \<and> distinct (map so_address vs) \<and> (\<Sum>v \<leftarrow> vs. so_power v) \<le> int64_max
     \<and> list_all (\<lambda>v. so_address v \<noteq> '''' \<and> length (so_address v) \<le> identity_limit \<and> to_upper (so_address v) = so_address v
                     \<and> 0 < so_power v) vs"

text \<open>An event within the archive's limits: a block is not changed by another, a new round does not arrive
  after the commit, at most 128 rounds and four hashes for a validator and phase.\<close>

definition event_ok :: "source_validator list \<Rightarrow> fixture_event \<Rightarrow> expected_height \<Rightarrow> bool" where
  "event_ok vs ev x \<longleftrightarrow>
     length (fe_hash ev) \<le> identity_limit \<and> to_lower (fe_hash ev) = fe_hash ev
     \<and> (if fe_kind ev = ''NewBlock'' then xh_committed x \<longrightarrow> xh_canonical x = fe_hash ev
        else fe_validator ev < length vs \<and> in_limits x (fe_round ev)
             \<and> (fe_kind ev = ''NewRound''
                \<or> fe_kind ev = ''Vote'' \<and> (fe_phase ev = 1 \<or> fe_phase ev = 2)
                  \<and> (let a = so_address (vs ! fe_validator ev)
                      in length (wanted (note_expected_vote a (fe_phase ev) (fe_hash ev) (expectation x (fe_round ev)))
                           a (fe_phase ev)) \<le> 4)))"

fun replay_ok :: "source_validator list \<Rightarrow> int \<Rightarrow> fixture_event list \<Rightarrow> expected_height \<Rightarrow> bool" where
  "replay_ok vs h [] x = True"
| "replay_ok vs h (ev # evs) x =
     (fe_height ev = h \<and> event_ok vs ev x
      \<and> (case expected_step vs ev x of None \<Rightarrow> False | Some x1 \<Rightarrow> replay_ok vs h evs x1))"

lemma good_validator:
  assumes "good_validators vs" and "i < length vs"
  shows "so_address (vs ! i) \<noteq> []" "length (so_address (vs ! i)) \<le> identity_limit"
    "to_upper (so_address (vs ! i)) = so_address (vs ! i)" "so_address (vs ! i) \<in> addresses vs"
  using assms by (auto simp: good_validators_def list_all_length addresses_def)

lemma expected_step_forms:
  "fe_kind ev = ''NewBlock'' \<Longrightarrow> expected_step vs ev x = Some (with_commit x (fe_hash ev))"
  "fe_kind ev = ''NewRound'' \<Longrightarrow> fe_validator ev < length vs \<Longrightarrow> expected_step vs ev x
     = Some (with_round x (fe_round ev) (\<lambda>w. w\<lparr>xr_proposer := so_address (vs ! fe_validator ev)\<rparr>))"
  "fe_kind ev = ''Vote'' \<Longrightarrow> fe_validator ev < length vs \<Longrightarrow> expected_step vs ev x
     = Some (with_round x (fe_round ev) (note_expected_vote (so_address (vs ! fe_validator ev)) (fe_phase ev) (fe_hash ev)))"
  by (simp_all add: expected_step_def with_commit_def with_round_def note_expected_round_def Let_def
      expectation_def blank_round_def cong: option.case_cong)

lemma source_vote_ok:
  assumes "good_validators vs" and "event_ok vs ev x" and "fe_kind ev = ''Vote''" and "0 < fe_height ev"
  shows "well_formed_vote (source_vote vs ts ev)" "ve_addr (source_vote vs ts ev) = so_address (vs ! fe_validator ev)"
    "ve_hash (source_vote vs ts ev) = fe_hash ev"
  using assms good_validator [OF assms(1), of "fe_validator ev"]
  by (auto simp: event_ok_def well_formed_vote_def source_vote_def in_limits_def phase_type_def)

lemma event_sim:
  assumes g: "good_validators vs" and s: "sim vs h t x" and ev: "event_ok vs ev x" "fe_height ev = h" and h: "0 < h"
    and run: "run_ops (source_ops vs ts (ev, now)) t = Some (t', ks)"
  shows "\<exists>x1. expected_step vs ev x = Some x1 \<and> sim vs h t' x1"
proof -
  let ?i = "fe_validator ev"
  consider (block) "fe_kind ev = ''NewBlock''" | (round) "fe_kind ev = ''NewRound''" "?i < length vs" "in_limits x (fe_round ev)"
    | (vote) "fe_kind ev = ''Vote''" "?i < length vs" "in_limits x (fe_round ev)" "fe_phase ev = 1 \<or> fe_phase ev = 2"
    using ev(1) by (auto simp: event_ok_def split: if_splits)
  then show ?thesis
  proof cases
    case block
    have hash: "length (fe_hash ev) \<le> identity_limit" "xh_committed x \<longrightarrow> xh_canonical x = fe_hash ev"
      "to_lower (fe_hash ev) = fe_hash ev" using ev(1) block by (auto simp: event_ok_def)
    obtain rs where "resolve_commit t h (fe_hash ev) now = Some (t', rs)"
      using run block ev(2) hash(3)
      by (cases "resolve_commit t h (fe_hash ev) now") (auto simp: source_ops_def)
    from resolve_commit_sim [OF s hash(1,2) this] expected_step_forms(1) [OF block] show ?thesis by blast
  next
    case round
    note v = good_validator [OF g round(2)]
    let ?a = "so_address (vs ! ?i)"
    have o: "sim vs h (observe_round t h (fe_round ev) ?a now) (with_round x (fe_round ev) (\<lambda>w. w\<lparr>xr_proposer := ?a\<rparr>))"
      by (rule observe_round_sim [OF s round(3) v(1,2) h])
    have "t' = observe_round t h (fe_round ev) ?a now
        \<or> t' = mark_round_advanced (observe_round t h (fe_round ev) ?a now) h (fe_round ev - 1)"
      using run round(1) ev(2) v(3) by (auto simp: source_ops_def split: if_splits)
    with o mark_round_advanced_sim [OF o] expected_step_forms(2) [OF round(1,2)] show ?thesis by blast
  next
    case vote
    let ?v = "source_vote vs ts ev" and ?a = "so_address (vs ! ?i)"
    let ?x = "with_round x (fe_round ev) (note_expected_vote ?a (fe_phase ev) (fe_hash ev))"
    note v = source_vote_ok [OF g ev(1) vote(1), of ts, unfolded ev(2), OF h]
    have d: "distinct (map so_address vs)" using g by (simp add: good_validators_def)
    have r: "ve_round ?v = fe_round ev" "ve_height ?v = h" "ve_type ?v = phase_type (fe_phase ev)"
      using ev(2) by (simp_all add: source_vote_def)
    have few: "length (wanted (note_expected_vote ?a (fe_phase ev) (fe_hash ev) (expectation x (fe_round ev))) ?a (fe_phase ev)) \<le> 4"
      using ev(1) vote(1) by (auto simp: event_ok_def Let_def)
    have o: "sim vs h (observe_vote t ?v now) ?x"
      using observe_vote_sim [OF s _ d v(1) r(2) _ _ r(3), of now] few vote(2-4) good_validator(4) [OF g vote(2)]
      by (simp add: r v)
    obtain res where "ingest_vote (observe_vote t ?v now) ?v now = (t', res)"
      using run vote(1) by (auto simp: source_ops_def split: prod.splits)
    from ingest_vote_sim [OF s refl o this] expected_step_forms(3) [OF vote(1,2)] show ?thesis by blast
  qed
qed

lemma first_event:
  assumes g: "good_validators vs" and inv: "tracker_inv t" and a: "archive_height t h now = (t1, Some b)"
    and h: "tk_committed t < h" "block_at t h = None" "0 < h" and ev: "event_ok vs ev x" "fe_height ev = h"
  shows "run_ops (source_ops vs ts (ev, now)) t = run_ops (source_ops vs ts (ev, now)) t1"
proof -
  note e = entered_first [OF inv a h]
  consider (block) "fe_kind ev = ''NewBlock''" | (round) "fe_kind ev = ''NewRound''" "fe_validator ev < length vs" "in_limits x (fe_round ev)"
    | (vote) "fe_kind ev = ''Vote''"
    using ev(1) by (auto simp: event_ok_def split: if_splits)
  then show ?thesis
  proof cases
    case block
    have "length (to_lower (fe_hash ev)) \<le> identity_limit" using ev(1) by (simp add: event_ok_def)
    from e(3) [OF this] block ev(2) show ?thesis by (simp add: source_ops_def resolve_commit_def)
  next
    case round
    note v = good_validator [OF g round(2)]
    from round(3) have "0 \<le> fe_round ev" "fe_round ev \<le> max_int32" by (simp_all add: in_limits_def)
    from e(1) [OF this v(2)] round(1) ev(2) v(3) show ?thesis by (simp add: source_ops_def)
  next
    case vote
    have "well_formed_vote (source_vote vs ts ev)" by (rule source_vote_ok(1) [OF g ev(1) vote]) (simp add: ev h)
    from e(2) [OF _ this] ev(2) have "observe_vote t (source_vote vs ts ev) now = observe_vote t1 (source_vote vs ts ev) now"
      by (simp add: source_vote_def)
    with vote show ?thesis by (simp add: source_ops_def)
  qed
qed

definition replay :: "source_validator list \<Rightarrow> (fixture_event \<Rightarrow> gtime) \<Rightarrow> (fixture_event \<times> gtime) list \<Rightarrow> tracker_op list" where
  "replay vs ts evs = concat (map (source_ops vs ts) evs)"

lemma replay_sim:
  assumes "good_validators vs" and "0 < h" and "sim vs h t x" and "replay_ok vs h (map fst evs) x"
    and "run_ops (replay vs ts evs) t = Some (t', ks)"
  shows "\<exists>x1. fold (\<lambda>ev o1. Option.bind o1 (expected_step vs ev)) (map fst evs) (Some x) = Some x1 \<and> sim vs h t' x1"
  using assms(3-)
proof (induction evs arbitrary: t x ks)
  case (Cons evt evs)
  obtain ev now where evt: "evt = (ev, now)" by fastforce
  from Cons.prems(3) obtain t1 k1 k2 where r: "run_ops (source_ops vs ts (ev, now)) t = Some (t1, k1)"
    "run_ops (replay vs ts evs) t1 = Some (t', k2)"
    by (auto simp: replay_def evt run_ops_append split: option.splits)
  from Cons.prems(2) have ok: "event_ok vs ev x" "fe_height ev = h" by (simp_all add: evt)
  from event_sim [OF assms(1) Cons.prems(1) ok assms(2) r(1)] obtain x1 where
    x1: "expected_step vs ev x = Some x1" "sim vs h t1 x1" by blast
  with Cons.prems(2) have "replay_ok vs h (map fst evs) x1" by (simp add: evt)
  from Cons.IH [OF x1(2) this r(2)] x1(1) show ?case by (simp add: evt)
qed (simp add: replay_def)

section \<open>The report of a matching tracker passes\<close>

lemma roster_get:
  assumes d: "distinct (map so_address vs)" and v: "v \<in> set vs"
  shows "map_of (roster_of (source_roster vs)) (so_address v)
      = Some \<lparr>vp_address = so_address v, vp_power = so_power v, vp_moniker = so_moniker v\<rparr>"
    and "map_of (expected_roster vs) (so_address v) = Some v"
  unfolding roster_of_source [OF d] expected_roster_source [OF d]
  using v d by (auto intro!: map_of_is_SomeI simp: comp_def)

lemma round_keys:
  assumes m: "round_matches vs rd w" and d: "distinct (map so_address vs)"
  shows "set (round_addresses rd) = addresses vs" "mset (round_addresses rd) = mset (map so_address vs)"
    "length (round_addresses rd) = length vs"
proof -
  have "gkeys (roster_of (source_roster vs)) = map so_address vs"
    unfolding roster_of_source [OF d] by (simp add: comp_def)
  then have keys: "fst ` set (roster_of (source_roster vs)) = addresses vs"
    by (metis addresses_def list.set_map)
  show s: "set (round_addresses rd) = addresses vs"
    using m keys by (auto simp: round_addresses_def round_matches_def)
  have "distinct (round_addresses rd)" by (simp add: round_addresses_def)
  with s d show e: "mset (round_addresses rd) = mset (map so_address vs)"
    using set_eq_iff_mset_eq_distinct [of "round_addresses rd" "map so_address vs"]
    by (simp add: addresses_def del: mset_map)
  show "length (round_addresses rd) = length vs" using mset_eq_length [OF e] by simp
qed

text \<open>The totals: the view sums the positive powers of the roster, the oracle adds \<open>int64\<close> values.\<close>

lemma sum_of_powers:
  assumes "list_all (\<lambda>v. 0 < so_power v) vs" and "0 \<le> s" and "s + (\<Sum>v \<leftarrow> vs. so_power v) \<le> int64_max"
  shows "fold (\<lambda>(a, v) s. i64 (s + so_power v)) (map (\<lambda>v. (so_address v, v)) vs) s = s + (\<Sum>v \<leftarrow> vs. so_power v)"
  using assms
proof (induction vs arbitrary: s)
  case (Cons v vs)
  have "0 \<le> (\<Sum>v \<leftarrow> vs. so_power v)"
    using Cons.prems(1) by (intro sum_list_nonneg) (auto simp: list_all_iff less_imp_le)
  with Cons.prems have "i64 (s + so_power v) = s + so_power v"
    by (intro i64_id) (auto simp: int64_min_def)
  with Cons.IH [of "s + so_power v"] Cons.prems show ?case by (simp add: add.assoc)
qed simp

lemma round_total:
  assumes m: "round_matches vs rd w" and g: "good_validators vs"
  shows "fold (\<lambda>a s. s + counted_power rd a) (round_addresses rd) 0
    = fold (\<lambda>(a, v) s. i64 (s + so_power v)) (expected_roster vs) 0"
proof -
  have d: "distinct (map so_address vs)" and p: "list_all (\<lambda>v. 0 < so_power v) vs"
    "(\<Sum>v \<leftarrow> vs. so_power v) \<le> int64_max"
    using g by (auto simp: good_validators_def list_all_iff)
  have "counted_power rd (so_address v) = so_power v" if "v \<in> set vs" for v
    using m p(1) that by (simp add: counted_power_def round_matches_def roster_get [OF d that] list_all_iff)
  then have "(\<Sum>a \<leftarrow> map so_address vs. counted_power rd a) = (\<Sum>v \<leftarrow> vs. so_power v)"
    by (simp add: comp_def cong: map_cong)
  moreover have "(\<Sum>a \<leftarrow> round_addresses rd. counted_power rd a) = (\<Sum>a \<leftarrow> map so_address vs. counted_power rd a)"
    by (rule sum_list_mset_cong) (rule round_keys(2) [OF m d])
  ultimately show ?thesis
    using sum_of_powers [OF p(1) order_refl] p(2) by (simp add: sum_counted_power expected_roster_source [OF d])
qed

text \<open>One validator of a round.\<close>

lemma check_phase_passes:
  assumes m: "round_matches vs rd w" and ri: "round_inv rd" and p: "p = 1 \<or> p = 2"
  shows "check_phase rnd a p (clone_vote (get_vote rd a (phase_type p))) (wanted w a p) = None"
proof -
  let ?v = "clone_vote (get_vote rd a (phase_type p))"
  have s: "sort (map ih_hash (iv_hashes ?v)) = wanted w a p"
  proof -
    have "sort (seen_hashes rd a p) = wanted w a p" using m p unfolding round_matches_def by blast
    then show ?thesis by (simp add: seen_hashes_def clone_vote_def split: option.splits)
  qed
  then have l: "length (wanted w a p) = length (iv_hashes ?v)" by (metis length_map length_sort)
  have "iv_observed ?v \<longleftrightarrow> iv_hashes ?v \<noteq> []" "iv_conflicting ?v \<longleftrightarrow> length (iv_hashes ?v) > 1"
    using get_vote_inv [OF ri, of a "phase_type p"] by (auto simp: clone_vote_def vote_inv_def split: option.split)
  with s l show ?thesis by (auto simp: check_phase_def Let_def)
qed

lemma check_validator_passes:
  assumes m: "round_matches vs rd w" and g: "good_validators vs" and ri: "round_inv rd" and a: "a \<in> addresses vs"
  shows "check_validator (expected_roster vs) w rnd (validator_row rd a) = None"
proof -
  have d: "distinct (map so_address vs)" using g by (simp add: good_validators_def)
  obtain v where v: "v \<in> set vs" "a = so_address v" using a by (auto simp: addresses_def)
  have ros: "map_of (ar_roster rd) a = Some \<lparr>vp_address = a, vp_power = so_power v, vp_moniker = so_moniker v\<rparr>"
    using m roster_get(1) [OF d v(1)] v(2) by (simp add: round_matches_def)
  have row: "vv_address (validator_row rd a) = a" "vv_known (validator_row rd a)"
    "vv_power (validator_row rd a) = format_int (so_power v)" "vv_moniker (validator_row rd a) = so_moniker v"
    "vv_prevote (validator_row rd a) = clone_vote (get_vote rd a Prevote)"
    "vv_precommit (validator_row rd a) = clone_vote (get_vote rd a Precommit)"
    by (simp_all add: validator_row_def ros)
  have "check_phase rnd a 1 (clone_vote (get_vote rd a Prevote)) (wanted w a 1) = None"
    "check_phase rnd a 2 (clone_vote (get_vote rd a Precommit)) (wanted w a 2) = None"
    using check_phase_passes [OF m ri, of 1 rnd a] check_phase_passes [OF m ri, of 2 rnd a]
    by (simp_all add: phase_type_def)
  moreover have "map_of (expected_roster vs) a = Some v" using roster_get(2) [OF d v(1)] v(2) by simp
  ultimately show ?thesis by (simp add: check_validator_def row first_error_None)
qed

lemma check_round_passes:
  assumes x: "map_of (xh_rounds x) (ar_round rd) = Some w" "xh_roster x = expected_roster vs"
    and m: "round_matches vs rd w" and g: "good_validators vs" and ri: "round_inv rd"
  shows "check_round x (snapshot_round rd c k) = None"
proof -
  let ?s = "snapshot_round rd c k"
  have d: "distinct (map so_address vs)" using g by (simp add: good_validators_def)
  note keys = round_keys [OF m d]
  have rows: "set (vr_validators ?s) = validator_row rd ` addresses vs" "length (vr_validators ?s) = length vs"
    by (simp_all add: snapshot_round_def Let_def keys)
  have len: "length (expected_roster vs) = length vs" by (simp add: expected_roster_source [OF d])
  have total: "vr_total ?s = format_int (fold (\<lambda>(a, v) s. i64 (s + so_power v)) (expected_roster vs) 0)"
    using round_total [OF m g] by (simp add: snapshot_round_def Let_def)
  have "check_roster (xh_roster x) ?s = None" by (simp add: check_roster_def x(2) rows len total)
  moreover have "first_error (check_validator (xh_roster x) w (vr_round ?s)) (vr_validators ?s) = None"
    unfolding first_error_None list_all_iff rows x(2) using check_validator_passes [OF m g ri] by auto
  moreover have "vv_address ` set (vr_validators ?s) = addresses vs"
    unfolding rows image_image by (simp add: validator_row_def Let_def)
  moreover have "set (gkeys (xr_votes w)) \<subseteq> addresses vs" using m by (simp add: round_matches_def)
  ultimately have parts: "check_roster (xh_roster x) ?s = None"
    "first_error (check_validator (xh_roster x) w (vr_round ?s)) (vr_validators ?s) = None"
    "first_error (\<lambda>addr. if addr \<in> vv_address ` set (vr_validators ?s) then None
       else Some (''round '' @ format_int (vr_round ?s) @ '' missing validator '' @ addr)) (gkeys (xr_votes w)) = None"
    by (auto simp: first_error_None list_all_iff)
  have "vr_round ?s = ar_round rd" "vr_proposer ?s = xr_proposer w"
    using m by (simp_all add: snapshot_round_def Let_def round_matches_def)
  from this(1) have "map_of (xh_rounds x) (vr_round ?s) = Some w" by (simp add: x(1))
  note found = this
  from \<open>vr_proposer ?s = xr_proposer w\<close> show ?thesis unfolding check_round_def found option.case parts by simp
qed

lemma report_passes:
  assumes s: "sim vs h t x" and g: "good_validators vs"
  shows "check_report (full_view (block_investigation t h now d)) (Some x) = None"
proof -
  obtain b where b: "block_at t h = Some b" "block_matches vs b x" using s by (auto simp: sim_def)
  have inv: "archive_inv t" using s by (simp add: sim_def tracker_inv_def)
  note bi = archive_block [OF inv b(1)]
  let ?rep = "full_view (block_investigation t h now d)"
  have rep: "sv_height ?rep = h" "sv_found ?rep" "sv_committed ?rep = xh_committed x" "sv_canonical ?rep = xh_canonical x"
    "sv_details ?rep = None" "sv_rounds ?rep = sort_slice round_lt (block_rounds b)"
    using b(2) by (simp_all add: full_view_def block_investigation_def build_def capture_investigation_def b(1)
        investigation_version_def investigation_header_def not_observed_header_def Let_def block_matches_def)
  have "length (sv_rounds ?rep) = length (xh_rounds x)" "int (length (ah_rounds b)) \<le> 128"
    using block_matches_length [OF bi(4) b(2)] bi(4) by (simp_all add: rep block_rounds_def block_inv_def round_limit_def)
  then have len: "length (sv_rounds ?rep) = min 128 (length (xh_rounds x))"
    using block_matches_length [OF bi(4) b(2)] by simp
  have "check_round x v = None" if "v \<in> set (sv_rounds ?rep)" for v
  proof -
    from that obtain r rd where "(r, rd) \<in> set (ah_rounds b)"
      and v: "v = snapshot_round rd (ah_canonical b) (ah_committed b)" by (auto simp: rep block_rounds_def)
    moreover have "gmap_ok (ah_rounds b)" using bi(4) by (simp add: block_inv_def)
    ultimately have rd: "map_of (ah_rounds b) r = Some rd" by (metis map_of_is_SomeI)
    note ri = block_inv_round [OF bi(4) rd]
    obtain w where "map_of (xh_rounds x) r = Some w" "round_matches vs rd w"
      using block_matches_round [OF b(2), of r] by (auto simp: rd elim: option.rel_cases)
    with check_round_passes [OF _ _ _ g] ri s show ?thesis by (simp add: v sim_def)
  qed
  then have all: "first_error (check_round x) (sv_rounds ?rep) = None" by (simp add: first_error_None list_all_iff)
  have none: "\<not> (sv_rounds ?rep = [] \<and> xh_rounds x \<noteq> [])" using len by (auto simp: min_def split: if_splits)
  have h: "xh_height x = h" using s by (simp add: sim_def)
  show ?thesis
    unfolding check_report_def Let_def option.case rep(1,3-5) h len if_not_P [OF none] all using rep(2) by simp
qed

section \<open>Both sides of a replay\<close>

lemma observe_all_height:
  assumes "list_all (\<lambda>ev. fe_height ev = h) evs"
    and "ol_heights ol = [(h, x)] \<or> ol_heights ol = [] \<and> x = new_expected (ol_validators ol) h"
    and "evs \<noteq> [] \<or> ol_heights ol = [(h, x)]"
    and "fold (\<lambda>ev o1. Option.bind o1 (expected_step (ol_validators ol) ev)) evs (Some x) = Some x1"
  shows "observe_all evs ol = Some (ol\<lparr>ol_heights := [(h, x1)]\<rparr>)"
  using assms
proof (induction evs arbitrary: ol x)
  case (Cons ev evs)
  have bind_None: "fold (\<lambda>ev o1. Option.bind o1 (expected_step (ol_validators ol) ev)) evs None = None" for evs
    by (induction evs) simp_all
  from Cons.prems(4) obtain x2 where x2: "expected_step (ol_validators ol) ev x = Some x2"
    by (cases "expected_step (ol_validators ol) ev x") (simp_all add: bind_None)
  have "observe_source ev ol = Some (ol\<lparr>ol_heights := [(h, x2)]\<rparr>)"
    using Cons.prems(1,2) x2 by (auto simp: observe_source_def Let_def oracle_limit_def)
  moreover have "observe_all evs (ol\<lparr>ol_heights := [(h, x2)]\<rparr>) = Some (ol\<lparr>ol_heights := [(h, x2)]\<rparr>\<lparr>ol_heights := [(h, x1)]\<rparr>)"
    by (rule Cons.IH) (use Cons.prems x2 in simp_all)
  ultimately show ?case by simp
qed simp

lemma replay_ok_heights: "replay_ok vs h evs x \<Longrightarrow> list_all (\<lambda>ev. fe_height ev = h) evs"
  by (induction evs arbitrary: x) (auto split: option.splits)

definition newest_height :: "tracker \<Rightarrow> int \<Rightarrow> bool" where
  "newest_height t h \<longleftrightarrow> 0 < h \<and> tk_committed t < h \<and> tk_evicted_through t < h \<and> list_all (\<lambda>k. k < h) (gkeys (tk_archive t))"

lemma replay_agrees:
  assumes g: "good_validators vs" and inv: "tracker_inv t" "tk_validators t = roster_of (source_roster vs)"
    and h: "newest_height t h" and ok: "replay_ok vs h (map fst evs) (new_expected vs h)" "evs \<noteq> []"
    and run: "run_ops (replay vs ts evs) t = Some (t', ks)"
  shows "\<exists>ol. observe_all (map fst evs) (new_oracle vs) = Some ol
           \<and> check_report (full_view (block_investigation t' h now d)) (map_of (ol_heights ol) h) = None"
proof -
  obtain ev tm rest where evs: "evs = (ev, tm) # rest" using ok(2) by (cases evs) auto
  have h': "0 < h" "tk_committed t < h" "tk_evicted_through t < h" "\<forall>k \<in> set (gkeys (tk_archive t)). k < h"
    using h by (simp_all add: newest_height_def list_all_iff)
  from archive_height_fresh [OF inv h', of tm] obtain t1 where
    t1: "archive_height t h tm = (t1, Some (new_block h tm))" "sim vs h t1 (new_expected vs h)" "block_at t h = None" .
  have ev: "event_ok vs ev (new_expected vs h)" "fe_height ev = h" using ok(1) by (simp_all add: evs)
  have "run_ops (source_ops vs ts (ev, tm)) t = run_ops (source_ops vs ts (ev, tm)) t1"
    by (rule first_event [OF g inv(1) t1(1) h'(2) t1(3) h'(1) ev])
  then have "run_ops (replay vs ts evs) t1 = Some (t', ks)" using run by (simp add: replay_def evs run_ops_append)
  from replay_sim [OF g h'(1) t1(2) ok(1) this] obtain x1 where
    x1: "fold (\<lambda>ev o1. Option.bind o1 (expected_step vs ev)) (map fst evs) (Some (new_expected vs h)) = Some x1"
      "sim vs h t' x1" by blast
  have "observe_all (map fst evs) (new_oracle vs) = Some ((new_oracle vs)\<lparr>ol_heights := [(h, x1)]\<rparr>)"
    by (rule observe_all_height [OF replay_ok_heights [OF ok(1)], where x = "new_expected vs h"])
      (use x1(1) ok(2) in \<open>simp_all add: new_oracle_def\<close>)
  with report_passes [OF x1(2) g] show ?thesis by simp
qed

section \<open>The source keeps within the limits\<close>

text \<open>The hashes a validator can vote for in a phase of a round of the scenario.\<close>

definition phase_hashes :: "(string \<Rightarrow> string) \<Rightarrow> int \<Rightarrow> int \<Rightarrow> int \<Rightarrow> string list" where
  "phase_hashes sha256 h r p =
     ['''', source_hash sha256 h r ''a'', source_hash sha256 h r ''b'',
      source_hash sha256 h r (if p = 1 then ''conflict'' else ''late'')]"

definition scenario_event :: "(string \<Rightarrow> string) \<Rightarrow> int \<Rightarrow> int \<Rightarrow> source_validator list \<Rightarrow> fixture_event \<Rightarrow> bool" where
  "scenario_event sha256 h n vs ev \<longleftrightarrow>
     fe_height ev = h \<and> 0 \<le> fe_round ev \<and> fe_round ev < n \<and> fe_validator ev < length vs
     \<and> (fe_kind ev = ''NewRound'' \<and> fe_hash ev = ''''
        \<or> fe_kind ev = ''Vote'' \<and> (fe_phase ev = 1 \<or> fe_phase ev = 2)
          \<and> fe_hash ev \<in> set (phase_hashes sha256 h (fe_round ev) (fe_phase ev)))"

definition scenario_inv :: "(string \<Rightarrow> string) \<Rightarrow> int \<Rightarrow> int \<Rightarrow> expected_height \<Rightarrow> bool" where
  "scenario_inv sha256 h n x \<longleftrightarrow>
     \<not> xh_committed x \<and> gmap_ok (xh_rounds x) \<and> fst ` set (xh_rounds x) \<subseteq> {0..<n}
     \<and> (\<forall>r a. \<forall>p \<in> {1, 2}. distinct (wanted (expectation x r) a p)
          \<and> set (wanted (expectation x r) a p) \<subseteq> set (phase_hashes sha256 h r p))"

lemma hex_text:
  "to_lower (hex_encode s) = hex_encode s" "length (hex_encode s) = 2 * length s"
proof -
  have "of_char c < (256 :: nat)" for c by (rule nat_of_char_less_256)
  moreover have "lower_char (hex_digit d) = hex_digit d" if "d < 16" for d
  proof -
    have "d \<in> set [0..<16]" using that by simp
    then show ?thesis by (auto simp: upt_rec hex_digit_def lower_char_def less_eq_char_def)
  qed
  ultimately have "map lower_char (hex_byte c) = hex_byte c" for c
    by (simp add: hex_byte_def less_mult_imp_div_less)
  then show "to_lower (hex_encode s) = hex_encode s"
    unfolding to_lower_def hex_encode_def by (induction s) simp_all
  show "length (hex_encode s) = 2 * length s"
    unfolding hex_encode_def by (induction s) (simp_all add: hex_byte_def)
qed

lemma phase_hash_text:
  assumes "\<And>s. length (sha256 s) = 32" and "x \<in> set (phase_hashes sha256 h r p)"
  shows "to_lower x = x" "length x \<le> identity_limit"
  using assms by (auto simp: phase_hashes_def source_hash_def hex_text identity_limit_def)

lemma wanted_blank [simp]: "wanted (blank_round r) a p = []"
  by (simp add: wanted_def blank_round_def)

lemma expectation_with: "expectation (with_round x r f) r' = (if r' = r then f (expectation x r) else expectation x r')"
  by (simp add: expectation_def with_round_def map_of_gput)

lemma wanted_proposer [simp]: "wanted (w\<lparr>xr_proposer := q\<rparr>) a p = wanted w a p"
  by (simp add: wanted_def)

lemma scenario_room:
  assumes i: "scenario_inv sha256 h n x" and r: "0 \<le> r" "r < n" and n: "n \<le> 128"
  shows "in_limits x r"
proof -
  have e: "gmap_ok (xh_rounds (ensured x r))" "fst ` set (xh_rounds (ensured x r)) \<subseteq> {0..<n}"
    using i r by (auto simp: scenario_inv_def ensured_def gkeys_gput)
  have "length (xh_rounds (ensured x r)) \<le> card {0..<n}"
    using card_mono [OF _ e(2)] gmap_ok_card [OF e(1)] by simp
  with i r n show ?thesis by (simp add: in_limits_def scenario_inv_def max_int32_def)
qed

lemma scenario_step:
  assumes sha: "\<And>s. length (sha256 s) = 32" and i: "scenario_inv sha256 h n x" and n: "n \<le> 128"
    and ev: "scenario_event sha256 h n vs ev"
  shows "event_ok vs ev x" and "\<exists>x1. expected_step vs ev x = Some x1 \<and> scenario_inv sha256 h n x1"
proof -
  let ?r = "fe_round ev" and ?p = "fe_phase ev" and ?a = "so_address (vs ! fe_validator ev)" and ?h = "fe_hash ev"
  have e: "0 \<le> ?r" "?r < n" "fe_validator ev < length vs" using ev by (simp_all add: scenario_event_def)
  note room = scenario_room [OF i e(1,2) n]
  have keys: "fst ` set (xh_rounds (with_round x ?r f)) \<subseteq> {0..<n}" "gmap_ok (xh_rounds (with_round x ?r f))" for f
    using i e by (auto simp: scenario_inv_def with_round_def gkeys_gput)
  have w: "distinct (wanted (expectation x r) a p)"
    "set (wanted (expectation x r) a p) \<subseteq> set (phase_hashes sha256 h r p)" if "p = 1 \<or> p = 2" for r a p
    using i that unfolding scenario_inv_def by blast+
  consider (round) "fe_kind ev = ''NewRound''" "?h = ''''"
    | (vote) "fe_kind ev = ''Vote''" "?p = 1 \<or> ?p = 2" "?h \<in> set (phase_hashes sha256 h ?r ?p)"
    using ev by (auto simp: scenario_event_def)
  then have "event_ok vs ev x \<and> (\<exists>x1. expected_step vs ev x = Some x1 \<and> scenario_inv sha256 h n x1)"
  proof cases
    case round
    have "scenario_inv sha256 h n (with_round x ?r (\<lambda>w. w\<lparr>xr_proposer := ?a\<rparr>))"
      using i keys w by (auto simp: scenario_inv_def expectation_with)
    with round room e(3) expected_step_forms(2) [OF round(1) e(3), of x] show ?thesis by (simp add: event_ok_def)
  next
    case vote
    let ?f = "note_expected_vote ?a ?p ?h"
    have d: "distinct (wanted (?f (expectation x ?r)) a p)"
      "set (wanted (?f (expectation x ?r)) a p) \<subseteq> set (phase_hashes sha256 h ?r p)" if "p = 1 \<or> p = 2" for a p
      using w [OF that, of ?r a] vote(3) by (auto simp: wanted_note)
    have "length (wanted (?f (expectation x ?r)) ?a ?p) \<le> card (set (phase_hashes sha256 h ?r ?p))"
      using card_mono [OF _ d(2) [OF vote(2), of ?a]] distinct_card [OF d(1) [OF vote(2), of ?a]] by simp
    also have "\<dots> \<le> 4" using card_length [of "phase_hashes sha256 h ?r ?p"] by (simp add: phase_hashes_def)
    finally have "event_ok vs ev x"
      using vote e(3) room phase_hash_text [OF sha vote(3)] by (simp add: event_ok_def)
    moreover have "scenario_inv sha256 h n (with_round x ?r ?f)"
      using i keys w d by (auto simp: scenario_inv_def expectation_with)
    ultimately show ?thesis using expected_step_forms(3) [OF vote(1) e(3), of x] by simp
  qed
  then show "event_ok vs ev x" "\<exists>x1. expected_step vs ev x = Some x1 \<and> scenario_inv sha256 h n x1" by simp_all
qed

lemma scenario_prefix:
  assumes sha: "\<And>s. length (sha256 s) = 32" and n: "n \<le> 128" and "scenario_inv sha256 h n x"
    and "list_all (scenario_event sha256 h n vs) evs"
  shows "\<exists>x1. scenario_inv sha256 h n x1 \<and> replay_ok vs h (evs @ rest) x = replay_ok vs h rest x1"
  using assms(3,4)
proof (induction evs arbitrary: x)
  case (Cons ev evs)
  from Cons.prems(2) have ev: "scenario_event sha256 h n vs ev" "fe_height ev = h" by (simp_all add: scenario_event_def)
  from scenario_step [OF sha Cons.prems(1) n ev(1)] obtain x1 where
    x1: "event_ok vs ev x" "expected_step vs ev x = Some x1" "scenario_inv sha256 h n x1" by blast
  from Cons.IH [OF x1(3)] Cons.prems(2) x1(1,2) ev(2) show ?case by simp
qed auto

lemma phase_votes_scenario:
  assumes "0 \<le> r" "r < n" "p = 1 \<or> p = 2"
  shows "list_all (scenario_event sha256 h n vs) (phase_votes sha256 h r vs p)"
  using assms
  by (auto simp: list_all_iff phase_votes_def Let_def scenario_event_def vote_event_of_def phase_hashes_def)

lemma round_events_scenario:
  assumes r: "0 \<le> r" "r < n" and vs: "2 \<le> length vs"
  shows "list_all (scenario_event sha256 h n vs) (round_events sha256 h r vs)"
proof -
  let ?out = "round_event h r vs # phase_votes sha256 h r vs 1 @ phase_votes sha256 h r vs 2"
  have "0 \<le> (h + r) mod int (length vs)" "(h + r) mod int (length vs) < int (length vs)"
    using vs by (auto intro!: pos_mod_sign pos_mod_bound)
  then have "nat ((h + r) mod int (length vs)) < length vs" by linarith
  then have first: "scenario_event sha256 h n vs (round_event h r vs)"
    using r by (simp add: scenario_event_def round_event_def)
  have len: "length (phase_votes sha256 h r vs p) = length vs - 1" for p by (simp add: phase_votes_def)
  have all: "list_all (scenario_event sha256 h n vs) ?out"
    using first phase_votes_scenario [OF r, of _ sha256 h vs] by simp
  have "?out ! 1 \<in> set ?out" using vs by (intro nth_mem) (simp add: len)
  with all have dup: "scenario_event sha256 h n vs (?out ! 1)" unfolding list_all_iff by blast
  have extra: "scenario_event sha256 h n vs (vote_event_of h r 0 1 (source_hash sha256 h r ''conflict''))"
    using r vs by (auto simp: scenario_event_def vote_event_of_def phase_hashes_def)
  have late: "scenario_event sha256 h n vs (vote_event_of h (r - 1) (length vs - 1) 2 (source_hash sha256 h (r - 1) ''late''))"
    if "0 < r" using that r vs by (simp add: scenario_event_def vote_event_of_def phase_hashes_def)
  show ?thesis
    unfolding round_events_def Let_def using all dup extra late by simp
qed

text \<open>The scenario of a height: rounds \<open>0\<close> to \<open>n - 1\<close> and the block.\<close>

definition scenario :: "(string \<Rightarrow> string) \<Rightarrow> source_validator list \<Rightarrow> int \<Rightarrow> nat \<Rightarrow> fixture_event list" where
  "scenario sha256 vs h n = concat (map (\<lambda>r. round_events sha256 h (int r) vs) [0..<n]) @ [block_event sha256 h]"

lemma scenario_replay_ok:
  assumes sha: "\<And>s. length (sha256 s) = 32" and n: "n \<le> 128" and vs: "2 \<le> length vs"
  shows "replay_ok vs h (scenario sha256 vs h n) (new_expected vs h)"
proof -
  have i: "scenario_inv sha256 h (int n) (new_expected vs h)"
    by (simp add: scenario_inv_def new_expected_def expectation_def)
  have "list_all (scenario_event sha256 h (int n) vs) (round_events sha256 h (int r) vs)" if "r < n" for r
    using round_events_scenario [OF _ _ vs, of "int r" "int n"] that by simp
  then have "list_all (scenario_event sha256 h (int n) vs) (concat (map (\<lambda>r. round_events sha256 h (int r) vs) [0..<n]))"
    by (auto simp: list_all_iff)
  from scenario_prefix [OF sha _ i this, of "[block_event sha256 h]"] n obtain x1 where
    x1: "scenario_inv sha256 h (int n) x1"
      "replay_ok vs h (scenario sha256 vs h n) (new_expected vs h) = replay_ok vs h [block_event sha256 h] x1"
    by (auto simp: scenario_def)
  have b: "fe_kind (block_event sha256 h) = ''NewBlock''" "fe_height (block_event sha256 h) = h"
    "fe_hash (block_event sha256 h) = source_hash sha256 h 0 ''a''" by (simp_all add: block_event_def)
  have "event_ok vs (block_event sha256 h) x1"
    using x1(1) by (simp add: event_ok_def b scenario_inv_def source_hash_def hex_text sha identity_limit_def)
  then show ?thesis unfolding x1(2) by (simp add: b(2) expected_step_forms(1) [OF b(1)])
qed

text \<open>The tracker agrees with its independent oracle.  The source's scenario for a height above those
  already archived, up to 128 rounds with nil votes, duplicates, conflicting and late votes and then the
  block, is given to the tracker and to the oracle; then the report the tracker builds passes the oracle's
  check, whatever the state the tracker was in.\<close>

theorem replayed_height_verified:
  assumes "\<And>s. length (sha256 s) = 32" and "good_validators vs" and "2 \<le> length vs" and "n \<le> 128"
    and "reachable cfg t" and "tk_validators t = roster_of (source_roster vs)" and "newest_height t h"
    and "map fst evs = scenario sha256 vs h n" and "run_ops (replay vs ts evs) t = Some (t', ks)"
  shows "\<exists>ol. observe_all (scenario sha256 vs h n) (new_oracle vs) = Some ol
           \<and> check_report (full_view (block_investigation t' h now d)) (map_of (ol_heights ol) h) = None"
proof -
  have "evs \<noteq> []" using assms(8) by (auto simp: scenario_def)
  then show ?thesis
    using replay_agrees [OF assms(2) reachable_inv [OF assms(5)] assms(6,7) _ _ assms(9)]
      scenario_replay_ok [OF assms(1,4,3)] by (simp add: assms(8))
qed

definition demo_source :: "source_validator list" where
  "demo_source =
     [\<lparr>so_address = ''A'', so_key = '''', so_moniker = ''alpha'', so_power = 10\<rparr>,
      \<lparr>so_address = ''B'', so_key = '''', so_moniker = ''beta'', so_power = 11\<rparr>,
      \<lparr>so_address = ''C'', so_key = '''', so_moniker = ''gamma'', so_power = 12\<rparr>]"

definition demo_sha :: "string \<Rightarrow> string" where
  "demo_sha s = take 32 (s @ replicate 32 (CHR ''0''))"

theorem replayed_height_verified_witness:
  "\<exists>t' ks ol.
     run_ops (replay demo_source (\<lambda>ev. 7) (map (\<lambda>ev. (ev, 9)) (scenario demo_sha demo_source 1000 3)))
       (set_validators (new_tracker default_config) (source_roster demo_source)) = Some (t', ks)
     \<and> observe_all (scenario demo_sha demo_source 1000 3) (new_oracle demo_source) = Some ol
     \<and> check_report (full_view (block_investigation t' 1000 10 0)) (map_of (ol_heights ol) 1000) = None"
proof -
  let ?t = "set_validators (new_tracker default_config) (source_roster demo_source)"
  let ?evs = "map (\<lambda>ev. (ev, 9)) (scenario demo_sha demo_source 1000 3)"
  have r: "reachable default_config ?t"
    using reachable.step [OF reachable.start, of "SetValidators (source_roster demo_source)"] by simp
  have g: "good_validators demo_source" by code_simp
  have "history_ok ?t" by (simp add: history_ok_def set_validators_def new_tracker_def default_config_def Let_def)
  from run_ops_returns [OF reachable_inv [OF r] this] obtain t' ks where
    run: "run_ops (replay demo_source (\<lambda>ev. 7) ?evs) ?t = Some (t', ks)" by blast
  have "\<And>s. length (demo_sha s) = 32" by (simp add: demo_sha_def)
  from replayed_height_verified [where n = 3 and h = 1000 and now = 10 and d = 0, OF this g _ _ r _ _ _ run] run show ?thesis
    by (auto simp: demo_source_def newest_height_def set_validators_def new_tracker_def Let_def comp_def)
qed

end
