(* ===== verification/Go_Format.thy ===== *)
theory Go_Format
  imports Float64 Decimal
begin

text \<open>
  The formatting verbs of Go's \<open>fmt\<close> that the terminal uses: fixed decimals, padding, and the text of a
  \<open>time.Duration\<close>.  Text is UTF-8, a character of the model is a byte.
\<close>

section \<open>Padding and decimals\<close>

definition pad_left :: "nat \<Rightarrow> string \<Rightarrow> string" where
  "pad_left n s = replicate (n - length s) (CHR '' '') @ s"

definition pad_right :: "nat \<Rightarrow> string \<Rightarrow> string" where
  "pad_right n s = s @ replicate (n - length s) (CHR '' '')"

definition zero_pad :: "nat \<Rightarrow> string \<Rightarrow> string" where
  "zero_pad n s = replicate (n - length s) (CHR ''0'') @ s"

text \<open>\<open>%.nf\<close>: the value rounded to \<open>n > 0\<close> decimals, half to even.\<close>

definition fixed :: "nat \<Rightarrow> rat \<Rightarrow> string" where
  "fixed n x =
     (let k = rne (x * 10 ^ n); m = nat \<bar>k\<bar>
      in (if x < 0 then ''-'' else '''') @ dec_nat (m div 10 ^ n) @ ''.'' @ zero_pad n (dec_nat (m mod 10 ^ n)))"

text \<open>\<open>strings.Join\<close>.\<close>

fun join_text :: "string \<Rightarrow> string list \<Rightarrow> string" where
  "join_text sep [] = []"
| "join_text sep [p] = p"
| "join_text sep (p # q # ps) = p @ sep @ join_text sep (q # ps)"

section \<open>Durations\<close>

text \<open>\<open>Duration.Round\<close>: half away from zero, saturating.\<close>

definition duration_round :: "duration \<Rightarrow> duration \<Rightarrow> duration" where
  "duration_round d m =
     (if m \<le> 0 then d
      else let r = \<bar>d\<bar> mod m
           in if d < 0
              then if r + r < m then i64 (d + r) else let d1 = i64 (d - m + r) in if d1 < d then d1 else int64_min
              else if r + r < m then d - r else let d1 = i64 (d + m - r) in if d1 > d then d1 else int64_max)"

text \<open>\<open>fmtFrac\<close>: the fraction of \<open>v / 10 ^ prec\<close> without trailing zeros, and the integer part.\<close>

fun strip_zeros :: "string \<Rightarrow> string" where
  "strip_zeros [] = []"
| "strip_zeros (c # s) = (let t = strip_zeros s in if t = [] \<and> c = CHR ''0'' then [] else c # t)"

definition frac_text :: "nat \<Rightarrow> nat \<Rightarrow> string" where
  "frac_text v prec =
     (let f = strip_zeros (zero_pad prec (dec_nat (v mod 10 ^ prec)))
      in if prec = 0 \<or> f = [] then [] else CHR ''.'' # f)"

definition micro_sign :: string where
  "micro_sign = map char_of [194, 181 :: nat]"

definition duration_string :: "duration \<Rightarrow> string" where
  "duration_string d =
     (let u = nat \<bar>d\<bar>; num = (\<lambda>prec. dec_nat (u div 10 ^ prec) @ frac_text u prec)
      in (if d < 0 then ''-'' else '''')
         @ (if u = 0 then ''0s''
            else if u < 1000 then num 0 @ ''ns''
            else if u < 1000000 then num 3 @ micro_sign @ ''s''
            else if u < 1000000000 then num 6 @ ''ms''
            else
              let secs = u div 1000000000; mins = secs div 60; hours = mins div 60
              in (if hours > 0 then dec_nat hours @ ''h'' else '''')
                 @ (if mins > 0 then dec_nat (mins mod 60) @ ''m'' else '''')
                 @ dec_nat (secs mod 60) @ frac_text u 9 @ ''s''))"

lemma length_pad_left: "length (pad_left n s) = max n (length s)"
  by (simp add: pad_left_def)

text \<open>Rounding moves a duration by at most half a unit.\<close>

lemma duration_round_near:
  assumes "0 < m" and "m \<le> int64_max" and "0 \<le> d" and "d + m \<le> int64_max"
  shows "m dvd duration_round d m" "2 * \<bar>duration_round d m - d\<bar> \<le> m"
proof -
  let ?r = "d mod m"
  have r: "0 \<le> ?r" "?r < m" using assms(1) by simp_all
  have i: "i64 (d + m - ?r) = d + m - ?r"
    using assms r by (intro i64_id) (auto simp: int64_min_def)
  have dv: "m dvd d - ?r" by (simp add: dvd_minus_mod)
  have "duration_round d m = (if ?r + ?r < m then d - ?r else d + m - ?r)"
    using assms r by (simp add: duration_round_def Let_def i)
  moreover have "m dvd d + m - ?r" using dv by (metis add_diff_eq diff_add_eq dvd_add_triv_right_iff)
  ultimately show "m dvd duration_round d m" "2 * \<bar>duration_round d m - d\<bar> \<le> m"
    using dv r by auto
qed

end
