(* ===== verification/Tui.thy ===== *)
theory Tui
  imports Go_Format Text_Search Detector Dash_State Config_Check
begin

text \<open>
  The terminal dashboard (\<open>internal/tui/tui.go\<close>): the keys, the throttled redraw, and what the panes show.
  The widget library (\<open>tview\<close>, \<open>uniseg\<close>) is a parameter: the escaping of its colour tags, the width of a
  text and its grapheme clusters, as is the clock text in the configured time zone.  A widget is the record
  of what was set on it.  Colours of cells are kept, other attributes are not.
\<close>

record tui_lib =
  tl_escape :: "string \<Rightarrow> string"
  tl_width :: "string \<Rightarrow> nat"
  tl_graphemes :: "string \<Rightarrow> string list"
  tl_clock :: "gtime \<Rightarrow> string"

record cell =
  ce_text :: string
  ce_color :: "string option"
  ce_ref :: "string option"

text \<open>The validator table: its data rows below the header, the selected row counted from the header, and
  the offset.\<close>

record table =
  tb_rows :: "cell list list"
  tb_selected :: nat
  tb_offset :: nat

record tui =
  ui_no_emoji :: bool
  ui_sort :: string
  ui_search :: string
  ui_paused :: bool
  ui_searching :: bool
  ui_displayed :: state_data
  ui_report :: report
  ui_chain :: string
  ui_div :: string
  ui_status :: string
  ui_table :: table
  ui_stopped :: bool

section \<open>Helpers\<close>

definition short :: "string \<Rightarrow> string" where
  "short s = (if length s > 12 then take 12 s else s)"

definition moniker :: "validator_with_vote \<Rightarrow> string" where
  "moniker v =
     (case row_chain v of
        Some c \<Rightarrow> if cv_moniker c \<noteq> '''' then cv_moniker c else short (va_address (row_validator v))
      | None \<Rightarrow> short (va_address (row_validator v)))"

definition utf8 :: "nat list \<Rightarrow> string" where
  "utf8 bs = map char_of bs"

definition middle_dot :: string where
  "middle_dot = utf8 [194, 183]"

definition vote_sym :: "vote \<Rightarrow> bool \<Rightarrow> string" where
  "vote_sym v no_emoji =
     (if no_emoji
      then case vo_kind v of VoteForBlock \<Rightarrow> ''X'' | VoteNil \<Rightarrow> middle_dot | VoteZero \<Rightarrow> ''0'' | VoteAbsent \<Rightarrow> '' ''
      else case vo_kind v of VoteForBlock \<Rightarrow> utf8 [226, 156, 133] | VoteNil \<Rightarrow> utf8 [226, 157, 140]
           | VoteZero \<Rightarrow> utf8 [240, 159, 164, 183] | VoteAbsent \<Rightarrow> '' '')"

text \<open>The clusters that fit in \<open>n - 1\<close> columns, then an ellipsis.\<close>

fun fit_clusters :: "(string \<Rightarrow> nat) \<Rightarrow> nat \<Rightarrow> nat \<Rightarrow> string list \<Rightarrow> string" where
  "fit_clusters width n used [] = []"
| "fit_clusters width n used (part # parts) =
     (if used + width part > n - 1 then [] else part @ fit_clusters width n (used + width part) parts)"

definition truncate_text :: "tui_lib \<Rightarrow> string \<Rightarrow> nat \<Rightarrow> string" where
  "truncate_text lib s n =
     (if tl_width lib s \<le> n then s else if n = 0 then ''''
      else fit_clusters (tl_width lib) n 0 (tl_graphemes lib s) @ utf8 [226, 128, 166])"

definition next_sort :: "string \<Rightarrow> string" where
  "next_sort s = (if s = ''power'' then ''moniker'' else if s = ''moniker'' then ''power'' else ''power'')"

definition step_names :: "string list" where
  "step_names = [''Waiting'', ''New height'', ''New round'', ''Propose'', ''Prevote'', ''Prevote wait'', ''Precommit'',
                 ''Precommit wait'', ''Commit'']"

definition step_name :: "int \<Rightarrow> string" where
  "step_name step = (if 0 \<le> step \<and> step < int (length step_names) then step_names ! nat step else ''Unknown'')"

section \<open>The chain pane\<close>

definition newline :: string where
  "newline = [CHR 0x0A]"

record precommit_power =
  pp_observed :: rat
  pp_nil :: rat
  pp_count :: nat
  pp_groups :: "(string, rat) gomap"

definition count_precommit :: "validator_with_vote \<Rightarrow> precommit_power \<Rightarrow> precommit_power" where
  "count_precommit v p =
     (let pct = va_pct (row_validator v); vote = rv_precommit (row_vote v); hash = vo_hash vote
      in if vo_kind vote = VoteForBlock
         then p\<lparr>pp_observed := f64_add (pp_observed p) pct, pp_count := pp_count p + 1,
                pp_groups := gput hash (f64_add (case map_of (pp_groups p) hash of None \<Rightarrow> 0 | Some x \<Rightarrow> x) pct)
                               (pp_groups p)\<rparr>
         else if vo_kind vote = VoteNil then p\<lparr>pp_nil := f64_add (pp_nil p) pct\<rparr> else p)"

definition precommit_power_of :: "validator_with_vote list \<Rightarrow> precommit_power" where
  "precommit_power_of rows =
     fold count_precommit rows \<lparr>pp_observed = 0, pp_nil = 0, pp_count = 0, pp_groups = []\<rparr>"

definition leading_power :: "precommit_power \<Rightarrow> rat" where
  "leading_power p = fold (\<lambda>(h, power) leading. if power > leading then power else leading) (pp_groups p) 0"

definition round_lines :: "round_view \<Rightarrow> string" where
  "round_lines rv =
     (let p = precommit_power_of (vw_rows rv)
      in ''precommit power: '' @ fixed 1 (pp_observed p) @ ''% ('' @ dec_nat (pp_count p) @ ''/''
         @ dec_nat (length (vw_rows rv)) @ '' validators)'' @ newline @ ''leading block: ''
         @ fixed 1 (leading_power p) @ ''% '' @ middle_dot @ '' nil: '' @ fixed 1 (pp_nil p) @ ''%'' @ newline)"

definition error_line :: "tui_lib \<Rightarrow> string \<Rightarrow> string option \<Rightarrow> string" where
  "error_line lib name e =
     (case e of None \<Rightarrow> '''' | Some m \<Rightarrow> ''[red]'' @ name @ '' error: '' @ tl_escape lib m @ ''[-]'' @ newline)"

definition render_chain :: "tui_lib \<Rightarrow> gtime \<Rightarrow> state_data \<Rightarrow> string" where
  "render_chain lib now s =
     (case sd_node_status s of None \<Rightarrow> ''''
      | Some ns \<Rightarrow> ''[white::b]'' @ tl_escape lib (ns_network ns) @ ''[-]  v'' @ tl_escape lib (ns_version ns) @ newline)
     @ ''active h=[yellow]'' @ format_int (sd_height s) @ ''[-]  r=[yellow]'' @ format_int (sd_round s) @ ''[-]  ''
     @ step_name (sd_step s) @ newline @ ''committed h='' @ format_int (sd_committed s) @ newline
     @ (if sd_start s \<noteq> 0
        then ''elapsed: '' @ duration_string (duration_round (time_sub now (sd_start s)) millisecond) @ newline else '''')
     @ (if sd_block_time s > 0
        then ''avg block time: '' @ duration_string (duration_round (sd_block_time s) millisecond) @ newline else '''')
     @ (case sd_upgrade s of None \<Rightarrow> ''''
        | Some u \<Rightarrow> ''[red]upgrade '' @ go_quote (tl_escape lib (up_name u)) @ '' at '' @ format_int (up_height u)
                   @ '' (in '' @ format_int (i64 (up_height u - sd_height s)) @ '' blocks)[-]'' @ newline)
     @ ''upstream: '' @ tl_escape lib (he_mode (sd_health s)) @ newline
     @ (if he_success_at (sd_health s) \<noteq> 0
        then ''last data: '' @ tl_clock lib (he_success_at (sd_health s)) @ newline else '''')
     @ (case sd_last_round s of None \<Rightarrow> '''' | Some rv \<Rightarrow> round_lines rv)
     @ error_line lib ''consensus'' (sd_consensus_error s) @ error_line lib ''validators'' (sd_validators_error s)"

section \<open>The validator table\<close>

definition power_lt :: "validator_with_vote \<Rightarrow> validator_with_vote \<Rightarrow> bool" where
  "power_lt a b = (va_power (row_validator a) > va_power (row_validator b))"

definition moniker_lt :: "validator_with_vote \<Rightarrow> validator_with_vote \<Rightarrow> bool" where
  "moniker_lt a b = (moniker a < moniker b)"

definition sort_rows :: "string \<Rightarrow> validator_with_vote list \<Rightarrow> validator_with_vote list" where
  "sort_rows mode rows =
     (if mode = ''power'' then sort_slice power_lt rows
      else if mode = ''moniker'' then sort_slice moniker_lt rows else rows)"

definition row_matches :: "string \<Rightarrow> validator_with_vote \<Rightarrow> bool" where
  "row_matches search v \<longleftrightarrow>
     contains_text search (to_lower (moniker v)) \<or> contains_text search (to_lower (va_address (row_validator v)))"

definition shown_rows :: "string \<Rightarrow> string \<Rightarrow> validator_with_vote list \<Rightarrow> validator_with_vote list" where
  "shown_rows mode search rows =
     (let sorted = sort_rows mode rows
      in if search \<noteq> '''' then filter (row_matches (to_lower search)) sorted else sorted)"

definition row_color :: "node_status option \<Rightarrow> validator_with_vote \<Rightarrow> string option" where
  "row_color ns v =
     (if rv_proposer (row_vote v) then Some ''forestgreen''
      else case ns of None \<Rightarrow> None
           | Some n \<Rightarrow> if va_address (row_validator v) = ns_our n then Some ''mediumturquoise'' else None)"

definition row_cells :: "tui_lib \<Rightarrow> bool \<Rightarrow> node_status option \<Rightarrow> validator_with_vote \<Rightarrow> cell list" where
  "row_cells lib no_emoji ns v =
     (let mon = (if rv_proposer (row_vote v)
                 then (if no_emoji then ''[P] '' else utf8 [240, 159, 145, 145, 32]) @ moniker v else moniker v);
          plain = (\<lambda>t. \<lparr>ce_text = t, ce_color = None, ce_ref = None\<rparr>)
      in [\<lparr>ce_text = pad_left 3 (format_int (i64 (va_index (row_validator v) + 1))),
           ce_color = (if rv_proposer (row_vote v) then Some ''forestgreen'' else None),
           ce_ref = Some (va_address (row_validator v))\<rparr>,
          \<lparr>ce_text = tl_escape lib (truncate_text lib mon 28), ce_color = row_color ns v, ce_ref = None\<rparr>,
          plain (pad_left 5 (fixed 2 (va_pct (row_validator v)))),
          plain (vote_sym (rv_prevote (row_vote v)) no_emoji), plain (vote_sym (rv_precommit (row_vote v)) no_emoji)])"

text \<open>The address the selection is on, read from the first cell of its row.\<close>

definition selected_address :: "table \<Rightarrow> string" where
  "selected_address tb =
     (if 0 < tb_selected tb \<and> tb_selected tb < length (tb_rows tb) + 1
      then case ce_ref (hd (tb_rows tb ! (tb_selected tb - 1))) of None \<Rightarrow> '''' | Some a \<Rightarrow> a
      else '''')"

text \<open>The loop over the rows moves the selection to each row of the selected address.\<close>

definition follow_selection :: "string \<Rightarrow> validator_with_vote list \<Rightarrow> nat \<Rightarrow> nat" where
  "follow_selection addr rows selected =
     fold (\<lambda>(i, v) sel. if va_address (row_validator v) = addr then i + 1 else sel) (enumerate 0 rows) selected"

definition render_validators :: "tui_lib \<Rightarrow> tui \<Rightarrow> state_data \<Rightarrow> table" where
  "render_validators lib u s =
     (let tb = ui_table u
      in case sd_last_round s of
           None \<Rightarrow> tb\<lparr>tb_rows := []\<rparr>
         | Some rv \<Rightarrow>
             let rows = shown_rows (ui_sort u) (ui_search u) (vw_rows rv);
                 sel = follow_selection (selected_address tb) rows (tb_selected tb)
             in tb\<lparr>tb_rows := map (row_cells lib (ui_no_emoji u) (sd_node_status s)) rows,
                  tb_selected := (if rows \<noteq> [] then max 1 (min sel (length rows)) else tb_selected tb),
                  tb_offset := min (tb_offset tb) (length rows - 1)\<rparr>)"

section \<open>Vote splits and the status bar\<close>

definition group_line :: "round_report \<Rightarrow> group \<Rightarrow> string" where
  "group_line r g =
     (let label = (if gr_hash g = '''' then ''<nil>'' else short (gr_hash g));
          color = (if rr_divergent r \<and> length (rr_groups r) > 1 \<and> gr_hash g \<noteq> gr_hash (hd (rr_groups r))
                      \<and> gr_hash g \<noteq> '''' then ''red'' else ''white'')
      in ''  ['' @ color @ ''] '' @ pad_right 12 label @ '' '' @ pad_left 5 (fixed 1 (gr_pct g)) @ ''%  (''
         @ format_int (gr_count g) @ '' v)[-]'' @ newline)"

definition history_line :: "round_report \<Rightarrow> string" where
  "history_line r =
     (let label = (if short (rr_canonical r) = '''' then ''?'' else short (rr_canonical r))
      in ''  h'' @ format_int (rr_height r) @ '' r'' @ format_int (rr_round r) @ '' '' @ vote_type_string (rr_type r)
         @ '' -> canonical '' @ label @ newline)"

definition render_divergence :: "report \<Rightarrow> string" where
  "render_divergence rep =
     (if rp_live rep = [] \<and> rp_history rep = [] then ''(waiting for votes...)'' @ newline else '''')
     @ concat (map (\<lambda>r. ''[white::b]h'' @ format_int (rr_height r) @ '' r'' @ format_int (rr_round r) @ '' ''
                     @ vote_type_string (rr_type r) @ ''[-]'' @ newline @ concat (map (group_line r) (rr_groups r)))
                (rp_live rep))
     @ (if rp_history rep \<noteq> []
        then newline @ ''[gray]recent divergent rounds:[-]'' @ newline
             @ concat (map history_line (take 5 (rev (rp_history rep)))) else '''')"

definition render_status :: "tui_lib \<Rightarrow> tui \<Rightarrow> state_data \<Rightarrow> string" where
  "render_status lib u s =
     join_text ''  ''
       ([''rpc='' @ short (sd_active_rpc s), ''sort='' @ ui_sort u]
        @ (if ui_search u \<noteq> '''' then [''search='' @ go_quote (tl_escape lib (ui_search u))] else [])
        @ (if ui_paused u then [''[yellow]PAUSED[-]''] else [])
        @ [''  [q]uit  [s]ort  [/] search  [p]ause''])"

section \<open>The event loop\<close>

text \<open>What the loop reads when it renders: the clock, the shared state, and the tracker if there is one.\<close>

record tui_input =
  ti_now :: gtime
  ti_state :: state_data
  ti_tracker :: "tracker option"

definition render :: "tui_lib \<Rightarrow> tui_input \<Rightarrow> tui \<Rightarrow> tui" where
  "render lib inp u =
     (let u1 = (if ui_paused u then u
                else u\<lparr>ui_displayed := snapshot (ti_state inp) (ti_now inp),
                       ui_report := (case ti_tracker inp of None \<Rightarrow> ui_report u | Some t \<Rightarrow> current_report t)\<rparr>);
          u2 = u1\<lparr>ui_chain := render_chain lib (ti_now inp) (ui_displayed u1)\<rparr>;
          u3 = u2\<lparr>ui_table := render_validators lib u2 (ui_displayed u2)\<rparr>;
          u4 = (if ti_tracker inp = None then u3 else u3\<lparr>ui_div := render_divergence (ui_report u3)\<rparr>)
      in u4\<lparr>ui_status := render_status lib u4 (ui_displayed u4)\<rparr>)"

datatype key = CtrlC | Escape | Rune char | OtherKey

text \<open>The key handler; the flag says that the key goes on to the focused widget.\<close>

definition handle_key :: "tui_lib \<Rightarrow> tui_input \<Rightarrow> key \<Rightarrow> tui \<Rightarrow> tui \<times> bool" where
  "handle_key lib inp k u =
     (if k = CtrlC then (u\<lparr>ui_stopped := True\<rparr>, False)
      else if ui_searching u then (u, True)
      else if k = Escape \<or> k = Rune (CHR ''q'') \<or> k = Rune (CHR ''Q'') then (u\<lparr>ui_stopped := True\<rparr>, False)
      else if k = Rune (CHR ''p'')
      then let u1 = u\<lparr>ui_paused := \<not> ui_paused u\<rparr>
           in (if ui_paused u1 then u1\<lparr>ui_status := render_status lib u1 (ui_displayed u1)\<rparr> else render lib inp u1, False)
      else if k = Rune (CHR ''s'') then (render lib inp (u\<lparr>ui_sort := next_sort (ui_sort u)\<rparr>), False)
      else if k = Rune (CHR ''/'') then (u\<lparr>ui_searching := True\<rparr>, False)
      else (u, True))"

text \<open>The end of the search prompt, with the text that was entered unless it was cancelled.\<close>

definition prompt_done :: "tui_lib \<Rightarrow> tui_input \<Rightarrow> string option \<Rightarrow> tui \<Rightarrow> tui" where
  "prompt_done lib inp entered u =
     render lib inp (u\<lparr>ui_search := (case entered of None \<Rightarrow> ui_search u | Some t \<Rightarrow> t), ui_searching := False\<rparr>)"

text \<open>A queued redraw when the event loop gets to it.\<close>

definition queued_redraw :: "tui_lib \<Rightarrow> tui_input \<Rightarrow> tui \<Rightarrow> tui" where
  "queued_redraw lib inp u = (if \<not> ui_paused u \<and> \<not> ui_searching u then render lib inp u else u)"

text \<open>The widget library moves the selection.\<close>

definition move_selection :: "nat \<Rightarrow> tui \<Rightarrow> tui" where
  "move_selection row u = u\<lparr>ui_table := (ui_table u)\<lparr>tb_selected := row\<rparr>\<rparr>"

definition new_tui :: "bool \<Rightarrow> state_data \<Rightarrow> tui" where
  "new_tui no_emoji zero =
     \<lparr>ui_no_emoji = no_emoji, ui_sort = ''power'', ui_search = '''', ui_paused = False, ui_searching = False,
      ui_displayed = zero, ui_report = \<lparr>rp_live = [], rp_history = []\<rparr>, ui_chain = '''', ui_div = '''',
      ui_status = '''', ui_table = \<lparr>tb_rows = [], tb_selected = 0, tb_offset = 0\<rparr>, ui_stopped = False\<rparr>"

datatype tui_op = Press key | PromptDone "string option" | Redraw | MoveTo nat

definition tui_step :: "tui_lib \<Rightarrow> tui_op \<times> tui_input \<Rightarrow> tui \<Rightarrow> tui" where
  "tui_step lib opi u =
     (case opi of (op, inp) \<Rightarrow>
        if ui_stopped u then u
        else case op of
          Press k \<Rightarrow> fst (handle_key lib inp k u)
        | PromptDone t \<Rightarrow> if ui_searching u then prompt_done lib inp t u else u
        | Redraw \<Rightarrow> queued_redraw lib inp u
        | MoveTo row \<Rightarrow> if ui_searching u then u else move_selection row u)"

definition run_tui :: "tui_lib \<Rightarrow> (tui_op \<times> tui_input) list \<Rightarrow> tui \<Rightarrow> tui" where
  "run_tui lib = fold (tui_step lib)"

text \<open>The goroutine that asks for redraws: dirty after an event, and at the latest every second.\<close>

record redrawer =
  rw_dirty :: bool
  rw_last :: gtime

definition redraw_event :: "redrawer \<Rightarrow> redrawer" where
  "redraw_event w = w\<lparr>rw_dirty := True\<rparr>"

definition redraw_tick :: "gtime \<Rightarrow> redrawer \<Rightarrow> redrawer \<times> bool" where
  "redraw_tick now w =
     (if rw_dirty w \<or> time_sub now (rw_last w) \<ge> second
      then (\<lparr>rw_dirty = False, rw_last = now\<rparr>, True) else (w, False))"

end
