(* ===== verification/Tui_Props.thy ===== *)
theory Tui_Props
  imports Tui
begin

text \<open>
  What the terminal promises: its table and status bar always show the displayed snapshot with the current
  sorting and search, a paused terminal keeps that snapshot, and the selection stays on its validator.
\<close>

section \<open>The rows that are shown\<close>

interpretation power_order: slice_less power_lt "\<lambda>v. - va_power (row_validator v)"
  by unfold_locales (simp add: power_lt_def)

interpretation moniker_order: slice_less moniker_lt moniker
  by unfold_locales (simp add: moniker_lt_def)

lemma mset_sort_rows [simp]: "mset (sort_rows mode rows) = mset rows"
  by (simp add: sort_rows_def)

lemma shown_rows_mset:
  "mset (shown_rows mode search rows)
     = filter_mset (\<lambda>v. search = '''' \<or> row_matches (to_lower search) v) (mset rows)"
  by (simp add: shown_rows_def Let_def)

lemma shown_rows_sorted: "sorted_wrt (\<lambda>a b. va_power (row_validator b) \<le> va_power (row_validator a)) (shown_rows ''power'' search rows)"
proof -
  have "sorted (map (\<lambda>v. - va_power (row_validator v)) (sort_rows ''power'' rows))"
    using power_order.sorted_result by (simp add: sort_rows_def)
  then have "sorted_wrt (\<lambda>a b. va_power (row_validator b) \<le> va_power (row_validator a)) (sort_rows ''power'' rows)"
    by (simp add: sorted_map)
  then show ?thesis by (simp add: shown_rows_def Let_def sorted_wrt_filter)
qed

section \<open>The selection\<close>

abbreviation row_address :: "validator_with_vote \<Rightarrow> string" where
  "row_address v \<equiv> va_address (row_validator v)"

lemma follow_from:
  "distinct (map row_address rows) \<Longrightarrow> i < length rows \<Longrightarrow> row_address (rows ! i) = a \<Longrightarrow>
     fold (\<lambda>(i, v) sel. if row_address v = a then i + 1 else sel) (enumerate k rows) sel = k + i + 1"
proof (induction rows arbitrary: k i sel)
  case (Cons v rows)
  show ?case
  proof (cases i)
    case 0
    then have a: "row_address v = a" "a \<notin> row_address ` set rows" using Cons.prems by auto
    have "fold (\<lambda>(i, v) sel. if row_address v = a then i + 1 else sel) (enumerate k' rows) s = s" for k' s
      using a(2) by (induction rows arbitrary: k' s) auto
    with a 0 show ?thesis by simp
  next
    case (Suc j)
    have "fold (\<lambda>(i, v) sel. if row_address v = a then i + 1 else sel) (enumerate (Suc k) rows) s = Suc k + j + 1" for s
      by (rule Cons.IH) (use Cons.prems Suc in simp_all)
    with Suc show ?thesis by (simp split: if_split)
  qed
qed simp

lemma row_cells_ref: "ce_ref (hd (row_cells lib e ns v)) = Some (row_address v)"
  by (simp add: row_cells_def Let_def)


section \<open>Runs of the terminal\<close>

definition shown_cells :: "tui_lib \<Rightarrow> bool \<Rightarrow> string \<Rightarrow> string \<Rightarrow> state_data \<Rightarrow> cell list list" where
  "shown_cells lib no_emoji mode search s =
     (case sd_last_round s of None \<Rightarrow> []
      | Some rv \<Rightarrow> map (row_cells lib no_emoji (sd_node_status s)) (shown_rows mode search (vw_rows rv)))"

definition shows_displayed :: "tui_lib \<Rightarrow> tui \<Rightarrow> bool" where
  "shows_displayed lib u \<longleftrightarrow>
     tb_rows (ui_table u) = shown_cells lib (ui_no_emoji u) (ui_sort u) (ui_search u) (ui_displayed u)
     \<and> ui_status u = render_status lib u (ui_displayed u)"

lemma render_status_cong:
  "ui_sort u = ui_sort u' \<Longrightarrow> ui_search u = ui_search u' \<Longrightarrow> ui_paused u = ui_paused u'
     \<Longrightarrow> render_status lib u s = render_status lib u' s"
  by (simp add: render_status_def)

lemma render_validators_rows:
  "tb_rows (render_validators lib u s) = shown_cells lib (ui_no_emoji u) (ui_sort u) (ui_search u) s"
  by (simp add: render_validators_def shown_cells_def Let_def split: option.split)

lemma render_sel [simp]:
  "ui_sort (render lib inp u) = ui_sort u" "ui_search (render lib inp u) = ui_search u"
  "ui_paused (render lib inp u) = ui_paused u" "ui_searching (render lib inp u) = ui_searching u"
  "ui_no_emoji (render lib inp u) = ui_no_emoji u" "ui_stopped (render lib inp u) = ui_stopped u"
  "ui_displayed (render lib inp u) = (if ui_paused u then ui_displayed u else snapshot (ti_state inp) (ti_now inp))"
  "ui_paused u \<Longrightarrow> ui_report (render lib inp u) = ui_report u"
  by (simp_all add: render_def Let_def)

lemma render_shows: "shows_displayed lib (render lib inp u)"
  unfolding shows_displayed_def
  by (simp add: render_def Let_def render_validators_rows) (auto intro!: render_status_cong)

lemma tui_step_shows:
  assumes "shows_displayed lib u"
  shows "shows_displayed lib (tui_step lib opi u)"
proof -
  have status: "shows_displayed lib (u\<lparr>ui_stopped := b\<rparr>)" "shows_displayed lib (u\<lparr>ui_searching := b\<rparr>)"
    "shows_displayed lib (move_selection n u)"
    "shows_displayed lib (u\<lparr>ui_paused := True, ui_status := render_status lib (u\<lparr>ui_paused := True\<rparr>) (ui_displayed u)\<rparr>)" for b n
    using assms by (auto simp: shows_displayed_def move_selection_def intro!: render_status_cong)
  obtain op inp where opi: "opi = (op, inp)" by fastforce
  show ?thesis
    using assms status render_shows
    by (cases op) (auto simp: tui_step_def opi handle_key_def prompt_done_def queued_redraw_def Let_def)
qed

lemma run_tui_shows: "shows_displayed lib u \<Longrightarrow> shows_displayed lib (run_tui lib ops u)"
  unfolding run_tui_def by (induction ops arbitrary: u) (simp_all add: tui_step_shows)

definition resumes :: "tui_op \<times> tui_input \<Rightarrow> bool" where
  "resumes opi \<longleftrightarrow> fst opi = Press (Rune (CHR ''p''))"

lemma tui_step_frozen:
  assumes "ui_paused u" and "\<not> resumes opi"
  shows "ui_paused (tui_step lib opi u)" "ui_displayed (tui_step lib opi u) = ui_displayed u"
    "ui_report (tui_step lib opi u) = ui_report u"
proof -
  obtain op inp where opi: "opi = (op, inp)" by fastforce
  have "ui_paused (tui_step lib opi u) \<and> ui_displayed (tui_step lib opi u) = ui_displayed u
      \<and> ui_report (tui_step lib opi u) = ui_report u"
    using assms by (cases op) (auto simp: tui_step_def opi handle_key_def prompt_done_def queued_redraw_def
        move_selection_def resumes_def Let_def)
  then show "ui_paused (tui_step lib opi u)" "ui_displayed (tui_step lib opi u) = ui_displayed u"
    "ui_report (tui_step lib opi u) = ui_report u" by simp_all
qed

text \<open>C35: the terminal shows its snapshot.  After any run of keys, prompts, queued redraws and cursor moves
  the table and the status bar show the displayed snapshot in the current order and search; and while the
  terminal is paused that snapshot and its report stay the same, whatever happens to the monitored state.\<close>

theorem terminal_shows_snapshot:
  assumes "u = run_tui lib ops (render lib i0 (new_tui no_emoji zero))"
  shows "shows_displayed lib u
       \<and> (ui_paused u \<and> list_all (\<lambda>opi. \<not> resumes opi) later \<longrightarrow>
            ui_displayed (run_tui lib later u) = ui_displayed u \<and> ui_report (run_tui lib later u) = ui_report u
            \<and> shows_displayed lib (run_tui lib later u))"
proof -
  have s: "shows_displayed lib u" unfolding assms by (rule run_tui_shows [OF render_shows])
  have "ui_displayed (run_tui lib later w) = ui_displayed w \<and> ui_report (run_tui lib later w) = ui_report w"
    if "ui_paused w" "list_all (\<lambda>opi. \<not> resumes opi) later" for w
    using that
    by (induction later arbitrary: w) (simp_all add: run_tui_def tui_step_frozen)
  with s run_tui_shows [OF s] show ?thesis by blast
qed

section \<open>A small terminal\<close>

definition plain_lib :: tui_lib where
  "plain_lib = \<lparr>tl_escape = (\<lambda>s. s), tl_width = length, tl_graphemes = map (\<lambda>c. [c]), tl_clock = (\<lambda>t. '''')\<rparr>"

definition shown_row :: "string \<Rightarrow> int \<Rightarrow> validator_with_vote" where
  "shown_row a p = \<lparr>row_validator = \<lparr>va_address = a, va_index = 0, va_power = p, va_pct = 50\<rparr>,
                   row_vote = zero_round_vote, row_chain = None\<rparr>"

definition shown_state :: "int \<Rightarrow> state_data" where
  "shown_state p = (new_state 5 5)\<lparr>sd_last_round :=
     Some \<lparr>vw_round = 0, vw_rows = [shown_row ''A1'' 10, shown_row ''B2'' p], vw_total = 10 + p\<rparr>\<rparr>"

definition shown_input :: "int \<Rightarrow> tui_input" where
  "shown_input p = \<lparr>ti_now = 7, ti_state = shown_state p, ti_tracker = None\<rparr>"

lemma shown_snapshot: "sd_last_round (snapshot (shown_state p) n)
    = Some \<lparr>vw_round = 0, vw_rows = [shown_row ''A1'' 10, shown_row ''B2'' p], vw_total = 10 + p\<rparr>"
  by (simp add: snapshot_def shown_state_def)

lemma shown_sorted: "shown_rows ''power'' '''' [shown_row ''A1'' 10, shown_row ''B2'' p]
    = (if p > 10 then [shown_row ''B2'' p, shown_row ''A1'' 10] else [shown_row ''A1'' 10, shown_row ''B2'' p])"
  by (simp add: shown_rows_def sort_rows_def sort_slice_def power_lt_def shown_row_def)


theorem terminal_shows_snapshot_witness:
  "\<exists>u. u = run_tui plain_lib [(Press (Rune (CHR ''p'')), shown_input 5)]
             (render plain_lib (shown_input 5) (new_tui True (new_state 1 1)))
     \<and> ui_paused u \<and> ui_displayed (run_tui plain_lib [(Redraw, shown_input 20), (MoveTo 2, shown_input 20)] u) = ui_displayed u"
proof -
  let ?u = "run_tui plain_lib [(Press (Rune (CHR ''p'')), shown_input 5)]
             (render plain_lib (shown_input 5) (new_tui True (new_state 1 1)))"
  have "ui_paused ?u"
    by (simp add: run_tui_def tui_step_def handle_key_def Let_def new_tui_def)
  with terminal_shows_snapshot [of ?u plain_lib _ "shown_input 5" True "new_state 1 1"
      "[(Redraw, shown_input 20), (MoveTo 2, shown_input 20)]"]
  show ?thesis by (auto simp: resumes_def)
qed

end
