(* ===== verification/Launch.thy ===== *)
theory Launch
  imports Ingest_Props Web_Api Log_Ring
begin

text \<open>
  The program itself (\<open>cmd/cmt-top/main.go\<close>, with \<open>Load\<close> of \<open>internal/config/config.go\<close> and the logger of
  \<open>internal/obs/log.go\<close>): where each option comes from, what is started, and how the process ends.  The
  command line arrives as cobra has parsed it, \<open>None\<close> for a flag that was not given and has no empty value;
  the file system and the TOML decoder are parameters.
\<close>

section \<open>The configuration file\<close>

text \<open>\<open>filepath.Clean\<close>: the elements of a path, innermost first, without dots and empty elements.\<close>

fun clean_elements :: "bool \<Rightarrow> string list \<Rightarrow> string list \<Rightarrow> string list" where
  "clean_elements rooted acc [] = acc"
| "clean_elements rooted acc (p # ps) =
     (if p = '''' \<or> p = ''.'' then clean_elements rooted acc ps
      else if p \<noteq> ''..'' then clean_elements rooted (p # acc) ps
      else case acc of
             q # qs \<Rightarrow> clean_elements rooted (if q = ''..'' then p # acc else qs) ps
           | [] \<Rightarrow> clean_elements rooted (if rooted then [] else [p]) ps)"

definition clean_path :: "string \<Rightarrow> string" where
  "clean_path s =
     (let rooted = prefix ''/'' s; body = join_on CHR ''/'' (rev (clean_elements rooted [] (split_on CHR ''/'' s)))
      in if rooted then CHR ''/'' # body else if body = '''' then ''.'' else body)"

definition path_join :: "string list \<Rightarrow> string" where
  "path_join es = (case dropWhile (\<lambda>e. e = '''') es of [] \<Rightarrow> '''' | fs \<Rightarrow> clean_path (join_on CHR ''/'' fs))"

text \<open>
  \<open>fs_stat\<close> gives the error of \<open>os.Stat\<close>, with whether it says that the file does not exist; \<open>fs_decode\<close> the
  configuration the file makes of one, with the keys it did not use.
\<close>

record files =
  fs_home :: "string option"
  fs_stat :: "string \<Rightarrow> (bool \<times> string) option"
  fs_decode :: "string \<Rightarrow> app_config \<Rightarrow> string + app_config \<times> string list"

definition default_path :: "files \<Rightarrow> (string \<Rightarrow> string) \<Rightarrow> string" where
  "default_path fs env =
     (if env ''XDG_CONFIG_HOME'' \<noteq> '''' then path_join [env ''XDG_CONFIG_HOME'', ''cmt-top'', ''config.toml'']
      else case fs_home fs of Some h \<Rightarrow> path_join [h, ''.config'', ''cmt-top'', ''config.toml''] | None \<Rightarrow> '''')"

definition read_file :: "files \<Rightarrow> bool \<Rightarrow> string \<Rightarrow> app_config \<Rightarrow> string + app_config" where
  "read_file fs explicit path c =
     (case fs_stat fs path of
        None \<Rightarrow>
          (case fs_decode fs path c of
             Inl err \<Rightarrow> Inl (''decode '' @ path @ '': '' @ err)
           | Inr (c', keys) \<Rightarrow>
               (case keys of
                  [] \<Rightarrow> Inr c'
                | k # _ \<Rightarrow> Inl (''unknown configuration key '' @ go_quote k @ '' in '' @ path)))
      | Some (absent, err) \<Rightarrow> if explicit \<or> \<not> absent then Inl (''stat '' @ path @ '': '' @ err) else Inr c)"

definition file_config :: "files \<Rightarrow> (string \<Rightarrow> string) \<Rightarrow> string \<Rightarrow> string + app_config" where
  "file_config fs env given =
     (let path = (if given = [] then default_path fs env else given)
      in if path = [] then Inr config_defaults else read_file fs (given \<noteq> []) path config_defaults)"

definition load_config :: "files \<Rightarrow> (string \<Rightarrow> string) \<Rightarrow> string \<Rightarrow> string + app_config" where
  "load_config fs env given =
     (case file_config fs env given of Inl err \<Rightarrow> Inl err | Inr c \<Rightarrow> apply_env env c)"

section \<open>The command line\<close>

record command_line =
  cl_arg :: "string option"
  cl_config :: string
  cl_print :: bool
  cl_rpcs :: "string list"
  cl_lcd :: string
  cl_monitored :: "string list"
  cl_mode :: string
  cl_listen :: string
  cl_max_clients :: "int option"
  cl_token :: string
  cl_metrics :: string
  cl_level :: string
  cl_bech32 :: string
  cl_threshold :: "float_value option"

definition if_given :: "string \<Rightarrow> (string \<Rightarrow> app_config \<Rightarrow> app_config) \<Rightarrow> app_config \<Rightarrow> app_config" where
  "if_given s f c = (if s = '''' then c else f s c)"

definition set_rpcs :: "rpc_entry list \<Rightarrow> app_config \<Rightarrow> app_config" where
  "set_rpcs rs = on_chain (\<lambda>h. h\<lparr>ch_rpcs := rs\<rparr>)"

text \<open>The first URL of \<open>--rpc\<close> is the primary endpoint.\<close>

definition rpc_flags :: "string list \<Rightarrow> rpc_entry list" where
  "rpc_flags us = map (\<lambda>(i, u). \<lparr>rpc_url = u, rpc_primary = (i = 0)\<rparr>) (enumerate 0 us)"

definition set_mode :: "string \<Rightarrow> app_config \<Rightarrow> app_config" where
  "set_mode m c = c\<lparr>ac_ui := (ac_ui c)\<lparr>ui_mode := m\<rparr>\<rparr>"

definition on_obs :: "(obs_config \<Rightarrow> obs_config) \<Rightarrow> app_config \<Rightarrow> app_config" where
  "on_obs f c = c\<lparr>ac_obs := f (ac_obs c)\<rparr>"

definition apply_flags :: "command_line \<Rightarrow> app_config \<Rightarrow> app_config" where
  "apply_flags cl c0 =
     (let c1 = (case cl_arg cl of None \<Rightarrow> c0
                | Some u \<Rightarrow> if_given u (\<lambda>u. set_rpcs [\<lparr>rpc_url = u, rpc_primary = True\<rparr>]) c0);
          c2 = (if cl_rpcs cl = [] then c1 else set_rpcs (rpc_flags (cl_rpcs cl)) c1);
          c3 = if_given (cl_lcd cl) (\<lambda>v. on_chain (\<lambda>h. h\<lparr>ch_lcd := v\<rparr>)) c2;
          c4 = (if cl_monitored cl = [] then c3 else on_chain (\<lambda>h. h\<lparr>ch_monitored := cl_monitored cl\<rparr>) c3);
          c5 = if_given (cl_mode cl) set_mode c4;
          c6 = if_given (cl_listen cl) (\<lambda>v. on_web (\<lambda>w. w\<lparr>we_listen := v\<rparr>)) c5;
          c7 = (case cl_max_clients cl of None \<Rightarrow> c6 | Some n \<Rightarrow> on_web (\<lambda>w. w\<lparr>we_max_clients := n\<rparr>) c6);
          c8 = if_given (cl_token cl) (\<lambda>v. on_web (\<lambda>w. w\<lparr>we_token := v\<rparr>)) c7;
          c9 = if_given (cl_metrics cl) (\<lambda>v. on_obs (\<lambda>b. b\<lparr>ob_listen := v\<rparr>)) c8;
          c10 = if_given (cl_level cl) (\<lambda>v. on_obs (\<lambda>b. b\<lparr>ob_level := v\<rparr>)) c9;
          c11 = if_given (cl_bech32 cl) (\<lambda>v. on_chain (\<lambda>h. h\<lparr>ch_prefix := v\<rparr>)) c10
      in case cl_threshold cl of None \<Rightarrow> c11
         | Some q \<Rightarrow> c11\<lparr>ac_divergence := (ac_divergence c11)\<lparr>dc_threshold := q\<rparr>\<rparr>)"

text \<open>What the command does with its configuration: an error, the printed configuration, or a run.\<close>

datatype action = Prints app_config | Runs app_config

definition root_command :: "text_parsers \<Rightarrow> files \<Rightarrow> (string \<Rightarrow> string) \<Rightarrow> command_line \<Rightarrow> string + action" where
  "root_command tp fs env cl =
     (case load_config fs env (cl_config cl) of
        Inl err \<Rightarrow> Inl err
      | Inr c0 \<Rightarrow>
          let c = apply_flags cl c0
          in if cl_print cl then Inr (Prints c)
             else case validate tp c of Some err \<Rightarrow> Inl err | None \<Rightarrow> Inr (Runs c))"

section \<open>The logger\<close>

text \<open>The levels of \<open>slog\<close>: Debug \<open>-4\<close>, Info \<open>0\<close>, Warn \<open>4\<close>, Error \<open>8\<close>.\<close>

definition parse_level :: "string \<Rightarrow> int" where
  "parse_level s =
     (let l = to_lower s in if l = ''debug'' then -4 else if l = ''warn'' then 4 else if l = ''error'' then 8 else 0)"

definition json_format :: "string \<Rightarrow> bool" where
  "json_format s \<longleftrightarrow> to_lower s = ''json''"

definition level_text :: "int \<Rightarrow> string" where
  "level_text l =
     (let str = \<lambda>base val. if val = 0 then base else base @ (if val < 0 then '''' else ''+'') @ format_int val
      in if l < 0 then str ''DEBUG'' (l + 4) else if l < 4 then str ''INFO'' l
         else if l < 8 then str ''WARN'' (l - 4) else str ''ERROR'' (l - 8))"

record log_record =
  lr_time :: gtime
  lr_level :: int
  lr_msg :: string
  lr_attrs :: "(string \<times> string) list"

record log_line =
  ll_time :: gtime
  ll_level :: string
  ll_msg :: string
  ll_attrs :: "(string, string) gomap"

text \<open>The attributes of the record with the text of their values; those of the logger are not in the record.\<close>

definition collect_attrs :: "log_record \<Rightarrow> (string, string) gomap" where
  "collect_attrs r = fold (\<lambda>(k, v). gput k v) (lr_attrs r) []"

definition log_line_of :: "log_record \<Rightarrow> log_line" where
  "log_line_of r =
     \<lparr>ll_time = lr_time r, ll_level = level_text (lr_level r), ll_msg = lr_msg r, ll_attrs = collect_attrs r\<rparr>"

record tee =
  te_level :: int
  te_ring :: "log_line ring"
  te_primary :: "log_record list"

definition blank_line :: log_line where
  "blank_line = \<lparr>ll_time = 0, ll_level = '''', ll_msg = '''', ll_attrs = []\<rparr>"

definition setup_logs :: "int \<Rightarrow> tee" where
  "setup_logs level = \<lparr>te_level = level, te_ring = new_ring blank_line 512, te_primary = []\<rparr>"

definition tee_enabled :: "tee \<Rightarrow> int \<Rightarrow> bool" where
  "tee_enabled te l \<longleftrightarrow> te_level te \<le> l"

definition tee_handle :: "log_record \<Rightarrow> tee \<Rightarrow> tee" where
  "tee_handle r te = te\<lparr>te_ring := push (log_line_of r) (te_ring te), te_primary := te_primary te @ [r]\<rparr>"

text \<open>A call of the logger: \<open>slog\<close> asks the handler first.\<close>

definition log_call :: "log_record \<Rightarrow> tee \<Rightarrow> tee" where
  "log_call r te = (if tee_enabled te (lr_level r) then tee_handle r te else te)"

lemma log_calls:
  "te_ring (fold log_call rs te) = fold push (map log_line_of (filter (\<lambda>r. tee_enabled te (lr_level r)) rs)) (te_ring te)"
proof (induction rs arbitrary: te)
  case (Cons r rs)
  show ?case by (simp add: Cons.IH) (simp add: log_call_def tee_handle_def tee_enabled_def)
qed simp

text \<open>The ring holds the newest lines the level lets through.\<close>

lemma recent_log:
  "ring_snapshot (te_ring (fold log_call rs (setup_logs level)))
     = (let ls = map log_line_of (filter (\<lambda>r. level \<le> lr_level r) rs) in drop (length ls - 512) ls)"
  unfolding log_calls setup_logs_def tee.select_convs pushes_newest tee_enabled_def by (simp add: Let_def)

section \<open>Wiring\<close>

definition web_options_of :: "string \<Rightarrow> app_config \<Rightarrow> web_options" where
  "web_options_of version c =
     (let web = ui_web (ac_ui c)
      in \<lparr>wo_max_clients = we_max_clients web, wo_rate_limit = we_rate_limit web, wo_token = we_token web,
          wo_cors = we_cors web, wo_name = ch_name (ac_chain c), wo_explorer = ch_explorer (ac_chain c),
          wo_version = version\<rparr>)"

text \<open>When the web server says that it is ready.\<close>

definition ready :: "state_data \<Rightarrow> bool" where
  "ready s \<longleftrightarrow> sd_last_round s \<noteq> None \<and> sd_node_status s \<noteq> None"

definition metrics_service :: "app_config \<Rightarrow> (string \<times> string) list" where
  "metrics_service c = (if ob_listen (ac_obs c) = '''' then [] else [(''metrics'', ob_listen (ac_obs c))])"

definition web_service :: "app_config \<Rightarrow> (string \<times> string) list" where
  "web_service c =
     (let mode = to_lower (ui_mode (ac_ui c)); web = ui_web (ac_ui c)
      in if (mode = ''web'' \<or> mode = ''both'') \<and> \<not> we_disabled web then [(''web'', we_listen web)] else [])"

definition terminal_shown :: "app_config \<Rightarrow> bool" where
  "terminal_shown c \<longleftrightarrow> to_lower (ui_mode (ac_ui c)) \<in> {''tui'', ''both''}"

section \<open>The process\<close>

text \<open>
  \<open>pr_failures\<close> is the channel of three; a service's goroutine sends its failure and then cancels the
  context, \<open>pr_cancelling\<close> counts those between the two.  \<open>pr_exit\<close> is what \<open>run\<close> returned.  The ghosts
  \<open>pr_interrupted\<close> and \<open>pr_ui_ended\<close> say that the user's signal came and what the terminal returned.
\<close>

record process =
  pr_cfg :: app_config
  pr_tee :: tee
  pr_serving :: "(string \<times> string) list"
  pr_failures :: "string list"
  pr_cancelling :: nat
  pr_done :: bool
  pr_exit :: "string option option"
  pr_interrupted :: bool
  pr_ui_ended :: "string option option"

definition new_process :: "app_config \<Rightarrow> process" where
  "new_process c =
     \<lparr>pr_cfg = c, pr_tee = setup_logs (parse_level (ob_level (ac_obs c))),
      pr_serving = metrics_service c @ web_service c, pr_failures = [], pr_cancelling = 0, pr_done = False,
      pr_exit = None, pr_interrupted = False, pr_ui_ended = None\<rparr>"

text \<open>The program up to its services: the command, the state and the bus, and the orchestrator.  The clock is
  read three times.\<close>

definition launch ::
  "text_parsers \<Rightarrow> (string \<Rightarrow> string + 'b) \<Rightarrow> files \<Rightarrow> (string \<Rightarrow> string) \<Rightarrow> command_line
     \<Rightarrow> gtime \<times> gtime \<times> gtime \<Rightarrow> string + ('b started \<times> process) option" where
  "launch tp init fs env cl clock =
     (case root_command tp fs env cl of
        Inl err \<Rightarrow> Inl err
      | Inr (Prints c) \<Rightarrow> Inr None
      | Inr (Runs c) \<Rightarrow>
          (case start init c (new_bus 512) (new_state (fst clock) (fst (snd clock))) (snd (snd clock)) of
             Inl err \<Rightarrow> Inl (''orchestrator: '' @ err)
           | Inr s \<Rightarrow> Inr (Some (s, new_process c))))"

text \<open>The last \<open>select\<close> of \<open>run\<close>: the first failure, if one is in the channel.\<close>

definition collect_failure :: "process \<Rightarrow> process" where
  "collect_failure p = p\<lparr>pr_exit := Some (case pr_failures p of [] \<Rightarrow> None | e # _ \<Rightarrow> Some e)\<rparr>"

text \<open>A service's goroutine after \<open>serve\<close> returned; \<open>None\<close> while the channel has no room for its failure.\<close>

definition service_ended :: "string \<Rightarrow> string option \<Rightarrow> process \<Rightarrow> process option" where
  "service_ended name result p =
     (case result of
        None \<Rightarrow> Some p
      | Some err \<Rightarrow>
          map_option (\<lambda>fs. p\<lparr>pr_failures := fs, pr_cancelling := pr_cancelling p + 1\<rparr>)
            (chan_send 3 (name @ '': '' @ err) (pr_failures p)))"

definition terminal_ended :: "string option \<Rightarrow> process \<Rightarrow> process" where
  "terminal_ended result p =
     (let q = p\<lparr>pr_ui_ended := Some result\<rparr>
      in case result of Some err \<Rightarrow> q\<lparr>pr_exit := Some (Some err)\<rparr> | None \<Rightarrow> collect_failure q)"

datatype process_op =
  ServiceEnds string "string option"
| Cancels
| Interrupt
| TerminalEnds "string option"
| ContextDone
| LogLine log_record

fun process_step :: "process_op \<Rightarrow> process \<Rightarrow> process" where
  "process_step (ServiceEnds name result) p =
     (if name \<in> fst ` set (pr_serving p)
      then (case service_ended name result p of
              None \<Rightarrow> p
            | Some q \<Rightarrow> q\<lparr>pr_serving := filter (\<lambda>s. fst s \<noteq> name) (pr_serving p)\<rparr>)
      else p)"
| "process_step Cancels p =
     (if pr_cancelling p = 0 then p else p\<lparr>pr_cancelling := pr_cancelling p - 1, pr_done := True\<rparr>)"
| "process_step Interrupt p = p\<lparr>pr_done := True, pr_interrupted := True\<rparr>"
| "process_step (TerminalEnds result) p = (if terminal_shown (pr_cfg p) then terminal_ended result p else p)"
| "process_step ContextDone p =
     (if \<not> terminal_shown (pr_cfg p) \<and> pr_done p then collect_failure p else p)"
| "process_step (LogLine r) p = p\<lparr>pr_tee := log_call r (pr_tee p)\<rparr>"

text \<open>Once \<open>run\<close> has returned the process is gone.\<close>

fun run_process :: "process_op list \<Rightarrow> process \<Rightarrow> process" where
  "run_process [] p = p"
| "run_process (x # xs) p = (if pr_exit p \<noteq> None then p else run_process xs (process_step x p))"

end
