(* ===== verification/Launch_Props.thy ===== *)
theory Launch_Props
  imports Launch Config_Props
begin

text \<open>
  What the program promises from its command line to its exit: each option comes from the place with the
  highest precedence, only a validated configuration is run, and a service that fails is not hidden.
\<close>

section \<open>Precedence\<close>

definition config_of :: "action \<Rightarrow> app_config" where
  "config_of act = (case act of Prints c \<Rightarrow> c | Runs c \<Rightarrow> c)"

text \<open>The value of an option with a text: the flag, the variable or what the file says.\<close>

definition pick_text :: "(string \<Rightarrow> string) \<Rightarrow> string \<Rightarrow> string \<Rightarrow> string \<Rightarrow> string" where
  "pick_text env flag var file = (if flag \<noteq> '''' then flag else if env var \<noteq> '''' then env var else file)"

lemma set_env_outer [simp]:
  "ac_refresh (set_env env n (\<lambda>v. on_web (w v)) c) = ac_refresh c"
  "ac_divergence (set_env env n (\<lambda>v. on_web (w v)) c) = ac_divergence c"
  "ac_chain (set_env env n (\<lambda>v. on_web (w v)) c) = ac_chain c"
  "ac_obs (set_env env n (\<lambda>v. on_web (w v)) c) = ac_obs c"
  "ui_mode (ac_ui (set_env env n (\<lambda>v. on_web (w v)) c)) = ui_mode (ac_ui c)"
  "ac_refresh (set_env env n (\<lambda>v. on_chain (h v)) c) = ac_refresh c"
  "ac_divergence (set_env env n (\<lambda>v. on_chain (h v)) c) = ac_divergence c"
  "ac_obs (set_env env n (\<lambda>v. on_chain (h v)) c) = ac_obs c"
  "ac_ui (set_env env n (\<lambda>v. on_chain (h v)) c) = ac_ui c"
  by (simp_all add: set_env_def on_web_def on_chain_def)

lemma set_env_other [simp]:
  "ac_refresh (set_env env n (\<lambda>v c. c\<lparr>ac_obs := b v c\<rparr>) c) = ac_refresh c"
  "ac_divergence (set_env env n (\<lambda>v c. c\<lparr>ac_obs := b v c\<rparr>) c) = ac_divergence c"
  "ac_chain (set_env env n (\<lambda>v c. c\<lparr>ac_obs := b v c\<rparr>) c) = ac_chain c"
  "ac_ui (set_env env n (\<lambda>v c. c\<lparr>ac_obs := b v c\<rparr>) c) = ac_ui c"
  "ac_refresh (set_env env n (\<lambda>v c. c\<lparr>ac_ui := u v c\<rparr>) c) = ac_refresh c"
  "ac_divergence (set_env env n (\<lambda>v c. c\<lparr>ac_ui := u v c\<rparr>) c) = ac_divergence c"
  "ac_chain (set_env env n (\<lambda>v c. c\<lparr>ac_ui := u v c\<rparr>) c) = ac_chain c"
  "ac_obs (set_env env n (\<lambda>v c. c\<lparr>ac_ui := u v c\<rparr>) c) = ac_obs c"
  by (simp_all add: set_env_def)

lemma set_env_chain [simp]:
  "ch_rpcs (ac_chain (set_env env n (\<lambda>v. on_chain (\<lambda>h. h\<lparr>ch_rpcs := [\<lparr>rpc_url = v, rpc_primary = True\<rparr>]\<rparr>)) c)) = (if env n = [] then ch_rpcs (ac_chain c) else [\<lparr>rpc_url = env n, rpc_primary = True\<rparr>])"
  "ch_rpcs (ac_chain (set_env env n (\<lambda>v. on_chain (\<lambda>h. h\<lparr>ch_lcd := v\<rparr>)) c)) = ch_rpcs (ac_chain c)"
  "ch_rpcs (ac_chain (set_env env n (\<lambda>v. on_chain (\<lambda>h. h\<lparr>ch_monitored := split_csv v\<rparr>)) c)) = ch_rpcs (ac_chain c)"
  "ch_rpcs (ac_chain (set_env env n (\<lambda>v. on_chain (\<lambda>h. h\<lparr>ch_prefix := v\<rparr>)) c)) = ch_rpcs (ac_chain c)"
  "ch_lcd (ac_chain (set_env env n (\<lambda>v. on_chain (\<lambda>h. h\<lparr>ch_rpcs := [\<lparr>rpc_url = v, rpc_primary = True\<rparr>]\<rparr>)) c)) = ch_lcd (ac_chain c)"
  "ch_lcd (ac_chain (set_env env n (\<lambda>v. on_chain (\<lambda>h. h\<lparr>ch_lcd := v\<rparr>)) c)) = (if env n = [] then ch_lcd (ac_chain c) else env n)"
  "ch_lcd (ac_chain (set_env env n (\<lambda>v. on_chain (\<lambda>h. h\<lparr>ch_monitored := split_csv v\<rparr>)) c)) = ch_lcd (ac_chain c)"
  "ch_lcd (ac_chain (set_env env n (\<lambda>v. on_chain (\<lambda>h. h\<lparr>ch_prefix := v\<rparr>)) c)) = ch_lcd (ac_chain c)"
  "ch_monitored (ac_chain (set_env env n (\<lambda>v. on_chain (\<lambda>h. h\<lparr>ch_rpcs := [\<lparr>rpc_url = v, rpc_primary = True\<rparr>]\<rparr>)) c)) = ch_monitored (ac_chain c)"
  "ch_monitored (ac_chain (set_env env n (\<lambda>v. on_chain (\<lambda>h. h\<lparr>ch_lcd := v\<rparr>)) c)) = ch_monitored (ac_chain c)"
  "ch_monitored (ac_chain (set_env env n (\<lambda>v. on_chain (\<lambda>h. h\<lparr>ch_monitored := split_csv v\<rparr>)) c)) = (if env n = [] then ch_monitored (ac_chain c) else split_csv (env n))"
  "ch_monitored (ac_chain (set_env env n (\<lambda>v. on_chain (\<lambda>h. h\<lparr>ch_prefix := v\<rparr>)) c)) = ch_monitored (ac_chain c)"
  "ch_prefix (ac_chain (set_env env n (\<lambda>v. on_chain (\<lambda>h. h\<lparr>ch_rpcs := [\<lparr>rpc_url = v, rpc_primary = True\<rparr>]\<rparr>)) c)) = ch_prefix (ac_chain c)"
  "ch_prefix (ac_chain (set_env env n (\<lambda>v. on_chain (\<lambda>h. h\<lparr>ch_lcd := v\<rparr>)) c)) = ch_prefix (ac_chain c)"
  "ch_prefix (ac_chain (set_env env n (\<lambda>v. on_chain (\<lambda>h. h\<lparr>ch_monitored := split_csv v\<rparr>)) c)) = ch_prefix (ac_chain c)"
  "ch_prefix (ac_chain (set_env env n (\<lambda>v. on_chain (\<lambda>h. h\<lparr>ch_prefix := v\<rparr>)) c)) = (if env n = [] then ch_prefix (ac_chain c) else env n)"
  by (simp_all add: set_env_def on_web_def on_chain_def)

lemma set_env_web [simp]:
  "we_listen (ui_web (ac_ui (set_env env n (\<lambda>v. on_web (\<lambda>w. w\<lparr>we_listen := v\<rparr>)) c))) = (if env n = [] then we_listen (ui_web (ac_ui c)) else env n)"
  "we_listen (ui_web (ac_ui (set_env env n (\<lambda>v. on_web (\<lambda>w. w\<lparr>we_token := v\<rparr>)) c))) = we_listen (ui_web (ac_ui c))"
  "we_listen (ui_web (ac_ui (set_env env n (\<lambda>v. on_web (\<lambda>w. w\<lparr>we_proxies := split_csv v\<rparr>)) c))) = we_listen (ui_web (ac_ui c))"
  "we_token (ui_web (ac_ui (set_env env n (\<lambda>v. on_web (\<lambda>w. w\<lparr>we_listen := v\<rparr>)) c))) = we_token (ui_web (ac_ui c))"
  "we_token (ui_web (ac_ui (set_env env n (\<lambda>v. on_web (\<lambda>w. w\<lparr>we_token := v\<rparr>)) c))) = (if env n = [] then we_token (ui_web (ac_ui c)) else env n)"
  "we_token (ui_web (ac_ui (set_env env n (\<lambda>v. on_web (\<lambda>w. w\<lparr>we_proxies := split_csv v\<rparr>)) c))) = we_token (ui_web (ac_ui c))"
  "we_max_clients (ui_web (ac_ui (set_env env n (\<lambda>v. on_web (\<lambda>w. w\<lparr>we_listen := v\<rparr>)) c))) = we_max_clients (ui_web (ac_ui c))"
  "we_max_clients (ui_web (ac_ui (set_env env n (\<lambda>v. on_web (\<lambda>w. w\<lparr>we_token := v\<rparr>)) c))) = we_max_clients (ui_web (ac_ui c))"
  "we_max_clients (ui_web (ac_ui (set_env env n (\<lambda>v. on_web (\<lambda>w. w\<lparr>we_proxies := split_csv v\<rparr>)) c))) = we_max_clients (ui_web (ac_ui c))"
  "ui_web (ac_ui (set_env env n (\<lambda>v c. c\<lparr>ac_ui := (ac_ui c)\<lparr>ui_mode := v\<rparr>\<rparr>) c)) = ui_web (ac_ui c)"
  "ui_mode (ac_ui (set_env env n (\<lambda>v c. c\<lparr>ac_ui := (ac_ui c)\<lparr>ui_mode := v\<rparr>\<rparr>) c)) = (if env n = [] then ui_mode (ac_ui c) else env n)"
  "ob_listen (ac_obs (set_env env n (\<lambda>v c. c\<lparr>ac_obs := (ac_obs c)\<lparr>ob_listen := v\<rparr>\<rparr>) c)) = (if env n = [] then ob_listen (ac_obs c) else env n)"
  "ob_listen (ac_obs (set_env env n (\<lambda>v c. c\<lparr>ac_obs := (ac_obs c)\<lparr>ob_level := v\<rparr>\<rparr>) c)) = ob_listen (ac_obs c)"
  "ob_level (ac_obs (set_env env n (\<lambda>v c. c\<lparr>ac_obs := (ac_obs c)\<lparr>ob_listen := v\<rparr>\<rparr>) c)) = ob_level (ac_obs c)"
  "ob_level (ac_obs (set_env env n (\<lambda>v c. c\<lparr>ac_obs := (ac_obs c)\<lparr>ob_level := v\<rparr>\<rparr>) c)) = (if env n = [] then ob_level (ac_obs c) else env n)"
  by (simp_all add: set_env_def on_web_def)

lemma on_web_sel [simp]:
  "ac_refresh (on_web w c) = ac_refresh c" "ac_divergence (on_web w c) = ac_divergence c"
  "ac_chain (on_web w c) = ac_chain c" "ac_obs (on_web w c) = ac_obs c"
  "ui_mode (ac_ui (on_web w c)) = ui_mode (ac_ui c)" "ui_web (ac_ui (on_web w c)) = w (ui_web (ac_ui c))"
  by (simp_all add: on_web_def)

text \<open>What the environment does to each part of the configuration.\<close>

lemma apply_env_numbers:
  assumes "apply_env env c0 = Inr c"
  obtains clients rate where
    "positive_env env ''CMTOP_WEB_MAX_CLIENTS'' (we_max_clients (ui_web (ac_ui c0))) = Inr clients"
    "positive_env env ''CMTOP_WEB_API_RATE_LIMIT'' (we_rate_limit (ui_web (ac_ui c0))) = Inr rate"
  using assms by (simp add: apply_env_def split: sum.splits)

lemma apply_env_parts:
  assumes "apply_env env c0 = Inr c"
  shows "ac_refresh c = ac_refresh c0"
    "ac_divergence c = ac_divergence c0"
    "ui_mode (ac_ui c) = pick_text env [] ''CMTOP_MODE'' (ui_mode (ac_ui c0))"
    "we_listen (ui_web (ac_ui c)) = pick_text env [] ''CMTOP_WEB_LISTEN'' (we_listen (ui_web (ac_ui c0)))"
    "we_token (ui_web (ac_ui c)) = pick_text env [] ''CMTOP_WEB_TOKEN'' (we_token (ui_web (ac_ui c0)))"
    "ob_listen (ac_obs c) = pick_text env [] ''CMTOP_METRICS_LISTEN'' (ob_listen (ac_obs c0))"
    "ob_level (ac_obs c) = pick_text env [] ''CMTOP_LOG_LEVEL'' (ob_level (ac_obs c0))"
    "ch_lcd (ac_chain c) = pick_text env [] ''CMTOP_LCD'' (ch_lcd (ac_chain c0))"
    "ch_prefix (ac_chain c) = pick_text env [] ''CMTOP_BECH32_PREFIX'' (ch_prefix (ac_chain c0))"
    "ch_rpcs (ac_chain c) =
       (if env ''CMTOP_RPC'' = [] then ch_rpcs (ac_chain c0) else [\<lparr>rpc_url = env ''CMTOP_RPC'', rpc_primary = True\<rparr>])"
    "ch_monitored (ac_chain c) =
       (if env ''CMTOP_MONITORED_RPCS'' = [] then ch_monitored (ac_chain c0) else split_csv (env ''CMTOP_MONITORED_RPCS''))"
    "positive_env env ''CMTOP_WEB_MAX_CLIENTS'' (we_max_clients (ui_web (ac_ui c0))) = Inr (we_max_clients (ui_web (ac_ui c)))"
  by (rule apply_env_numbers [OF assms],
      insert assms, simp add: apply_env_def pick_text_def, elim subst, simp)+

lemma set_flags [simp]:
  "ac_refresh (on_chain h c) = ac_refresh c" "ac_divergence (on_chain h c) = ac_divergence c"
  "ac_chain (on_chain h c) = h (ac_chain c)" "ac_obs (on_chain h c) = ac_obs c" "ac_ui (on_chain h c) = ac_ui c"
  "ac_refresh (on_obs b c) = ac_refresh c" "ac_divergence (on_obs b c) = ac_divergence c"
  "ac_chain (on_obs b c) = ac_chain c" "ac_obs (on_obs b c) = b (ac_obs c)" "ac_ui (on_obs b c) = ac_ui c"
  "ac_refresh (set_mode m c) = ac_refresh c" "ac_divergence (set_mode m c) = ac_divergence c"
  "ac_chain (set_mode m c) = ac_chain c" "ac_obs (set_mode m c) = ac_obs c"
  "ui_mode (ac_ui (set_mode m c)) = m" "ui_web (ac_ui (set_mode m c)) = ui_web (ac_ui c)"
  by (simp_all add: on_chain_def on_obs_def set_mode_def)

lemma if_given_sel [simp]:
  "ac_refresh (if_given v f c) = (if v = [] then ac_refresh c else ac_refresh (f v c))"
  "ac_divergence (if_given v f c) = (if v = [] then ac_divergence c else ac_divergence (f v c))"
  "ac_chain (if_given v f c) = (if v = [] then ac_chain c else ac_chain (f v c))"
  "ac_obs (if_given v f c) = (if v = [] then ac_obs c else ac_obs (f v c))"
  "ui_mode (ac_ui (if_given v f c)) = (if v = [] then ui_mode (ac_ui c) else ui_mode (ac_ui (f v c)))"
  "ui_web (ac_ui (if_given v f c)) = (if v = [] then ui_web (ac_ui c) else ui_web (ac_ui (f v c)))"
  by (simp_all add: if_given_def)

text \<open>The endpoints named on the command line.\<close>

definition named_rpcs :: "command_line \<Rightarrow> rpc_entry list" where
  "named_rpcs cl =
     (if cl_rpcs cl \<noteq> [] then rpc_flags (cl_rpcs cl)
      else case cl_arg cl of
        None \<Rightarrow> []
      | Some u \<Rightarrow> if u = [] then [] else [\<lparr>rpc_url = u, rpc_primary = True\<rparr>])"

lemma rpc_flags_Nil [simp]: "rpc_flags us = [] \<longleftrightarrow> us = []"
  by (cases us) (simp_all add: rpc_flags_def)

lemma apply_flags_parts:
  "ac_refresh (apply_flags cl c) = ac_refresh c"
  "ui_mode (ac_ui (apply_flags cl c)) = (if cl_mode cl = [] then ui_mode (ac_ui c) else cl_mode cl)"
  "we_listen (ui_web (ac_ui (apply_flags cl c))) = (if cl_listen cl = [] then we_listen (ui_web (ac_ui c)) else cl_listen cl)"
  "we_token (ui_web (ac_ui (apply_flags cl c))) = (if cl_token cl = [] then we_token (ui_web (ac_ui c)) else cl_token cl)"
  "we_max_clients (ui_web (ac_ui (apply_flags cl c))) = (case cl_max_clients cl of None \<Rightarrow> we_max_clients (ui_web (ac_ui c)) | Some n \<Rightarrow> n)"
  "ob_listen (ac_obs (apply_flags cl c)) = (if cl_metrics cl = [] then ob_listen (ac_obs c) else cl_metrics cl)"
  "ob_level (ac_obs (apply_flags cl c)) = (if cl_level cl = [] then ob_level (ac_obs c) else cl_level cl)"
  "ch_lcd (ac_chain (apply_flags cl c)) = (if cl_lcd cl = [] then ch_lcd (ac_chain c) else cl_lcd cl)"
  "ch_prefix (ac_chain (apply_flags cl c)) = (if cl_bech32 cl = [] then ch_prefix (ac_chain c) else cl_bech32 cl)"
  "ch_rpcs (ac_chain (apply_flags cl c)) = (if named_rpcs cl = [] then ch_rpcs (ac_chain c) else named_rpcs cl)"
  "ch_monitored (ac_chain (apply_flags cl c)) = (if cl_monitored cl = [] then ch_monitored (ac_chain c) else cl_monitored cl)"
  "dc_threshold (ac_divergence (apply_flags cl c)) = (case cl_threshold cl of None \<Rightarrow> dc_threshold (ac_divergence c) | Some q \<Rightarrow> q)"
  "dc_history (ac_divergence (apply_flags cl c)) = dc_history (ac_divergence c)"
  by (auto simp: apply_flags_def set_rpcs_def named_rpcs_def Let_def split: option.split)

text \<open>The configuration that the command prints or runs.\<close>

lemma root_command_config:
  assumes "root_command tp fs env cl = Inr act"
  obtains c0 c1 where "file_config fs env (cl_config cl) = Inr c0" "apply_env env c0 = Inr c1"
    "config_of act = apply_flags cl c1" "\<And>c. act = Runs c \<Longrightarrow> validate tp c = None"
proof -
  from assms obtain c1 where l: "load_config fs env (cl_config cl) = Inr c1"
    by (auto simp: root_command_def split: sum.splits)
  then obtain c0 where f: "file_config fs env (cl_config cl) = Inr c0" "apply_env env c0 = Inr c1"
    by (auto simp: load_config_def split: sum.splits)
  have "config_of act = apply_flags cl c1" and "\<And>c. act = Runs c \<Longrightarrow> validate tp c = None"
    using assms by (auto simp: root_command_def l Let_def config_of_def split: if_splits option.splits)
  with f that show ?thesis by blast
qed


section \<open>The process\<close>

text \<open>
  A goroutine that cancels has left its failure in the channel, and the channel of three never blocks the two
  services; the context is done only after a failure or a signal, and a run that ended says why.
\<close>

definition process_inv :: "process \<Rightarrow> bool" where
  "process_inv p \<longleftrightarrow>
     length (pr_failures p) + length (pr_serving p) \<le> 2
     \<and> (pr_cancelling p > 0 \<or> pr_done p \<and> \<not> pr_interrupted p \<longrightarrow> pr_failures p \<noteq> [])
     \<and> (case pr_exit p of
          None \<Rightarrow> True
        | Some None \<Rightarrow> pr_failures p = [] \<and> (if terminal_shown (pr_cfg p) then pr_ui_ended p = Some None else pr_interrupted p)
        | Some (Some err) \<Rightarrow> pr_ui_ended p = Some (Some err) \<or> (\<exists>fs. pr_failures p = err # fs))"

lemma new_process_inv: "process_inv (new_process c)"
  by (simp add: process_inv_def new_process_def metrics_service_def web_service_def Let_def)

lemma collect_inv:
  assumes "process_inv p" and "pr_exit p = None"
    and "if terminal_shown (pr_cfg p) then pr_ui_ended p = Some None else pr_done p"
  shows "process_inv (collect_failure p)"
  using assms by (auto simp: process_inv_def collect_failure_def split: list.splits if_splits)

lemma filter_shorter: "x \<in> set xs \<Longrightarrow> \<not> P x \<Longrightarrow> Suc (length (filter P xs)) \<le> length xs"
  by (simp add: Suc_le_eq length_filter_less)

lemma process_step_inv:
  assumes inv: "process_inv p" and run: "pr_exit p = None"
  shows "process_inv (process_step x p)"
proof (cases x)
  case (ServiceEnds name result)
  show ?thesis
  proof (cases "name \<in> fst ` set (pr_serving p)")
    case True
    then obtain s where "s \<in> set (pr_serving p)" "fst s = name" by auto
    with filter_shorter [of s "pr_serving p" "\<lambda>s. fst s \<noteq> name"]
    have "Suc (length (filter (\<lambda>s. fst s \<noteq> name) (pr_serving p))) \<le> length (pr_serving p)" by simp
    with inv run True ServiceEnds show ?thesis
      by (auto simp: process_inv_def service_ended_def chan_send_def split: option.splits)
  qed (use inv ServiceEnds in simp)
next
  case (TerminalEnds result)
  then show ?thesis
  proof (cases "terminal_shown (pr_cfg p)")
    case True
    have "process_inv (collect_failure (p\<lparr>pr_ui_ended := Some None\<rparr>))"
      by (rule collect_inv) (use inv run True in \<open>auto simp: process_inv_def\<close>)
    with True inv run TerminalEnds show ?thesis
      by (cases result) (auto simp: terminal_ended_def process_inv_def)
  qed (use inv TerminalEnds in simp)
next
  case ContextDone
  with inv run collect_inv [OF inv run] show ?thesis by auto
qed (use inv run in \<open>auto simp: process_inv_def split: option.splits\<close>)

lemma run_process_inv: "process_inv p \<Longrightarrow> process_inv (run_process xs p)"
  by (induction xs arbitrary: p) (auto intro: process_step_inv)

lemma process_step_cfg: "pr_cfg (process_step x p) = pr_cfg p"
  by (cases x) (auto simp: service_ended_def terminal_ended_def collect_failure_def Let_def split: option.splits)

lemma run_process_cfg: "pr_cfg (run_process xs p) = pr_cfg p"
  by (induction xs arbitrary: p) (simp_all add: process_step_cfg)

text \<open>A valid configuration that is not headless has a way to show what it monitors.\<close>

lemma valid_mode:
  assumes "validate tp c = None"
  shows "to_lower (ui_mode (ac_ui c)) = ''headless'' \<or> terminal_shown c \<or> web_service c \<noteq> []"
proof -
  have ok: "first_error (\<lambda>r. r) (checks tp c) = None" using assms by (simp add: validate_def)
  note c = ok [unfolded first_error_None checks_def Let_def list.pred_inject]
  have "to_lower (ui_mode (ac_ui c)) \<in> {''tui'', ''web'', ''both'', ''headless''}"
      and "\<not> (we_disabled (ui_web (ac_ui c)) \<and> to_lower (ui_mode (ac_ui c)) = ''web'')"
    using c by (auto split: if_splits)
  then show ?thesis by (auto simp: terminal_shown_def web_service_def Let_def)
qed

text \<open>What \<open>launch\<close> starts.\<close>

lemma launch_runs:
  assumes "launch tp init fs env cl clock = Inr (Some (s, p))"
  shows "root_command tp fs env cl = Inr (Runs (pr_cfg p))" "p = new_process (pr_cfg p)"
    "start init (pr_cfg p) (new_bus 512) (new_state (fst clock) (fst (snd clock))) (snd (snd clock)) = Inr s"
  using assms by (auto simp: launch_def new_process_def split: sum.splits action.splits)

lemma start_pool:
  assumes "start init c b st now = Inr s"
  shows "active_url (mo_pool (sr_monitor s)) = primary_rpc c"
    "oc_tracker (mo_orch (sr_monitor s)) = new_tracker (tracker_config c)"
  using assms by (auto simp: start_def Let_def primary_active split: sum.splits if_splits)

lemma named_primary: "ch_rpcs (ac_chain c) = rpc_flags (u # us) \<Longrightarrow> primary_rpc c = u"
  by (simp add: primary_rpc_def rpc_flags_def)


section \<open>A concrete run\<close>

definition demo_files :: files where
  "demo_files =
     \<lparr>fs_home = Some ''/home/u'', fs_stat = (\<lambda>path. if path = ''/home/u/.config/cmt-top/config.toml'' then None else Some (True, ''missing'')),
      fs_decode = (\<lambda>path c. Inr (set_mode ''both'' c, []))\<rparr>"

definition demo_env :: "string \<Rightarrow> string" where
  "demo_env name = (if name = ''CMTOP_MODE'' then ''tui'' else if name = ''CMTOP_LOG_LEVEL'' then ''warn'' else [])"

definition demo_line :: command_line where
  "demo_line =
     \<lparr>cl_arg = Some ''https://a'', cl_config = [], cl_print = False, cl_rpcs = [''https://b'', ''https://c''], cl_lcd = [],
      cl_monitored = [], cl_mode = ''web'', cl_listen = [], cl_max_clients = Some 8, cl_token = [], cl_metrics = [],
      cl_level = [], cl_bech32 = [], cl_threshold = None\<rparr>"

definition demo_launched :: "nat started \<times> process" where
  "demo_launched = the (projr (launch lenient_parsers demo_init demo_files demo_env demo_line (1, 2, 3)))"

lemma demo_launch:
  "launch lenient_parsers demo_init demo_files demo_env demo_line (1, 2, 3) = Inr (Some demo_launched)"
proof -
  have "(case launch lenient_parsers demo_init demo_files demo_env demo_line (1, 2, 3) of Inr (Some x) \<Rightarrow> True | _ \<Rightarrow> False)"
    by code_simp
  then show ?thesis by (auto simp: demo_launched_def split: sum.splits option.splits)
qed



end
