(* ===== verification/Load_Gates.thy ===== *)
theory Load_Gates
  imports Report_Json Text_Search Float64
begin

text \<open>
  The gates of the load runner (\<open>cmd/cmt-top-load/gates.go\<close>): which reports of the server it accepts, how it
  reads the drop counters of the metrics endpoint and compares two scrapes, and when the investigating
  sessions are complete.
\<close>

section \<open>Investigators and drop counters\<close>

record investigator_outcome =
  io_intended :: bool
  io_ready :: bool
  io_report :: bool

definition investigators_complete :: "investigator_outcome list \<Rightarrow> bool" where
  "investigators_complete os \<longleftrightarrow> \<not> list_ex (\<lambda>x. io_intended x \<and> (\<not> io_ready x \<or> \<not> io_report x)) os"

text \<open>A parsed float: the parser of the library is a parameter, which yields its error or the value.\<close>

datatype parsed_float = FloatError | FloatNaN | FloatInf | FloatValue rat

definition drop_line :: "string \<Rightarrow> bool" where
  "drop_line line \<longleftrightarrow>
     prefix ''cmt_top_'' line
     \<and> (contains_text ''dropped'' line \<or> contains_text (''event='' @ [CHR 0x22] @ ''dropped'' @ [CHR 0x22]) line)"

definition add_drop :: "(string \<Rightarrow> parsed_float) \<Rightarrow> string \<Rightarrow> (string, rat) gomap \<Rightarrow> string + (string, rat) gomap" where
  "add_drop parse_float line m =
     (case Text_Search.fields line of
        [key, text] \<Rightarrow>
          (case parse_float text of
             FloatValue n \<Rightarrow>
               if n < 0 then Inl (''invalid drop counter '' @ key @ '': '' @ go_quote text)
               else if map_of m key \<noteq> None then Inl (''duplicate drop counter '' @ key)
               else Inr (gput key n m)
           | _ \<Rightarrow> Inl (''invalid drop counter '' @ key @ '': '' @ go_quote text))
      | _ \<Rightarrow> Inl (''malformed drop counter: '' @ go_quote line))"

fun drop_lines :: "(string \<Rightarrow> parsed_float) \<Rightarrow> string list \<Rightarrow> (string, rat) gomap \<Rightarrow> string + (string, rat) gomap" where
  "drop_lines parse_float [] m = Inr m"
| "drop_lines parse_float (line # lines) m =
     (if \<not> drop_line line then drop_lines parse_float lines m
      else case add_drop parse_float line m of
             Inl err \<Rightarrow> Inl err
           | Inr m1 \<Rightarrow> drop_lines parse_float lines m1)"

definition parse_drop_metrics :: "(string \<Rightarrow> parsed_float) \<Rightarrow> string \<Rightarrow> string + (string, rat) gomap" where
  "parse_drop_metrics parse_float body =
     (case drop_lines parse_float (split_on (CHR 0x0A) body) [] of
        Inl err \<Rightarrow> Inl err
      | Inr m \<Rightarrow> if m = [] then Inl ''metrics endpoint did not expose drop counters'' else Inr m)"

text \<open>A baseline counter that is missing or smaller at the end is an error; which one is named depends on the
  order of the map.\<close>

definition reset_error :: "(string, rat) gomap \<Rightarrow> string \<times> rat \<Rightarrow> string option" where
  "reset_error after kv =
     (case map_of after (fst kv) of
        None \<Rightarrow> Some (''final scrape missing baseline drop counter '' @ fst kv)
      | Some n \<Rightarrow> if n < snd kv then Some (''drop counter reset during run: '' @ fst kv) else None)"

fun first_reset :: "(string, rat) gomap \<Rightarrow> (string, rat) gomap \<Rightarrow> string option" where
  "first_reset after [] = None"
| "first_reset after (kv # m) = (case reset_error after kv of None \<Rightarrow> first_reset after m | Some err \<Rightarrow> Some err)"

definition drop_deltas :: "(string, rat) gomap \<Rightarrow> (string, rat) gomap \<Rightarrow> string + (string, rat) gomap" where
  "drop_deltas before after =
     (case first_reset after before of
        Some err \<Rightarrow> Inl err
      | None \<Rightarrow> Inr (gmap_vals (\<lambda>k n. fl64 (n - (case map_of before k of None \<Rightarrow> 0 | Some b \<Rightarrow> b))) after))"

section \<open>Decoding a report\<close>

text \<open>A raw message is None when the member is absent.\<close>

record report_round =
  rx_round :: "int option"
  rx_validators :: "json option"
  rx_prevotes :: "json option"
  rx_precommits :: "json option"

definition empty_round :: report_round where
  "empty_round = \<lparr>rx_round = None, rx_validators = None, rx_prevotes = None, rx_precommits = None\<rparr>"

definition round_field :: "string \<Rightarrow> json \<Rightarrow> report_round \<Rightarrow> string + report_round" where
  "round_field k v r =
     (if k = ''round'' then store (\<lambda>x. r\<lparr>rx_round := x\<rparr>) (into_pointer v)
      else if k = ''validators'' then Inr (r\<lparr>rx_validators := Some v\<rparr>)
      else if k = ''prevotes'' then Inr (r\<lparr>rx_prevotes := Some v\<rparr>)
      else if k = ''precommits'' then Inr (r\<lparr>rx_precommits := Some v\<rparr>)
      else Inr r)"

record report_shape =
  rs_height :: "int option"
  rs_found :: "bool option"
  rs_status :: string
  rs_schema :: int
  rs_epoch :: string
  rs_revision :: string
  rs_rounds :: "json option"
  rs_details :: "json option"
  rs_context :: "json option"
  rs_selected :: "int option"
  rs_selection_status :: string
  rs_comparison :: "int option"
  rs_comparison_status :: string

definition empty_shape :: report_shape where
  "empty_shape =
     \<lparr>rs_height = None, rs_found = None, rs_status = [], rs_schema = 0, rs_epoch = [], rs_revision = [],
      rs_rounds = None, rs_details = None, rs_context = None, rs_selected = None, rs_selection_status = [],
      rs_comparison = None, rs_comparison_status = []\<rparr>"

definition shape_field :: "string \<Rightarrow> json \<Rightarrow> report_shape \<Rightarrow> string + report_shape" where
  "shape_field k v r =
     (if k = ''height'' then store (\<lambda>x. r\<lparr>rs_height := x\<rparr>) (into_pointer v)
      else if k = ''found'' then store (\<lambda>x. r\<lparr>rs_found := x\<rparr>) (into_bool_pointer v)
      else if k = ''status'' then store (\<lambda>x. r\<lparr>rs_status := x\<rparr>) (into_string (rs_status r) v)
      else if k = ''schemaversion'' then store (\<lambda>x. r\<lparr>rs_schema := x\<rparr>) (into_int (rs_schema r) v)
      else if k = ''serverepoch'' then store (\<lambda>x. r\<lparr>rs_epoch := x\<rparr>) (into_string (rs_epoch r) v)
      else if k = ''revision'' then store (\<lambda>x. r\<lparr>rs_revision := x\<rparr>) (into_string (rs_revision r) v)
      else if k = ''rounds'' then Inr (r\<lparr>rs_rounds := Some v\<rparr>)
      else if k = ''details'' then Inr (r\<lparr>rs_details := Some v\<rparr>)
      else if k = ''context'' then Inr (r\<lparr>rs_context := Some v\<rparr>)
      else if k = ''selectedround'' then store (\<lambda>x. r\<lparr>rs_selected := x\<rparr>) (into_pointer v)
      else if k = ''selectionstatus'' then store (\<lambda>x. r\<lparr>rs_selection_status := x\<rparr>) (into_string (rs_selection_status r) v)
      else if k = ''comparisonround'' then store (\<lambda>x. r\<lparr>rs_comparison := x\<rparr>) (into_pointer v)
      else if k = ''comparisonstatus'' then store (\<lambda>x. r\<lparr>rs_comparison_status := x\<rparr>) (into_string (rs_comparison_status r) v)
      else Inr r)"

definition into_rounds :: "json option \<Rightarrow> string + report_round list" where
  "into_rounds raw =
     (case raw of
        None \<Rightarrow> Inl ''unexpected end of JSON input''
      | Some (JsArray vs) \<Rightarrow> into_list (into_struct round_field empty_round) vs
      | Some JsNull \<Rightarrow> Inr []
      | Some _ \<Rightarrow> Inl ''cannot unmarshal into slice'')"

section \<open>The report gates\<close>

definition is_json_array :: "json option \<Rightarrow> bool" where
  "is_json_array raw \<longleftrightarrow> (case raw of Some (JsArray vs) \<Rightarrow> True | _ \<Rightarrow> False)"

definition is_json_object :: "json option \<Rightarrow> bool" where
  "is_json_object raw \<longleftrightarrow> (case raw of Some (JsObject kvs) \<Rightarrow> True | _ \<Rightarrow> False)"

definition negative_or_none :: "int option \<Rightarrow> bool" where
  "negative_or_none x \<longleftrightarrow> (case x of None \<Rightarrow> True | Some n \<Rightarrow> n < 0)"

definition validate_round_detail :: "report_round \<Rightarrow> string option" where
  "validate_round_detail r =
     (if negative_or_none (rx_round r) \<or> \<not> is_json_array (rx_validators r) \<or> \<not> is_json_object (rx_prevotes r)
         \<or> \<not> is_json_object (rx_precommits r)
      then Some ''report round lacks its validator and vote details'' else None)"

fun first_detail_error :: "report_round list \<Rightarrow> string option" where
  "first_detail_error [] = None"
| "first_detail_error (r # rs) = (case validate_round_detail r of None \<Rightarrow> first_detail_error rs | Some err \<Rightarrow> Some err)"

definition bad_summary :: "report_round \<Rightarrow> bool" where
  "bad_summary r \<longleftrightarrow>
     negative_or_none (rx_round r) \<or> rx_validators r \<noteq> None \<or> \<not> is_json_object (rx_prevotes r)
     \<or> \<not> is_json_object (rx_precommits r)"

definition validate_selection :: "report_shape \<Rightarrow> report_round list \<Rightarrow> report_round list \<Rightarrow> string option" where
  "validate_selection s rounds details =
     (if rounds \<noteq> []
      then if rs_selected s = None \<or> rs_selected s \<noteq> rx_round (last rounds) \<or> rs_selection_status s \<noteq> ''available''
              \<or> length details \<noteq> 1
           then Some ''compact latest selection does not match summaries''
           else case validate_round_detail (hd details) of
                  Some err \<Rightarrow> Some err
                | None \<Rightarrow> if rx_round (hd details) \<noteq> rs_selected s then Some ''compact detail differs from selected round''
                          else None
      else if rs_selected s \<noteq> None \<or> details \<noteq> []
              \<or> rs_selection_status s \<noteq> ''not_observed'' \<and> rs_selection_status s \<noteq> ''evicted''
           then Some ''empty compact report has invalid selection'' else None)"

definition validate_compact :: "report_shape \<Rightarrow> report_round list \<Rightarrow> string \<Rightarrow> string option" where
  "validate_compact s rounds epoch =
     (if rs_schema s \<noteq> 1 \<or> epoch = [] \<or> rs_epoch s \<noteq> epoch \<or> rs_revision s = [] \<or> \<not> is_json_array (rs_details s)
         \<or> rs_context s \<noteq> None
      then Some ''compact report schema, epoch, revision or details shape is invalid''
      else case into_rounds (rs_details s) of
             Inl err \<Rightarrow> Some (''invalid compact details: '' @ err)
           | Inr details \<Rightarrow>
               if rs_comparison s \<noteq> None \<or> rs_comparison_status s \<noteq> ''none'' \<or> length details > 1
               then Some ''compact report returned an unrequested comparison''
               else if list_ex bad_summary rounds then Some ''compact report has invalid round summaries''
               else validate_selection s rounds details)"

definition validate_report :: "string \<Rightarrow> int \<Rightarrow> bool \<Rightarrow> string \<Rightarrow> string option" where
  "validate_report body height cview epoch =
     (case parse_json body of
        None \<Rightarrow> Some ''invalid report JSON''
      | Some v \<Rightarrow>
          (case into_struct shape_field empty_shape v of
             Inl err \<Rightarrow> Some (''invalid report JSON: '' @ err)
           | Inr s \<Rightarrow>
               if rs_height s \<noteq> Some height \<or> rs_found s = None \<or> rs_status s = [] \<or> \<not> is_json_array (rs_rounds s)
               then Some ''report height, availability or rounds shape is invalid''
               else case into_rounds (rs_rounds s) of
                      Inl err \<Rightarrow> Some (''invalid report rounds: '' @ err)
                    | Inr rounds \<Rightarrow>
                        if cview then validate_compact s rounds epoch
                        else if rs_details s \<noteq> None \<or> \<not> is_json_object (rs_context s)
                        then Some ''legacy report lacks full representation/context''
                        else first_detail_error rounds))"

definition validate_report_response ::
  "int \<Rightarrow> string \<Rightarrow> string \<Rightarrow> string \<Rightarrow> int \<Rightarrow> bool \<Rightarrow> string \<Rightarrow> string option" where
  "validate_report_response code body etag prior height cview epoch =
     (if code = 304
      then if \<not> cview \<or> prior = [] \<or> etag \<noteq> prior \<or> body \<noteq> []
           then Some ''304 does not reference a previously validated report'' else None
      else if code \<noteq> 200 then Some (''report HTTP '' @ format_int code)
      else if cview \<and> etag = [] then Some ''compact report has no ETag''
      else validate_report body height cview epoch)"

end
