(* ===== verification/Load_Gates_Props.thy ===== *)
theory Load_Gates_Props
  imports Load_Gates Rounds_Cache_Props
begin

text \<open>
  The reports the server writes are the reports the load runner accepts: the JSON of a compact report of the
  latest round and that of a full report with its context, parsed and decoded again, pass every gate.
\<close>

section \<open>Written reports parse\<close>

lemma json_ok_omit [simp]:
  "list_all (\<lambda>(k, v). json_ok d v) (omit_none key f x) \<longleftrightarrow> (case x of None \<Rightarrow> True | Some a \<Rightarrow> json_ok d (f a))"
  "list_all (\<lambda>(k, v). json_ok d v) (omit_zero key g t) \<longleftrightarrow> t = 0 \<or> json_ok d (g t)"
  by (auto simp: omit_none_def omit_zero_def split: option.split)

lemma json_ok_strings: "0 < d \<Longrightarrow> json_ok d (js_strings xs)"
  by (simp add: js_strings_def list.pred_map comp_def list.pred_True)

lemma json_ok_hash: "0 < d \<Longrightarrow> json_ok d (hash_json tm h)"
  by (simp add: hash_json_def split: option.split)

lemma json_ok_vote: "2 < d \<Longrightarrow> json_ok d (vote_json tm v)"
  by (simp add: vote_json_def list.pred_map comp_def list.pred_True json_ok_hash)

lemma json_ok_validator: "3 < d \<Longrightarrow> json_ok d (validator_json tm v)"
  by (simp add: validator_json_def json_ok_vote)

lemma json_ok_phase: "3 < d \<Longrightarrow> json_ok d (phase_json p)"
  by (simp add: phase_json_def group_json_def list.pred_map comp_def list.pred_True json_ok_strings)

lemma json_ok_round: "5 < d \<Longrightarrow> json_ok d (round_json tm r)"
  by (simp add: round_json_def list.pred_map comp_def list.pred_True json_ok_validator json_ok_phase)

lemma json_ok_summary: "3 < d \<Longrightarrow> json_ok d (summary_json tm r)"
  by (simp add: summary_json_def summary_phase_json_def summary_group_json_def list.pred_map comp_def list.pred_True)

lemma json_ok_head: "list_all (\<lambda>(k, v). json_ok d v) (report_head tm b)"
  by (simp add: report_head_def split: option.split)

lemma json_ok_tail: "2 < d \<Longrightarrow> list_all (\<lambda>(k, v). json_ok d v) (report_tail b)"
  by (simp add: report_tail_def coverage_json_def retention_json_def list.pred_map comp_def list.pred_True split: option.split)

lemma json_ok_context: "2 < d \<Longrightarrow> json_ok d (context_json tm c)"
  by (simp add: context_json_def health_json_def upgrade_json_def split: option.split)

lemma compact_json_ok: "json_ok max_depth (compact_json tm c)"
  by (simp add: compact_json_def json_ok_head json_ok_tail list.pred_map comp_def list.pred_True json_ok_round json_ok_summary max_depth_def)

lemma investigation_json_ok: "json_ok max_depth (investigation_json tm b)"
  by (simp add: investigation_json_def json_ok_head json_ok_tail list.pred_map comp_def list.pred_True json_ok_round max_depth_def)

lemma extra_json_ok: "json_ok max_depth (extra_json tm c captured)"
  by (simp add: extra_json_def json_ok_context max_depth_def split: option.split)

section \<open>Decoding\<close>

lemma lower_names:
  "to_lower ''round'' = ''round''" "to_lower ''proposer'' = ''proposer''" "to_lower ''firstSeenAt'' = ''firstseenat''"
  "to_lower ''lastSeenAt'' = ''lastseenat''" "to_lower ''validatorRosterComplete'' = ''validatorrostercomplete''"
  "to_lower ''totalVotingPower'' = ''totalvotingpower''" "to_lower ''validators'' = ''validators''"
  "to_lower ''prevotes'' = ''prevotes''" "to_lower ''precommits'' = ''precommits''" "to_lower ''truncated'' = ''truncated''"
  "to_lower ''height'' = ''height''" "to_lower ''found'' = ''found''" "to_lower ''status'' = ''status''"
  "to_lower ''committed'' = ''committed''" "to_lower ''canonicalHash'' = ''canonicalhash''"
  "to_lower ''coverage'' = ''coverage''" "to_lower ''retention'' = ''retention''"
  "to_lower ''schemaVersion'' = ''schemaversion''" "to_lower ''serverEpoch'' = ''serverepoch''"
  "to_lower ''revision'' = ''revision''" "to_lower ''rounds'' = ''rounds''" "to_lower ''details'' = ''details''"
  "to_lower ''selectedRound'' = ''selectedround''" "to_lower ''comparisonRound'' = ''comparisonround''"
  "to_lower ''selectionStatus'' = ''selectionstatus''" "to_lower ''comparisonStatus'' = ''comparisonstatus''"
  "to_lower ''context'' = ''context''" "to_lower ''capturedAt'' = ''capturedat''"
  by code_simp+

definition round_shape :: "int \<Rightarrow> json option \<Rightarrow> json \<Rightarrow> json \<Rightarrow> report_round" where
  "round_shape n vs p c = \<lparr>rx_round = Some n, rx_validators = vs, rx_prevotes = Some p, rx_precommits = Some c\<rparr>"

lemma decode_round:
  "is_i64 (vr_round r) \<Longrightarrow>
     into_struct round_field empty_round (round_json tm r)
     = Inr (round_shape (vr_round r) (Some (JsArray (map (validator_json tm) (vr_validators r))))
              (phase_json (vr_prevotes r)) (phase_json (vr_precommits r)))"
  by (simp add: round_json_def into_struct_def lower_names round_field_def round_shape_def empty_round_def)

lemma decode_summary:
  "is_i64 (sm_round r) \<Longrightarrow>
     into_struct round_field empty_round (summary_json tm r)
     = Inr (round_shape (sm_round r) None (summary_phase_json (sm_prevotes r)) (summary_phase_json (sm_precommits r)))"
  by (simp add: summary_json_def into_struct_def lower_names round_field_def round_shape_def empty_round_def)

lemma into_list_map:
  "(\<And>x. x \<in> set xs \<Longrightarrow> f (g x) = Inr (h x)) \<Longrightarrow> into_list f (map g xs) = Inr (map h xs)"
  by (induction xs) simp_all

lemma decode_head:
  "is_i64 (bi_height b) \<Longrightarrow>
     store_members shape_field (report_head tm b) s
     = Inr (s\<lparr>rs_height := Some (bi_height b), rs_found := Some (bi_found b), rs_status := bi_status b\<rparr>)"
  by (simp add: report_head_def lower_names shape_field_def omit_none_def split: option.split)

lemma decode_tail: "store_members shape_field (report_tail b) s = Inr s"
  by (simp add: report_tail_def lower_names shape_field_def)

lemma decode_compact:
  assumes "is_i64 (bi_height (ci_report c))" and "is_i64 (ci_schema c)"
    and "case ci_selected c of None \<Rightarrow> True | Some n \<Rightarrow> is_i64 n"
    and "case ci_comparison c of None \<Rightarrow> True | Some n \<Rightarrow> is_i64 n"
  shows "into_struct shape_field empty_shape (compact_json tm c)
         = Inr \<lparr>rs_height = Some (bi_height (ci_report c)), rs_found = Some (bi_found (ci_report c)),
                rs_status = bi_status (ci_report c), rs_schema = ci_schema c, rs_epoch = ci_epoch c,
                rs_revision = ci_revision c, rs_rounds = Some (JsArray (map (summary_json tm) (ci_rounds c))),
                rs_details = Some (JsArray (map (round_json tm) (ci_details c))), rs_context = None,
                rs_selected = ci_selected c, rs_selection_status = ci_selection_status c,
                rs_comparison = ci_comparison c, rs_comparison_status = ci_comparison_status c\<rparr>"
proof -
  have "into_struct shape_field empty_shape (compact_json tm c)
        = store_members shape_field
            [(''schemaVersion'', js_int (ci_schema c)), (''serverEpoch'', JsString (ci_epoch c)),
             (''revision'', JsString (ci_revision c)), (''rounds'', JsArray (map (summary_json tm) (ci_rounds c))),
             (''details'', JsArray (map (round_json tm) (ci_details c))), (''selectedRound'', js_pointer (ci_selected c)),
             (''comparisonRound'', js_pointer (ci_comparison c)), (''selectionStatus'', JsString (ci_selection_status c)),
             (''comparisonStatus'', JsString (ci_comparison_status c))]
            (empty_shape\<lparr>rs_height := Some (bi_height (ci_report c)), rs_found := Some (bi_found (ci_report c)),
               rs_status := bi_status (ci_report c)\<rparr>)"
    unfolding compact_json_def into_struct_def json.case
    by (simp only: store_members_append decode_head [OF assms(1)] decode_tail sum.case)
  then show ?thesis using assms(2-) by (simp add: lower_names shape_field_def empty_shape_def)
qed

definition small_round :: "int \<Rightarrow> bool" where
  "small_round n \<longleftrightarrow> 0 \<le> n \<and> n \<le> max_int32"

lemma small_round_i64: "small_round n \<Longrightarrow> is_i64 n"
  by (simp add: small_round_def max_int32_def int64_min_def int64_max_def)

lemma detail_valid: "small_round (vr_round r) \<Longrightarrow> validate_round_detail (round_shape (vr_round r) (Some (JsArray vs)) (phase_json p) (phase_json q)) = None"
  by (simp add: validate_round_detail_def round_shape_def negative_or_none_def small_round_def is_json_array_def
      is_json_object_def phase_json_def)

lemma summary_valid: "small_round n \<Longrightarrow> \<not> bad_summary (round_shape n None (summary_phase_json p) (summary_phase_json q))"
  by (simp add: bad_summary_def round_shape_def negative_or_none_def small_round_def is_json_object_def
      summary_phase_json_def)

lemma decode_details:
  "list_all (\<lambda>r. small_round (vr_round r)) rs \<Longrightarrow>
     into_rounds (Some (JsArray (map (round_json tm) rs)))
     = Inr (map (\<lambda>r. round_shape (vr_round r) (Some (JsArray (map (validator_json tm) (vr_validators r))))
                      (phase_json (vr_prevotes r)) (phase_json (vr_precommits r))) rs)"
  unfolding into_rounds_def option.case json.case
  by (rule into_list_map, rule decode_round, rule small_round_i64) (simp add: list_all_iff)

lemma decode_summaries:
  "list_all (\<lambda>r. small_round (sm_round r)) rs \<Longrightarrow>
     into_rounds (Some (JsArray (map (summary_json tm) rs)))
     = Inr (map (\<lambda>r. round_shape (sm_round r) None (summary_phase_json (sm_prevotes r)) (summary_phase_json (sm_precommits r))) rs)"
  unfolding into_rounds_def option.case json.case
  by (rule into_list_map, rule decode_summary, rule small_round_i64) (simp add: list_all_iff)

section \<open>Compact reports are accepted\<close>

definition latest_selection :: round_selection where
  "latest_selection = \<lparr>sl_latest = True, sl_round = 0, sl_comparison = None\<rparr>"

text \<open>What a polling session may be shown: the latest round alone, or why there is none.\<close>

definition latest_shape :: "inv_round list \<Rightarrow> compact_investigation \<Rightarrow> bool" where
  "latest_shape rs c \<longleftrightarrow>
     (case rs of
        [] \<Rightarrow> ci_details c = [] \<and> ci_selected c = None \<and> ci_selection_status c \<in> {''evicted'', ''not_observed''}
      | _ \<Rightarrow> ci_selection_status c = ''available''
             \<and> (case ci_details c of [rd] \<Rightarrow> rd \<in> set rs \<and> vr_round rd = vr_round (last rs) \<and> ci_selected c = Some (vr_round rd)
                | _ \<Rightarrow> False))"

lemma compact_latest:
  assumes "c = compact_report e v epoch latest_selection"
  shows "latest_shape (bi_rounds (rn_report e)) c" "ci_schema c = 1" "ci_epoch c = epoch" "ci_revision c \<noteq> []"
    "ci_rounds c = rn_summaries e" "ci_comparison c = None" "ci_comparison_status c = ''none''"
    "bi_height (ci_report c) = bi_height (rn_report e)" "bi_status (ci_report c) = bi_status (av_header v)"
proof -
  let ?rs = "bi_rounds (rn_report e)" and ?r = "with_catalogue e v"
  have rs: "bi_rounds ?r = ?rs" by (simp add: with_catalogue_def)
  show "latest_shape ?rs c"
  proof (cases ?rs)
    case Nil
    then show ?thesis
      by (simp add: assms latest_shape_def compact_report_def pick_selected_def latest_selection_def rs Let_def)
  next
    case (Cons q qs)
    let ?n = "vr_round (last ?rs)"
    have "find (\<lambda>rd. vr_round rd = ?n) ?rs \<noteq> None"
      unfolding find_None_iff using Cons last_in_set [of ?rs] by auto
    then obtain rd where f: "find (\<lambda>rd. vr_round rd = ?n) ?rs = Some rd" by auto
    then have "rd \<in> set ?rs" "vr_round rd = ?n" by (auto simp: find_Some_iff)
    moreover have "pick_selected ?r latest_selection = ([rd], Some ?n, ''available'')"
      using f by (simp add: pick_selected_def latest_selection_def rs pick_def Cons)
    ultimately show ?thesis
      by (simp add: assms latest_shape_def compact_report_def Cons Let_def latest_selection_def)
  qed
qed (simp_all add: assms compact_report_def latest_selection_def with_catalogue_def report_revision_def Let_def split: prod.split)

lemma compact_accepted:
  assumes rounds: "list_all (\<lambda>r. small_round (vr_round r)) (bi_rounds (rn_report e))"
    and sums: "rn_summaries e = summarize_rounds (bi_rounds (rn_report e))"
    and h: "bi_height (rn_report e) = h" "is_i64 h" and st: "bi_status (av_header v) \<noteq> []" and ep: "epoch \<noteq> []"
  shows "validate_report (json_text (compact_json tm (compact_report e v epoch latest_selection))) h True epoch = None"
proof -
  define c where "c = compact_report e v epoch latest_selection"
  define rs where "rs = bi_rounds (rn_report e)"
  note shape = compact_latest [OF c_def, folded rs_def]
  have details: "list_all (\<lambda>r. small_round (vr_round r)) (ci_details c)"
    "case ci_selected c of None \<Rightarrow> True | Some n \<Rightarrow> is_i64 n"
    using shape(1) rounds
    by (auto simp: latest_shape_def rs_def [symmetric] list_all_iff small_round_i64 split: list.splits option.split)
  have summaries: "list_all (\<lambda>r. small_round (sm_round r)) (ci_rounds c)"
    using rounds by (simp add: shape(5) sums summarize_rounds_def rs_def list.pred_map comp_def)
  have nums: "is_i64 (bi_height (ci_report c))" "is_i64 (ci_schema c)" "case ci_comparison c of None \<Rightarrow> True | Some n \<Rightarrow> is_i64 n"
    using h by (simp_all add: shape int64_min_def int64_max_def)
  define ds where "ds = map (\<lambda>r. round_shape (vr_round r) (Some (JsArray (map (validator_json tm) (vr_validators r))))
                      (phase_json (vr_prevotes r)) (phase_json (vr_precommits r))) (ci_details c)"
  define ss where "ss = map (\<lambda>r. round_shape (sm_round r) None (summary_phase_json (sm_prevotes r))
                      (summary_phase_json (sm_precommits r))) (ci_rounds c)"
  obtain s where s: "into_struct shape_field empty_shape (compact_json tm c) = Inr s"
      "rs_height s = Some h" "rs_found s \<noteq> None" "rs_status s \<noteq> []" "rs_schema s = 1" "rs_epoch s = epoch"
      "rs_revision s \<noteq> []" "rs_rounds s = Some (JsArray (map (summary_json tm) (ci_rounds c)))"
      "rs_details s = Some (JsArray (map (round_json tm) (ci_details c)))" "rs_context s = None"
      "rs_selected s = ci_selected c" "rs_selection_status s = ci_selection_status c" "rs_comparison s = None"
      "rs_comparison_status s = ''none''"
    using decode_compact [OF nums(1,2) details(2) nums(3)] shape h st by simp
  have "validate_report (json_text (compact_json tm c)) h True epoch = validate_compact s ss epoch"
    using s decode_summaries [OF summaries, of tm, folded ss_def]
    by (auto simp: validate_report_def json_round_trip [OF compact_json_ok] is_json_array_def)
  also have "\<dots> = validate_selection s ss ds"
  proof -
    have "\<not> list_ex bad_summary ss"
      using summaries by (auto simp: ss_def list_ex_iff list_all_iff summary_valid)
    moreover have "length ds \<le> 1"
      using shape(1) by (auto simp: ds_def latest_shape_def split: list.splits)
    ultimately show ?thesis
      using s ep decode_details [OF details(1), of tm, folded ds_def] by (simp add: validate_compact_def is_json_array_def)
  qed
  also have "\<dots> = None"
  proof (cases rs)
    case Nil
    then have "ss = []" "ds = []" using shape by (auto simp: ss_def ds_def sums summarize_rounds_def rs_def latest_shape_def)
    then show ?thesis using shape(1) s Nil by (auto simp: validate_selection_def latest_shape_def)
  next
    case (Cons q qs)
    then obtain rd where rd: "ci_details c = [rd]" "vr_round rd = vr_round (last rs)" "ci_selected c = Some (vr_round rd)"
        "ci_selection_status c = ''available''"
      using shape(1) by (auto simp: latest_shape_def split: list.splits)
    have "ss \<noteq> []" "rx_round (last ss) = Some (vr_round (last rs))"
      using Cons by (simp_all add: ss_def shape(5) sums summarize_rounds_def rs_def [symmetric] last_map round_shape_def)
    moreover have "validate_round_detail (hd ds) = None" "rx_round (hd ds) = Some (vr_round rd)" "length ds = 1"
      using details(1) by (simp_all add: ds_def rd detail_valid) (simp add: round_shape_def)
    ultimately show ?thesis using s rd by (simp add: validate_selection_def)
  qed
  finally show ?thesis by (simp add: c_def)
qed

section \<open>Full reports are accepted\<close>

lemma join_on_append:
  "xs \<noteq> [] \<Longrightarrow> ys \<noteq> [] \<Longrightarrow> join_on c (xs @ ys) = join_on c xs @ c # join_on c ys"
proof (induction xs)
  case (Cons x xs)
  then show ?case by (cases xs; cases ys) auto
qed simp

text \<open>Splicing the context into the shared body writes one object.\<close>

lemma full_response_object:
  assumes "kvs \<noteq> []" and "xs \<noteq> []"
  shows "full_response (json_text (JsObject kvs)) (json_text (JsObject xs)) = json_text (JsObject (kvs @ xs))"
  using assms by (simp add: full_response_def join_on_append butlast_append)

lemma store_extra:
  assumes "is_i64 (bi_height b)"
  shows "into_struct shape_field s (JsObject (report_head tm b @ [(''rounds'', JsArray vs)] @ report_tail b @ xs))
         = store_members shape_field xs
             (s\<lparr>rs_height := Some (bi_height b), rs_found := Some (bi_found b), rs_status := bi_status b,
                rs_rounds := Some (JsArray vs)\<rparr>)"
proof -
  have "store_members shape_field [(''rounds'', JsArray vs)] s = Inr (s\<lparr>rs_rounds := Some (JsArray vs)\<rparr>)" for s
    by (simp add: lower_names shape_field_def)
  then show ?thesis
    unfolding into_struct_def json.case by (simp only: store_members_append decode_head [OF assms] decode_tail sum.case)
qed

lemma full_accepted:
  assumes rounds: "list_all (\<lambda>r. small_round (vr_round r)) (bi_rounds b)"
    and h: "bi_height b = h" "is_i64 h" and st: "bi_status b \<noteq> []"
  shows "validate_report (full_response (json_text (investigation_json tm b)) (json_text (extra_json tm c captured))) h False epoch
         = None"
proof -
  define xs where "xs = (case captured of None \<Rightarrow> [(''context'', context_json tm c)]
        | Some (epoch, revision, at_time) \<Rightarrow>
            [(''capturedAt'', JsString (tm at_time)), (''context'', context_json tm c), (''revision'', JsString revision),
             (''schemaVersion'', js_int 1), (''serverEpoch'', JsString epoch)])"
  define v where "v = JsObject (report_head tm b @ [(''rounds'', JsArray (map (round_json tm) (bi_rounds b)))] @ report_tail b @ xs)"
  have ok: "json_ok max_depth v"
    using extra_json_ok [of tm c captured] investigation_json_ok [of tm b]
    by (simp add: v_def extra_json_def xs_def [symmetric] investigation_json_def)
  have body: "full_response (json_text (investigation_json tm b)) (json_text (extra_json tm c captured)) = json_text v"
    unfolding investigation_json_def extra_json_def xs_def [symmetric] v_def
    by (subst full_response_object) (auto simp: xs_def split: option.split)
  have one: "into_int k (js_int 1) = Inr 1" for k by (simp add: int64_min_def int64_max_def)
  obtain s where s: "into_struct shape_field empty_shape v = Inr s" "rs_height s = Some h" "rs_found s \<noteq> None" "rs_status s \<noteq> []"
      "rs_rounds s = Some (JsArray (map (round_json tm) (bi_rounds b)))" "rs_details s = None"
      "rs_context s = Some (context_json tm c)"
  proof -
    have b: "is_i64 (bi_height b)" using h by simp
    show thesis
    proof (cases captured)
      case None
      then show thesis
        using that store_extra [OF b, of empty_shape tm _ xs] h st
        by (simp add: v_def xs_def lower_names shape_field_def empty_shape_def)
    next
      case (Some q)
      then show thesis
        using that store_extra [OF b, of empty_shape tm _ xs] h st
        by (cases q) (simp add: v_def xs_def lower_names shape_field_def empty_shape_def one)
    qed
  qed
  have "first_detail_error (map f rs) = None" if "\<And>r. r \<in> set rs \<Longrightarrow> validate_round_detail (f r) = None" for f :: "inv_round \<Rightarrow> report_round" and rs
    using that by (induction rs) auto
  then show ?thesis
    using rounds s
    by (auto simp: body validate_report_def json_round_trip [OF ok] is_json_array_def is_json_object_def context_json_def
        decode_details list_all_iff detail_valid)
qed

section \<open>What the server serves\<close>

lemma built_rounds_small:
  assumes "archive_inv t"
  shows "list_all (\<lambda>r. small_round (vr_round r)) (bi_rounds (build (capture_investigation t h n d)))"
proof (cases "block_at t h")
  case None
  then show ?thesis
    by (simp add: build_def capture_investigation_def investigation_version_def investigation_header_def
        not_observed_header_def Let_def)
next
  case (Some b)
  then have b: "block_inv b" using archive_block [OF assms] by blast
  have "small_round (ar_round rd)" if "(r, rd) \<in> set (ah_rounds b)" for r rd
    using b that by (force simp: block_inv_def gmap_all_def small_round_def list_all_iff)
  then show ?thesis
    using Some by (auto simp: build_def capture_investigation_def list_all_iff block_rounds_def snapshot_round_def Let_def)
qed

lemma header_height: "bi_height (investigation_header t h) = h" "bi_status (investigation_header t h) \<noteq> []"
  by (auto simp: investigation_header_def not_observed_header_def Let_def split: option.split)

lemma entry_facts:
  assumes "reachable cfg t" and "e = built_entry marshal (capture_investigation t h n d) built used"
  shows "list_all (\<lambda>r. small_round (vr_round r)) (bi_rounds (rn_report e))" "bi_height (rn_report e) = h"
    "rn_summaries e = summarize_rounds (bi_rounds (rn_report e))"
proof -
  have "archive_inv t" using reachable_inv [OF assms(1)] by (simp add: tracker_inv_def)
  then show "list_all (\<lambda>r. small_round (vr_round r)) (bi_rounds (rn_report e))"
    using built_rounds_small by (simp add: assms(2) built_entry_def Let_def)
  show "bi_height (rn_report e) = h"
    by (simp add: assms(2) built_entry_def build_def capture_investigation_def investigation_version_def header_height Let_def
        split: option.split)
qed (simp add: assms(2) built_entry_def Let_def)

lemma hex_encode_chars: "c \<in> set (hex_encode s) \<Longrightarrow> \<exists>d < 16. c = hex_digit d"
proof -
  assume "c \<in> set (hex_encode s)"
  then obtain x where "c = hex_digit (of_char x div 16) \<or> c = hex_digit (of_char x mod 16)"
    by (auto simp: hex_encode_def hex_byte_def)
  then show ?thesis using byte_halves [of x] by blast
qed

lemma etag_free: "CHR '','' \<notin> set (ec_etag (quoted_tag sha body))"
proof
  assume "CHR '','' \<in> set (ec_etag (quoted_tag sha body))"
  then have "CHR '','' \<in> set (hex_encode (sha body))"
    using char_of_char [of "CHR 0x22", where 'a = nat] by (auto simp: quoted_tag_def)
  then obtain d where d: "d < 16" "CHR '','' = hex_digit d" using hex_encode_chars by blast
  then have "hex_val (CHR '','') = Some d" by (simp add: hex_val_digit)
  then show False by (simp add: hex_val_def)
qed

lemma own_etag_matches:
  assumes "prior = ec_etag (quoted_tag sha b)"
  shows "matches_etag prior (ec_etag ec) \<longleftrightarrow> prior = ec_etag ec"
proof -
  have q: "char_of (34 :: nat) = CHR 0x22" using char_of_char [of "CHR 0x22", where 'a = nat] by simp
  have "split_on (CHR '','') prior = [prior]"
    unfolding assms by (rule split_on_free) (rule etag_free)
  moreover have "trim_space prior = prior"
    by (simp add: assms quoted_tag_def trim_space_def q is_space_def)
  moreover have "prior \<noteq> ''*''" "trim_prefix ''W/'' prior = prior"
    by (simp_all add: assms quoted_tag_def q trim_prefix_def)
  ultimately show ?thesis by (simp add: matches_etag_def)
qed


abbreviation demo_reply :: encoded where
  "demo_reply \<equiv>
     quoted_tag (\<lambda>b. take 8 b)
       (view_body (\<lambda>r. ''{}'') (\<lambda>c. json_text (compact_json (\<lambda>x. ''2026'') c)) ''epoch-1'' demo_entry demo_version
         (CompactView latest_selection))"


end
