(* ===== verification/Load_Run.thy ===== *)
theory Load_Run
  imports Load_Gates Oracle
begin

text \<open>
  The load runner (\<open>cmd/cmt-top-load/main.go\<close> and \<open>admission.go\<close>): the counters it keeps, the admission of a
  session, the state machine that reads a session's frames, the polling of reports, and the verdict of a run.
  Each answer of the network is an argument of the operation that waits for it, as is whether a wait ended
  before the context did.  JSON texts of frames are given decoded.
\<close>

section \<open>The run\<close>

record load_run =
  lr_users :: int
  lr_offered :: int
  lr_admitted :: int
  lr_intended :: int
  lr_profiles :: int
  lr_with_reports :: int
  lr_transient :: int
  lr_retries :: int
  lr_baseline :: int
  lr_errors :: int
  lr_gaps :: int
  lr_messages :: u64
  lr_bytes :: u64
  lr_types :: "(string, u64 \<times> u64) gomap"
  lr_snapshots :: u64
  lr_contexts :: u64
  lr_reports :: u64
  lr_not_modified :: u64
  lr_report_bytes :: u64
  lr_statuses :: "(string, int) gomap"
  lr_observed :: "(string, int) gomap"
  lr_latencies :: "(string, rat list) gomap"
  lr_first_errors :: "string list"
  lr_investigators :: "investigator_outcome list"
  lr_unexpected :: u64
  lr_drops :: "(string, rat) gomap"
  lr_drops_verified :: bool
  lr_oracle_verified :: bool

text \<open>The session that investigates: the first per cent of the users.\<close>

definition intended :: "int \<Rightarrow> int \<Rightarrow> int \<Rightarrow> bool" where
  "intended users percent i \<longleftrightarrow> go_div (i64 (i * 100)) users < percent"

definition parameters_error :: "int \<Rightarrow> duration \<Rightarrow> duration \<Rightarrow> int \<Rightarrow> bool" where
  "parameters_error users hold ramp percent \<longleftrightarrow>
     users < 1 \<or> users > 1024 \<or> hold \<le> 0 \<or> hold > 24 * 3600 * second \<or> ramp < 0 \<or> percent < 0 \<or> percent > 100"

definition new_run :: "int \<Rightarrow> int \<Rightarrow> load_run" where
  "new_run users percent =
     (let outs = map (\<lambda>i. \<lparr>io_intended = intended users percent (int i), io_ready = False, io_report = False\<rparr>) [0..<nat users]
      in \<lparr>lr_users = users, lr_offered = 0, lr_admitted = 0, lr_intended = int (length (filter io_intended outs)),
          lr_profiles = 0, lr_with_reports = 0, lr_transient = 0, lr_retries = 0, lr_baseline = 0, lr_errors = 0,
          lr_gaps = 0, lr_messages = 0, lr_bytes = 0, lr_types = [], lr_snapshots = 0, lr_contexts = 0,
          lr_reports = 0, lr_not_modified = 0, lr_report_bytes = 0, lr_statuses = [], lr_observed = [],
          lr_latencies = [], lr_first_errors = [], lr_investigators = outs, lr_unexpected = 0, lr_drops = [],
          lr_drops_verified = False, lr_oracle_verified = False\<rparr>)"

text \<open>The start of session \<open>i\<close> within the ramp.\<close>

definition ramp_delay :: "duration \<Rightarrow> int \<Rightarrow> int \<Rightarrow> duration" where
  "ramp_delay ramp users i = go_div (i64 (ramp * i)) users"

definition count :: "int \<Rightarrow> int" where
  "count n = i64 (n + 1)"

definition errorf :: "string \<Rightarrow> load_run \<Rightarrow> load_run" where
  "errorf msg r =
     r\<lparr>lr_errors := count (lr_errors r),
       lr_first_errors := (if length (lr_first_errors r) < 12 then lr_first_errors r @ [msg] else lr_first_errors r)\<rparr>"

text \<open>Algorithm R; \<open>draw n\<close> is the next \<open>Int63n(n)\<close>.\<close>

definition max_samples :: nat where
  "max_samples = 32768"

definition lookup_zero :: "(string, int) gomap \<Rightarrow> string \<Rightarrow> int" where
  "lookup_zero m k = (case map_of m k of None \<Rightarrow> 0 | Some n \<Rightarrow> n)"

definition samples_of :: "string \<Rightarrow> load_run \<Rightarrow> rat list" where
  "samples_of label r = (case map_of (lr_latencies r) label of None \<Rightarrow> [] | Some xs \<Rightarrow> xs)"

definition record_latency :: "(int \<Rightarrow> int) \<Rightarrow> string \<Rightarrow> rat \<Rightarrow> load_run \<Rightarrow> load_run" where
  "record_latency draw label ms r =
     (let n = count (lookup_zero (lr_observed r) label); r1 = r\<lparr>lr_observed := gput label n (lr_observed r)\<rparr>;
          xs = samples_of label r1
      in if length xs < max_samples then r1\<lparr>lr_latencies := gput label (xs @ [ms]) (lr_latencies r1)\<rparr>
         else let k = draw n
              in if k < int max_samples then r1\<lparr>lr_latencies := gput label (xs[nat k := ms]) (lr_latencies r1)\<rparr> else r1)"

text \<open>The sample a percentile reports: \<open>ceil(float64(len)*float64(q)/100)-1\<close>.\<close>

definition percentile_index :: "nat \<Rightarrow> int \<Rightarrow> int" where
  "percentile_index n q = \<lceil>f64_div (f64_mul (f64_of_int (int n)) (f64_of_int q)) 100\<rceil> - 1"

definition percentile :: "int \<Rightarrow> rat list \<Rightarrow> rat option" where
  "percentile q xs =
     (let ys = sort xs; k = percentile_index (length xs) q
      in if 0 \<le> k \<and> k < int (length ys) then Some (ys ! nat k) else None)"

text \<open>One HTTP exchange: the label of the route family, the status and the latency, or the error of the client.\<close>

record http_reply =
  hr_code :: int
  hr_body :: string
  hr_etag :: string
  hr_retry_after :: string
  hr_error :: bool
  hr_ms :: rat

definition note_request :: "(int \<Rightarrow> int) \<Rightarrow> string \<Rightarrow> http_reply \<Rightarrow> load_run \<Rightarrow> load_run" where
  "note_request draw path p r =
     (if hr_code p = 0 then r
      else
        let label = (if contains_text ''/rounds'' path then ''report'' else ''bootstrap'');
            key = label @ '':'' @ format_int (hr_code p)
        in record_latency draw label (hr_ms p)
             (r\<lparr>lr_statuses := gput key (count (lookup_zero (lr_statuses r) key)) (lr_statuses r)\<rparr>))"

section \<open>Where a run may start\<close>

text \<open>The parts of a parsed URL, and whether an address is a loopback one.\<close>

record url_view =
  uv_scheme :: string
  uv_user :: bool
  uv_query :: string
  uv_fragment :: string
  uv_path :: string
  uv_hostname :: string

definition local_url :: "(string \<Rightarrow> url_view option) \<Rightarrow> (string \<Rightarrow> bool option) \<Rightarrow> string \<Rightarrow> string option" where
  "local_url parse_url loopback raw =
     (case parse_url raw of
        None \<Rightarrow> Some ''must be a plain http:// literal loopback URL''
      | Some u \<Rightarrow>
          if uv_scheme u \<noteq> ''http'' \<or> uv_user u \<or> uv_query u \<noteq> [] \<or> uv_fragment u \<noteq> []
             \<or> uv_path u \<noteq> [] \<and> uv_path u \<noteq> ''/''
          then Some ''must be a plain http:// literal loopback URL''
          else if loopback (uv_hostname u) \<noteq> Some True then Some ''non-loopback targets are forbidden'' else None)"

definition trim_right_slash :: "string \<Rightarrow> string" where
  "trim_right_slash s = rev (dropWhile (\<lambda>c. c = CHR ''/'') (rev s))"

text \<open>The start waits for the recognised source: each turn has the source's identity and readiness, the
  app's answer, and whether the wait after it ended in time; \<open>decode\<close> reads the network and the active
  endpoint from a state.\<close>

record turn =
  tu_stats :: "(string \<times> bool) option"
  tu_reply :: http_reply
  tu_waited :: bool

fun verify_fixture ::
  "(int \<Rightarrow> int) \<Rightarrow> (string \<Rightarrow> (string \<times> string) option) \<Rightarrow> string \<Rightarrow> string \<Rightarrow> turn list \<Rightarrow> load_run \<Rightarrow> string option \<times> load_run" where
  "verify_fixture draw decode identity fixture [] r = (Some ''app did not become ready with the explicit replay source'', r)"
| "verify_fixture draw decode identity fixture (u # us) r =
     (case tu_stats u of
        None \<Rightarrow> if tu_waited u then verify_fixture draw decode identity fixture us r else (Some ''fixture stats'', r)
      | Some (who, ready) \<Rightarrow>
          if who \<noteq> identity then (Some ''unrecognized fixture; refusing load'', r)
          else
            let a = tu_reply u; r1 = note_request draw ''/api/state'' a r
            in if \<not> hr_error a \<and> hr_code a = 200
                  \<and> (case decode (hr_body a) of None \<Rightarrow> False
                     | Some (network, rpc) \<Rightarrow> network = ''capacity-replay-1'' \<and> trim_right_slash rpc = fixture \<and> ready)
               then (None, r1)
               else if tu_waited u then verify_fixture draw decode identity fixture us r1
               else (Some ''app did not become ready with the explicit replay source'', r1))"

section \<open>Admission\<close>

definition retry_admission :: "int \<Rightarrow> bool \<Rightarrow> bool" where
  "retry_admission code err \<longleftrightarrow> err \<and> code = 0 \<or> code = 429 \<or> code = 503"

definition parse_retry_after :: "(string \<Rightarrow> gtime option) \<Rightarrow> string \<Rightarrow> gtime \<Rightarrow> duration" where
  "parse_retry_after parse_time text now =
     (case parse_int64 text of
        Some s \<Rightarrow>
          if 0 < s \<and> s \<le> max_int32 then s * second
          else (case parse_time text of Some t \<Rightarrow> if t > now then time_sub t now else 0 | None \<Rightarrow> 0)
      | None \<Rightarrow> (case parse_time text of Some t \<Rightarrow> if t > now then time_sub t now else 0 | None \<Rightarrow> 0))"

definition admission_delay :: "int \<Rightarrow> nat \<Rightarrow> duration \<Rightarrow> duration" where
  "admission_delay i k retry_after =
     max (min (2 * second) (250 * millisecond * 2 ^ (k - 1)) + (i mod 113) * millisecond) retry_after"

text \<open>What one attempt meets: whether its wait ended in time, the replies of the two bootstrap routes, the
  handshake (the status of its response, or 0), and the clock.\<close>

record attempt =
  at_waited :: bool
  at_session :: http_reply
  at_state :: http_reply
  at_height :: "string \<Rightarrow> int option"
  at_connected :: bool
  at_status :: int
  at_retry_after :: string
  at_now :: gtime

datatype admission = Connected int | NotAdmitted

text \<open>The reply an attempt decides on, and the run with its requests noted.\<close>

definition bootstrap :: "(int \<Rightarrow> int) \<Rightarrow> bool \<Rightarrow> attempt \<Rightarrow> load_run \<Rightarrow> http_reply \<times> load_run" where
  "bootstrap draw legacy a r =
     (if legacy then (at_state a, note_request draw ''/api/state'' (at_state a) r)
      else
        let p = at_session a; r1 = note_request draw ''/api/session'' p r
        in if \<not> hr_error p \<and> hr_code p = 404 then (at_state a, note_request draw ''/api/state'' (at_state a) r1)
           else (p, r1))"

definition note_transient :: "load_run \<Rightarrow> load_run" where
  "note_transient r = r\<lparr>lr_transient := count (lr_transient r)\<rparr>"

text \<open>The attempts from number \<open>k\<close> on, at most eight; the list of delays it waited is kept.\<close>

fun admit :: "(int \<Rightarrow> int) \<Rightarrow> (string \<Rightarrow> gtime option) \<Rightarrow> bool \<Rightarrow> int \<Rightarrow> nat \<Rightarrow> duration \<Rightarrow> attempt list \<Rightarrow> load_run
    \<Rightarrow> admission \<times> duration list \<times> load_run" where
  "admit draw parse_time legacy i k retry_after [] r = (NotAdmitted, [], r)"
| "admit draw parse_time legacy i k retry_after (a # as) r =
     (if k \<ge> 8 then (NotAdmitted, [], r)
      else
        let delay = admission_delay i k retry_after; ds = (if k > 0 then [delay] else []);
            r1 = (if k > 0 then r\<lparr>lr_retries := count (lr_retries r)\<rparr> else r)
        in if k > 0 \<and> \<not> at_waited a then (NotAdmitted, ds, r1)
           else
             let (p, r2) = bootstrap draw legacy a r1
             in if hr_error p \<or> hr_code p \<noteq> 200
                then if retry_admission (hr_code p) (hr_error p)
                     then let (res, ds2, r3) = admit draw parse_time legacy i (Suc k)
                                (parse_retry_after parse_time (hr_retry_after p) (at_now a)) as (note_transient r2)
                          in (res, ds @ ds2, r3)
                     else (NotAdmitted, ds, r2)
                else (case at_height a (hr_body p) of
                        None \<Rightarrow> (NotAdmitted, ds, r2)
                      | Some h \<Rightarrow>
                          if at_connected a then (Connected h, ds, r2)
                          else if \<not> retry_admission (at_status a) True then (NotAdmitted, ds, r2)
                          else let (res, ds2, r3) = admit draw parse_time legacy i (Suc k)
                                     (if at_status a = 0 then 0 else parse_retry_after parse_time (at_retry_after a) (at_now a))
                                     as (note_transient r2)
                               in (res, ds @ ds2, r3)))"

section \<open>A session\<close>

text \<open>A decoded frame and the length of its text.\<close>

record frame_view =
  fv_type :: string
  fv_seq :: u64
  fv_height :: int
  fv_payload_height :: int
  fv_epoch :: string
  fv_caps :: "string list"
  fv_length :: nat

record session =
  se_current :: int
  se_previous :: u64
  se_first :: bool
  se_barrier :: bool
  se_context_only :: bool
  se_compact :: bool
  se_epoch :: string
  se_polling :: "(bool \<times> string) option"

definition new_session :: "int \<Rightarrow> session" where
  "new_session baseline =
     \<lparr>se_current = baseline, se_previous = 0, se_first = True, se_barrier = False, se_context_only = False,
      se_compact = False, se_epoch = [], se_polling = None\<rparr>"

definition note_frame :: "u64 \<Rightarrow> frame_view \<Rightarrow> load_run \<Rightarrow> load_run" where
  "note_frame previous f r =
     (let (n, b) = (case map_of (lr_types r) (fv_type f) of None \<Rightarrow> (0, 0) | Some p \<Rightarrow> p)
      in r\<lparr>lr_messages := lr_messages r + 1, lr_bytes := lr_bytes r + of_nat (fv_length f),
           lr_types := gput (fv_type f) (n + 1, b + of_nat (fv_length f)) (lr_types r),
           lr_snapshots := (if fv_type f = ''state.snapshot'' then lr_snapshots r + 1 else lr_snapshots r),
           lr_contexts := (if fv_type f = ''context.snapshot'' then lr_contexts r + 1 else lr_contexts r),
           lr_gaps := (if fv_seq f \<noteq> previous + 1 then count (lr_gaps r) else lr_gaps r)\<rparr>)"

definition mark_investigator :: "nat \<Rightarrow> (investigator_outcome \<Rightarrow> investigator_outcome) \<Rightarrow> load_run \<Rightarrow> load_run" where
  "mark_investigator i f r =
     (if i < length (lr_investigators r)
      then r\<lparr>lr_investigators := (lr_investigators r)[i := f (lr_investigators r ! i)]\<rparr> else r)"

definition intends :: "nat \<Rightarrow> load_run \<Rightarrow> bool" where
  "intends i r \<longleftrightarrow> i < length (lr_investigators r) \<and> io_intended (lr_investigators r ! i)"

definition start_polling :: "nat \<Rightarrow> bool \<Rightarrow> session \<times> load_run \<Rightarrow> session \<times> load_run" where
  "start_polling i compact_profile sr =
     (let (s, r) = sr; r1 = mark_investigator i (\<lambda>x. x\<lparr>io_ready := True\<rparr>) r
      in (s\<lparr>se_polling := Some (compact_profile, se_epoch s)\<rparr>, r1\<lparr>lr_profiles := count (lr_profiles r1)\<rparr>))"

text \<open>The commands that narrow the subscription to the context, behind a barrier.\<close>

definition profile_commands :: "(string \<times> string list) list" where
  "profile_commands =
     [(''subscribe'', [''context'']), (''unsubscribe'', [''state'', ''blocks'', ''divergence'', ''votes'']), (''ping'', [])]"

text \<open>The first frame: the baseline, and with it the profile of an investigating session.  \<open>wrote\<close> says
  whether its commands could be written.\<close>

definition first_frame ::
  "(int \<Rightarrow> int) \<Rightarrow> bool \<Rightarrow> rat \<Rightarrow> nat \<Rightarrow> frame_view \<Rightarrow> session \<times> load_run \<Rightarrow> (string \<times> load_run) + session \<times> load_run" where
  "first_frame draw wrote ms i f sr =
     (let (s, r) = sr
      in if fv_type f \<noteq> ''state.snapshot'' \<or> fv_seq f \<noteq> 1 then Inl (''lacks initial authoritative baseline'', r)
         else
           let s1 = s\<lparr>se_first := False, se_epoch := fv_epoch f\<rparr>;
               r1 = record_latency draw ''baselineReady'' ms (r\<lparr>lr_baseline := count (lr_baseline r)\<rparr>)
           in if \<not> intends i r1 then Inr (s1, r1)
              else
                let small = ''rounds-compact-v1'' \<in> set (fv_caps f); s2 = s1\<lparr>se_compact := small\<rparr>
                in if ''context-v1'' \<in> set (fv_caps f)
                   then if wrote then Inr (s2\<lparr>se_barrier := True\<rparr>, r1) else Inl (''profile command failed'', r1)
                   else Inr (start_polling i small (s2, r1)))"

definition pass_barrier :: "nat \<Rightarrow> frame_view \<Rightarrow> session \<times> load_run \<Rightarrow> session \<times> load_run" where
  "pass_barrier i f sr =
     (let (s, r) = sr
      in if se_barrier s \<and> fv_type f = ''pong''
         then start_polling i (se_compact s) (s\<lparr>se_barrier := False, se_context_only := True\<rparr>, r)
         else (s, r))"

definition note_heights :: "frame_view \<Rightarrow> session \<Rightarrow> session" where
  "note_heights f s =
     (let s1 = (if fv_height f > 0 then s\<lparr>se_current := fv_height f\<rparr> else s)
      in if fv_payload_height f > 0 then s1\<lparr>se_current := fv_payload_height f\<rparr> else s1)"

definition session_frame ::
  "(int \<Rightarrow> int) \<Rightarrow> bool \<Rightarrow> rat \<Rightarrow> nat \<Rightarrow> frame_view \<Rightarrow> session \<times> load_run \<Rightarrow> (string \<times> load_run) + session \<times> load_run" where
  "session_frame draw wrote ms i f sr =
     (let (s, r) = sr; r1 = note_frame (se_previous s) f r; s1 = s\<lparr>se_previous := fv_seq f\<rparr>
      in if se_context_only s1 \<and> fv_type f \<noteq> ''context.snapshot'' \<and> fv_type f \<noteq> ''pong''
         then Inl (''received '' @ fv_type f @ '' after context subscription barrier'', r1)
         else
           let (s2, r2) = pass_barrier i f (s1, r1); s3 = note_heights f s2
           in if se_first s3 then first_frame draw wrote ms i f (s3, r2) else Inr (s3, r2))"

text \<open>The frames of a session up to the first that ends it; its error is counted.\<close>

fun session_frames ::
  "(int \<Rightarrow> int) \<Rightarrow> bool \<Rightarrow> rat \<Rightarrow> nat \<Rightarrow> frame_view list \<Rightarrow> session \<times> load_run \<Rightarrow> load_run + session \<times> load_run" where
  "session_frames draw wrote ms i [] sr = Inr sr"
| "session_frames draw wrote ms i (f # fs) sr =
     (case session_frame draw wrote ms i f sr of
        Inl (err, r) \<Rightarrow> Inl (errorf (''session '' @ format_int (int i) @ '' '' @ err) r)
      | Inr sr1 \<Rightarrow> session_frames draw wrote ms i fs sr1)"

text \<open>The end of the reading loop: an error is counted unless the run is over.\<close>

definition session_read_error :: "bool \<Rightarrow> nat \<Rightarrow> load_run \<Rightarrow> load_run" where
  "session_read_error over i r = (if over then r else errorf (''session '' @ format_int (int i) @ '' read'') r)"

text \<open>A frame that is not a JSON envelope ends the session.\<close>

definition session_bad_frame :: "nat \<Rightarrow> load_run \<Rightarrow> load_run" where
  "session_bad_frame i r = errorf (''session '' @ format_int (int i) @ '' invalid envelope'') r"

definition session_start :: "load_run \<Rightarrow> load_run" where
  "session_start r = r\<lparr>lr_offered := count (lr_offered r)\<rparr>"

definition session_admitted :: "nat \<Rightarrow> admission \<Rightarrow> load_run \<Rightarrow> load_run + session \<times> load_run" where
  "session_admitted i res r =
     (case res of
        NotAdmitted \<Rightarrow> Inl (errorf (''session '' @ format_int (int i) @ '' admission'') r)
      | Connected h \<Rightarrow> Inr (new_session h, r\<lparr>lr_admitted := count (lr_admitted r)\<rparr>))"

section \<open>Polling\<close>

record poller =
  pl_etag :: string
  pl_height :: int

definition new_poller :: poller where
  "new_poller = \<lparr>pl_etag = [], pl_height = 0\<rparr>"

definition report_path :: "int \<Rightarrow> bool \<Rightarrow> string" where
  "report_path h compact_profile =
     ''/api/blocks/'' @ format_int h @ ''/rounds'' @ (if compact_profile then ''?view=compact&round=latest'' else [])"

text \<open>The conditional request of one round of the loop: the path and the entity tag it sends.\<close>

definition poll_request :: "int \<Rightarrow> bool \<Rightarrow> poller \<Rightarrow> (string \<times> string \<times> poller) option" where
  "poll_request h compact_profile p =
     (if h \<le> 0 then None
      else let p1 = (if h \<noteq> pl_height p then \<lparr>pl_etag = [], pl_height = h\<rparr> else p)
           in Some (report_path h compact_profile, pl_etag p1, p1))"

definition note_report :: "nat \<Rightarrow> http_reply \<Rightarrow> load_run \<Rightarrow> load_run" where
  "note_report i a r =
     (let r1 = r\<lparr>lr_reports := lr_reports r + 1\<rparr>;
          r2 = (if i < length (lr_investigators r1) \<and> \<not> io_report (lr_investigators r1 ! i)
                then (mark_investigator i (\<lambda>x. x\<lparr>io_report := True\<rparr>) r1)\<lparr>lr_with_reports := count (lr_with_reports r1)\<rparr>
                else r1)
      in r2\<lparr>lr_report_bytes := lr_report_bytes r2 + of_nat (length (hr_body a)),
            lr_not_modified := (if hr_code a = 304 then lr_not_modified r2 + 1 else lr_not_modified r2)\<rparr>)"

text \<open>One round: the poller goes on, or has ended.\<close>

definition poll_once ::
  "(int \<Rightarrow> int) \<Rightarrow> bool \<Rightarrow> nat \<Rightarrow> int \<Rightarrow> bool \<Rightarrow> string \<Rightarrow> http_reply \<Rightarrow> poller \<times> load_run \<Rightarrow> poller option \<times> load_run" where
  "poll_once draw over i h compact_profile epoch a pr =
     (let (p, r) = pr; fail = errorf (''session '' @ format_int (int i) @ '' report'')
      in case poll_request h compact_profile p of
           None \<Rightarrow> (Some p, r)
         | Some (path, etag, p1) \<Rightarrow>
             let r1 = note_request draw path a r
             in if hr_error a then (None, if over then r1 else fail r1)
                else (case validate_report_response (hr_code a) (hr_body a) (hr_etag a) etag h compact_profile epoch of
                        Some err \<Rightarrow> (None, fail r1)
                      | None \<Rightarrow> (Some (p1\<lparr>pl_etag := hr_etag a\<rparr>), note_report i a r1)))"

section \<open>The end of a run\<close>

definition finalize_drops :: "(string \<Rightarrow> parsed_float) \<Rightarrow> bool \<Rightarrow> http_reply \<Rightarrow> (string, rat) gomap \<Rightarrow> load_run \<Rightarrow> load_run" where
  "finalize_drops parse_float metrics a before r =
     (if \<not> metrics then r
      else case (if hr_error a then Inl ''metrics request'' else if hr_code a \<noteq> 200 then Inl (''metrics HTTP '' @ format_int (hr_code a))
                 else parse_drop_metrics parse_float (hr_body a)) of
             Inl err \<Rightarrow> errorf (''final drop scrape: '' @ err) r
           | Inr after \<Rightarrow>
               (case drop_deltas before after of
                  Inl err \<Rightarrow> errorf (''final drop scrape: '' @ err) (r\<lparr>lr_drops := []\<rparr>)
                | Inr ds \<Rightarrow> r\<lparr>lr_drops := ds, lr_drops_verified := True\<rparr>))"

text \<open>The frozen source and the captured reports: \<open>en_oracle\<close> gives the evidence of a height, or the error of
  the request; \<open>en_reports\<close> the answers to the captures in turn, each with whether the wait after it ended.\<close>

record ending =
  en_paused :: bool
  en_settled :: bool
  en_stats :: "(int \<times> int \<times> u64) option"
  en_oracle :: "int \<Rightarrow> expected_height option option"
  en_reports :: "(http_reply \<times> bool) list"

fun captured_report ::
  "(int \<Rightarrow> int) \<Rightarrow> (string \<Rightarrow> served_report option) \<Rightarrow> int \<Rightarrow> expected_height \<Rightarrow> nat \<Rightarrow> (http_reply \<times> bool) list \<Rightarrow> load_run
     \<Rightarrow> bool \<times> load_run" where
  "captured_report draw decode h x n [] r = (False, r)"
| "captured_report draw decode h x n ((a, waited) # as) r =
     (if n \<ge> 20 then (False, r)
      else
        let r1 = note_request draw (''/api/blocks/'' @ format_int h @ ''/rounds?view=full&capture=1'') a r
        in if \<not> hr_error a \<and> hr_code a = 200
              \<and> (case decode (hr_body a) of None \<Rightarrow> False | Some rep \<Rightarrow> check_report rep (Some x) = None)
           then (True, r1)
           else if waited then captured_report draw decode h x (Suc n) as r1 else (False, r1))"

text \<open>The evidence a freeze is checked against: of the active height, or of the committed one when the next
  round has not begun.\<close>

definition frozen_evidence :: "(int \<Rightarrow> expected_height option option) \<Rightarrow> int \<Rightarrow> int \<Rightarrow> string + int \<times> expected_height option" where
  "frozen_evidence oracle_at height committed =
     (case oracle_at height of
        None \<Rightarrow> Inl ''oracle fetch''
      | Some (Some x) \<Rightarrow> Inr (height, Some x)
      | Some None \<Rightarrow>
          if committed > 0 \<and> i64 (height - 1) = committed
          then (case oracle_at committed of None \<Rightarrow> Inl ''committed oracle fetch'' | Some x \<Rightarrow> Inr (committed, x))
          else Inr (height, None))"

definition finish :: "(int \<Rightarrow> int) \<Rightarrow> (string \<Rightarrow> served_report option) \<Rightarrow> ending \<Rightarrow> load_run \<Rightarrow> load_run" where
  "finish draw decode en r =
     (if \<not> en_paused en then errorf ''freeze replay'' r
      else if \<not> en_settled en then r
      else case en_stats en of
             None \<Rightarrow> errorf ''fixture stats'' r
           | Some (height, committed, unexpected) \<Rightarrow>
               let r1 = r\<lparr>lr_unexpected := unexpected\<rparr>
               in case frozen_evidence (en_oracle en) height committed of
                    Inl err \<Rightarrow> errorf err r1
                  | Inr (h, None) \<Rightarrow> errorf (''source oracle evidence unavailable at height '' @ format_int h) r1
                  | Inr (h, Some x) \<Rightarrow>
                      (case captured_report draw decode h x 0 (en_reports en) r1 of
                         (True, r2) \<Rightarrow> r2\<lparr>lr_oracle_verified := True\<rparr>
                       | (False, r2) \<Rightarrow>
                           errorf (''source evidence did not match captured report at height '' @ format_int h) r2))"

definition run_passes :: "bool \<Rightarrow> load_run \<Rightarrow> bool" where
  "run_passes metrics r \<longleftrightarrow>
     lr_admitted r = lr_users r \<and> lr_baseline r = lr_users r \<and> lr_errors r = 0 \<and> lr_gaps r = 0
     \<and> lr_oracle_verified r \<and> lr_unexpected r = 0 \<and> investigators_complete (lr_investigators r)
     \<and> (\<not> metrics \<or> lr_drops_verified r) \<and> \<not> list_ex (\<lambda>(k, n). n > 0) (lr_drops r)"

end
