(* ===== verification/Load_Session.thy ===== *)
theory Load_Session
  imports Load_Run Ws_Hub_Props "HOL-Library.Sublist"
begin

text \<open>
  The load runner's session against the hub it connects to.  The session narrows its subscription behind a
  ping and then refuses every frame but contexts; the hub must have applied the commands before it answers
  the ping, whatever it broadcasts in the meantime.
\<close>

section \<open>The stream after a ping\<close>

definition quiet :: "string \<Rightarrow> bool" where
  "quiet ty \<longleftrightarrow> ty = ''context.snapshot'' \<or> ty = ''pong''"

text \<open>After the first pong only contexts and pongs.\<close>

fun calm :: "string list \<Rightarrow> bool" where
  "calm [] \<longleftrightarrow> True"
| "calm (ty # tys) \<longleftrightarrow> (if ty = ''pong'' then list_all quiet tys else calm tys)"

lemma calm_no_pong: "''pong'' \<notin> set tys \<Longrightarrow> calm tys"
  by (induction tys) auto

lemma quiet_calm: "list_all quiet tys \<Longrightarrow> calm tys"
  by (induction tys) auto

lemma subseq_all: "subseq xs ys \<Longrightarrow> list_all P ys \<Longrightarrow> list_all P xs"
  by (induction rule: list_emb.induct) auto

lemma subseq_elem: "subseq xs ys \<Longrightarrow> x \<in> set xs \<Longrightarrow> x \<in> set ys"
  by (induction rule: list_emb.induct) auto

lemma calm_subseq: "subseq xs ys \<Longrightarrow> calm ys \<Longrightarrow> calm xs"
proof (induction rule: list_emb.induct)
  case (list_emb_Cons xs ys y)
  then show ?case by (auto split: if_splits dest: subseq_all intro: quiet_calm)
qed (auto dest: subseq_all)

lemma calm_snoc: "calm (tys @ [ty]) \<longleftrightarrow> calm tys \<and> (''pong'' \<in> set tys \<longrightarrow> quiet ty)"
  by (induction tys) auto

definition types_of :: "'p ws_client \<Rightarrow> string list" where
  "types_of c = map en_type (frames c)"

text \<open>What queueing a frame does to the types of a stream: some frames leave it, and perhaps the new one joins.\<close>

lemma queue_env_types:
  assumes inv: "queue_inv c" and e: "0 \<le> en_size e" and q: "queue_env e now c = Some c'"
  shows "wc_subs c' = wc_subs c"
    and "\<exists>tys. subseq tys (types_of c) \<and> (types_of c' = tys \<or> types_of c' = tys @ [en_type e])"
proof -
  have close: "subseq (map en_type (wc_sent c)) (types_of c)"
    using list_emb_append_mono [of "(=)" "map en_type (wc_sent c)" "map en_type (wc_sent c)" "[]"] by (simp add: types_of_def)
  show "\<exists>tys. subseq tys (types_of c) \<and> (types_of c' = tys \<or> types_of c' = tys @ [en_type e])"
    "wc_subs c' = wc_subs c"
  proof (atomize (full), cases "wc_closed c \<or> en_size e > queue_bytes
      \<or> wc_pending c \<noteq> [] \<and> time_sub now (en_queued (hd (wc_pending c))) > queue_max_age")
    case True
    then have "queue_locked e now c = Some (c, False)" by (auto simp: queue_locked_def Let_def)
    then have "c' = signal_close c" using q by (simp add: queue_env_def)
    then show "(\<exists>tys. subseq tys (types_of c) \<and> (types_of c' = tys \<or> types_of c' = tys @ [en_type e])) \<and> wc_subs c' = wc_subs c"
      using close by (auto simp: signal_close_def types_of_def)
  next
    case open_queue: False
    show "(\<exists>tys. subseq tys (types_of c) \<and> (types_of c' = tys \<or> types_of c' = tys @ [en_type e])) \<and> wc_subs c' = wc_subs c"
    proof (cases "supersedes e c")
      case True
      then have "queue_locked e now c = Some (replace_last e c, True)" using open_queue by (simp add: queue_locked_def Let_def)
      then have "c' = replace_last e c" using q by (simp add: queue_env_def)
      moreover have "map en_type (butlast (wc_pending c)) @ [en_type e] = map en_type (wc_pending c)"
        using True by (cases "wc_pending c" rule: rev_cases) (auto simp: supersedes_def)
      ultimately show ?thesis by (auto simp: replace_last_def Let_def types_of_def)
    next
      case fresh: False
      let ?c1 = "c\<lparr>wc_seq := wc_seq c + 1\<rparr>"
      have acc: "wc_bytes ?c1 = (\<Sum>e \<leftarrow> wc_pending ?c1. en_size e)" using inv by (simp add: queue_inv_def accounted_def)
      have fit: "en_size e \<le> queue_bytes" using open_queue by simp
      obtain k c2 ok where r: "make_room (effective_limit c) (en_size e) now ?c1 = Some (c2, ok)"
          "made_room ?c1 (effective_limit c) (en_size e) k c2 ok"
        using make_room_made [OF effective_limit_pos fit acc, of c now] by blast
      have "queue_locked e now c
          = Some (if ok then append_env (e\<lparr>en_seq := wc_seq c + 1, en_queued := now\<rparr>) c2 else c2, ok)"
        using open_queue fresh r(1) by (cases ok) (auto simp: queue_locked_def Let_def effective_limit_def)
      then have "c' = (if ok then append_env (e\<lparr>en_seq := wc_seq c + 1, en_queued := now\<rparr>) c2 else signal_close c2)"
        using q by (cases ok) (simp_all add: queue_env_def)
      moreover have "subseq (map en_type (drop k (wc_pending c))) (map en_type (wc_pending c))"
        by (simp add: drop_map [symmetric] sublist_imp_subseq)
      then have "subseq (map en_type (wc_sent c2) @ map en_type (wc_pending c2)) (types_of c)"
        using r(2) by (auto simp: made_room_def types_of_def intro: list_emb_append_mono)
      ultimately show ?thesis
        using r(2) close by (cases ok) (auto simp: append_env_def signal_close_def made_room_def types_of_def)
    qed
  qed
qed

lemma write_next_types:
  "subseq (types_of (write_next now ok c)) (types_of c)" "wc_subs (write_next now ok c) = wc_subs c"
proof -
  have close: "subseq (map en_type (wc_sent c)) (types_of c)"
    using list_emb_append_mono [of "(=)" "map en_type (wc_sent c)" "map en_type (wc_sent c)" "[]"] by (simp add: types_of_def)
  show "subseq (types_of (write_next now ok c)) (types_of c)" "wc_subs (write_next now ok c) = wc_subs c"
    using close
    by (auto simp: types_of_def write_next_def dequeue_def remove_first_def signal_close_def split: option.splits list.splits if_splits)
qed

text \<open>A client whose reader has run the first \<open>k\<close> of the three commands.\<close>

definition session_commands :: "command list" where
  "session_commands =
     map (\<lambda>(ty, chs). if ty = ''subscribe'' then Subscribe chs else if ty = ''unsubscribe'' then Unsubscribe chs else Ping)
       profile_commands"

lemma session_commands_list:
  "session_commands = [Subscribe [''context''], Unsubscribe [''state'', ''blocks'', ''divergence'', ''votes''], Ping]"
  by (simp add: session_commands_def profile_commands_def)

lemma commands_length: "length session_commands = 3"
  by (simp add: session_commands_list)

definition narrowed :: "nat \<Rightarrow> 'p ws_client \<Rightarrow> bool" where
  "narrowed k c \<longleftrightarrow>
     calm (types_of c) \<and> (k < 3 \<longrightarrow> ''pong'' \<notin> set (types_of c))
     \<and> (2 \<le> k \<longrightarrow> list_all (\<lambda>ch. \<not> subscribed ch c) [''state'', ''blocks'', ''divergence'', ''votes''])"

lemma narrowed_subseq:
  "narrowed k c \<Longrightarrow> subseq (types_of c') (types_of c) \<Longrightarrow> wc_subs c' = wc_subs c \<Longrightarrow> narrowed k c'"
  by (auto simp: narrowed_def subscribed_def dest: calm_subseq subseq_elem)

lemma narrowed_queue:
  assumes "narrowed k c" and "queue_inv c" and "0 \<le> en_size e" and "queue_env e now c = Some c'"
    and "en_type e = ''pong'' \<longrightarrow> 3 \<le> k" and "3 \<le> k \<longrightarrow> quiet (en_type e)"
  shows "narrowed k c'"
proof -
  note q = queue_env_types [OF assms(2-4)]
  obtain tys where tys: "subseq tys (types_of c)" "types_of c' = tys \<or> types_of c' = tys @ [en_type e]" using q(2) by blast
  have "calm tys" "k < 3 \<longrightarrow> ''pong'' \<notin> set tys"
    using assms(1) calm_subseq [OF tys(1)] subseq_elem [OF tys(1)] by (auto simp: narrowed_def)
  then have "calm (types_of c')" "k < 3 \<longrightarrow> ''pong'' \<notin> set (types_of c')"
    using tys(2) assms(5,6) by (auto simp: calm_snoc not_le)
  then show ?thesis using assms(1) q(1) by (simp add: narrowed_def subscribed_def)
qed

text \<open>What a broadcast may carry to such a client.\<close>

lemma interested_quiet:
  assumes "narrowed k c" and "2 \<le> k" and "interested ty c"
  shows "ty = ''context.snapshot''"
proof (rule ccontr)
  assume "ty \<noteq> ''context.snapshot''"
  then have "channel_for ty \<in> {''state'', ''blocks'', ''divergence'', ''votes''}" by (simp add: channel_for_def)
  with assms show False by (auto simp: narrowed_def interested_def)
qed

section \<open>The hub around one connection\<close>

text \<open>Connection \<open>i\<close>, while it is registered, is narrowed; nothing resynchronises it or reuses its number.\<close>

definition watch :: "nat \<Rightarrow> nat \<Rightarrow> 'p hub \<Rightarrow> bool" where
  "watch k i h \<longleftrightarrow>
     i < hu_next h \<and> i \<notin> set (hu_resync h) \<and> (\<forall>c. map_of (hu_clients h) i = Some c \<longrightarrow> narrowed k c \<and> queue_inv c)"

lemma watchD: "watch k i h \<Longrightarrow> map_of (hu_clients h) i = Some c \<Longrightarrow> narrowed k c \<and> queue_inv c"
  by (simp add: watch_def)

lemma watch_update:
  assumes "watch k i h" and "hu_next h \<le> hu_next h'" and "set (hu_resync h') \<subseteq> set (hu_resync h) \<union> - {i}"
    and "\<And>c'. map_of (hu_clients h') i = Some c' \<Longrightarrow> narrowed k c' \<and> queue_inv c'"
  shows "watch k i h'"
  using assms by (auto simp: watch_def)

lemma queue_env_watch:
  assumes "narrowed k c \<and> queue_inv c" and "unat (wc_seq c) < 2 ^ 64 - 1" and "0 \<le> en_size e"
    and "en_type e = ''pong'' \<longrightarrow> 3 \<le> k" and "3 \<le> k \<longrightarrow> quiet (en_type e)" and "queue_env e now c = Some c'"
  shows "narrowed k c' \<and> queue_inv c'"
  using narrowed_queue [of k c e now c'] queue_env_ok [of c e now] assms by auto

lemma broadcast_watch:
  assumes w: "watch k i h" and inv: "hub_inv n h" and n: "n < 2 ^ 64 - 1" and prep: "prep_ok prep" "en_wire env = None"
    and ty: "en_type env \<noteq> ''pong''" and b: "broadcast prep env now h = Some h'"
  shows "watch k i h'"
proof (cases "has_subscribers (channel_for (en_type env)) h")
  case False
  then show ?thesis using w b by (simp add: broadcast_def)
next
  case True
  show ?thesis
  proof (cases "prep env")
    case (Inl err)
    then show ?thesis using True w b by (simp add: broadcast_def)
  next
    case (Inr e)
    let ?f = "\<lambda>c. if interested (en_type e) c then queue_env e now c else Some c"
    from True Inr b obtain cs where cs: "each_client ?f (hu_clients h) = Some cs" "h' = h\<lparr>hu_clients := cs\<rparr>"
      by (auto simp: broadcast_def)
    have e: "0 \<le> en_size e" "en_type e \<noteq> ''pong''" using prep_okD [OF prep Inr] ty by auto
    show ?thesis
    proof (rule watch_update [OF w])
      fix c' assume "map_of (hu_clients h') i = Some c'"
      then obtain c where c: "map_of (hu_clients h) i = Some c" "?f c = Some c'"
        using each_client_lookup [OF cs(1), of i] cs(2) by (auto simp: bind_eq_Some_conv)
      have "unat (wc_seq c) < 2 ^ 64 - 1"
        using inv n gmap_all_lookup [OF _ c(1)] by (fastforce simp: hub_inv_def client_ok_def)
      moreover note interested_quiet [of k c "en_type e"] watchD [OF w c(1)]
      ultimately show "narrowed k c' \<and> queue_inv c'"
        using c(2) queue_env_watch [of k c e now c'] e by (auto simp: quiet_def split: if_splits)
    qed (simp_all add: cs(2) Un_commute)
  qed
qed

lemma bus_event_type: "envelope ev p = Some env \<Longrightarrow> en_type env \<noteq> ''pong''"
  by (cases ev) auto

lemma bus_event_watch:
  assumes "watch k i h" and "hub_inv n h" and "n < 2 ^ 64 - 1" and "prep_ok prep" and "bus_event prep ev p now h = Some h'"
  shows "watch k i h'"
  using assms broadcast_watch [OF assms(1-4) envelope_wire bus_event_type]
  by (auto simp: bus_event_def split: option.splits)

lemma repair_tick_watch:
  assumes w: "watch k i h" and inv: "hub_inv n h" and n: "n + 2 < 2 ^ 64 - 1" and prep: "prep_ok prep"
    and t: "repair_tick prep st ctx dv now h = Some h'"
  shows "watch k i h'"
proof -
  have step: "watch k i m' \<and> hub_inv (Suc m) m'"
    if "watch k i m0" "hub_inv m m0" "m < 2 ^ 64 - 1" "ty \<noteq> ''pong''"
      and "(if b then broadcast prep (blank_envelope ty p) now m0 else Some m0) = Some m'" for m m0 m' ty p b
  proof (cases b)
    case True
    then have "broadcast prep (blank_envelope ty p) now m0 = Some m'" using that(5) by simp
    with broadcast_watch [OF that(1-3) prep blank_wire(1) _ this] broadcast_inv [OF that(2,3) prep blank_wire(1), of ty p now] that(4)
    show ?thesis by auto
  next
    case False
    then show ?thesis using that(1,5) hub_inv_mono [OF that(2), of "Suc m"] by simp
  qed
  from t obtain h1 h2 where r:
      "(if has_subscribers ''state'' h then broadcast prep (blank_envelope ''state.snapshot'' st) now h else Some h) = Some h1"
      "(if has_subscribers ''context'' h1 then broadcast prep (blank_envelope ''context.snapshot'' ctx) now h1 else Some h1) = Some h2"
      "(if has_divergence_only h2 then broadcast prep (blank_envelope ''divergence.snapshot'' dv) now h2 else Some h2) = Some h'"
    by (auto simp: repair_tick_def bind_eq_Some_conv)
  have "watch k i h1 \<and> hub_inv (Suc n) h1" using step [OF w inv _ _ r(1)] n by simp
  then have "watch k i h2 \<and> hub_inv (Suc (Suc n)) h2" using step [where m = "Suc n", OF _ _ _ _ r(2)] n by simp
  then show ?thesis using step [where m = "Suc (Suc n)", OF _ _ _ _ r(3)] n by simp
qed

text \<open>Operations on other connections leave this one alone.\<close>

definition same_client :: "nat \<Rightarrow> 'p hub \<Rightarrow> 'p hub \<Rightarrow> bool" where
  "same_client i h h' \<longleftrightarrow>
     hu_next h \<le> hu_next h' \<and> set (hu_resync h') \<subseteq> set (hu_resync h) \<union> - {i}
     \<and> (map_of (hu_clients h') i = map_of (hu_clients h) i \<or> map_of (hu_clients h') i = None)"

lemma same_client_watch: "watch k i h \<Longrightarrow> same_client i h h' \<Longrightarrow> watch k i h'"
  by (auto simp: same_client_def watch_def)

lemma same_client_refl [simp]: "same_client i h h"
  by (simp add: same_client_def)

lemma same_client_trans: "same_client i h h1 \<Longrightarrow> same_client i h1 h2 \<Longrightarrow> same_client i h h2"
  by (auto simp: same_client_def)

lemma on_client_other: "on_client j f h = Some h' \<Longrightarrow> j \<noteq> i \<Longrightarrow> same_client i h h'"
  by (auto simp: on_client_def same_client_def gomap split: option.splits)

lemma close_client_same: "same_client i h (close_client j h)"
  by (auto simp: close_client_def same_client_def gomap)

lemma resync_clients_other: "resync_clients env now js h = Some h' \<Longrightarrow> i \<notin> set js \<Longrightarrow> same_client i h h'"
  by (induction js arbitrary: h) (auto simp: bind_eq_Some_conv intro: same_client_trans [OF on_client_other])

lemma flush_resync_other: "flush_resync prep st now h = Some h' \<Longrightarrow> i \<notin> set (hu_resync h) \<Longrightarrow> same_client i h h'"
proof -
  assume f: "flush_resync prep st now h = Some h'" and i: "i \<notin> set (hu_resync h)"
  let ?h1 = "h\<lparr>hu_resync := [], hu_resync_last := now, hu_timer := None\<rparr>"
  have s: "same_client i h ?h1" by (simp add: same_client_def)
  show ?thesis
  proof (cases "hu_resync_closing h \<or> hu_closing h \<or> hu_resync h = []")
    case True
    then have "h' = h \<or> h' = ?h1" using f by (cases "hu_resync_closing h") (auto simp: flush_resync_def)
    then show ?thesis using s by auto
  next
    case False
    show ?thesis
    proof (cases "prep (blank_envelope ''state.snapshot'' st)")
      case (Inl err)
      then show ?thesis using f False s by (auto simp: flush_resync_def Let_def)
    next
      case (Inr e)
      then have "resync_clients e now (hu_resync h) ?h1 = Some h'" using f False by (simp add: flush_resync_def Let_def)
      from same_client_trans [OF s resync_clients_other [OF this i]] show ?thesis .
    qed
  qed
qed

lemma join_other:
  assumes "join prep st now h = Some h'" and i: "i < hu_next h"
  shows "same_client i h h'"
proof -
  let ?h1 = "h\<lparr>hu_pending := hu_pending h - 1\<rparr>"
  let ?h2 = "\<lambda>c. ?h1\<lparr>hu_clients := gput (hu_next h) c (hu_clients h), hu_next := hu_next h + 1\<rparr>"
  have s: "same_client i h (?h2 c)" "same_client i h ?h1" for c
    using i by (auto simp: same_client_def gomap)
  note closed = same_client_trans [OF s(1) close_client_same]
  show ?thesis
  proof (cases "hu_closing h")
    case True
    then show ?thesis using assms(1) s(2) by (simp add: join_def)
  next
    case joined: False
    show ?thesis
    proof (cases "prep (blank_envelope ''state.snapshot'' st)")
      case (Inl err)
      then show ?thesis using assms(1) joined closed by (auto simp: join_def Let_def)
    next
      case (Inr env)
      then obtain c ok where q: "queue_locked env now (new_ws_client 0) = Some (c, ok)"
        using assms(1) joined by (auto simp: join_def Let_def split: option.splits)
      show ?thesis
      proof (cases ok)
        case True
        then have "h' = (?h2 (new_ws_client 0))\<lparr>hu_clients := gput (hu_next h) c (hu_clients (?h2 (new_ws_client 0)))\<rparr>"
          using assms(1) joined Inr q by (simp add: join_def Let_def)
        then show ?thesis using i by (auto simp: same_client_def gomap)
      next
        case False
        then show ?thesis using assms(1) joined Inr q closed by (auto simp: join_def Let_def)
      qed
    qed
  qed
qed

lemma request_resync_frame:
  "hu_clients (request_resync j now h) = hu_clients h" "hu_next (request_resync j now h) = hu_next h"
  "set (hu_resync (request_resync j now h)) \<subseteq> insert j (set (hu_resync h))"
  by (auto simp: request_resync_def Let_def)

lemma run_command_other:
  assumes "run_command prep none j cmd now h = Some h'" and "j \<noteq> i"
  shows "same_client i h h'"
proof (cases cmd)
  case Resync
  then show ?thesis using assms request_resync_frame [of j now h] by (auto simp: run_command_def same_client_def)
qed (use assms in \<open>auto simp: run_command_def dest: on_client_other\<close>)

text \<open>The three commands of the session.\<close>

lemma types_of_set_channels: "types_of (set_channels chs b c) = types_of c"
  unfolding set_channels_def types_of_def by (induction chs arbitrary: c) simp_all

lemma queue_inv_set_channels: "queue_inv (set_channels chs b c) = queue_inv c"
  unfolding set_channels_def by (induction chs arbitrary: c) simp_all

lemma narrowed_subscribe: "narrowed 0 c \<Longrightarrow> narrowed 1 (set_channels chs b c)"
  by (simp add: narrowed_def types_of_set_channels)

lemma narrowed_unsubscribe:
  "narrowed 1 c \<Longrightarrow> narrowed 2 (set_channels [''state'', ''blocks'', ''divergence'', ''votes''] False c)"
  unfolding narrowed_def types_of_set_channels by (simp add: set_channels_def subscribed_def gomap)

lemma narrowed_ping: "narrowed 2 c \<Longrightarrow> narrowed 3 c"
  by (simp add: narrowed_def)

lemma on_client_watch:
  assumes "watch k i h" and "on_client i f h = Some h'"
    and "\<And>c c'. map_of (hu_clients h) i = Some c \<Longrightarrow> f c = Some c' \<Longrightarrow> narrowed k' c' \<and> queue_inv c'"
  shows "watch k' i h'"
  using assms by (auto simp: on_client_def watch_def gomap split: option.splits)

lemma ping_watch:
  assumes w: "watch 2 i h" and inv: "hub_inv n h" "n < 2 ^ 64 - 1" and prep: "prep_ok prep"
    and p: "on_client i (queue_prepared prep (blank_envelope ''pong'' none) now) h = Some h'"
  shows "watch 3 i h'"
proof (rule on_client_watch [OF w p])
  fix c c' assume c: "map_of (hu_clients h) i = Some c" "queue_prepared prep (blank_envelope ''pong'' none) now c = Some c'"
  have n: "narrowed 3 c \<and> queue_inv c" using watchD [OF w c(1)] narrowed_ping by blast
  have small: "unat (wc_seq c) < 2 ^ 64 - 1"
    using inv gmap_all_lookup [OF _ c(1)] by (fastforce simp: hub_inv_def client_ok_def)
  show "narrowed 3 c' \<and> queue_inv c'"
  proof (cases "prep (blank_envelope ''pong'' none)")
    case (Inl err)
    then have "c' = signal_close c" using c(2) by (simp add: queue_prepared_def)
    moreover have "subseq (types_of (signal_close c)) (types_of c)" "wc_subs (signal_close c) = wc_subs c"
      using list_emb_append_mono [of "(=)" "map en_type (wc_sent c)" "map en_type (wc_sent c)" "[]"]
      by (auto simp: signal_close_def types_of_def)
    ultimately show ?thesis using n narrowed_subseq signal_close_inv by blast
  next
    case (Inr e)
    from prep_okD [OF prep blank_wire(1) this] have "en_type e = ''pong''" "0 \<le> en_size e" by simp_all
    with queue_env_watch [OF n small] c(2) Inr show ?thesis by (simp add: queue_prepared_def quiet_def)
  qed
qed

lemma own_message_watch:
  assumes w: "watch k i h" and inv: "hub_inv n h" "n < 2 ^ 64 - 1" and prep: "prep_ok prep" and k: "k < 3"
    and s: "hub_step prep none (Message i (Some (session_commands ! k)) now) (bs, h) = Some (bs', h')"
  shows "watch (Suc k) i h'"
proof (cases "map_of (hu_clients h) i")
  case None
  then have "h' = h" using s by simp
  then show ?thesis using w None by (simp add: watch_def)
next
  case (Some c)
  let ?cmd = "session_commands ! k"
  have gone: "watch (Suc k) i (close_client i h)"
    using w by (auto simp: watch_def close_client_def gomap)
  from s Some consider "h' = close_client i h" | "run_command prep none i ?cmd now h = Some h'"
    by (auto simp: read_message_def split: prod.splits bool.splits)
  then show ?thesis
  proof cases
    case 2
    consider "k = 0" | "k = 1" | "k = 2" using k by linarith
    then show ?thesis
    proof cases
      case 1
      with w show ?thesis
        using on_client_watch [OF w, of _ _ 1] 2 narrowed_subscribe watchD [OF w]
        by (fastforce simp: session_commands_list run_command_def queue_inv_set_channels)
    next
      case one: 2
      with w show ?thesis
        using on_client_watch [OF w, of _ _ 2] 2 narrowed_unsubscribe watchD [OF w]
        by (fastforce simp: session_commands_list run_command_def queue_inv_set_channels numeral_2_eq_2)
    next
      case 3
      with w 2 ping_watch [OF _ inv prep] show ?thesis
        by (simp add: session_commands_list run_command_def numeral_3_eq_3 numeral_2_eq_2)
    qed
  qed (use gone in simp)
qed

lemma other_step_watch:
  assumes w: "watch k i h" and inv: "hub_inv n h" and n: "n + 2 < 2 ^ 64 - 1" and prep: "prep_ok prep"
    and s: "hub_step prep none op (bs, h) = Some (bs', h')" and op: "\<And>cmd now. op \<noteq> Message i cmd now"
  shows "watch k i h'"
proof (cases op)
  case Reserve
  have "same_client i h (fst (reserve h))" by (simp add: reserve_def same_client_def)
  then show ?thesis using s Reserve same_client_watch [OF w] by simp
next
  case UpgradeFailed
  have "same_client i h (upgrade_failed h)" by (simp add: upgrade_failed_def same_client_def)
  then show ?thesis using s w UpgradeFailed same_client_watch [OF w] by (simp split: if_splits)
next
  case (Join st now)
  then show ?thesis using s w same_client_watch [OF w join_other] by (auto simp: watch_def split: if_splits)
next
  case (BusEvent ev p now)
  then show ?thesis using s bus_event_watch [OF w inv _ prep] n by auto
next
  case (Tick st ctx dv now)
  then show ?thesis using s repair_tick_watch [OF w inv n prep] by auto
next
  case (Message j cmd now)
  then have "j \<noteq> i" using op by auto
  note cmd = same_client_watch [OF w run_command_other [OF _ this]] and close = same_client_watch [OF w close_client_same]
  show ?thesis
    using s w by (auto simp: Message read_message_def intro: cmd close split: option.splits prod.splits bool.splits)
next
  case (FlushResync st now)
  then show ?thesis using s w same_client_watch [OF w flush_resync_other] by (auto simp: watch_def)
next
  case (WriteFrame j now ok)
  show ?thesis
  proof (cases "j = i")
    case True
    then have o: "on_client i (\<lambda>c. Some (write_next now ok c)) h = Some h'" using s WriteFrame by auto
    show ?thesis
    proof (rule on_client_watch [OF w o])
      fix c c' assume "map_of (hu_clients h) i = Some c" and c': "Some (write_next now ok c) = Some c'"
      then have "narrowed k c" "queue_inv c" using watchD [OF w] by auto
      with narrowed_subseq [OF _ write_next_types] write_next_inv [of c now ok] c' show "narrowed k c' \<and> queue_inv c'"
        by auto
    qed
  next
    case False
    then show ?thesis using s WriteFrame same_client_watch [OF w on_client_other] by auto
  qed
next
  case (Leave j)
  then show ?thesis using s same_client_watch [OF w close_client_same] by auto
next
  case Shutdown
  then show ?thesis using s w by (auto simp: shutdown_def watch_def)
qed

text \<open>Connection numbers are never used again.\<close>

definition ids :: "'p hub \<Rightarrow> nat set" where
  "ids h = dom (map_of (hu_clients h))"

definition grows :: "'p hub \<Rightarrow> 'p hub \<Rightarrow> bool" where
  "grows h h' \<longleftrightarrow>
     hu_next h \<le> hu_next h' \<and> ids h' \<subseteq> ids h \<union> {hu_next h..<hu_next h'} \<and> set (hu_resync h') \<subseteq> set (hu_resync h) \<union> ids h"

definition numbers_ok :: "'p hub \<Rightarrow> bool" where
  "numbers_ok h \<longleftrightarrow> ids h \<union> set (hu_resync h) \<subseteq> {..<hu_next h}"

lemma numbers_grow: "numbers_ok h \<Longrightarrow> grows h h' \<Longrightarrow> numbers_ok h'"
proof -
  assume n: "numbers_ok h" and g: "grows h h'"
  have "ids h' \<union> set (hu_resync h') \<subseteq> {..<hu_next h} \<union> {hu_next h..<hu_next h'}"
    using n g unfolding numbers_ok_def grows_def by blast
  also have "\<dots> \<subseteq> {..<hu_next h'}" using g by (auto simp: grows_def)
  finally show ?thesis by (simp add: numbers_ok_def)
qed

lemma grows_refl [simp]: "grows h h"
  by (auto simp: grows_def)

lemma grows_same_ids:
  "hu_next h' = hu_next h \<Longrightarrow> ids h' \<subseteq> ids h \<Longrightarrow> set (hu_resync h') \<subseteq> set (hu_resync h) \<union> ids h \<Longrightarrow> grows h h'"
  by (auto simp: grows_def)

lemma grows_trans:
  "grows h h1 \<Longrightarrow> grows h1 h2 \<Longrightarrow> hu_next h1 = hu_next h \<Longrightarrow> grows h h2"
  unfolding grows_def by auto

lemma on_client_grows: "on_client j f h = Some h' \<Longrightarrow> grows h h' \<and> hu_next h' = hu_next h"
  by (auto simp: on_client_def ids_def gomap intro!: grows_same_ids split: option.splits if_splits)

lemma broadcast_grows: "broadcast prep env now h = Some h' \<Longrightarrow> grows h h' \<and> hu_next h' = hu_next h"
  using each_client_lookup
  by (fastforce simp: broadcast_def ids_def bind_eq_Some_conv intro!: grows_same_ids split: if_splits sum.splits)

lemma close_client_grows: "grows h (close_client j h) \<and> hu_next (close_client j h) = hu_next h"
  by (auto simp: close_client_def ids_def gomap intro!: grows_same_ids split: if_splits)

lemma resync_clients_grows: "resync_clients env now js h = Some h' \<Longrightarrow> grows h h' \<and> hu_next h' = hu_next h"
proof (induction js arbitrary: h)
  case (Cons j js)
  then obtain h1 where "on_client j (queue_env env now) h = Some h1" "resync_clients env now js h1 = Some h'"
    by (auto simp: bind_eq_Some_conv)
  with Cons.IH [of h1] on_client_grows [of j _ h h1] show ?case using grows_trans [of h h1 h'] by auto
qed simp

lemma flush_resync_grows: "flush_resync prep st now h = Some h' \<Longrightarrow> grows h h'"
proof -
  assume f: "flush_resync prep st now h = Some h'"
  let ?h1 = "h\<lparr>hu_resync := [], hu_resync_last := now, hu_timer := None\<rparr>"
  have s: "grows h ?h1" by (simp add: grows_def ids_def)
  show ?thesis
  proof (cases "hu_resync_closing h \<or> hu_closing h \<or> hu_resync h = []")
    case True
    then have "h' = h \<or> h' = ?h1" using f by (cases "hu_resync_closing h") (auto simp: flush_resync_def)
    then show ?thesis using s by auto
  next
    case False
    show ?thesis
    proof (cases "prep (blank_envelope ''state.snapshot'' st)")
      case (Inl err)
      then show ?thesis using f False s by (auto simp: flush_resync_def Let_def)
    next
      case (Inr e)
      then have "resync_clients e now (hu_resync h) ?h1 = Some h'" using f False by (simp add: flush_resync_def Let_def)
      from resync_clients_grows [OF this] grows_trans [OF s, of h'] show ?thesis by simp
    qed
  qed
qed

lemma repair_tick_grows:
  assumes "repair_tick prep st ctx dv now h = Some h'"
  shows "grows h h'"
proof -
  have step: "grows m m' \<and> hu_next m' = hu_next m" if "(if b then broadcast prep (blank_envelope ty p) now m else Some m) = Some m'" for b ty p m m'
    using that by (auto split: if_splits dest: broadcast_grows)
  from assms obtain h1 h2 where r:
      "(if has_subscribers ''state'' h then broadcast prep (blank_envelope ''state.snapshot'' st) now h else Some h) = Some h1"
      "(if has_subscribers ''context'' h1 then broadcast prep (blank_envelope ''context.snapshot'' ctx) now h1 else Some h1) = Some h2"
      "(if has_divergence_only h2 then broadcast prep (blank_envelope ''divergence.snapshot'' dv) now h2 else Some h2) = Some h'"
    by (auto simp: repair_tick_def bind_eq_Some_conv)
  from step [OF r(1)] step [OF r(2)] step [OF r(3)] show ?thesis using grows_trans by metis
qed

lemma join_grows: "join prep st now h = Some h' \<Longrightarrow> grows h h'"
  by (auto simp: join_def close_client_def grows_def ids_def gomap Let_def
      split: if_splits sum.splits option.splits prod.splits bool.splits)

lemma run_command_grows:
  assumes "run_command prep none j cmd now h = Some h'" and "j \<in> ids h"
  shows "grows h h'"
proof (cases cmd)
  case Resync
  then have h': "h' = request_resync j now h" using assms by (simp add: run_command_def)
  have "set (hu_resync h') \<subseteq> set (hu_resync h) \<union> ids h"
    using request_resync_frame(3) [of j now h] assms(2) unfolding h' by blast
  then show ?thesis by (intro grows_same_ids) (simp_all add: h' ids_def request_resync_frame)
qed (use assms in \<open>auto simp: run_command_def dest: on_client_grows\<close>)

lemma hub_step_grows:
  assumes "hub_step prep none op (bs, h) = Some (bs', h')"
  shows "grows h h'"
proof (cases op)
  case (Message j cmd now)
  show ?thesis
  proof (cases "j \<in> ids h")
    case True
    then obtain c where "map_of (hu_clients h) j = Some c" by (auto simp: ids_def)
    with assms consider "h' = h" | "h' = close_client j h" | c where "run_command prep none j c now h = Some h'"
      by (auto simp: Message read_message_def split: prod.splits bool.splits option.splits)
    then show ?thesis
    proof cases
      case 3
      from run_command_grows [OF this True] show ?thesis .
    qed (simp_all add: close_client_grows)
  next
    case False
    then show ?thesis using assms by (auto simp: Message ids_def domIff)
  qed
next
  case Reserve
  have "grows h (fst (reserve h))" by (auto simp: reserve_def grows_def ids_def)
  then show ?thesis using assms Reserve by simp
next
  case UpgradeFailed
  have "grows h (upgrade_failed h)" by (auto simp: upgrade_failed_def grows_def ids_def)
  then show ?thesis using assms UpgradeFailed by (auto split: if_splits)
next
  case (Join st now)
  then show ?thesis using assms by (auto split: if_splits dest: join_grows)
next
  case (BusEvent ev p now)
  then show ?thesis using assms by (auto simp: bus_event_def split: option.splits dest: broadcast_grows)
next
  case (Tick st ctx dv now)
  then show ?thesis using assms by (auto dest: repair_tick_grows)
next
  case (FlushResync st now)
  then show ?thesis using assms by (auto dest: flush_resync_grows)
next
  case (WriteFrame j now ok)
  then show ?thesis using assms by (auto dest: on_client_grows)
next
  case (Leave j)
  then show ?thesis using assms close_client_grows [of h j] by auto
next
  case Shutdown
  then show ?thesis using assms by (auto simp: shutdown_def grows_def ids_def)
qed

lemma run_hub_numbers:
  "numbers_ok h \<Longrightarrow> run_hub prep none ops (bs, h) = Some (bs', h') \<Longrightarrow> numbers_ok h'"
proof (induction ops arbitrary: bs h)
  case (Cons op ops)
  then obtain bs1 h1 where "hub_step prep none op (bs, h) = Some (bs1, h1)" "run_hub prep none ops (bs1, h1) = Some (bs', h')"
    by (auto split: option.splits)
  from Cons.IH [OF numbers_grow [OF Cons.prems(1) hub_step_grows [OF this(1)]] this(2)] show ?case .
qed simp

text \<open>The messages the hub reads from connection \<open>i\<close> in a run.\<close>

fun messages_of :: "nat \<Rightarrow> 'p hub_op list \<Rightarrow> command option list" where
  "messages_of i [] = []"
| "messages_of i (Message j cmd now # ops) = (if j = i then cmd # messages_of i ops else messages_of i ops)"
| "messages_of i (op # ops) = messages_of i ops"

lemma messages_of_other: "(\<And>cmd now. op \<noteq> Message i cmd now) \<Longrightarrow> messages_of i (op # ops) = messages_of i ops"
  by (cases op) auto

lemma run_hub_watch:
  assumes "watch k i h" and "hub_inv n h" and "1 \<le> n" and "n + 3 * length ops < 2 ^ 64 - 1" and "prep_ok prep" and "k \<le> 3"
    and "prefix (messages_of i ops) (drop k (map Some session_commands))"
    and "run_hub prep none ops (bs, h) = Some (bs', h')"
  shows "\<exists>k'. watch k' i h' \<and> hub_inv (n + 3 * length ops) h'"
  using assms
proof (induction ops arbitrary: k n bs h)
  case (Cons op ops)
  have small: "n + 2 < 2 ^ 64 - 1" using Cons.prems(4) by simp
  from hub_step_inv [OF Cons.prems(2) small Cons.prems(5,3), of none op bs] Cons.prems(8)
  obtain bs1 h1 where s: "hub_step prep none op (bs, h) = Some (bs1, h1)" "hub_inv (n + 3) h1"
      "run_hub prep none ops (bs1, h1) = Some (bs', h')"
    by (auto split: option.splits)
  have next_n: "1 \<le> n + 3" "n + 3 + 3 * length ops < 2 ^ 64 - 1" "n + 3 + 3 * length ops = n + 3 * length (op # ops)"
    using Cons.prems(4) by simp_all
  show ?case
  proof (cases "\<exists>cmd now. op = Message i cmd now")
    case True
    then obtain cmd now where op: "op = Message i cmd now" by blast
    have p: "prefix (cmd # messages_of i ops) (drop k (map Some session_commands))" using Cons.prems(7) by (simp add: op)
    then have "drop k (map Some session_commands) \<noteq> []" by auto
    then have k: "k < 3" by (simp add: commands_length)
    then have "drop k (map Some session_commands) = Some (session_commands ! k) # drop (Suc k) (map Some session_commands)"
      using Cons_nth_drop_Suc [of k "map Some session_commands", symmetric] by (simp add: commands_length)
    with p have c: "cmd = Some (session_commands ! k)" "prefix (messages_of i ops) (drop (Suc k) (map Some session_commands))"
      by simp_all
    have "watch (Suc k) i h1"
      using own_message_watch [OF Cons.prems(1,2) _ Cons.prems(5) k] s(1) small by (simp only: op c(1))
    from Cons.IH [OF this s(2) next_n(1,2) Cons.prems(5) _ c(2) s(3)] k show ?thesis by (simp add: next_n(3))
  next
    case False
    then have o: "op \<noteq> Message i cmd now" for cmd now by blast
    have "watch k i h1" by (rule other_step_watch [OF Cons.prems(1,2) small Cons.prems(5) s(1) o])
    from Cons.IH [OF this s(2) next_n(1,2) Cons.prems(5,6) _ s(3)] Cons.prems(7) messages_of_other [OF o, of ops]
    show ?thesis by (simp add: next_n(3))
  qed
qed auto

section \<open>Reading the stream\<close>

text \<open>The frame as the session sees it; the decoded fields of its payload are given.\<close>

definition seen_frame :: "('p \<Rightarrow> int) \<Rightarrow> ('p \<Rightarrow> string) \<Rightarrow> ('p \<Rightarrow> string list) \<Rightarrow> 'p envelope \<Rightarrow> frame_view" where
  "seen_frame height epoch caps env =
     \<lparr>fv_type = en_type env, fv_seq = en_seq env, fv_height = en_height env, fv_payload_height = height (en_payload env),
      fv_epoch = epoch (en_payload env), fv_caps = caps (en_payload env), fv_length = length (wire_bytes env)\<rparr>"

lemma run_frame [simp]:
  "lr_errors (note_frame p f r) = lr_errors r" "lr_baseline (note_frame p f r) = lr_baseline r"
  "lr_gaps (note_frame p f r) = (if fv_seq f \<noteq> p + 1 then count (lr_gaps r) else lr_gaps r)"
  "lr_errors (mark_investigator i g r) = lr_errors r" "lr_baseline (mark_investigator i g r) = lr_baseline r"
  "lr_gaps (mark_investigator i g r) = lr_gaps r"
  "lr_errors (record_latency draw l x r) = lr_errors r" "lr_baseline (record_latency draw l x r) = lr_baseline r"
  "lr_gaps (record_latency draw l x r) = lr_gaps r"
  by (simp_all add: note_frame_def mark_investigator_def record_latency_def Let_def split: prod.split)

lemma start_polling_frame:
  "start_polling i b (s, r) = (s', r') \<Longrightarrow>
     lr_errors r' = lr_errors r \<and> lr_baseline r' = lr_baseline r \<and> lr_gaps r' = lr_gaps r
     \<and> se_first s' = se_first s \<and> se_context_only s' = se_context_only s \<and> se_barrier s' = se_barrier s
     \<and> se_previous s' = se_previous s"
  by (auto simp: start_polling_def Let_def)

lemma session_frame_ok:
  assumes "se_context_only s \<longrightarrow> quiet (fv_type f)"
    and "se_first s \<longrightarrow> fv_type f = ''state.snapshot'' \<and> fv_seq f = 1"
  shows "\<exists>s' r'. session_frame draw True ms i f (s, r) = Inr (s', r') \<and> lr_errors r' = lr_errors r
           \<and> lr_gaps r' = (if fv_seq f \<noteq> se_previous s + 1 then count (lr_gaps r) else lr_gaps r)
           \<and> lr_baseline r' = (if se_first s then count (lr_baseline r) else lr_baseline r)
           \<and> \<not> se_first s' \<and> se_previous s' = fv_seq f
           \<and> (se_context_only s' \<longrightarrow> se_context_only s \<or> fv_type f = ''pong'')"
proof -
  let ?s1 = "s\<lparr>se_previous := fv_seq f\<rparr>" and ?r1 = "note_frame (se_previous s) f r"
  obtain s2 r2 where b: "pass_barrier i f (?s1, ?r1) = (s2, r2)" by fastforce
  have b_frame: "lr_errors r2 = lr_errors r" "lr_baseline r2 = lr_baseline r" "se_first s2 = se_first s"
    "lr_gaps r2 = (if fv_seq f \<noteq> se_previous s + 1 then count (lr_gaps r) else lr_gaps r)"
    "se_previous s2 = fv_seq f" "se_context_only s2 \<longrightarrow> se_context_only s \<or> fv_type f = ''pong''"
  proof -
    have "lr_errors r2 = lr_errors r \<and> lr_baseline r2 = lr_baseline r \<and> se_first s2 = se_first s
      \<and> lr_gaps r2 = (if fv_seq f \<noteq> se_previous s + 1 then count (lr_gaps r) else lr_gaps r)
      \<and> se_previous s2 = fv_seq f \<and> (se_context_only s2 \<longrightarrow> se_context_only s \<or> fv_type f = ''pong'')"
    proof (cases "se_barrier s \<and> fv_type f = ''pong''")
      case True
      then have "start_polling i (se_compact s) (?s1\<lparr>se_barrier := False, se_context_only := True\<rparr>, ?r1) = (s2, r2)"
        using b by (simp add: pass_barrier_def)
      from start_polling_frame [OF this] True show ?thesis by simp
    next
      case False
      then have "s2 = ?s1" "r2 = ?r1" using b by (auto simp: pass_barrier_def)
      then show ?thesis by simp
    qed
    then show "lr_errors r2 = lr_errors r" "lr_baseline r2 = lr_baseline r" "se_first s2 = se_first s"
      "lr_gaps r2 = (if fv_seq f \<noteq> se_previous s + 1 then count (lr_gaps r) else lr_gaps r)"
      "se_previous s2 = fv_seq f" "se_context_only s2 \<longrightarrow> se_context_only s \<or> fv_type f = ''pong''"
      by blast+
  qed
  define s3 where "s3 = note_heights f s2"
  have s3: "se_first s3 = se_first s" "se_previous s3 = fv_seq f" "se_context_only s3 = se_context_only s2"
    by (simp_all add: s3_def note_heights_def Let_def b_frame)
  have pass: "\<not> (se_context_only ?s1 \<and> fv_type f \<noteq> ''context.snapshot'' \<and> fv_type f \<noteq> ''pong'')"
    using assms(1) by (auto simp: quiet_def)
  have step: "session_frame draw True ms i f (s, r)
      = (if se_first s3 then first_frame draw True ms i f (s3, r2)
         else Inr (s3, r2))"
    using pass b by (auto simp: session_frame_def Let_def s3_def)
  show ?thesis
  proof (cases "se_first s")
    case False
    then show ?thesis using step s3 b_frame by auto
  next
    case True
    have "\<exists>s4 r4. first_frame draw True ms i f (s3, r2) = Inr (s4, r4) \<and> lr_errors r4 = lr_errors r2
        \<and> lr_gaps r4 = lr_gaps r2 \<and> lr_baseline r4 = count (lr_baseline r2) \<and> \<not> se_first s4
        \<and> se_previous s4 = se_previous s3 \<and> se_context_only s4 = se_context_only s3"
      using assms(2) True by (auto simp: first_frame_def start_polling_def Let_def)
    then show ?thesis using step s3 b_frame True by auto
  qed
qed

text \<open>Gaps in a stream of rising numbers are numbers that are missing.\<close>

fun gaps :: "u64 \<Rightarrow> u64 list \<Rightarrow> nat" where
  "gaps p [] = 0"
| "gaps p (x # xs) = (if x \<noteq> p + 1 then 1 else 0) + gaps x xs"

lemma gaps_bound:
  assumes "sorted_wrt (<) (map unat xs)" and "\<And>x. x \<in> set xs \<Longrightarrow> unat p < unat x \<and> unat x \<le> m"
  shows "unat p + length xs + gaps p xs \<le> max m (unat p)"
  using assms
proof (induction xs arbitrary: p)
  case (Cons x xs)
  have x: "unat p < unat x" "unat x \<le> m" using Cons.prems(2) by auto
  have "unat x + length xs + gaps x xs \<le> max m (unat x)"
    using Cons.prems by (intro Cons.IH) auto
  moreover have "unat p + 1 + (if x \<noteq> p + 1 then 1 else 0) \<le> unat x"
  proof (cases "x = p + 1")
    case False
    have "unat x < 2 ^ 64" by (rule unat_lt_64)
    with x(1) have "unat (p + 1) = unat p + 1" using unat_add_small [of p 1] by simp
    then have "unat x \<noteq> unat p + 1" using False by (metis word_eq_iff_unsigned)
    with x(1) False show ?thesis by simp
  qed (use x(1) in simp)
  ultimately show ?case using x(2) by simp
qed simp

lemma gaps_append: "gaps p (xs @ ys) = gaps p xs + gaps (if xs = [] then p else last xs) ys"
  by (induction xs arbitrary: p) auto

lemma gaps_drops:
  assumes "queue_inv c" and "\<not> wc_closed c"
  shows "gaps 0 (map en_seq (wc_sent c)) \<le> unat (wc_dropped c)"
proof -
  let ?xs = "map en_seq (frames c)"
  have num: "sorted_wrt (<) (map unat ?xs)" "\<And>x. x \<in> set ?xs \<Longrightarrow> unat (0 :: u64) < unat x \<and> unat x \<le> unat (wc_seq c)"
    "unat (wc_seq c) = length (frames c) + unat (wc_dropped c)"
    using assms by (auto simp: queue_inv_def numbered_def list_all_iff comp_def Suc_le_eq)
  have "length ?xs + gaps 0 ?xs \<le> unat (wc_seq c)" using gaps_bound [OF num(1,2)] by simp
  then have "gaps 0 ?xs \<le> unat (wc_dropped c)" using num(3) by simp
  then show ?thesis by (simp add: gaps_append)
qed

lemma count_bounds: "int64_min \<le> n \<Longrightarrow> n \<le> k \<Longrightarrow> int64_min \<le> count n \<and> count n \<le> k + 1"
proof -
  assume n: "int64_min \<le> n" "n \<le> k"
  show ?thesis
  proof (cases "n + 1 \<le> int64_max")
    case True
    then show ?thesis using n i64_id [of "n + 1"] by (simp add: count_def)
  next
    case False
    then have "int64_max \<le> n" by simp
    moreover have "int64_min \<le> count n \<and> count n \<le> int64_max" by (simp add: count_def i64_range)
    ultimately show ?thesis using n by simp
  qed
qed

lemma first_queued:
  fixes env :: "'p envelope"
  assumes "queue_locked env now (new_ws_client 0) = Some (c, True)" and "en_type env = ''state.snapshot''"
  shows "types_of c = [''state.snapshot'']" "wc_subs c = wc_subs (new_ws_client 0)"
proof -
  have fit: "\<not> en_size env > queue_bytes" using assms(1) by (auto simp: queue_locked_def new_ws_client_def Let_def split: if_splits)
  then have "make_room queue_messages (en_size env) now ((new_ws_client 0 :: 'p ws_client)\<lparr>wc_seq := 1\<rparr>)
      = Some ((new_ws_client 0)\<lparr>wc_seq := 1\<rparr>, True)"
    by (subst make_room.simps) (simp add: new_ws_client_def queue_messages_def)
  with assms(1) fit have "c = append_env (env\<lparr>en_seq := 1, en_queued := now\<rparr>) ((new_ws_client 0)\<lparr>wc_seq := 1\<rparr>)"
    by (auto simp: queue_locked_def supersedes_def Let_def new_ws_client_def split: if_splits)
  then show "types_of c = [''state.snapshot'']" "wc_subs c = wc_subs (new_ws_client 0)"
    by (simp_all add: types_of_def append_env_def new_ws_client_def assms(2))
qed

lemma joined_watch:
  assumes "join prep st now h0 = Some h1" and i: "i = hu_next h0" and "\<not> hu_closing h0" and inv: "hub_inv n h1"
    and prep: "prep_ok prep" and resync: "i \<notin> set (hu_resync h0)"
  shows "watch 0 i h1"
proof -
  have "narrowed 0 c" if c: "map_of (hu_clients h1) i = Some c" for c
  proof -
    from assms(1,3) c obtain env where e: "prep (blank_envelope ''state.snapshot'' st) = Inr env"
        "queue_locked env now (new_ws_client 0) = Some (c, True)"
      by (auto simp: join_def close_client_def i gomap Let_def split: sum.splits option.splits prod.splits bool.splits)
    have "en_type env = ''state.snapshot''" using prep_okD [OF prep blank_wire(1) e(1)] by simp
    from first_queued [OF e(2) this] show ?thesis by (simp add: narrowed_def)
  qed
  moreover have "queue_inv c" if "map_of (hu_clients h1) i = Some c" for c
    using inv gmap_all_lookup [OF _ that] by (fastforce simp: hub_inv_def client_ok_def)
  moreover have "i < hu_next h1" "i \<notin> set (hu_resync h1)"
    using assms(1,3) resync by (auto simp: join_def close_client_def i Let_def split: sum.splits option.splits prod.splits bool.splits)
  ultimately show ?thesis by (simp add: watch_def)
qed

lemma session_frames_calm:
  assumes "calm (map fv_type fs)" and "se_context_only s \<longrightarrow> list_all quiet (map fv_type fs)"
    and "se_first s \<longrightarrow> fs \<noteq> [] \<longrightarrow> fv_type (hd fs) = ''state.snapshot'' \<and> fv_seq (hd fs) = 1"
    and "int64_min \<le> lr_gaps r"
  shows "\<exists>s' r'. session_frames draw True ms i fs (s, r) = Inr (s', r') \<and> lr_errors r' = lr_errors r
           \<and> lr_gaps r' \<le> lr_gaps r + int (gaps (se_previous s) (map fv_seq fs))
           \<and> lr_baseline r' = (if se_first s \<and> fs \<noteq> [] then count (lr_baseline r) else lr_baseline r)"
  using assms
proof (induction fs arbitrary: s r)
  case (Cons f fs)
  obtain s1 r1 where f: "session_frame draw True ms i f (s, r) = Inr (s1, r1)" "lr_errors r1 = lr_errors r"
      "lr_gaps r1 = (if fv_seq f \<noteq> se_previous s + 1 then count (lr_gaps r) else lr_gaps r)"
      "lr_baseline r1 = (if se_first s then count (lr_baseline r) else lr_baseline r)" "\<not> se_first s1"
      "se_previous s1 = fv_seq f" "se_context_only s1 \<longrightarrow> se_context_only s \<or> fv_type f = ''pong''"
    using session_frame_ok [of s f draw ms i r] Cons.prems by auto
  have "calm (map fv_type fs)" "se_context_only s1 \<longrightarrow> list_all quiet (map fv_type fs)"
    using Cons.prems(1,2) f(7) by (auto split: if_splits intro: quiet_calm)
  moreover have g: "int64_min \<le> lr_gaps r1"
      "lr_gaps r1 \<le> lr_gaps r + (if fv_seq f \<noteq> se_previous s + 1 then 1 else 0)"
    using f(3) count_bounds [OF Cons.prems(4) order_refl] Cons.prems(4) by auto
  ultimately obtain s' r' where "session_frames draw True ms i fs (s1, r1) = Inr (s', r')" "lr_errors r' = lr_errors r1"
      "lr_gaps r' \<le> lr_gaps r1 + int (gaps (se_previous s1) (map fv_seq fs))" "lr_baseline r' = lr_baseline r1"
    using Cons.IH [of s1 r1] f(5) by auto
  then show ?case using f g(2) by auto
qed simp

text \<open>C37: a session of the load runner reads the hub's stream without an error.  Connection \<open>i\<close> joins the hub
  in any run and sends the commands that narrow it to contexts, behind a ping, at any times, while events,
  ticks and other clients go on; then whatever frames have reached it, the session finds the baseline first,
  never a frame it no longer subscribes to after the answer to its ping, and no more gaps in the numbering
  than the hub counted as drops.\<close>

theorem session_stream_clean:
  assumes "run_hub (prepare head body) none ops0 ([], new_hub) = Some (bs0, h0)"
    and "0 < hu_pending h0" and "\<not> hu_closing h0" and "i = hu_next h0"
    and "run_hub (prepare head body) none (Join st now # ops) (bs0, h0) = Some (bs, h)"
    and "prefix (messages_of i ops) (map Some session_commands)"
    and "length ops0 + length ops < 1000000000000000000"
    and "map_of (hu_clients h) i = Some c" and "0 \<le> lr_gaps r"
  shows "\<exists>s r'. session_frames draw True ms j (map (seen_frame height epoch caps) (wc_sent c)) (new_session b, r) = Inr (s, r')
           \<and> lr_errors r' = lr_errors r
           \<and> lr_baseline r' = (if wc_sent c = [] then lr_baseline r else count (lr_baseline r))
           \<and> (\<not> wc_closed c \<longrightarrow> lr_gaps r' \<le> lr_gaps r + uint (wc_dropped c))"
proof -
  let ?prep = "prepare head body"
  define n where "n = 1 + 3 * length ops0"
  have inv0: "hub_inv n h0" "1 \<le> n" "n + 3 + 3 * length ops < 2 ^ 64 - 1"
  proof -
    have "hub_inv 1 new_hub" by (rule hub_inv_mono [OF new_hub_inv]) simp
    from run_hub_inv [where ops = ops0 and none = none and bs = "[]", OF this order_refl _ prepare_ok [of head body]] assms(1,7)
    show "hub_inv n h0" by (simp add: n_def)
  qed (use assms(7) in \<open>simp_all add: n_def\<close>)
  from assms(5) obtain bs1 h1 where j: "hub_step ?prep none (Join st now) (bs0, h0) = Some (bs1, h1)"
      "run_hub ?prep none ops (bs1, h1) = Some (bs, h)"
    by (auto split: option.splits)
  have inv1: "hub_inv (n + 3) h1"
    using hub_step_inv [where op = "Join st now" and none = none and bs = bs0, OF inv0(1) _ prepare_ok [of head body] inv0(2)] j(1) inv0(3) by auto
  have "numbers_ok h0" using run_hub_numbers [OF _ assms(1)] by (simp add: numbers_ok_def new_hub_def ids_def)
  then have "i \<notin> set (hu_resync h0)" by (auto simp: numbers_ok_def assms(4))
  then have "watch 0 i h1"
    using joined_watch [OF _ assms(4,3) inv1 prepare_ok] j(1) assms(2) by auto
  from run_hub_watch [OF this inv1 _ _ prepare_ok [of head body] _ _ j(2)] inv0 assms(6) obtain k where
      w: "watch k i h" "hub_inv (n + 3 + 3 * length ops) h" by auto
  from watchD [OF w(1) assms(8)] have c: "narrowed k c" "queue_inv c" by auto
  let ?fs = "map (seen_frame height epoch caps) (wc_sent c)"
  have types: "map fv_type ?fs = map en_type (wc_sent c)" and seqs: "map fv_seq ?fs = map en_seq (wc_sent c)"
    by (simp_all add: seen_frame_def comp_def)
  have "subseq (map en_type (wc_sent c)) (types_of c)"
    using list_emb_append_mono [of "(=)" "map en_type (wc_sent c)" "map en_type (wc_sent c)" "[]"] by (simp add: types_of_def)
  then have calm: "calm (map fv_type ?fs)" using c(1) unfolding types narrowed_def by (blast dest: calm_subseq)
  have first: "?fs \<noteq> [] \<longrightarrow> fv_type (hd ?fs) = ''state.snapshot'' \<and> fv_seq (hd ?fs) = 1"
    using c(2) by (auto simp: queue_inv_def numbered_def is_baseline_def seen_frame_def hd_map)
  obtain s' r' where f: "session_frames draw True ms j ?fs (new_session b, r) = Inr (s', r')" "lr_errors r' = lr_errors r"
      "lr_gaps r' \<le> lr_gaps r + int (gaps 0 (map en_seq (wc_sent c)))"
      "lr_baseline r' = (if ?fs \<noteq> [] then count (lr_baseline r) else lr_baseline r)"
    using session_frames_calm [OF calm _ _ _, of "new_session b" r draw ms j] first assms(9)
    unfolding seqs by (auto simp: new_session_def int64_min_def)
  have "lr_baseline r' = (if wc_sent c = [] then lr_baseline r else count (lr_baseline r))" using f(4) by simp
  moreover have "\<not> wc_closed c \<longrightarrow> lr_gaps r' \<le> lr_gaps r + uint (wc_dropped c)"
  proof
    assume "\<not> wc_closed c"
    from gaps_drops [OF c(2) this] f(3) show "lr_gaps r' \<le> lr_gaps r + uint (wc_dropped c)"
      unfolding uint_nat by linarith
  qed
  ultimately show ?thesis using f(1,2) by blast
qed

definition demo_session_ops :: "nat hub_op list" where
  "demo_session_ops =
     WriteFrame 0 0 True # map (\<lambda>cmd. Message 0 (Some cmd) 0) session_commands
       @ [Tick 9 9 9 0, WriteFrame 0 0 True, WriteFrame 0 0 True]"

definition reserved_hub :: "nat hub" where
  "reserved_hub = fst (reserve new_hub)"

definition demo_sent :: "string list option" where
  "demo_sent =
     (case run_hub (prepare plain_head plain_body) 1 (Join 7 0 # demo_session_ops) ([], reserved_hub) of
        None \<Rightarrow> None | Some (bs, h) \<Rightarrow> map_option (\<lambda>c. map en_type (wc_sent c)) (map_of (hu_clients h) 0))"

lemma demo_sent_frames: "demo_sent = Some [''state.snapshot'', ''pong'', ''context.snapshot'']"
  by code_simp

theorem session_stream_clean_witness:
  "\<exists>fs s r. map fv_type fs = [''state.snapshot'', ''pong'', ''context.snapshot'']
     \<and> session_frames (\<lambda>n. 0) True 1 0 fs (new_session 1, new_run 1 0) = Inr (s, r)
     \<and> lr_errors r = 0 \<and> lr_baseline r = 1"
proof -
  let ?run = "run_hub (prepare plain_head plain_body) 1"
  obtain bs h c where c: "?run (Join 7 0 # demo_session_ops) ([], reserved_hub) = Some (bs, h)"
      "map_of (hu_clients h) 0 = Some c" "map en_type (wc_sent c) = [''state.snapshot'', ''pong'', ''context.snapshot'']"
    using demo_sent_frames by (auto simp: demo_sent_def split: option.splits)
  have start: "?run [Reserve] ([], new_hub) = Some ([], reserved_hub)" by (simp add: reserved_hub_def)
  have reserved: "hu_pending reserved_hub = 1" "\<not> hu_closing reserved_hub" "hu_next reserved_hub = 0" by code_simp+
  have messages: "messages_of 0 demo_session_ops = map Some session_commands"
    by (simp add: demo_session_ops_def session_commands_list)
  have run: "lr_errors (new_run 1 0) = 0" "lr_baseline (new_run 1 0) = 0" "lr_gaps (new_run 1 0) = 0" by code_simp+
  let ?fs = "map (seen_frame int (\<lambda>p. ''e'') (\<lambda>p. []) ) (wc_sent c)"
  have "map fv_type ?fs = map en_type (wc_sent c)" by (simp add: seen_frame_def)
  moreover obtain s r where "session_frames (\<lambda>n. 0) True 1 0 ?fs (new_session 1, new_run 1 0) = Inr (s, r)"
      "lr_errors r = 0" "lr_baseline r = count 0"
    using session_stream_clean [OF start _ _ _ c(1) _ _ c(2), of "new_run 1 0"] reserved messages run c(3)
    by (fastforce simp: demo_session_ops_def session_commands_list)
  moreover have "count 0 = 1" by code_simp
  ultimately show ?thesis using c(3) by metis
qed

end
