(* ===== verification/Replay_Server.thy ===== *)
theory Replay_Server
  imports Oracle Load_Gates Go_Format
begin

text \<open>
  The fake node the load tests run against (\<open>internal/testutil/replay/server.go\<close>): its counters, the HTTP
  and RPC answers, the WebSocket peers, and the goroutine that emits the source's events.  An emission is
  two steps, the oracle first and then the counters and the peers, so that a request may fall between them.
  Bodies of requests are given decoded; SHA-256 and the text of a time are parameters.
\<close>

section \<open>The JSON of the source's events\<close>

text \<open>The keys of a Go map are written in order.\<close>

definition round_value :: "int \<Rightarrow> int \<Rightarrow> nat \<Rightarrow> source_validator list \<Rightarrow> json" where
  "round_value height rnd i vs =
     JsObject [(''height'', JsString (format_int height)),
       (''proposer'', JsObject [(''address'', JsString (so_address (vs ! i))), (''index'', JsString (format_int (int i)))]),
       (''round'', JsString (format_int rnd)), (''step'', JsString ''RoundStepPropose'')]"

definition vote_value :: "(int \<Rightarrow> int \<Rightarrow> nat \<Rightarrow> string) \<Rightarrow> fixture_event \<Rightarrow> source_validator list \<Rightarrow> json" where
  "vote_value tm ev vs =
     JsObject [(''Vote'', JsObject
       [(''block_id'', JsObject [(''hash'', JsString (fe_hash ev))]), (''height'', JsString (format_int (fe_height ev))),
        (''round'', JsString (format_int (fe_round ev))),
        (''timestamp'', JsString (tm (fe_height ev) (fe_round ev) (fe_validator ev))), (''type'', js_int (fe_phase ev)),
        (''validator_address'', JsString (so_address (vs ! fe_validator ev))),
        (''validator_index'', JsString (format_int (int (fe_validator ev))))])]"

definition block_value :: "(string \<Rightarrow> string) \<Rightarrow> (int \<Rightarrow> int \<Rightarrow> nat \<Rightarrow> string) \<Rightarrow> int \<Rightarrow> source_validator list \<Rightarrow> json" where
  "block_value sha256 tm height vs =
     JsObject
       [(''block'', JsObject
          [(''data'', JsObject [(''txs'', JsArray [])]),
           (''header'', JsObject
              [(''app_hash'', JsString (source_hash sha256 height 0 ''app'')), (''chain_id'', JsString ''capacity-replay-1''),
               (''height'', JsString (format_int height)),
               (''proposer_address'', JsString (so_address (vs ! nat (height mod int (length vs))))),
               (''time'', JsString (tm height 0 0))])]),
        (''block_id'', JsObject [(''hash'', JsString (source_hash sha256 height 0 ''a''))])]"

definition event_value ::
  "(string \<Rightarrow> string) \<Rightarrow> (int \<Rightarrow> int \<Rightarrow> nat \<Rightarrow> string) \<Rightarrow> source_validator list \<Rightarrow> fixture_event \<Rightarrow> json" where
  "event_value sha256 tm vs ev =
     (if fe_kind ev = ''NewRound'' then round_value (fe_height ev) (fe_round ev) (fe_validator ev) vs
      else if fe_kind ev = ''Vote'' then vote_value tm ev vs
      else block_value sha256 tm (fe_height ev) vs)"

section \<open>The server\<close>

text \<open>A peer: its subscriptions, the frames written to it, and whether its connection was closed.\<close>

record peer =
  pe_subs :: "(string, json) gomap"
  pe_sent :: "json list"
  pe_closed :: bool

record replay_stats =
  rt_profile :: string
  rt_seed :: int
  rt_validators :: int
  rt_height :: int
  rt_round :: int
  rt_committed :: int
  rt_events :: u64
  rt_connections :: u64
  rt_requests :: "(string, u64) gomap"
  rt_unexpected :: u64
  rt_ready :: bool

record replay_server =
  ry_rounds :: int
  ry_stalled :: bool
  ry_history :: int
  ry_validators :: "source_validator list"
  ry_peers :: "(nat, peer) gomap"
  ry_next :: nat
  ry_stats :: replay_stats
  ry_paused :: bool
  ry_oracle :: source_oracle

definition replay_identity :: string where
  "replay_identity = ''cmt-top-local-replay-v1''"

definition new_replay ::
  "(string \<Rightarrow> string) \<Rightarrow> (string \<Rightarrow> string) \<Rightarrow> scenario_options \<Rightarrow> int \<Rightarrow> bool \<Rightarrow> string + replay_server" where
  "new_replay sha256 base64 opts seed stalled =
     (case validate_scenario opts of
        Some err \<Rightarrow> Inl err
      | None \<Rightarrow>
          let vs = source_validators sha256 base64 (sc_profile opts) seed
          in Inr \<lparr>ry_rounds = sc_rounds opts, ry_stalled = stalled, ry_history = sc_history opts, ry_validators = vs,
               ry_peers = [], ry_next = 0,
               ry_stats = \<lparr>rt_profile = sc_profile opts, rt_seed = seed, rt_validators = int (length vs),
                 rt_height = initial_height - sc_history opts + 1, rt_round = 0,
                 rt_committed = initial_height - sc_history opts, rt_events = 0, rt_connections = 0, rt_requests = [],
                 rt_unexpected = 0, rt_ready = False\<rparr>,
               ry_paused = False, ry_oracle = new_oracle vs\<rparr>)"

definition js_word :: "u64 \<Rightarrow> json" where
  "js_word n = js_int (uint n)"

text \<open>\<open>Stats()\<close> as it is served.\<close>

definition stats_json :: "replay_server \<Rightarrow> json" where
  "stats_json s =
     (let st = ry_stats s
      in JsObject
           [(''identity'', JsString replay_identity), (''profile'', JsString (rt_profile st)), (''seed'', js_int (rt_seed st)),
            (''validators'', js_int (rt_validators st)), (''height'', js_int (rt_height st)), (''round'', js_int (rt_round st)),
            (''committedHeight'', js_int (rt_committed st)), (''events'', js_word (rt_events st)),
            (''connections'', js_word (rt_connections st)), (''activeConnections'', js_int (int (length (ry_peers s)))),
            (''requests'', JsObject (map (\<lambda>(k, n). (k, js_word n)) (sort_key fst (rt_requests st)))),
            (''unexpectedRequests'', js_word (rt_unexpected st)), (''paused'', js_bool (ry_paused s)),
            (''ready'', js_bool (rt_ready st))])"

definition requests_of :: "string \<Rightarrow> replay_server \<Rightarrow> u64" where
  "requests_of name s = (case map_of (rt_requests (ry_stats s)) name of None \<Rightarrow> 0 | Some n \<Rightarrow> n)"

definition set_stats :: "(replay_stats \<Rightarrow> replay_stats) \<Rightarrow> replay_server \<Rightarrow> replay_server" where
  "set_stats f s = s\<lparr>ry_stats := f (ry_stats s)\<rparr>"

definition count_request :: "string \<Rightarrow> replay_server \<Rightarrow> replay_server" where
  "count_request name s = set_stats (\<lambda>st. st\<lparr>rt_requests := gput name (requests_of name s + 1) (rt_requests st)\<rparr>) s"

definition unexpected_request :: "replay_server \<Rightarrow> replay_server" where
  "unexpected_request = set_stats (\<lambda>st. st\<lparr>rt_unexpected := rt_unexpected st + 1\<rparr>)"

section \<open>The RPC and LCD answers\<close>

text \<open>A decoded call: the raw identifier, the method, and the raw text of the height parameter, empty when
  there is none.\<close>

record rpc_call =
  rq_id :: json
  rq_method :: string
  rq_height :: string

definition trim_quotes :: "string \<Rightarrow> string" where
  "trim_quotes s = rev (dropWhile (\<lambda>c. c = CHR 0x22) (rev (dropWhile (\<lambda>c. c = CHR 0x22) s)))"

definition status_result :: "(int \<Rightarrow> int \<Rightarrow> nat \<Rightarrow> string) \<Rightarrow> replay_server \<Rightarrow> json" where
  "status_result tm s =
     (let h = rt_committed (ry_stats s); v = hd (ry_validators s)
      in JsObject
           [(''node_info'', JsObject [(''moniker'', JsString ''Synthetic replay''), (''network'', JsString ''capacity-replay-1''),
               (''version'', JsString ''0.38.21'')]),
            (''sync_info'', JsObject [(''latest_block_height'', JsString (format_int h)),
               (''latest_block_time'', JsString (tm h 0 0))]),
            (''validator_info'', JsObject [(''address'', JsString (so_address v)),
               (''voting_power'', JsString (format_int (so_power v)))])])"

definition validators_result :: "string \<Rightarrow> replay_server \<Rightarrow> json" where
  "validators_result text s =
     (let v = trim_quotes text;
          h = (if v \<noteq> [] \<and> v \<noteq> ''null''
               then (case parse_int64 v of Some n \<Rightarrow> n | None \<Rightarrow> rt_committed (ry_stats s))
               else rt_committed (ry_stats s));
          vals = map (\<lambda>v. JsObject [(''address'', JsString (so_address v)), (''proposer_priority'', JsString ''0''),
                    (''voting_power'', JsString (format_int (so_power v)))]) (ry_validators s);
          n = JsString (format_int (int (length vals)))
      in JsObject [(''block_height'', JsString (format_int h)), (''count'', n), (''total'', n), (''validators'', JsArray vals)])"

definition block_result :: "(string \<Rightarrow> string) \<Rightarrow> (int \<Rightarrow> int \<Rightarrow> nat \<Rightarrow> string) \<Rightarrow> string \<Rightarrow> replay_server \<Rightarrow> json" where
  "block_result sha256 tm text s =
     (let h = (case parse_int64 (trim_quotes text) of
                 Some n \<Rightarrow> if n > 0 then n else rt_committed (ry_stats s)
               | None \<Rightarrow> rt_committed (ry_stats s))
      in block_value sha256 tm h (ry_validators s))"

definition consensus_result :: "replay_server \<Rightarrow> json" where
  "consensus_result s =
     JsObject [(''round_state'', JsObject [(''height/round/step'',
       JsString (format_int (rt_height (ry_stats s)) @ ''/'' @ format_int (rt_round (ry_stats s)) @ ''/3''))])]"

text \<open>An answer: a JSON value, or an error with its status.\<close>

datatype answer = Served json | Refused int string

definition serve_rpc ::
  "(string \<Rightarrow> string) \<Rightarrow> (int \<Rightarrow> int \<Rightarrow> nat \<Rightarrow> string) \<Rightarrow> rpc_call option \<Rightarrow> replay_server \<Rightarrow> answer \<times> replay_server" where
  "serve_rpc sha256 tm call s =
     (case call of
        None \<Rightarrow> (Refused 400 ''bad RPC'', s)
      | Some q \<Rightarrow>
          let s1 = count_request (''rpc.'' @ rq_method q) s;
              reply = (\<lambda>r. (Served (JsObject [(''id'', rq_id q), (''jsonrpc'', JsString ''2.0''), (''result'', r)]), s1))
          in if rq_method q = ''status'' then reply (status_result tm s1)
             else if rq_method q = ''validators'' then reply (validators_result (rq_height q) s1)
             else if rq_method q = ''block'' then reply (block_result sha256 tm (rq_height q) s1)
             else if rq_method q = ''consensus_state'' then reply (consensus_result s1)
             else (Refused 400 ''unexpected RPC method'', unexpected_request s1))"

definition lcd_validators :: "replay_server \<Rightarrow> json" where
  "lcd_validators s =
     JsObject
       [(''pagination'', JsObject [(''next_key'', JsString [])]),
        (''validators'', JsArray (map (\<lambda>(i, v). JsObject
           [(''commission'', JsObject [(''commission_rates'', JsObject [(''rate'', JsString ''0.05'')])]),
            (''consensus_pubkey'', JsObject [(''@type'', JsString ''/cosmos.crypto.ed25519.PubKey''), (''key'', JsString (so_key v))]),
            (''description'', JsObject [(''moniker'', JsString (so_moniker v))]),
            (''operator_address'', JsString (''fixturevaloper'' @ zero_pad 40 (format_int (int i)))),
            (''status'', JsString ''BOND_STATUS_BONDED'')])
          (enumerate 0 (ry_validators s))))]"

definition lcd_upgrade :: json where
  "lcd_upgrade =
     JsObject [(''plan'', JsObject [(''height'', JsString (format_int (initial_height + 1))),
       (''name'', JsString ''synthetic-capacity-upgrade'')])]"

section \<open>The routes\<close>

text \<open>The control command.\<close>

record control =
  ct_paused :: "bool option"
  ct_disconnect :: bool

definition control_field :: "string \<Rightarrow> json \<Rightarrow> control \<Rightarrow> string + control" where
  "control_field k v c =
     (if k = ''paused'' then store (\<lambda>x. c\<lparr>ct_paused := x\<rparr>) (into_bool_pointer v)
      else if k = ''disconnect''
      then store (\<lambda>x. c\<lparr>ct_disconnect := (case x of None \<Rightarrow> ct_disconnect c | Some b \<Rightarrow> b)\<rparr>) (into_bool_pointer v)
      else Inr c)"

definition decode_control :: "json option \<Rightarrow> control option" where
  "decode_control body =
     (case body of
        None \<Rightarrow> None
      | Some v \<Rightarrow>
          (case into_struct control_field \<lparr>ct_paused = None, ct_disconnect = False\<rparr> v of
             Inl err \<Rightarrow> None | Inr c \<Rightarrow> Some c))"

definition close_peers :: "replay_server \<Rightarrow> replay_server" where
  "close_peers s = s\<lparr>ry_peers := gmap_vals (\<lambda>i p. p\<lparr>pe_closed := True\<rparr>) (ry_peers s)\<rparr>"

definition apply_control :: "control \<Rightarrow> replay_server \<Rightarrow> replay_server" where
  "apply_control c s =
     (let s1 = (case ct_paused c of None \<Rightarrow> s | Some b \<Rightarrow> s\<lparr>ry_paused := b\<rparr>)
      in if ct_disconnect c then close_peers s1 else s1)"

text \<open>A request to a path other than that of the WebSocket; the oracle's answer is the value the evidence
  is written as.\<close>

record fixture_request =
  fq_method :: string
  fq_path :: string
  fq_height :: string
  fq_control :: "json option"
  fq_rpc :: "rpc_call option"

definition expected_json :: "(expected_height \<Rightarrow> json) \<Rightarrow> expected_height option \<Rightarrow> json" where
  "expected_json enc x = (case x of None \<Rightarrow> JsNull | Some h \<Rightarrow> enc h)"

definition fixture_http ::
  "(string \<Rightarrow> string) \<Rightarrow> (int \<Rightarrow> int \<Rightarrow> nat \<Rightarrow> string) \<Rightarrow> (expected_height \<Rightarrow> json) \<Rightarrow> fixture_request \<Rightarrow> replay_server
     \<Rightarrow> answer \<times> replay_server" where
  "fixture_http sha256 tm enc q s =
     (if fq_path q = ''/_fixture/stats'' then (Served (stats_json s), s)
      else if fq_path q = ''/_fixture/oracle''
      then (case parse_int64 (fq_height q) of
              None \<Rightarrow> (Refused 400 ''height required'', s)
            | Some h \<Rightarrow> (Served (expected_json enc (map_of (ol_heights (ry_oracle s)) h)), s))
      else if fq_path q = ''/_fixture/control''
      then if fq_method q \<noteq> ''POST'' then (Refused 405 ''POST required'', s)
           else (case decode_control (fq_control q) of
                   None \<Rightarrow> (Refused 400 ''bad command'', s)
                 | Some c \<Rightarrow> let s1 = apply_control c s in (Served (stats_json s1), s1))
      else if fq_path q = ''/cosmos/staking/v1beta1/validators''
      then let s1 = count_request ''lcd.validators'' s in (Served (lcd_validators s1), s1)
      else if fq_path q = ''/cosmos/upgrade/v1beta1/current_plan''
      then (Served lcd_upgrade, count_request ''lcd.upgrade'' s)
      else if fq_path q = ''/'' \<and> fq_method q = ''POST'' then serve_rpc sha256 tm (fq_rpc q) s
      else (Refused 400 ''unexpected fixture request'', unexpected_request s))"

section \<open>Peers\<close>

definition peer_joined :: "replay_server \<Rightarrow> replay_server" where
  "peer_joined s =
     set_stats (\<lambda>st. st\<lparr>rt_connections := rt_connections st + 1\<rparr>)
       (s\<lparr>ry_peers := gput (ry_next s) \<lparr>pe_subs = [], pe_sent = [], pe_closed = False\<rparr> (ry_peers s),
          ry_next := ry_next s + 1\<rparr>)"

definition peer_left :: "nat \<Rightarrow> replay_server \<Rightarrow> replay_server" where
  "peer_left i s = s\<lparr>ry_peers := gdel i (ry_peers s)\<rparr>"

record ws_request =
  wr_id :: json
  wr_method :: string
  wr_query :: string

definition subscribed_reply :: "json \<Rightarrow> json" where
  "subscribed_reply rid = JsObject [(''id'', rid), (''jsonrpc'', JsString ''2.0''), (''result'', JsObject [])]"

text \<open>One turn of a peer's reader; \<open>None\<close> is a failed read.  A failed write ends it too.\<close>

definition peer_request :: "nat \<Rightarrow> ws_request option \<Rightarrow> bool \<Rightarrow> replay_server \<Rightarrow> replay_server" where
  "peer_request i q wrote s =
     (case map_of (ry_peers s) i of
        None \<Rightarrow> s
      | Some p \<Rightarrow>
          (case q of
             None \<Rightarrow> peer_left i s
           | Some r \<Rightarrow>
               if wr_method r \<noteq> ''subscribe'' then peer_left i (unexpected_request s)
               else
                 let s1 = count_request ''ws.subscribe'' s; p1 = p\<lparr>pe_subs := gput (wr_query r) (wr_id r) (pe_subs p)\<rparr>
                 in if wrote \<and> \<not> pe_closed p
                    then s1\<lparr>ry_peers := gput i (p1\<lparr>pe_sent := pe_sent p @ [subscribed_reply (wr_id r)]\<rparr>) (ry_peers s1)\<rparr>
                    else peer_left i s1))"

definition can_start :: "replay_server \<Rightarrow> bool" where
  "can_start s \<longleftrightarrow>
     requests_of ''rpc.validators'' s > 0 \<and> requests_of ''lcd.validators'' s > 0
     \<and> list_ex (\<lambda>(i, p). length (pe_subs p) = 4) (ry_peers s)"

section \<open>Emission\<close>

definition event_query :: "fixture_event \<Rightarrow> string" where
  "event_query ev = ''tm.event='' @ [CHR 0x27] @ fe_kind ev @ [CHR 0x27]"

definition event_frame :: "json \<Rightarrow> json \<Rightarrow> fixture_event \<Rightarrow> json" where
  "event_frame rid v ev =
     JsObject [(''id'', rid), (''jsonrpc'', JsString ''2.0''),
       (''result'', JsObject
          [(''data'', JsObject [(''type'', JsString (''tendermint/event/'' @ fe_kind ev)), (''value'', v)]),
           (''query'', JsString (event_query ev))])]"

text \<open>A peer that subscribed to the kind gets the frame, or is closed when it cannot be written.\<close>

definition write_event :: "bool \<Rightarrow> json \<Rightarrow> fixture_event \<Rightarrow> peer \<Rightarrow> peer" where
  "write_event wrote v ev p =
     (case map_of (pe_subs p) (event_query ev) of
        None \<Rightarrow> p
      | Some rid \<Rightarrow>
          if wrote \<and> \<not> pe_closed p then p\<lparr>pe_sent := pe_sent p @ [event_frame rid v ev]\<rparr> else p\<lparr>pe_closed := True\<rparr>)"

definition note_event :: "fixture_event \<Rightarrow> replay_stats \<Rightarrow> replay_stats" where
  "note_event ev st =
     (let st1 = st\<lparr>rt_events := rt_events st + 1\<rparr>
      in if fe_kind ev = ''NewBlock''
         then st1\<lparr>rt_committed := (if fe_height ev > rt_committed st then fe_height ev else rt_committed st),
                  rt_height := i64 (fe_height ev + 1), rt_round := 0\<rparr>
         else if fe_kind ev = ''NewRound'' then st1\<lparr>rt_height := fe_height ev, rt_round := fe_round ev\<rparr>
         else st1)"

definition publish_event ::
  "(string \<Rightarrow> string) \<Rightarrow> (int \<Rightarrow> int \<Rightarrow> nat \<Rightarrow> string) \<Rightarrow> (nat \<Rightarrow> bool) \<Rightarrow> fixture_event \<Rightarrow> replay_server \<Rightarrow> replay_server" where
  "publish_event sha256 tm wrote ev s =
     (let s1 = set_stats (note_event ev) s; v = event_value sha256 tm (ry_validators s) ev
      in s1\<lparr>ry_peers := gmap_vals (\<lambda>i p. write_event (wrote i) v ev p) (ry_peers s1)\<rparr>)"

section \<open>The emitting goroutine\<close>

text \<open>Where \<open>Run\<close> is: waiting for readers, at a history block, in a round with its remaining events, before
  the block of a height, before a late vote of a stalled height, with an event observed by the oracle and not
  yet published, or ended.\<close>

datatype run_stage =
  AwaitReaders
| Settle
| History int
| InRound int int "fixture_event list"
| BeforeBlock int
| BeforeLate int int
| Publish fixture_event run_stage
| Ended

definition observe_event :: "fixture_event \<Rightarrow> run_stage \<Rightarrow> replay_server \<Rightarrow> (replay_server \<times> run_stage) option" where
  "observe_event ev k s =
     map_option (\<lambda>ol. (s\<lparr>ry_oracle := ol\<rparr>, Publish ev k)) (observe_source ev (ry_oracle s))"

definition late_vote :: "(string \<Rightarrow> string) \<Rightarrow> int \<Rightarrow> int \<Rightarrow> source_validator list \<Rightarrow> fixture_event" where
  "late_vote sha256 h rnd vs = vote_event_of h rnd (length vs - 1) 1 (source_hash sha256 h rnd ''late'')"

definition late_round :: "int \<Rightarrow> int \<Rightarrow> int" where
  "late_round n rounds = n - go_div n rounds * rounds"

text \<open>One step.  \<open>alive\<close> says that the wait of the step, which follows an emission, ended before the context; a
  paused server waits again.  Ending closes the peers.\<close>

fun run_step ::
  "(string \<Rightarrow> string) \<Rightarrow> (int \<Rightarrow> int \<Rightarrow> nat \<Rightarrow> string) \<Rightarrow> bool \<Rightarrow> (nat \<Rightarrow> bool) \<Rightarrow> run_stage \<Rightarrow> replay_server
     \<Rightarrow> (replay_server \<times> run_stage) option" where
  "run_step sha256 tm alive wrote (Publish ev k) s =
     (let s1 = publish_event sha256 tm wrote ev s
      in if alive then Some (s1, k) else Some (close_peers s1, Ended))"
| "run_step sha256 tm alive wrote Ended s = Some (s, Ended)"
| "run_step sha256 tm alive wrote AwaitReaders s =
     (if can_start s then Some (s, Settle) else if alive then Some (s, AwaitReaders) else Some (close_peers s, Ended))"
| "run_step sha256 tm alive wrote Settle s =
     (if alive then Some (s, History (initial_height - ry_history s + 1)) else Some (close_peers s, Ended))"
| "run_step sha256 tm alive wrote (History h) s =
     (if h \<le> initial_height then observe_event (block_event sha256 h) (History (h + 1)) s
      else Some (s, InRound (initial_height + 1) 0 (round_events sha256 (initial_height + 1) 0 (ry_validators s))))"
| "run_step sha256 tm alive wrote (InRound h r []) s =
     (if r + 1 < ry_rounds s then Some (s, InRound h (r + 1) (round_events sha256 h (r + 1) (ry_validators s)))
      else Some (set_stats (\<lambda>st. st\<lparr>rt_ready := True\<rparr>) s, if ry_stalled s then BeforeLate h 0 else BeforeBlock h))"
| "run_step sha256 tm alive wrote (InRound h r (ev # evs)) s =
     (if \<not> alive then Some (close_peers s, Ended)
      else if ry_paused s then Some (s, InRound h r (ev # evs))
      else observe_event ev (InRound h r evs) s)"
| "run_step sha256 tm alive wrote (BeforeBlock h) s =
     (if \<not> alive then Some (close_peers s, Ended)
      else if ry_paused s then Some (s, BeforeBlock h)
      else observe_event (block_event sha256 h)
             (InRound (i64 (h + 1)) 0 (round_events sha256 (i64 (h + 1)) 0 (ry_validators s))) s)"
| "run_step sha256 tm alive wrote (BeforeLate h n) s =
     (if \<not> alive then Some (close_peers s, Ended)
      else if ry_paused s then Some (s, BeforeLate h n)
      else observe_event (late_vote sha256 h (late_round n (ry_rounds s)) (ry_validators s)) (BeforeLate h (i64 (n + 1))) s)"

text \<open>The server's goroutines, interleaved.\<close>

datatype replay_op =
  Advance bool "nat \<Rightarrow> bool"
| Answer fixture_request
| PeerJoins
| PeerSends nat "ws_request option" bool

fun replay_step ::
  "(string \<Rightarrow> string) \<Rightarrow> (int \<Rightarrow> int \<Rightarrow> nat \<Rightarrow> string) \<Rightarrow> (expected_height \<Rightarrow> json) \<Rightarrow> replay_op
     \<Rightarrow> replay_server \<times> run_stage \<Rightarrow> (replay_server \<times> run_stage) option" where
  "replay_step sha256 tm enc (Advance alive wrote) (s, k) = run_step sha256 tm alive wrote k s"
| "replay_step sha256 tm enc (Answer q) (s, k) = Some (snd (fixture_http sha256 tm enc q s), k)"
| "replay_step sha256 tm enc PeerJoins (s, k) = Some (peer_joined s, k)"
| "replay_step sha256 tm enc (PeerSends i q wrote) (s, k) = Some (peer_request i q wrote s, k)"

fun run_replay ::
  "(string \<Rightarrow> string) \<Rightarrow> (int \<Rightarrow> int \<Rightarrow> nat \<Rightarrow> string) \<Rightarrow> (expected_height \<Rightarrow> json) \<Rightarrow> replay_op list
     \<Rightarrow> replay_server \<times> run_stage \<Rightarrow> (replay_server \<times> run_stage) option" where
  "run_replay sha256 tm enc [] sk = Some sk"
| "run_replay sha256 tm enc (op # ops) sk =
     (case replay_step sha256 tm enc op sk of None \<Rightarrow> None | Some sk1 \<Rightarrow> run_replay sha256 tm enc ops sk1)"

end
