(* ===== verification/Replay_Props.thy ===== *)
theory Replay_Props
  imports Replay_Server Load_Run
begin

text \<open>
  The fake node always has evidence for a load run that freezes it: at whatever point of its emission, and
  whatever it is asked meanwhile, the oracle knows the height the node reports, or the block it committed
  last when the round after it has not begun.
\<close>

section \<open>The oracle's heights\<close>

abbreviation known :: "replay_server \<Rightarrow> int set" where
  "known s \<equiv> fst ` set (ol_heights (ry_oracle s))"

lemma observe_source_returns:
  assumes "fe_validator ev < length (ol_validators ol)" and "gmap_ok (ol_heights ol)"
    and "fst ` set (ol_heights ol) \<subseteq> {..fe_height ev}"
  shows "\<exists>ol'. observe_source ev ol = Some ol' \<and> ol_validators ol' = ol_validators ol \<and> gmap_ok (ol_heights ol')
           \<and> fe_height ev \<in> fst ` set (ol_heights ol') \<and> fst ` set (ol_heights ol') \<subseteq> {..fe_height ev}"
proof -
  let ?h = "fe_height ev"
  obtain x where x: "expected_step (ol_validators ol) ev (case map_of (ol_heights ol) ?h of Some h \<Rightarrow> h
      | None \<Rightarrow> new_expected (ol_validators ol) ?h) = Some x"
    using assms(1) by (fastforce simp: expected_step_def note_expected_round_def Let_def)
  let ?hs = "gput ?h x (ol_heights ol)" and ?old = "oldest_key int64_max (gkeys (gput ?h x (ol_heights ol)))"
  have hs: "gmap_ok ?hs" "fst ` set ?hs \<subseteq> {..?h}" "?h \<in> fst ` set ?hs" using assms(2,3) by (auto simp: gomap)
  have "?old \<noteq> ?h" if "length ?hs > oracle_limit"
  proof -
    have "card (fst ` set ?hs) = length ?hs" using hs(1) distinct_card [of "gkeys ?hs"] by simp
    then have "\<not> fst ` set ?hs \<subseteq> {?h}" using that card_mono [of "{?h}" "fst ` set ?hs"] by (auto simp: oracle_limit_def)
    then obtain k where k: "k \<in> fst ` set ?hs" "k \<noteq> ?h" by blast
    then have "k < ?h" using hs(2) by force
    moreover have "?old \<le> k" using k(1) by (intro oldest_key_le) simp
    ultimately show ?thesis by simp
  qed
  then show ?thesis using x hs by (auto simp: observe_source_def Let_def gomap)
qed

section \<open>Where the emission is\<close>

definition emitted_ok :: "source_validator list \<Rightarrow> int \<Rightarrow> fixture_event \<Rightarrow> bool" where
  "emitted_ok vs h ev \<longleftrightarrow> fe_height ev = h \<and> fe_validator ev < length vs \<and> fe_kind ev \<noteq> ''NewBlock''"

text \<open>The heights the counters show, and those after an event.\<close>

definition shown_after :: "fixture_event \<Rightarrow> int \<times> int \<Rightarrow> int \<times> int" where
  "shown_after ev hc =
     (if fe_kind ev = ''NewBlock'' then (fe_height ev + 1, max (fe_height ev) (snd hc))
      else if fe_kind ev = ''NewRound'' then (fe_height ev, snd hc) else hc)"

text \<open>The heights known to the oracle, what the counters show, and whether the node is ready, at each stage of
  an emission that began with height \<open>a\<close> and goes no further than \<open>b\<close>.\<close>

fun stage_ok :: "source_validator list \<Rightarrow> int \<Rightarrow> int \<Rightarrow> int set \<Rightarrow> int \<times> int \<Rightarrow> bool \<Rightarrow> run_stage \<Rightarrow> bool" where
  "stage_ok vs a b ks hc rdy AwaitReaders \<longleftrightarrow> ks = {} \<and> hc = (a, a - 1) \<and> \<not> rdy"
| "stage_ok vs a b ks hc rdy Settle \<longleftrightarrow> ks = {} \<and> hc = (a, a - 1) \<and> \<not> rdy"
| "stage_ok vs a b ks hc rdy (History h) \<longleftrightarrow> ks \<subseteq> {..<h} \<and> hc = (h, h - 1) \<and> a \<le> h \<and> h \<le> initial_height + 1 \<and> \<not> rdy"
| "stage_ok vs a b ks hc rdy (InRound h r evs) \<longleftrightarrow>
     ks \<subseteq> {..h} \<and> hc = (h, h - 1) \<and> initial_height < h \<and> h \<le> b \<and> list_all (emitted_ok vs h) evs
     \<and> (h \<in> ks \<or> evs \<noteq> []) \<and> (rdy \<longrightarrow> h \<in> ks \<or> h - 1 \<in> ks)"
| "stage_ok vs a b ks hc rdy (BeforeBlock h) \<longleftrightarrow>
     ks \<subseteq> {..h} \<and> hc = (h, h - 1) \<and> initial_height < h \<and> h \<le> b \<and> h \<in> ks"
| "stage_ok vs a b ks hc rdy (BeforeLate h n) \<longleftrightarrow>
     ks \<subseteq> {..h} \<and> hc = (h, h - 1) \<and> initial_height < h \<and> h \<le> b \<and> h \<in> ks"
| "stage_ok vs a b ks hc rdy (Publish ev k) \<longleftrightarrow>
     fst hc = fe_height ev \<and> fe_height ev \<in> ks \<and> 0 < fe_height ev \<and> fe_height ev \<le> b \<and> stage_ok vs a (b + 1) ks (shown_after ev hc) rdy k"
| "stage_ok vs a b ks hc rdy Ended \<longleftrightarrow> (rdy \<longrightarrow> fst hc \<in> ks \<or> 0 < snd hc \<and> snd hc = fst hc - 1 \<and> snd hc \<in> ks \<and> fst hc \<le> b)"

lemma stage_mono: "stage_ok vs a b ks hc rdy k \<Longrightarrow> b \<le> b' \<Longrightarrow> stage_ok vs a b' ks hc rdy k"
  by (induction vs a b ks hc rdy k arbitrary: b' rule: stage_ok.induct) auto

lemma stage_ends: "stage_ok vs a b ks hc rdy k \<Longrightarrow> stage_ok vs a b ks hc rdy Ended"
  by (cases k) (auto simp: initial_height_def)

definition shown :: "replay_server \<Rightarrow> int \<times> int" where
  "shown s = (rt_height (ry_stats s), rt_committed (ry_stats s))"

definition start_height :: "replay_server \<Rightarrow> int" where
  "start_height s = initial_height - ry_history s + 1"

definition replay_inv :: "source_validator list \<Rightarrow> int \<Rightarrow> replay_server \<Rightarrow> run_stage \<Rightarrow> bool" where
  "replay_inv vs b s k \<longleftrightarrow>
     2 \<le> length vs \<and> ry_validators s = vs \<and> ol_validators (ry_oracle s) = vs \<and> gmap_ok (ol_heights (ry_oracle s))
     \<and> 0 < ry_rounds s \<and> 0 < start_height s \<and> start_height s \<le> initial_height + 1
     \<and> stage_ok vs (start_height s) b (known s) (shown s) (rt_ready (ry_stats s)) k"

section \<open>Steps\<close>

lemma round_events_ok:
  assumes "2 \<le> length vs"
  shows "list_all (emitted_ok vs h) (round_events sha256 h r vs)"
proof -
  have votes: "emitted_ok vs h ev" if "ev \<in> set (phase_votes sha256 h r vs p)" for ev p
    using that by (auto simp: phase_votes_def emitted_ok_def vote_event_of_def)
  have "0 < int (length vs)" "vs \<noteq> []" using assms by auto
  then have first: "emitted_ok vs h (round_event h r vs)"
    using pos_mod_bound [of "int (length vs)" "h + r"] pos_mod_sign [of "int (length vs)" "h + r"]
    by (auto simp: round_event_def emitted_ok_def nat_less_iff)
  have ne: "phase_votes sha256 h r vs 1 \<noteq> []" using assms by (cases vs) (auto simp: phase_votes_def)
  then have "(round_event h r vs # phase_votes sha256 h r vs 1 @ phase_votes sha256 h r vs 2) ! 1 \<in> set (phase_votes sha256 h r vs 1)"
    by (cases "phase_votes sha256 h r vs 1") auto
  then show ?thesis
    using first votes assms unfolding list_all_iff
    by (auto simp: round_events_def Let_def emitted_ok_def vote_event_of_def)
qed

lemma observe_event_step:
  assumes "replay_inv vs b s k0" and "fe_validator ev < length vs" and "known s \<subseteq> {..fe_height ev}"
    and "fst (shown s) = fe_height ev" and "0 < fe_height ev" and "fe_height ev \<le> b"
    and "\<And>ks. fe_height ev \<in> ks \<Longrightarrow> ks \<subseteq> {..fe_height ev}
           \<Longrightarrow> stage_ok vs (start_height s) (b + 1) ks (shown_after ev (shown s)) (rt_ready (ry_stats s)) k"
  shows "\<exists>s'. observe_event ev k s = Some (s', Publish ev k) \<and> replay_inv vs b s' (Publish ev k)"
proof -
  obtain ol where ol: "observe_source ev (ry_oracle s) = Some ol" "ol_validators ol = vs" "gmap_ok (ol_heights ol)"
      "fe_height ev \<in> fst ` set (ol_heights ol)" "fst ` set (ol_heights ol) \<subseteq> {..fe_height ev}"
    using observe_source_returns [of ev "ry_oracle s"] assms(1-3) by (auto simp: replay_inv_def)
  then show ?thesis
    using assms(1,4-6) assms(7) [OF ol(4,5)] by (auto simp: observe_event_def replay_inv_def shown_def start_height_def)
qed

lemma replay_inv_peers:
  "replay_inv vs b s k \<Longrightarrow> ry_validators s' = ry_validators s \<Longrightarrow> ry_oracle s' = ry_oracle s \<Longrightarrow> ry_rounds s' = ry_rounds s
     \<Longrightarrow> ry_history s' = ry_history s \<Longrightarrow> shown s' = shown s \<Longrightarrow> rt_ready (ry_stats s') = rt_ready (ry_stats s)
     \<Longrightarrow> replay_inv vs b s' k"
  by (simp add: replay_inv_def start_height_def)

lemma close_peers_frame [simp]:
  "ry_validators (close_peers s) = ry_validators s" "ry_oracle (close_peers s) = ry_oracle s" "ry_rounds (close_peers s) = ry_rounds s"
  "ry_history (close_peers s) = ry_history s" "ry_stats (close_peers s) = ry_stats s" "shown (close_peers s) = shown s"
  "start_height (close_peers s) = start_height s"
  by (simp_all add: close_peers_def shown_def start_height_def)

lemma publish_frame [simp]:
  "ry_validators (publish_event sha256 tm wrote ev s) = ry_validators s" "ry_oracle (publish_event sha256 tm wrote ev s) = ry_oracle s"
  "ry_rounds (publish_event sha256 tm wrote ev s) = ry_rounds s" "ry_history (publish_event sha256 tm wrote ev s) = ry_history s"
  "rt_ready (ry_stats (publish_event sha256 tm wrote ev s)) = rt_ready (ry_stats s)"
  "start_height (publish_event sha256 tm wrote ev s) = start_height s"
  by (simp_all add: publish_event_def set_stats_def note_event_def Let_def start_height_def)

lemma publish_shown:
  "fe_height ev < int64_max \<Longrightarrow> int64_min \<le> fe_height ev + 1
     \<Longrightarrow> shown (publish_event sha256 tm wrote ev s) = shown_after ev (shown s)"
  by (auto simp: publish_event_def set_stats_def note_event_def shown_after_def shown_def Let_def i64_id max_def)

lemma set_stats_frame [simp]:
  "ry_validators (set_stats f s) = ry_validators s" "ry_oracle (set_stats f s) = ry_oracle s"
  "ry_rounds (set_stats f s) = ry_rounds s" "ry_history (set_stats f s) = ry_history s"
  "start_height (set_stats f s) = start_height s" "ry_stats (set_stats f s) = f (ry_stats s)"
  by (simp_all add: set_stats_def start_height_def)

lemma ended_inv: "replay_inv vs b s k \<Longrightarrow> replay_inv vs b (close_peers s) Ended"
  using stage_ends by (simp add: replay_inv_def del: stage_ok.simps) blast

lemma run_step_inv:
  assumes inv: "replay_inv vs b s k" and b: "initial_height < b" "b + 1 < int64_max"
  shows "\<exists>s' k'. run_step sha256 tm alive wrote k s = Some (s', k') \<and> replay_inv vs (b + 1) s' k'"
proof -
  have two: "2 \<le> length vs" using inv by (simp add: replay_inv_def)
  have up: "replay_inv vs b s' k' \<Longrightarrow> replay_inv vs (b + 1) s' k'" for s' k'
    by (simp add: replay_inv_def stage_mono [where b = b])
  have ended: "replay_inv vs (b + 1) (close_peers s) Ended" by (rule up [OF ended_inv [OF inv]])
  have same: "replay_inv vs (b + 1) s k" by (rule up [OF inv])
  note rounds = round_events_ok [OF two, of _ sha256]
  have some_rounds: "round_events sha256 h r vs \<noteq> []" for h r by (simp add: round_events_def Let_def)
  show ?thesis
  proof (cases k)
    case AwaitReaders
    then show ?thesis using same ended by (auto simp: replay_inv_def)
  next
    case Settle
    then show ?thesis using inv ended by (auto simp: replay_inv_def start_height_def)
  next
    case (History h)
    show ?thesis
    proof (cases "h \<le> initial_height")
      case True
      have "\<exists>s'. observe_event (block_event sha256 h) (History (h + 1)) s = Some (s', Publish (block_event sha256 h) (History (h + 1)))
          \<and> replay_inv vs b s' (Publish (block_event sha256 h) (History (h + 1)))"
        using inv two b True unfolding History
        by (intro observe_event_step [OF inv]) (auto simp: replay_inv_def block_event_def shown_after_def)
      then show ?thesis using up True History by auto
    next
      case False
      then show ?thesis using inv b rounds some_rounds unfolding History
        by (auto simp: replay_inv_def)
    qed
  next
    case (InRound h r evs)
    show ?thesis
    proof (cases evs)
      case Nil
      then show ?thesis using inv rounds some_rounds unfolding InRound
        by (auto simp: replay_inv_def shown_def)
    next
      case (Cons ev evs')
      have "\<exists>s'. observe_event ev (InRound h r evs') s = Some (s', Publish ev (InRound h r evs'))
          \<and> replay_inv vs b s' (Publish ev (InRound h r evs'))"
        using inv unfolding InRound Cons
        by (intro observe_event_step [OF inv]) (auto simp: replay_inv_def emitted_ok_def shown_after_def)
      then show ?thesis using up ended same InRound Cons by auto
    qed
  next
    case (BeforeBlock h)
    have "i64 (h + 1) = h + 1" using inv b by (auto simp: replay_inv_def BeforeBlock i64_id int64_min_def initial_height_def)
    moreover have "\<exists>s'. observe_event (block_event sha256 h) (InRound (h + 1) 0 (round_events sha256 (h + 1) 0 (ry_validators s))) s
        = Some (s', Publish (block_event sha256 h) (InRound (h + 1) 0 (round_events sha256 (h + 1) 0 (ry_validators s))))
        \<and> replay_inv vs b s' (Publish (block_event sha256 h) (InRound (h + 1) 0 (round_events sha256 (h + 1) 0 (ry_validators s))))"
      using inv two rounds some_rounds unfolding BeforeBlock
      by (intro observe_event_step [OF inv]) (auto simp: replay_inv_def block_event_def shown_after_def)
    ultimately show ?thesis using up ended same BeforeBlock by auto
  next
    case (BeforeLate h n)
    have "\<exists>s'. observe_event (late_vote sha256 h (late_round n (ry_rounds s)) (ry_validators s)) (BeforeLate h (i64 (n + 1))) s
        = Some (s', Publish (late_vote sha256 h (late_round n (ry_rounds s)) (ry_validators s)) (BeforeLate h (i64 (n + 1))))
        \<and> replay_inv vs b s' (Publish (late_vote sha256 h (late_round n (ry_rounds s)) (ry_validators s)) (BeforeLate h (i64 (n + 1))))"
      using inv two unfolding BeforeLate
      by (intro observe_event_step [OF inv]) (auto simp: replay_inv_def late_vote_def vote_event_of_def shown_after_def)
    then show ?thesis using up ended same BeforeLate by auto
  next
    case (Publish ev k1)
    let ?s1 = "publish_event sha256 tm wrote ev s"
    have "shown ?s1 = shown_after ev (shown s)"
      using inv b by (intro publish_shown) (auto simp: replay_inv_def Publish int64_min_def)
    then have "replay_inv vs (b + 1) ?s1 k1" using inv by (simp add: replay_inv_def Publish)
    then show ?thesis using ended_inv by (auto simp: Publish Let_def)
  next
    case Ended
    then show ?thesis using same by auto
  qed
qed


text \<open>What the node is asked meanwhile changes no height.\<close>

definition same_source :: "replay_server \<Rightarrow> replay_server \<Rightarrow> bool" where
  "same_source s s' \<longleftrightarrow>
     ry_validators s' = ry_validators s \<and> ry_oracle s' = ry_oracle s \<and> ry_rounds s' = ry_rounds s
     \<and> ry_history s' = ry_history s \<and> shown s' = shown s \<and> rt_ready (ry_stats s') = rt_ready (ry_stats s)"

lemma same_source_inv: "replay_inv vs b s k \<Longrightarrow> same_source s s' \<Longrightarrow> replay_inv vs b s' k"
  using replay_inv_peers unfolding same_source_def by blast

lemma answer_source: "same_source s (snd (fixture_http sha256 tm enc q s))"
  by (auto simp: same_source_def fixture_http_def serve_rpc_def count_request_def unexpected_request_def apply_control_def
      shown_def Let_def split: option.split)

lemma peers_source: "same_source s (peer_joined s)" "same_source s (peer_request i q wrote s)"
  by (auto simp: same_source_def peer_joined_def peer_request_def peer_left_def count_request_def unexpected_request_def
      shown_def Let_def split: option.split)

lemma replay_step_inv:
  assumes inv: "replay_inv vs b s k" and b: "initial_height < b" "b + 1 < int64_max"
  shows "\<exists>s' k'. replay_step sha256 tm enc op (s, k) = Some (s', k') \<and> replay_inv vs (b + 1) s' k'"
proof -
  have up: "replay_inv vs (b + 1) s' k" if "same_source s s'" for s'
    using same_source_inv [OF inv that] by (simp add: replay_inv_def stage_mono [where b = b])
  show ?thesis
    using run_step_inv [OF inv b] up answer_source peers_source by (cases op) auto
qed

lemma run_replay_inv:
  assumes "replay_inv vs b s k" and "initial_height < b" and "b + int (length ops) < int64_max"
  shows "\<exists>s' k'. run_replay sha256 tm enc ops (s, k) = Some (s', k') \<and> replay_inv vs (b + int (length ops)) s' k'"
  using assms
proof (induction ops arbitrary: b s k)
  case (Cons op ops)
  have "b + 1 < int64_max" using Cons.prems(3) by simp
  from replay_step_inv [OF Cons.prems(1,2) this] obtain s1 k1 where
    s1: "replay_step sha256 tm enc op (s, k) = Some (s1, k1)" "replay_inv vs (b + 1) s1 k1" by blast
  from Cons.IH [OF s1(2)] Cons.prems(2,3) s1(1) show ?case by (auto simp: algebra_simps)
qed simp

lemma source_validators_length: "2 \<le> length (source_validators sha256 base64 profile seed)"
  unfolding source_validators_def by (simp del: upt.simps upt_rec_numeral)

lemma new_replay_inv:
  assumes "new_replay sha256 base64 opts seed stalled = Inr s"
  shows "replay_inv (ry_validators s) (initial_height + 1) s AwaitReaders"
  using assms source_validators_length [of sha256 base64 "sc_profile opts" seed]
  by (auto simp: new_replay_def validate_scenario_def replay_inv_def new_oracle_def shown_def
      start_height_def initial_height_def Let_def split: option.splits if_splits)

text \<open>C38: a load run that freezes a ready node finds evidence to check the program against.  The node is started
  with any accepted options and driven by any interleaving of its emitting goroutine with the requests, control
  commands and peers it serves; it never panics, and from its first ready moment on the evidence that the load
  runner looks for at the height the node shows is there, of that height or, between a block and the next round, of
  the committed one.\<close>

theorem freeze_finds_evidence:
  assumes "new_replay sha256 base64 opts seed stalled = Inr s0" and "length ops < 1000000000000000000"
  shows "\<exists>s k. run_replay sha256 tm enc ops (s0, AwaitReaders) = Some (s, k)
           \<and> (rt_ready (ry_stats s) \<longrightarrow>
               (\<exists>h x. frozen_evidence (\<lambda>h. Some (map_of (ol_heights (ry_oracle s)) h)) (rt_height (ry_stats s))
                        (rt_committed (ry_stats s)) = Inr (h, Some x)))"
proof -
  obtain s k where s: "run_replay sha256 tm enc ops (s0, AwaitReaders) = Some (s, k)"
      "replay_inv (ry_validators s0) (initial_height + 1 + int (length ops)) s k"
    using run_replay_inv [OF new_replay_inv [OF assms(1)]] assms(2) by (force simp: initial_height_def int64_max_def)
  let ?h = "rt_height (ry_stats s)" and ?c = "rt_committed (ry_stats s)" and ?m = "map_of (ol_heights (ry_oracle s))"
  have "?h \<in> dom ?m \<or> 0 < ?c \<and> ?c = ?h - 1 \<and> ?c \<in> dom ?m \<and> ?h < int64_max" if "rt_ready (ry_stats s)"
    using stage_ends [of _ _ _ _ "shown s"] s(2) that assms(2)
    by (fastforce simp: replay_inv_def shown_def gkeys_dom initial_height_def int64_max_def)
  then have "\<exists>h x. frozen_evidence (\<lambda>h. Some (?m h)) ?h ?c = Inr (h, Some x)" if "rt_ready (ry_stats s)"
    using that by (cases "?m ?h") (auto simp: frozen_evidence_def i64_id int64_min_def int64_max_def)
  then show ?thesis using s(1) by blast
qed

definition demo_digest :: "string \<Rightarrow> string" where
  "demo_digest s = take 1 (rev s)"

definition demo_scenario :: scenario_options where
  "demo_scenario =
     \<lparr>sc_profile = ''testnet5'', sc_rounds = 1, sc_block_interval = second, sc_event_interval = 0, sc_history = 1\<rparr>"

definition demo_request :: "string \<Rightarrow> string \<Rightarrow> replay_op" where
  "demo_request path meth =
     Answer \<lparr>fq_method = ''POST'', fq_path = path, fq_height = [], fq_control = None,
       fq_rpc = Some \<lparr>rq_id = JsNull, rq_method = meth, rq_height = []\<rparr>\<rparr>"

definition demo_replay_ops :: "replay_op list" where
  "demo_replay_ops =
     [Advance True (\<lambda>i. True), demo_request ''/'' ''validators'', demo_request ''/cosmos/staking/v1beta1/validators'' [], PeerJoins]
     @ map (\<lambda>q. PeerSends 0 (Some \<lparr>wr_id = JsNull, wr_method = ''subscribe'', wr_query = q\<rparr>) True) [''a'', ''b'', ''c'', ''d'']
     @ replicate 28 (Advance True (\<lambda>i. True))"

definition demo_ready :: "(bool \<times> int \<times> int) option" where
  "demo_ready =
     (case new_replay demo_digest id demo_scenario 7 False of
        Inl err \<Rightarrow> None
      | Inr s0 \<Rightarrow> map_option (\<lambda>(s, k). (rt_ready (ry_stats s), shown s))
          (run_replay demo_digest (\<lambda>h r i. []) (\<lambda>x. JsNull) demo_replay_ops (s0, AwaitReaders)))"

lemma demo_ready_value: "demo_ready = Some (True, 1001, 1000)"
  by code_simp

theorem freeze_finds_evidence_witness:
  "\<exists>s0 s k h x. new_replay demo_digest id demo_scenario 7 False = Inr s0
     \<and> run_replay demo_digest (\<lambda>h r i. []) (\<lambda>x. JsNull) demo_replay_ops (s0, AwaitReaders) = Some (s, k)
     \<and> rt_ready (ry_stats s)
     \<and> frozen_evidence (\<lambda>h. Some (map_of (ol_heights (ry_oracle s)) h)) 1001 1000 = Inr (h, Some x)"
proof -
  let ?run = "\<lambda>s0. run_replay demo_digest (\<lambda>h r i. []) (\<lambda>x. JsNull) demo_replay_ops (s0, AwaitReaders)"
  obtain s0 where s0: "new_replay demo_digest id demo_scenario 7 False = Inr s0"
    using demo_ready_value by (auto simp: demo_ready_def split: sum.splits)
  have few: "length demo_replay_ops < 1000000000000000000" by (simp add: demo_replay_ops_def)
  obtain s k where s: "?run s0 = Some (s, k)" using freeze_finds_evidence [OF s0 few] by blast
  then have "rt_ready (ry_stats s)" "rt_height (ry_stats s) = 1001" "rt_committed (ry_stats s) = 1000"
    using demo_ready_value s0 by (simp_all add: demo_ready_def shown_def)
  with freeze_finds_evidence [OF s0 few, of "\<lambda>h r i. []" "\<lambda>x. JsNull"] s0 s show ?thesis by auto
qed

end
