(* ===== verification/Event_Decode.thy ===== *)
theory Event_Decode
  imports Json_Struct Orchestrator Ws_Client
begin

text \<open>
  How the subscriber reads the node's messages (\<open>internal/chain/cometws/client.go\<close> and \<open>eventdata.go\<close>): the
  request of a subscription, the integers that may come as text, the structs of the events, and what a
  response means to the pump.  A response is given with its error and its raw result; the parsers of URLs and
  times are parameters.  The event is returned as it is after the call that decodes it.
\<close>

section \<open>Tolerant values\<close>

definition flex_int :: "json \<Rightarrow> string + int" where
  "flex_int v =
     (case v of
        JsNull \<Rightarrow> Inr 0
      | JsString t \<Rightarrow>
          (let s = trim_space t
           in if s = [] then Inr 0 else case parse_int64 s of None \<Rightarrow> Inl ''strconv.ParseInt'' | Some n \<Rightarrow> Inr n)
      | JsNumber t \<Rightarrow> (case parse_int64 t of None \<Rightarrow> Inl ''cannot unmarshal number'' | Some n \<Rightarrow> Inr n)
      | _ \<Rightarrow> Inl ''cannot unmarshal into int64'')"

definition into_time :: "(string \<Rightarrow> gtime option) \<Rightarrow> gtime \<Rightarrow> json \<Rightarrow> string + gtime" where
  "into_time parse_time old v =
     (case v of
        JsNull \<Rightarrow> Inr old
      | JsString t \<Rightarrow> (case parse_time t of None \<Rightarrow> Inl ''parsing time'' | Some x \<Rightarrow> Inr x)
      | _ \<Rightarrow> Inl ''Time.UnmarshalJSON: input is not a JSON string'')"

text \<open>The length of a slice of raw messages.\<close>

definition into_raws :: "json \<Rightarrow> string + int" where
  "into_raws v = (case v of JsNull \<Rightarrow> Inr 0 | JsArray vs \<Rightarrow> Inr (int (length vs)) | _ \<Rightarrow> Inl ''cannot unmarshal into slice'')"

text \<open>A field whose value is checked and not kept.\<close>

definition checked :: "string + 'a \<Rightarrow> 's \<Rightarrow> string + 's" where
  "checked r s = store (\<lambda>_. s) r"

section \<open>The events\<close>

definition parts_field :: "string \<Rightarrow> json \<Rightarrow> unit \<Rightarrow> string + unit" where
  "parts_field k v u =
     (if k = ''total'' then checked (flex_int v) u else if k = ''hash'' then checked (into_string [] v) u else Inr u)"

definition block_id_field :: "string \<Rightarrow> json \<Rightarrow> string \<Rightarrow> string + string" where
  "block_id_field k v hash =
     (if k = ''hash'' then into_string hash v
      else if k = ''parts'' then checked (into_struct parts_field () v) hash
      else Inr hash)"

definition vote_field :: "(string \<Rightarrow> gtime option) \<Rightarrow> string \<Rightarrow> json \<Rightarrow> ws_vote \<Rightarrow> string + ws_vote" where
  "vote_field parse_time k v w =
     (if k = ''type'' then store (\<lambda>x. w\<lparr>wv_type := x\<rparr>) (into_int (wv_type w) v)
      else if k = ''height'' then store (\<lambda>x. w\<lparr>wv_height := x\<rparr>) (flex_int v)
      else if k = ''round'' then store (\<lambda>x. w\<lparr>wv_round := x\<rparr>) (flex_int v)
      else if k = ''block_id'' then store (\<lambda>x. w\<lparr>wv_hash := x\<rparr>) (into_struct block_id_field (wv_hash w) v)
      else if k = ''timestamp'' then store (\<lambda>x. w\<lparr>wv_timestamp := x\<rparr>) (into_time parse_time (wv_timestamp w) v)
      else if k = ''validator_address'' then store (\<lambda>x. w\<lparr>wv_addr := x\<rparr>) (into_string (wv_addr w) v)
      else if k = ''validator_index'' then checked (flex_int v) w
      else Inr w)"

definition zero_vote :: ws_vote where
  "zero_vote = \<lparr>wv_type = 0, wv_height = 0, wv_round = 0, wv_hash = [], wv_timestamp = 0, wv_addr = []\<rparr>"

definition vote_data_field :: "(string \<Rightarrow> gtime option) \<Rightarrow> string \<Rightarrow> json \<Rightarrow> ws_vote \<Rightarrow> string + ws_vote" where
  "vote_data_field parse_time k v w = (if k = ''vote'' then into_struct (vote_field parse_time) w v else Inr w)"

definition header_field :: "(string \<Rightarrow> gtime option) \<Rightarrow> string \<Rightarrow> json \<Rightarrow> ws_block \<Rightarrow> string + ws_block" where
  "header_field parse_time k v b =
     (if k = ''height'' then store (\<lambda>x. b\<lparr>wb_height := x\<rparr>) (flex_int v)
      else if k = ''time'' then store (\<lambda>x. b\<lparr>wb_time := x\<rparr>) (into_time parse_time (wb_time b) v)
      else if k = ''proposer_address'' then store (\<lambda>x. b\<lparr>wb_proposer := x\<rparr>) (into_string (wb_proposer b) v)
      else if k = ''app_hash'' then store (\<lambda>x. b\<lparr>wb_app_hash := x\<rparr>) (into_string (wb_app_hash b) v)
      else if k = ''data_hash'' then checked (into_string [] v) b
      else Inr b)"

definition txs_field :: "string \<Rightarrow> json \<Rightarrow> ws_block \<Rightarrow> string + ws_block" where
  "txs_field k v b = (if k = ''txs'' then store (\<lambda>n. b\<lparr>wb_txs := n\<rparr>) (into_raws v) else Inr b)"

definition block_field :: "(string \<Rightarrow> gtime option) \<Rightarrow> string \<Rightarrow> json \<Rightarrow> ws_block \<Rightarrow> string + ws_block" where
  "block_field parse_time k v b =
     (if k = ''header'' then into_struct (header_field parse_time) b v
      else if k = ''data'' then into_struct txs_field b v
      else Inr b)"

definition block_data_field :: "(string \<Rightarrow> gtime option) \<Rightarrow> string \<Rightarrow> json \<Rightarrow> ws_block \<Rightarrow> string + ws_block" where
  "block_data_field parse_time k v b =
     (if k = ''block'' then into_struct (block_field parse_time) b v
      else if k = ''block_id'' then store (\<lambda>x. b\<lparr>wb_hash := x\<rparr>) (into_struct block_id_field (wb_hash b) v)
      else Inr b)"

definition zero_block :: ws_block where
  "zero_block = \<lparr>wb_height = 0, wb_time = 0, wb_proposer = [], wb_app_hash = [], wb_txs = 0, wb_hash = []\<rparr>"

definition proposer_field :: "string \<Rightarrow> json \<Rightarrow> ws_round \<Rightarrow> string + ws_round" where
  "proposer_field k v r =
     (if k = ''address'' then store (\<lambda>x. r\<lparr>wr_proposer := x\<rparr>) (into_string (wr_proposer r) v)
      else if k = ''index'' then checked (flex_int v) r
      else Inr r)"

definition round_data_field :: "string \<Rightarrow> json \<Rightarrow> ws_round \<Rightarrow> string + ws_round" where
  "round_data_field k v r =
     (if k = ''height'' then store (\<lambda>x. r\<lparr>wr_height := x\<rparr>) (flex_int v)
      else if k = ''round'' then store (\<lambda>x. r\<lparr>wr_round := x\<rparr>) (flex_int v)
      else if k = ''step'' then store (\<lambda>x. r\<lparr>wr_step := x\<rparr>) (into_string (wr_step r) v)
      else if k = ''proposer'' then into_struct proposer_field r v
      else Inr r)"

definition zero_round :: ws_round where
  "zero_round = \<lparr>wr_height = 0, wr_round = 0, wr_step = [], wr_proposer = []\<rparr>"

definition updates_field :: "string \<Rightarrow> json \<Rightarrow> unit \<Rightarrow> string + unit" where
  "updates_field k v u = (if k = ''validator_updates'' then checked (into_raws v) u else Inr u)"

section \<open>Decoding\<close>

text \<open>\<open>json.Unmarshal\<close> of a raw message, which is empty when the member is missing.\<close>

definition unmarshal_raw :: "(string \<Rightarrow> json \<Rightarrow> 's \<Rightarrow> string + 's) \<Rightarrow> 's \<Rightarrow> json option \<Rightarrow> string + 's" where
  "unmarshal_raw field s raw = (case raw of None \<Rightarrow> Inl ''unexpected end of JSON input'' | Some v \<Rightarrow> into_struct field s v)"

definition is_event :: "string \<Rightarrow> string \<Rightarrow> bool" where
  "is_event name t \<longleftrightarrow> t = ''tendermint/event/'' @ name \<or> t = ''cometbft/event/'' @ name"

definition unmarshal_event_data :: "(string \<Rightarrow> gtime option) \<Rightarrow> string \<Rightarrow> json option \<Rightarrow> string + ws_event" where
  "unmarshal_event_data parse_time t raw =
     (if is_event ''NewBlock'' t then store WsNewBlock (unmarshal_raw (block_data_field parse_time) zero_block raw)
      else if is_event ''NewRound'' t then store WsNewRound (unmarshal_raw round_data_field zero_round raw)
      else if is_event ''Vote'' t then store WsVote (unmarshal_raw (vote_data_field parse_time) zero_vote raw)
      else if is_event ''ValidatorSetUpdates'' t then store (\<lambda>_. WsValidatorSetUpdates) (unmarshal_raw updates_field () raw)
      else Inl (''unknown event type '' @ go_quote t))"

definition query_field :: "string \<Rightarrow> json \<Rightarrow> string \<times> json option \<Rightarrow> string + string \<times> json option" where
  "query_field k v qd =
     (if k = ''query'' then store (\<lambda>q. (q, snd qd)) (into_string (fst qd) v)
      else if k = ''data'' then Inr (fst qd, Some v) else Inr qd)"

definition typed_field :: "string \<Rightarrow> json \<Rightarrow> string \<times> json option \<Rightarrow> string + string \<times> json option" where
  "typed_field k v tv =
     (if k = ''type'' then store (\<lambda>t. (t, snd tv)) (into_string (fst tv) v)
      else if k = ''value'' then Inr (fst tv, Some v) else Inr tv)"

definition decode_event :: "(string \<Rightarrow> gtime option) \<Rightarrow> json \<Rightarrow> string + string \<times> ws_event option" where
  "decode_event parse_time raw =
     (case into_struct query_field ([], None) raw of
        Inl err \<Rightarrow> Inl err
      | Inr (query, None) \<Rightarrow> Inr (query, None)
      | Inr (query, Some data) \<Rightarrow>
          (case into_struct typed_field ([], None) data of
             Inl err \<Rightarrow> Inl err
           | Inr (t, raw2) \<Rightarrow>
               (case unmarshal_event_data parse_time t raw2 of
                  Inl err \<Rightarrow> Inl (''event '' @ t @ '': '' @ err)
                | Inr d \<Rightarrow> Inr (query, Some d))))"

text \<open>A decoded response: its error and its raw result.\<close>

record rpc_response =
  rr_error :: "string option"
  rr_result :: "json option"

definition frame_of :: "(string \<Rightarrow> gtime option) \<Rightarrow> rpc_response \<Rightarrow> ws_event frame" where
  "frame_of parse_time p =
     (case rr_error p of
        Some err \<Rightarrow> ErrorFrame err
      | None \<Rightarrow>
          (case rr_result p of
             None \<Rightarrow> EmptyFrame
           | Some raw \<Rightarrow>
               (case decode_event parse_time raw of
                  Inl err \<Rightarrow> BadFrame
                | Inr (query, None) \<Rightarrow> NoDataFrame
                | Inr (query, Some ev) \<Rightarrow> EventFrame ev)))"

section \<open>Subscribing\<close>

text \<open>\<open>parse\<close> gives the scheme, the host and the path, \<open>render\<close> the text of a URL of those with its query.\<close>

definition subscription_url ::
  "(string \<Rightarrow> (string \<times> string \<times> string \<times> 'q) option) \<Rightarrow> (string \<times> string \<times> string \<times> 'q \<Rightarrow> string) \<Rightarrow> string \<Rightarrow> string + string" where
  "subscription_url parse render endpoint =
     (case parse endpoint of
        None \<Rightarrow> Inl ''invalid websocket endpoint''
      | Some (scheme, host, path, q) \<Rightarrow>
          if host = [] then Inl ''invalid websocket endpoint''
          else if scheme = ''http'' \<or> scheme = ''ws''
          then Inr (render (''ws'', host, rev (dropWhile (\<lambda>c. c = CHR ''/'') (rev path)) @ ''/websocket'', q))
          else if scheme = ''https'' \<or> scheme = ''wss''
          then Inr (render (''wss'', host, rev (dropWhile (\<lambda>c. c = CHR ''/'') (rev path)) @ ''/websocket'', q))
          else Inl ''websocket endpoint must use http, https, ws or wss'')"

definition subscribe_request :: "nat \<Rightarrow> string \<Rightarrow> json" where
  "subscribe_request i q =
     JsObject [(''jsonrpc'', JsString ''2.0''), (''id'', js_int (int i)), (''method'', JsString ''subscribe''),
       (''params'', JsObject [(''query'', JsString q)])]"

end
