(* ===== verification/Node_Frames.thy ===== *)
theory Node_Frames
  imports Event_Decode Replay_Server
begin

text \<open>
  The fake node and the subscriber agree: every frame the node writes for an event of its source is text that
  the subscriber parses and decodes to that event.
\<close>

definition ws_event_of :: "(string \<Rightarrow> string) \<Rightarrow> (int \<Rightarrow> int \<Rightarrow> nat \<Rightarrow> gtime) \<Rightarrow> source_validator list \<Rightarrow> fixture_event \<Rightarrow> ws_event" where
  "ws_event_of sha256 ts vs ev =
     (if fe_kind ev = ''NewRound''
      then WsNewRound \<lparr>wr_height = fe_height ev, wr_round = fe_round ev, wr_step = ''RoundStepPropose'',
             wr_proposer = so_address (vs ! fe_validator ev)\<rparr>
      else if fe_kind ev = ''Vote''
      then WsVote \<lparr>wv_type = fe_phase ev, wv_height = fe_height ev, wv_round = fe_round ev, wv_hash = fe_hash ev,
             wv_timestamp = ts (fe_height ev) (fe_round ev) (fe_validator ev), wv_addr = so_address (vs ! fe_validator ev)\<rparr>
      else WsNewBlock \<lparr>wb_height = fe_height ev, wb_time = ts (fe_height ev) 0 0,
             wb_proposer = so_address (vs ! nat (fe_height ev mod int (length vs))),
             wb_app_hash = source_hash sha256 (fe_height ev) 0 ''app'', wb_txs = 0,
             wb_hash = source_hash sha256 (fe_height ev) 0 ''a''\<rparr>)"

text \<open>An event of the source: its numbers fit, its kind is one of three, and a block carries the hash of its height.\<close>

definition source_event :: "(string \<Rightarrow> string) \<Rightarrow> source_validator list \<Rightarrow> fixture_event \<Rightarrow> bool" where
  "source_event sha256 vs ev \<longleftrightarrow>
     is_i64 (fe_height ev) \<and> is_i64 (fe_round ev) \<and> is_i64 (int (fe_validator ev))
     \<and> (fe_kind ev = ''Vote'' \<longrightarrow> is_i64 (fe_phase ev))
     \<and> (fe_kind ev = ''NewRound'' \<or> fe_kind ev = ''Vote''
        \<or> fe_kind ev = ''NewBlock'' \<and> fe_hash ev = source_hash sha256 (fe_height ev) 0 ''a'')"

lemma key_names:
  "to_lower ''query'' = ''query''" "to_lower ''data'' = ''data''" "to_lower ''type'' = ''type''" "to_lower ''value'' = ''value''"
  "to_lower ''height'' = ''height''" "to_lower ''round'' = ''round''" "to_lower ''step'' = ''step''"
  "to_lower ''proposer'' = ''proposer''" "to_lower ''address'' = ''address''" "to_lower ''index'' = ''index''"
  "to_lower ''Vote'' = ''vote''" "to_lower ''block_id'' = ''block_id''" "to_lower ''hash'' = ''hash''"
  "to_lower ''timestamp'' = ''timestamp''" "to_lower ''validator_address'' = ''validator_address''"
  "to_lower ''validator_index'' = ''validator_index''" "to_lower ''block'' = ''block''" "to_lower ''header'' = ''header''"
  "to_lower ''txs'' = ''txs''" "to_lower ''time'' = ''time''" "to_lower ''proposer_address'' = ''proposer_address''"
  "to_lower ''app_hash'' = ''app_hash''" "to_lower ''chain_id'' = ''chain_id''"
  by (code_simp)+

lemma trim_space_none: "list_all (\<lambda>c. \<not> is_space c) s \<Longrightarrow> trim_space s = s"
proof -
  assume "list_all (\<lambda>c. \<not> is_space c) s"
  then have "dropWhile is_space s = s" "dropWhile is_space (rev s) = rev s"
    by (auto simp: dropWhile_eq_self_iff list_all_iff hd_rev)
  then show ?thesis by (simp add: trim_space_def)
qed

lemma trim_space_int: "trim_space (format_int n) = format_int n" "format_int n \<noteq> []"
proof -
  have "list_all (\<lambda>c. \<not> is_space c) (dec_nat k)" for k
    using dec_nat_digits [of k] by (auto simp: list_all_iff is_space_def is_digit_def less_eq_char_def)
  moreover have "\<not> is_space (CHR ''-'')" by (simp add: is_space_def)
  ultimately show "trim_space (format_int n) = format_int n" by (intro trim_space_none) (simp add: format_int_def)
  show "format_int n \<noteq> []" using dec_nat_digits by (auto simp: format_int_def)
qed

lemma flex_int_text [simp]: "is_i64 n \<Longrightarrow> flex_int (JsString (format_int n)) = Inr n"
  by (simp add: flex_int_def trim_space_int parse_int64_format Let_def)

lemma checked_right [simp]: "checked (Inr a) s = Inr s"
  by (simp add: checked_def)

lemma into_struct_object: "into_struct field s (JsObject kvs) = store_members field kvs s"
  by (simp add: into_struct_def)

lemma event_value_ok: "5 < d \<Longrightarrow> json_ok d (event_value sha256 tm vs ev)"
  by (simp add: event_value_def round_value_def vote_value_def block_value_def)

lemma event_frame_ok: "json_ok (max_depth - 1) rid \<Longrightarrow> json_ok max_depth (event_frame rid (event_value sha256 tm vs ev) ev)"
  by (simp add: event_frame_def event_value_ok max_depth_def)

lemmas decode_defs = unmarshal_raw_def into_struct_object is_event_def unmarshal_event_data_def event_value_def
  ws_event_of_def source_event_def key_names

lemma read_round:
  assumes "source_event sha256 vs ev" and "fe_kind ev = ''NewRound''"
  shows "unmarshal_event_data pt ''tendermint/event/NewRound'' (Some (event_value sha256 tm vs ev)) = Inr (ws_event_of sha256 ts vs ev)"
  using assms
  by (simp add: decode_defs round_value_def round_data_field_def proposer_field_def zero_round_def)

lemma read_vote:
  assumes "source_event sha256 vs ev" and "fe_kind ev = ''Vote''" and "\<And>h r i. pt (tm h r i) = Some (ts h r i)"
  shows "unmarshal_event_data pt ''tendermint/event/Vote'' (Some (event_value sha256 tm vs ev)) = Inr (ws_event_of sha256 ts vs ev)"
  using assms
  by (simp add: decode_defs vote_value_def vote_data_field_def vote_field_def block_id_field_def zero_vote_def into_time_def)

lemma read_block:
  assumes "source_event sha256 vs ev" and "fe_kind ev = ''NewBlock''" and "\<And>h r i. pt (tm h r i) = Some (ts h r i)"
  shows "unmarshal_event_data pt ''tendermint/event/NewBlock'' (Some (event_value sha256 tm vs ev)) = Inr (ws_event_of sha256 ts vs ev)"
  using assms
  by (simp add: decode_defs block_value_def block_data_field_def block_field_def header_field_def txs_field_def
      block_id_field_def zero_block_def into_time_def into_raws_def)

lemma decode_emitted:
  assumes "source_event sha256 vs ev" and "\<And>h r i. pt (tm h r i) = Some (ts h r i)"
  shows "unmarshal_event_data pt (''tendermint/event/'' @ fe_kind ev) (Some (event_value sha256 tm vs ev)) = Inr (ws_event_of sha256 ts vs ev)"
  using assms read_round [OF assms(1)] read_vote [where pt = pt and tm = tm and ts = ts, OF assms(1)]
    read_block [where pt = pt and tm = tm and ts = ts, OF assms(1)]
  by (auto simp: source_event_def)

text \<open>The members of a message that the subscriber's RPC envelope names.\<close>

definition response_of :: "(string \<times> json) list \<Rightarrow> rpc_response" where
  "response_of kvs =
     \<lparr>rr_error = map_option (\<lambda>e. ''rpc error'') (map_of kvs ''error''), rr_result = map_of kvs ''result''\<rparr>"

lemma frame_of_emitted:
  assumes "source_event sha256 vs ev" and "\<And>h r i. pt (tm h r i) = Some (ts h r i)"
  shows "\<exists>kvs. event_frame rid (event_value sha256 tm vs ev) ev = JsObject kvs
           \<and> frame_of pt (response_of kvs) = EventFrame (ws_event_of sha256 ts vs ev)"
  using decode_emitted [of sha256 vs ev pt tm ts] assms
  by (simp add: event_frame_def response_of_def frame_of_def decode_event_def into_struct_object query_field_def
      typed_field_def key_names)

end
