(* ===== verification/Node_Run.thy ===== *)
theory Node_Run
  imports Node_Frames Oracle_Props Orchestrator_Props
begin

text \<open>
  The program against the fake node, end to end: the text of the node's frames is parsed, decoded and handled
  by the orchestrator, and the report of the tracker passes the check of the node's oracle.
\<close>

section \<open>Reading a connection\<close>

text \<open>What the subscriber makes of one message: a text that is not a response ends the connection.\<close>

definition read_text :: "(string \<Rightarrow> gtime option) \<Rightarrow> string \<Rightarrow> ws_event frame" where
  "read_text pt text =
     (case parse_json text of Some (JsObject kvs) \<Rightarrow> frame_of pt (response_of kvs) | _ \<Rightarrow> ErrorFrame ''ws read'')"

text \<open>The messages of a connection, each with the clock at its event's handling; the handlers run in order.\<close>

fun follow :: "(string \<Rightarrow> gtime option) \<Rightarrow> (string \<times> gtime) list \<Rightarrow> orchestrator \<Rightarrow> orchestrator option" where
  "follow pt [] oc = Some oc"
| "follow pt ((text, now) # ms) oc =
     (case read_text pt text of
        ErrorFrame err \<Rightarrow> Some oc
      | EventFrame ev \<Rightarrow>
          (case handle_ws_event ev now oc of None \<Rightarrow> None | Some oc1 \<Rightarrow> follow pt ms oc1)
      | _ \<Rightarrow> follow pt ms oc)"

section \<open>The dashboard in the height\<close>

definition dash_at :: "int \<Rightarrow> int \<Rightarrow> state_data \<Rightarrow> bool" where
  "dash_at h k s \<longleftrightarrow>
     sd_committed s < h \<and> sd_height s \<le> h \<and> (sd_height s = h \<longrightarrow> sd_round s \<le> k)
     \<and> list_all (\<lambda>b. bs_height b \<noteq> h) (sd_blocks s)"

lemma dash_mono: "dash_at h k s \<Longrightarrow> k \<le> k' \<Longrightarrow> dash_at h k' s"
  by (auto simp: dash_at_def)

lemma advance_dash:
  assumes "dash_at h k s" and "r \<le> k'" and "k \<le> k'"
  shows "dash_at h k' (fst (advance_round s h r step now))"
  using assms by (auto simp: advance_round_def dash_at_def)

lemma advance_accepts:
  assumes "dash_at h k s" and "k \<le> r" and "0 \<le> r" and "r \<le> max_int32"
  shows "snd (advance_round s h r step now)"
  using assms by (auto simp: advance_round_def dash_at_def)

lemma enter_dash:
  assumes "dash_at h k s" and "r \<le> k'" and "k \<le> k'"
  shows "dash_at h k' (fst (enter_new_round h r step p now s))"
  using advance_dash [OF assms, of step now]
  by (auto simp: enter_new_round_def dash_at_def split: prod.split bool.split)

lemma accept_dash:
  assumes "dash_at h k s" and "r \<le> k"
  shows "dash_at h k (fst (accept_vote h r step a vt cell now s))"
  using advance_dash [OF assms order_refl, of step now]
  by (auto simp: accept_vote_def dash_at_def Let_def split: prod.split bool.split option.split)

lemma on_state_with_dash:
  "dash_at h k (fst (f (oc_state oc))) \<Longrightarrow> dash_at h k (oc_state (fst (on_state_with f now oc)))"
  by (auto simp: on_state_with_def dash_at_def split: prod.split)

lemma note_dash: "dash_at h k (oc_state oc) \<Longrightarrow> dash_at h k (oc_state (on_state (note_ws_event now) now oc))"
  by (simp add: dash_at_def on_state_def mutate_def note_ws_event_def)

lemma emit_frame [simp]: "oc_state (emit ev oc) = oc_state oc" "oc_tracker (emit ev oc) = oc_tracker oc"
  by (simp_all add: emit_def)

section \<open>One event\<close>

lemma handle_new_round_tracker:
  assumes "dash_at h k (oc_state oc)" and "wr_height d = h" and "k \<le> wr_round d" and "0 \<le> wr_round d" and "wr_round d \<le> max_int32"
  shows "oc_tracker (handle_new_round d now oc) =
      (let t = observe_round (oc_tracker oc) h (wr_round d) (to_upper (wr_proposer d)) now
       in if wr_round d > 0 then mark_round_advanced t h (wr_round d - 1) else t)"
    and "dash_at h (wr_round d) (oc_state (handle_new_round d now oc))"
    and "handle_new_round d now (oc\<lparr>oc_tracker := t1\<rparr>) =
      (let oc' = handle_new_round d now oc; t = observe_round t1 h (wr_round d) (to_upper (wr_proposer d)) now
       in oc'\<lparr>oc_tracker := if wr_round d > 0 then mark_round_advanced t h (wr_round d - 1) else t\<rparr>)"
proof -
  let ?f = "enter_new_round h (wr_round d) (step_from_string (wr_step d)) (to_upper (wr_proposer d)) now"
  obtain s1 started where f: "?f (oc_state oc) = (s1, Some started)"
    using advance_accepts [OF assms(1,3-5), of "step_from_string (wr_step d)" now]
    by (cases "advance_round (oc_state oc) h (wr_round d) (step_from_string (wr_step d)) now") (auto simp: enter_new_round_def)
  then have o: "on_state_with ?f now oc = (oc\<lparr>oc_state := s1\<lparr>sd_last_update := now\<rparr>\<rparr>, Some started)"
    by (simp add: on_state_with_def)
  have d: "dash_at h (wr_round d) (s1\<lparr>sd_last_update := now\<rparr>)"
    using enter_dash [OF assms(1) order_refl assms(3), of "step_from_string (wr_step d)" "to_upper (wr_proposer d)" now] f
    by (simp add: dash_at_def)
  show "oc_tracker (handle_new_round d now oc) =
      (let t = observe_round (oc_tracker oc) h (wr_round d) (to_upper (wr_proposer d)) now
       in if wr_round d > 0 then mark_round_advanced t h (wr_round d - 1) else t)"
    by (simp add: handle_new_round_def Let_def assms(2) o)
  show "dash_at h (wr_round d) (oc_state (handle_new_round d now oc))"
    using d by (simp add: handle_new_round_def Let_def assms(2) o)
  have "on_state_with ?f now (oc\<lparr>oc_tracker := t1\<rparr>)
      = (oc\<lparr>oc_tracker := t1, oc_state := s1\<lparr>sd_last_update := now\<rparr>\<rparr>, Some started)"
    using f by (simp add: on_state_with_def)
  then show "handle_new_round d now (oc\<lparr>oc_tracker := t1\<rparr>) =
      (let oc' = handle_new_round d now oc; t = observe_round t1 h (wr_round d) (to_upper (wr_proposer d)) now
       in oc'\<lparr>oc_tracker := if wr_round d > 0 then mark_round_advanced t h (wr_round d - 1) else t\<rparr>)"
    by (simp add: handle_new_round_def Let_def assms(2) o emit_def)
qed

lemma handle_vote_tracker:
  assumes "dash_at h k (oc_state oc)" and "wv_height w = h" and "wv_round w \<le> k" and "wv_type w = 1 \<or> wv_type w = 2"
    and "v = \<lparr>ve_height = h, ve_round = wv_round w, ve_type = (if wv_type w = 1 then Prevote else Precommit),
           ve_addr = to_upper (wv_addr w), ve_hash = to_lower (wv_hash w), ve_timestamp = wv_timestamp w\<rparr>"
    and "t = observe_vote (oc_tracker oc) v now"
  shows "oc_tracker (handle_vote w now oc) = t \<or> oc_tracker (handle_vote w now oc) = fst (ingest_vote t v now)"
    and "dash_at h k (oc_state (handle_vote w now oc))"
proof -
  define vt where "vt = (if wv_type w = 1 then Prevote else Precommit)"
  define step where "step = (if wv_type w = 1 then 4 else 6 :: int)"
  define cell where "cell = \<lparr>vo_kind = (if to_lower (wv_hash w) = '''' then VoteNil else VoteForBlock),
    vo_hash = to_lower (wv_hash w), vo_timestamp = wv_timestamp w\<rparr>"
  let ?f = "accept_vote h (wv_round w) step (to_upper (wv_addr w)) vt cell now"
  let ?oc1 = "oc\<lparr>oc_tracker := t\<rparr>"
  obtain oc2 accepted where o: "on_state_with ?f now ?oc1 = (oc2, accepted)" by fastforce
  have h: "handle_vote w now oc = (if accepted then count_live_vote v (wv_type w) now oc2 else oc2)"
    using assms(2,4,5,6) o by (auto simp: handle_vote_def Let_def vt_def step_def cell_def)
  have d: "dash_at h k (oc_state oc2)"
    using on_state_with_dash [of h k ?f ?oc1 now] accept_dash [OF assms(1,3)] o by simp
  have "oc_tracker oc2 = t" using on_state_with_tracker [OF o] by simp
  then have live: "oc_tracker (count_live_vote v wire now oc2) = fst (ingest_vote t v now)"
      "oc_state (count_live_vote v wire now oc2) = oc_state oc2" for wire
    by (auto simp: count_live_vote_def Let_def split: prod.split)
  show "oc_tracker (handle_vote w now oc) = t \<or> oc_tracker (handle_vote w now oc) = fst (ingest_vote t v now)"
    using h live \<open>oc_tracker oc2 = t\<close> by auto
  show "dash_at h k (oc_state (handle_vote w now oc))" using h live d by auto
qed

lemma handle_new_block_tracker:
  assumes "dash_at h k (oc_state oc)" and "wb_height d = h" and "0 < h"
    and "resolve_commit (oc_tracker oc) h (to_lower (wb_hash d)) now = Some (t, rs)"
  shows "\<exists>oc'. handle_new_block d now oc = Some oc' \<and> oc_tracker oc' = t"
proof -
  define smp where "smp = \<lparr>bs_height = h, bs_time = wb_time d, bs_hash = to_lower (wb_hash d),
    bs_app_hash = to_lower (wb_app_hash d), bs_txs = wb_txs d, bs_ms = 0\<rparr>"
  have "snd (accept_block h smp now (oc_state oc))"
    using assms(1) by (auto simp: accept_block_def dash_at_def list_ex_iff list_all_iff Let_def)
  then obtain oc1 where o: "on_state_with (accept_block h smp now) now oc = (oc1, True)"
    by (cases "accept_block h smp now (oc_state oc)") (simp add: on_state_with_def)
  show ?thesis
    using assms(2-4) on_state_with_tracker [OF o] o
    by (simp add: handle_new_block_def Let_def smp_def)
qed

text \<open>An event of the source keeps the orchestrator's tracker in step with the oracle.\<close>

lemma ws_event_sim:
  assumes g: "good_validators vs" and s: "sim vs h (oc_tracker oc) x" and hist: "history_ok (oc_tracker oc)"
    and d: "dash_at h k (oc_state oc)" and ev: "event_ok vs ev x" "fe_height ev = h" "0 < h" "source_event sha256 vs ev"
    and first: "fe_kind ev = ''NewRound'' \<longrightarrow> k \<le> fe_round ev" and late: "fe_kind ev = ''Vote'' \<longrightarrow> fe_round ev \<le> k"
  shows "\<exists>oc' x1. handle_ws_event (ws_event_of sha256 ts vs ev) now oc = Some oc' \<and> expected_step vs ev x = Some x1
           \<and> sim vs h (oc_tracker oc') x1 \<and> history_ok (oc_tracker oc')
           \<and> (fe_kind ev \<noteq> ''NewBlock'' \<longrightarrow> dash_at h (if fe_kind ev = ''NewRound'' then fe_round ev else k) (oc_state oc'))"
proof -
  let ?i = "fe_validator ev" and ?a = "so_address (vs ! fe_validator ev)" and ?oc = "on_state (note_ws_event now) now oc"
  have d1: "dash_at h k (oc_state ?oc)" by (rule note_dash [OF d])
  have inv: "tracker_inv (oc_tracker oc)" using s by (simp add: sim_def)
  consider (block) "fe_kind ev = ''NewBlock''" | (round) "fe_kind ev = ''NewRound''" "?i < length vs" "in_limits x (fe_round ev)"
    | (vote) "fe_kind ev = ''Vote''" "?i < length vs" "in_limits x (fe_round ev)" "fe_phase ev = 1 \<or> fe_phase ev = 2"
    using ev(1) by (auto simp: event_ok_def split: if_splits)
  then show ?thesis
  proof cases
    case block
    have hash: "length (fe_hash ev) \<le> identity_limit" "xh_committed x \<longrightarrow> xh_canonical x = fe_hash ev"
      "to_lower (fe_hash ev) = fe_hash ev" using ev(1) block by (auto simp: event_ok_def)
    define b where "b = \<lparr>wb_height = h, wb_time = ts h 0 0, wb_proposer = so_address (vs ! nat (h mod int (length vs))),
        wb_app_hash = source_hash sha256 h 0 ''app'', wb_txs = 0, wb_hash = fe_hash ev\<rparr>"
    have e: "ws_event_of sha256 ts vs ev = WsNewBlock b" using ev(2,4) block by (simp add: ws_event_of_def source_event_def b_def)
    obtain t rs where t: "resolve_commit (oc_tracker ?oc) h (fe_hash ev) now = Some (t, rs)" "history_ok t"
      using resolve_commit_returns [OF inv hist, of h "fe_hash ev" now] by auto
    obtain oc' where oc': "handle_new_block b now ?oc = Some oc'" "oc_tracker oc' = t"
      using handle_new_block_tracker [OF d1 _ ev(3), of b now t rs] t(1) hash(3) by (auto simp: b_def)
    have "sim vs h t (with_commit x (fe_hash ev))" using resolve_commit_sim [OF s hash(1,2)] t(1) by simp
    then show ?thesis using oc' t(2) e expected_step_forms(1) [OF block] block by (auto simp: handle_ws_event_def Let_def)
  next
    case round
    note v = good_validator [OF g round(2)]
    define d0 where "d0 = \<lparr>wr_height = h, wr_round = fe_round ev, wr_step = ''RoundStepPropose'', wr_proposer = ?a\<rparr>"
    have e: "ws_event_of sha256 ts vs ev = WsNewRound d0" using ev(2) round(1) by (simp add: ws_event_of_def d0_def)
    have r: "wr_height d0 = h" "k \<le> wr_round d0" "0 \<le> wr_round d0" "wr_round d0 \<le> max_int32" "to_upper (wr_proposer d0) = ?a"
      using first round v(3) by (auto simp: d0_def in_limits_def)
    note t = handle_new_round_tracker [OF d1 r(1-4), of now]
    have o: "sim vs h (observe_round (oc_tracker oc) h (fe_round ev) ?a now) (with_round x (fe_round ev) (\<lambda>w. w\<lparr>xr_proposer := ?a\<rparr>))"
      by (rule observe_round_sim [OF s round(3) v(1,2) ev(3)])
    have "tracker_inv (observe_round (oc_tracker oc) h (fe_round ev) ?a now)" using o by (simp add: sim_def)
    from history_ops(3) [OF this history_ops(2) [OF inv hist]] history_ops(2) [OF inv hist]
    have "history_ok (oc_tracker (handle_new_round d0 now ?oc))" using t(1) r(5) by (simp add: Let_def d0_def)
    moreover have "sim vs h (oc_tracker (handle_new_round d0 now ?oc)) (with_round x (fe_round ev) (\<lambda>w. w\<lparr>xr_proposer := ?a\<rparr>))"
      using t(1) r(5) o mark_round_advanced_sim [OF o] by (simp add: Let_def d0_def)
    ultimately show ?thesis
      using e t(2) expected_step_forms(2) [OF round(1,2)] round(1) by (simp add: handle_ws_event_def Let_def d0_def)
  next
    case vote
    let ?x = "with_round x (fe_round ev) (note_expected_vote ?a (fe_phase ev) (fe_hash ev))"
    define tv where "tv = (\<lambda>_ :: fixture_event. ts h (fe_round ev) ?i)"
    let ?v = "source_vote vs tv ev"
    define w where "w = \<lparr>wv_type = fe_phase ev, wv_height = h, wv_round = fe_round ev, wv_hash = fe_hash ev,
        wv_timestamp = ts h (fe_round ev) ?i, wv_addr = ?a\<rparr>"
    have e: "ws_event_of sha256 ts vs ev = WsVote w" using ev(2) vote(1) by (simp add: ws_event_of_def w_def)
    note v = source_vote_ok [OF g ev(1) vote(1), of tv, unfolded ev(2), OF ev(3)]
    have dis: "distinct (map so_address vs)" using g by (simp add: good_validators_def)
    have r: "ve_round ?v = fe_round ev" "ve_height ?v = h" "ve_type ?v = phase_type (fe_phase ev)"
      using ev(2) by (simp_all add: source_vote_def)
    have wf: "wv_height w = h" "wv_round w \<le> k" "wv_type w = 1 \<or> wv_type w = 2" using late vote by (auto simp: w_def)
    have sv: "?v = \<lparr>ve_height = h, ve_round = wv_round w, ve_type = (if wv_type w = 1 then Prevote else Precommit),
        ve_addr = to_upper (wv_addr w), ve_hash = to_lower (wv_hash w), ve_timestamp = wv_timestamp w\<rparr>"
      by (simp add: source_vote_def w_def tv_def phase_type_def ev(2))
    have few: "length (wanted (note_expected_vote ?a (fe_phase ev) (fe_hash ev) (expectation x (fe_round ev))) ?a (fe_phase ev)) \<le> 4"
      using ev(1) vote(1) by (auto simp: event_ok_def Let_def)
    have o: "sim vs h (observe_vote (oc_tracker oc) ?v now) ?x"
      using observe_vote_sim [OF s _ dis v(1) r(2) _ _ r(3), of now] few vote(2-4) good_validator(4) [OF g vote(2)]
      by (simp add: r v)
    obtain t' res where i: "ingest_vote (observe_vote (oc_tracker oc) ?v now) ?v now = (t', res)" by (metis surj_pair)
    have o': "sim vs h t' ?x" by (rule ingest_vote_sim [OF s refl o i])
    have "oc_tracker ?oc = oc_tracker oc" by simp
    note t = handle_vote_tracker [OF d1 wf sv refl, of now, unfolded this i fst_conv]
    have h1: "history_ok (observe_vote (oc_tracker oc) ?v now)" by (rule history_ops(1) [OF inv hist])
    obtain rep trig where "res = (rep, trig)" by (metis surj_pair)
    then have h2: "history_ok t'" using history_ops(5) [OF _ h1] o i by (auto simp: sim_def)
    from t h1 h2 o o' have "sim vs h (oc_tracker (handle_vote w now ?oc)) ?x" "history_ok (oc_tracker (handle_vote w now ?oc))"
      by auto
    then show ?thesis
      using e t(2) expected_step_forms(3) [OF vote(1,2)] vote(1) by (simp add: handle_ws_event_def Let_def)
  qed
qed

section \<open>A height\<close>

text \<open>Rounds begin in order, votes are of rounds that have begun, and the block comes last.\<close>

fun in_order :: "int \<Rightarrow> fixture_event list \<Rightarrow> bool" where
  "in_order k [] \<longleftrightarrow> True"
| "in_order k (ev # evs) \<longleftrightarrow>
     (if fe_kind ev = ''NewRound'' then k \<le> fe_round ev \<and> in_order (fe_round ev) evs
      else if fe_kind ev = ''Vote'' then fe_round ev \<le> k \<and> in_order k evs
      else evs = [])"

definition message ::
  "(string \<Rightarrow> string) \<Rightarrow> (int \<Rightarrow> int \<Rightarrow> nat \<Rightarrow> string) \<Rightarrow> (fixture_event \<Rightarrow> json) \<Rightarrow> source_validator list \<Rightarrow> fixture_event \<Rightarrow> string" where
  "message sha256 tm rid vs ev = json_text (event_frame (rid ev) (event_value sha256 tm vs ev) ev)"

lemma read_message_text:
  assumes "source_event sha256 vs ev" and "\<And>h r i. pt (tm h r i) = Some (ts h r i)" and "json_ok (max_depth - 1) (rid ev)"
  shows "read_text pt (message sha256 tm rid vs ev) = EventFrame (ws_event_of sha256 ts vs ev)"
proof -
  obtain kvs where k: "event_frame (rid ev) (event_value sha256 tm vs ev) ev = JsObject kvs"
      "frame_of pt (response_of kvs) = EventFrame (ws_event_of sha256 ts vs ev)"
    using frame_of_emitted [where pt = pt and tm = tm and ts = ts and rid = "rid ev", OF assms(1,2)] by blast
  have "parse_json (message sha256 tm rid vs ev) = Some (JsObject kvs)"
    using json_round_trip [OF event_frame_ok [OF assms(3)], of sha256 tm vs ev] by (simp add: message_def k(1))
  then show ?thesis using k(2) by (simp add: read_text_def)
qed

lemma follow_sim:
  assumes g: "good_validators vs" and h: "0 < h" and pt: "\<And>h r i. pt (tm h r i) = Some (ts h r i)"
    and rid: "\<And>ev. json_ok (max_depth - 1) (rid ev)"
    and "sim vs h (oc_tracker oc) x" and "history_ok (oc_tracker oc)" and "dash_at h k (oc_state oc)"
    and "replay_ok vs h (map fst evs) x" and "in_order k (map fst evs)" and "list_all (source_event sha256 vs) (map fst evs)"
  shows "\<exists>oc' x1. follow pt (map (\<lambda>(ev, now). (message sha256 tm rid vs ev, now)) evs) oc = Some oc'
           \<and> fold (\<lambda>ev o1. Option.bind o1 (expected_step vs ev)) (map fst evs) (Some x) = Some x1 \<and> sim vs h (oc_tracker oc') x1"
  using assms(5-)
proof (induction evs arbitrary: oc x k)
  case (Cons evt evs)
  obtain ev now where evt: "evt = (ev, now)" by fastforce
  from Cons.prems(4,6) have ev: "event_ok vs ev x" "fe_height ev = h" "source_event sha256 vs ev" by (simp_all add: evt)
  have order: "fe_kind ev = ''NewRound'' \<longrightarrow> k \<le> fe_round ev" "fe_kind ev = ''Vote'' \<longrightarrow> fe_round ev \<le> k"
    using Cons.prems(5) by (auto simp: evt)
  from ws_event_sim [OF g Cons.prems(1-3) ev(1,2) h ev(3) order, of ts now] obtain oc1 x1 where
    s: "handle_ws_event (ws_event_of sha256 ts vs ev) now oc = Some oc1" "expected_step vs ev x = Some x1"
      "sim vs h (oc_tracker oc1) x1" "history_ok (oc_tracker oc1)"
      "fe_kind ev \<noteq> ''NewBlock'' \<longrightarrow> dash_at h (if fe_kind ev = ''NewRound'' then fe_round ev else k) (oc_state oc1)"
    by blast
  have r: "read_text pt (message sha256 tm rid vs ev) = EventFrame (ws_event_of sha256 ts vs ev)"
    by (rule read_message_text [where pt = pt and tm = tm and ts = ts and rid = rid, OF ev(3) pt rid])
  show ?case
  proof (cases "evs = []")
    case True
    then show ?thesis using r s by (simp add: evt)
  next
    case False
    then have k: "fe_kind ev \<noteq> ''NewBlock''"
        "in_order (if fe_kind ev = ''NewRound'' then fe_round ev else k) (map fst evs)"
      using Cons.prems(5) ev(3) by (auto simp: evt source_event_def split: if_splits)
    have "dash_at h (if fe_kind ev = ''NewRound'' then fe_round ev else k) (oc_state oc1)" using s(5) k(1) by blast
    from Cons.IH [OF s(3,4) this _ k(2)] Cons.prems(4,6) r s(1,2) show ?thesis by (simp add: evt)
  qed
qed simp

text \<open>The first event: as if the height had been entered before it.\<close>

lemma first_round:
  assumes d: "dash_at h k (oc_state oc)" and inv: "tracker_inv (oc_tracker oc)"
    and a: "archive_height (oc_tracker oc) h now = (t1, Some b)"
    and h: "tk_committed (oc_tracker oc) < h" "block_at (oc_tracker oc) h = None" "0 < h"
    and g: "good_validators vs" and ev: "event_ok vs ev x" "fe_height ev = h" "fe_kind ev = ''NewRound''" "k \<le> fe_round ev"
  shows "handle_ws_event (ws_event_of sha256 ts vs ev) now oc = handle_ws_event (ws_event_of sha256 ts vs ev) now (oc\<lparr>oc_tracker := t1\<rparr>)"
proof -
  let ?a = "so_address (vs ! fe_validator ev)" and ?oc = "on_state (note_ws_event now) now oc"
  define d0 where "d0 = \<lparr>wr_height = h, wr_round = fe_round ev, wr_step = ''RoundStepPropose'', wr_proposer = ?a\<rparr>"
  have e: "ws_event_of sha256 ts vs ev = WsNewRound d0" using ev(2,3) by (simp add: ws_event_of_def d0_def)
  have i: "fe_validator ev < length vs" "0 \<le> fe_round ev" "fe_round ev \<le> max_int32"
    using ev(1,3) by (auto simp: event_ok_def in_limits_def)
  note v = good_validator [OF g i(1)]
  have r: "wr_height d0 = h" "k \<le> wr_round d0" "0 \<le> wr_round d0" "wr_round d0 \<le> max_int32" "to_upper (wr_proposer d0) = ?a"
    using i v(3) ev(4) by (simp_all add: d0_def)
  have "observe_round (oc_tracker oc) h (wr_round d0) ?a now = observe_round t1 h (wr_round d0) ?a now"
    using entered_first(1) [OF inv a h r(3,4) v(2)] .
  then have "handle_new_round d0 now (?oc\<lparr>oc_tracker := t1\<rparr>) = handle_new_round d0 now ?oc"
    using handle_new_round_tracker(1,3) [OF note_dash [OF d] r(1-4), of now] r(5) by (simp add: Let_def)
  moreover have "on_state (note_ws_event now) now (oc\<lparr>oc_tracker := t1\<rparr>) = ?oc\<lparr>oc_tracker := t1\<rparr>" by (simp add: on_state_def)
  ultimately show ?thesis by (simp add: handle_ws_event_def Let_def e)
qed

section \<open>The scenario of the source\<close>

lemma votes_in_order:
  "list_all (\<lambda>ev. fe_kind ev = ''Vote'' \<and> fe_round ev \<le> r) vs \<Longrightarrow> in_order r (vs @ rest) = in_order r rest"
  by (induction vs) auto

lemma phase_votes_kind: "ev \<in> set (phase_votes sha256 h r vs p) \<Longrightarrow> fe_kind ev = ''Vote'' \<and> fe_round ev \<le> r"
  by (auto simp: phase_votes_def vote_event_of_def)

lemma round_in_order:
  assumes "k \<le> r" and "2 \<le> length vs"
  shows "in_order k (round_events sha256 h r vs @ rest) = in_order r rest"
proof -
  define votes where "votes = tl (round_events sha256 h r vs)"
  obtain v vs1 where v: "phase_votes sha256 h r vs 1 = v # vs1"
    using assms(2) by (cases "phase_votes sha256 h r vs 1") (auto simp: phase_votes_def)
  have "list_all (\<lambda>ev. fe_kind ev = ''Vote'' \<and> fe_round ev \<le> r) (phase_votes sha256 h r vs p)" for p
    unfolding list_all_iff using phase_votes_kind by blast
  from this [of 1] this [of 2] v have "list_all (\<lambda>ev. fe_kind ev = ''Vote'' \<and> fe_round ev \<le> r) votes"
    by (simp add: votes_def round_events_def Let_def vote_event_of_def)
  moreover have "round_events sha256 h r vs = round_event h r vs # votes" by (simp add: votes_def round_events_def Let_def)
  moreover have "fe_kind (round_event h r vs) = ''NewRound''" "fe_round (round_event h r vs) = r" by (simp_all add: round_event_def)
  ultimately show ?thesis using votes_in_order [of r votes rest] assms(1) by simp
qed

lemma scenario_in_order:
  assumes "2 \<le> length vs" and "sorted (k # rs)"
  shows "in_order (int k) (concat (map (\<lambda>r. round_events sha256 h (int r) vs) rs) @ [block_event sha256 h])"
  using assms(2)
proof (induction rs arbitrary: k)
  case (Cons r rs)
  have "in_order (int r) (concat (map (\<lambda>r. round_events sha256 h (int r) vs) rs) @ [block_event sha256 h])"
    by (rule Cons.IH) (use Cons.prems in simp)
  with round_in_order [OF _ assms(1), of "int k" "int r" sha256 h] Cons.prems show ?case by simp
qed (simp add: block_event_def)

lemma scenario_source:
  assumes "is_i64 h" and "2 \<le> length vs" and "int (length vs) \<le> int64_max" and "n \<le> 128"
  shows "list_all (source_event sha256 vs) (scenario sha256 vs h n)"
proof -
  have "source_event sha256 vs ev" if "scenario_event sha256 h (int n) vs ev" for ev
    using that assms by (auto simp: scenario_event_def source_event_def int64_min_def int64_max_def)
  moreover have "list_all (scenario_event sha256 h (int n) vs) (round_events sha256 h (int r) vs)" if "r < n" for r
    using round_events_scenario [OF _ _ assms(2), of "int r" "int n"] that by simp
  moreover have "source_event sha256 vs (block_event sha256 h)"
    using assms(1) by (simp add: source_event_def block_event_def int64_min_def int64_max_def)
  ultimately show ?thesis by (fastforce simp: scenario_def list_all_iff)
qed


definition run_source :: "source_validator list" where
  "run_source =
     [\<lparr>so_address = ''41'', so_key = [], so_moniker = [], so_power = 10\<rparr>,
      \<lparr>so_address = ''42'', so_key = [], so_moniker = [], so_power = 11\<rparr>]"

definition run_start :: "orch_input list" where
  "run_start = [InValidators (Inr ([(''A'', 10), (''B'', 11)], 4)) (Inl ''lcd'') 1]"

definition run_orchestrator :: orchestrator where
  "run_orchestrator = the (run_inputs run_start (new_orchestrator default_config 4 1 2))"

lemma hex_names: "address_text ''A'' = ''41''" "address_text ''B'' = ''42''"
  by code_simp+

lemma run_tracker:
  "oc_tracker run_orchestrator = set_validators (new_tracker default_config) (source_roster run_source)"
  "sd_committed (oc_state run_orchestrator) = 0" "sd_height (oc_state run_orchestrator) = 0"
  by (simp_all add: run_orchestrator_def run_start_def refresh_validators_def on_state_with_def apply_validators_def
      merge_validator_round_def new_orchestrator_def new_state_def emit_def power_entry_def hex_names source_roster_def
      run_source_def by_cons_addr_def Let_def)

lemma run_started:
  "run_inputs run_start (new_orchestrator default_config 4 1 2) = Some run_orchestrator"
  by (simp add: run_orchestrator_def run_start_def)

lemma run_known:
  "tk_validators (oc_tracker run_orchestrator) = roster_of (source_roster run_source)"
  "newest_height (oc_tracker run_orchestrator) 1000"
  unfolding run_tracker by (simp_all add: set_validators_def new_tracker_def default_config_def newest_height_def Let_def)


end
