(* ===== verification/Spec2Isabelle.thy ===== *)
theory Spec2Isabelle
  imports Tracker_Props Tracker_Demo Detector_Report Orchestrator_Props Bus_Props Comparison
    Log_Ring Rpc_Pool Validator_Pages Ws_Client Ws_Hub_Props Rounds_Cache_Props Rounds_Handler Config_Props
    Metrics Client_Ip Web_Api Ingest_Props Lcd_Querier Oracle_Props Tui_Props Launch_Props Load_Gates_Props
    Load_Session Replay_Props Node_Run
begin

text \<open>
  This is a verification development of cmt-top, a dashboard for chains that run CometBFT.  The program
  follows a node through its WebSocket events and its HTTP endpoints, detects when the votes of a consensus
  round split between two block hashes, and shows what it knows in a terminal, in browsers and to Prometheus.

  \<^bold>\<open>The program and its parts\<close>

  Events of the node are read by the WebSocket client (\<open>internal/chain/cometws\<close>), cross a bounded channel and
  are handled by the orchestrator (\<open>internal/core\<close>), which also polls the HTTP endpoints through a pool with
  failover (\<open>internal/chain/cometrpc\<close>) and the chain's REST interface (\<open>internal/cosmos\<close>).  The orchestrator
  updates the dashboard state (\<open>internal/state\<close>) and the divergence tracker with its archive of votes
  (\<open>internal/divergence\<close>), and publishes what happened on the event bus (\<open>internal/events\<close>).  The web server
  (\<open>internal/web\<close>), the terminal (\<open>internal/tui\<close>) and the collectors (\<open>internal/metrics\<close>) subscribe to the
  bus and read snapshots of state and tracker.  \<open>cmd/cmt-top\<close> wires them from a configuration
  (\<open>internal/config\<close>) and a logger (\<open>internal/obs\<close>); \<open>cmd/cmt-top-load\<close> puts load on the server and checks its
  answers against the independent oracle of a fake node (\<open>internal/testutil/replay\<close>).

  \<^bold>\<open>How code becomes definitions\<close>

  A struct is a \<open>record\<close>, an enumeration or tagged union a \<open>datatype\<close>, a method a function from the old value
  to the new one.  A panic is \<open>None\<close>, an \<open>error\<close> is \<open>Inl\<close> of its text.  Signed integers are \<open>int\<close>s with the
  wrap-around written out (\<open>i64\<close> in \<open>Prelude\<close>) where the code computes with values it did not bound, counters
  that only count up are words, voting powers that the code keeps in \<open>big.Int\<close> are \<open>int\<close>.  A Go map is an association list
  with distinct keys (\<open>gomap\<close>): an iteration follows the list, and lemmas show that what is reported does not
  depend on its order.  A finite \<open>float64\<close> is the rational it denotes, rounded by \<open>Float64\<close>.  Strings are lists of
  bytes.  The clock is an argument.  Goroutines are interleaved: each critical section, each channel operation
  is one step of a run, and the runs of a property are over every list of steps.  A buffered channel is a list
  with its capacity (\<open>Buffers\<close>).  Code outside the repository (HTTP, the WebSocket library, URL and address
  parsers, SHA-256, TOML) is a parameter of the definitions that use it; what is assumed of it is a premise.

  \<^bold>\<open>The theories\<close>

  \<^item> Foundations: \<open>Prelude\<close> (integers, Go maps, slices, sorting), \<open>Text\<close>, \<open>Text_Search\<close>, \<open>Decimal\<close>, \<open>Float64\<close>,
    \<open>Go_Format\<close> (\<open>strings\<close>, \<open>strconv\<close>, \<open>fmt\<close>), \<open>Buffers\<close> (channels and the locale of buffers that keep the newest values),
    \<open>Machines\<close> (runs and their invariants), \<open>Json\<close> and \<open>Json_Struct\<close> (\<open>encoding/json\<close>: encoder, lexer, parser, round trip, decoding into structs).

  \<^item> \<open>divergence/types.go\<close>, \<open>tracker.go\<close>, \<open>archive.go\<close>, \<open>archive_snapshot.go\<close>: \<open>Tracker_State\<close> (all data), \<open>Detector\<close>
    (\<open>ingest_vote\<close>, \<open>resolve_commit\<close> and the round reports), \<open>Archive\<close> (admission, votes, eviction, commits),
    \<open>Investigation\<close> (the views).  \<open>Archive_Inv\<close> and \<open>Detector_Inv\<close> hold the invariants, \<open>Tracker_Runs\<close> the tracker as
    a state machine over the calls of its interface, \<open>Tracker_Frame\<close>, \<open>Archive_Growth\<close>, \<open>Catalogue\<close>,
    \<open>Tracker_Facts\<close>, \<open>Investigation_Facts\<close> and \<open>Detector_Report\<close> what operations keep and reports say,
    \<open>Tracker_Props\<close> the properties, \<open>Tracker_Demo\<close> a split round for the witnesses.

  \<^item> \<open>state\<close> and \<open>core/transitions.go\<close>: \<open>Dash_State\<close>, \<open>Transitions\<close>.  \<open>core/orchestrator.go\<close>: \<open>Orchestrator\<close> (the handlers
    and refreshers), \<open>Orchestrator_Runs\<close>, \<open>Orchestrator_Inv\<close>, \<open>Orchestrator_Props\<close> (its runs over any input), \<open>Ingest\<close> and
    \<open>Ingest_Props\<close> (\<open>New\<close>, the channel from the client, the lifecycle hook, the polls).  \<open>core/comparison.go\<close>:
    \<open>Comparison\<close>.

  \<^item> \<open>events\<close>: \<open>Event_Bus\<close>, \<open>Bus_Props\<close>.  \<open>chain/cometrpc\<close>: \<open>Rpc_Pool\<close>, \<open>Validator_Pages\<close>.  \<open>chain/cometws\<close>: \<open>Ws_Client\<close>
    (states, attempts, backoff), \<open>Event_Decode\<close> (the messages).  \<open>cosmos/querier.go\<close>: \<open>Lcd_Querier\<close>.

  \<^item> \<open>web\<close>: \<open>Ws_Queue\<close> (\<open>ws_queue.go\<close>), \<open>Ws_Wire\<close> (\<open>ws_wire.go\<close>, \<open>ws_commands.go\<close>), \<open>Ws_Hub\<close> and \<open>Ws_Hub_Props\<close> (\<open>ws.go\<close>);
    \<open>Rounds_View\<close>, \<open>Rounds_Props\<close>, \<open>Report_Json\<close>, \<open>Rounds_Cache\<close>, \<open>Rounds_Cache_Props\<close> and \<open>Rounds_Handler\<close> (\<open>rounds.go\<close>,
    \<open>rounds_compact.go\<close>, \<open>rounds_cache.go\<close>); \<open>Client_Ip\<close> (\<open>budget.go\<close>); \<open>Web_Api\<close> (\<open>server.go\<close>, \<open>session.go\<close>).

  \<^item> \<open>Log_Ring\<close> (\<open>obs/log.go\<close>), \<open>Metrics\<close> (\<open>metrics\<close>), \<open>Tui\<close> and \<open>Tui_Props\<close> (\<open>tui.go\<close>), \<open>Config_Check\<close> and \<open>Config_Props\<close>
    (\<open>config.go\<close>), \<open>Launch\<close> and \<open>Launch_Props\<close> (\<open>cmd/cmt-top/main.go\<close>).

  \<^item> \<open>Load_Gates\<close>, \<open>Load_Gates_Props\<close>, \<open>Load_Run\<close>, \<open>Load_Session\<close> (\<open>cmd/cmt-top-load\<close>); \<open>Oracle\<close>, \<open>Oracle_Props\<close>,
    \<open>Replay_Server\<close>, \<open>Replay_Props\<close> (\<open>testutil/replay\<close>); \<open>Node_Frames\<close> and \<open>Node_Run\<close> put the fake node, the decoder, the
    orchestrator and the oracle together.

  \<^bold>\<open>What is shown\<close>

  \<^item> Tracker: at most one detection for a height, round and vote type, and each is a genuine split of more than
    two thirds of the power; evidence is never rewritten, the archive keeps its bounds, and an unchanged
    revision means an unchanged height.
  \<^item> Orchestrator: no input makes it panic for a sensible history size, apart from a nil block in the block-time poll; what it publishes is
    ordered, blocks are announced once, and state, tracker and bus keep their invariants.
  \<^item> Connections: the client's calls follow its protocol, its reconnects rotate with bounded backoff; the channel
    loses nothing it does not count; the pool fails over in order; pages are collected completely.
  \<^item> Browsers: the streams are numbered so that a gap is a counted drop, queues and clients stay within their
    limits, a cached report is the report a fresh build gives, the places in the lanes are those of the requests
    in flight, and no gated request is answered without the token.
  \<^item> Agreement of independent parts: every report the server serves parses and passes the gates of the load
    runner, a session of the runner never rejects the hub's stream, and a height that the fake node emits as
    text passes the oracle's check after it has gone through decoder, orchestrator and tracker.
  \<^item> The program: options take precedence as documented, only a validated configuration runs, and a failed
    service is not hidden.

  Bad behaviour is stated too: the configuration accepts a history size whose first commit panics, the REST
  pagination can be kept going for ever, concurrent publishers can lose two events and count one, and the
  block-time poll panics on a nil block.

  \<^bold>\<open>Bounds, fuel and loops\<close>

  No definition uses fuel.  Loops whose end depends on the data have a \<open>termination\<close> proof, or are
  \<open>partial_function (option)\<close> where they may not end: the cache's eviction, which is shown to end, and the REST
  pagination, which is shown not to.  The revision theorem holds for runs of fewer than \<open>2^57\<close> calls, so that
  the counters of a height can not wrap; history sizes are at most \<open>2^54\<close>, so that four times the size fits 64 bits.

  \<^bold>\<open>Interfaces\<close>

  Contracts that several components share are locales, interpreted on the model's definitions: \<open>keeps_newest\<close> and
  \<open>newest_buffer\<close> (the log ring, the bus's subscriptions), \<open>slice_less\<close> (every comparison that is handed to
  \<open>sort.Slice\<close>), \<open>machine\<close> and \<open>live_machine\<close> (the runs of the orchestrator, of the wired monitor and of the
  requests in flight, with their invariants).

  \<^bold>\<open>Not modelled\<close>

  \<^item> Transport and libraries: TLS, HTTP and WebSocket framing, pings and deadlines, the router and rate limiter,
    the TOML and URL parsers, the flag parser, Prometheus' registry and histograms, the circuit breaker's inside.
  \<^item> The terminal's drawing and layout, mouse input, colours; the embedded web assets and the build tags.
  \<^item> The writers behind the logger and its log lines; the aliasing that the deep copies of snapshots prevent.
  \<^item> In the load runner: sampling of the process's resources and the printing of the summary.
  \<^item> \<open>cmd/cmt-top-replay\<close> and \<open>web/testdata/dashboard\<close>: a main function around the fake node, and a fixture of
    canned data for visual checks; they have no logic of their own.
  \<^item> Real time: tickers and timers are steps that may happen at any moment, so nothing is said about how soon.
\<close>

end
